(* ===== verification/Prelude.thy ===== *)
theory Prelude
  imports Main "HOL-Library.Word"
begin

text \<open>
  Shared vocabulary of the development: byte strings, the machine arithmetic of
  \<open>size_t\<close>, the result type of operations that contain an \<open>assert\<close>, and
  generic list lemmas about in-place copies into a \<open>std::vector<char>\<close>.
  The collection \<open>code_simps\<close> gathers the equations that proofs about byte
  ranges use together.
\<close>

named_theorems byte_range \<open>lengths and contents of byte ranges\<close>

type_synonym bytes = "char list"

section \<open>Faults\<close>

text \<open>
  An operation that ends the process has no result. \<open>Assert_failed\<close> is a failing
  \<open>assert\<close> (the default build type of CMakeLists.txt is Debug, where asserts are
  live), \<open>Fatal\<close> is a \<open>LOG_FATAL\<close> or \<open>LOG_SYSFATAL\<close>, whose destructor calls \<open>abort\<close>,
  \<open>Null_deref\<close> is a call through a null smart pointer, and \<open>Out_of_range\<close> is a read of a
  range that does not lie in the buffer it points into.
\<close>

datatype fault = Assert_failed | Fatal | Null_deref | Out_of_range

definition ebind :: "'e + 'a \<Rightarrow> ('a \<Rightarrow> 'e + 'b) \<Rightarrow> 'e + 'b" where
  "ebind x f = (case x of Inl e \<Rightarrow> Inl e | Inr a \<Rightarrow> f a)"

lemma ebind_Inl [simp]: "ebind (Inl e) f = Inl e"
  by (simp add: ebind_def)

lemma ebind_Inr [simp]: "ebind (Inr a) f = f a"
  by (simp add: ebind_def)

lemma ebind_eq_Inr: "ebind x f = Inr b \<longleftrightarrow> (\<exists>a. x = Inr a \<and> f a = Inr b)"
  by (cases x) auto

section \<open>Machine integers\<close>

text \<open>
  \<open>size_t\<close> is modelled by \<^typ>\<open>nat\<close>. Subtraction is the one operation of the code that
  can leave the 64-bit range, so it is written out with its wrap-around.
\<close>

definition size_sub :: "nat \<Rightarrow> nat \<Rightarrow> nat" where
  "size_sub a b = (if b \<le> a then a - b else 2 ^ 64 + a - b)"

lemma size_sub_ge [simp]: "b \<le> a \<Longrightarrow> size_sub a b = a - b"
  by (simp add: size_sub_def)

lemma size_sub_wraps: "a < b \<Longrightarrow> b \<le> 2 ^ 64 \<Longrightarrow> size_sub a b = 2 ^ 64 - (b - a)"
  by (simp add: size_sub_def)

text \<open>The value of a (signed) \<open>char\<close> of the source as an integer.\<close>

definition schar :: "char \<Rightarrow> int" where
  "schar c = (let n = of_char c in if n < 128 then n else n - 256)"

lemma schar_lower: "- 128 \<le> schar c"
proof -
  have "(0 :: int) \<le> of_char c"
    by (metis of_nat_0_le_iff of_nat_of_char)
  then show ?thesis by (simp add: schar_def Let_def)
qed

lemma char_bound: "(of_char c :: nat) < 256"
  by simp

lemma schar_upper: "schar c < 128"
proof -
  have "(of_char c :: int) < 256"
    by (metis char_bound of_nat_less_numeral_iff of_nat_of_char)
  then show ?thesis by (simp add: schar_def Let_def)
qed

lemma schar_inject: "schar a = schar b \<longleftrightarrow> a = b"
proof
  have range: "0 \<le> (of_char c :: int) \<and> (of_char c :: int) < 256" for c
    by (metis of_nat_0_le_iff of_nat_less_numeral_iff of_nat_of_char char_bound)
  assume "schar a = schar b"
  then have "(of_char a :: int) = of_char b"
    using range [of a] range [of b] by (auto simp: schar_def Let_def split: if_splits)
  then show "a = b" by simp
qed simp

section \<open>Copies into a vector\<close>

text \<open>
  \<open>splice i xs bs\<close> is \<open>bs\<close> after \<open>std::copy(xs.begin(), xs.end(), bs.begin() + i)\<close>,
  for a destination range that lies inside \<open>bs\<close>.
\<close>

definition splice_at :: "nat \<Rightarrow> 'a list \<Rightarrow> 'a list \<Rightarrow> 'a list" where
  "splice_at i xs bs = take i bs @ xs @ drop (i + length xs) bs"

definition slice :: "nat \<Rightarrow> nat \<Rightarrow> 'a list \<Rightarrow> 'a list" where
  "slice i j xs = take (j - i) (drop i xs)"

definition vec_resize :: "'a \<Rightarrow> nat \<Rightarrow> 'a list \<Rightarrow> 'a list" where
  "vec_resize z n xs = take n xs @ replicate (n - length xs) z"

lemma length_splice_at [simp, byte_range]:
  "i + length xs \<le> length bs \<Longrightarrow> length (splice_at i xs bs) = length bs"
  by (simp add: splice_at_def)

lemma length_slice [simp, byte_range]: "length (slice i j xs) = min (j - i) (length xs - i)"
  by (simp add: slice_def)

lemma length_vec_resize [simp, byte_range]: "length (vec_resize z n xs) = n"
  by (simp add: vec_resize_def)

lemma slice_empty [simp]: "slice i i xs = []"
  by (simp add: slice_def)

lemma slice_append_splice [byte_range]:
  assumes "r \<le> w" and "w + length xs \<le> length bs"
  shows "slice r (w + length xs) (splice_at w xs bs) = slice r w bs @ xs"
proof -
  have "w + length xs - r = (w - r) + length xs" using assms by simp
  with assms show ?thesis
    by (simp add: slice_def splice_at_def drop_take)
qed

lemma slice_prepend_splice [byte_range]:
  assumes "length xs \<le> r" and "r \<le> w" and "w \<le> length bs"
  shows "slice (r - length xs) w (splice_at (r - length xs) xs bs) = xs @ slice r w bs"
  using assms by (simp add: slice_def splice_at_def)

lemma slice_at_splice [byte_range]:
  assumes "i + length xs \<le> length bs"
  shows "slice i (i + length xs) (splice_at i xs bs) = xs"
  using assms by (simp add: slice_def splice_at_def)

lemma slice_vec_resize [byte_range]:
  assumes "w \<le> n" and "w \<le> length bs"
  shows "slice r w (vec_resize z n bs) = slice r w bs"
proof (cases "r \<le> w")
  case True
  with assms show ?thesis by (simp add: slice_def vec_resize_def drop_take)
qed (simp add: slice_def)

lemma slice_drop [byte_range]: "slice (r + n) w bs = drop n (slice r w bs)"
  by (simp add: slice_def drop_take add.commute)

lemma take_slice [byte_range]: "r + n \<le> w \<Longrightarrow> take n (slice r w bs) = slice r (r + n) bs"
  by (simp add: slice_def)

section \<open>Big-endian integers\<close>

text \<open>The bytes of an \<open>n\<close>-byte integer in network order, and the value they spell.\<close>

fun be_bytes :: "nat \<Rightarrow> nat \<Rightarrow> bytes" where
  "be_bytes 0 x = []"
| "be_bytes (Suc n) x = char_of (x div 256 ^ n mod 256) # be_bytes n (x mod 256 ^ n)"

definition be_val :: "bytes \<Rightarrow> nat" where
  "be_val bs = foldl (\<lambda>a c. a * 256 + of_char c) 0 bs"

lemma length_be_bytes [simp]: "length (be_bytes n x) = n"
  by (induction n arbitrary: x) simp_all

lemma be_val_step:
  "foldl (\<lambda>a c. a * 256 + of_char c) a bs = a * 256 ^ length bs + be_val bs"
proof (induction bs arbitrary: a)
  case Nil
  show ?case by (simp add: be_val_def)
next
  case (Cons c bs)
  show ?case
    using Cons [of "a * 256 + of_char c"] Cons [of "of_char c"]
    by (simp add: be_val_def algebra_simps)
qed

lemma be_val_Cons: "be_val (c # bs) = of_char c * 256 ^ length bs + be_val bs"
  using be_val_step [of "of_char c" bs] by (simp add: be_val_def)

lemma be_val_be_bytes: "be_val (be_bytes n x) = x mod 256 ^ n"
proof (induction n arbitrary: x)
  case 0
  show ?case by (simp add: be_val_def)
next
  case (Suc n)
  have "(of_char (char_of (x div 256 ^ n mod 256) :: char) :: nat) = x div 256 ^ n mod 256"
    by simp
  then have "be_val (be_bytes (Suc n) x) = x div 256 ^ n mod 256 * 256 ^ n + x mod 256 ^ n"
    by (simp add: be_val_Cons Suc)
  also have "\<dots> = x mod (256 ^ n * 256)"
    by (simp only: mod_mult2_eq) simp
  finally show ?case by (simp add: mult.commute)
qed

section \<open>C strings\<close>

text \<open>The bytes before the first NUL, as \<open>c_str()\<close> and \<open>data()\<close> are read by the C library.\<close>

definition kNul :: char where "kNul = CHR 0x00"

definition c_str :: "bytes \<Rightarrow> bytes" where
  "c_str s = takeWhile (\<lambda>c. c \<noteq> kNul) s"

definition no_nul :: "bytes \<Rightarrow> bool" where
  "no_nul s \<longleftrightarrow> kNul \<notin> set s"

lemma no_nul_simps [simp]:
  "no_nul []" "no_nul (c # s) \<longleftrightarrow> c \<noteq> kNul \<and> no_nul s" "no_nul (s @ t) \<longleftrightarrow> no_nul s \<and> no_nul t"
  by (auto simp: no_nul_def)

lemma no_nul_take: "no_nul s \<Longrightarrow> no_nul (take n s)"
  by (auto simp: no_nul_def dest: in_set_takeD)

lemma no_nul_c_str: "no_nul s \<Longrightarrow> c_str s = s"
  by (auto simp: no_nul_def c_str_def takeWhile_eq_all_conv)

end
