(* ===== verification/Ragel.thy ===== *)
theory Ragel
  imports Prelude
begin

text \<open>
  The skeleton of the parsers that Ragel generates (\<open>http/http11_parser.cpp\<close>): a control
  state, one move per state and character, and actions with the position of the character.
  \<open>ragel_run\<close> is the execution loop over the characters that are left; a move to state 0
  stops at the character, an action with \<open>fbreak\<close> stops behind it. The locale states what
  the moves of a machine promise and derives from it how runs behave: what they consume,
  and how a run over two pieces of input relates to the runs over each.
\<close>

definition performs :: "('a \<Rightarrow> bool) \<Rightarrow> 'a list \<Rightarrow> bool" where
  "performs brk acts \<longleftrightarrow> list_ex brk acts"

fun ragel_run :: "(nat \<Rightarrow> bool) \<Rightarrow> (nat \<Rightarrow> char \<Rightarrow> 'a list \<times> nat) \<Rightarrow> ('a \<Rightarrow> bool)
    \<Rightarrow> (nat \<Rightarrow> 'a \<Rightarrow> 'm \<Rightarrow> 'm) \<Rightarrow> nat \<Rightarrow> bytes \<Rightarrow> nat \<Rightarrow> 'm \<Rightarrow> nat \<times> nat \<times> 'm" where
  "ragel_run valid step brk act p [] cs m = (p, cs, m)"
| "ragel_run valid step brk act p (c # s) cs m =
     (if \<not> valid cs then (p, cs, m)
      else (case step cs c of (acts, t) \<Rightarrow>
        if t = 0 then (p, 0, m)
        else if performs brk acts then (p + 1, t, fold (act p) acts m)
        else ragel_run valid step brk act (p + 1) s t (fold (act p) acts m)))"

text \<open>The state a run ends in does not depend on the position or the data.\<close>

fun ragel_cs :: "(nat \<Rightarrow> bool) \<Rightarrow> (nat \<Rightarrow> char \<Rightarrow> 'a list \<times> nat) \<Rightarrow> ('a \<Rightarrow> bool)
    \<Rightarrow> bytes \<Rightarrow> nat \<Rightarrow> nat" where
  "ragel_cs valid step brk [] cs = cs"
| "ragel_cs valid step brk (c # s) cs =
     (if \<not> valid cs then cs
      else (case step cs c of (acts, t) \<Rightarrow>
        if t = 0 then 0 else if performs brk acts then t else ragel_cs valid step brk s t))"

lemma ragel_run_cs: "ragel_run valid step brk act p s cs m = (p', cs', m') \<Longrightarrow> cs' = ragel_cs valid step brk s cs"
  by (induction valid step brk act p s cs m rule: ragel_run.induct)
     (auto split: if_splits prod.splits)

lemma ragel_run_bounds:
  "ragel_run valid step brk act p s cs m = (p', cs', m') \<Longrightarrow> p \<le> p' \<and> p' \<le> p + length s"
  by (induction valid step brk act p s cs m arbitrary: p' cs' m' rule: ragel_run.induct)
     (fastforce split: if_splits prod.splits)+

text \<open>A fact about the data that every action keeps, at its position, is kept by a run.\<close>

lemma ragel_run_inv:
  assumes "\<And>q a m. Q q m \<Longrightarrow> p \<le> q \<Longrightarrow> q < p + length s \<Longrightarrow> Q q (act q a m)"
    and "\<And>q m. Q q m \<Longrightarrow> Q (q + 1) m"
  shows "ragel_run valid step brk act p s cs m = (p', cs', m') \<Longrightarrow> Q p m \<Longrightarrow> Q p' m'"
  using assms
proof (induction valid step brk act p s cs m arbitrary: p' cs' m' rule: ragel_run.induct)
  case (2 valid step brk act p c s cs m)
  have fold: "Q p x \<Longrightarrow> Q p (fold (act p) as x)" for as x
    using 2(4) by (induction as arbitrary: x) simp_all
  show ?case
  proof (cases "valid cs \<and> snd (step cs c) \<noteq> 0")
    case False
    with 2(2,3) show ?thesis by (auto split: prod.splits if_splits)
  next
    case True
    obtain acts t where st: "step cs c = (acts, t)" by fastforce
    have Q1: "Q (p + 1) (fold (act p) acts m)" by (intro 2(5) fold 2(3))
    show ?thesis
    proof (cases "performs brk acts")
      case True
      with \<open>valid cs \<and> _\<close> st 2(2) Q1 show ?thesis by simp
    next
      case False
      have nf: "\<not> \<not> valid cs" "t \<noteq> 0" using True st by simp_all
      have run: "ragel_run valid step brk act (p + 1) s t (fold (act p) acts m) = (p', cs', m')"
        using 2(2) nf False st by simp
      show ?thesis by (rule 2(1) [OF nf(1) st [symmetric] nf(2) False run Q1]) (use 2(4,5) in auto)
    qed
  qed
qed simp

lemma ragel_run_loop:
  "valid cs \<Longrightarrow> cs \<noteq> 0 \<Longrightarrow> (\<And>c. c \<in> set s \<Longrightarrow> step cs c = ([], cs)) \<Longrightarrow>
     ragel_run valid step brk act p (s @ x) cs m = ragel_run valid step brk act (p + length s) x cs m"
  by (induction s arbitrary: p) (simp_all add: performs_def)

locale ragel_machine =
  fixes valid :: "nat \<Rightarrow> bool"
    and step :: "nat \<Rightarrow> char \<Rightarrow> 'a list \<times> nat"
    and brk :: "'a \<Rightarrow> bool"
    and first_final :: nat
  assumes not_zero: "\<not> valid 0" and zero_not_final: "0 < first_final"
    and target_valid: "valid cs \<Longrightarrow> step cs c = (acts, t) \<Longrightarrow> t = 0 \<or> valid t"
    and break_iff: "valid cs \<Longrightarrow> step cs c = (acts, t) \<Longrightarrow> performs brk acts \<longleftrightarrow> first_final \<le> t"
begin

abbreviation "run \<equiv> ragel_run valid step brk"
abbreviation "control \<equiv> ragel_cs valid step brk"

definition going :: "nat \<Rightarrow> bool" where
  "going cs \<longleftrightarrow> valid cs \<and> cs < first_final"

lemma going_cases: "valid cs \<Longrightarrow> step cs c = (acts, t) \<Longrightarrow>
    t = 0 \<or> performs brk acts \<and> first_final \<le> t \<or> \<not> performs brk acts \<and> going t"
  using target_valid [of cs c acts t] break_iff [of cs c acts t] by (auto simp: going_def)

lemma control_range: "valid cs \<Longrightarrow> control s cs = 0 \<or> valid (control s cs)"
  by (induction s arbitrary: cs) (auto split: prod.splits dest: target_valid)

lemma consumed_all: "run act p s cs m = (p', cs', m') \<Longrightarrow> going cs \<Longrightarrow> going cs' \<Longrightarrow> p' = p + length s"
proof (induction s arbitrary: p cs m)
  case (Cons c s)
  obtain acts t where st: "step cs c = (acts, t)" by fastforce
  have v: "valid cs" using Cons.prems(2) by (simp add: going_def)
  have "t \<noteq> 0 \<and> \<not> performs brk acts \<and> going t"
    using going_cases [OF v st] Cons.prems v st not_zero by (auto simp: going_def split: if_splits)
  with Cons.IH [of "p + 1" t] Cons.prems(1,3) v st show ?case by simp
qed simp

lemma run_append:
  "run act p s cs m = (p', cs', m') \<Longrightarrow> going cs \<Longrightarrow> going cs' \<Longrightarrow>
     run act p (s @ x) cs m = run act p' x cs' m'"
proof (induction s arbitrary: p cs m)
  case (Cons c s)
  obtain acts t where st: "step cs c = (acts, t)" by fastforce
  have v: "valid cs" using Cons.prems(2) by (simp add: going_def)
  have "t \<noteq> 0 \<and> \<not> performs brk acts \<and> going t"
    using going_cases [OF v st] Cons.prems v st not_zero by (auto simp: going_def split: if_splits)
  with Cons.IH [of "p + 1" t] Cons.prems(1,3) v st show ?case by simp
qed simp

lemma run_done_append:
  "run act p s cs m = (p', cs', m') \<Longrightarrow> going cs \<Longrightarrow> \<not> going cs' \<Longrightarrow>
     run act p (s @ x) cs m = (p', cs', m')"
proof (induction s arbitrary: p cs m)
  case (Cons c s)
  obtain acts t where st: "step cs c = (acts, t)" by fastforce
  have v: "valid cs" using Cons.prems(2) by (simp add: going_def)
  from going_cases [OF v st] Cons.IH [of "p + 1" t] Cons.prems v st show ?case
    by (auto split: if_splits)
qed simp

text \<open>While a run goes on, no action with \<open>fbreak\<close> has been performed.\<close>

lemma going_inv:
  assumes "\<And>q a m. Q m \<Longrightarrow> \<not> brk a \<Longrightarrow> Q (act q a m)"
  shows "run act p s cs m = (p', cs', m') \<Longrightarrow> going cs \<Longrightarrow> going cs' \<Longrightarrow> Q m \<Longrightarrow> Q m'"
proof (induction s arbitrary: p cs m)
  case (Cons c s)
  obtain acts t where st: "step cs c = (acts, t)" by fastforce
  have v: "valid cs" using Cons.prems(2) by (simp add: going_def)
  have nt: "t \<noteq> 0 \<and> \<not> performs brk acts \<and> going t"
    using going_cases [OF v st] Cons.prems v st not_zero by (auto simp: going_def split: if_splits)
  have "list_all (\<lambda>a. \<not> brk a) acts \<Longrightarrow> Q x \<Longrightarrow> Q (fold (act p) acts x)" for x
    by (induction acts arbitrary: x) (simp_all add: assms)
  then have "Q (fold (act p) acts m)"
    using nt Cons.prems(4) by (simp add: performs_def list_ex_iff list_all_iff)
  with Cons.IH [of "p + 1" t] Cons.prems(1,3) v st nt show ?case by simp
qed simp

lemma control_append:
  "going cs \<Longrightarrow> control (s @ x) cs = (if going (control s cs) then control x (control s cs) else control s cs)"
proof (induction s arbitrary: cs)
  case (Cons c s)
  obtain acts t where st: "step cs c = (acts, t)" by fastforce
  have v: "valid cs" using Cons.prems by (simp add: going_def)
  from going_cases [OF v st] Cons.IH [of t] v st not_zero show ?case by (auto simp: going_def)
qed simp

lemma final_not_going: "first_final \<le> cs \<Longrightarrow> \<not> going cs"
  by (simp add: going_def)

end

text \<open>The ranges given to callbacks: offset and length in the input.\<close>

definition fits :: "bytes \<Rightarrow> nat \<Rightarrow> nat \<Rightarrow> bool" where
  "fits buffer at len \<longleftrightarrow> at + len \<le> length buffer"

definition piece :: "bytes \<Rightarrow> nat \<Rightarrow> nat \<Rightarrow> bytes" where
  "piece buffer at len = slice at (at + len) buffer"

lemma piece_here: "drop p buffer = s @ x \<Longrightarrow> piece buffer p (length s) = s"
  by (simp add: piece_def slice_def)

lemma fits_here:
  assumes "drop p buffer = s @ x" and "s @ x \<noteq> []"
  shows "fits buffer p (length s)"
proof -
  have "length buffer - p = length s + length x" using arg_cong [OF assms(1), of length] by simp
  with assms show ?thesis by (cases "p \<le> length buffer") (auto simp: fits_def)
qed

lemma drop_past: "drop p buffer = s @ x \<Longrightarrow> drop (p + length s) buffer = x"
  by (metis add.commute append_eq_conv_conj drop_drop)

text \<open>The end of a line.\<close>

definition crlf :: bytes where
  "crlf = [CHR 0x0D, CHR 0x0A]"

end
