(* ===== verification/HttpActions.thy ===== *)
theory HttpActions
  imports Ragel "HOL-Library.Word"
begin

text \<open>
  The data of \<open>http/http11_parser.h\<close> and the actions of \<open>http/http11_parser.cpp\<close>. A callback
  gets a pointer into the input and a length; an event records the two as an offset and a
  number (\<open>PTR_TO\<close> and \<open>LEN\<close>, with the wrap-around of \<open>size_t\<close>), in the order of the calls.
  \<open>tr\<close>\<open>n\<close> is the block of the label of that name: its actions and the state it goes to.
\<close>

section \<open>The parser and its callbacks\<close>

datatype http_hook = HookField | HookMethod | HookUri | HookFragment | HookPath | HookQuery
  | HookVersion | HookHeaderDone

datatype http_event = Element http_hook nat nat | FieldEvent nat nat nat nat

record http_parser =
  pcs :: nat \<comment> \<open>the field \<open>cs\<close>\<close>
  body_start :: nat
  content_len :: int
  nread :: nat
  mark :: nat
  field_start :: nat
  field_len :: nat
  query_start :: nat
  xml_sent :: bool
  json_sent :: bool
  uri_relaxed :: bool
  hooks :: "http_hook list" \<comment> \<open>the callbacks that are not null\<close>
  emitted :: "http_event list"

section \<open>Actions\<close>

datatype http_action = Mark | StartField | WriteField | StartValue | WriteValue | RequestMethod
  | RequestUri | Fragment | StartQuery | QueryString | HttpVersion | RequestPath | DoneAct
  | XmlAct | JsonAct

definition emit :: "http_hook \<Rightarrow> http_event \<Rightarrow> http_parser \<Rightarrow> http_parser" where
  "emit h e m = (if h \<in> set (hooks m) then m\<lparr>emitted := emitted m @ [e]\<rparr> else m)"

definition len_from :: "nat \<Rightarrow> nat \<Rightarrow> nat" where
  "len_from fpc start = size_sub fpc start"

definition element_at :: "http_hook \<Rightarrow> nat \<Rightarrow> nat \<Rightarrow> http_parser \<Rightarrow> http_parser" where
  "element_at h start p m = emit h (Element h start (len_from p start)) m"

text \<open>\<open>pe\<close> is the end of the input; \<open>DoneAct\<close> ends with \<open>fbreak\<close>.\<close>

definition http_act :: "nat \<Rightarrow> nat \<Rightarrow> http_action \<Rightarrow> http_parser \<Rightarrow> http_parser" where
  "http_act pe p a m =
     (case a of
        Mark \<Rightarrow> m\<lparr>mark := p\<rparr>
      | StartField \<Rightarrow> m\<lparr>field_start := p\<rparr>
      | WriteField \<Rightarrow> m\<lparr>field_len := len_from p (field_start m)\<rparr>
      | StartValue \<Rightarrow> m\<lparr>mark := p\<rparr>
      | WriteValue \<Rightarrow> emit HookField
          (FieldEvent (field_start m) (field_len m) (mark m) (len_from p (mark m))) m
      | RequestMethod \<Rightarrow> element_at HookMethod (mark m) p m
      | RequestUri \<Rightarrow> element_at HookUri (mark m) p m
      | Fragment \<Rightarrow> element_at HookFragment (mark m) p m
      | StartQuery \<Rightarrow> m\<lparr>query_start := p\<rparr>
      | QueryString \<Rightarrow> element_at HookQuery (query_start m) p m
      | HttpVersion \<Rightarrow> element_at HookVersion (mark m) p m
      | RequestPath \<Rightarrow> element_at HookPath (mark m) p m
      | DoneAct \<Rightarrow>
          (if xml_sent m \<or> json_sent m
           then m\<lparr>body_start := mark m, content_len := int p - int (mark m) + 1\<rparr>
           else emit HookHeaderDone (Element HookHeaderDone (p + 1) (size_sub (size_sub pe p) 1))
                  (m\<lparr>body_start := p + 1\<rparr>))
      | XmlAct \<Rightarrow> m\<lparr>xml_sent := True\<rparr>
      | JsonAct \<Rightarrow> m\<lparr>json_sent := True\<rparr>)"

definition breaks :: "http_action \<Rightarrow> bool" where
  "breaks a \<longleftrightarrow> a = DoneAct"

section \<open>Moves\<close>

type_synonym move = "http_action list \<times> nat"

definition goto_st :: "nat \<Rightarrow> move" where
  "goto_st n = ([], n)"

text \<open>The widened character: 256 more when the condition on \<open>uri_relaxed\<close> holds.\<close>

definition widec :: "bool \<Rightarrow> int \<Rightarrow> int" where
  "widec relaxed c = (let w = 128 + (c - -128) in if relaxed then w + 256 else w)"

definition tr0 :: move where "tr0 = ([Mark], 2)"
definition tr2 :: move where "tr2 = ([Mark], 194)"
definition tr3 :: move where "tr3 = ([Mark], 198)"
definition tr4 :: move where "tr4 = ([RequestMethod], 3)"
definition tr6 :: move where "tr6 = ([Mark, RequestPath, RequestUri], 4)"
definition tr7 :: move where "tr7 = ([Mark], 19)"
definition tr8 :: move where "tr8 = ([Mark, RequestPath, RequestUri], 20)"
definition tr9 :: move where "tr9 = ([Mark], 24)"
definition tr10 :: move where "tr10 = ([Mark], 33)"
definition tr11 :: move where "tr11 = ([Mark, RequestPath], 29)"
definition tr12 :: move where "tr12 = ([Mark], 173)"
definition tr13 :: move where "tr13 = ([Mark], 5)"
definition tr21 :: move where "tr21 = ([HttpVersion], 13)"
definition tr22 :: move where "tr22 = ([HttpVersion], 17)"
definition tr23 :: move where "tr23 = ([StartField], 14)"
definition tr24 :: move where "tr24 = ([StartField, DoneAct], 348)"
definition tr25 :: move where "tr25 = ([StartField], 18)"
definition tr27 :: move where "tr27 = ([WriteField], 15)"
definition tr28 :: move where "tr28 = ([StartValue], 16)"
definition tr29 :: move where "tr29 = ([StartValue], 15)"
definition tr30 :: move where "tr30 = ([StartValue, WriteValue], 13)"
definition tr31 :: move where "tr31 = ([StartValue, WriteValue], 17)"
definition tr33 :: move where "tr33 = ([WriteValue], 13)"
definition tr34 :: move where "tr34 = ([WriteValue], 17)"
definition tr36 :: move where "tr36 = ([DoneAct], 348)"
definition tr37 :: move where "tr37 = ([RequestPath, RequestUri], 4)"
definition tr39 :: move where "tr39 = ([RequestPath, RequestUri], 20)"
definition tr42 :: move where "tr42 = ([RequestPath], 29)"
definition tr43 :: move where "tr43 = ([Mark], 21)"
definition tr44 :: move where "tr44 = ([Mark, Fragment], 4)"
definition tr45 :: move where "tr45 = ([Mark], 22)"
definition tr47 :: move where "tr47 = ([Fragment], 4)"
definition tr53 :: move where "tr53 = ([StartQuery], 30)"
definition tr54 :: move where "tr54 = ([StartQuery, QueryString, RequestUri], 4)"
definition tr55 :: move where "tr55 = ([StartQuery, QueryString, RequestUri], 20)"
definition tr56 :: move where "tr56 = ([StartQuery], 31)"
definition tr58 :: move where "tr58 = ([QueryString, RequestUri], 4)"
definition tr59 :: move where "tr59 = ([QueryString, RequestUri], 20)"
definition tr203 :: move where "tr203 = ([Mark], 26)"
definition tr204 :: move where "tr204 = ([Mark], 27)"
definition tr224 :: move where "tr224 = ([RequestPath], 196)"
definition tr227 :: move where "tr227 = ([XmlAct, DoneAct], 349)"
definition tr228 :: move where "tr228 = ([RequestPath], 199)"
definition tr232 :: move where "tr232 = ([Mark], 200)"
definition tr235 :: move where "tr235 = ([JsonAct, DoneAct], 349)"

lemmas tr_defs = tr0_def tr2_def tr3_def tr4_def tr6_def tr7_def tr8_def tr9_def tr10_def tr11_def tr12_def
  tr13_def tr21_def tr22_def tr23_def tr24_def tr25_def tr27_def tr28_def tr29_def tr30_def
  tr31_def tr33_def tr34_def tr36_def tr37_def tr39_def tr42_def tr43_def tr44_def tr45_def
  tr47_def tr53_def tr54_def tr55_def tr56_def tr58_def tr59_def tr203_def tr204_def tr224_def
  tr227_def tr228_def tr232_def tr235_def

text \<open>What the machine promises of a move.\<close>

definition http_first_final :: nat where "http_first_final = 348"

definition sound_move :: "move \<Rightarrow> bool" where
  "sound_move m \<longleftrightarrow> snd m \<le> 349 \<and> (performs breaks (fst m) \<longleftrightarrow> http_first_final \<le> snd m)
     \<and> (snd m = 0 \<longrightarrow> fst m = [])"

named_theorems http_moves

lemma sound_if [http_moves]:
  "sound_move (if b then x else y) \<longleftrightarrow> (b \<longrightarrow> sound_move x) \<and> (\<not> b \<longrightarrow> sound_move y)"
  by simp

lemma sound_let [http_moves]: "(\<And>w. sound_move (f w)) \<Longrightarrow> sound_move (Let e f)"
  by simp

lemma sound_goto [http_moves]: "n < 348 \<Longrightarrow> sound_move (goto_st n)"
  by (simp add: sound_move_def goto_st_def performs_def http_first_final_def)

lemma sound_tr [http_moves]:
  "sound_move tr0" "sound_move tr2" "sound_move tr3" "sound_move tr4" "sound_move tr6"
  "sound_move tr7" "sound_move tr8" "sound_move tr9" "sound_move tr10" "sound_move tr11"
  "sound_move tr12" "sound_move tr13" "sound_move tr21" "sound_move tr22" "sound_move tr23"
  "sound_move tr24" "sound_move tr25" "sound_move tr27" "sound_move tr28" "sound_move tr29"
  "sound_move tr30" "sound_move tr31" "sound_move tr33" "sound_move tr34" "sound_move tr36"
  "sound_move tr37" "sound_move tr39" "sound_move tr42" "sound_move tr43" "sound_move tr44"
  "sound_move tr45" "sound_move tr47" "sound_move tr53" "sound_move tr54" "sound_move tr55"
  "sound_move tr56" "sound_move tr58" "sound_move tr59" "sound_move tr203" "sound_move tr204"
  "sound_move tr224" "sound_move tr227" "sound_move tr228" "sound_move tr232" 
  "sound_move tr235"
  by (simp_all add: sound_move_def tr_defs performs_def breaks_def http_first_final_def)

end
