(* ===== verification/HttpStates1.thy ===== *)
theory HttpStates1
  imports HttpActions
begin

text \<open>
  States 1 to 70 of \<open>http/http11_parser.cpp\<close>: \<open>http_case\<close>\<open>n\<close> is the body of \<open>case n\<close> of
  \<open>http_parser_execute\<close>, as a function of \<open>uri_relaxed\<close> and of the character at \<open>p\<close>, read as
  a signed char. A \<open>goto tr\<close> or \<open>goto st\<close> is its result; where the code widens the character
  for the condition on \<open>uri_relaxed\<close>, the local \<open>_widec\<close> is \<open>w\<close>. The lemmas below each block say
  that every move of it is sound, for the laws of the machine.
\<close>

definition http_case1 :: "bool \<Rightarrow> int \<Rightarrow> move" where
  "http_case1 r c =
     (if c = 60 then tr2
      else if c = 64 then tr3
      else if c > 57 then (if 65 \<le> c \<and> c \<le> 90 then tr0
          else goto_st 0)
      else if c \<ge> 48 then tr0
      else goto_st 0)"

definition http_case2 :: "bool \<Rightarrow> int \<Rightarrow> move" where
  "http_case2 r c =
     (if c = 32 then tr4
      else if c > 57 then (if 65 \<le> c \<and> c \<le> 90 then goto_st 175
          else goto_st 0)
      else if c \<ge> 48 then goto_st 175
      else goto_st 0)"

definition http_case3 :: "bool \<Rightarrow> int \<Rightarrow> move" where
  "http_case3 r c =
     (let w = (if c < 123 then (if 94 \<le> c \<and> c \<le> 94 then widec r c
                 else c)
               else (if c > 123 then (if 125 \<le> c \<and> c \<le> 125 then widec r c
                 else c)
               else widec r c))
      in if w = 32 then tr6
          else if w = 33 then tr7
          else if w = 35 then tr8
          else if w = 37 then tr9
          else if w = 47 then tr10
          else if w = 59 \<or> w = 61 then tr7
          else if w = 63 then tr11
          else if w = 64 \<or> w = 95 \<or> w = 126 \<or> w = 606 \<or> w = 635
                \<or> w = 637 then tr7
          else if w < 65 then (if 36 \<le> w \<and> w \<le> 57 then tr7
              else goto_st 0)
          else if w > 90 then (if 97 \<le> w \<and> w \<le> 122 then tr12
              else goto_st 0)
          else tr12)"

definition http_case4 :: "bool \<Rightarrow> int \<Rightarrow> move" where
  "http_case4 r c =
     (if c = 72 then tr13
      else goto_st 0)"

definition http_case5 :: "bool \<Rightarrow> int \<Rightarrow> move" where
  "http_case5 r c =
     (if c = 84 then goto_st 6
      else goto_st 0)"

definition http_case6 :: "bool \<Rightarrow> int \<Rightarrow> move" where
  "http_case6 r c =
     (if c = 84 then goto_st 7
      else goto_st 0)"

definition http_case7 :: "bool \<Rightarrow> int \<Rightarrow> move" where
  "http_case7 r c =
     (if c = 80 then goto_st 8
      else goto_st 0)"

definition http_case8 :: "bool \<Rightarrow> int \<Rightarrow> move" where
  "http_case8 r c =
     (if c = 47 then goto_st 9
      else goto_st 0)"

definition http_case9 :: "bool \<Rightarrow> int \<Rightarrow> move" where
  "http_case9 r c =
     (if c = 49 then goto_st 10
      else goto_st 0)"

definition http_case10 :: "bool \<Rightarrow> int \<Rightarrow> move" where
  "http_case10 r c =
     (if c = 46 then goto_st 11
      else goto_st 0)"

lemma http_case1_10_sound:
  "sound_move (http_case1 r c)"
  "sound_move (http_case2 r c)"
  "sound_move (http_case3 r c)"
  "sound_move (http_case4 r c)"
  "sound_move (http_case5 r c)"
  "sound_move (http_case6 r c)"
  "sound_move (http_case7 r c)"
  "sound_move (http_case8 r c)"
  "sound_move (http_case9 r c)"
  "sound_move (http_case10 r c)"
  by (simp_all add: http_moves http_case1_def http_case2_def http_case3_def http_case4_def http_case5_def http_case6_def http_case7_def http_case8_def http_case9_def http_case10_def)

definition http_case11 :: "bool \<Rightarrow> int \<Rightarrow> move" where
  "http_case11 r c =
     (if 48 \<le> c \<and> c \<le> 49 then goto_st 12
      else goto_st 0)"

definition http_case12 :: "bool \<Rightarrow> int \<Rightarrow> move" where
  "http_case12 r c =
     (if c = 10 then tr21
      else if c = 13 then tr22
      else goto_st 0)"

definition http_case13 :: "bool \<Rightarrow> int \<Rightarrow> move" where
  "http_case13 r c =
     (if c = 10 then tr24
      else if c = 13 then tr25
      else if c = 33 \<or> c = 124 \<or> c = 126 then tr23
      else if c < 42 then (if c < 11 then (if 1 \<le> c \<and> c \<le> 8 then tr23
              else goto_st 0)
          else if c > 31 then (if 35 \<le> c \<and> c \<le> 39 then tr23
              else goto_st 0)
          else tr23)
      else if c > 43 then (if c < 48 then (if 45 \<le> c \<and> c \<le> 46 then tr23
              else goto_st 0)
          else if c > 57 then (if c > 90 then (if 94 \<le> c \<and> c \<le> 122 then tr23
                  else goto_st 0)
              else if c \<ge> 65 then tr23
              else goto_st 0)
          else tr23)
      else tr23)"

definition http_case14 :: "bool \<Rightarrow> int \<Rightarrow> move" where
  "http_case14 r c =
     (if c = 33 then goto_st 14
      else if c = 58 then tr27
      else if c = 124 \<or> c = 126 then goto_st 14
      else if c < 42 then (if c < 10 then (if 1 \<le> c \<and> c \<le> 8 then goto_st 14
              else goto_st 0)
          else if c > 31 then (if 35 \<le> c \<and> c \<le> 39 then goto_st 14
              else goto_st 0)
          else goto_st 14)
      else if c > 43 then (if c < 48 then (if 45 \<le> c \<and> c \<le> 46 then goto_st 14
              else goto_st 0)
          else if c > 57 then (if c > 90 then (if 94 \<le> c \<and> c \<le> 122 then goto_st 14
                  else goto_st 0)
              else if c \<ge> 65 then goto_st 14
              else goto_st 0)
          else goto_st 14)
      else goto_st 14)"

definition http_case15 :: "bool \<Rightarrow> int \<Rightarrow> move" where
  "http_case15 r c =
     (if c = 0 then goto_st 0
      else if c = 9 then tr29
      else if c = 10 then tr30
      else if c = 13 then tr31
      else if c = 32 then tr29
      else if c = 127 then goto_st 0
      else tr28)"

definition http_case16 :: "bool \<Rightarrow> int \<Rightarrow> move" where
  "http_case16 r c =
     (if c = 0 then goto_st 0
      else if c = 10 then tr33
      else if c = 13 then tr34
      else if c = 127 then goto_st 0
      else goto_st 16)"

definition http_case17 :: "bool \<Rightarrow> int \<Rightarrow> move" where
  "http_case17 r c =
     (if c = 10 then goto_st 13
      else goto_st 0)"

definition http_case18 :: "bool \<Rightarrow> int \<Rightarrow> move" where
  "http_case18 r c =
     (if c = 10 then tr36
      else if c = 33 then goto_st 14
      else if c = 58 then tr27
      else if c = 124 \<or> c = 126 then goto_st 14
      else if c < 42 then (if c < 11 then (if 1 \<le> c \<and> c \<le> 8 then goto_st 14
              else goto_st 0)
          else if c > 31 then (if 35 \<le> c \<and> c \<le> 39 then goto_st 14
              else goto_st 0)
          else goto_st 14)
      else if c > 43 then (if c < 48 then (if 45 \<le> c \<and> c \<le> 46 then goto_st 14
              else goto_st 0)
          else if c > 57 then (if c > 90 then (if 94 \<le> c \<and> c \<le> 122 then goto_st 14
                  else goto_st 0)
              else if c \<ge> 65 then goto_st 14
              else goto_st 0)
          else goto_st 14)
      else goto_st 14)"

definition http_case19 :: "bool \<Rightarrow> int \<Rightarrow> move" where
  "http_case19 r c =
     (let w = (if c < 123 then (if 94 \<le> c \<and> c \<le> 94 then widec r c
                 else c)
               else (if c > 123 then (if 125 \<le> c \<and> c \<le> 125 then widec r c
                 else c)
               else widec r c))
      in if w = 32 then tr37
          else if w = 33 then goto_st 19
          else if w = 35 then tr39
          else if w = 37 then goto_st 24
          else if w = 47 then goto_st 26
          else if w = 59 \<or> w = 61 then goto_st 19
          else if w = 63 then tr42
          else if w = 95 \<or> w = 126 \<or> w = 606 \<or> w = 635 \<or> w = 637 then goto_st 19
          else if w < 64 then (if 36 \<le> w \<and> w \<le> 57 then goto_st 19
              else goto_st 0)
          else if w > 90 then (if 97 \<le> w \<and> w \<le> 122 then goto_st 19
              else goto_st 0)
          else goto_st 19)"

definition http_case20 :: "bool \<Rightarrow> int \<Rightarrow> move" where
  "http_case20 r c =
     (let w = (if c < 123 then (if 94 \<le> c \<and> c \<le> 94 then widec r c
                 else c)
               else (if c > 123 then (if 125 \<le> c \<and> c \<le> 125 then widec r c
                 else c)
               else widec r c))
      in if w = 32 then tr44
          else if w = 33 then tr43
          else if w = 37 then tr45
          else if w = 61 \<or> w = 95 \<or> w = 126 \<or> w = 606 \<or> w = 635
                \<or> w = 637 then tr43
          else if w < 36 then (if w \<le> -1 then tr43
              else goto_st 0)
          else if w > 59 then (if w > 90 then (if 97 \<le> w \<and> w \<le> 122 then tr43
                  else goto_st 0)
              else if w \<ge> 63 then tr43
              else goto_st 0)
          else tr43)"

lemma http_case11_20_sound:
  "sound_move (http_case11 r c)"
  "sound_move (http_case12 r c)"
  "sound_move (http_case13 r c)"
  "sound_move (http_case14 r c)"
  "sound_move (http_case15 r c)"
  "sound_move (http_case16 r c)"
  "sound_move (http_case17 r c)"
  "sound_move (http_case18 r c)"
  "sound_move (http_case19 r c)"
  "sound_move (http_case20 r c)"
  by (simp_all add: http_moves http_case11_def http_case12_def http_case13_def http_case14_def http_case15_def http_case16_def http_case17_def http_case18_def http_case19_def http_case20_def)

definition http_case21 :: "bool \<Rightarrow> int \<Rightarrow> move" where
  "http_case21 r c =
     (let w = (if c < 123 then (if 94 \<le> c \<and> c \<le> 94 then widec r c
                 else c)
               else (if c > 123 then (if 125 \<le> c \<and> c \<le> 125 then widec r c
                 else c)
               else widec r c))
      in if w = 32 then tr47
          else if w = 33 then goto_st 21
          else if w = 37 then goto_st 22
          else if w = 61 \<or> w = 95 \<or> w = 126 \<or> w = 606 \<or> w = 635
                \<or> w = 637 then goto_st 21
          else if w < 36 then (if w \<le> -1 then goto_st 21
              else goto_st 0)
          else if w > 59 then (if w > 90 then (if 97 \<le> w \<and> w \<le> 122 then goto_st 21
                  else goto_st 0)
              else if w \<ge> 63 then goto_st 21
              else goto_st 0)
          else goto_st 21)"

definition http_case22 :: "bool \<Rightarrow> int \<Rightarrow> move" where
  "http_case22 r c =
     (if c < 65 then (if 48 \<le> c \<and> c \<le> 57 then goto_st 23
          else goto_st 0)
      else if c > 70 then (if 97 \<le> c \<and> c \<le> 102 then goto_st 23
          else goto_st 0)
      else goto_st 23)"

definition http_case23 :: "bool \<Rightarrow> int \<Rightarrow> move" where
  "http_case23 r c =
     (if c < 65 then (if 48 \<le> c \<and> c \<le> 57 then goto_st 21
          else goto_st 0)
      else if c > 70 then (if 97 \<le> c \<and> c \<le> 102 then goto_st 21
          else goto_st 0)
      else goto_st 21)"

definition http_case24 :: "bool \<Rightarrow> int \<Rightarrow> move" where
  "http_case24 r c =
     (if c < 65 then (if 48 \<le> c \<and> c \<le> 57 then goto_st 25
          else goto_st 0)
      else if c > 70 then (if 97 \<le> c \<and> c \<le> 102 then goto_st 25
          else goto_st 0)
      else goto_st 25)"

definition http_case25 :: "bool \<Rightarrow> int \<Rightarrow> move" where
  "http_case25 r c =
     (if c < 65 then (if 48 \<le> c \<and> c \<le> 57 then goto_st 19
          else goto_st 0)
      else if c > 70 then (if 97 \<le> c \<and> c \<le> 102 then goto_st 19
          else goto_st 0)
      else goto_st 19)"

definition http_case26 :: "bool \<Rightarrow> int \<Rightarrow> move" where
  "http_case26 r c =
     (let w = (if c < 123 then (if 94 \<le> c \<and> c \<le> 94 then widec r c
                 else c)
               else (if c > 123 then (if 125 \<le> c \<and> c \<le> 125 then widec r c
                 else c)
               else widec r c))
      in if w = 32 then tr37
          else if w = 33 then goto_st 26
          else if w = 35 then tr39
          else if w = 37 then goto_st 27
          else if w = 61 then goto_st 26
          else if w = 63 then tr42
          else if w = 95 \<or> w = 126 \<or> w = 606 \<or> w = 635 \<or> w = 637 then goto_st 26
          else if w < 36 then (if w \<le> -1 then goto_st 26
              else goto_st 0)
          else if w > 59 then (if w > 90 then (if 97 \<le> w \<and> w \<le> 122 then goto_st 26
                  else goto_st 0)
              else if w \<ge> 64 then goto_st 26
              else goto_st 0)
          else goto_st 26)"

definition http_case27 :: "bool \<Rightarrow> int \<Rightarrow> move" where
  "http_case27 r c =
     (if c < 65 then (if 48 \<le> c \<and> c \<le> 57 then goto_st 28
          else goto_st 0)
      else if c > 70 then (if 97 \<le> c \<and> c \<le> 102 then goto_st 28
          else goto_st 0)
      else goto_st 28)"

definition http_case28 :: "bool \<Rightarrow> int \<Rightarrow> move" where
  "http_case28 r c =
     (if c < 65 then (if 48 \<le> c \<and> c \<le> 57 then goto_st 26
          else goto_st 0)
      else if c > 70 then (if 97 \<le> c \<and> c \<le> 102 then goto_st 26
          else goto_st 0)
      else goto_st 26)"

definition http_case29 :: "bool \<Rightarrow> int \<Rightarrow> move" where
  "http_case29 r c =
     (let w = (if c < 123 then (if 94 \<le> c \<and> c \<le> 94 then widec r c
                 else c)
               else (if c > 123 then (if 125 \<le> c \<and> c \<le> 125 then widec r c
                 else c)
               else widec r c))
      in if w = 32 then tr54
          else if w = 33 then tr53
          else if w = 35 then tr55
          else if w = 37 then tr56
          else if w = 61 \<or> w = 95 \<or> w = 126 \<or> w = 606 \<or> w = 635
                \<or> w = 637 then tr53
          else if w < 36 then (if w \<le> -1 then tr53
              else goto_st 0)
          else if w > 59 then (if w > 90 then (if 97 \<le> w \<and> w \<le> 122 then tr53
                  else goto_st 0)
              else if w \<ge> 63 then tr53
              else goto_st 0)
          else tr53)"

definition http_case30 :: "bool \<Rightarrow> int \<Rightarrow> move" where
  "http_case30 r c =
     (let w = (if c < 123 then (if 94 \<le> c \<and> c \<le> 94 then widec r c
                 else c)
               else (if c > 123 then (if 125 \<le> c \<and> c \<le> 125 then widec r c
                 else c)
               else widec r c))
      in if w = 32 then tr58
          else if w = 33 then goto_st 30
          else if w = 35 then tr59
          else if w = 37 then goto_st 31
          else if w = 61 \<or> w = 95 \<or> w = 126 \<or> w = 606 \<or> w = 635
                \<or> w = 637 then goto_st 30
          else if w < 36 then (if w \<le> -1 then goto_st 30
              else goto_st 0)
          else if w > 59 then (if w > 90 then (if 97 \<le> w \<and> w \<le> 122 then goto_st 30
                  else goto_st 0)
              else if w \<ge> 63 then goto_st 30
              else goto_st 0)
          else goto_st 30)"

lemma http_case21_30_sound:
  "sound_move (http_case21 r c)"
  "sound_move (http_case22 r c)"
  "sound_move (http_case23 r c)"
  "sound_move (http_case24 r c)"
  "sound_move (http_case25 r c)"
  "sound_move (http_case26 r c)"
  "sound_move (http_case27 r c)"
  "sound_move (http_case28 r c)"
  "sound_move (http_case29 r c)"
  "sound_move (http_case30 r c)"
  by (simp_all add: http_moves http_case21_def http_case22_def http_case23_def http_case24_def http_case25_def http_case26_def http_case27_def http_case28_def http_case29_def http_case30_def)

definition http_case31 :: "bool \<Rightarrow> int \<Rightarrow> move" where
  "http_case31 r c =
     (if c < 65 then (if 48 \<le> c \<and> c \<le> 57 then goto_st 32
          else goto_st 0)
      else if c > 70 then (if 97 \<le> c \<and> c \<le> 102 then goto_st 32
          else goto_st 0)
      else goto_st 32)"

definition http_case32 :: "bool \<Rightarrow> int \<Rightarrow> move" where
  "http_case32 r c =
     (if c < 65 then (if 48 \<le> c \<and> c \<le> 57 then goto_st 30
          else goto_st 0)
      else if c > 70 then (if 97 \<le> c \<and> c \<le> 102 then goto_st 30
          else goto_st 0)
      else goto_st 30)"

definition http_case33 :: "bool \<Rightarrow> int \<Rightarrow> move" where
  "http_case33 r c =
     (let w = (if c < 123 then (if 94 \<le> c \<and> c \<le> 94 then widec r c
                 else c)
               else (if c > 123 then (if 125 \<le> c \<and> c \<le> 125 then widec r c
                 else c)
               else widec r c))
      in if w = 32 then tr37
          else if w = 33 then goto_st 26
          else if w = 35 then tr39
          else if w = 37 then goto_st 27
          else if w = 47 then goto_st 34
          else if w = 61 then goto_st 26
          else if w = 63 then tr42
          else if w = 95 \<or> w = 126 \<or> w = 606 \<or> w = 635 \<or> w = 637 then goto_st 26
          else if w < 36 then (if w \<le> -1 then goto_st 26
              else goto_st 0)
          else if w > 59 then (if w > 90 then (if 97 \<le> w \<and> w \<le> 122 then goto_st 26
                  else goto_st 0)
              else if w \<ge> 64 then goto_st 26
              else goto_st 0)
          else goto_st 26)"

definition http_case34 :: "bool \<Rightarrow> int \<Rightarrow> move" where
  "http_case34 r c =
     (let w = (if c < 123 then (if 94 \<le> c \<and> c \<le> 94 then widec r c
                 else c)
               else (if c > 123 then (if 125 \<le> c \<and> c \<le> 125 then widec r c
                 else c)
               else widec r c))
      in if w = 32 then tr37
          else if w = 33 then goto_st 35
          else if w = 35 then tr39
          else if w = 37 then goto_st 36
          else if w = 47 then goto_st 26
          else if w = 58 then goto_st 38
          else if w = 61 then goto_st 35
          else if w = 63 then tr42
          else if w = 64 then goto_st 42
          else if w = 91 then goto_st 47
          else if w = 95 \<or> w = 126 \<or> w = 606 \<or> w = 635 \<or> w = 637 then goto_st 35
          else if w < 65 then (if 36 \<le> w \<and> w \<le> 59 then goto_st 35
              else goto_st 0)
          else if w > 90 then (if 97 \<le> w \<and> w \<le> 122 then goto_st 35
              else goto_st 0)
          else goto_st 35)"

definition http_case35 :: "bool \<Rightarrow> int \<Rightarrow> move" where
  "http_case35 r c =
     (let w = (if c < 123 then (if 94 \<le> c \<and> c \<le> 94 then widec r c
                 else c)
               else (if c > 123 then (if 125 \<le> c \<and> c \<le> 125 then widec r c
                 else c)
               else widec r c))
      in if w = 32 then tr37
          else if w = 33 then goto_st 35
          else if w = 35 then tr39
          else if w = 37 then goto_st 36
          else if w = 47 then goto_st 26
          else if w = 58 then goto_st 38
          else if w = 61 then goto_st 35
          else if w = 63 then tr42
          else if w = 64 then goto_st 42
          else if w = 95 \<or> w = 126 \<or> w = 606 \<or> w = 635 \<or> w = 637 then goto_st 35
          else if w < 65 then (if 36 \<le> w \<and> w \<le> 59 then goto_st 35
              else goto_st 0)
          else if w > 90 then (if 97 \<le> w \<and> w \<le> 122 then goto_st 35
              else goto_st 0)
          else goto_st 35)"

definition http_case36 :: "bool \<Rightarrow> int \<Rightarrow> move" where
  "http_case36 r c =
     (if c < 65 then (if 48 \<le> c \<and> c \<le> 57 then goto_st 37
          else goto_st 0)
      else if c > 70 then (if 97 \<le> c \<and> c \<le> 102 then goto_st 37
          else goto_st 0)
      else goto_st 37)"

definition http_case37 :: "bool \<Rightarrow> int \<Rightarrow> move" where
  "http_case37 r c =
     (if c < 65 then (if 48 \<le> c \<and> c \<le> 57 then goto_st 35
          else goto_st 0)
      else if c > 70 then (if 97 \<le> c \<and> c \<le> 102 then goto_st 35
          else goto_st 0)
      else goto_st 35)"

definition http_case38 :: "bool \<Rightarrow> int \<Rightarrow> move" where
  "http_case38 r c =
     (let w = (if c < 123 then (if 94 \<le> c \<and> c \<le> 94 then widec r c
                 else c)
               else (if c > 123 then (if 125 \<le> c \<and> c \<le> 125 then widec r c
                 else c)
               else widec r c))
      in if w = 32 then tr37
          else if w = 33 then goto_st 39
          else if w = 35 then tr39
          else if w = 37 then goto_st 40
          else if w = 47 then goto_st 26
          else if w = 61 then goto_st 39
          else if w = 63 then tr42
          else if w = 64 then goto_st 42
          else if w = 95 \<or> w = 126 \<or> w = 606 \<or> w = 635 \<or> w = 637 then goto_st 39
          else if w < 58 then (if w > 46 then (if 48 \<le> w \<and> w \<le> 57 then goto_st 38
                  else goto_st 0)
              else if w \<ge> 36 then goto_st 39
              else goto_st 0)
          else if w > 59 then (if w > 90 then (if 97 \<le> w \<and> w \<le> 122 then goto_st 39
                  else goto_st 0)
              else if w \<ge> 65 then goto_st 39
              else goto_st 0)
          else goto_st 39)"

definition http_case39 :: "bool \<Rightarrow> int \<Rightarrow> move" where
  "http_case39 r c =
     (let w = (if c < 123 then (if 94 \<le> c \<and> c \<le> 94 then widec r c
                 else c)
               else (if c > 123 then (if 125 \<le> c \<and> c \<le> 125 then widec r c
                 else c)
               else widec r c))
      in if w = 33 then goto_st 39
          else if w = 37 then goto_st 40
          else if w = 61 then goto_st 39
          else if w = 64 then goto_st 42
          else if w = 95 \<or> w = 126 \<or> w = 606 \<or> w = 635 \<or> w = 637 then goto_st 39
          else if w < 48 then (if 36 \<le> w \<and> w \<le> 46 then goto_st 39
              else goto_st 0)
          else if w > 59 then (if w > 90 then (if 97 \<le> w \<and> w \<le> 122 then goto_st 39
                  else goto_st 0)
              else if w \<ge> 65 then goto_st 39
              else goto_st 0)
          else goto_st 39)"

definition http_case40 :: "bool \<Rightarrow> int \<Rightarrow> move" where
  "http_case40 r c =
     (if c < 65 then (if 48 \<le> c \<and> c \<le> 57 then goto_st 41
          else goto_st 0)
      else if c > 70 then (if 97 \<le> c \<and> c \<le> 102 then goto_st 41
          else goto_st 0)
      else goto_st 41)"

lemma http_case31_40_sound:
  "sound_move (http_case31 r c)"
  "sound_move (http_case32 r c)"
  "sound_move (http_case33 r c)"
  "sound_move (http_case34 r c)"
  "sound_move (http_case35 r c)"
  "sound_move (http_case36 r c)"
  "sound_move (http_case37 r c)"
  "sound_move (http_case38 r c)"
  "sound_move (http_case39 r c)"
  "sound_move (http_case40 r c)"
  by (simp_all add: http_moves http_case31_def http_case32_def http_case33_def http_case34_def http_case35_def http_case36_def http_case37_def http_case38_def http_case39_def http_case40_def)

definition http_case41 :: "bool \<Rightarrow> int \<Rightarrow> move" where
  "http_case41 r c =
     (if c < 65 then (if 48 \<le> c \<and> c \<le> 57 then goto_st 39
          else goto_st 0)
      else if c > 70 then (if 97 \<le> c \<and> c \<le> 102 then goto_st 39
          else goto_st 0)
      else goto_st 39)"

definition http_case42 :: "bool \<Rightarrow> int \<Rightarrow> move" where
  "http_case42 r c =
     (let w = (if c < 123 then (if 94 \<le> c \<and> c \<le> 94 then widec r c
                 else c)
               else (if c > 123 then (if 125 \<le> c \<and> c \<le> 125 then widec r c
                 else c)
               else widec r c))
      in if w = 32 then tr37
          else if w = 33 then goto_st 43
          else if w = 35 then tr39
          else if w = 37 then goto_st 44
          else if w = 47 then goto_st 26
          else if w = 58 then goto_st 46
          else if w = 61 then goto_st 43
          else if w = 63 then tr42
          else if w = 91 then goto_st 47
          else if w = 95 \<or> w = 126 \<or> w = 606 \<or> w = 635 \<or> w = 637 then goto_st 43
          else if w < 65 then (if 36 \<le> w \<and> w \<le> 59 then goto_st 43
              else goto_st 0)
          else if w > 90 then (if 97 \<le> w \<and> w \<le> 122 then goto_st 43
              else goto_st 0)
          else goto_st 43)"

definition http_case43 :: "bool \<Rightarrow> int \<Rightarrow> move" where
  "http_case43 r c =
     (let w = (if c < 123 then (if 94 \<le> c \<and> c \<le> 94 then widec r c
                 else c)
               else (if c > 123 then (if 125 \<le> c \<and> c \<le> 125 then widec r c
                 else c)
               else widec r c))
      in if w = 32 then tr37
          else if w = 33 then goto_st 43
          else if w = 35 then tr39
          else if w = 37 then goto_st 44
          else if w = 47 then goto_st 26
          else if w = 58 then goto_st 46
          else if w = 61 then goto_st 43
          else if w = 63 then tr42
          else if w = 95 \<or> w = 126 \<or> w = 606 \<or> w = 635 \<or> w = 637 then goto_st 43
          else if w < 65 then (if 36 \<le> w \<and> w \<le> 59 then goto_st 43
              else goto_st 0)
          else if w > 90 then (if 97 \<le> w \<and> w \<le> 122 then goto_st 43
              else goto_st 0)
          else goto_st 43)"

definition http_case44 :: "bool \<Rightarrow> int \<Rightarrow> move" where
  "http_case44 r c =
     (if c < 65 then (if 48 \<le> c \<and> c \<le> 57 then goto_st 45
          else goto_st 0)
      else if c > 70 then (if 97 \<le> c \<and> c \<le> 102 then goto_st 45
          else goto_st 0)
      else goto_st 45)"

definition http_case45 :: "bool \<Rightarrow> int \<Rightarrow> move" where
  "http_case45 r c =
     (if c < 65 then (if 48 \<le> c \<and> c \<le> 57 then goto_st 43
          else goto_st 0)
      else if c > 70 then (if 97 \<le> c \<and> c \<le> 102 then goto_st 43
          else goto_st 0)
      else goto_st 43)"

definition http_case46 :: "bool \<Rightarrow> int \<Rightarrow> move" where
  "http_case46 r c =
     (if c = 32 then tr37
      else if c = 35 then tr39
      else if c = 47 then goto_st 26
      else if c = 63 then tr42
      else if 48 \<le> c \<and> c \<le> 57 then goto_st 46
      else goto_st 0)"

definition http_case47 :: "bool \<Rightarrow> int \<Rightarrow> move" where
  "http_case47 r c =
     (if c = 6 then goto_st 48
      else if c = 58 then goto_st 167
      else if c = 118 then goto_st 169
      else if c < 65 then (if 48 \<le> c \<and> c \<le> 57 then goto_st 91
          else goto_st 0)
      else if c > 70 then (if 97 \<le> c \<and> c \<le> 102 then goto_st 91
          else goto_st 0)
      else goto_st 91)"

definition http_case48 :: "bool \<Rightarrow> int \<Rightarrow> move" where
  "http_case48 r c =
     (if c < 65 then (if 48 \<le> c \<and> c \<le> 57 then goto_st 49
          else goto_st 0)
      else if c > 70 then (if 97 \<le> c \<and> c \<le> 102 then goto_st 49
          else goto_st 0)
      else goto_st 49)"

definition http_case49 :: "bool \<Rightarrow> int \<Rightarrow> move" where
  "http_case49 r c =
     (if c = 58 then goto_st 53
      else if c < 65 then (if 48 \<le> c \<and> c \<le> 57 then goto_st 50
          else goto_st 0)
      else if c > 70 then (if 97 \<le> c \<and> c \<le> 102 then goto_st 50
          else goto_st 0)
      else goto_st 50)"

definition http_case50 :: "bool \<Rightarrow> int \<Rightarrow> move" where
  "http_case50 r c =
     (if c = 58 then goto_st 53
      else if c < 65 then (if 48 \<le> c \<and> c \<le> 57 then goto_st 51
          else goto_st 0)
      else if c > 70 then (if 97 \<le> c \<and> c \<le> 102 then goto_st 51
          else goto_st 0)
      else goto_st 51)"

lemma http_case41_50_sound:
  "sound_move (http_case41 r c)"
  "sound_move (http_case42 r c)"
  "sound_move (http_case43 r c)"
  "sound_move (http_case44 r c)"
  "sound_move (http_case45 r c)"
  "sound_move (http_case46 r c)"
  "sound_move (http_case47 r c)"
  "sound_move (http_case48 r c)"
  "sound_move (http_case49 r c)"
  "sound_move (http_case50 r c)"
  by (simp_all add: http_moves http_case41_def http_case42_def http_case43_def http_case44_def http_case45_def http_case46_def http_case47_def http_case48_def http_case49_def http_case50_def)

definition http_case51 :: "bool \<Rightarrow> int \<Rightarrow> move" where
  "http_case51 r c =
     (if c = 58 then goto_st 53
      else if c < 65 then (if 48 \<le> c \<and> c \<le> 57 then goto_st 52
          else goto_st 0)
      else if c > 70 then (if 97 \<le> c \<and> c \<le> 102 then goto_st 52
          else goto_st 0)
      else goto_st 52)"

definition http_case52 :: "bool \<Rightarrow> int \<Rightarrow> move" where
  "http_case52 r c =
     (if c = 58 then goto_st 53
      else goto_st 0)"

definition http_case53 :: "bool \<Rightarrow> int \<Rightarrow> move" where
  "http_case53 r c =
     (if c = 49 then goto_st 84
      else if c = 50 then goto_st 87
      else if c < 65 then (if 48 \<le> c \<and> c \<le> 57 then goto_st 54
          else goto_st 0)
      else if c > 70 then (if 97 \<le> c \<and> c \<le> 102 then goto_st 90
          else goto_st 0)
      else goto_st 90)"

definition http_case54 :: "bool \<Rightarrow> int \<Rightarrow> move" where
  "http_case54 r c =
     (if c = 46 then goto_st 55
      else if c = 58 then goto_st 80
      else if c < 65 then (if 48 \<le> c \<and> c \<le> 57 then goto_st 77
          else goto_st 0)
      else if c > 70 then (if 97 \<le> c \<and> c \<le> 102 then goto_st 77
          else goto_st 0)
      else goto_st 77)"

definition http_case55 :: "bool \<Rightarrow> int \<Rightarrow> move" where
  "http_case55 r c =
     (if c = 49 then goto_st 72
      else if c = 50 then goto_st 74
      else if 48 \<le> c \<and> c \<le> 57 then goto_st 56
      else goto_st 0)"

definition http_case56 :: "bool \<Rightarrow> int \<Rightarrow> move" where
  "http_case56 r c =
     (if c = 46 then goto_st 57
      else goto_st 0)"

definition http_case57 :: "bool \<Rightarrow> int \<Rightarrow> move" where
  "http_case57 r c =
     (if c = 49 then goto_st 67
      else if c = 50 then goto_st 69
      else if 48 \<le> c \<and> c \<le> 57 then goto_st 58
      else goto_st 0)"

definition http_case58 :: "bool \<Rightarrow> int \<Rightarrow> move" where
  "http_case58 r c =
     (if c = 46 then goto_st 59
      else goto_st 0)"

definition http_case59 :: "bool \<Rightarrow> int \<Rightarrow> move" where
  "http_case59 r c =
     (if c = 49 then goto_st 62
      else if c = 50 then goto_st 64
      else if 48 \<le> c \<and> c \<le> 57 then goto_st 60
      else goto_st 0)"

definition http_case60 :: "bool \<Rightarrow> int \<Rightarrow> move" where
  "http_case60 r c =
     (if c = 93 then goto_st 61
      else goto_st 0)"

lemma http_case51_60_sound:
  "sound_move (http_case51 r c)"
  "sound_move (http_case52 r c)"
  "sound_move (http_case53 r c)"
  "sound_move (http_case54 r c)"
  "sound_move (http_case55 r c)"
  "sound_move (http_case56 r c)"
  "sound_move (http_case57 r c)"
  "sound_move (http_case58 r c)"
  "sound_move (http_case59 r c)"
  "sound_move (http_case60 r c)"
  by (simp_all add: http_moves http_case51_def http_case52_def http_case53_def http_case54_def http_case55_def http_case56_def http_case57_def http_case58_def http_case59_def http_case60_def)

definition http_case61 :: "bool \<Rightarrow> int \<Rightarrow> move" where
  "http_case61 r c =
     (if c = 32 then tr37
      else if c = 35 then tr39
      else if c = 47 then goto_st 26
      else if c = 58 then goto_st 46
      else if c = 63 then tr42
      else goto_st 0)"

definition http_case62 :: "bool \<Rightarrow> int \<Rightarrow> move" where
  "http_case62 r c =
     (if c = 93 then goto_st 61
      else if 48 \<le> c \<and> c \<le> 57 then goto_st 63
      else goto_st 0)"

definition http_case63 :: "bool \<Rightarrow> int \<Rightarrow> move" where
  "http_case63 r c =
     (if c = 93 then goto_st 61
      else if 48 \<le> c \<and> c \<le> 57 then goto_st 60
      else goto_st 0)"

definition http_case64 :: "bool \<Rightarrow> int \<Rightarrow> move" where
  "http_case64 r c =
     (if c = 48 then goto_st 65
      else if c = 53 then goto_st 66
      else if c = 93 then goto_st 61
      else goto_st 0)"

definition http_case65 :: "bool \<Rightarrow> int \<Rightarrow> move" where
  "http_case65 r c =
     (if 48 \<le> c \<and> c \<le> 57 then goto_st 60
      else goto_st 0)"

definition http_case66 :: "bool \<Rightarrow> int \<Rightarrow> move" where
  "http_case66 r c =
     (if c = 48 then goto_st 60
      else goto_st 0)"

definition http_case67 :: "bool \<Rightarrow> int \<Rightarrow> move" where
  "http_case67 r c =
     (if c = 46 then goto_st 59
      else if 48 \<le> c \<and> c \<le> 57 then goto_st 68
      else goto_st 0)"

definition http_case68 :: "bool \<Rightarrow> int \<Rightarrow> move" where
  "http_case68 r c =
     (if c = 46 then goto_st 59
      else if 48 \<le> c \<and> c \<le> 57 then goto_st 58
      else goto_st 0)"

definition http_case69 :: "bool \<Rightarrow> int \<Rightarrow> move" where
  "http_case69 r c =
     (if c = 46 then goto_st 59
      else if c = 48 then goto_st 70
      else if c = 53 then goto_st 71
      else goto_st 0)"

definition http_case70 :: "bool \<Rightarrow> int \<Rightarrow> move" where
  "http_case70 r c =
     (if 48 \<le> c \<and> c \<le> 57 then goto_st 58
      else goto_st 0)"

lemma http_case61_70_sound:
  "sound_move (http_case61 r c)"
  "sound_move (http_case62 r c)"
  "sound_move (http_case63 r c)"
  "sound_move (http_case64 r c)"
  "sound_move (http_case65 r c)"
  "sound_move (http_case66 r c)"
  "sound_move (http_case67 r c)"
  "sound_move (http_case68 r c)"
  "sound_move (http_case69 r c)"
  "sound_move (http_case70 r c)"
  by (simp_all add: http_moves http_case61_def http_case62_def http_case63_def http_case64_def http_case65_def http_case66_def http_case67_def http_case68_def http_case69_def http_case70_def)

end
