(* ===== verification/HttpStates2.thy ===== *)
theory HttpStates2
  imports HttpActions
begin

text \<open>
  States 71 to 140 of \<open>http/http11_parser.cpp\<close>: \<open>http_case\<close>\<open>n\<close> is the body of \<open>case n\<close> of
  \<open>http_parser_execute\<close>, as a function of \<open>uri_relaxed\<close> and of the character at \<open>p\<close>, read as
  a signed char. A \<open>goto tr\<close> or \<open>goto st\<close> is its result; where the code widens the character
  for the condition on \<open>uri_relaxed\<close>, the local \<open>_widec\<close> is \<open>w\<close>. The lemmas below each block say
  that every move of it is sound, for the laws of the machine.
\<close>

definition http_case71 :: "bool \<Rightarrow> int \<Rightarrow> move" where
  "http_case71 r c =
     (if c = 48 then goto_st 58
      else goto_st 0)"

definition http_case72 :: "bool \<Rightarrow> int \<Rightarrow> move" where
  "http_case72 r c =
     (if c = 46 then goto_st 57
      else if 48 \<le> c \<and> c \<le> 57 then goto_st 73
      else goto_st 0)"

definition http_case73 :: "bool \<Rightarrow> int \<Rightarrow> move" where
  "http_case73 r c =
     (if c = 46 then goto_st 57
      else if 48 \<le> c \<and> c \<le> 57 then goto_st 56
      else goto_st 0)"

definition http_case74 :: "bool \<Rightarrow> int \<Rightarrow> move" where
  "http_case74 r c =
     (if c = 46 then goto_st 57
      else if c = 48 then goto_st 75
      else if c = 53 then goto_st 76
      else goto_st 0)"

definition http_case75 :: "bool \<Rightarrow> int \<Rightarrow> move" where
  "http_case75 r c =
     (if 48 \<le> c \<and> c \<le> 57 then goto_st 56
      else goto_st 0)"

definition http_case76 :: "bool \<Rightarrow> int \<Rightarrow> move" where
  "http_case76 r c =
     (if c = 48 then goto_st 56
      else goto_st 0)"

definition http_case77 :: "bool \<Rightarrow> int \<Rightarrow> move" where
  "http_case77 r c =
     (if c = 58 then goto_st 80
      else if c < 65 then (if 48 \<le> c \<and> c \<le> 57 then goto_st 78
          else goto_st 0)
      else if c > 70 then (if 97 \<le> c \<and> c \<le> 102 then goto_st 78
          else goto_st 0)
      else goto_st 78)"

definition http_case78 :: "bool \<Rightarrow> int \<Rightarrow> move" where
  "http_case78 r c =
     (if c = 58 then goto_st 80
      else if c < 65 then (if 48 \<le> c \<and> c \<le> 57 then goto_st 79
          else goto_st 0)
      else if c > 70 then (if 97 \<le> c \<and> c \<le> 102 then goto_st 79
          else goto_st 0)
      else goto_st 79)"

definition http_case79 :: "bool \<Rightarrow> int \<Rightarrow> move" where
  "http_case79 r c =
     (if c = 58 then goto_st 80
      else goto_st 0)"

definition http_case80 :: "bool \<Rightarrow> int \<Rightarrow> move" where
  "http_case80 r c =
     (if c < 65 then (if 48 \<le> c \<and> c \<le> 57 then goto_st 81
          else goto_st 0)
      else if c > 70 then (if 97 \<le> c \<and> c \<le> 102 then goto_st 81
          else goto_st 0)
      else goto_st 81)"

lemma http_case71_80_sound:
  "sound_move (http_case71 r c)"
  "sound_move (http_case72 r c)"
  "sound_move (http_case73 r c)"
  "sound_move (http_case74 r c)"
  "sound_move (http_case75 r c)"
  "sound_move (http_case76 r c)"
  "sound_move (http_case77 r c)"
  "sound_move (http_case78 r c)"
  "sound_move (http_case79 r c)"
  "sound_move (http_case80 r c)"
  by (simp_all add: http_moves http_case71_def http_case72_def http_case73_def http_case74_def http_case75_def http_case76_def http_case77_def http_case78_def http_case79_def http_case80_def)

definition http_case81 :: "bool \<Rightarrow> int \<Rightarrow> move" where
  "http_case81 r c =
     (if c = 93 then goto_st 61
      else if c < 65 then (if 48 \<le> c \<and> c \<le> 57 then goto_st 82
          else goto_st 0)
      else if c > 70 then (if 97 \<le> c \<and> c \<le> 102 then goto_st 82
          else goto_st 0)
      else goto_st 82)"

definition http_case82 :: "bool \<Rightarrow> int \<Rightarrow> move" where
  "http_case82 r c =
     (if c = 93 then goto_st 61
      else if c < 65 then (if 48 \<le> c \<and> c \<le> 57 then goto_st 83
          else goto_st 0)
      else if c > 70 then (if 97 \<le> c \<and> c \<le> 102 then goto_st 83
          else goto_st 0)
      else goto_st 83)"

definition http_case83 :: "bool \<Rightarrow> int \<Rightarrow> move" where
  "http_case83 r c =
     (if c = 93 then goto_st 61
      else if c < 65 then (if 48 \<le> c \<and> c \<le> 57 then goto_st 60
          else goto_st 0)
      else if c > 70 then (if 97 \<le> c \<and> c \<le> 102 then goto_st 60
          else goto_st 0)
      else goto_st 60)"

definition http_case84 :: "bool \<Rightarrow> int \<Rightarrow> move" where
  "http_case84 r c =
     (if c = 46 then goto_st 55
      else if c = 58 then goto_st 80
      else if c < 65 then (if 48 \<le> c \<and> c \<le> 57 then goto_st 85
          else goto_st 0)
      else if c > 70 then (if 97 \<le> c \<and> c \<le> 102 then goto_st 77
          else goto_st 0)
      else goto_st 77)"

definition http_case85 :: "bool \<Rightarrow> int \<Rightarrow> move" where
  "http_case85 r c =
     (if c = 46 then goto_st 55
      else if c = 58 then goto_st 80
      else if c < 65 then (if 48 \<le> c \<and> c \<le> 57 then goto_st 86
          else goto_st 0)
      else if c > 70 then (if 97 \<le> c \<and> c \<le> 102 then goto_st 78
          else goto_st 0)
      else goto_st 78)"

definition http_case86 :: "bool \<Rightarrow> int \<Rightarrow> move" where
  "http_case86 r c =
     (if c = 46 then goto_st 55
      else if c = 58 then goto_st 80
      else if c < 65 then (if 48 \<le> c \<and> c \<le> 57 then goto_st 79
          else goto_st 0)
      else if c > 70 then (if 97 \<le> c \<and> c \<le> 102 then goto_st 79
          else goto_st 0)
      else goto_st 79)"

definition http_case87 :: "bool \<Rightarrow> int \<Rightarrow> move" where
  "http_case87 r c =
     (if c = 46 then goto_st 55
      else if c = 48 then goto_st 88
      else if c = 53 then goto_st 89
      else if c = 58 then goto_st 80
      else if c < 65 then (if 49 \<le> c \<and> c \<le> 57 then goto_st 77
          else goto_st 0)
      else if c > 70 then (if 97 \<le> c \<and> c \<le> 102 then goto_st 77
          else goto_st 0)
      else goto_st 77)"

definition http_case88 :: "bool \<Rightarrow> int \<Rightarrow> move" where
  "http_case88 r c =
     (if c = 58 then goto_st 80
      else if c < 65 then (if 48 \<le> c \<and> c \<le> 57 then goto_st 86
          else goto_st 0)
      else if c > 70 then (if 97 \<le> c \<and> c \<le> 102 then goto_st 78
          else goto_st 0)
      else goto_st 78)"

definition http_case89 :: "bool \<Rightarrow> int \<Rightarrow> move" where
  "http_case89 r c =
     (if c = 48 then goto_st 86
      else if c = 58 then goto_st 80
      else if c < 65 then (if 49 \<le> c \<and> c \<le> 57 then goto_st 78
          else goto_st 0)
      else if c > 70 then (if 97 \<le> c \<and> c \<le> 102 then goto_st 78
          else goto_st 0)
      else goto_st 78)"

definition http_case90 :: "bool \<Rightarrow> int \<Rightarrow> move" where
  "http_case90 r c =
     (if c = 58 then goto_st 80
      else if c < 65 then (if 48 \<le> c \<and> c \<le> 57 then goto_st 77
          else goto_st 0)
      else if c > 70 then (if 97 \<le> c \<and> c \<le> 102 then goto_st 77
          else goto_st 0)
      else goto_st 77)"

lemma http_case81_90_sound:
  "sound_move (http_case81 r c)"
  "sound_move (http_case82 r c)"
  "sound_move (http_case83 r c)"
  "sound_move (http_case84 r c)"
  "sound_move (http_case85 r c)"
  "sound_move (http_case86 r c)"
  "sound_move (http_case87 r c)"
  "sound_move (http_case88 r c)"
  "sound_move (http_case89 r c)"
  "sound_move (http_case90 r c)"
  by (simp_all add: http_moves http_case81_def http_case82_def http_case83_def http_case84_def http_case85_def http_case86_def http_case87_def http_case88_def http_case89_def http_case90_def)

definition http_case91 :: "bool \<Rightarrow> int \<Rightarrow> move" where
  "http_case91 r c =
     (if c = 58 then goto_st 95
      else if c < 65 then (if 48 \<le> c \<and> c \<le> 57 then goto_st 92
          else goto_st 0)
      else if c > 70 then (if 97 \<le> c \<and> c \<le> 102 then goto_st 92
          else goto_st 0)
      else goto_st 92)"

definition http_case92 :: "bool \<Rightarrow> int \<Rightarrow> move" where
  "http_case92 r c =
     (if c = 58 then goto_st 95
      else if c < 65 then (if 48 \<le> c \<and> c \<le> 57 then goto_st 93
          else goto_st 0)
      else if c > 70 then (if 97 \<le> c \<and> c \<le> 102 then goto_st 93
          else goto_st 0)
      else goto_st 93)"

definition http_case93 :: "bool \<Rightarrow> int \<Rightarrow> move" where
  "http_case93 r c =
     (if c = 58 then goto_st 95
      else if c < 65 then (if 48 \<le> c \<and> c \<le> 57 then goto_st 94
          else goto_st 0)
      else if c > 70 then (if 97 \<le> c \<and> c \<le> 102 then goto_st 94
          else goto_st 0)
      else goto_st 94)"

definition http_case94 :: "bool \<Rightarrow> int \<Rightarrow> move" where
  "http_case94 r c =
     (if c = 58 then goto_st 95
      else goto_st 0)"

definition http_case95 :: "bool \<Rightarrow> int \<Rightarrow> move" where
  "http_case95 r c =
     (if c = 58 then goto_st 166
      else if c < 65 then (if 48 \<le> c \<and> c \<le> 57 then goto_st 96
          else goto_st 0)
      else if c > 70 then (if 97 \<le> c \<and> c \<le> 102 then goto_st 96
          else goto_st 0)
      else goto_st 96)"

definition http_case96 :: "bool \<Rightarrow> int \<Rightarrow> move" where
  "http_case96 r c =
     (if c = 58 then goto_st 100
      else if c < 65 then (if 48 \<le> c \<and> c \<le> 57 then goto_st 97
          else goto_st 0)
      else if c > 70 then (if 97 \<le> c \<and> c \<le> 102 then goto_st 97
          else goto_st 0)
      else goto_st 97)"

definition http_case97 :: "bool \<Rightarrow> int \<Rightarrow> move" where
  "http_case97 r c =
     (if c = 58 then goto_st 100
      else if c < 65 then (if 48 \<le> c \<and> c \<le> 57 then goto_st 98
          else goto_st 0)
      else if c > 70 then (if 97 \<le> c \<and> c \<le> 102 then goto_st 98
          else goto_st 0)
      else goto_st 98)"

definition http_case98 :: "bool \<Rightarrow> int \<Rightarrow> move" where
  "http_case98 r c =
     (if c = 58 then goto_st 100
      else if c < 65 then (if 48 \<le> c \<and> c \<le> 57 then goto_st 99
          else goto_st 0)
      else if c > 70 then (if 97 \<le> c \<and> c \<le> 102 then goto_st 99
          else goto_st 0)
      else goto_st 99)"

definition http_case99 :: "bool \<Rightarrow> int \<Rightarrow> move" where
  "http_case99 r c =
     (if c = 58 then goto_st 100
      else goto_st 0)"

definition http_case100 :: "bool \<Rightarrow> int \<Rightarrow> move" where
  "http_case100 r c =
     (if c = 58 then goto_st 165
      else if c < 65 then (if 48 \<le> c \<and> c \<le> 57 then goto_st 101
          else goto_st 0)
      else if c > 70 then (if 97 \<le> c \<and> c \<le> 102 then goto_st 101
          else goto_st 0)
      else goto_st 101)"

lemma http_case91_100_sound:
  "sound_move (http_case91 r c)"
  "sound_move (http_case92 r c)"
  "sound_move (http_case93 r c)"
  "sound_move (http_case94 r c)"
  "sound_move (http_case95 r c)"
  "sound_move (http_case96 r c)"
  "sound_move (http_case97 r c)"
  "sound_move (http_case98 r c)"
  "sound_move (http_case99 r c)"
  "sound_move (http_case100 r c)"
  by (simp_all add: http_moves http_case91_def http_case92_def http_case93_def http_case94_def http_case95_def http_case96_def http_case97_def http_case98_def http_case99_def http_case100_def)

definition http_case101 :: "bool \<Rightarrow> int \<Rightarrow> move" where
  "http_case101 r c =
     (if c = 58 then goto_st 105
      else if c < 65 then (if 48 \<le> c \<and> c \<le> 57 then goto_st 102
          else goto_st 0)
      else if c > 70 then (if 97 \<le> c \<and> c \<le> 102 then goto_st 102
          else goto_st 0)
      else goto_st 102)"

definition http_case102 :: "bool \<Rightarrow> int \<Rightarrow> move" where
  "http_case102 r c =
     (if c = 58 then goto_st 105
      else if c < 65 then (if 48 \<le> c \<and> c \<le> 57 then goto_st 103
          else goto_st 0)
      else if c > 70 then (if 97 \<le> c \<and> c \<le> 102 then goto_st 103
          else goto_st 0)
      else goto_st 103)"

definition http_case103 :: "bool \<Rightarrow> int \<Rightarrow> move" where
  "http_case103 r c =
     (if c = 58 then goto_st 105
      else if c < 65 then (if 48 \<le> c \<and> c \<le> 57 then goto_st 104
          else goto_st 0)
      else if c > 70 then (if 97 \<le> c \<and> c \<le> 102 then goto_st 104
          else goto_st 0)
      else goto_st 104)"

definition http_case104 :: "bool \<Rightarrow> int \<Rightarrow> move" where
  "http_case104 r c =
     (if c = 58 then goto_st 105
      else goto_st 0)"

definition http_case105 :: "bool \<Rightarrow> int \<Rightarrow> move" where
  "http_case105 r c =
     (if c = 58 then goto_st 164
      else if c < 65 then (if 48 \<le> c \<and> c \<le> 57 then goto_st 106
          else goto_st 0)
      else if c > 70 then (if 97 \<le> c \<and> c \<le> 102 then goto_st 106
          else goto_st 0)
      else goto_st 106)"

definition http_case106 :: "bool \<Rightarrow> int \<Rightarrow> move" where
  "http_case106 r c =
     (if c = 58 then goto_st 110
      else if c < 65 then (if 48 \<le> c \<and> c \<le> 57 then goto_st 107
          else goto_st 0)
      else if c > 70 then (if 97 \<le> c \<and> c \<le> 102 then goto_st 107
          else goto_st 0)
      else goto_st 107)"

definition http_case107 :: "bool \<Rightarrow> int \<Rightarrow> move" where
  "http_case107 r c =
     (if c = 58 then goto_st 110
      else if c < 65 then (if 48 \<le> c \<and> c \<le> 57 then goto_st 108
          else goto_st 0)
      else if c > 70 then (if 97 \<le> c \<and> c \<le> 102 then goto_st 108
          else goto_st 0)
      else goto_st 108)"

definition http_case108 :: "bool \<Rightarrow> int \<Rightarrow> move" where
  "http_case108 r c =
     (if c = 58 then goto_st 110
      else if c < 65 then (if 48 \<le> c \<and> c \<le> 57 then goto_st 109
          else goto_st 0)
      else if c > 70 then (if 97 \<le> c \<and> c \<le> 102 then goto_st 109
          else goto_st 0)
      else goto_st 109)"

definition http_case109 :: "bool \<Rightarrow> int \<Rightarrow> move" where
  "http_case109 r c =
     (if c = 58 then goto_st 110
      else goto_st 0)"

definition http_case110 :: "bool \<Rightarrow> int \<Rightarrow> move" where
  "http_case110 r c =
     (if c = 58 then goto_st 163
      else if c < 65 then (if 48 \<le> c \<and> c \<le> 57 then goto_st 111
          else goto_st 0)
      else if c > 70 then (if 97 \<le> c \<and> c \<le> 102 then goto_st 111
          else goto_st 0)
      else goto_st 111)"

lemma http_case101_110_sound:
  "sound_move (http_case101 r c)"
  "sound_move (http_case102 r c)"
  "sound_move (http_case103 r c)"
  "sound_move (http_case104 r c)"
  "sound_move (http_case105 r c)"
  "sound_move (http_case106 r c)"
  "sound_move (http_case107 r c)"
  "sound_move (http_case108 r c)"
  "sound_move (http_case109 r c)"
  "sound_move (http_case110 r c)"
  by (simp_all add: http_moves http_case101_def http_case102_def http_case103_def http_case104_def http_case105_def http_case106_def http_case107_def http_case108_def http_case109_def http_case110_def)

definition http_case111 :: "bool \<Rightarrow> int \<Rightarrow> move" where
  "http_case111 r c =
     (if c = 58 then goto_st 115
      else if c < 65 then (if 48 \<le> c \<and> c \<le> 57 then goto_st 112
          else goto_st 0)
      else if c > 70 then (if 97 \<le> c \<and> c \<le> 102 then goto_st 112
          else goto_st 0)
      else goto_st 112)"

definition http_case112 :: "bool \<Rightarrow> int \<Rightarrow> move" where
  "http_case112 r c =
     (if c = 58 then goto_st 115
      else if c < 65 then (if 48 \<le> c \<and> c \<le> 57 then goto_st 113
          else goto_st 0)
      else if c > 70 then (if 97 \<le> c \<and> c \<le> 102 then goto_st 113
          else goto_st 0)
      else goto_st 113)"

definition http_case113 :: "bool \<Rightarrow> int \<Rightarrow> move" where
  "http_case113 r c =
     (if c = 58 then goto_st 115
      else if c < 65 then (if 48 \<le> c \<and> c \<le> 57 then goto_st 114
          else goto_st 0)
      else if c > 70 then (if 97 \<le> c \<and> c \<le> 102 then goto_st 114
          else goto_st 0)
      else goto_st 114)"

definition http_case114 :: "bool \<Rightarrow> int \<Rightarrow> move" where
  "http_case114 r c =
     (if c = 58 then goto_st 115
      else goto_st 0)"

definition http_case115 :: "bool \<Rightarrow> int \<Rightarrow> move" where
  "http_case115 r c =
     (if c = 58 then goto_st 151
      else if c < 65 then (if 48 \<le> c \<and> c \<le> 57 then goto_st 116
          else goto_st 0)
      else if c > 70 then (if 97 \<le> c \<and> c \<le> 102 then goto_st 116
          else goto_st 0)
      else goto_st 116)"

definition http_case116 :: "bool \<Rightarrow> int \<Rightarrow> move" where
  "http_case116 r c =
     (if c = 58 then goto_st 120
      else if c < 65 then (if 48 \<le> c \<and> c \<le> 57 then goto_st 117
          else goto_st 0)
      else if c > 70 then (if 97 \<le> c \<and> c \<le> 102 then goto_st 117
          else goto_st 0)
      else goto_st 117)"

definition http_case117 :: "bool \<Rightarrow> int \<Rightarrow> move" where
  "http_case117 r c =
     (if c = 58 then goto_st 120
      else if c < 65 then (if 48 \<le> c \<and> c \<le> 57 then goto_st 118
          else goto_st 0)
      else if c > 70 then (if 97 \<le> c \<and> c \<le> 102 then goto_st 118
          else goto_st 0)
      else goto_st 118)"

definition http_case118 :: "bool \<Rightarrow> int \<Rightarrow> move" where
  "http_case118 r c =
     (if c = 58 then goto_st 120
      else if c < 65 then (if 48 \<le> c \<and> c \<le> 57 then goto_st 119
          else goto_st 0)
      else if c > 70 then (if 97 \<le> c \<and> c \<le> 102 then goto_st 119
          else goto_st 0)
      else goto_st 119)"

definition http_case119 :: "bool \<Rightarrow> int \<Rightarrow> move" where
  "http_case119 r c =
     (if c = 58 then goto_st 120
      else goto_st 0)"

definition http_case120 :: "bool \<Rightarrow> int \<Rightarrow> move" where
  "http_case120 r c =
     (if c = 58 then goto_st 150
      else if c < 65 then (if 48 \<le> c \<and> c \<le> 57 then goto_st 121
          else goto_st 0)
      else if c > 70 then (if 97 \<le> c \<and> c \<le> 102 then goto_st 121
          else goto_st 0)
      else goto_st 121)"

lemma http_case111_120_sound:
  "sound_move (http_case111 r c)"
  "sound_move (http_case112 r c)"
  "sound_move (http_case113 r c)"
  "sound_move (http_case114 r c)"
  "sound_move (http_case115 r c)"
  "sound_move (http_case116 r c)"
  "sound_move (http_case117 r c)"
  "sound_move (http_case118 r c)"
  "sound_move (http_case119 r c)"
  "sound_move (http_case120 r c)"
  by (simp_all add: http_moves http_case111_def http_case112_def http_case113_def http_case114_def http_case115_def http_case116_def http_case117_def http_case118_def http_case119_def http_case120_def)

definition http_case121 :: "bool \<Rightarrow> int \<Rightarrow> move" where
  "http_case121 r c =
     (if c = 58 then goto_st 125
      else if c < 65 then (if 48 \<le> c \<and> c \<le> 57 then goto_st 122
          else goto_st 0)
      else if c > 70 then (if 97 \<le> c \<and> c \<le> 102 then goto_st 122
          else goto_st 0)
      else goto_st 122)"

definition http_case122 :: "bool \<Rightarrow> int \<Rightarrow> move" where
  "http_case122 r c =
     (if c = 58 then goto_st 125
      else if c < 65 then (if 48 \<le> c \<and> c \<le> 57 then goto_st 123
          else goto_st 0)
      else if c > 70 then (if 97 \<le> c \<and> c \<le> 102 then goto_st 123
          else goto_st 0)
      else goto_st 123)"

definition http_case123 :: "bool \<Rightarrow> int \<Rightarrow> move" where
  "http_case123 r c =
     (if c = 58 then goto_st 125
      else if c < 65 then (if 48 \<le> c \<and> c \<le> 57 then goto_st 124
          else goto_st 0)
      else if c > 70 then (if 97 \<le> c \<and> c \<le> 102 then goto_st 124
          else goto_st 0)
      else goto_st 124)"

definition http_case124 :: "bool \<Rightarrow> int \<Rightarrow> move" where
  "http_case124 r c =
     (if c = 58 then goto_st 125
      else goto_st 0)"

definition http_case125 :: "bool \<Rightarrow> int \<Rightarrow> move" where
  "http_case125 r c =
     (if c = 58 then goto_st 126
      else if c < 65 then (if 48 \<le> c \<and> c \<le> 57 then goto_st 121
          else goto_st 0)
      else if c > 70 then (if 97 \<le> c \<and> c \<le> 102 then goto_st 121
          else goto_st 0)
      else goto_st 121)"

definition http_case126 :: "bool \<Rightarrow> int \<Rightarrow> move" where
  "http_case126 r c =
     (if c = 49 then goto_st 143
      else if c = 50 then goto_st 146
      else if c = 93 then goto_st 61
      else if c < 48 then (if 2 \<le> c \<and> c \<le> 3 then goto_st 48
          else goto_st 0)
      else if c > 57 then (if c > 70 then (if 97 \<le> c \<and> c \<le> 102 then goto_st 149
              else goto_st 0)
          else if c \<ge> 65 then goto_st 149
          else goto_st 0)
      else goto_st 127)"

definition http_case127 :: "bool \<Rightarrow> int \<Rightarrow> move" where
  "http_case127 r c =
     (if c = 46 then goto_st 55
      else if c = 58 then goto_st 131
      else if c = 93 then goto_st 61
      else if c < 65 then (if 48 \<le> c \<and> c \<le> 57 then goto_st 128
          else goto_st 0)
      else if c > 70 then (if 97 \<le> c \<and> c \<le> 102 then goto_st 128
          else goto_st 0)
      else goto_st 128)"

definition http_case128 :: "bool \<Rightarrow> int \<Rightarrow> move" where
  "http_case128 r c =
     (if c = 58 then goto_st 131
      else if c = 93 then goto_st 61
      else if c < 65 then (if 48 \<le> c \<and> c \<le> 57 then goto_st 129
          else goto_st 0)
      else if c > 70 then (if 97 \<le> c \<and> c \<le> 102 then goto_st 129
          else goto_st 0)
      else goto_st 129)"

definition http_case129 :: "bool \<Rightarrow> int \<Rightarrow> move" where
  "http_case129 r c =
     (if c = 58 then goto_st 131
      else if c = 93 then goto_st 61
      else if c < 65 then (if 48 \<le> c \<and> c \<le> 57 then goto_st 130
          else goto_st 0)
      else if c > 70 then (if 97 \<le> c \<and> c \<le> 102 then goto_st 130
          else goto_st 0)
      else goto_st 130)"

definition http_case130 :: "bool \<Rightarrow> int \<Rightarrow> move" where
  "http_case130 r c =
     (if c = 58 then goto_st 131
      else if c = 93 then goto_st 61
      else goto_st 0)"

lemma http_case121_130_sound:
  "sound_move (http_case121 r c)"
  "sound_move (http_case122 r c)"
  "sound_move (http_case123 r c)"
  "sound_move (http_case124 r c)"
  "sound_move (http_case125 r c)"
  "sound_move (http_case126 r c)"
  "sound_move (http_case127 r c)"
  "sound_move (http_case128 r c)"
  "sound_move (http_case129 r c)"
  "sound_move (http_case130 r c)"
  by (simp_all add: http_moves http_case121_def http_case122_def http_case123_def http_case124_def http_case125_def http_case126_def http_case127_def http_case128_def http_case129_def http_case130_def)

definition http_case131 :: "bool \<Rightarrow> int \<Rightarrow> move" where
  "http_case131 r c =
     (if c = 49 then goto_st 136
      else if c = 50 then goto_st 139
      else if c < 65 then (if 48 \<le> c \<and> c \<le> 57 then goto_st 132
          else goto_st 0)
      else if c > 70 then (if 97 \<le> c \<and> c \<le> 102 then goto_st 142
          else goto_st 0)
      else goto_st 142)"

definition http_case132 :: "bool \<Rightarrow> int \<Rightarrow> move" where
  "http_case132 r c =
     (if c = 46 then goto_st 55
      else if c = 58 then goto_st 80
      else if c = 93 then goto_st 61
      else if c < 65 then (if 48 \<le> c \<and> c \<le> 57 then goto_st 133
          else goto_st 0)
      else if c > 70 then (if 97 \<le> c \<and> c \<le> 102 then goto_st 133
          else goto_st 0)
      else goto_st 133)"

definition http_case133 :: "bool \<Rightarrow> int \<Rightarrow> move" where
  "http_case133 r c =
     (if c = 58 then goto_st 80
      else if c = 93 then goto_st 61
      else if c < 65 then (if 48 \<le> c \<and> c \<le> 57 then goto_st 134
          else goto_st 0)
      else if c > 70 then (if 97 \<le> c \<and> c \<le> 102 then goto_st 134
          else goto_st 0)
      else goto_st 134)"

definition http_case134 :: "bool \<Rightarrow> int \<Rightarrow> move" where
  "http_case134 r c =
     (if c = 58 then goto_st 80
      else if c = 93 then goto_st 61
      else if c < 65 then (if 48 \<le> c \<and> c \<le> 57 then goto_st 135
          else goto_st 0)
      else if c > 70 then (if 97 \<le> c \<and> c \<le> 102 then goto_st 135
          else goto_st 0)
      else goto_st 135)"

definition http_case135 :: "bool \<Rightarrow> int \<Rightarrow> move" where
  "http_case135 r c =
     (if c = 58 then goto_st 80
      else if c = 93 then goto_st 61
      else goto_st 0)"

definition http_case136 :: "bool \<Rightarrow> int \<Rightarrow> move" where
  "http_case136 r c =
     (if c = 46 then goto_st 55
      else if c = 58 then goto_st 80
      else if c = 93 then goto_st 61
      else if c < 65 then (if 48 \<le> c \<and> c \<le> 57 then goto_st 137
          else goto_st 0)
      else if c > 70 then (if 97 \<le> c \<and> c \<le> 102 then goto_st 133
          else goto_st 0)
      else goto_st 133)"

definition http_case137 :: "bool \<Rightarrow> int \<Rightarrow> move" where
  "http_case137 r c =
     (if c = 46 then goto_st 55
      else if c = 58 then goto_st 80
      else if c = 93 then goto_st 61
      else if c < 65 then (if 48 \<le> c \<and> c \<le> 57 then goto_st 138
          else goto_st 0)
      else if c > 70 then (if 97 \<le> c \<and> c \<le> 102 then goto_st 134
          else goto_st 0)
      else goto_st 134)"

definition http_case138 :: "bool \<Rightarrow> int \<Rightarrow> move" where
  "http_case138 r c =
     (if c = 46 then goto_st 55
      else if c = 58 then goto_st 80
      else if c = 93 then goto_st 61
      else if c < 65 then (if 48 \<le> c \<and> c \<le> 57 then goto_st 135
          else goto_st 0)
      else if c > 70 then (if 97 \<le> c \<and> c \<le> 102 then goto_st 135
          else goto_st 0)
      else goto_st 135)"

definition http_case139 :: "bool \<Rightarrow> int \<Rightarrow> move" where
  "http_case139 r c =
     (if c = 46 then goto_st 55
      else if c = 48 then goto_st 140
      else if c = 53 then goto_st 141
      else if c = 58 then goto_st 80
      else if c = 93 then goto_st 61
      else if c < 65 then (if 49 \<le> c \<and> c \<le> 57 then goto_st 133
          else goto_st 0)
      else if c > 70 then (if 97 \<le> c \<and> c \<le> 102 then goto_st 133
          else goto_st 0)
      else goto_st 133)"

definition http_case140 :: "bool \<Rightarrow> int \<Rightarrow> move" where
  "http_case140 r c =
     (if c = 58 then goto_st 80
      else if c = 93 then goto_st 61
      else if c < 65 then (if 48 \<le> c \<and> c \<le> 57 then goto_st 138
          else goto_st 0)
      else if c > 70 then (if 97 \<le> c \<and> c \<le> 102 then goto_st 134
          else goto_st 0)
      else goto_st 134)"

lemma http_case131_140_sound:
  "sound_move (http_case131 r c)"
  "sound_move (http_case132 r c)"
  "sound_move (http_case133 r c)"
  "sound_move (http_case134 r c)"
  "sound_move (http_case135 r c)"
  "sound_move (http_case136 r c)"
  "sound_move (http_case137 r c)"
  "sound_move (http_case138 r c)"
  "sound_move (http_case139 r c)"
  "sound_move (http_case140 r c)"
  by (simp_all add: http_moves http_case131_def http_case132_def http_case133_def http_case134_def http_case135_def http_case136_def http_case137_def http_case138_def http_case139_def http_case140_def)

end
