(* ===== verification/HttpStates3.thy ===== *)
theory HttpStates3
  imports HttpActions
begin

text \<open>
  States 141 to 210 of \<open>http/http11_parser.cpp\<close>: \<open>http_case\<close>\<open>n\<close> is the body of \<open>case n\<close> of
  \<open>http_parser_execute\<close>, as a function of \<open>uri_relaxed\<close> and of the character at \<open>p\<close>, read as
  a signed char. A \<open>goto tr\<close> or \<open>goto st\<close> is its result; where the code widens the character
  for the condition on \<open>uri_relaxed\<close>, the local \<open>_widec\<close> is \<open>w\<close>. The lemmas below each block say
  that every move of it is sound, for the laws of the machine.
\<close>

definition http_case141 :: "bool \<Rightarrow> int \<Rightarrow> move" where
  "http_case141 r c =
     (if c = 48 then goto_st 138
      else if c = 58 then goto_st 80
      else if c = 93 then goto_st 61
      else if c < 65 then (if 49 \<le> c \<and> c \<le> 57 then goto_st 134
          else goto_st 0)
      else if c > 70 then (if 97 \<le> c \<and> c \<le> 102 then goto_st 134
          else goto_st 0)
      else goto_st 134)"

definition http_case142 :: "bool \<Rightarrow> int \<Rightarrow> move" where
  "http_case142 r c =
     (if c = 58 then goto_st 80
      else if c = 93 then goto_st 61
      else if c < 65 then (if 48 \<le> c \<and> c \<le> 57 then goto_st 133
          else goto_st 0)
      else if c > 70 then (if 97 \<le> c \<and> c \<le> 102 then goto_st 133
          else goto_st 0)
      else goto_st 133)"

definition http_case143 :: "bool \<Rightarrow> int \<Rightarrow> move" where
  "http_case143 r c =
     (if c = 46 then goto_st 55
      else if c = 58 then goto_st 131
      else if c = 93 then goto_st 61
      else if c < 65 then (if 48 \<le> c \<and> c \<le> 57 then goto_st 144
          else goto_st 0)
      else if c > 70 then (if 97 \<le> c \<and> c \<le> 102 then goto_st 128
          else goto_st 0)
      else goto_st 128)"

definition http_case144 :: "bool \<Rightarrow> int \<Rightarrow> move" where
  "http_case144 r c =
     (if c = 46 then goto_st 55
      else if c = 58 then goto_st 131
      else if c = 93 then goto_st 61
      else if c < 65 then (if 48 \<le> c \<and> c \<le> 57 then goto_st 145
          else goto_st 0)
      else if c > 70 then (if 97 \<le> c \<and> c \<le> 102 then goto_st 129
          else goto_st 0)
      else goto_st 129)"

definition http_case145 :: "bool \<Rightarrow> int \<Rightarrow> move" where
  "http_case145 r c =
     (if c = 46 then goto_st 55
      else if c = 58 then goto_st 131
      else if c = 93 then goto_st 61
      else if c < 65 then (if 48 \<le> c \<and> c \<le> 57 then goto_st 130
          else goto_st 0)
      else if c > 70 then (if 97 \<le> c \<and> c \<le> 102 then goto_st 130
          else goto_st 0)
      else goto_st 130)"

definition http_case146 :: "bool \<Rightarrow> int \<Rightarrow> move" where
  "http_case146 r c =
     (if c = 46 then goto_st 55
      else if c = 48 then goto_st 147
      else if c = 53 then goto_st 148
      else if c = 58 then goto_st 131
      else if c = 93 then goto_st 61
      else if c < 65 then (if 49 \<le> c \<and> c \<le> 57 then goto_st 128
          else goto_st 0)
      else if c > 70 then (if 97 \<le> c \<and> c \<le> 102 then goto_st 128
          else goto_st 0)
      else goto_st 128)"

definition http_case147 :: "bool \<Rightarrow> int \<Rightarrow> move" where
  "http_case147 r c =
     (if c = 58 then goto_st 131
      else if c = 93 then goto_st 61
      else if c < 65 then (if 48 \<le> c \<and> c \<le> 57 then goto_st 145
          else goto_st 0)
      else if c > 70 then (if 97 \<le> c \<and> c \<le> 102 then goto_st 129
          else goto_st 0)
      else goto_st 129)"

definition http_case148 :: "bool \<Rightarrow> int \<Rightarrow> move" where
  "http_case148 r c =
     (if c = 48 then goto_st 145
      else if c = 58 then goto_st 131
      else if c = 93 then goto_st 61
      else if c < 65 then (if 49 \<le> c \<and> c \<le> 57 then goto_st 129
          else goto_st 0)
      else if c > 70 then (if 97 \<le> c \<and> c \<le> 102 then goto_st 129
          else goto_st 0)
      else goto_st 129)"

definition http_case149 :: "bool \<Rightarrow> int \<Rightarrow> move" where
  "http_case149 r c =
     (if c = 58 then goto_st 131
      else if c = 93 then goto_st 61
      else if c < 65 then (if 48 \<le> c \<and> c \<le> 57 then goto_st 128
          else goto_st 0)
      else if c > 70 then (if 97 \<le> c \<and> c \<le> 102 then goto_st 128
          else goto_st 0)
      else goto_st 128)"

definition http_case150 :: "bool \<Rightarrow> int \<Rightarrow> move" where
  "http_case150 r c =
     (if c = 49 then goto_st 143
      else if c = 50 then goto_st 146
      else if c < 48 then (if 2 \<le> c \<and> c \<le> 3 then goto_st 48
          else goto_st 0)
      else if c > 57 then (if c > 70 then (if 97 \<le> c \<and> c \<le> 102 then goto_st 149
              else goto_st 0)
          else if c \<ge> 65 then goto_st 149
          else goto_st 0)
      else goto_st 127)"

lemma http_case141_150_sound:
  "sound_move (http_case141 r c)"
  "sound_move (http_case142 r c)"
  "sound_move (http_case143 r c)"
  "sound_move (http_case144 r c)"
  "sound_move (http_case145 r c)"
  "sound_move (http_case146 r c)"
  "sound_move (http_case147 r c)"
  "sound_move (http_case148 r c)"
  "sound_move (http_case149 r c)"
  "sound_move (http_case150 r c)"
  by (simp_all add: http_moves http_case141_def http_case142_def http_case143_def http_case144_def http_case145_def http_case146_def http_case147_def http_case148_def http_case149_def http_case150_def)

definition http_case151 :: "bool \<Rightarrow> int \<Rightarrow> move" where
  "http_case151 r c =
     (if c = 49 then goto_st 156
      else if c = 50 then goto_st 159
      else if c < 48 then (if 2 \<le> c \<and> c \<le> 3 then goto_st 48
          else goto_st 0)
      else if c > 57 then (if c > 70 then (if 97 \<le> c \<and> c \<le> 102 then goto_st 162
              else goto_st 0)
          else if c \<ge> 65 then goto_st 162
          else goto_st 0)
      else goto_st 152)"

definition http_case152 :: "bool \<Rightarrow> int \<Rightarrow> move" where
  "http_case152 r c =
     (if c = 46 then goto_st 55
      else if c = 58 then goto_st 131
      else if c < 65 then (if 48 \<le> c \<and> c \<le> 57 then goto_st 153
          else goto_st 0)
      else if c > 70 then (if 97 \<le> c \<and> c \<le> 102 then goto_st 153
          else goto_st 0)
      else goto_st 153)"

definition http_case153 :: "bool \<Rightarrow> int \<Rightarrow> move" where
  "http_case153 r c =
     (if c = 58 then goto_st 131
      else if c < 65 then (if 48 \<le> c \<and> c \<le> 57 then goto_st 154
          else goto_st 0)
      else if c > 70 then (if 97 \<le> c \<and> c \<le> 102 then goto_st 154
          else goto_st 0)
      else goto_st 154)"

definition http_case154 :: "bool \<Rightarrow> int \<Rightarrow> move" where
  "http_case154 r c =
     (if c = 58 then goto_st 131
      else if c < 65 then (if 48 \<le> c \<and> c \<le> 57 then goto_st 155
          else goto_st 0)
      else if c > 70 then (if 97 \<le> c \<and> c \<le> 102 then goto_st 155
          else goto_st 0)
      else goto_st 155)"

definition http_case155 :: "bool \<Rightarrow> int \<Rightarrow> move" where
  "http_case155 r c =
     (if c = 58 then goto_st 131
      else goto_st 0)"

definition http_case156 :: "bool \<Rightarrow> int \<Rightarrow> move" where
  "http_case156 r c =
     (if c = 46 then goto_st 55
      else if c = 58 then goto_st 131
      else if c < 65 then (if 48 \<le> c \<and> c \<le> 57 then goto_st 157
          else goto_st 0)
      else if c > 70 then (if 97 \<le> c \<and> c \<le> 102 then goto_st 153
          else goto_st 0)
      else goto_st 153)"

definition http_case157 :: "bool \<Rightarrow> int \<Rightarrow> move" where
  "http_case157 r c =
     (if c = 46 then goto_st 55
      else if c = 58 then goto_st 131
      else if c < 65 then (if 48 \<le> c \<and> c \<le> 57 then goto_st 158
          else goto_st 0)
      else if c > 70 then (if 97 \<le> c \<and> c \<le> 102 then goto_st 154
          else goto_st 0)
      else goto_st 154)"

definition http_case158 :: "bool \<Rightarrow> int \<Rightarrow> move" where
  "http_case158 r c =
     (if c = 46 then goto_st 55
      else if c = 58 then goto_st 131
      else if c < 65 then (if 48 \<le> c \<and> c \<le> 57 then goto_st 155
          else goto_st 0)
      else if c > 70 then (if 97 \<le> c \<and> c \<le> 102 then goto_st 155
          else goto_st 0)
      else goto_st 155)"

definition http_case159 :: "bool \<Rightarrow> int \<Rightarrow> move" where
  "http_case159 r c =
     (if c = 46 then goto_st 55
      else if c = 48 then goto_st 160
      else if c = 53 then goto_st 161
      else if c = 58 then goto_st 131
      else if c < 65 then (if 49 \<le> c \<and> c \<le> 57 then goto_st 153
          else goto_st 0)
      else if c > 70 then (if 97 \<le> c \<and> c \<le> 102 then goto_st 153
          else goto_st 0)
      else goto_st 153)"

definition http_case160 :: "bool \<Rightarrow> int \<Rightarrow> move" where
  "http_case160 r c =
     (if c = 58 then goto_st 131
      else if c < 65 then (if 48 \<le> c \<and> c \<le> 57 then goto_st 158
          else goto_st 0)
      else if c > 70 then (if 97 \<le> c \<and> c \<le> 102 then goto_st 154
          else goto_st 0)
      else goto_st 154)"

lemma http_case151_160_sound:
  "sound_move (http_case151 r c)"
  "sound_move (http_case152 r c)"
  "sound_move (http_case153 r c)"
  "sound_move (http_case154 r c)"
  "sound_move (http_case155 r c)"
  "sound_move (http_case156 r c)"
  "sound_move (http_case157 r c)"
  "sound_move (http_case158 r c)"
  "sound_move (http_case159 r c)"
  "sound_move (http_case160 r c)"
  by (simp_all add: http_moves http_case151_def http_case152_def http_case153_def http_case154_def http_case155_def http_case156_def http_case157_def http_case158_def http_case159_def http_case160_def)

definition http_case161 :: "bool \<Rightarrow> int \<Rightarrow> move" where
  "http_case161 r c =
     (if c = 48 then goto_st 158
      else if c = 58 then goto_st 131
      else if c < 65 then (if 49 \<le> c \<and> c \<le> 57 then goto_st 154
          else goto_st 0)
      else if c > 70 then (if 97 \<le> c \<and> c \<le> 102 then goto_st 154
          else goto_st 0)
      else goto_st 154)"

definition http_case162 :: "bool \<Rightarrow> int \<Rightarrow> move" where
  "http_case162 r c =
     (if c = 58 then goto_st 131
      else if c < 65 then (if 48 \<le> c \<and> c \<le> 57 then goto_st 153
          else goto_st 0)
      else if c > 70 then (if 97 \<le> c \<and> c \<le> 102 then goto_st 153
          else goto_st 0)
      else goto_st 153)"

definition http_case163 :: "bool \<Rightarrow> int \<Rightarrow> move" where
  "http_case163 r c =
     (if c < 48 then (if 2 \<le> c \<and> c \<le> 3 then goto_st 48
          else goto_st 0)
      else if c > 57 then (if c > 70 then (if 97 \<le> c \<and> c \<le> 102 then goto_st 49
              else goto_st 0)
          else if c \<ge> 65 then goto_st 49
          else goto_st 0)
      else goto_st 49)"

definition http_case164 :: "bool \<Rightarrow> int \<Rightarrow> move" where
  "http_case164 r c =
     (if 2 \<le> c \<and> c \<le> 3 then goto_st 48
      else goto_st 0)"

definition http_case165 :: "bool \<Rightarrow> int \<Rightarrow> move" where
  "http_case165 r c =
     (if c = 3 then goto_st 48
      else goto_st 0)"

definition http_case166 :: "bool \<Rightarrow> int \<Rightarrow> move" where
  "http_case166 r c =
     (if c = 4 then goto_st 48
      else goto_st 0)"

definition http_case167 :: "bool \<Rightarrow> int \<Rightarrow> move" where
  "http_case167 r c =
     (if c = 58 then goto_st 168
      else goto_st 0)"

definition http_case168 :: "bool \<Rightarrow> int \<Rightarrow> move" where
  "http_case168 r c =
     (if c = 49 then goto_st 143
      else if c = 50 then goto_st 146
      else if c = 93 then goto_st 61
      else if c < 48 then (if 2 \<le> c \<and> c \<le> 5 then goto_st 48
          else goto_st 0)
      else if c > 57 then (if c > 70 then (if 97 \<le> c \<and> c \<le> 102 then goto_st 149
              else goto_st 0)
          else if c \<ge> 65 then goto_st 149
          else goto_st 0)
      else goto_st 127)"

definition http_case169 :: "bool \<Rightarrow> int \<Rightarrow> move" where
  "http_case169 r c =
     (if c < 65 then (if 48 \<le> c \<and> c \<le> 57 then goto_st 170
          else goto_st 0)
      else if c > 70 then (if 97 \<le> c \<and> c \<le> 102 then goto_st 170
          else goto_st 0)
      else goto_st 170)"

definition http_case170 :: "bool \<Rightarrow> int \<Rightarrow> move" where
  "http_case170 r c =
     (if c = 46 then goto_st 171
      else if c < 65 then (if 48 \<le> c \<and> c \<le> 57 then goto_st 170
          else goto_st 0)
      else if c > 70 then (if 97 \<le> c \<and> c \<le> 102 then goto_st 170
          else goto_st 0)
      else goto_st 170)"

lemma http_case161_170_sound:
  "sound_move (http_case161 r c)"
  "sound_move (http_case162 r c)"
  "sound_move (http_case163 r c)"
  "sound_move (http_case164 r c)"
  "sound_move (http_case165 r c)"
  "sound_move (http_case166 r c)"
  "sound_move (http_case167 r c)"
  "sound_move (http_case168 r c)"
  "sound_move (http_case169 r c)"
  "sound_move (http_case170 r c)"
  by (simp_all add: http_moves http_case161_def http_case162_def http_case163_def http_case164_def http_case165_def http_case166_def http_case167_def http_case168_def http_case169_def http_case170_def)

definition http_case171 :: "bool \<Rightarrow> int \<Rightarrow> move" where
  "http_case171 r c =
     (let w = (if c < 123 then (if 94 \<le> c \<and> c \<le> 94 then widec r c
                 else c)
               else (if c > 123 then (if 125 \<le> c \<and> c \<le> 125 then widec r c
                 else c)
               else widec r c))
      in if w = 33 \<or> w = 36 \<or> w = 61 \<or> w = 95 \<or> w = 126 \<or> w = 606
            \<or> w = 635 \<or> w = 637 then goto_st 172
          else if w < 48 then (if 38 \<le> w \<and> w \<le> 46 then goto_st 172
              else goto_st 0)
          else if w > 59 then (if w > 90 then (if 97 \<le> w \<and> w \<le> 122 then goto_st 172
                  else goto_st 0)
              else if w \<ge> 65 then goto_st 172
              else goto_st 0)
          else goto_st 172)"

definition http_case172 :: "bool \<Rightarrow> int \<Rightarrow> move" where
  "http_case172 r c =
     (let w = (if c < 123 then (if 94 \<le> c \<and> c \<le> 94 then widec r c
                 else c)
               else (if c > 123 then (if 125 \<le> c \<and> c \<le> 125 then widec r c
                 else c)
               else widec r c))
      in if w = 33 \<or> w = 36 \<or> w = 61 then goto_st 172
          else if w = 93 then goto_st 61
          else if w = 95 \<or> w = 126 \<or> w = 606 \<or> w = 635 \<or> w = 637 then goto_st 172
          else if w < 48 then (if 38 \<le> w \<and> w \<le> 46 then goto_st 172
              else goto_st 0)
          else if w > 59 then (if w > 90 then (if 97 \<le> w \<and> w \<le> 122 then goto_st 172
                  else goto_st 0)
              else if w \<ge> 65 then goto_st 172
              else goto_st 0)
          else goto_st 172)"

definition http_case173 :: "bool \<Rightarrow> int \<Rightarrow> move" where
  "http_case173 r c =
     (let w = (if c < 123 then (if 94 \<le> c \<and> c \<le> 94 then widec r c
                 else c)
               else (if c > 123 then (if 125 \<le> c \<and> c \<le> 125 then widec r c
                 else c)
               else widec r c))
      in if w = 32 then tr37
          else if w = 33 then goto_st 19
          else if w = 35 then tr39
          else if w = 37 then goto_st 24
          else if w = 43 then goto_st 173
          else if w = 47 then goto_st 26
          else if w = 58 then goto_st 174
          else if w = 59 \<or> w = 61 then goto_st 19
          else if w = 63 then tr42
          else if w = 64 \<or> w = 95 \<or> w = 126 \<or> w = 606 \<or> w = 635
                \<or> w = 637 then goto_st 19
          else if w < 45 then (if 36 \<le> w \<and> w \<le> 44 then goto_st 19
              else goto_st 0)
          else if w > 57 then (if w > 90 then (if 97 \<le> w \<and> w \<le> 122 then goto_st 173
                  else goto_st 0)
              else if w \<ge> 65 then goto_st 173
              else goto_st 0)
          else goto_st 173)"

definition http_case174 :: "bool \<Rightarrow> int \<Rightarrow> move" where
  "http_case174 r c =
     (let w = (if c < 123 then (if 94 \<le> c \<and> c \<le> 94 then widec r c
                 else c)
               else (if c > 123 then (if 125 \<le> c \<and> c \<le> 125 then widec r c
                 else c)
               else widec r c))
      in if w = 32 then tr6
          else if w = 33 then tr203
          else if w = 35 then tr8
          else if w = 37 then tr204
          else if w = 47 then tr10
          else if w = 61 then tr203
          else if w = 63 then tr11
          else if w = 95 \<or> w = 126 \<or> w = 606 \<or> w = 635 \<or> w = 637 then tr203
          else if w < 36 then (if w \<le> -1 then tr203
              else goto_st 0)
          else if w > 59 then (if w > 90 then (if 97 \<le> w \<and> w \<le> 122 then tr203
                  else goto_st 0)
              else if w \<ge> 64 then tr203
              else goto_st 0)
          else tr203)"

definition http_case175 :: "bool \<Rightarrow> int \<Rightarrow> move" where
  "http_case175 r c =
     (if c = 32 then tr4
      else if c > 57 then (if 65 \<le> c \<and> c \<le> 90 then goto_st 176
          else goto_st 0)
      else if c \<ge> 48 then goto_st 176
      else goto_st 0)"

definition http_case176 :: "bool \<Rightarrow> int \<Rightarrow> move" where
  "http_case176 r c =
     (if c = 32 then tr4
      else if c > 57 then (if 65 \<le> c \<and> c \<le> 90 then goto_st 177
          else goto_st 0)
      else if c \<ge> 48 then goto_st 177
      else goto_st 0)"

definition http_case177 :: "bool \<Rightarrow> int \<Rightarrow> move" where
  "http_case177 r c =
     (if c = 32 then tr4
      else if c > 57 then (if 65 \<le> c \<and> c \<le> 90 then goto_st 178
          else goto_st 0)
      else if c \<ge> 48 then goto_st 178
      else goto_st 0)"

definition http_case178 :: "bool \<Rightarrow> int \<Rightarrow> move" where
  "http_case178 r c =
     (if c = 32 then tr4
      else if c > 57 then (if 65 \<le> c \<and> c \<le> 90 then goto_st 179
          else goto_st 0)
      else if c \<ge> 48 then goto_st 179
      else goto_st 0)"

definition http_case179 :: "bool \<Rightarrow> int \<Rightarrow> move" where
  "http_case179 r c =
     (if c = 32 then tr4
      else if c > 57 then (if 65 \<le> c \<and> c \<le> 90 then goto_st 180
          else goto_st 0)
      else if c \<ge> 48 then goto_st 180
      else goto_st 0)"

definition http_case180 :: "bool \<Rightarrow> int \<Rightarrow> move" where
  "http_case180 r c =
     (if c = 32 then tr4
      else if c > 57 then (if 65 \<le> c \<and> c \<le> 90 then goto_st 181
          else goto_st 0)
      else if c \<ge> 48 then goto_st 181
      else goto_st 0)"

lemma http_case171_180_sound:
  "sound_move (http_case171 r c)"
  "sound_move (http_case172 r c)"
  "sound_move (http_case173 r c)"
  "sound_move (http_case174 r c)"
  "sound_move (http_case175 r c)"
  "sound_move (http_case176 r c)"
  "sound_move (http_case177 r c)"
  "sound_move (http_case178 r c)"
  "sound_move (http_case179 r c)"
  "sound_move (http_case180 r c)"
  by (simp_all add: http_moves http_case171_def http_case172_def http_case173_def http_case174_def http_case175_def http_case176_def http_case177_def http_case178_def http_case179_def http_case180_def)

definition http_case181 :: "bool \<Rightarrow> int \<Rightarrow> move" where
  "http_case181 r c =
     (if c = 32 then tr4
      else if c > 57 then (if 65 \<le> c \<and> c \<le> 90 then goto_st 182
          else goto_st 0)
      else if c \<ge> 48 then goto_st 182
      else goto_st 0)"

definition http_case182 :: "bool \<Rightarrow> int \<Rightarrow> move" where
  "http_case182 r c =
     (if c = 32 then tr4
      else if c > 57 then (if 65 \<le> c \<and> c \<le> 90 then goto_st 183
          else goto_st 0)
      else if c \<ge> 48 then goto_st 183
      else goto_st 0)"

definition http_case183 :: "bool \<Rightarrow> int \<Rightarrow> move" where
  "http_case183 r c =
     (if c = 32 then tr4
      else if c > 57 then (if 65 \<le> c \<and> c \<le> 90 then goto_st 184
          else goto_st 0)
      else if c \<ge> 48 then goto_st 184
      else goto_st 0)"

definition http_case184 :: "bool \<Rightarrow> int \<Rightarrow> move" where
  "http_case184 r c =
     (if c = 32 then tr4
      else if c > 57 then (if 65 \<le> c \<and> c \<le> 90 then goto_st 185
          else goto_st 0)
      else if c \<ge> 48 then goto_st 185
      else goto_st 0)"

definition http_case185 :: "bool \<Rightarrow> int \<Rightarrow> move" where
  "http_case185 r c =
     (if c = 32 then tr4
      else if c > 57 then (if 65 \<le> c \<and> c \<le> 90 then goto_st 186
          else goto_st 0)
      else if c \<ge> 48 then goto_st 186
      else goto_st 0)"

definition http_case186 :: "bool \<Rightarrow> int \<Rightarrow> move" where
  "http_case186 r c =
     (if c = 32 then tr4
      else if c > 57 then (if 65 \<le> c \<and> c \<le> 90 then goto_st 187
          else goto_st 0)
      else if c \<ge> 48 then goto_st 187
      else goto_st 0)"

definition http_case187 :: "bool \<Rightarrow> int \<Rightarrow> move" where
  "http_case187 r c =
     (if c = 32 then tr4
      else if c > 57 then (if 65 \<le> c \<and> c \<le> 90 then goto_st 188
          else goto_st 0)
      else if c \<ge> 48 then goto_st 188
      else goto_st 0)"

definition http_case188 :: "bool \<Rightarrow> int \<Rightarrow> move" where
  "http_case188 r c =
     (if c = 32 then tr4
      else if c > 57 then (if 65 \<le> c \<and> c \<le> 90 then goto_st 189
          else goto_st 0)
      else if c \<ge> 48 then goto_st 189
      else goto_st 0)"

definition http_case189 :: "bool \<Rightarrow> int \<Rightarrow> move" where
  "http_case189 r c =
     (if c = 32 then tr4
      else if c > 57 then (if 65 \<le> c \<and> c \<le> 90 then goto_st 190
          else goto_st 0)
      else if c \<ge> 48 then goto_st 190
      else goto_st 0)"

definition http_case190 :: "bool \<Rightarrow> int \<Rightarrow> move" where
  "http_case190 r c =
     (if c = 32 then tr4
      else if c > 57 then (if 65 \<le> c \<and> c \<le> 90 then goto_st 191
          else goto_st 0)
      else if c \<ge> 48 then goto_st 191
      else goto_st 0)"

lemma http_case181_190_sound:
  "sound_move (http_case181 r c)"
  "sound_move (http_case182 r c)"
  "sound_move (http_case183 r c)"
  "sound_move (http_case184 r c)"
  "sound_move (http_case185 r c)"
  "sound_move (http_case186 r c)"
  "sound_move (http_case187 r c)"
  "sound_move (http_case188 r c)"
  "sound_move (http_case189 r c)"
  "sound_move (http_case190 r c)"
  by (simp_all add: http_moves http_case181_def http_case182_def http_case183_def http_case184_def http_case185_def http_case186_def http_case187_def http_case188_def http_case189_def http_case190_def)

definition http_case191 :: "bool \<Rightarrow> int \<Rightarrow> move" where
  "http_case191 r c =
     (if c = 32 then tr4
      else if c > 57 then (if 65 \<le> c \<and> c \<le> 90 then goto_st 192
          else goto_st 0)
      else if c \<ge> 48 then goto_st 192
      else goto_st 0)"

definition http_case192 :: "bool \<Rightarrow> int \<Rightarrow> move" where
  "http_case192 r c =
     (if c = 32 then tr4
      else if c > 57 then (if 65 \<le> c \<and> c \<le> 90 then goto_st 193
          else goto_st 0)
      else if c \<ge> 48 then goto_st 193
      else goto_st 0)"

definition http_case193 :: "bool \<Rightarrow> int \<Rightarrow> move" where
  "http_case193 r c =
     (if c = 32 then tr4
      else goto_st 0)"

definition http_case194 :: "bool \<Rightarrow> int \<Rightarrow> move" where
  "http_case194 r c =
     (if c < 48 then (if 45 \<le> c \<and> c \<le> 46 then goto_st 195
          else goto_st 0)
      else if c > 57 then (if c > 90 then (if 97 \<le> c \<and> c \<le> 122 then goto_st 195
              else goto_st 0)
          else if c \<ge> 65 then goto_st 195
          else goto_st 0)
      else goto_st 195)"

definition http_case195 :: "bool \<Rightarrow> int \<Rightarrow> move" where
  "http_case195 r c =
     (if c = 32 \<or> c = 47 \<or> c = 62 then tr224
      else if c < 45 then (if 9 \<le> c \<and> c \<le> 13 then tr224
          else goto_st 0)
      else if c > 57 then (if c > 90 then (if 97 \<le> c \<and> c \<le> 122 then goto_st 195
              else goto_st 0)
          else if c \<ge> 65 then goto_st 195
          else goto_st 0)
      else goto_st 195)"

definition http_case196 :: "bool \<Rightarrow> int \<Rightarrow> move" where
  "http_case196 r c =
     (if c = 62 then goto_st 197
      else goto_st 196)"

definition http_case197 :: "bool \<Rightarrow> int \<Rightarrow> move" where
  "http_case197 r c =
     (if c = 0 then tr227
      else if c = 62 then goto_st 197
      else goto_st 196)"

definition http_case198 :: "bool \<Rightarrow> int \<Rightarrow> move" where
  "http_case198 r c =
     (let w = (if c < 123 then (if 94 \<le> c \<and> c \<le> 94 then widec r c
                 else c)
               else (if c > 123 then (if 125 \<le> c \<and> c \<le> 125 then widec r c
                 else c)
               else widec r c))
      in if w = 32 then tr228
          else if w = 33 then goto_st 202
          else if w = 37 then goto_st 203
          else if w = 47 then goto_st 208
          else if w = 59 \<or> w = 61 \<or> w = 95 \<or> w = 126 \<or> w = 606
                \<or> w = 635 \<or> w = 637 then goto_st 202
          else if w < 64 then (if 36 \<le> w \<and> w \<le> 57 then goto_st 202
              else goto_st 0)
          else if w > 90 then (if 97 \<le> w \<and> w \<le> 122 then goto_st 202
              else goto_st 0)
          else goto_st 202)"

definition http_case199 :: "bool \<Rightarrow> int \<Rightarrow> move" where
  "http_case199 r c =
     (if c = 123 then tr232
      else goto_st 0)"

definition http_case200 :: "bool \<Rightarrow> int \<Rightarrow> move" where
  "http_case200 r c =
     (if c = 125 then goto_st 201
      else goto_st 200)"

lemma http_case191_200_sound:
  "sound_move (http_case191 r c)"
  "sound_move (http_case192 r c)"
  "sound_move (http_case193 r c)"
  "sound_move (http_case194 r c)"
  "sound_move (http_case195 r c)"
  "sound_move (http_case196 r c)"
  "sound_move (http_case197 r c)"
  "sound_move (http_case198 r c)"
  "sound_move (http_case199 r c)"
  "sound_move (http_case200 r c)"
  by (simp_all add: http_moves http_case191_def http_case192_def http_case193_def http_case194_def http_case195_def http_case196_def http_case197_def http_case198_def http_case199_def http_case200_def)

definition http_case201 :: "bool \<Rightarrow> int \<Rightarrow> move" where
  "http_case201 r c =
     (if c = 0 then tr235
      else if c = 125 then goto_st 201
      else goto_st 200)"

definition http_case202 :: "bool \<Rightarrow> int \<Rightarrow> move" where
  "http_case202 r c =
     (let w = (if c < 123 then (if 94 \<le> c \<and> c \<le> 94 then widec r c
                 else c)
               else (if c > 123 then (if 125 \<le> c \<and> c \<le> 125 then widec r c
                 else c)
               else widec r c))
      in if w = 32 then tr228
          else if w = 33 then goto_st 202
          else if w = 37 then goto_st 203
          else if w = 47 then goto_st 205
          else if w = 59 \<or> w = 61 \<or> w = 95 \<or> w = 126 \<or> w = 606
                \<or> w = 635 \<or> w = 637 then goto_st 202
          else if w < 64 then (if 36 \<le> w \<and> w \<le> 57 then goto_st 202
              else goto_st 0)
          else if w > 90 then (if 97 \<le> w \<and> w \<le> 122 then goto_st 202
              else goto_st 0)
          else goto_st 202)"

definition http_case203 :: "bool \<Rightarrow> int \<Rightarrow> move" where
  "http_case203 r c =
     (if c < 65 then (if 48 \<le> c \<and> c \<le> 57 then goto_st 204
          else goto_st 0)
      else if c > 70 then (if 97 \<le> c \<and> c \<le> 102 then goto_st 204
          else goto_st 0)
      else goto_st 204)"

definition http_case204 :: "bool \<Rightarrow> int \<Rightarrow> move" where
  "http_case204 r c =
     (if c < 65 then (if 48 \<le> c \<and> c \<le> 57 then goto_st 202
          else goto_st 0)
      else if c > 70 then (if 97 \<le> c \<and> c \<le> 102 then goto_st 202
          else goto_st 0)
      else goto_st 202)"

definition http_case205 :: "bool \<Rightarrow> int \<Rightarrow> move" where
  "http_case205 r c =
     (let w = (if c < 123 then (if 94 \<le> c \<and> c \<le> 94 then widec r c
                 else c)
               else (if c > 123 then (if 125 \<le> c \<and> c \<le> 125 then widec r c
                 else c)
               else widec r c))
      in if w = 32 then tr228
          else if w = 33 then goto_st 205
          else if w = 37 then goto_st 206
          else if w = 61 \<or> w = 95 \<or> w = 126 \<or> w = 606 \<or> w = 635
                \<or> w = 637 then goto_st 205
          else if w < 36 then (if w \<le> -1 then goto_st 205
              else goto_st 0)
          else if w > 59 then (if w > 90 then (if 97 \<le> w \<and> w \<le> 122 then goto_st 205
                  else goto_st 0)
              else if w \<ge> 64 then goto_st 205
              else goto_st 0)
          else goto_st 205)"

definition http_case206 :: "bool \<Rightarrow> int \<Rightarrow> move" where
  "http_case206 r c =
     (if c < 65 then (if 48 \<le> c \<and> c \<le> 57 then goto_st 207
          else goto_st 0)
      else if c > 70 then (if 97 \<le> c \<and> c \<le> 102 then goto_st 207
          else goto_st 0)
      else goto_st 207)"

definition http_case207 :: "bool \<Rightarrow> int \<Rightarrow> move" where
  "http_case207 r c =
     (if c < 65 then (if 48 \<le> c \<and> c \<le> 57 then goto_st 205
          else goto_st 0)
      else if c > 70 then (if 97 \<le> c \<and> c \<le> 102 then goto_st 205
          else goto_st 0)
      else goto_st 205)"

definition http_case208 :: "bool \<Rightarrow> int \<Rightarrow> move" where
  "http_case208 r c =
     (let w = (if c < 123 then (if 94 \<le> c \<and> c \<le> 94 then widec r c
                 else c)
               else (if c > 123 then (if 125 \<le> c \<and> c \<le> 125 then widec r c
                 else c)
               else widec r c))
      in if w = 32 then tr228
          else if w = 33 then goto_st 205
          else if w = 37 then goto_st 206
          else if w = 47 then goto_st 209
          else if w = 61 \<or> w = 95 \<or> w = 126 \<or> w = 606 \<or> w = 635
                \<or> w = 637 then goto_st 205
          else if w < 36 then (if w \<le> -1 then goto_st 205
              else goto_st 0)
          else if w > 59 then (if w > 90 then (if 97 \<le> w \<and> w \<le> 122 then goto_st 205
                  else goto_st 0)
              else if w \<ge> 64 then goto_st 205
              else goto_st 0)
          else goto_st 205)"

definition http_case209 :: "bool \<Rightarrow> int \<Rightarrow> move" where
  "http_case209 r c =
     (let w = (if c < 123 then (if 94 \<le> c \<and> c \<le> 94 then widec r c
                 else c)
               else (if c > 123 then (if 125 \<le> c \<and> c \<le> 125 then widec r c
                 else c)
               else widec r c))
      in if w = 32 then tr228
          else if w = 33 then goto_st 210
          else if w = 37 then goto_st 211
          else if w = 47 then goto_st 205
          else if w = 58 then goto_st 213
          else if w = 61 then goto_st 210
          else if w = 64 then goto_st 217
          else if w = 91 then goto_st 222
          else if w = 95 \<or> w = 126 \<or> w = 606 \<or> w = 635 \<or> w = 637 then goto_st 210
          else if w < 65 then (if 36 \<le> w \<and> w \<le> 59 then goto_st 210
              else goto_st 0)
          else if w > 90 then (if 97 \<le> w \<and> w \<le> 122 then goto_st 210
              else goto_st 0)
          else goto_st 210)"

definition http_case210 :: "bool \<Rightarrow> int \<Rightarrow> move" where
  "http_case210 r c =
     (let w = (if c < 123 then (if 94 \<le> c \<and> c \<le> 94 then widec r c
                 else c)
               else (if c > 123 then (if 125 \<le> c \<and> c \<le> 125 then widec r c
                 else c)
               else widec r c))
      in if w = 32 then tr228
          else if w = 33 then goto_st 210
          else if w = 37 then goto_st 211
          else if w = 47 then goto_st 205
          else if w = 58 then goto_st 213
          else if w = 61 then goto_st 210
          else if w = 64 then goto_st 217
          else if w = 95 \<or> w = 126 \<or> w = 606 \<or> w = 635 \<or> w = 637 then goto_st 210
          else if w < 65 then (if 36 \<le> w \<and> w \<le> 59 then goto_st 210
              else goto_st 0)
          else if w > 90 then (if 97 \<le> w \<and> w \<le> 122 then goto_st 210
              else goto_st 0)
          else goto_st 210)"

lemma http_case201_210_sound:
  "sound_move (http_case201 r c)"
  "sound_move (http_case202 r c)"
  "sound_move (http_case203 r c)"
  "sound_move (http_case204 r c)"
  "sound_move (http_case205 r c)"
  "sound_move (http_case206 r c)"
  "sound_move (http_case207 r c)"
  "sound_move (http_case208 r c)"
  "sound_move (http_case209 r c)"
  "sound_move (http_case210 r c)"
  by (simp_all add: http_moves http_case201_def http_case202_def http_case203_def http_case204_def http_case205_def http_case206_def http_case207_def http_case208_def http_case209_def http_case210_def)

end
