(* ===== verification/HttpStates4.thy ===== *)
theory HttpStates4
  imports HttpActions
begin

text \<open>
  States 211 to 280 of \<open>http/http11_parser.cpp\<close>: \<open>http_case\<close>\<open>n\<close> is the body of \<open>case n\<close> of
  \<open>http_parser_execute\<close>, as a function of \<open>uri_relaxed\<close> and of the character at \<open>p\<close>, read as
  a signed char. A \<open>goto tr\<close> or \<open>goto st\<close> is its result; where the code widens the character
  for the condition on \<open>uri_relaxed\<close>, the local \<open>_widec\<close> is \<open>w\<close>. The lemmas below each block say
  that every move of it is sound, for the laws of the machine.
\<close>

definition http_case211 :: "bool \<Rightarrow> int \<Rightarrow> move" where
  "http_case211 r c =
     (if c < 65 then (if 48 \<le> c \<and> c \<le> 57 then goto_st 212
          else goto_st 0)
      else if c > 70 then (if 97 \<le> c \<and> c \<le> 102 then goto_st 212
          else goto_st 0)
      else goto_st 212)"

definition http_case212 :: "bool \<Rightarrow> int \<Rightarrow> move" where
  "http_case212 r c =
     (if c < 65 then (if 48 \<le> c \<and> c \<le> 57 then goto_st 210
          else goto_st 0)
      else if c > 70 then (if 97 \<le> c \<and> c \<le> 102 then goto_st 210
          else goto_st 0)
      else goto_st 210)"

definition http_case213 :: "bool \<Rightarrow> int \<Rightarrow> move" where
  "http_case213 r c =
     (let w = (if c < 123 then (if 94 \<le> c \<and> c \<le> 94 then widec r c
                 else c)
               else (if c > 123 then (if 125 \<le> c \<and> c \<le> 125 then widec r c
                 else c)
               else widec r c))
      in if w = 32 then tr228
          else if w = 33 then goto_st 214
          else if w = 37 then goto_st 215
          else if w = 47 then goto_st 205
          else if w = 61 then goto_st 214
          else if w = 64 then goto_st 217
          else if w = 95 \<or> w = 126 \<or> w = 606 \<or> w = 635 \<or> w = 637 then goto_st 214
          else if w < 58 then (if w > 46 then (if 48 \<le> w \<and> w \<le> 57 then goto_st 213
                  else goto_st 0)
              else if w \<ge> 36 then goto_st 214
              else goto_st 0)
          else if w > 59 then (if w > 90 then (if 97 \<le> w \<and> w \<le> 122 then goto_st 214
                  else goto_st 0)
              else if w \<ge> 65 then goto_st 214
              else goto_st 0)
          else goto_st 214)"

definition http_case214 :: "bool \<Rightarrow> int \<Rightarrow> move" where
  "http_case214 r c =
     (let w = (if c < 123 then (if 94 \<le> c \<and> c \<le> 94 then widec r c
                 else c)
               else (if c > 123 then (if 125 \<le> c \<and> c \<le> 125 then widec r c
                 else c)
               else widec r c))
      in if w = 33 then goto_st 214
          else if w = 37 then goto_st 215
          else if w = 61 then goto_st 214
          else if w = 64 then goto_st 217
          else if w = 95 \<or> w = 126 \<or> w = 606 \<or> w = 635 \<or> w = 637 then goto_st 214
          else if w < 48 then (if 36 \<le> w \<and> w \<le> 46 then goto_st 214
              else goto_st 0)
          else if w > 59 then (if w > 90 then (if 97 \<le> w \<and> w \<le> 122 then goto_st 214
                  else goto_st 0)
              else if w \<ge> 65 then goto_st 214
              else goto_st 0)
          else goto_st 214)"

definition http_case215 :: "bool \<Rightarrow> int \<Rightarrow> move" where
  "http_case215 r c =
     (if c < 65 then (if 48 \<le> c \<and> c \<le> 57 then goto_st 216
          else goto_st 0)
      else if c > 70 then (if 97 \<le> c \<and> c \<le> 102 then goto_st 216
          else goto_st 0)
      else goto_st 216)"

definition http_case216 :: "bool \<Rightarrow> int \<Rightarrow> move" where
  "http_case216 r c =
     (if c < 65 then (if 48 \<le> c \<and> c \<le> 57 then goto_st 214
          else goto_st 0)
      else if c > 70 then (if 97 \<le> c \<and> c \<le> 102 then goto_st 214
          else goto_st 0)
      else goto_st 214)"

definition http_case217 :: "bool \<Rightarrow> int \<Rightarrow> move" where
  "http_case217 r c =
     (let w = (if c < 123 then (if 94 \<le> c \<and> c \<le> 94 then widec r c
                 else c)
               else (if c > 123 then (if 125 \<le> c \<and> c \<le> 125 then widec r c
                 else c)
               else widec r c))
      in if w = 32 then tr228
          else if w = 33 then goto_st 218
          else if w = 37 then goto_st 219
          else if w = 47 then goto_st 205
          else if w = 58 then goto_st 221
          else if w = 61 then goto_st 218
          else if w = 91 then goto_st 222
          else if w = 95 \<or> w = 126 \<or> w = 606 \<or> w = 635 \<or> w = 637 then goto_st 218
          else if w < 65 then (if 36 \<le> w \<and> w \<le> 59 then goto_st 218
              else goto_st 0)
          else if w > 90 then (if 97 \<le> w \<and> w \<le> 122 then goto_st 218
              else goto_st 0)
          else goto_st 218)"

definition http_case218 :: "bool \<Rightarrow> int \<Rightarrow> move" where
  "http_case218 r c =
     (let w = (if c < 123 then (if 94 \<le> c \<and> c \<le> 94 then widec r c
                 else c)
               else (if c > 123 then (if 125 \<le> c \<and> c \<le> 125 then widec r c
                 else c)
               else widec r c))
      in if w = 32 then tr228
          else if w = 33 then goto_st 218
          else if w = 37 then goto_st 219
          else if w = 47 then goto_st 205
          else if w = 58 then goto_st 221
          else if w = 61 \<or> w = 95 \<or> w = 126 \<or> w = 606 \<or> w = 635
                \<or> w = 637 then goto_st 218
          else if w < 65 then (if 36 \<le> w \<and> w \<le> 59 then goto_st 218
              else goto_st 0)
          else if w > 90 then (if 97 \<le> w \<and> w \<le> 122 then goto_st 218
              else goto_st 0)
          else goto_st 218)"

definition http_case219 :: "bool \<Rightarrow> int \<Rightarrow> move" where
  "http_case219 r c =
     (if c < 65 then (if 48 \<le> c \<and> c \<le> 57 then goto_st 220
          else goto_st 0)
      else if c > 70 then (if 97 \<le> c \<and> c \<le> 102 then goto_st 220
          else goto_st 0)
      else goto_st 220)"

definition http_case220 :: "bool \<Rightarrow> int \<Rightarrow> move" where
  "http_case220 r c =
     (if c < 65 then (if 48 \<le> c \<and> c \<le> 57 then goto_st 218
          else goto_st 0)
      else if c > 70 then (if 97 \<le> c \<and> c \<le> 102 then goto_st 218
          else goto_st 0)
      else goto_st 218)"

lemma http_case211_220_sound:
  "sound_move (http_case211 r c)"
  "sound_move (http_case212 r c)"
  "sound_move (http_case213 r c)"
  "sound_move (http_case214 r c)"
  "sound_move (http_case215 r c)"
  "sound_move (http_case216 r c)"
  "sound_move (http_case217 r c)"
  "sound_move (http_case218 r c)"
  "sound_move (http_case219 r c)"
  "sound_move (http_case220 r c)"
  by (simp_all add: http_moves http_case211_def http_case212_def http_case213_def http_case214_def http_case215_def http_case216_def http_case217_def http_case218_def http_case219_def http_case220_def)

definition http_case221 :: "bool \<Rightarrow> int \<Rightarrow> move" where
  "http_case221 r c =
     (if c = 32 then tr228
      else if c = 47 then goto_st 205
      else if 48 \<le> c \<and> c \<le> 57 then goto_st 221
      else goto_st 0)"

definition http_case222 :: "bool \<Rightarrow> int \<Rightarrow> move" where
  "http_case222 r c =
     (if c = 6 then goto_st 223
      else if c = 58 then goto_st 342
      else if c = 118 then goto_st 344
      else if c < 65 then (if 48 \<le> c \<and> c \<le> 57 then goto_st 266
          else goto_st 0)
      else if c > 70 then (if 97 \<le> c \<and> c \<le> 102 then goto_st 266
          else goto_st 0)
      else goto_st 266)"

definition http_case223 :: "bool \<Rightarrow> int \<Rightarrow> move" where
  "http_case223 r c =
     (if c < 65 then (if 48 \<le> c \<and> c \<le> 57 then goto_st 224
          else goto_st 0)
      else if c > 70 then (if 97 \<le> c \<and> c \<le> 102 then goto_st 224
          else goto_st 0)
      else goto_st 224)"

definition http_case224 :: "bool \<Rightarrow> int \<Rightarrow> move" where
  "http_case224 r c =
     (if c = 58 then goto_st 228
      else if c < 65 then (if 48 \<le> c \<and> c \<le> 57 then goto_st 225
          else goto_st 0)
      else if c > 70 then (if 97 \<le> c \<and> c \<le> 102 then goto_st 225
          else goto_st 0)
      else goto_st 225)"

definition http_case225 :: "bool \<Rightarrow> int \<Rightarrow> move" where
  "http_case225 r c =
     (if c = 58 then goto_st 228
      else if c < 65 then (if 48 \<le> c \<and> c \<le> 57 then goto_st 226
          else goto_st 0)
      else if c > 70 then (if 97 \<le> c \<and> c \<le> 102 then goto_st 226
          else goto_st 0)
      else goto_st 226)"

definition http_case226 :: "bool \<Rightarrow> int \<Rightarrow> move" where
  "http_case226 r c =
     (if c = 58 then goto_st 228
      else if c < 65 then (if 48 \<le> c \<and> c \<le> 57 then goto_st 227
          else goto_st 0)
      else if c > 70 then (if 97 \<le> c \<and> c \<le> 102 then goto_st 227
          else goto_st 0)
      else goto_st 227)"

definition http_case227 :: "bool \<Rightarrow> int \<Rightarrow> move" where
  "http_case227 r c =
     (if c = 58 then goto_st 228
      else goto_st 0)"

definition http_case228 :: "bool \<Rightarrow> int \<Rightarrow> move" where
  "http_case228 r c =
     (if c = 49 then goto_st 259
      else if c = 50 then goto_st 262
      else if c < 65 then (if 48 \<le> c \<and> c \<le> 57 then goto_st 229
          else goto_st 0)
      else if c > 70 then (if 97 \<le> c \<and> c \<le> 102 then goto_st 265
          else goto_st 0)
      else goto_st 265)"

definition http_case229 :: "bool \<Rightarrow> int \<Rightarrow> move" where
  "http_case229 r c =
     (if c = 46 then goto_st 230
      else if c = 58 then goto_st 255
      else if c < 65 then (if 48 \<le> c \<and> c \<le> 57 then goto_st 252
          else goto_st 0)
      else if c > 70 then (if 97 \<le> c \<and> c \<le> 102 then goto_st 252
          else goto_st 0)
      else goto_st 252)"

definition http_case230 :: "bool \<Rightarrow> int \<Rightarrow> move" where
  "http_case230 r c =
     (if c = 49 then goto_st 247
      else if c = 50 then goto_st 249
      else if 48 \<le> c \<and> c \<le> 57 then goto_st 231
      else goto_st 0)"

lemma http_case221_230_sound:
  "sound_move (http_case221 r c)"
  "sound_move (http_case222 r c)"
  "sound_move (http_case223 r c)"
  "sound_move (http_case224 r c)"
  "sound_move (http_case225 r c)"
  "sound_move (http_case226 r c)"
  "sound_move (http_case227 r c)"
  "sound_move (http_case228 r c)"
  "sound_move (http_case229 r c)"
  "sound_move (http_case230 r c)"
  by (simp_all add: http_moves http_case221_def http_case222_def http_case223_def http_case224_def http_case225_def http_case226_def http_case227_def http_case228_def http_case229_def http_case230_def)

definition http_case231 :: "bool \<Rightarrow> int \<Rightarrow> move" where
  "http_case231 r c =
     (if c = 46 then goto_st 232
      else goto_st 0)"

definition http_case232 :: "bool \<Rightarrow> int \<Rightarrow> move" where
  "http_case232 r c =
     (if c = 49 then goto_st 242
      else if c = 50 then goto_st 244
      else if 48 \<le> c \<and> c \<le> 57 then goto_st 233
      else goto_st 0)"

definition http_case233 :: "bool \<Rightarrow> int \<Rightarrow> move" where
  "http_case233 r c =
     (if c = 46 then goto_st 234
      else goto_st 0)"

definition http_case234 :: "bool \<Rightarrow> int \<Rightarrow> move" where
  "http_case234 r c =
     (if c = 49 then goto_st 237
      else if c = 50 then goto_st 239
      else if 48 \<le> c \<and> c \<le> 57 then goto_st 235
      else goto_st 0)"

definition http_case235 :: "bool \<Rightarrow> int \<Rightarrow> move" where
  "http_case235 r c =
     (if c = 93 then goto_st 236
      else goto_st 0)"

definition http_case236 :: "bool \<Rightarrow> int \<Rightarrow> move" where
  "http_case236 r c =
     (if c = 32 then tr228
      else if c = 47 then goto_st 205
      else if c = 58 then goto_st 221
      else goto_st 0)"

definition http_case237 :: "bool \<Rightarrow> int \<Rightarrow> move" where
  "http_case237 r c =
     (if c = 93 then goto_st 236
      else if 48 \<le> c \<and> c \<le> 57 then goto_st 238
      else goto_st 0)"

definition http_case238 :: "bool \<Rightarrow> int \<Rightarrow> move" where
  "http_case238 r c =
     (if c = 93 then goto_st 236
      else if 48 \<le> c \<and> c \<le> 57 then goto_st 235
      else goto_st 0)"

definition http_case239 :: "bool \<Rightarrow> int \<Rightarrow> move" where
  "http_case239 r c =
     (if c = 48 then goto_st 240
      else if c = 53 then goto_st 241
      else if c = 93 then goto_st 236
      else goto_st 0)"

definition http_case240 :: "bool \<Rightarrow> int \<Rightarrow> move" where
  "http_case240 r c =
     (if 48 \<le> c \<and> c \<le> 57 then goto_st 235
      else goto_st 0)"

lemma http_case231_240_sound:
  "sound_move (http_case231 r c)"
  "sound_move (http_case232 r c)"
  "sound_move (http_case233 r c)"
  "sound_move (http_case234 r c)"
  "sound_move (http_case235 r c)"
  "sound_move (http_case236 r c)"
  "sound_move (http_case237 r c)"
  "sound_move (http_case238 r c)"
  "sound_move (http_case239 r c)"
  "sound_move (http_case240 r c)"
  by (simp_all add: http_moves http_case231_def http_case232_def http_case233_def http_case234_def http_case235_def http_case236_def http_case237_def http_case238_def http_case239_def http_case240_def)

definition http_case241 :: "bool \<Rightarrow> int \<Rightarrow> move" where
  "http_case241 r c =
     (if c = 48 then goto_st 235
      else goto_st 0)"

definition http_case242 :: "bool \<Rightarrow> int \<Rightarrow> move" where
  "http_case242 r c =
     (if c = 46 then goto_st 234
      else if 48 \<le> c \<and> c \<le> 57 then goto_st 243
      else goto_st 0)"

definition http_case243 :: "bool \<Rightarrow> int \<Rightarrow> move" where
  "http_case243 r c =
     (if c = 46 then goto_st 234
      else if 48 \<le> c \<and> c \<le> 57 then goto_st 233
      else goto_st 0)"

definition http_case244 :: "bool \<Rightarrow> int \<Rightarrow> move" where
  "http_case244 r c =
     (if c = 46 then goto_st 234
      else if c = 48 then goto_st 245
      else if c = 53 then goto_st 246
      else goto_st 0)"

definition http_case245 :: "bool \<Rightarrow> int \<Rightarrow> move" where
  "http_case245 r c =
     (if 48 \<le> c \<and> c \<le> 57 then goto_st 233
      else goto_st 0)"

definition http_case246 :: "bool \<Rightarrow> int \<Rightarrow> move" where
  "http_case246 r c =
     (if c = 48 then goto_st 233
      else goto_st 0)"

definition http_case247 :: "bool \<Rightarrow> int \<Rightarrow> move" where
  "http_case247 r c =
     (if c = 46 then goto_st 232
      else if 48 \<le> c \<and> c \<le> 57 then goto_st 248
      else goto_st 0)"

definition http_case248 :: "bool \<Rightarrow> int \<Rightarrow> move" where
  "http_case248 r c =
     (if c = 46 then goto_st 232
      else if 48 \<le> c \<and> c \<le> 57 then goto_st 231
      else goto_st 0)"

definition http_case249 :: "bool \<Rightarrow> int \<Rightarrow> move" where
  "http_case249 r c =
     (if c = 46 then goto_st 232
      else if c = 48 then goto_st 250
      else if c = 53 then goto_st 251
      else goto_st 0)"

definition http_case250 :: "bool \<Rightarrow> int \<Rightarrow> move" where
  "http_case250 r c =
     (if 48 \<le> c \<and> c \<le> 57 then goto_st 231
      else goto_st 0)"

lemma http_case241_250_sound:
  "sound_move (http_case241 r c)"
  "sound_move (http_case242 r c)"
  "sound_move (http_case243 r c)"
  "sound_move (http_case244 r c)"
  "sound_move (http_case245 r c)"
  "sound_move (http_case246 r c)"
  "sound_move (http_case247 r c)"
  "sound_move (http_case248 r c)"
  "sound_move (http_case249 r c)"
  "sound_move (http_case250 r c)"
  by (simp_all add: http_moves http_case241_def http_case242_def http_case243_def http_case244_def http_case245_def http_case246_def http_case247_def http_case248_def http_case249_def http_case250_def)

definition http_case251 :: "bool \<Rightarrow> int \<Rightarrow> move" where
  "http_case251 r c =
     (if c = 48 then goto_st 231
      else goto_st 0)"

definition http_case252 :: "bool \<Rightarrow> int \<Rightarrow> move" where
  "http_case252 r c =
     (if c = 58 then goto_st 255
      else if c < 65 then (if 48 \<le> c \<and> c \<le> 57 then goto_st 253
          else goto_st 0)
      else if c > 70 then (if 97 \<le> c \<and> c \<le> 102 then goto_st 253
          else goto_st 0)
      else goto_st 253)"

definition http_case253 :: "bool \<Rightarrow> int \<Rightarrow> move" where
  "http_case253 r c =
     (if c = 58 then goto_st 255
      else if c < 65 then (if 48 \<le> c \<and> c \<le> 57 then goto_st 254
          else goto_st 0)
      else if c > 70 then (if 97 \<le> c \<and> c \<le> 102 then goto_st 254
          else goto_st 0)
      else goto_st 254)"

definition http_case254 :: "bool \<Rightarrow> int \<Rightarrow> move" where
  "http_case254 r c =
     (if c = 58 then goto_st 255
      else goto_st 0)"

definition http_case255 :: "bool \<Rightarrow> int \<Rightarrow> move" where
  "http_case255 r c =
     (if c < 65 then (if 48 \<le> c \<and> c \<le> 57 then goto_st 256
          else goto_st 0)
      else if c > 70 then (if 97 \<le> c \<and> c \<le> 102 then goto_st 256
          else goto_st 0)
      else goto_st 256)"

definition http_case256 :: "bool \<Rightarrow> int \<Rightarrow> move" where
  "http_case256 r c =
     (if c = 93 then goto_st 236
      else if c < 65 then (if 48 \<le> c \<and> c \<le> 57 then goto_st 257
          else goto_st 0)
      else if c > 70 then (if 97 \<le> c \<and> c \<le> 102 then goto_st 257
          else goto_st 0)
      else goto_st 257)"

definition http_case257 :: "bool \<Rightarrow> int \<Rightarrow> move" where
  "http_case257 r c =
     (if c = 93 then goto_st 236
      else if c < 65 then (if 48 \<le> c \<and> c \<le> 57 then goto_st 258
          else goto_st 0)
      else if c > 70 then (if 97 \<le> c \<and> c \<le> 102 then goto_st 258
          else goto_st 0)
      else goto_st 258)"

definition http_case258 :: "bool \<Rightarrow> int \<Rightarrow> move" where
  "http_case258 r c =
     (if c = 93 then goto_st 236
      else if c < 65 then (if 48 \<le> c \<and> c \<le> 57 then goto_st 235
          else goto_st 0)
      else if c > 70 then (if 97 \<le> c \<and> c \<le> 102 then goto_st 235
          else goto_st 0)
      else goto_st 235)"

definition http_case259 :: "bool \<Rightarrow> int \<Rightarrow> move" where
  "http_case259 r c =
     (if c = 46 then goto_st 230
      else if c = 58 then goto_st 255
      else if c < 65 then (if 48 \<le> c \<and> c \<le> 57 then goto_st 260
          else goto_st 0)
      else if c > 70 then (if 97 \<le> c \<and> c \<le> 102 then goto_st 252
          else goto_st 0)
      else goto_st 252)"

definition http_case260 :: "bool \<Rightarrow> int \<Rightarrow> move" where
  "http_case260 r c =
     (if c = 46 then goto_st 230
      else if c = 58 then goto_st 255
      else if c < 65 then (if 48 \<le> c \<and> c \<le> 57 then goto_st 261
          else goto_st 0)
      else if c > 70 then (if 97 \<le> c \<and> c \<le> 102 then goto_st 253
          else goto_st 0)
      else goto_st 253)"

lemma http_case251_260_sound:
  "sound_move (http_case251 r c)"
  "sound_move (http_case252 r c)"
  "sound_move (http_case253 r c)"
  "sound_move (http_case254 r c)"
  "sound_move (http_case255 r c)"
  "sound_move (http_case256 r c)"
  "sound_move (http_case257 r c)"
  "sound_move (http_case258 r c)"
  "sound_move (http_case259 r c)"
  "sound_move (http_case260 r c)"
  by (simp_all add: http_moves http_case251_def http_case252_def http_case253_def http_case254_def http_case255_def http_case256_def http_case257_def http_case258_def http_case259_def http_case260_def)

definition http_case261 :: "bool \<Rightarrow> int \<Rightarrow> move" where
  "http_case261 r c =
     (if c = 46 then goto_st 230
      else if c = 58 then goto_st 255
      else if c < 65 then (if 48 \<le> c \<and> c \<le> 57 then goto_st 254
          else goto_st 0)
      else if c > 70 then (if 97 \<le> c \<and> c \<le> 102 then goto_st 254
          else goto_st 0)
      else goto_st 254)"

definition http_case262 :: "bool \<Rightarrow> int \<Rightarrow> move" where
  "http_case262 r c =
     (if c = 46 then goto_st 230
      else if c = 48 then goto_st 263
      else if c = 53 then goto_st 264
      else if c = 58 then goto_st 255
      else if c < 65 then (if 49 \<le> c \<and> c \<le> 57 then goto_st 252
          else goto_st 0)
      else if c > 70 then (if 97 \<le> c \<and> c \<le> 102 then goto_st 252
          else goto_st 0)
      else goto_st 252)"

definition http_case263 :: "bool \<Rightarrow> int \<Rightarrow> move" where
  "http_case263 r c =
     (if c = 58 then goto_st 255
      else if c < 65 then (if 48 \<le> c \<and> c \<le> 57 then goto_st 261
          else goto_st 0)
      else if c > 70 then (if 97 \<le> c \<and> c \<le> 102 then goto_st 253
          else goto_st 0)
      else goto_st 253)"

definition http_case264 :: "bool \<Rightarrow> int \<Rightarrow> move" where
  "http_case264 r c =
     (if c = 48 then goto_st 261
      else if c = 58 then goto_st 255
      else if c < 65 then (if 49 \<le> c \<and> c \<le> 57 then goto_st 253
          else goto_st 0)
      else if c > 70 then (if 97 \<le> c \<and> c \<le> 102 then goto_st 253
          else goto_st 0)
      else goto_st 253)"

definition http_case265 :: "bool \<Rightarrow> int \<Rightarrow> move" where
  "http_case265 r c =
     (if c = 58 then goto_st 255
      else if c < 65 then (if 48 \<le> c \<and> c \<le> 57 then goto_st 252
          else goto_st 0)
      else if c > 70 then (if 97 \<le> c \<and> c \<le> 102 then goto_st 252
          else goto_st 0)
      else goto_st 252)"

definition http_case266 :: "bool \<Rightarrow> int \<Rightarrow> move" where
  "http_case266 r c =
     (if c = 58 then goto_st 270
      else if c < 65 then (if 48 \<le> c \<and> c \<le> 57 then goto_st 267
          else goto_st 0)
      else if c > 70 then (if 97 \<le> c \<and> c \<le> 102 then goto_st 267
          else goto_st 0)
      else goto_st 267)"

definition http_case267 :: "bool \<Rightarrow> int \<Rightarrow> move" where
  "http_case267 r c =
     (if c = 58 then goto_st 270
      else if c < 65 then (if 48 \<le> c \<and> c \<le> 57 then goto_st 268
          else goto_st 0)
      else if c > 70 then (if 97 \<le> c \<and> c \<le> 102 then goto_st 268
          else goto_st 0)
      else goto_st 268)"

definition http_case268 :: "bool \<Rightarrow> int \<Rightarrow> move" where
  "http_case268 r c =
     (if c = 58 then goto_st 270
      else if c < 65 then (if 48 \<le> c \<and> c \<le> 57 then goto_st 269
          else goto_st 0)
      else if c > 70 then (if 97 \<le> c \<and> c \<le> 102 then goto_st 269
          else goto_st 0)
      else goto_st 269)"

definition http_case269 :: "bool \<Rightarrow> int \<Rightarrow> move" where
  "http_case269 r c =
     (if c = 58 then goto_st 270
      else goto_st 0)"

definition http_case270 :: "bool \<Rightarrow> int \<Rightarrow> move" where
  "http_case270 r c =
     (if c = 58 then goto_st 341
      else if c < 65 then (if 48 \<le> c \<and> c \<le> 57 then goto_st 271
          else goto_st 0)
      else if c > 70 then (if 97 \<le> c \<and> c \<le> 102 then goto_st 271
          else goto_st 0)
      else goto_st 271)"

lemma http_case261_270_sound:
  "sound_move (http_case261 r c)"
  "sound_move (http_case262 r c)"
  "sound_move (http_case263 r c)"
  "sound_move (http_case264 r c)"
  "sound_move (http_case265 r c)"
  "sound_move (http_case266 r c)"
  "sound_move (http_case267 r c)"
  "sound_move (http_case268 r c)"
  "sound_move (http_case269 r c)"
  "sound_move (http_case270 r c)"
  by (simp_all add: http_moves http_case261_def http_case262_def http_case263_def http_case264_def http_case265_def http_case266_def http_case267_def http_case268_def http_case269_def http_case270_def)

definition http_case271 :: "bool \<Rightarrow> int \<Rightarrow> move" where
  "http_case271 r c =
     (if c = 58 then goto_st 275
      else if c < 65 then (if 48 \<le> c \<and> c \<le> 57 then goto_st 272
          else goto_st 0)
      else if c > 70 then (if 97 \<le> c \<and> c \<le> 102 then goto_st 272
          else goto_st 0)
      else goto_st 272)"

definition http_case272 :: "bool \<Rightarrow> int \<Rightarrow> move" where
  "http_case272 r c =
     (if c = 58 then goto_st 275
      else if c < 65 then (if 48 \<le> c \<and> c \<le> 57 then goto_st 273
          else goto_st 0)
      else if c > 70 then (if 97 \<le> c \<and> c \<le> 102 then goto_st 273
          else goto_st 0)
      else goto_st 273)"

definition http_case273 :: "bool \<Rightarrow> int \<Rightarrow> move" where
  "http_case273 r c =
     (if c = 58 then goto_st 275
      else if c < 65 then (if 48 \<le> c \<and> c \<le> 57 then goto_st 274
          else goto_st 0)
      else if c > 70 then (if 97 \<le> c \<and> c \<le> 102 then goto_st 274
          else goto_st 0)
      else goto_st 274)"

definition http_case274 :: "bool \<Rightarrow> int \<Rightarrow> move" where
  "http_case274 r c =
     (if c = 58 then goto_st 275
      else goto_st 0)"

definition http_case275 :: "bool \<Rightarrow> int \<Rightarrow> move" where
  "http_case275 r c =
     (if c = 58 then goto_st 340
      else if c < 65 then (if 48 \<le> c \<and> c \<le> 57 then goto_st 276
          else goto_st 0)
      else if c > 70 then (if 97 \<le> c \<and> c \<le> 102 then goto_st 276
          else goto_st 0)
      else goto_st 276)"

definition http_case276 :: "bool \<Rightarrow> int \<Rightarrow> move" where
  "http_case276 r c =
     (if c = 58 then goto_st 280
      else if c < 65 then (if 48 \<le> c \<and> c \<le> 57 then goto_st 277
          else goto_st 0)
      else if c > 70 then (if 97 \<le> c \<and> c \<le> 102 then goto_st 277
          else goto_st 0)
      else goto_st 277)"

definition http_case277 :: "bool \<Rightarrow> int \<Rightarrow> move" where
  "http_case277 r c =
     (if c = 58 then goto_st 280
      else if c < 65 then (if 48 \<le> c \<and> c \<le> 57 then goto_st 278
          else goto_st 0)
      else if c > 70 then (if 97 \<le> c \<and> c \<le> 102 then goto_st 278
          else goto_st 0)
      else goto_st 278)"

definition http_case278 :: "bool \<Rightarrow> int \<Rightarrow> move" where
  "http_case278 r c =
     (if c = 58 then goto_st 280
      else if c < 65 then (if 48 \<le> c \<and> c \<le> 57 then goto_st 279
          else goto_st 0)
      else if c > 70 then (if 97 \<le> c \<and> c \<le> 102 then goto_st 279
          else goto_st 0)
      else goto_st 279)"

definition http_case279 :: "bool \<Rightarrow> int \<Rightarrow> move" where
  "http_case279 r c =
     (if c = 58 then goto_st 280
      else goto_st 0)"

definition http_case280 :: "bool \<Rightarrow> int \<Rightarrow> move" where
  "http_case280 r c =
     (if c = 58 then goto_st 339
      else if c < 65 then (if 48 \<le> c \<and> c \<le> 57 then goto_st 281
          else goto_st 0)
      else if c > 70 then (if 97 \<le> c \<and> c \<le> 102 then goto_st 281
          else goto_st 0)
      else goto_st 281)"

lemma http_case271_280_sound:
  "sound_move (http_case271 r c)"
  "sound_move (http_case272 r c)"
  "sound_move (http_case273 r c)"
  "sound_move (http_case274 r c)"
  "sound_move (http_case275 r c)"
  "sound_move (http_case276 r c)"
  "sound_move (http_case277 r c)"
  "sound_move (http_case278 r c)"
  "sound_move (http_case279 r c)"
  "sound_move (http_case280 r c)"
  by (simp_all add: http_moves http_case271_def http_case272_def http_case273_def http_case274_def http_case275_def http_case276_def http_case277_def http_case278_def http_case279_def http_case280_def)

end
