(* ===== verification/HttpStates5.thy ===== *)
theory HttpStates5
  imports HttpActions
begin

text \<open>
  States 281 to 349 of \<open>http/http11_parser.cpp\<close>: \<open>http_case\<close>\<open>n\<close> is the body of \<open>case n\<close> of
  \<open>http_parser_execute\<close>, as a function of \<open>uri_relaxed\<close> and of the character at \<open>p\<close>, read as
  a signed char. A \<open>goto tr\<close> or \<open>goto st\<close> is its result; where the code widens the character
  for the condition on \<open>uri_relaxed\<close>, the local \<open>_widec\<close> is \<open>w\<close>. The lemmas below each block say
  that every move of it is sound, for the laws of the machine.
\<close>

definition http_case281 :: "bool \<Rightarrow> int \<Rightarrow> move" where
  "http_case281 r c =
     (if c = 58 then goto_st 285
      else if c < 65 then (if 48 \<le> c \<and> c \<le> 57 then goto_st 282
          else goto_st 0)
      else if c > 70 then (if 97 \<le> c \<and> c \<le> 102 then goto_st 282
          else goto_st 0)
      else goto_st 282)"

definition http_case282 :: "bool \<Rightarrow> int \<Rightarrow> move" where
  "http_case282 r c =
     (if c = 58 then goto_st 285
      else if c < 65 then (if 48 \<le> c \<and> c \<le> 57 then goto_st 283
          else goto_st 0)
      else if c > 70 then (if 97 \<le> c \<and> c \<le> 102 then goto_st 283
          else goto_st 0)
      else goto_st 283)"

definition http_case283 :: "bool \<Rightarrow> int \<Rightarrow> move" where
  "http_case283 r c =
     (if c = 58 then goto_st 285
      else if c < 65 then (if 48 \<le> c \<and> c \<le> 57 then goto_st 284
          else goto_st 0)
      else if c > 70 then (if 97 \<le> c \<and> c \<le> 102 then goto_st 284
          else goto_st 0)
      else goto_st 284)"

definition http_case284 :: "bool \<Rightarrow> int \<Rightarrow> move" where
  "http_case284 r c =
     (if c = 58 then goto_st 285
      else goto_st 0)"

definition http_case285 :: "bool \<Rightarrow> int \<Rightarrow> move" where
  "http_case285 r c =
     (if c = 58 then goto_st 338
      else if c < 65 then (if 48 \<le> c \<and> c \<le> 57 then goto_st 286
          else goto_st 0)
      else if c > 70 then (if 97 \<le> c \<and> c \<le> 102 then goto_st 286
          else goto_st 0)
      else goto_st 286)"

definition http_case286 :: "bool \<Rightarrow> int \<Rightarrow> move" where
  "http_case286 r c =
     (if c = 58 then goto_st 290
      else if c < 65 then (if 48 \<le> c \<and> c \<le> 57 then goto_st 287
          else goto_st 0)
      else if c > 70 then (if 97 \<le> c \<and> c \<le> 102 then goto_st 287
          else goto_st 0)
      else goto_st 287)"

definition http_case287 :: "bool \<Rightarrow> int \<Rightarrow> move" where
  "http_case287 r c =
     (if c = 58 then goto_st 290
      else if c < 65 then (if 48 \<le> c \<and> c \<le> 57 then goto_st 288
          else goto_st 0)
      else if c > 70 then (if 97 \<le> c \<and> c \<le> 102 then goto_st 288
          else goto_st 0)
      else goto_st 288)"

definition http_case288 :: "bool \<Rightarrow> int \<Rightarrow> move" where
  "http_case288 r c =
     (if c = 58 then goto_st 290
      else if c < 65 then (if 48 \<le> c \<and> c \<le> 57 then goto_st 289
          else goto_st 0)
      else if c > 70 then (if 97 \<le> c \<and> c \<le> 102 then goto_st 289
          else goto_st 0)
      else goto_st 289)"

definition http_case289 :: "bool \<Rightarrow> int \<Rightarrow> move" where
  "http_case289 r c =
     (if c = 58 then goto_st 290
      else goto_st 0)"

definition http_case290 :: "bool \<Rightarrow> int \<Rightarrow> move" where
  "http_case290 r c =
     (if c = 58 then goto_st 326
      else if c < 65 then (if 48 \<le> c \<and> c \<le> 57 then goto_st 291
          else goto_st 0)
      else if c > 70 then (if 97 \<le> c \<and> c \<le> 102 then goto_st 291
          else goto_st 0)
      else goto_st 291)"

lemma http_case281_290_sound:
  "sound_move (http_case281 r c)"
  "sound_move (http_case282 r c)"
  "sound_move (http_case283 r c)"
  "sound_move (http_case284 r c)"
  "sound_move (http_case285 r c)"
  "sound_move (http_case286 r c)"
  "sound_move (http_case287 r c)"
  "sound_move (http_case288 r c)"
  "sound_move (http_case289 r c)"
  "sound_move (http_case290 r c)"
  by (simp_all add: http_moves http_case281_def http_case282_def http_case283_def http_case284_def http_case285_def http_case286_def http_case287_def http_case288_def http_case289_def http_case290_def)

definition http_case291 :: "bool \<Rightarrow> int \<Rightarrow> move" where
  "http_case291 r c =
     (if c = 58 then goto_st 295
      else if c < 65 then (if 48 \<le> c \<and> c \<le> 57 then goto_st 292
          else goto_st 0)
      else if c > 70 then (if 97 \<le> c \<and> c \<le> 102 then goto_st 292
          else goto_st 0)
      else goto_st 292)"

definition http_case292 :: "bool \<Rightarrow> int \<Rightarrow> move" where
  "http_case292 r c =
     (if c = 58 then goto_st 295
      else if c < 65 then (if 48 \<le> c \<and> c \<le> 57 then goto_st 293
          else goto_st 0)
      else if c > 70 then (if 97 \<le> c \<and> c \<le> 102 then goto_st 293
          else goto_st 0)
      else goto_st 293)"

definition http_case293 :: "bool \<Rightarrow> int \<Rightarrow> move" where
  "http_case293 r c =
     (if c = 58 then goto_st 295
      else if c < 65 then (if 48 \<le> c \<and> c \<le> 57 then goto_st 294
          else goto_st 0)
      else if c > 70 then (if 97 \<le> c \<and> c \<le> 102 then goto_st 294
          else goto_st 0)
      else goto_st 294)"

definition http_case294 :: "bool \<Rightarrow> int \<Rightarrow> move" where
  "http_case294 r c =
     (if c = 58 then goto_st 295
      else goto_st 0)"

definition http_case295 :: "bool \<Rightarrow> int \<Rightarrow> move" where
  "http_case295 r c =
     (if c = 58 then goto_st 325
      else if c < 65 then (if 48 \<le> c \<and> c \<le> 57 then goto_st 296
          else goto_st 0)
      else if c > 70 then (if 97 \<le> c \<and> c \<le> 102 then goto_st 296
          else goto_st 0)
      else goto_st 296)"

definition http_case296 :: "bool \<Rightarrow> int \<Rightarrow> move" where
  "http_case296 r c =
     (if c = 58 then goto_st 300
      else if c < 65 then (if 48 \<le> c \<and> c \<le> 57 then goto_st 297
          else goto_st 0)
      else if c > 70 then (if 97 \<le> c \<and> c \<le> 102 then goto_st 297
          else goto_st 0)
      else goto_st 297)"

definition http_case297 :: "bool \<Rightarrow> int \<Rightarrow> move" where
  "http_case297 r c =
     (if c = 58 then goto_st 300
      else if c < 65 then (if 48 \<le> c \<and> c \<le> 57 then goto_st 298
          else goto_st 0)
      else if c > 70 then (if 97 \<le> c \<and> c \<le> 102 then goto_st 298
          else goto_st 0)
      else goto_st 298)"

definition http_case298 :: "bool \<Rightarrow> int \<Rightarrow> move" where
  "http_case298 r c =
     (if c = 58 then goto_st 300
      else if c < 65 then (if 48 \<le> c \<and> c \<le> 57 then goto_st 299
          else goto_st 0)
      else if c > 70 then (if 97 \<le> c \<and> c \<le> 102 then goto_st 299
          else goto_st 0)
      else goto_st 299)"

definition http_case299 :: "bool \<Rightarrow> int \<Rightarrow> move" where
  "http_case299 r c =
     (if c = 58 then goto_st 300
      else goto_st 0)"

definition http_case300 :: "bool \<Rightarrow> int \<Rightarrow> move" where
  "http_case300 r c =
     (if c = 58 then goto_st 301
      else if c < 65 then (if 48 \<le> c \<and> c \<le> 57 then goto_st 296
          else goto_st 0)
      else if c > 70 then (if 97 \<le> c \<and> c \<le> 102 then goto_st 296
          else goto_st 0)
      else goto_st 296)"

lemma http_case291_300_sound:
  "sound_move (http_case291 r c)"
  "sound_move (http_case292 r c)"
  "sound_move (http_case293 r c)"
  "sound_move (http_case294 r c)"
  "sound_move (http_case295 r c)"
  "sound_move (http_case296 r c)"
  "sound_move (http_case297 r c)"
  "sound_move (http_case298 r c)"
  "sound_move (http_case299 r c)"
  "sound_move (http_case300 r c)"
  by (simp_all add: http_moves http_case291_def http_case292_def http_case293_def http_case294_def http_case295_def http_case296_def http_case297_def http_case298_def http_case299_def http_case300_def)

definition http_case301 :: "bool \<Rightarrow> int \<Rightarrow> move" where
  "http_case301 r c =
     (if c = 49 then goto_st 318
      else if c = 50 then goto_st 321
      else if c = 93 then goto_st 236
      else if c < 48 then (if 2 \<le> c \<and> c \<le> 3 then goto_st 223
          else goto_st 0)
      else if c > 57 then (if c > 70 then (if 97 \<le> c \<and> c \<le> 102 then goto_st 324
              else goto_st 0)
          else if c \<ge> 65 then goto_st 324
          else goto_st 0)
      else goto_st 302)"

definition http_case302 :: "bool \<Rightarrow> int \<Rightarrow> move" where
  "http_case302 r c =
     (if c = 46 then goto_st 230
      else if c = 58 then goto_st 306
      else if c = 93 then goto_st 236
      else if c < 65 then (if 48 \<le> c \<and> c \<le> 57 then goto_st 303
          else goto_st 0)
      else if c > 70 then (if 97 \<le> c \<and> c \<le> 102 then goto_st 303
          else goto_st 0)
      else goto_st 303)"

definition http_case303 :: "bool \<Rightarrow> int \<Rightarrow> move" where
  "http_case303 r c =
     (if c = 58 then goto_st 306
      else if c = 93 then goto_st 236
      else if c < 65 then (if 48 \<le> c \<and> c \<le> 57 then goto_st 304
          else goto_st 0)
      else if c > 70 then (if 97 \<le> c \<and> c \<le> 102 then goto_st 304
          else goto_st 0)
      else goto_st 304)"

definition http_case304 :: "bool \<Rightarrow> int \<Rightarrow> move" where
  "http_case304 r c =
     (if c = 58 then goto_st 306
      else if c = 93 then goto_st 236
      else if c < 65 then (if 48 \<le> c \<and> c \<le> 57 then goto_st 305
          else goto_st 0)
      else if c > 70 then (if 97 \<le> c \<and> c \<le> 102 then goto_st 305
          else goto_st 0)
      else goto_st 305)"

definition http_case305 :: "bool \<Rightarrow> int \<Rightarrow> move" where
  "http_case305 r c =
     (if c = 58 then goto_st 306
      else if c = 93 then goto_st 236
      else goto_st 0)"

definition http_case306 :: "bool \<Rightarrow> int \<Rightarrow> move" where
  "http_case306 r c =
     (if c = 49 then goto_st 311
      else if c = 50 then goto_st 314
      else if c < 65 then (if 48 \<le> c \<and> c \<le> 57 then goto_st 307
          else goto_st 0)
      else if c > 70 then (if 97 \<le> c \<and> c \<le> 102 then goto_st 317
          else goto_st 0)
      else goto_st 317)"

definition http_case307 :: "bool \<Rightarrow> int \<Rightarrow> move" where
  "http_case307 r c =
     (if c = 46 then goto_st 230
      else if c = 58 then goto_st 255
      else if c = 93 then goto_st 236
      else if c < 65 then (if 48 \<le> c \<and> c \<le> 57 then goto_st 308
          else goto_st 0)
      else if c > 70 then (if 97 \<le> c \<and> c \<le> 102 then goto_st 308
          else goto_st 0)
      else goto_st 308)"

definition http_case308 :: "bool \<Rightarrow> int \<Rightarrow> move" where
  "http_case308 r c =
     (if c = 58 then goto_st 255
      else if c = 93 then goto_st 236
      else if c < 65 then (if 48 \<le> c \<and> c \<le> 57 then goto_st 309
          else goto_st 0)
      else if c > 70 then (if 97 \<le> c \<and> c \<le> 102 then goto_st 309
          else goto_st 0)
      else goto_st 309)"

definition http_case309 :: "bool \<Rightarrow> int \<Rightarrow> move" where
  "http_case309 r c =
     (if c = 58 then goto_st 255
      else if c = 93 then goto_st 236
      else if c < 65 then (if 48 \<le> c \<and> c \<le> 57 then goto_st 310
          else goto_st 0)
      else if c > 70 then (if 97 \<le> c \<and> c \<le> 102 then goto_st 310
          else goto_st 0)
      else goto_st 310)"

definition http_case310 :: "bool \<Rightarrow> int \<Rightarrow> move" where
  "http_case310 r c =
     (if c = 58 then goto_st 255
      else if c = 93 then goto_st 236
      else goto_st 0)"

lemma http_case301_310_sound:
  "sound_move (http_case301 r c)"
  "sound_move (http_case302 r c)"
  "sound_move (http_case303 r c)"
  "sound_move (http_case304 r c)"
  "sound_move (http_case305 r c)"
  "sound_move (http_case306 r c)"
  "sound_move (http_case307 r c)"
  "sound_move (http_case308 r c)"
  "sound_move (http_case309 r c)"
  "sound_move (http_case310 r c)"
  by (simp_all add: http_moves http_case301_def http_case302_def http_case303_def http_case304_def http_case305_def http_case306_def http_case307_def http_case308_def http_case309_def http_case310_def)

definition http_case311 :: "bool \<Rightarrow> int \<Rightarrow> move" where
  "http_case311 r c =
     (if c = 46 then goto_st 230
      else if c = 58 then goto_st 255
      else if c = 93 then goto_st 236
      else if c < 65 then (if 48 \<le> c \<and> c \<le> 57 then goto_st 312
          else goto_st 0)
      else if c > 70 then (if 97 \<le> c \<and> c \<le> 102 then goto_st 308
          else goto_st 0)
      else goto_st 308)"

definition http_case312 :: "bool \<Rightarrow> int \<Rightarrow> move" where
  "http_case312 r c =
     (if c = 46 then goto_st 230
      else if c = 58 then goto_st 255
      else if c = 93 then goto_st 236
      else if c < 65 then (if 48 \<le> c \<and> c \<le> 57 then goto_st 313
          else goto_st 0)
      else if c > 70 then (if 97 \<le> c \<and> c \<le> 102 then goto_st 309
          else goto_st 0)
      else goto_st 309)"

definition http_case313 :: "bool \<Rightarrow> int \<Rightarrow> move" where
  "http_case313 r c =
     (if c = 46 then goto_st 230
      else if c = 58 then goto_st 255
      else if c = 93 then goto_st 236
      else if c < 65 then (if 48 \<le> c \<and> c \<le> 57 then goto_st 310
          else goto_st 0)
      else if c > 70 then (if 97 \<le> c \<and> c \<le> 102 then goto_st 310
          else goto_st 0)
      else goto_st 310)"

definition http_case314 :: "bool \<Rightarrow> int \<Rightarrow> move" where
  "http_case314 r c =
     (if c = 46 then goto_st 230
      else if c = 48 then goto_st 315
      else if c = 53 then goto_st 316
      else if c = 58 then goto_st 255
      else if c = 93 then goto_st 236
      else if c < 65 then (if 49 \<le> c \<and> c \<le> 57 then goto_st 308
          else goto_st 0)
      else if c > 70 then (if 97 \<le> c \<and> c \<le> 102 then goto_st 308
          else goto_st 0)
      else goto_st 308)"

definition http_case315 :: "bool \<Rightarrow> int \<Rightarrow> move" where
  "http_case315 r c =
     (if c = 58 then goto_st 255
      else if c = 93 then goto_st 236
      else if c < 65 then (if 48 \<le> c \<and> c \<le> 57 then goto_st 313
          else goto_st 0)
      else if c > 70 then (if 97 \<le> c \<and> c \<le> 102 then goto_st 309
          else goto_st 0)
      else goto_st 309)"

definition http_case316 :: "bool \<Rightarrow> int \<Rightarrow> move" where
  "http_case316 r c =
     (if c = 48 then goto_st 313
      else if c = 58 then goto_st 255
      else if c = 93 then goto_st 236
      else if c < 65 then (if 49 \<le> c \<and> c \<le> 57 then goto_st 309
          else goto_st 0)
      else if c > 70 then (if 97 \<le> c \<and> c \<le> 102 then goto_st 309
          else goto_st 0)
      else goto_st 309)"

definition http_case317 :: "bool \<Rightarrow> int \<Rightarrow> move" where
  "http_case317 r c =
     (if c = 58 then goto_st 255
      else if c = 93 then goto_st 236
      else if c < 65 then (if 48 \<le> c \<and> c \<le> 57 then goto_st 308
          else goto_st 0)
      else if c > 70 then (if 97 \<le> c \<and> c \<le> 102 then goto_st 308
          else goto_st 0)
      else goto_st 308)"

definition http_case318 :: "bool \<Rightarrow> int \<Rightarrow> move" where
  "http_case318 r c =
     (if c = 46 then goto_st 230
      else if c = 58 then goto_st 306
      else if c = 93 then goto_st 236
      else if c < 65 then (if 48 \<le> c \<and> c \<le> 57 then goto_st 319
          else goto_st 0)
      else if c > 70 then (if 97 \<le> c \<and> c \<le> 102 then goto_st 303
          else goto_st 0)
      else goto_st 303)"

definition http_case319 :: "bool \<Rightarrow> int \<Rightarrow> move" where
  "http_case319 r c =
     (if c = 46 then goto_st 230
      else if c = 58 then goto_st 306
      else if c = 93 then goto_st 236
      else if c < 65 then (if 48 \<le> c \<and> c \<le> 57 then goto_st 320
          else goto_st 0)
      else if c > 70 then (if 97 \<le> c \<and> c \<le> 102 then goto_st 304
          else goto_st 0)
      else goto_st 304)"

definition http_case320 :: "bool \<Rightarrow> int \<Rightarrow> move" where
  "http_case320 r c =
     (if c = 46 then goto_st 230
      else if c = 58 then goto_st 306
      else if c = 93 then goto_st 236
      else if c < 65 then (if 48 \<le> c \<and> c \<le> 57 then goto_st 305
          else goto_st 0)
      else if c > 70 then (if 97 \<le> c \<and> c \<le> 102 then goto_st 305
          else goto_st 0)
      else goto_st 305)"

lemma http_case311_320_sound:
  "sound_move (http_case311 r c)"
  "sound_move (http_case312 r c)"
  "sound_move (http_case313 r c)"
  "sound_move (http_case314 r c)"
  "sound_move (http_case315 r c)"
  "sound_move (http_case316 r c)"
  "sound_move (http_case317 r c)"
  "sound_move (http_case318 r c)"
  "sound_move (http_case319 r c)"
  "sound_move (http_case320 r c)"
  by (simp_all add: http_moves http_case311_def http_case312_def http_case313_def http_case314_def http_case315_def http_case316_def http_case317_def http_case318_def http_case319_def http_case320_def)

definition http_case321 :: "bool \<Rightarrow> int \<Rightarrow> move" where
  "http_case321 r c =
     (if c = 46 then goto_st 230
      else if c = 48 then goto_st 322
      else if c = 53 then goto_st 323
      else if c = 58 then goto_st 306
      else if c = 93 then goto_st 236
      else if c < 65 then (if 49 \<le> c \<and> c \<le> 57 then goto_st 303
          else goto_st 0)
      else if c > 70 then (if 97 \<le> c \<and> c \<le> 102 then goto_st 303
          else goto_st 0)
      else goto_st 303)"

definition http_case322 :: "bool \<Rightarrow> int \<Rightarrow> move" where
  "http_case322 r c =
     (if c = 58 then goto_st 306
      else if c = 93 then goto_st 236
      else if c < 65 then (if 48 \<le> c \<and> c \<le> 57 then goto_st 320
          else goto_st 0)
      else if c > 70 then (if 97 \<le> c \<and> c \<le> 102 then goto_st 304
          else goto_st 0)
      else goto_st 304)"

definition http_case323 :: "bool \<Rightarrow> int \<Rightarrow> move" where
  "http_case323 r c =
     (if c = 48 then goto_st 320
      else if c = 58 then goto_st 306
      else if c = 93 then goto_st 236
      else if c < 65 then (if 49 \<le> c \<and> c \<le> 57 then goto_st 304
          else goto_st 0)
      else if c > 70 then (if 97 \<le> c \<and> c \<le> 102 then goto_st 304
          else goto_st 0)
      else goto_st 304)"

definition http_case324 :: "bool \<Rightarrow> int \<Rightarrow> move" where
  "http_case324 r c =
     (if c = 58 then goto_st 306
      else if c = 93 then goto_st 236
      else if c < 65 then (if 48 \<le> c \<and> c \<le> 57 then goto_st 303
          else goto_st 0)
      else if c > 70 then (if 97 \<le> c \<and> c \<le> 102 then goto_st 303
          else goto_st 0)
      else goto_st 303)"

definition http_case325 :: "bool \<Rightarrow> int \<Rightarrow> move" where
  "http_case325 r c =
     (if c = 49 then goto_st 318
      else if c = 50 then goto_st 321
      else if c < 48 then (if 2 \<le> c \<and> c \<le> 3 then goto_st 223
          else goto_st 0)
      else if c > 57 then (if c > 70 then (if 97 \<le> c \<and> c \<le> 102 then goto_st 324
              else goto_st 0)
          else if c \<ge> 65 then goto_st 324
          else goto_st 0)
      else goto_st 302)"

definition http_case326 :: "bool \<Rightarrow> int \<Rightarrow> move" where
  "http_case326 r c =
     (if c = 49 then goto_st 331
      else if c = 50 then goto_st 334
      else if c < 48 then (if 2 \<le> c \<and> c \<le> 3 then goto_st 223
          else goto_st 0)
      else if c > 57 then (if c > 70 then (if 97 \<le> c \<and> c \<le> 102 then goto_st 337
              else goto_st 0)
          else if c \<ge> 65 then goto_st 337
          else goto_st 0)
      else goto_st 327)"

definition http_case327 :: "bool \<Rightarrow> int \<Rightarrow> move" where
  "http_case327 r c =
     (if c = 46 then goto_st 230
      else if c = 58 then goto_st 306
      else if c < 65 then (if 48 \<le> c \<and> c \<le> 57 then goto_st 328
          else goto_st 0)
      else if c > 70 then (if 97 \<le> c \<and> c \<le> 102 then goto_st 328
          else goto_st 0)
      else goto_st 328)"

definition http_case328 :: "bool \<Rightarrow> int \<Rightarrow> move" where
  "http_case328 r c =
     (if c = 58 then goto_st 306
      else if c < 65 then (if 48 \<le> c \<and> c \<le> 57 then goto_st 329
          else goto_st 0)
      else if c > 70 then (if 97 \<le> c \<and> c \<le> 102 then goto_st 329
          else goto_st 0)
      else goto_st 329)"

definition http_case329 :: "bool \<Rightarrow> int \<Rightarrow> move" where
  "http_case329 r c =
     (if c = 58 then goto_st 306
      else if c < 65 then (if 48 \<le> c \<and> c \<le> 57 then goto_st 330
          else goto_st 0)
      else if c > 70 then (if 97 \<le> c \<and> c \<le> 102 then goto_st 330
          else goto_st 0)
      else goto_st 330)"

definition http_case330 :: "bool \<Rightarrow> int \<Rightarrow> move" where
  "http_case330 r c =
     (if c = 58 then goto_st 306
      else goto_st 0)"

lemma http_case321_330_sound:
  "sound_move (http_case321 r c)"
  "sound_move (http_case322 r c)"
  "sound_move (http_case323 r c)"
  "sound_move (http_case324 r c)"
  "sound_move (http_case325 r c)"
  "sound_move (http_case326 r c)"
  "sound_move (http_case327 r c)"
  "sound_move (http_case328 r c)"
  "sound_move (http_case329 r c)"
  "sound_move (http_case330 r c)"
  by (simp_all add: http_moves http_case321_def http_case322_def http_case323_def http_case324_def http_case325_def http_case326_def http_case327_def http_case328_def http_case329_def http_case330_def)

definition http_case331 :: "bool \<Rightarrow> int \<Rightarrow> move" where
  "http_case331 r c =
     (if c = 46 then goto_st 230
      else if c = 58 then goto_st 306
      else if c < 65 then (if 48 \<le> c \<and> c \<le> 57 then goto_st 332
          else goto_st 0)
      else if c > 70 then (if 97 \<le> c \<and> c \<le> 102 then goto_st 328
          else goto_st 0)
      else goto_st 328)"

definition http_case332 :: "bool \<Rightarrow> int \<Rightarrow> move" where
  "http_case332 r c =
     (if c = 46 then goto_st 230
      else if c = 58 then goto_st 306
      else if c < 65 then (if 48 \<le> c \<and> c \<le> 57 then goto_st 333
          else goto_st 0)
      else if c > 70 then (if 97 \<le> c \<and> c \<le> 102 then goto_st 329
          else goto_st 0)
      else goto_st 329)"

definition http_case333 :: "bool \<Rightarrow> int \<Rightarrow> move" where
  "http_case333 r c =
     (if c = 46 then goto_st 230
      else if c = 58 then goto_st 306
      else if c < 65 then (if 48 \<le> c \<and> c \<le> 57 then goto_st 330
          else goto_st 0)
      else if c > 70 then (if 97 \<le> c \<and> c \<le> 102 then goto_st 330
          else goto_st 0)
      else goto_st 330)"

definition http_case334 :: "bool \<Rightarrow> int \<Rightarrow> move" where
  "http_case334 r c =
     (if c = 46 then goto_st 230
      else if c = 48 then goto_st 335
      else if c = 53 then goto_st 336
      else if c = 58 then goto_st 306
      else if c < 65 then (if 49 \<le> c \<and> c \<le> 57 then goto_st 328
          else goto_st 0)
      else if c > 70 then (if 97 \<le> c \<and> c \<le> 102 then goto_st 328
          else goto_st 0)
      else goto_st 328)"

definition http_case335 :: "bool \<Rightarrow> int \<Rightarrow> move" where
  "http_case335 r c =
     (if c = 58 then goto_st 306
      else if c < 65 then (if 48 \<le> c \<and> c \<le> 57 then goto_st 333
          else goto_st 0)
      else if c > 70 then (if 97 \<le> c \<and> c \<le> 102 then goto_st 329
          else goto_st 0)
      else goto_st 329)"

definition http_case336 :: "bool \<Rightarrow> int \<Rightarrow> move" where
  "http_case336 r c =
     (if c = 48 then goto_st 333
      else if c = 58 then goto_st 306
      else if c < 65 then (if 49 \<le> c \<and> c \<le> 57 then goto_st 329
          else goto_st 0)
      else if c > 70 then (if 97 \<le> c \<and> c \<le> 102 then goto_st 329
          else goto_st 0)
      else goto_st 329)"

definition http_case337 :: "bool \<Rightarrow> int \<Rightarrow> move" where
  "http_case337 r c =
     (if c = 58 then goto_st 306
      else if c < 65 then (if 48 \<le> c \<and> c \<le> 57 then goto_st 328
          else goto_st 0)
      else if c > 70 then (if 97 \<le> c \<and> c \<le> 102 then goto_st 328
          else goto_st 0)
      else goto_st 328)"

definition http_case338 :: "bool \<Rightarrow> int \<Rightarrow> move" where
  "http_case338 r c =
     (if c < 48 then (if 2 \<le> c \<and> c \<le> 3 then goto_st 223
          else goto_st 0)
      else if c > 57 then (if c > 70 then (if 97 \<le> c \<and> c \<le> 102 then goto_st 224
              else goto_st 0)
          else if c \<ge> 65 then goto_st 224
          else goto_st 0)
      else goto_st 224)"

definition http_case339 :: "bool \<Rightarrow> int \<Rightarrow> move" where
  "http_case339 r c =
     (if 2 \<le> c \<and> c \<le> 3 then goto_st 223
      else goto_st 0)"

definition http_case340 :: "bool \<Rightarrow> int \<Rightarrow> move" where
  "http_case340 r c =
     (if c = 3 then goto_st 223
      else goto_st 0)"

lemma http_case331_340_sound:
  "sound_move (http_case331 r c)"
  "sound_move (http_case332 r c)"
  "sound_move (http_case333 r c)"
  "sound_move (http_case334 r c)"
  "sound_move (http_case335 r c)"
  "sound_move (http_case336 r c)"
  "sound_move (http_case337 r c)"
  "sound_move (http_case338 r c)"
  "sound_move (http_case339 r c)"
  "sound_move (http_case340 r c)"
  by (simp_all add: http_moves http_case331_def http_case332_def http_case333_def http_case334_def http_case335_def http_case336_def http_case337_def http_case338_def http_case339_def http_case340_def)

definition http_case341 :: "bool \<Rightarrow> int \<Rightarrow> move" where
  "http_case341 r c =
     (if c = 4 then goto_st 223
      else goto_st 0)"

definition http_case342 :: "bool \<Rightarrow> int \<Rightarrow> move" where
  "http_case342 r c =
     (if c = 58 then goto_st 343
      else goto_st 0)"

definition http_case343 :: "bool \<Rightarrow> int \<Rightarrow> move" where
  "http_case343 r c =
     (if c = 49 then goto_st 318
      else if c = 50 then goto_st 321
      else if c = 93 then goto_st 236
      else if c < 48 then (if 2 \<le> c \<and> c \<le> 5 then goto_st 223
          else goto_st 0)
      else if c > 57 then (if c > 70 then (if 97 \<le> c \<and> c \<le> 102 then goto_st 324
              else goto_st 0)
          else if c \<ge> 65 then goto_st 324
          else goto_st 0)
      else goto_st 302)"

definition http_case344 :: "bool \<Rightarrow> int \<Rightarrow> move" where
  "http_case344 r c =
     (if c < 65 then (if 48 \<le> c \<and> c \<le> 57 then goto_st 345
          else goto_st 0)
      else if c > 70 then (if 97 \<le> c \<and> c \<le> 102 then goto_st 345
          else goto_st 0)
      else goto_st 345)"

definition http_case345 :: "bool \<Rightarrow> int \<Rightarrow> move" where
  "http_case345 r c =
     (if c = 46 then goto_st 346
      else if c < 65 then (if 48 \<le> c \<and> c \<le> 57 then goto_st 345
          else goto_st 0)
      else if c > 70 then (if 97 \<le> c \<and> c \<le> 102 then goto_st 345
          else goto_st 0)
      else goto_st 345)"

definition http_case346 :: "bool \<Rightarrow> int \<Rightarrow> move" where
  "http_case346 r c =
     (let w = (if c < 123 then (if 94 \<le> c \<and> c \<le> 94 then widec r c
                 else c)
               else (if c > 123 then (if 125 \<le> c \<and> c \<le> 125 then widec r c
                 else c)
               else widec r c))
      in if w = 33 \<or> w = 36 \<or> w = 61 \<or> w = 95 \<or> w = 126 \<or> w = 606
            \<or> w = 635 \<or> w = 637 then goto_st 347
          else if w < 48 then (if 38 \<le> w \<and> w \<le> 46 then goto_st 347
              else goto_st 0)
          else if w > 59 then (if w > 90 then (if 97 \<le> w \<and> w \<le> 122 then goto_st 347
                  else goto_st 0)
              else if w \<ge> 65 then goto_st 347
              else goto_st 0)
          else goto_st 347)"

definition http_case347 :: "bool \<Rightarrow> int \<Rightarrow> move" where
  "http_case347 r c =
     (let w = (if c < 123 then (if 94 \<le> c \<and> c \<le> 94 then widec r c
                 else c)
               else (if c > 123 then (if 125 \<le> c \<and> c \<le> 125 then widec r c
                 else c)
               else widec r c))
      in if w = 33 \<or> w = 36 \<or> w = 61 then goto_st 347
          else if w = 93 then goto_st 236
          else if w = 95 \<or> w = 126 \<or> w = 606 \<or> w = 635 \<or> w = 637 then goto_st 347
          else if w < 48 then (if 38 \<le> w \<and> w \<le> 46 then goto_st 347
              else goto_st 0)
          else if w > 59 then (if w > 90 then (if 97 \<le> w \<and> w \<le> 122 then goto_st 347
                  else goto_st 0)
              else if w \<ge> 65 then goto_st 347
              else goto_st 0)
          else goto_st 347)"

definition http_case348 :: "bool \<Rightarrow> int \<Rightarrow> move" where
  "http_case348 r c =
     (if c = 33 then goto_st 14
      else if c = 58 then tr27
      else if c = 124 \<or> c = 126 then goto_st 14
      else if c < 42 then (if c < 10 then (if 1 \<le> c \<and> c \<le> 8 then goto_st 14
              else goto_st 0)
          else if c > 31 then (if 35 \<le> c \<and> c \<le> 39 then goto_st 14
              else goto_st 0)
          else goto_st 14)
      else if c > 43 then (if c < 48 then (if 45 \<le> c \<and> c \<le> 46 then goto_st 14
              else goto_st 0)
          else if c > 57 then (if c > 90 then (if 94 \<le> c \<and> c \<le> 122 then goto_st 14
                  else goto_st 0)
              else if c \<ge> 65 then goto_st 14
              else goto_st 0)
          else goto_st 14)
      else goto_st 14)"

definition http_case349 :: "bool \<Rightarrow> int \<Rightarrow> move" where
  "http_case349 r c =
     (goto_st 0)"

lemma http_case341_349_sound:
  "sound_move (http_case341 r c)"
  "sound_move (http_case342 r c)"
  "sound_move (http_case343 r c)"
  "sound_move (http_case344 r c)"
  "sound_move (http_case345 r c)"
  "sound_move (http_case346 r c)"
  "sound_move (http_case347 r c)"
  "sound_move (http_case348 r c)"
  "sound_move (http_case349 r c)"
  by (simp_all add: http_moves http_case341_def http_case342_def http_case343_def http_case344_def http_case345_def http_case346_def http_case347_def http_case348_def http_case349_def)

end
