(* ===== verification/HttpMachine.thy ===== *)
theory HttpMachine
  imports HttpStates1 HttpStates2 HttpStates3 HttpStates4 HttpStates5
begin

text \<open>
  \<open>http_parser_init\<close>, \<open>http_parser_execute\<close>, \<open>http_parser_finish\<close>, \<open>http_parser_has_error\<close>
  and \<open>http_parser_is_finished\<close> of \<open>http/http11_parser.cpp\<close>, over the states of the theories
  \<open>HttpStates\<close>. The machine is an instance of the locale \<open>ragel_machine\<close>. The lemmas follow
  the grammar of a request through the states, segment by segment.
\<close>

section \<open>The switch over the states\<close>

definition http_cases1 :: "nat \<Rightarrow> bool \<Rightarrow> int \<Rightarrow> move" where
  "http_cases1 n r c =
     (if n = 1 then http_case1 r c
      else if n = 2 then http_case2 r c
      else if n = 3 then http_case3 r c
      else if n = 4 then http_case4 r c
      else if n = 5 then http_case5 r c
      else if n = 6 then http_case6 r c
      else if n = 7 then http_case7 r c
      else if n = 8 then http_case8 r c
      else if n = 9 then http_case9 r c
      else if n = 10 then http_case10 r c
      else if n = 11 then http_case11 r c
      else if n = 12 then http_case12 r c
      else if n = 13 then http_case13 r c
      else if n = 14 then http_case14 r c
      else if n = 15 then http_case15 r c
      else if n = 16 then http_case16 r c
      else if n = 17 then http_case17 r c
      else if n = 18 then http_case18 r c
      else if n = 19 then http_case19 r c
      else if n = 20 then http_case20 r c
      else if n = 21 then http_case21 r c
      else if n = 22 then http_case22 r c
      else if n = 23 then http_case23 r c
      else if n = 24 then http_case24 r c
      else if n = 25 then http_case25 r c
      else if n = 26 then http_case26 r c
      else if n = 27 then http_case27 r c
      else if n = 28 then http_case28 r c
      else if n = 29 then http_case29 r c
      else if n = 30 then http_case30 r c
      else if n = 31 then http_case31 r c
      else if n = 32 then http_case32 r c
      else if n = 33 then http_case33 r c
      else if n = 34 then http_case34 r c
      else if n = 35 then http_case35 r c
      else goto_st 0)"

definition http_cases2 :: "nat \<Rightarrow> bool \<Rightarrow> int \<Rightarrow> move" where
  "http_cases2 n r c =
     (if n = 36 then http_case36 r c
      else if n = 37 then http_case37 r c
      else if n = 38 then http_case38 r c
      else if n = 39 then http_case39 r c
      else if n = 40 then http_case40 r c
      else if n = 41 then http_case41 r c
      else if n = 42 then http_case42 r c
      else if n = 43 then http_case43 r c
      else if n = 44 then http_case44 r c
      else if n = 45 then http_case45 r c
      else if n = 46 then http_case46 r c
      else if n = 47 then http_case47 r c
      else if n = 48 then http_case48 r c
      else if n = 49 then http_case49 r c
      else if n = 50 then http_case50 r c
      else if n = 51 then http_case51 r c
      else if n = 52 then http_case52 r c
      else if n = 53 then http_case53 r c
      else if n = 54 then http_case54 r c
      else if n = 55 then http_case55 r c
      else if n = 56 then http_case56 r c
      else if n = 57 then http_case57 r c
      else if n = 58 then http_case58 r c
      else if n = 59 then http_case59 r c
      else if n = 60 then http_case60 r c
      else if n = 61 then http_case61 r c
      else if n = 62 then http_case62 r c
      else if n = 63 then http_case63 r c
      else if n = 64 then http_case64 r c
      else if n = 65 then http_case65 r c
      else if n = 66 then http_case66 r c
      else if n = 67 then http_case67 r c
      else if n = 68 then http_case68 r c
      else if n = 69 then http_case69 r c
      else if n = 70 then http_case70 r c
      else goto_st 0)"

definition http_cases3 :: "nat \<Rightarrow> bool \<Rightarrow> int \<Rightarrow> move" where
  "http_cases3 n r c =
     (if n = 71 then http_case71 r c
      else if n = 72 then http_case72 r c
      else if n = 73 then http_case73 r c
      else if n = 74 then http_case74 r c
      else if n = 75 then http_case75 r c
      else if n = 76 then http_case76 r c
      else if n = 77 then http_case77 r c
      else if n = 78 then http_case78 r c
      else if n = 79 then http_case79 r c
      else if n = 80 then http_case80 r c
      else if n = 81 then http_case81 r c
      else if n = 82 then http_case82 r c
      else if n = 83 then http_case83 r c
      else if n = 84 then http_case84 r c
      else if n = 85 then http_case85 r c
      else if n = 86 then http_case86 r c
      else if n = 87 then http_case87 r c
      else if n = 88 then http_case88 r c
      else if n = 89 then http_case89 r c
      else if n = 90 then http_case90 r c
      else if n = 91 then http_case91 r c
      else if n = 92 then http_case92 r c
      else if n = 93 then http_case93 r c
      else if n = 94 then http_case94 r c
      else if n = 95 then http_case95 r c
      else if n = 96 then http_case96 r c
      else if n = 97 then http_case97 r c
      else if n = 98 then http_case98 r c
      else if n = 99 then http_case99 r c
      else if n = 100 then http_case100 r c
      else if n = 101 then http_case101 r c
      else if n = 102 then http_case102 r c
      else if n = 103 then http_case103 r c
      else if n = 104 then http_case104 r c
      else if n = 105 then http_case105 r c
      else goto_st 0)"

definition http_cases4 :: "nat \<Rightarrow> bool \<Rightarrow> int \<Rightarrow> move" where
  "http_cases4 n r c =
     (if n = 106 then http_case106 r c
      else if n = 107 then http_case107 r c
      else if n = 108 then http_case108 r c
      else if n = 109 then http_case109 r c
      else if n = 110 then http_case110 r c
      else if n = 111 then http_case111 r c
      else if n = 112 then http_case112 r c
      else if n = 113 then http_case113 r c
      else if n = 114 then http_case114 r c
      else if n = 115 then http_case115 r c
      else if n = 116 then http_case116 r c
      else if n = 117 then http_case117 r c
      else if n = 118 then http_case118 r c
      else if n = 119 then http_case119 r c
      else if n = 120 then http_case120 r c
      else if n = 121 then http_case121 r c
      else if n = 122 then http_case122 r c
      else if n = 123 then http_case123 r c
      else if n = 124 then http_case124 r c
      else if n = 125 then http_case125 r c
      else if n = 126 then http_case126 r c
      else if n = 127 then http_case127 r c
      else if n = 128 then http_case128 r c
      else if n = 129 then http_case129 r c
      else if n = 130 then http_case130 r c
      else if n = 131 then http_case131 r c
      else if n = 132 then http_case132 r c
      else if n = 133 then http_case133 r c
      else if n = 134 then http_case134 r c
      else if n = 135 then http_case135 r c
      else if n = 136 then http_case136 r c
      else if n = 137 then http_case137 r c
      else if n = 138 then http_case138 r c
      else if n = 139 then http_case139 r c
      else if n = 140 then http_case140 r c
      else goto_st 0)"

definition http_cases5 :: "nat \<Rightarrow> bool \<Rightarrow> int \<Rightarrow> move" where
  "http_cases5 n r c =
     (if n = 141 then http_case141 r c
      else if n = 142 then http_case142 r c
      else if n = 143 then http_case143 r c
      else if n = 144 then http_case144 r c
      else if n = 145 then http_case145 r c
      else if n = 146 then http_case146 r c
      else if n = 147 then http_case147 r c
      else if n = 148 then http_case148 r c
      else if n = 149 then http_case149 r c
      else if n = 150 then http_case150 r c
      else if n = 151 then http_case151 r c
      else if n = 152 then http_case152 r c
      else if n = 153 then http_case153 r c
      else if n = 154 then http_case154 r c
      else if n = 155 then http_case155 r c
      else if n = 156 then http_case156 r c
      else if n = 157 then http_case157 r c
      else if n = 158 then http_case158 r c
      else if n = 159 then http_case159 r c
      else if n = 160 then http_case160 r c
      else if n = 161 then http_case161 r c
      else if n = 162 then http_case162 r c
      else if n = 163 then http_case163 r c
      else if n = 164 then http_case164 r c
      else if n = 165 then http_case165 r c
      else if n = 166 then http_case166 r c
      else if n = 167 then http_case167 r c
      else if n = 168 then http_case168 r c
      else if n = 169 then http_case169 r c
      else if n = 170 then http_case170 r c
      else if n = 171 then http_case171 r c
      else if n = 172 then http_case172 r c
      else if n = 173 then http_case173 r c
      else if n = 174 then http_case174 r c
      else if n = 175 then http_case175 r c
      else goto_st 0)"

definition http_cases6 :: "nat \<Rightarrow> bool \<Rightarrow> int \<Rightarrow> move" where
  "http_cases6 n r c =
     (if n = 176 then http_case176 r c
      else if n = 177 then http_case177 r c
      else if n = 178 then http_case178 r c
      else if n = 179 then http_case179 r c
      else if n = 180 then http_case180 r c
      else if n = 181 then http_case181 r c
      else if n = 182 then http_case182 r c
      else if n = 183 then http_case183 r c
      else if n = 184 then http_case184 r c
      else if n = 185 then http_case185 r c
      else if n = 186 then http_case186 r c
      else if n = 187 then http_case187 r c
      else if n = 188 then http_case188 r c
      else if n = 189 then http_case189 r c
      else if n = 190 then http_case190 r c
      else if n = 191 then http_case191 r c
      else if n = 192 then http_case192 r c
      else if n = 193 then http_case193 r c
      else if n = 194 then http_case194 r c
      else if n = 195 then http_case195 r c
      else if n = 196 then http_case196 r c
      else if n = 197 then http_case197 r c
      else if n = 198 then http_case198 r c
      else if n = 199 then http_case199 r c
      else if n = 200 then http_case200 r c
      else if n = 201 then http_case201 r c
      else if n = 202 then http_case202 r c
      else if n = 203 then http_case203 r c
      else if n = 204 then http_case204 r c
      else if n = 205 then http_case205 r c
      else if n = 206 then http_case206 r c
      else if n = 207 then http_case207 r c
      else if n = 208 then http_case208 r c
      else if n = 209 then http_case209 r c
      else if n = 210 then http_case210 r c
      else goto_st 0)"

definition http_cases7 :: "nat \<Rightarrow> bool \<Rightarrow> int \<Rightarrow> move" where
  "http_cases7 n r c =
     (if n = 211 then http_case211 r c
      else if n = 212 then http_case212 r c
      else if n = 213 then http_case213 r c
      else if n = 214 then http_case214 r c
      else if n = 215 then http_case215 r c
      else if n = 216 then http_case216 r c
      else if n = 217 then http_case217 r c
      else if n = 218 then http_case218 r c
      else if n = 219 then http_case219 r c
      else if n = 220 then http_case220 r c
      else if n = 221 then http_case221 r c
      else if n = 222 then http_case222 r c
      else if n = 223 then http_case223 r c
      else if n = 224 then http_case224 r c
      else if n = 225 then http_case225 r c
      else if n = 226 then http_case226 r c
      else if n = 227 then http_case227 r c
      else if n = 228 then http_case228 r c
      else if n = 229 then http_case229 r c
      else if n = 230 then http_case230 r c
      else if n = 231 then http_case231 r c
      else if n = 232 then http_case232 r c
      else if n = 233 then http_case233 r c
      else if n = 234 then http_case234 r c
      else if n = 235 then http_case235 r c
      else if n = 236 then http_case236 r c
      else if n = 237 then http_case237 r c
      else if n = 238 then http_case238 r c
      else if n = 239 then http_case239 r c
      else if n = 240 then http_case240 r c
      else if n = 241 then http_case241 r c
      else if n = 242 then http_case242 r c
      else if n = 243 then http_case243 r c
      else if n = 244 then http_case244 r c
      else if n = 245 then http_case245 r c
      else goto_st 0)"

definition http_cases8 :: "nat \<Rightarrow> bool \<Rightarrow> int \<Rightarrow> move" where
  "http_cases8 n r c =
     (if n = 246 then http_case246 r c
      else if n = 247 then http_case247 r c
      else if n = 248 then http_case248 r c
      else if n = 249 then http_case249 r c
      else if n = 250 then http_case250 r c
      else if n = 251 then http_case251 r c
      else if n = 252 then http_case252 r c
      else if n = 253 then http_case253 r c
      else if n = 254 then http_case254 r c
      else if n = 255 then http_case255 r c
      else if n = 256 then http_case256 r c
      else if n = 257 then http_case257 r c
      else if n = 258 then http_case258 r c
      else if n = 259 then http_case259 r c
      else if n = 260 then http_case260 r c
      else if n = 261 then http_case261 r c
      else if n = 262 then http_case262 r c
      else if n = 263 then http_case263 r c
      else if n = 264 then http_case264 r c
      else if n = 265 then http_case265 r c
      else if n = 266 then http_case266 r c
      else if n = 267 then http_case267 r c
      else if n = 268 then http_case268 r c
      else if n = 269 then http_case269 r c
      else if n = 270 then http_case270 r c
      else if n = 271 then http_case271 r c
      else if n = 272 then http_case272 r c
      else if n = 273 then http_case273 r c
      else if n = 274 then http_case274 r c
      else if n = 275 then http_case275 r c
      else if n = 276 then http_case276 r c
      else if n = 277 then http_case277 r c
      else if n = 278 then http_case278 r c
      else if n = 279 then http_case279 r c
      else if n = 280 then http_case280 r c
      else goto_st 0)"

definition http_cases9 :: "nat \<Rightarrow> bool \<Rightarrow> int \<Rightarrow> move" where
  "http_cases9 n r c =
     (if n = 281 then http_case281 r c
      else if n = 282 then http_case282 r c
      else if n = 283 then http_case283 r c
      else if n = 284 then http_case284 r c
      else if n = 285 then http_case285 r c
      else if n = 286 then http_case286 r c
      else if n = 287 then http_case287 r c
      else if n = 288 then http_case288 r c
      else if n = 289 then http_case289 r c
      else if n = 290 then http_case290 r c
      else if n = 291 then http_case291 r c
      else if n = 292 then http_case292 r c
      else if n = 293 then http_case293 r c
      else if n = 294 then http_case294 r c
      else if n = 295 then http_case295 r c
      else if n = 296 then http_case296 r c
      else if n = 297 then http_case297 r c
      else if n = 298 then http_case298 r c
      else if n = 299 then http_case299 r c
      else if n = 300 then http_case300 r c
      else if n = 301 then http_case301 r c
      else if n = 302 then http_case302 r c
      else if n = 303 then http_case303 r c
      else if n = 304 then http_case304 r c
      else if n = 305 then http_case305 r c
      else if n = 306 then http_case306 r c
      else if n = 307 then http_case307 r c
      else if n = 308 then http_case308 r c
      else if n = 309 then http_case309 r c
      else if n = 310 then http_case310 r c
      else if n = 311 then http_case311 r c
      else if n = 312 then http_case312 r c
      else if n = 313 then http_case313 r c
      else if n = 314 then http_case314 r c
      else if n = 315 then http_case315 r c
      else goto_st 0)"

definition http_cases10 :: "nat \<Rightarrow> bool \<Rightarrow> int \<Rightarrow> move" where
  "http_cases10 n r c =
     (if n = 316 then http_case316 r c
      else if n = 317 then http_case317 r c
      else if n = 318 then http_case318 r c
      else if n = 319 then http_case319 r c
      else if n = 320 then http_case320 r c
      else if n = 321 then http_case321 r c
      else if n = 322 then http_case322 r c
      else if n = 323 then http_case323 r c
      else if n = 324 then http_case324 r c
      else if n = 325 then http_case325 r c
      else if n = 326 then http_case326 r c
      else if n = 327 then http_case327 r c
      else if n = 328 then http_case328 r c
      else if n = 329 then http_case329 r c
      else if n = 330 then http_case330 r c
      else if n = 331 then http_case331 r c
      else if n = 332 then http_case332 r c
      else if n = 333 then http_case333 r c
      else if n = 334 then http_case334 r c
      else if n = 335 then http_case335 r c
      else if n = 336 then http_case336 r c
      else if n = 337 then http_case337 r c
      else if n = 338 then http_case338 r c
      else if n = 339 then http_case339 r c
      else if n = 340 then http_case340 r c
      else if n = 341 then http_case341 r c
      else if n = 342 then http_case342 r c
      else if n = 343 then http_case343 r c
      else if n = 344 then http_case344 r c
      else if n = 345 then http_case345 r c
      else if n = 346 then http_case346 r c
      else if n = 347 then http_case347 r c
      else if n = 348 then http_case348 r c
      else if n = 349 then http_case349 r c
      else goto_st 0)"

definition http_case :: "nat \<Rightarrow> bool \<Rightarrow> int \<Rightarrow> move" where
  "http_case n r c =
     (if n \<le> 35 then http_cases1 n r c
      else if n \<le> 70 then http_cases2 n r c
      else if n \<le> 105 then http_cases3 n r c
      else if n \<le> 140 then http_cases4 n r c
      else if n \<le> 175 then http_cases5 n r c
      else if n \<le> 210 then http_cases6 n r c
      else if n \<le> 245 then http_cases7 n r c
      else if n \<le> 280 then http_cases8 n r c
      else if n \<le> 315 then http_cases9 n r c
      else http_cases10 n r c)"

lemma http_case_eqs:
  "http_case 1 r c = http_case1 r c"
  "http_case 2 r c = http_case2 r c"
  "http_case 3 r c = http_case3 r c"
  "http_case 4 r c = http_case4 r c"
  "http_case 5 r c = http_case5 r c"
  "http_case 6 r c = http_case6 r c"
  "http_case 7 r c = http_case7 r c"
  "http_case 8 r c = http_case8 r c"
  "http_case 9 r c = http_case9 r c"
  "http_case 10 r c = http_case10 r c"
  "http_case 11 r c = http_case11 r c"
  "http_case 12 r c = http_case12 r c"
  "http_case 13 r c = http_case13 r c"
  "http_case 14 r c = http_case14 r c"
  "http_case 15 r c = http_case15 r c"
  "http_case 16 r c = http_case16 r c"
  "http_case 17 r c = http_case17 r c"
  "http_case 18 r c = http_case18 r c"
  "http_case 26 r c = http_case26 r c"
  "http_case 29 r c = http_case29 r c"
  "http_case 30 r c = http_case30 r c"
  "http_case 33 r c = http_case33 r c"
  "http_case 175 r c = http_case175 r c"
  "http_case 176 r c = http_case176 r c"
  "http_case 177 r c = http_case177 r c"
  "http_case 178 r c = http_case178 r c"
  "http_case 179 r c = http_case179 r c"
  "http_case 180 r c = http_case180 r c"
  "http_case 181 r c = http_case181 r c"
  "http_case 182 r c = http_case182 r c"
  "http_case 183 r c = http_case183 r c"
  "http_case 184 r c = http_case184 r c"
  "http_case 185 r c = http_case185 r c"
  "http_case 186 r c = http_case186 r c"
  "http_case 187 r c = http_case187 r c"
  "http_case 188 r c = http_case188 r c"
  "http_case 189 r c = http_case189 r c"
  "http_case 190 r c = http_case190 r c"
  "http_case 191 r c = http_case191 r c"
  "http_case 192 r c = http_case192 r c"
  "http_case 193 r c = http_case193 r c"
  by (simp_all add: http_case_def http_cases1_def http_cases2_def http_cases3_def http_cases4_def http_cases5_def http_cases6_def http_cases7_def http_cases8_def http_cases9_def http_cases10_def)

lemmas http_cases_defs = http_cases1_def http_cases2_def http_cases3_def http_cases4_def http_cases5_def http_cases6_def http_cases7_def http_cases8_def http_cases9_def http_cases10_def

lemmas http_cases_sound = http_case1_10_sound http_case11_20_sound http_case21_30_sound
  http_case31_40_sound http_case41_50_sound http_case51_60_sound http_case61_70_sound
  http_case71_80_sound http_case81_90_sound http_case91_100_sound http_case101_110_sound
  http_case111_120_sound http_case121_130_sound http_case131_140_sound http_case141_150_sound
  http_case151_160_sound http_case161_170_sound http_case171_180_sound http_case181_190_sound
  http_case191_200_sound http_case201_210_sound http_case211_220_sound http_case221_230_sound
  http_case231_240_sound http_case241_250_sound http_case251_260_sound http_case261_270_sound
  http_case271_280_sound http_case281_290_sound http_case291_300_sound http_case301_310_sound
  http_case311_320_sound http_case321_330_sound http_case331_340_sound http_case341_349_sound

lemma http_cases1_sound: "sound_move (http_cases1 n r c)"
  by (simp add: http_cases1_def sound_if http_cases_sound sound_goto)

lemma http_cases2_sound: "sound_move (http_cases2 n r c)"
  by (simp add: http_cases2_def sound_if http_cases_sound sound_goto)

lemma http_cases3_sound: "sound_move (http_cases3 n r c)"
  by (simp add: http_cases3_def sound_if http_cases_sound sound_goto)

lemma http_cases4_sound: "sound_move (http_cases4 n r c)"
  by (simp add: http_cases4_def sound_if http_cases_sound sound_goto)

lemma http_cases5_sound: "sound_move (http_cases5 n r c)"
  by (simp add: http_cases5_def sound_if http_cases_sound sound_goto)

lemma http_cases6_sound: "sound_move (http_cases6 n r c)"
  by (simp add: http_cases6_def sound_if http_cases_sound sound_goto)

lemma http_cases7_sound: "sound_move (http_cases7 n r c)"
  by (simp add: http_cases7_def sound_if http_cases_sound sound_goto)

lemma http_cases8_sound: "sound_move (http_cases8 n r c)"
  by (simp add: http_cases8_def sound_if http_cases_sound sound_goto)

lemma http_cases9_sound: "sound_move (http_cases9 n r c)"
  by (simp add: http_cases9_def sound_if http_cases_sound sound_goto)

lemma http_cases10_sound: "sound_move (http_cases10 n r c)"
  by (simp add: http_cases10_def sound_if http_cases_sound sound_goto)

lemma http_case_sound: "sound_move (http_case n r c)"
  by (simp add: http_case_def sound_if http_cases1_sound http_cases2_sound http_cases3_sound http_cases4_sound http_cases5_sound http_cases6_sound http_cases7_sound http_cases8_sound http_cases9_sound http_cases10_sound)

section \<open>The functions of the parser\<close>

definition http_parser_start :: nat where "http_parser_start = 1"
definition http_parser_error :: nat where "http_parser_error = 0"

definition http_valid :: "nat \<Rightarrow> bool" where
  "http_valid n \<longleftrightarrow> 1 \<le> n \<and> n \<le> 349"

definition http_step :: "bool \<Rightarrow> nat \<Rightarrow> char \<Rightarrow> move" where
  "http_step r n ch = http_case n r (schar ch)"

definition http_parser_init :: "http_parser \<Rightarrow> http_parser" where
  "http_parser_init m = m\<lparr>pcs := http_parser_start, body_start := 0, content_len := 0, mark := 0,
     nread := 0, field_len := 0, field_start := 0, xml_sent := False, json_sent := False\<rparr>"

definition http_parser_has_error :: "http_parser \<Rightarrow> bool" where
  "http_parser_has_error m \<longleftrightarrow> pcs m = http_parser_error"

definition http_parser_is_finished :: "http_parser \<Rightarrow> bool" where
  "http_parser_is_finished m \<longleftrightarrow> http_first_final \<le> pcs m"

definition http_parser_finish :: "http_parser \<Rightarrow> int" where
  "http_parser_finish m =
     (if http_parser_has_error m then -1 else if http_parser_is_finished m then 1 else 0)"

abbreviation http_loop :: "bool \<Rightarrow> nat \<Rightarrow> nat \<Rightarrow> bytes \<Rightarrow> nat \<Rightarrow> http_parser \<Rightarrow> nat \<times> nat \<times> http_parser" where
  "http_loop r pe \<equiv> ragel_run http_valid (http_step r) breaks (http_act pe)"

text \<open>The conversion of a \<open>size_t\<close> to \<open>int\<close>.\<close>

definition int32 :: "nat \<Rightarrow> int" where
  "int32 n = sint (word_of_nat n :: 32 word)"

text \<open>
  What follows the state machine: \<open>p\<close> is where it stopped and \<open>n\<close> the state it stopped in.
\<close>

definition http_parser_exit :: "nat \<Rightarrow> nat \<Rightarrow> nat \<times> nat \<times> http_parser \<Rightarrow> fault + (nat \<times> http_parser)" where
  "http_parser_exit len off = (\<lambda>(p, n, m1).
     if \<not> p \<le> len then Inl Assert_failed
     else
       (let m2 = (if \<not> http_parser_has_error m1 then m1\<lparr>pcs := n\<rparr> else m1);
            m3 = m2\<lparr>nread := nread m2 + (p - off)\<rparr>
        in if \<not> nread m3 \<le> len then Inl Assert_failed
           else if \<not> body_start m3 \<le> len then Inl Assert_failed
           else if \<not> mark m3 < len then Inl Assert_failed
           else if \<not> field_len m3 \<le> len then Inl Assert_failed
           else if \<not> field_start m3 < len then Inl Assert_failed
           else Inr (nread m3, m3)))"

definition http_parser_execute :: "http_parser \<Rightarrow> bytes \<Rightarrow> nat \<Rightarrow> fault + (nat \<times> http_parser)" where
  "http_parser_execute m buffer off =
     (let len = length buffer in
      if len = 0 then Inr (0, m)
      else
        (let m0 = m\<lparr>nread := 0, mark := 0, field_len := 0, field_start := 0\<rparr> in
         if \<not> off \<le> len then Inl Assert_failed
         else if int len - int off \<noteq> int32 len - int32 off then Inl Assert_failed
         else http_parser_exit len off
                (http_loop (uri_relaxed m) len off (drop off buffer) (pcs m0) m0)))"

section \<open>The laws of the machine\<close>

interpretation http: ragel_machine http_valid "http_step r" breaks http_first_final for r
proof
  show "\<not> http_valid 0" by (simp add: http_valid_def)
  show "0 < http_first_final" by (simp add: http_first_final_def)
  fix n ch acts t
  assume "http_step r n ch = (acts, t)"
  then have s: "sound_move (acts, t)" using http_case_sound [of n r "schar ch"] by (simp add: http_step_def)
  then show "t = 0 \<or> http_valid t" by (auto simp: sound_move_def http_valid_def)
  show "performs breaks acts \<longleftrightarrow> http_first_final \<le> t" using s by (simp add: sound_move_def)
qed

section \<open>Character classes of a request\<close>

definition method_char :: "char \<Rightarrow> bool" where
  "method_char ch \<longleftrightarrow> (let c = schar ch in 48 \<le> c \<and> c \<le> 57 \<or> 65 \<le> c \<and> c \<le> 90)"

text \<open>Characters of a path, without the percent sign; the negative ones are those above 127.\<close>

definition path_char :: "char \<Rightarrow> bool" where
  "path_char ch \<longleftrightarrow> (let c = schar ch in c < 0 \<or> c = 33 \<or> c = 36 \<or> 38 \<le> c \<and> c \<le> 59 \<or> c = 61
     \<or> 64 \<le> c \<and> c \<le> 90 \<or> c = 95 \<or> 97 \<le> c \<and> c \<le> 122 \<or> c = 126)"

definition query_char :: "char \<Rightarrow> bool" where
  "query_char ch \<longleftrightarrow> path_char ch \<or> schar ch = 63"

text \<open>
  What the states accept in a field name: every ASCII character except NUL, DEL and the
  separators, the control characters included.
\<close>

definition name_char :: "char \<Rightarrow> bool" where
  "name_char ch \<longleftrightarrow> (let c = schar ch in 1 \<le> c \<and> c \<le> 8 \<or> 10 \<le> c \<and> c \<le> 31 \<or> c = 33
     \<or> 35 \<le> c \<and> c \<le> 39 \<or> c = 42 \<or> c = 43 \<or> c = 45 \<or> c = 46 \<or> 48 \<le> c \<and> c \<le> 57
     \<or> 65 \<le> c \<and> c \<le> 90 \<or> 94 \<le> c \<and> c \<le> 122 \<or> c = 124 \<or> c = 126)"

definition value_char :: "char \<Rightarrow> bool" where
  "value_char ch \<longleftrightarrow> schar ch \<notin> {0, 10, 13, 127}"

lemmas char_classes = method_char_def path_char_def query_char_def name_char_def value_char_def Let_def

section \<open>Moves of the states on a request\<close>

text \<open>The state after \<open>i + 1\<close> characters of the method.\<close>

definition method_state :: "nat \<Rightarrow> nat" where
  "method_state i = (if i = 0 then 2 else 174 + i)"

lemma below_20: "(i :: nat) < 20 \<Longrightarrow> i \<in> {0, 1, 2, 3, 4, 5, 6, 7, 8, 9, 10, 11, 12, 13, 14, 15, 16, 17, 18, 19}"
  by (simp only: insert_iff empty_iff, presburger)

lemmas method_case_defs = http_case2_def http_case175_def http_case176_def http_case177_def http_case178_def
    http_case179_def http_case180_def http_case181_def http_case182_def http_case183_def
    http_case184_def http_case185_def http_case186_def http_case187_def http_case188_def
    http_case189_def http_case190_def http_case191_def http_case192_def http_case193_def

lemma step_method:
  "method_char ch \<Longrightarrow> http_step r 1 ch = ([Mark], 2)"
  "i < 19 \<Longrightarrow> method_char ch \<Longrightarrow> http_step r (method_state i) ch = ([], method_state (Suc i))"
  "i < 20 \<Longrightarrow> http_step r (method_state i) (CHR 0x20) = ([RequestMethod], 3)"
proof -
  show "method_char ch \<Longrightarrow> http_step r 1 ch = ([Mark], 2)"
    by (auto simp: http_step_def http_case_eqs http_case1_def tr_defs goto_st_def char_classes
        simp del: One_nat_def)
  have "http_case (method_state i) r c = ([], method_state (Suc i))"
    if i: "i < 19" and "48 \<le> c \<and> c \<le> 57 \<or> 65 \<le> c \<and> c \<le> 90" for c
  proof -
    have "i < 20" using i by simp
    from below_20 [OF this] that show ?thesis
      by (elim insertE emptyE) (auto simp: method_state_def http_case_eqs method_case_defs goto_st_def)
  qed
  then show "i < 19 \<Longrightarrow> method_char ch \<Longrightarrow> http_step r (method_state i) ch = ([], method_state (Suc i))"
    by (simp add: http_step_def method_char_def Let_def)
  have "http_case (method_state i) r 32 = ([RequestMethod], 3)" if "i < 20"
    using below_20 [OF that]
    by (elim insertE emptyE) (simp_all add: method_state_def http_case_eqs method_case_defs tr_defs)
  then show "i < 20 \<Longrightarrow> http_step r (method_state i) (CHR 0x20) = ([RequestMethod], 3)"
    by (simp add: http_step_def schar_def)
qed

lemmas target_case_defs = http_case3_def http_case33_def http_case26_def http_case29_def http_case30_def

lemma case_path:
  fixes c :: int
  assumes "c < 0 \<or> c = 33 \<or> c = 36 \<or> 38 \<le> c \<and> c \<le> 59 \<or> c = 61
     \<or> 64 \<le> c \<and> c \<le> 90 \<or> c = 95 \<or> 97 \<le> c \<and> c \<le> 122 \<or> c = 126" and "- 128 \<le> c"
  shows "http_case26 r c = ([], 26)" and "http_case30 r c = ([], 30)"
    and "http_case29 r c = ([StartQuery], 30)"
    and "c \<noteq> 47 \<Longrightarrow> http_case33 r c = ([], 26)"
  using assms
  by (elim disjE conjE; simp add: target_case_defs goto_st_def tr_defs Let_def split del: if_split)+

lemma slash_unique: "schar ch = 47 \<Longrightarrow> ch = CHR ''/''"
  using schar_inject [of ch "CHR ''/''"] by (simp add: schar_def [of "CHR ''/''"])

lemma step_path:
  "http_step r 3 (CHR ''/'') = ([Mark], 33)"
  "path_char ch \<Longrightarrow> ch \<noteq> CHR ''/'' \<Longrightarrow> http_step r 33 ch = ([], 26)"
  "path_char ch \<Longrightarrow> http_step r 26 ch = ([], 26)"
  "n = 33 \<or> n = 26 \<Longrightarrow> http_step r n (CHR '' '') = ([RequestPath, RequestUri], 4)"
  "n = 33 \<or> n = 26 \<Longrightarrow> http_step r n (CHR ''?'') = ([RequestPath], 29)"
proof -
  show "path_char ch \<Longrightarrow> ch \<noteq> CHR ''/'' \<Longrightarrow> http_step r 33 ch = ([], 26)"
    "path_char ch \<Longrightarrow> http_step r 26 ch = ([], 26)"
    using slash_unique [of ch] case_path [of "schar ch" r] schar_lower [of ch]
    unfolding path_char_def Let_def http_step_def http_case_eqs by blast+
qed (auto simp: http_step_def http_case_eqs target_case_defs tr_defs schar_def)

lemma step_query:
  "query_char ch \<Longrightarrow> http_step r 29 ch = ([StartQuery], 30)"
  "query_char ch \<Longrightarrow> http_step r 30 ch = ([], 30)"
  "http_step r 29 (CHR '' '') = ([StartQuery, QueryString, RequestUri], 4)"
  "http_step r 30 (CHR '' '') = ([QueryString, RequestUri], 4)"
proof -
  have "http_case29 r 63 = ([StartQuery], 30)" "http_case30 r 63 = ([], 30)"
    by (simp_all add: target_case_defs tr_defs goto_st_def)
  then show "query_char ch \<Longrightarrow> http_step r 29 ch = ([StartQuery], 30)"
    "query_char ch \<Longrightarrow> http_step r 30 ch = ([], 30)"
    using case_path [of "schar ch" r] schar_lower [of ch]
    unfolding query_char_def path_char_def Let_def http_step_def http_case_eqs by metis+
qed (simp_all add: http_step_def http_case_eqs target_case_defs tr_defs schar_def)

lemmas version_case_defs = http_case4_def http_case5_def http_case6_def http_case7_def http_case8_def
  http_case9_def http_case10_def http_case11_def http_case12_def http_case17_def

lemma step_version:
  "http_step r 4 (CHR ''H'') = ([Mark], 5)" "http_step r 5 (CHR ''T'') = ([], 6)"
  "http_step r 6 (CHR ''T'') = ([], 7)" "http_step r 7 (CHR ''P'') = ([], 8)"
  "http_step r 8 (CHR ''/'') = ([], 9)" "http_step r 9 (CHR ''1'') = ([], 10)"
  "http_step r 10 (CHR ''.'') = ([], 11)" "http_step r 11 (CHR ''0'') = ([], 12)"
  "http_step r 11 (CHR ''1'') = ([], 12)" "http_step r 12 (CHR 0x0D) = ([HttpVersion], 17)"
  "http_step r 17 (CHR 0x0A) = ([], 13)"
  by (simp_all add: http_step_def http_case_eqs version_case_defs tr_defs goto_st_def schar_def)

lemmas field_case_defs = http_case13_def http_case14_def http_case15_def http_case16_def http_case18_def

lemma case_name:
  fixes c :: int
  assumes "1 \<le> c \<and> c \<le> 8 \<or> 10 \<le> c \<and> c \<le> 31 \<or> c = 33
     \<or> 35 \<le> c \<and> c \<le> 39 \<or> c = 42 \<or> c = 43 \<or> c = 45 \<or> c = 46 \<or> 48 \<le> c \<and> c \<le> 57
     \<or> 65 \<le> c \<and> c \<le> 90 \<or> 94 \<le> c \<and> c \<le> 122 \<or> c = 124 \<or> c = 126"
  shows "http_case14 r c = ([], 14)" and "c \<noteq> 10 \<Longrightarrow> c \<noteq> 13 \<Longrightarrow> http_case13 r c = ([StartField], 14)"
  using assms
  by (elim disjE conjE; simp add: field_case_defs goto_st_def tr_defs split del: if_split)+

lemma case_value:
  fixes c :: int
  assumes "c \<noteq> 0" "c \<noteq> 10" "c \<noteq> 13" "c \<noteq> 127" "-128 \<le> c" "c < 128"
  shows "http_case16 r c = ([], 16)" and "c \<noteq> 9 \<Longrightarrow> c \<noteq> 32 \<Longrightarrow> http_case15 r c = ([StartValue], 16)"
  using assms by (simp_all add: field_case_defs goto_st_def tr_defs)

lemma step_field:
  "name_char ch \<Longrightarrow> schar ch \<noteq> 10 \<Longrightarrow> schar ch \<noteq> 13 \<Longrightarrow> http_step r 13 ch = ([StartField], 14)"
  "name_char ch \<Longrightarrow> http_step r 14 ch = ([], 14)"
  "http_step r 14 (CHR '':'') = ([WriteField], 15)"
  "http_step r 15 (CHR '' '') = ([StartValue], 15)"
  "value_char ch \<Longrightarrow> schar ch \<noteq> 9 \<Longrightarrow> schar ch \<noteq> 32 \<Longrightarrow> http_step r 15 ch = ([StartValue], 16)"
  "value_char ch \<Longrightarrow> http_step r 16 ch = ([], 16)"
  "http_step r 15 (CHR 0x0D) = ([StartValue, WriteValue], 17)"
  "http_step r 16 (CHR 0x0D) = ([WriteValue], 17)"
  "http_step r 13 (CHR 0x0D) = ([StartField], 18)"
  "http_step r 18 (CHR 0x0A) = ([DoneAct], 348)"
proof -
  show "name_char ch \<Longrightarrow> schar ch \<noteq> 10 \<Longrightarrow> schar ch \<noteq> 13 \<Longrightarrow> http_step r 13 ch = ([StartField], 14)"
    "name_char ch \<Longrightarrow> http_step r 14 ch = ([], 14)"
    using case_name [of "schar ch" r] unfolding name_char_def Let_def http_step_def http_case_eqs by blast+
  show "value_char ch \<Longrightarrow> schar ch \<noteq> 9 \<Longrightarrow> schar ch \<noteq> 32 \<Longrightarrow> http_step r 15 ch = ([StartValue], 16)"
    "value_char ch \<Longrightarrow> http_step r 16 ch = ([], 16)"
    using case_value [of "schar ch" r] schar_lower [of ch] schar_upper [of ch]
    by (simp_all add: value_char_def http_step_def http_case_eqs)
qed (simp_all add: http_step_def http_case_eqs field_case_defs tr_defs goto_st_def schar_def)

end
