(* ===== verification/HttpGrammar.thy ===== *)
theory HttpGrammar
  imports HttpMachine
begin

text \<open>
  What \<open>http_parser_execute\<close> does with a request. A request is written down by \<open>request_text\<close>;
  \<open>items\<close> reads the emitted events back as the pieces of the input that the callbacks get,
  \<open>Wild\<close> where a range is not inside the input.
  Each segment of the text has a lemma that takes the loop across it; together they give
  the round trip from a request to the callbacks. The other properties are about input in
  pieces, the asserts of \<open>http_parser_execute\<close>, and the error state.
\<close>

section \<open>Reading the events\<close>

datatype http_item = Item http_hook bytes | FieldItem bytes bytes | Wild

fun item :: "bytes \<Rightarrow> http_event \<Rightarrow> http_item" where
  "item buffer (Element h at len) =
     (if fits buffer at len then Item h (piece buffer at len) else Wild)"
| "item buffer (FieldEvent f flen v vlen) =
     (if fits buffer f flen \<and> fits buffer v vlen
      then FieldItem (piece buffer f flen) (piece buffer v vlen) else Wild)"

definition items :: "bytes \<Rightarrow> http_parser \<Rightarrow> http_item list" where
  "items buffer m = map (item buffer) (emitted m)"

text \<open>What a segment leaves alone.\<close>

definition frame :: "http_parser \<Rightarrow> http_parser \<Rightarrow> bool" where
  "frame m m' \<longleftrightarrow> hooks m' = hooks m \<and> xml_sent m' = xml_sent m \<and> json_sent m' = json_sent m
     \<and> body_start m' = body_start m"

definition all_hooks :: "http_parser \<Rightarrow> bool" where
  "all_hooks m \<longleftrightarrow> (\<forall>h. h \<in> set (hooks m)) \<and> \<not> xml_sent m \<and> \<not> json_sent m"

lemma frame_hooks: "frame m m' \<Longrightarrow> all_hooks m' = all_hooks m"
  by (simp add: frame_def all_hooks_def)

lemma frame_trans: "frame m m1 \<Longrightarrow> frame m1 m2 \<Longrightarrow> frame m m2"
  by (simp add: frame_def)

lemma run_step:
  "http_step r n ch = (acts, t) \<Longrightarrow> http_valid n \<Longrightarrow> t \<noteq> 0 \<Longrightarrow> \<not> performs breaks acts \<Longrightarrow>
     http_loop r pe p (ch # x) n m = http_loop r pe (p + 1) x t (fold (http_act pe p) acts m)"
  by simp

lemma run_loop:
  "http_valid n \<Longrightarrow> n \<noteq> 0 \<Longrightarrow> (\<And>ch. ch \<in> set s \<Longrightarrow> http_step r n ch = ([], n)) \<Longrightarrow>
     http_loop r pe p (s @ x) n m = http_loop r pe (p + length s) x n m"
  by (rule ragel_run_loop)

lemmas act_defs = http_act_def element_at_def emit_def len_from_def items_def frame_def all_hooks_def
  performs_def breaks_def

section \<open>The segments of a request\<close>

lemma run_method_tail:
  "i + length s < 20 \<Longrightarrow> \<forall>ch \<in> set s. method_char ch \<Longrightarrow>
     http_loop r pe p (s @ x) (method_state i) m
       = http_loop r pe (p + length s) x (method_state (i + length s)) m"
proof (induction s arbitrary: i p)
  case (Cons ch s)
  have "http_step r (method_state i) ch = ([], method_state (Suc i))"
    using Cons.prems by (intro step_method(2)) auto
  then show ?case
    using Cons.prems Cons.IH [of "Suc i" "p + 1"]
    by (simp add: performs_def http_valid_def method_state_def)
qed simp

lemma seg_method:
  assumes "s \<noteq> []" and "length s \<le> 20" and "\<forall>ch \<in> set s. method_char ch" and "all_hooks m"
    and "drop p buffer = s @ '' '' @ x"
  shows "\<exists>m'. http_loop r pe p (s @ '' '' @ x) 1 m = http_loop r pe (p + length s + 1) x 3 m'
     \<and> items buffer m' = items buffer m @ [Item HookMethod s] \<and> frame m m'"
proof -
  obtain ch t where s: "s = ch # t" using assms(1) by (cases s) auto
  define m1 where "m1 = m\<lparr>mark := p\<rparr>"
  have "http_loop r pe p (s @ '' '' @ x) 1 m = http_loop r pe (p + 1) (t @ '' '' @ x) 2 m1"
    using step_method(1) [of ch r] assms(3) s
    by (simp add: http_valid_def performs_def breaks_def http_act_def m1_def)
  also have "\<dots> = http_loop r pe (p + length s) ('' '' @ x) (method_state (length t)) m1"
    using run_method_tail [of 0 t r pe "p + 1"] assms(2,3) s by (simp add: method_state_def)
  also have "\<dots> = http_loop r pe (p + length s + 1) x 3 (element_at HookMethod p (p + length s) m1)"
    using step_method(3) [of "length t" r] assms(2) s
    by (simp add: http_valid_def performs_def breaks_def http_act_def m1_def method_state_def)
  finally show ?thesis
    using assms(4) piece_here [OF assms(5)] fits_here [OF assms(5)] by (force simp: act_defs m1_def)
qed

text \<open>The path, from the state behind the method.\<close>

definition path_ok :: "bytes \<Rightarrow> bool" where
  "path_ok s \<longleftrightarrow> s \<noteq> [] \<and> hd s = CHR ''/'' \<and> (tl s = [] \<or> hd (tl s) \<noteq> CHR ''/'')
     \<and> (\<forall>ch \<in> set (tl s). path_char ch)"

lemma run_path:
  assumes "path_ok s"
  shows "\<exists>n. (n = 33 \<or> n = 26) \<and> http_loop r pe p (s @ x) 3 m
      = http_loop r pe (p + length s) x n (m\<lparr>mark := p\<rparr>)"
proof -
  obtain t where s: "s = CHR ''/'' # t" using assms by (cases s) (auto simp: path_ok_def)
  have first: "http_loop r pe p (s @ x) 3 m = http_loop r pe (p + 1) (t @ x) 33 (m\<lparr>mark := p\<rparr>)"
    using step_path(1) [of r] s by (simp add: http_valid_def performs_def breaks_def http_act_def)
  show ?thesis
  proof (cases t)
    case Nil
    with first s show ?thesis by auto
  next
    case (Cons ch u)
    have "http_loop r pe (p + 1) (t @ x) 33 (m\<lparr>mark := p\<rparr>)
        = http_loop r pe (p + 2) (u @ x) 26 (m\<lparr>mark := p\<rparr>)"
      using step_path(2) [of ch r] assms s Cons
      by (simp add: http_valid_def performs_def path_ok_def)
    also have "\<dots> = http_loop r pe (p + length s) x 26 (m\<lparr>mark := p\<rparr>)"
      using run_loop [of 26 u r pe "p + 2" x "m\<lparr>mark := p\<rparr>"] step_path(3) assms s Cons
      by (auto simp: http_valid_def path_ok_def)
    finally show ?thesis using first by auto
  qed
qed

fun query_text :: "bytes option \<Rightarrow> bytes" where
  "query_text None = []"
| "query_text (Some q) = ''?'' @ q"

fun query_items :: "bytes \<Rightarrow> bytes option \<Rightarrow> http_item list" where
  "query_items path None = [Item HookPath path, Item HookUri path]"
| "query_items path (Some q) = [Item HookPath path, Item HookQuery q, Item HookUri (path @ ''?'' @ q)]"

lemma run_query:
  assumes "\<forall>ch \<in> set q. query_char ch" and "all_hooks m" and "mark m \<le> p"
  shows "\<exists>m'. http_loop r pe p (q @ '' '' @ x) 29 m = http_loop r pe (p + length q + 1) x 4 m'
     \<and> emitted m' = emitted m @ [Element HookQuery p (length q),
          Element HookUri (mark m) (p + length q - mark m)] \<and> frame m m'"
proof (cases q)
  case Nil
  then show ?thesis
    using step_query(3) [of r] assms(2,3)
    by (force simp: http_valid_def act_defs)
next
  case (Cons ch t)
  define m1 where "m1 = m\<lparr>query_start := p\<rparr>"
  have "http_loop r pe p (q @ '' '' @ x) 29 m = http_loop r pe (p + 1) (t @ '' '' @ x) 30 m1"
    using step_query(1) [of ch r] assms(1) Cons
    by (simp add: http_valid_def performs_def breaks_def http_act_def m1_def)
  also have "\<dots> = http_loop r pe (p + length q) ('' '' @ x) 30 m1"
    using run_loop [of 30 t r pe "p + 1" "'' '' @ x" m1] step_query(2) assms(1) Cons
    by (auto simp: http_valid_def)
  also have "\<dots> = http_loop r pe (p + length q + 1) x 4
      (element_at HookUri (mark m) (p + length q) (element_at HookQuery p (p + length q) m1))"
    using step_query(4) [of r] assms(2)
    by (simp add: http_valid_def performs_def breaks_def http_act_def m1_def element_at_def emit_def)
  finally show ?thesis using assms(2,3) by (force simp: act_defs m1_def)
qed

definition query_ok :: "bytes option \<Rightarrow> bool" where
  "query_ok q \<longleftrightarrow> (case q of None \<Rightarrow> True | Some s \<Rightarrow> \<forall>ch \<in> set s. query_char ch)"

lemma seg_target:
  assumes "path_ok s" and "query_ok q" and "all_hooks m"
    and "drop p buffer = s @ query_text q @ '' '' @ x"
  shows "\<exists>m'. http_loop r pe p (s @ query_text q @ '' '' @ x) 3 m
       = http_loop r pe (p + length s + length (query_text q) + 1) x 4 m'
     \<and> items buffer m' = items buffer m @ query_items s q \<and> frame m m'"
proof -
  define m1 where "m1 = m\<lparr>mark := p\<rparr>"
  define p1 where "p1 = p + length s"
  obtain n where n: "n = 33 \<or> n = 26"
    and run: "http_loop r pe p (s @ query_text q @ '' '' @ x) 3 m = http_loop r pe p1 (query_text q @ '' '' @ x) n m1"
    using run_path [OF assms(1), of r pe p "query_text q @ '' '' @ x" m] unfolding m1_def p1_def by blast
  have path: "piece buffer p (length s) = s" "fits buffer p (length s)"
    using piece_here [OF assms(4)] fits_here [OF assms(4)] by simp_all
  show ?thesis
  proof (cases q)
    case None
    have "http_loop r pe p1 ('' '' @ x) n m1 = http_loop r pe (p1 + 1) x 4
        (element_at HookUri p p1 (element_at HookPath p p1 m1))"
      using step_path(4) [OF n, of r] n
      by (auto simp: http_valid_def performs_def breaks_def http_act_def m1_def element_at_def emit_def)
    with run None path assms(3) show ?thesis by (force simp: act_defs m1_def p1_def)
  next
    case (Some t)
    define m2 where "m2 = element_at HookPath p p1 m1"
    have m2: "all_hooks m2" "mark m2 = p" "emitted m2 = emitted m @ [Element HookPath p (length s)]"
        "frame m m2"
      using assms(3) by (simp_all add: act_defs m2_def m1_def p1_def)
    have "http_loop r pe p1 (query_text q @ '' '' @ x) n m1 = http_loop r pe (p1 + 1) (t @ '' '' @ x) 29 m2"
      using step_path(5) [OF n, of r] n Some
      by (auto simp: http_valid_def performs_def breaks_def http_act_def m1_def m2_def)
    moreover have "\<forall>ch \<in> set t. query_char ch" using assms(2) Some by (simp add: query_ok_def)
    from run_query [OF this m2(1), of "p1 + 1" r pe x] obtain m' where
      "http_loop r pe (p1 + 1) (t @ '' '' @ x) 29 m2 = http_loop r pe (p1 + 1 + length t + 1) x 4 m'"
      "emitted m' = emitted m2 @ [Element HookQuery (p1 + 1) (length t),
          Element HookUri p (p1 + 1 + length t - p)]" "frame m2 m'"
      by (auto simp: m2(2) p1_def)
    moreover have "drop (p1 + 1) buffer = t @ '' '' @ x"
      using drop_past [of p buffer "s @ ''?''" "t @ '' '' @ x"] assms(4) Some by (simp add: p1_def)
    from piece_here [OF this] fits_here [OF this]
    have "piece buffer (p1 + 1) (length t) = t" "fits buffer (p1 + 1) (length t)" by simp_all
    moreover have "drop p buffer = (s @ ''?'' @ t) @ '' '' @ x" using assms(4) Some by simp
    from piece_here [OF this] fits_here [OF this]
    have "piece buffer p (length (s @ ''?'' @ t)) = s @ ''?'' @ t"
      "fits buffer p (length (s @ ''?'' @ t))" by simp_all
    ultimately show ?thesis
      using run Some path m2 frame_trans by (force simp: items_def p1_def)
  qed
qed

definition version_text :: "char \<Rightarrow> bytes" where
  "version_text d = ''HTTP/1.'' @ [d]"

lemma seg_version:
  assumes "d = CHR ''0'' \<or> d = CHR ''1''" and "all_hooks m"
    and "drop p buffer = version_text d @ crlf @ x"
  shows "\<exists>m'. http_loop r pe p (version_text d @ crlf @ x) 4 m = http_loop r pe (p + 10) x 13 m'
     \<and> items buffer m' = items buffer m @ [Item HookVersion (version_text d)] \<and> frame m m'"
proof -
  have "http_loop r pe p (version_text d @ crlf @ x) 4 m
      = http_loop r pe (p + 10) x 13 (element_at HookVersion p (p + 8) (m\<lparr>mark := p\<rparr>))"
    using assms(1)
    by (auto simp: version_text_def crlf_def step_version http_valid_def performs_def breaks_def http_act_def)
       (simp_all add: eval_nat_numeral)
  moreover have "piece buffer p 8 = version_text d \<and> fits buffer p 8"
    using piece_here [OF assms(3)] fits_here [OF assms(3)] by (simp add: version_text_def eval_nat_numeral)
  ultimately show ?thesis using assms(2) by (force simp: act_defs)
qed

text \<open>A header line: name, colon and space, value, end of line.\<close>

definition header_text :: "bytes \<times> bytes \<Rightarrow> bytes" where
  "header_text h = fst h @ '': '' @ snd h @ crlf"

definition header_ok :: "bytes \<times> bytes \<Rightarrow> bool" where
  "header_ok h \<longleftrightarrow> fst h \<noteq> [] \<and> schar (hd (fst h)) \<noteq> 10 \<and> schar (hd (fst h)) \<noteq> 13
     \<and> (\<forall>ch \<in> set (fst h). name_char ch)
     \<and> (\<forall>ch \<in> set (snd h). value_char ch)
     \<and> (snd h = [] \<or> schar (hd (snd h)) \<noteq> 9 \<and> schar (hd (snd h)) \<noteq> 32)"

lemma run_name:
  assumes "header_ok (s, v)"
  shows "http_loop r pe p (s @ '': '' @ x) 13 m = http_loop r pe (p + length s + 2) x 15
    (m\<lparr>field_start := p, field_len := length s, mark := p + length s + 1\<rparr>)"
proof -
  obtain ch t where s: "s = ch # t" using assms by (cases s) (auto simp: header_ok_def)
  define m1 where "m1 = m\<lparr>field_start := p\<rparr>"
  have "http_loop r pe p (s @ '': '' @ x) 13 m = http_loop r pe (p + 1) (t @ '': '' @ x) 14 m1"
    using step_field(1) [of ch r] assms s
    by (simp add: http_valid_def performs_def breaks_def http_act_def m1_def header_ok_def)
  also have "\<dots> = http_loop r pe (p + length s) ('': '' @ x) 14 m1"
    using run_loop [of 14 t r pe "p + 1" "'': '' @ x" m1] step_field(2) assms s
    by (auto simp: http_valid_def header_ok_def)
  also have "\<dots> = http_loop r pe (p + length s + 2) x 15
      (m\<lparr>field_start := p, field_len := length s, mark := p + length s + 1\<rparr>)"
    by (simp add: step_field(3,4) http_valid_def performs_def breaks_def http_act_def m1_def len_from_def)
  finally show ?thesis .
qed

lemma run_value:
  assumes "header_ok (s, v)"
  shows "http_loop r pe p (v @ crlf @ x) 15 m = http_loop r pe (p + length v + 2) x 13
    (emit HookField (FieldEvent (field_start m) (field_len m) p (length v)) (m\<lparr>mark := p\<rparr>))"
proof (cases v)
  case Nil
  then show ?thesis
    by (simp add: crlf_def step_field(7) step_version http_valid_def performs_def breaks_def
        http_act_def len_from_def)
next
  case (Cons ch t)
  have "http_loop r pe p (v @ crlf @ x) 15 m = http_loop r pe (p + 1) (t @ crlf @ x) 16 (m\<lparr>mark := p\<rparr>)"
    using step_field(5) [of ch r] assms Cons
    by (simp add: http_valid_def performs_def breaks_def http_act_def header_ok_def)
  also have "\<dots> = http_loop r pe (p + length v) (crlf @ x) 16 (m\<lparr>mark := p\<rparr>)"
    using run_loop [of 16 t r pe "p + 1" "crlf @ x" "m\<lparr>mark := p\<rparr>"] step_field(6) assms Cons
    by (auto simp: http_valid_def header_ok_def)
  also have "\<dots> = http_loop r pe (p + length v + 2) x 13
      (emit HookField (FieldEvent (field_start m) (field_len m) p (length v)) (m\<lparr>mark := p\<rparr>))"
    by (simp add: crlf_def step_field(8) step_version http_valid_def performs_def breaks_def
        http_act_def len_from_def)
  finally show ?thesis .
qed

lemma seg_header:
  assumes "header_ok h" and "all_hooks m" and "drop p buffer = header_text h @ x"
  shows "\<exists>m'. http_loop r pe p (header_text h @ x) 13 m = http_loop r pe (p + length (header_text h)) x 13 m'
     \<and> items buffer m' = items buffer m @ [FieldItem (fst h) (snd h)] \<and> frame m m'"
proof -
  obtain s v where h: "h = (s, v)" by fastforce
  define m1 where "m1 = m\<lparr>field_start := p, field_len := length s, mark := p + length s + 1\<rparr>"
  have ok: "header_ok (s, v)" using assms(1) h by simp
  have "http_loop r pe p (header_text h @ x) 13 m = http_loop r pe (p + length s + 2) (v @ crlf @ x) 15 m1"
    using run_name [OF ok, of r pe p "v @ crlf @ x" m] h by (simp add: header_text_def m1_def)
  also have "\<dots> = http_loop r pe (p + length (header_text h)) x 13
      (emit HookField (FieldEvent p (length s) (p + length s + 2) (length v)) (m1\<lparr>mark := p + length s + 2\<rparr>))"
    using run_value [OF ok, of r pe "p + length s + 2" x m1] h
    by (simp add: header_text_def m1_def crlf_def ac_simps)
  finally have run: "http_loop r pe p (header_text h @ x) 13 m = \<dots>" .
  have d: "drop p buffer = s @ '': '' @ v @ crlf @ x" using assms(3) h by (simp add: header_text_def)
  have d2: "drop (p + length s + 2) buffer = v @ crlf @ x"
    using drop_past [of p buffer "s @ '': ''" "v @ crlf @ x"] d by simp
  show ?thesis
    using run assms(2) h piece_here [OF d] fits_here [OF d] piece_here [OF d2] fits_here [OF d2]
    by (force simp: act_defs m1_def header_text_def crlf_def)
qed

lemma seg_headers:
  "\<forall>h \<in> set hs. header_ok h \<Longrightarrow> all_hooks m \<Longrightarrow> drop p buffer = concat (map header_text hs) @ x \<Longrightarrow>
     \<exists>m'. http_loop r pe p (concat (map header_text hs) @ x) 13 m
         = http_loop r pe (p + length (concat (map header_text hs))) x 13 m'
       \<and> items buffer m' = items buffer m @ map (\<lambda>h. FieldItem (fst h) (snd h)) hs \<and> frame m m'"
proof (induction hs arbitrary: p m)
  case Nil
  then show ?case by (auto simp: frame_def)
next
  case (Cons h hs)
  define y where "y = concat (map header_text hs) @ x"
  have d: "drop p buffer = header_text h @ y" using Cons.prems(3) by (simp add: y_def)
  obtain m1 where m1: "http_loop r pe p (header_text h @ y) 13 m
        = http_loop r pe (p + length (header_text h)) y 13 m1"
      "items buffer m1 = items buffer m @ [FieldItem (fst h) (snd h)]" "frame m m1"
    using seg_header [OF _ Cons.prems(2) d, of r pe] Cons.prems(1) by auto
  have "all_hooks m1" using frame_hooks [OF m1(3)] Cons.prems(2) by simp
  with Cons.IH [OF _ this drop_past [OF d, unfolded y_def]] Cons.prems(1) obtain m' where
    "http_loop r pe (p + length (header_text h)) y 13 m1
       = http_loop r pe (p + length (header_text h) + length (concat (map header_text hs))) x 13 m'"
    "items buffer m' = items buffer m1 @ map (\<lambda>h. FieldItem (fst h) (snd h)) hs" "frame m1 m'"
    by (auto simp: y_def)
  with m1 frame_trans [OF m1(3)] show ?case by (auto simp: y_def add.assoc)
qed

lemma seg_end:
  assumes "all_hooks m" and "drop p buffer = crlf @ x" and "pe = length buffer"
  shows "\<exists>m'. http_loop r pe p (crlf @ x) 13 m = (p + 2, 348, m')
     \<and> items buffer m' = items buffer m @ [Item HookHeaderDone x] \<and> body_start m' = p + 2"
proof -
  define m1 where "m1 = m\<lparr>field_start := p\<rparr>"
  have "http_loop r pe p (crlf @ x) 13 m = (p + 2, 348, http_act pe (p + 1) DoneAct m1)"
    by (simp add: crlf_def step_field(9,10) http_valid_def performs_def breaks_def http_act_def m1_def
        del: One_nat_def)
  moreover have "length (drop p buffer) = Suc (Suc (length x))" using assms(2) by (simp add: crlf_def)
  then have "length buffer = p + 2 + length x" by simp
  then have "size_sub (size_sub pe (p + 1)) 1 = length x" using assms(3) by simp
  moreover have "piece buffer (p + 2) (length x) = x"
    using drop_past [OF assms(2)] by (intro piece_here [where x = "[]"]) (simp add: crlf_def)
  moreover have "fits buffer (p + 2) (length x)"
    using \<open>length buffer = p + 2 + length x\<close> by (simp add: fits_def)
  ultimately show ?thesis using assms(1) by (auto simp: act_defs m1_def)
qed

section \<open>The asserts of execute\<close>

text \<open>What the actions keep, and the bounds that the asserts check.\<close>

definition kept :: "http_parser \<Rightarrow> http_parser \<Rightarrow> bool" where
  "kept m m' \<longleftrightarrow> pcs m' = pcs m \<and> nread m' = nread m \<and> uri_relaxed m' = uri_relaxed m \<and> hooks m' = hooks m"

definition bounded :: "nat \<Rightarrow> nat \<Rightarrow> http_parser \<Rightarrow> bool" where
  "bounded len q m \<longleftrightarrow> mark m \<le> q \<and> mark m < len \<and> field_start m \<le> q \<and> field_start m < len
     \<and> field_len m \<le> q \<and> body_start m \<le> len"

lemma act_kept: "kept m x \<Longrightarrow> kept m (http_act pe p a x)"
  by (cases a) (simp_all add: kept_def http_act_def element_at_def emit_def)

lemma act_bounded: "bounded len q m \<Longrightarrow> q < len \<Longrightarrow> bounded len q (http_act pe q a m)"
  by (cases a) (auto simp: bounded_def http_act_def element_at_def emit_def len_from_def)

lemma loop_bounded:
  assumes "http_loop r pe p s n m = (p', n', m')" and "bounded (p + length s) p m"
  shows "kept m m'" and "bounded (p + length s) p' m'"
proof -
  show "kept m m'"
    by (rule ragel_run_inv [where Q = "\<lambda>_. kept m", OF _ _ assms(1)])
       (erule act_kept, simp_all add: kept_def)
  show "bounded (p + length s) p' m'"
    by (rule ragel_run_inv [where Q = "bounded (p + length s)", OF _ _ assms(1) assms(2)])
       (erule act_bounded, simp, simp add: bounded_def)
qed

lemma int32_small: "n < 2 ^ 31 \<Longrightarrow> int32 n = int n"
  using signed_take_bit_int_eq_self [of 31 "int n"]
  by (simp add: int32_def signed_of_nat)

text \<open>The parser at the start of the loop.\<close>

definition entered :: "http_parser \<Rightarrow> http_parser" where
  "entered m = m\<lparr>nread := 0, mark := 0, field_len := 0, field_start := 0\<rparr>"

lemma entered_pcs [simp]: "pcs (entered m) = pcs m"
  by (simp add: entered_def)

lemma execute_eq:
  assumes "buffer \<noteq> []" and "length buffer < 2 ^ 31" and "body_start m \<le> length buffer"
    and "http_loop (uri_relaxed m) (length buffer) 0 buffer (pcs m) (entered m) = (p, n, m1)"
  shows "http_parser_execute m buffer 0 = Inr (p, m1\<lparr>pcs := (if pcs m = 0 then 0 else n), nread := p\<rparr>)
     \<and> p \<le> length buffer"
proof -
  have "bounded (0 + length buffer) 0 (entered m)"
    using assms(1,3) by (simp add: bounded_def entered_def)
  from loop_bounded [OF assms(4) this] have k: "kept (entered m) m1" "bounded (length buffer) p m1"
    by simp_all
  have le: "p \<le> length buffer" using ragel_run_bounds [OF assms(4)] by simp
  have "pcs m1 = pcs m" "nread m1 = 0" using k(1) by (simp_all add: kept_def entered_def)
  with k(2) le assms show ?thesis
    by (simp add: http_parser_execute_def http_parser_exit_def entered_def [symmetric] int32_small int32_def [of 0]
        http_parser_has_error_def http_parser_error_def bounded_def Let_def)
qed

text \<open>
  The whole text of a request without a body. \<open>text_ok\<close> describes the plain requests: a path
  of ordinary characters without an escape or an empty segment, a query, and header lines
  that end in CR LF. The machine also takes percent escapes, \<open>//\<close> in a path, fragments,
  absolute URIs and lines that end in a bare LF; for those the theorems about any input
  (\<open>execute_safe\<close>) hold, not the ones about the text of a request.
\<close>

record http_text =
  tmethod :: bytes
  tpath :: bytes
  tquery :: "bytes option"
  tminor :: char
  theaders :: "(bytes \<times> bytes) list"

definition text_ok :: "http_text \<Rightarrow> bool" where
  "text_ok t \<longleftrightarrow> tmethod t \<noteq> [] \<and> length (tmethod t) \<le> 20 \<and> (\<forall>ch \<in> set (tmethod t). method_char ch)
     \<and> path_ok (tpath t) \<and> query_ok (tquery t) \<and> (tminor t = CHR ''0'' \<or> tminor t = CHR ''1'')
     \<and> (\<forall>h \<in> set (theaders t). header_ok h)"

definition request_text :: "http_text \<Rightarrow> bytes" where
  "request_text t = tmethod t @ '' '' @ tpath t @ query_text (tquery t) @ '' ''
     @ version_text (tminor t) @ crlf @ concat (map header_text (theaders t)) @ crlf"

definition request_items :: "http_text \<Rightarrow> bytes \<Rightarrow> http_item list" where
  "request_items t rest = [Item HookMethod (tmethod t)] @ query_items (tpath t) (tquery t)
     @ [Item HookVersion (version_text (tminor t))]
     @ map (\<lambda>h. FieldItem (fst h) (snd h)) (theaders t) @ [Item HookHeaderDone rest]"

lemma run_request:
  assumes "text_ok t" and "all_hooks m" and "buffer = request_text t @ x"
  shows "\<exists>m'. http_loop r (length buffer) 0 buffer 1 m = (length (request_text t), 348, m')
     \<and> items buffer m' = items buffer m @ request_items t x
     \<and> body_start m' = length (request_text t)"
proof -
  let ?h = "concat (map header_text (theaders t))"
  define x4 where "x4 = crlf @ x"
  define x3 where "x3 = ?h @ x4"
  define x2 where "x2 = version_text (tminor t) @ crlf @ x3"
  define x1 where "x1 = tpath t @ query_text (tquery t) @ '' '' @ x2"
  have b: "buffer = tmethod t @ '' '' @ x1"
    using assms(3) by (simp add: request_text_def x1_def x2_def x3_def x4_def)
  define p1 where "p1 = length (tmethod t) + 1"
  define p2 where "p2 = p1 + length (tpath t) + length (query_text (tquery t)) + 1"
  define p3 where "p3 = p2 + 10"
  define p4 where "p4 = p3 + length ?h"
  have d1: "drop p1 buffer = x1" using b by (simp add: p1_def)
  have d2: "drop p2 buffer = x2"
    using drop_past [of p1 buffer "tpath t @ query_text (tquery t) @ '' ''" x2] d1
    by (simp add: p2_def x1_def add.assoc)
  have d3: "drop p3 buffer = x3"
    using drop_past [of p2 buffer "version_text (tminor t) @ crlf" x3] d2
    by (simp add: p3_def x2_def version_text_def crlf_def eval_nat_numeral)
  have d4: "drop p4 buffer = x4" using drop_past d3 by (simp add: p4_def x3_def)
  note ok = assms(1) [unfolded text_ok_def]
  obtain m1 where 1: "http_loop r (length buffer) 0 buffer 1 m = http_loop r (length buffer) p1 x1 3 m1"
      "items buffer m1 = items buffer m @ [Item HookMethod (tmethod t)]" "frame m m1"
    using seg_method [of "tmethod t" m 0 buffer x1 r "length buffer"] ok assms(2) b by (auto simp: p1_def)
  have h1: "all_hooks m1" using frame_hooks [OF 1(3)] assms(2) by simp
  obtain m2 where 2: "http_loop r (length buffer) p1 x1 3 m1 = http_loop r (length buffer) p2 x2 4 m2"
      "items buffer m2 = items buffer m1 @ query_items (tpath t) (tquery t)" "frame m1 m2"
    using seg_target [OF _ _ h1 d1 [unfolded x1_def], of r "length buffer"] ok
    unfolding p2_def x1_def by blast
  have h2: "all_hooks m2" using frame_hooks [OF 2(3)] h1 by simp
  obtain m3 where 3: "http_loop r (length buffer) p2 x2 4 m2 = http_loop r (length buffer) p3 x3 13 m3"
      "items buffer m3 = items buffer m2 @ [Item HookVersion (version_text (tminor t))]" "frame m2 m3"
    using seg_version [OF _ h2 d2 [unfolded x2_def], of r "length buffer"] ok
    by (auto simp: p3_def x2_def [symmetric])
  have h3: "all_hooks m3" using frame_hooks [OF 3(3)] h2 by simp
  obtain m4 where 4: "http_loop r (length buffer) p3 x3 13 m3 = http_loop r (length buffer) p4 x4 13 m4"
      "items buffer m4 = items buffer m3 @ map (\<lambda>h. FieldItem (fst h) (snd h)) (theaders t)" "frame m3 m4"
    using seg_headers [OF _ h3 d3 [unfolded x3_def], of r "length buffer"] ok
    by (auto simp: p4_def x3_def [symmetric])
  have h4: "all_hooks m4" using frame_hooks [OF 4(3)] h3 by simp
  obtain m5 where 5: "http_loop r (length buffer) p4 x4 13 m4 = (p4 + 2, 348, m5)"
      "items buffer m5 = items buffer m4 @ [Item HookHeaderDone x]" "body_start m5 = p4 + 2"
    using seg_end [OF h4 d4 [unfolded x4_def] HOL.refl, of r] by (auto simp: x4_def [symmetric])
  have "p4 + 2 = length (request_text t)"
    by (simp add: request_text_def p4_def p3_def p2_def p1_def version_text_def crlf_def)
  with 1 2 3 4 5 show ?thesis by (simp add: request_items_def)
qed

lemma execute_request:
  assumes "text_ok t" and "all_hooks m" and "pcs m = 1" and "body_start m = 0"
    and "buffer = request_text t @ x" and "length buffer < 2 ^ 31"
  shows "\<exists>m'. http_parser_execute m buffer 0 = Inr (length (request_text t), m')
     \<and> http_parser_finish m' = 1 \<and> body_start m' = length (request_text t) \<and> hooks m' = hooks m
     \<and> items buffer m' = items buffer m @ request_items t x"
proof -
  have h: "all_hooks (entered m)" using assms(2) by (simp add: all_hooks_def entered_def)
  obtain m1 where 1: "http_loop (uri_relaxed m) (length buffer) 0 buffer 1 (entered m)
        = (length (request_text t), 348, m1)"
      "items buffer m1 = items buffer (entered m) @ request_items t x"
      "body_start m1 = length (request_text t)"
    using run_request [OF assms(1) h assms(5), of "uri_relaxed m"] by blast
  have ne: "buffer \<noteq> []" using assms(5) by (simp add: request_text_def)
  have "body_start m \<le> length buffer" using assms(4) by simp
  from execute_eq [OF ne assms(6) this] 1(1) assms(3)
  have e: "http_parser_execute m buffer 0
      = Inr (length (request_text t), m1\<lparr>pcs := 348, nread := length (request_text t)\<rparr>)" by simp
  have "kept (entered m) m1" using loop_bounded(1) [OF 1(1)] ne assms(4)
    by (simp add: bounded_def entered_def)
  with e 1 show ?thesis
    by (simp add: http_parser_finish_def http_parser_has_error_def http_parser_error_def
        http_parser_is_finished_def http_first_final_def items_def kept_def entered_def)
qed

section \<open>Input in pieces\<close>

abbreviation going :: "nat \<Rightarrow> bool" where
  "going \<equiv> http.going"

lemma going_iff: "going n \<longleftrightarrow> 1 \<le> n \<and> n < 348"
  unfolding http.going_def by (auto simp: http_valid_def http_first_final_def)

lemma finish_zero: "http_valid (pcs m) \<Longrightarrow> http_parser_finish m = 0 \<longleftrightarrow> going (pcs m)"
  unfolding going_iff
  by (auto simp: http_parser_finish_def http_parser_has_error_def http_parser_error_def
      http_parser_is_finished_def http_first_final_def http_valid_def)

text \<open>One execution of a parser that is in the middle of a request.\<close>

lemma execute_going:
  assumes "buffer \<noteq> []" and "length buffer < 2 ^ 31" and "body_start m \<le> length buffer" and "going (pcs m)"
  shows "\<exists>n m'. http_parser_execute m buffer 0 = Inr (n, m') \<and> n \<le> length buffer
     \<and> pcs m' = ragel_cs http_valid (http_step (uri_relaxed m)) breaks buffer (pcs m)
     \<and> (pcs m' = 0 \<or> http_valid (pcs m')) \<and> (going (pcs m') \<longrightarrow> n = length buffer)
     \<and> uri_relaxed m' = uri_relaxed m \<and> (going (pcs m') \<longrightarrow> body_start m' = body_start m)"
proof -
  obtain p c m1 where l: "http_loop (uri_relaxed m) (length buffer) 0 buffer (pcs m) (entered m) = (p, c, m1)"
    by (metis prod_cases3)
  have v: "http_valid (pcs m)" and nz: "pcs m \<noteq> 0"
    using assms(4) by (simp_all add: going_iff http_valid_def)
  have cs: "c = ragel_cs http_valid (http_step (uri_relaxed m)) breaks buffer (pcs m)"
    using ragel_run_cs [OF l] .
  then have rng: "c = 0 \<or> http_valid c" using http.control_range [OF v] by simp
  have all: "going c \<Longrightarrow> p = length buffer" using http.consumed_all [OF l assms(4)] by simp
  have "body_start (http_act pe q a y) = body_start m" if "body_start y = body_start m" "\<not> breaks a" for pe q a y
    using that by (cases a) (simp_all add: http_act_def element_at_def emit_def breaks_def)
  then have bs: "going c \<Longrightarrow> body_start m1 = body_start m"
    using http.going_inv [where Q = "\<lambda>y. body_start y = body_start m", OF _ l assms(4)]
    by (simp add: entered_def)
  have "kept (entered m) m1"
    using loop_bounded(1) [OF l] assms(1,3) by (simp add: bounded_def entered_def)
  with execute_eq [OF assms(1-3) l] nz cs rng all bs show ?thesis by (simp add: kept_def entered_def)
qed

text \<open>
  A token cut in two: the marks are set back at the start of every execution, so the second
  execution hands out only what it has seen of the token.
\<close>

lemma execute_method_start:
  assumes "a \<noteq> []" and "length a \<le> 20" and "\<forall>ch \<in> set a. method_char ch"
    and "pcs m = 1" and "body_start m = 0"
  shows "http_parser_execute m a 0
    = Inr (length a, (entered m)\<lparr>pcs := method_state (length a - 1), nread := length a\<rparr>)"
proof -
  obtain ch t where s: "a = ch # t" using assms(1) by (cases a) auto
  have "http_loop r pe 0 a 1 x = http_loop r pe 1 t 2 (x\<lparr>mark := 0\<rparr>)" for r pe x
    using step_method(1) [of ch r] assms(3) s
    by (simp add: http_valid_def performs_def breaks_def http_act_def)
  also have "http_loop r pe 1 t 2 y = (length a, method_state (length t), y)" for r pe y
    using run_method_tail [of 0 t r pe 1 "[]" y] assms(2,3) s by (simp add: method_state_def)
  finally have l: "http_loop (uri_relaxed m) (length a) 0 a (pcs m) (entered m)
      = (length a, method_state (length t), (entered m)\<lparr>mark := 0\<rparr>)" by (simp add: assms(4))
  have "(entered m)\<lparr>mark := 0\<rparr> = entered m" by (simp add: entered_def)
  with execute_eq [OF assms(1) _ _ l] assms(2,4,5) s show ?thesis by simp
qed

lemma execute_method_end:
  assumes "i + length b < 20" and "\<forall>ch \<in> set b. method_char ch" and "all_hooks m"
    and "pcs m = method_state i" and "body_start m = 0"
  shows "\<exists>m'. http_parser_execute m (b @ '' '') 0 = Inr (length b + 1, m')
     \<and> emitted m' = emitted m @ [Element HookMethod 0 (length b)] \<and> pcs m' = 3"
proof -
  define m1 where "m1 = element_at HookMethod 0 (length b) (entered m)"
  have "http_loop r pe 0 (b @ '' '') (method_state i) x
      = http_loop r pe (length b) '' '' (method_state (i + length b)) x" for r pe x
    using run_method_tail [OF assms(1,2), of r pe 0 "'' ''" x] by simp
  also have "http_loop r pe (length b) '' '' (method_state (i + length b)) (entered m)
      = (length b + 1, 3, m1)" for r pe
    using step_method(3) [OF assms(1), of r] assms(1)
    by (simp add: http_valid_def performs_def breaks_def http_act_def method_state_def m1_def
        entered_def)
  finally have l: "http_loop (uri_relaxed m) (length (b @ '' '')) 0 (b @ '' '') (pcs m) (entered m)
      = (length b + 1, 3, m1)" by (simp add: assms(4))
  have "pcs m \<noteq> 0" by (simp add: assms(4) method_state_def)
  moreover have "emitted m1 = emitted m @ [Element HookMethod 0 (length b)]"
    using assms(3) by (simp add: act_defs m1_def entered_def)
  ultimately show ?thesis using execute_eq [OF _ _ _ l] assms(1,5) by simp
qed

lemma execute_query_end:
  assumes "\<forall>ch \<in> set b. query_char ch" and "all_hooks m" and "pcs m = 30" and "body_start m = 0"
    and "length b + 1 < 2 ^ 31"
  shows "\<exists>m'. http_parser_execute m (b @ '' '') 0 = Inr (length b + 1, m')
     \<and> emitted m' = emitted m @ [Element HookQuery (query_start m) (size_sub (length b) (query_start m)),
                                  Element HookUri 0 (length b)]"
proof -
  define m1 where "m1 = element_at HookUri 0 (length b) (element_at HookQuery (query_start m) (length b) (entered m))"
  have "http_loop r pe 0 (b @ '' '') 30 x = http_loop r pe (length b) '' '' 30 x" for r pe x
    using run_loop [of 30 b r pe 0 "'' ''" x] step_query(2) assms(1) by (auto simp: http_valid_def)
  also have "http_loop r pe (length b) '' '' 30 (entered m) = (length b + 1, 4, m1)" for r pe
    using step_query(4) [of r]
    by (simp add: http_valid_def performs_def breaks_def http_act_def m1_def entered_def
        element_at_def emit_def)
  finally have l: "http_loop (uri_relaxed m) (length (b @ '' '')) 0 (b @ '' '') (pcs m) (entered m)
      = (length b + 1, 4, m1)" by (simp add: assms(3))
  have "emitted m1 = emitted m @ [Element HookQuery (query_start m) (size_sub (length b) (query_start m)),
                                  Element HookUri 0 (length b)]"
    using assms(2) by (simp add: act_defs m1_def entered_def)
  then show ?thesis using execute_eq [OF _ _ _ l] assms(3,4,5) by simp
qed

text \<open>The first piece of a request that ends within the query.\<close>

lemma execute_query_start:
  assumes "s \<noteq> []" and "length s \<le> 20" and "\<forall>ch \<in> set s. method_char ch" and "path_ok t"
    and "q \<noteq> []" and "\<forall>ch \<in> set q. query_char ch" and "all_hooks m" and "pcs m = 1" and "body_start m = 0"
    and "length (s @ '' '' @ t @ ''?'' @ q) < 2 ^ 31"
  shows "\<exists>m'. http_parser_execute m (s @ '' '' @ t @ ''?'' @ q) 0 = Inr (length s + length t + length q + 2, m')
     \<and> pcs m' = 30 \<and> query_start m' = length s + length t + 2 \<and> all_hooks m' \<and> body_start m' = 0"
proof -
  let ?b = "s @ '' '' @ t @ ''?'' @ q"
  define p1 where "p1 = length s + 1"
  define p2 where "p2 = p1 + length t"
  have h: "all_hooks (entered m)" using assms(7) by (simp add: all_hooks_def entered_def)
  obtain m1 where 1: "http_loop r pe 0 ?b 1 (entered m) = http_loop r pe p1 (t @ ''?'' @ q) 3 m1"
      "frame (entered m) m1" for r pe
  proof -
    obtain ch u where su: "s = ch # u" using assms(1) by (cases s) auto
    have "http_loop r pe 0 ?b 1 (entered m) = http_loop r pe 1 (u @ '' '' @ t @ ''?'' @ q) 2 ((entered m)\<lparr>mark := 0\<rparr>)" for r pe
      using step_method(1) [of ch r] assms(3) su
      by (simp add: http_valid_def performs_def breaks_def http_act_def)
    also have "http_loop r pe 1 (u @ '' '' @ t @ ''?'' @ q) 2 y
        = http_loop r pe (length s) ('' '' @ t @ ''?'' @ q) (method_state (length u)) y" for r pe y
      using run_method_tail [of 0 u r pe 1 "'' '' @ t @ ''?'' @ q" y] assms(2,3) su by (simp add: method_state_def)
    also have "http_loop r pe (length s) ('' '' @ t @ ''?'' @ q) (method_state (length u)) y
        = http_loop r pe p1 (t @ ''?'' @ q) 3 (element_at HookMethod (mark y) (length s) y)" for r pe y
      using step_method(3) [of "length u" r] assms(2) su
      by (simp add: http_valid_def performs_def breaks_def http_act_def method_state_def p1_def)
    finally show thesis by (rule that) (simp add: act_defs entered_def)
  qed
  define m2 where "m2 = element_at HookPath p1 p2 (m1\<lparr>mark := p1\<rparr>)"
  obtain n where n: "n = 33 \<or> n = 26"
    "http_loop (uri_relaxed m) (length ?b) p1 (t @ ''?'' @ q) 3 m1
       = http_loop (uri_relaxed m) (length ?b) p2 (''?'' @ q) n (m1\<lparr>mark := p1\<rparr>)"
    using run_path [OF assms(4), of "uri_relaxed m" "length ?b" p1 "''?'' @ q" m1] unfolding p2_def by blast
  have "http_loop (uri_relaxed m) (length ?b) p2 (''?'' @ q) n (m1\<lparr>mark := p1\<rparr>)
      = http_loop (uri_relaxed m) (length ?b) (p2 + 1) q 29 m2"
    using step_path(5) [OF n(1), of "uri_relaxed m"] n(1)
    by (auto simp: http_valid_def performs_def breaks_def http_act_def m2_def)
  also obtain ch u where qu: "q = ch # u" using assms(5) by (cases q) auto
  have "http_loop (uri_relaxed m) (length ?b) (p2 + 1) q 29 m2
      = http_loop (uri_relaxed m) (length ?b) (p2 + 2) u 30 (m2\<lparr>query_start := p2 + 1\<rparr>)"
    using step_query(1) [of ch] assms(6) qu
    by (simp add: http_valid_def performs_def breaks_def http_act_def)
  also have "\<dots> = (p2 + 1 + length q, 30, m2\<lparr>query_start := p2 + 1\<rparr>)"
    using run_loop [of 30 u "uri_relaxed m" "length ?b" "p2 + 2" "[]"] step_query(2) assms(6) qu
    by (simp add: http_valid_def)
  finally have l: "http_loop (uri_relaxed m) (length ?b) 0 ?b (pcs m) (entered m)
      = (p2 + 1 + length q, 30, m2\<lparr>query_start := p2 + 1\<rparr>)" using 1(1) n(2) assms(8) by simp
  have "frame (entered m) m2" using 1(2) by (simp add: act_defs m2_def)
  with execute_eq [OF _ assms(10) _ l] assms(1,7,8,9) show ?thesis
    by (simp add: frame_def all_hooks_def entered_def p1_def p2_def)
qed

section \<open>Properties\<close>

text \<open>The parser of the witnesses: initialised, with all callbacks installed.\<close>

definition fresh_parser :: http_parser where
  "fresh_parser = http_parser_init \<lparr>pcs = 0, body_start = 0, content_len = 0, nread = 0, mark = 0,
     field_start = 0, field_len = 0, query_start = 0, xml_sent = False, json_sent = False,
     uri_relaxed = False, hooks = [HookField, HookMethod, HookUri, HookFragment, HookPath, HookQuery,
       HookVersion, HookHeaderDone], emitted = []\<rparr>"

lemma fresh_parser [simp]:
  "all_hooks fresh_parser" "pcs fresh_parser = 1" "body_start fresh_parser = 0" "emitted fresh_parser = []"
proof -
  have "h \<in> set (hooks fresh_parser)" for h
    by (cases h) (simp_all add: fresh_parser_def http_parser_init_def)
  then show "all_hooks fresh_parser"
    by (simp add: all_hooks_def) (simp add: fresh_parser_def http_parser_init_def)
qed (simp_all add: fresh_parser_def http_parser_init_def http_parser_start_def)

text \<open>
  C3: A request is parsed as it was written. Executing an initialised parser on the text of
  any request (method of 1 to 20 letters, path, optional query, version 1.0 or 1.1, header
  lines) with anything behind it stops right behind the blank line, finished, with the body
  to start there, and the callbacks have been given exactly the method, path, query, URI,
  version and header fields of the request, in order, and what follows the headers.
\<close>

theorem request_parsed:
  assumes "text_ok t" and "all_hooks m" and "pcs m = 1" and "body_start m = 0" and "emitted m = []"
    and "length (request_text t @ x) < 2 ^ 31"
  shows "\<exists>m'. http_parser_execute m (request_text t @ x) 0 = Inr (length (request_text t), m')
     \<and> http_parser_finish m' = 1 \<and> body_start m' = length (request_text t)
     \<and> items (request_text t @ x) m' = request_items t x"
  using execute_request [OF assms(1-4) HOL.refl assms(6)] assms(5) by (auto simp: items_def)

definition sample_text :: http_text where
  "sample_text = \<lparr>tmethod = ''GET'', tpath = ''/a/b'', tquery = Some ''x=1'', tminor = CHR ''1'',
     theaders = [(''Host'', ''h''), (''A'', [])]\<rparr>"

lemma sample_text_ok: "text_ok sample_text"
  by (simp add: text_ok_def sample_text_def path_ok_def query_ok_def header_ok_def char_classes schar_def)

lemma request_parsed_witness:
  "\<exists>m'. http_parser_execute fresh_parser (request_text sample_text @ ''body'') 0
      = Inr (length (request_text sample_text), m') \<and> http_parser_finish m' = 1
     \<and> items (request_text sample_text @ ''body'') m' = request_items sample_text ''body''"
proof -
  have "length (request_text sample_text @ ''body'') < 2 ^ 31"
    by (simp add: request_text_def sample_text_def header_text_def version_text_def crlf_def)
  from request_parsed [OF sample_text_ok fresh_parser this] show ?thesis by blast
qed

text \<open>
  C10: No assert of \<open>http_parser_execute\<close> fails, whatever the bytes. In the middle of a
  request, on any non-empty input below 2 GiB, it returns, has read no more than the input,
  and is left in a valid state or in the error state; if it is neither finished nor in error
  it has read all of the input.
\<close>

theorem execute_safe:
  assumes "http_valid (pcs m)" and "http_parser_finish m = 0" and "body_start m \<le> length buffer"
    and "buffer \<noteq> []" and "length buffer < 2 ^ 31"
  shows "\<exists>n m'. http_parser_execute m buffer 0 = Inr (n, m') \<and> n \<le> length buffer
     \<and> (http_parser_has_error m' \<or> http_valid (pcs m'))
     \<and> (http_parser_finish m' \<noteq> 0 \<or> n = length buffer)"
proof -
  have "going (pcs m)" using assms(1,2) finish_zero by blast
  from execute_going [OF assms(4,5,3) this] obtain n m' where
    r: "http_parser_execute m buffer 0 = Inr (n, m')" "n \<le> length buffer"
      "pcs m' = 0 \<or> http_valid (pcs m')" "going (pcs m') \<longrightarrow> n = length buffer" by blast
  then have "http_parser_finish m' \<noteq> 0 \<or> n = length buffer"
    using finish_zero [of m']
    by (auto simp: http_parser_finish_def [of m'] http_parser_has_error_def http_parser_error_def)
  with r show ?thesis by (auto simp: http_parser_has_error_def http_parser_error_def)
qed

lemma execute_safe_witness:
  "\<exists>n m'. http_parser_execute fresh_parser [CHR 0xFF] 0 = Inr (n, m') \<and> n \<le> 1"
  using execute_safe [of fresh_parser "[CHR 0xFF]"]
  by (auto simp: http_valid_def http_parser_finish_def http_parser_has_error_def
      http_parser_error_def http_parser_is_finished_def http_first_final_def)

text \<open>
  Whether input is accepted does not depend on how it is cut. Executing on two pieces,
  the first of which leaves the parser in the middle of the request, ends in the control
  state in which executing on both at once ends.
\<close>

theorem pieces_same_state:
  assumes "http_valid (pcs m)" and "http_parser_finish m = 0"
    and "body_start m = 0" and "s \<noteq> []" and "x \<noteq> []" and "length (s @ x) < 2 ^ 31"
    and "http_parser_execute m s 0 = Inr (n1, m1)" and "http_parser_finish m1 = 0"
  shows "\<exists>n2 m2 n m'. http_parser_execute m1 x 0 = Inr (n2, m2)
     \<and> http_parser_execute m (s @ x) 0 = Inr (n, m') \<and> pcs m2 = pcs m' \<and> n1 = length s"
proof -
  have g: "going (pcs m)" using assms(1,2) finish_zero by blast
  from execute_going [OF assms(4) _ _ g] assms(3,6,7) have
    1: "pcs m1 = ragel_cs http_valid (http_step (uri_relaxed m)) breaks s (pcs m)"
      "pcs m1 = 0 \<or> http_valid (pcs m1)" "going (pcs m1) \<longrightarrow> n1 = length s"
      "uri_relaxed m1 = uri_relaxed m" "going (pcs m1) \<longrightarrow> body_start m1 = 0" by auto
  have g1: "going (pcs m1)"
    using 1(2) assms(8) finish_zero
    by (auto simp: http_parser_finish_def http_parser_has_error_def http_parser_error_def)
  from execute_going [OF assms(5) _ _ g1] assms(6) 1(5) g1 obtain n2 m2 where
    2: "http_parser_execute m1 x 0 = Inr (n2, m2)"
      "pcs m2 = ragel_cs http_valid (http_step (uri_relaxed m)) breaks x (pcs m1)"
    by (auto simp: 1(4))
  from execute_going [of "s @ x" m] assms(3,4,6) g obtain n m' where
    3: "http_parser_execute m (s @ x) 0 = Inr (n, m')"
      "pcs m' = ragel_cs http_valid (http_step (uri_relaxed m)) breaks (s @ x) (pcs m)" by auto
  have "pcs m' = pcs m2"
    using http.control_append [OF g, of "uri_relaxed m" s x] g1 unfolding 1(1) 2(2) 3(2) by simp
  with 1 2 3 g1 show ?thesis by auto
qed

lemma pieces_same_state_witness:
  "\<exists>n1 m1 n2 m2 n m'. http_parser_execute fresh_parser ''G'' 0 = Inr (n1, m1)
     \<and> http_parser_execute m1 ''ET '' 0 = Inr (n2, m2)
     \<and> http_parser_execute fresh_parser (''G'' @ ''ET '') 0 = Inr (n, m') \<and> pcs m2 = pcs m'"
proof -
  have v: "http_valid (pcs fresh_parser)" by (simp add: http_valid_def)
  have f: "http_parser_finish fresh_parser = 0" using finish_zero [OF v] by (simp add: going_iff)
  have "method_char (CHR ''G'')" by (simp add: method_char_def schar_def)
  then have "http_step r 1 (CHR ''G'') = ([Mark], 2)" for r by (rule step_method(1))
  then have cs: "ragel_cs http_valid (http_step r) breaks ''G'' 1 = 2" for r
    by (simp add: http_valid_def performs_def breaks_def del: One_nat_def)
  obtain n1 m1 where 1: "http_parser_execute fresh_parser ''G'' 0 = Inr (n1, m1)" "pcs m1 = 2"
    using execute_going [of "''G''" fresh_parser] cs by (auto simp: going_iff)
  have "http_parser_finish m1 = 0" using finish_zero [of m1] 1(2) by (simp add: http_valid_def going_iff)
  with pieces_same_state [OF v f fresh_parser(3), of "''G''" "''ET ''" n1 m1] 1(1) show ?thesis by auto
qed

text \<open>
  A method that arrives in two reads is cut. Both executions succeed and the parser goes
  on to the path, but the callback gets only the part of the method in the second read
  (\<open>b\<close> at offset 0), since the mark was set back to 0 at the start of that execution.
\<close>

theorem split_method_cut:
  assumes "a \<noteq> []" and "length a + length b \<le> 20" and "\<forall>ch \<in> set (a @ b). method_char ch"
    and "all_hooks m" and "pcs m = 1" and "body_start m = 0" and "emitted m = []"
  shows "\<exists>m1 m2. http_parser_execute m a 0 = Inr (length a, m1)
     \<and> http_parser_execute m1 (b @ '' '') 0 = Inr (length b + 1, m2) \<and> pcs m2 = 3
     \<and> items (b @ '' '') m2 = [Item HookMethod b]"
proof -
  define m1 where "m1 = (entered m)\<lparr>pcs := method_state (length a - 1), nread := length a\<rparr>"
  have e1: "http_parser_execute m a 0 = Inr (length a, m1)"
    unfolding m1_def by (rule execute_method_start) (use assms in auto)
  have m1: "all_hooks m1" "pcs m1 = method_state (length a - 1)" "body_start m1 = 0" "emitted m1 = []"
    using assms(4,6,7) by (simp_all add: m1_def entered_def all_hooks_def)
  have i: "length a - 1 + length b < 20" "\<forall>ch \<in> set b. method_char ch"
    using assms(1-3) by (cases a; simp)+
  obtain m2 where "http_parser_execute m1 (b @ '' '') 0 = Inr (length b + 1, m2)"
      "emitted m2 = [Element HookMethod 0 (length b)]" "pcs m2 = 3"
    using execute_method_end [OF i m1(1-3)] m1(4) by auto
  with e1 show ?thesis by (simp add: items_def piece_def slice_def fits_def)
qed

lemma split_method_cut_witness:
  "\<exists>m1 m2. http_parser_execute fresh_parser ''G'' 0 = Inr (1, m1)
     \<and> http_parser_execute m1 (''ET'' @ '' '') 0 = Inr (3, m2)
     \<and> items (''ET'' @ '' '') m2 = [Item HookMethod ''ET'']"
  using split_method_cut [of "''G''" "''ET''" fresh_parser]
  by (auto simp: method_char_def schar_def Let_def numeral_3_eq_3)

text \<open>
  A query that arrives in two reads makes the parser hand out a wild length. The start
  of the query is not set back between executions but kept as an offset into the first
  input; when the second input is shorter, the length given to the callback has wrapped
  around below zero, and the range lies far outside the buffer.
\<close>

theorem split_query_wraps:
  assumes "s \<noteq> []" and "length s \<le> 20" and "\<forall>ch \<in> set s. method_char ch" and "path_ok t"
    and "q \<noteq> []" and "\<forall>ch \<in> set (q @ b). query_char ch"
    and "all_hooks m" and "pcs m = 1" and "body_start m = 0"
    and "length (s @ '' '' @ t @ ''?'' @ q) < 2 ^ 31" and "length b < length s + length t + 2"
  shows "\<exists>n1 m1 n2 m2. http_parser_execute m (s @ '' '' @ t @ ''?'' @ q) 0 = Inr (n1, m1)
     \<and> http_parser_execute m1 (b @ '' '') 0 = Inr (n2, m2)
     \<and> emitted m2 = emitted m1 @
         [Element HookQuery (length s + length t + 2) (2 ^ 64 - (length s + length t + 2 - length b)),
          Element HookUri 0 (length b)]"
proof -
  have q: "\<forall>ch \<in> set q. query_char ch" "\<forall>ch \<in> set b. query_char ch" using assms(6) by auto
  obtain n1 m1 where 1: "http_parser_execute m (s @ '' '' @ t @ ''?'' @ q) 0 = Inr (n1, m1)"
      "pcs m1 = 30" "query_start m1 = length s + length t + 2" "all_hooks m1" "body_start m1 = 0"
    using execute_query_start [OF assms(1-5) q(1) assms(7-10)] by auto
  have len: "length b + 1 < 2 ^ 31" "length s + length t + 2 \<le> 2 ^ 64"
    using assms(2,5,10,11) by (cases q; simp)+
  show ?thesis
  proof -
    obtain n2 m2 where "http_parser_execute m1 (b @ '' '') 0 = Inr (n2, m2)"
        "emitted m2 = emitted m1 @ [Element HookQuery (query_start m1)
           (size_sub (length b) (query_start m1)), Element HookUri 0 (length b)]"
      using execute_query_end [OF q(2) 1(4,2,5)] len(1) by auto
    with 1 size_sub_wraps [OF assms(11) len(2)] show ?thesis by auto
  qed
qed

lemma split_query_wraps_witness:
  "\<exists>n1 m1 n2 m2. http_parser_execute fresh_parser (''GET'' @ '' '' @ ''/a'' @ ''?'' @ ''x='') 0 = Inr (n1, m1)
     \<and> http_parser_execute m1 (''1'' @ '' '') 0 = Inr (n2, m2)
     \<and> emitted m2 = emitted m1 @ [Element HookQuery 7 (2 ^ 64 - 6), Element HookUri 0 1]"
  using split_query_wraps [of "''GET''" "''/a''" "''x=''" "''1''" fresh_parser]
  by (auto simp: path_ok_def char_classes schar_def)

text \<open>
  A header name may contain line breaks. A line without a colon does not end the field
  name: the line break and the next line up to its colon become part of the name, so two
  lines of the input reach the application as one header field.
\<close>

theorem name_spans_lines:
  assumes "text_ok t" and "theaders t = [(a, v)]" and "b \<noteq> []" and "\<forall>ch \<in> set b. name_char ch"
    and "all_hooks m" and "pcs m = 1" and "body_start m = 0" and "emitted m = []"
    and "t' = t\<lparr>theaders := [(a @ crlf @ b, v)]\<rparr>" and "length (request_text t') < 2 ^ 31"
  shows "\<exists>n m'. http_parser_execute m (request_text t') 0 = Inr (n, m') \<and> http_parser_finish m' = 1
     \<and> FieldItem (a @ crlf @ b) v \<in> set (items (request_text t') m')"
proof -
  have h: "header_ok (a, v)" using assms(1,2) by (simp add: text_ok_def)
  have "\<forall>ch \<in> set crlf. name_char ch" by (simp add: crlf_def name_char_def schar_def)
  then have "header_ok (a @ crlf @ b, v)" using h assms(4) by (auto simp: header_ok_def)
  then have "text_ok t'" using assms(1,9) by (simp add: text_ok_def)
  from execute_request [OF this assms(5-7), of "request_text t'" "[]"] assms(10) obtain m' where
    m': "http_parser_execute m (request_text t') 0 = Inr (length (request_text t'), m')"
      "http_parser_finish m' = 1" "items (request_text t') m' = items (request_text t') m @ request_items t' []"
    by auto
  have "FieldItem (a @ crlf @ b) v \<in> set (request_items t' [])"
    using assms(9) by (simp add: request_items_def)
  with m' show ?thesis by auto
qed

lemma name_spans_lines_witness:
  "\<exists>n m'. http_parser_execute fresh_parser
       (request_text (sample_text\<lparr>theaders := [(''A'' @ crlf @ ''B'', ''c'')]\<rparr>)) 0 = Inr (n, m')
     \<and> http_parser_finish m' = 1"
  using name_spans_lines [of "sample_text\<lparr>theaders := [(''A'', ''c'')]\<rparr>" "''A''" "''c''" "''B''" fresh_parser
      "sample_text\<lparr>theaders := [(''A'' @ crlf @ ''B'', ''c'')]\<rparr>"]
  by (auto simp: text_ok_def sample_text_def path_ok_def query_ok_def header_ok_def char_classes
      schar_def request_text_def header_text_def version_text_def crlf_def)

end
