(* ===== verification/Buffer.thy ===== *)
theory Buffer
  imports Prelude
begin

text \<open>
  \<open>net/Buffer.h\<close> and \<open>net/Buffer.cpp\<close>: the growable byte buffer of every connection,
  a vector with a read and a write index and eight bytes kept free in front. Pointers
  into the vector are modelled by their index. An operation with an \<open>assert\<close> returns a
  sum; \<open>buf_wf\<close> is the class invariant and \<open>contents\<close> the readable bytes, the abstract
  value every operation is specified by. The locale \<open>byte_queue\<close> is the interface
  that the connection's output path relies on; it is interpreted on the buffer.
\<close>

section \<open>State\<close>

record buffer =
  buf :: bytes
  readerIndex :: nat
  writerIndex :: nat

definition kPrepend :: nat where "kPrepend = 8"
definition kInitSize :: nat where "kInitSize = 1024"
definition kCRLF :: bytes where "kCRLF = [CHR 0x0D, CHR 0x0A]"
definition new_buffer :: "nat \<Rightarrow> buffer" where
  "new_buffer initialSize =
     \<lparr>buf = replicate (kPrepend + initialSize) kNul,
      readerIndex = kPrepend, writerIndex = kPrepend\<rparr>"

section \<open>Observers\<close>

definition readableBytes :: "buffer \<Rightarrow> nat" where
  "readableBytes b = size_sub (writerIndex b) (readerIndex b)"

definition writeableBytes :: "buffer \<Rightarrow> nat" where
  "writeableBytes b = size_sub (length (buf b)) (writerIndex b)"

definition prependableBytes :: "buffer \<Rightarrow> nat" where
  "prependableBytes b = readerIndex b"

definition peek :: "buffer \<Rightarrow> nat" where
  "peek b = readerIndex b"

definition beginWrite :: "buffer \<Rightarrow> nat" where
  "beginWrite b = writerIndex b"

definition contents :: "buffer \<Rightarrow> bytes" where
  "contents b = slice (readerIndex b) (writerIndex b) (buf b)"

definition buf_wf :: "buffer \<Rightarrow> bool" where
  "buf_wf b \<longleftrightarrow> kPrepend \<le> length (buf b) \<and> readerIndex b \<le> writerIndex b
     \<and> writerIndex b \<le> length (buf b)"

text \<open>\<open>std::search\<close> and \<open>memchr\<close> over a byte range, as offsets from its start.\<close>

fun std_search :: "bytes \<Rightarrow> bytes \<Rightarrow> nat option" where
  "std_search pat [] = (if pat = [] then Some 0 else None)"
| "std_search pat (x # xs) =
     (if take (length pat) (x # xs) = pat then Some 0 else map_option Suc (std_search pat xs))"

fun std_memchr :: "char \<Rightarrow> bytes \<Rightarrow> nat option" where
  "std_memchr c [] = None"
| "std_memchr c (x # xs) = (if x = c then Some 0 else map_option Suc (std_memchr c xs))"

definition findCRLF :: "buffer \<Rightarrow> nat option" where
  "findCRLF b = map_option (\<lambda>i. peek b + i) (std_search kCRLF (contents b))"

definition findCRLF_from :: "buffer \<Rightarrow> nat \<Rightarrow> fault + nat option" where
  "findCRLF_from b start =
     (if \<not> peek b \<le> start then Inl Assert_failed
      else if \<not> start \<le> beginWrite b then Inl Assert_failed
      else Inr (map_option (\<lambda>i. start + i)
             (std_search kCRLF (slice start (beginWrite b) (buf b)))))"

definition findEOL :: "buffer \<Rightarrow> nat option" where
  "findEOL b = map_option (\<lambda>i. peek b + i) (std_memchr (CHR 0x0A) (contents b))"

definition findEOL_from :: "buffer \<Rightarrow> nat \<Rightarrow> fault + nat option" where
  "findEOL_from b start =
     (if \<not> peek b \<le> start then Inl Assert_failed
      else if \<not> start \<le> beginWrite b then Inl Assert_failed
      else Inr (map_option (\<lambda>i. start + i)
             (std_memchr (CHR 0x0A) (slice start (beginWrite b) (buf b)))))"

section \<open>Consuming\<close>

definition retrieveAll :: "buffer \<Rightarrow> buffer" where
  "retrieveAll b = b\<lparr>readerIndex := kPrepend, writerIndex := kPrepend\<rparr>"

definition retrieve :: "buffer \<Rightarrow> nat \<Rightarrow> fault + buffer" where
  "retrieve b len =
     (if \<not> len \<le> readableBytes b then Inl Assert_failed
      else if len < readableBytes b then Inr (b\<lparr>readerIndex := readerIndex b + len\<rparr>)
      else Inr (retrieveAll b))"

definition retrieveUntil :: "buffer \<Rightarrow> nat \<Rightarrow> fault + buffer" where
  "retrieveUntil b e =
     (if \<not> peek b \<le> e then Inl Assert_failed
      else if \<not> e \<le> beginWrite b then Inl Assert_failed
      else retrieve b (e - peek b))"

definition retrieveAsString :: "buffer \<Rightarrow> nat \<Rightarrow> fault + (bytes \<times> buffer)" where
  "retrieveAsString b len =
     (if \<not> len \<le> readableBytes b then Inl Assert_failed
      else ebind (retrieve b len) (\<lambda>b'. Inr (slice (peek b) (peek b + len) (buf b), b')))"

definition retrieveAllAsString :: "buffer \<Rightarrow> fault + (bytes \<times> buffer)" where
  "retrieveAllAsString b = retrieveAsString b (readableBytes b)"

section \<open>Producing\<close>

definition makeSpace :: "buffer \<Rightarrow> nat \<Rightarrow> fault + buffer" where
  "makeSpace b len =
     (if writeableBytes b + prependableBytes b < len + kPrepend
      then Inr (b\<lparr>buf := vec_resize kNul (writerIndex b + len) (buf b)\<rparr>)
      else if \<not> kPrepend < readerIndex b then Inl Assert_failed
      else
        (let readable = readableBytes b;
             b' = b\<lparr>buf := splice_at kPrepend (contents b) (buf b),
                    readerIndex := kPrepend, writerIndex := kPrepend + readable\<rparr>
         in if readable = readableBytes b' then Inr b' else Inl Assert_failed))"

definition ensureWritableBytes :: "buffer \<Rightarrow> nat \<Rightarrow> fault + buffer" where
  "ensureWritableBytes b len = (if writeableBytes b < len then makeSpace b len else Inr b)"

definition hasWritten :: "buffer \<Rightarrow> nat \<Rightarrow> fault + buffer" where
  "hasWritten b len =
     (if \<not> len \<le> writeableBytes b then Inl Assert_failed
      else Inr (b\<lparr>writerIndex := writerIndex b + len\<rparr>))"

definition unwrite :: "buffer \<Rightarrow> nat \<Rightarrow> fault + buffer" where
  "unwrite b len =
     (if \<not> len \<le> writeableBytes b then Inl Assert_failed
      else Inr (b\<lparr>writerIndex := size_sub (writerIndex b) len\<rparr>))"

definition append_data :: "buffer \<Rightarrow> bytes \<Rightarrow> fault + buffer" where
  "append_data b data =
     ebind (ensureWritableBytes b (length data)) (\<lambda>b1.
       hasWritten (b1\<lparr>buf := splice_at (beginWrite b1) data (buf b1)\<rparr>) (length data))"

text \<open>\<open>append(const char *)\<close> copies up to the terminating NUL.\<close>

definition append_cstr :: "buffer \<Rightarrow> bytes \<Rightarrow> fault + buffer" where
  "append_cstr b str = append_data b (takeWhile (\<lambda>c. c \<noteq> kNul) str)"

definition prepend_data :: "buffer \<Rightarrow> bytes \<Rightarrow> fault + buffer" where
  "prepend_data b data =
     (if \<not> length data \<le> prependableBytes b then Inl Assert_failed
      else Inr (b\<lparr>readerIndex := readerIndex b - length data,
                  buf := splice_at (readerIndex b - length data) data (buf b)\<rparr>))"

definition shrink :: "buffer \<Rightarrow> nat \<Rightarrow> fault + buffer" where
  "shrink b reserve =
     ebind (ensureWritableBytes b (readableBytes b + reserve)) (\<lambda>b1.
       Inr (b1\<lparr>buf := vec_resize kNul (readableBytes b1 + reserve + kInitSize) (buf b1)\<rparr>))"

section \<open>Integers in network byte order\<close>

definition appendInt64 :: "buffer \<Rightarrow> 64 word \<Rightarrow> fault + buffer" where
  "appendInt64 b x = append_data b (be_bytes 8 (unat x))"

definition appendInt32 :: "buffer \<Rightarrow> 32 word \<Rightarrow> fault + buffer" where
  "appendInt32 b x = append_data b (be_bytes 4 (unat x))"

definition appendInt16 :: "buffer \<Rightarrow> 16 word \<Rightarrow> fault + buffer" where
  "appendInt16 b x = append_data b (be_bytes 2 (unat x))"

definition appendInt8 :: "buffer \<Rightarrow> 8 word \<Rightarrow> fault + buffer" where
  "appendInt8 b x = append_data b (be_bytes 1 (unat x))"

definition peek_bytes :: "buffer \<Rightarrow> nat \<Rightarrow> fault + bytes" where
  "peek_bytes b n =
     (if \<not> n \<le> readableBytes b then Inl Assert_failed
      else Inr (slice (peek b) (peek b + n) (buf b)))"

definition peekInt64 :: "buffer \<Rightarrow> fault + 64 word" where
  "peekInt64 b = ebind (peek_bytes b 8) (\<lambda>s. Inr (of_nat (be_val s)))"

definition peekInt32 :: "buffer \<Rightarrow> fault + 32 word" where
  "peekInt32 b = ebind (peek_bytes b 4) (\<lambda>s. Inr (of_nat (be_val s)))"

definition peekInt16 :: "buffer \<Rightarrow> fault + 16 word" where
  "peekInt16 b = ebind (peek_bytes b 2) (\<lambda>s. Inr (of_nat (be_val s)))"

definition peekInt8 :: "buffer \<Rightarrow> fault + 8 word" where
  "peekInt8 b = ebind (peek_bytes b 1) (\<lambda>s. Inr (of_nat (be_val s)))"

definition readInt64 :: "buffer \<Rightarrow> fault + (64 word \<times> buffer)" where
  "readInt64 b = ebind (peekInt64 b) (\<lambda>x. ebind (retrieve b 8) (\<lambda>b'. Inr (x, b')))"

definition readInt32 :: "buffer \<Rightarrow> fault + (32 word \<times> buffer)" where
  "readInt32 b = ebind (peekInt32 b) (\<lambda>x. ebind (retrieve b 4) (\<lambda>b'. Inr (x, b')))"

definition readInt16 :: "buffer \<Rightarrow> fault + (16 word \<times> buffer)" where
  "readInt16 b = ebind (peekInt16 b) (\<lambda>x. ebind (retrieve b 2) (\<lambda>b'. Inr (x, b')))"

definition readInt8 :: "buffer \<Rightarrow> fault + (8 word \<times> buffer)" where
  "readInt8 b = ebind (peekInt8 b) (\<lambda>x. ebind (retrieve b 1) (\<lambda>b'. Inr (x, b')))"

definition prependInt64 :: "buffer \<Rightarrow> 64 word \<Rightarrow> fault + buffer" where
  "prependInt64 b x = prepend_data b (be_bytes 8 (unat x))"

definition prependInt32 :: "buffer \<Rightarrow> 32 word \<Rightarrow> fault + buffer" where
  "prependInt32 b x = prepend_data b (be_bytes 4 (unat x))"

definition prependInt16 :: "buffer \<Rightarrow> 16 word \<Rightarrow> fault + buffer" where
  "prependInt16 b x = prepend_data b (be_bytes 2 (unat x))"

definition prependInt8 :: "buffer \<Rightarrow> 8 word \<Rightarrow> fault + buffer" where
  "prependInt8 b x = prepend_data b (be_bytes 1 (unat x))"

section \<open>Reading from a descriptor\<close>

text \<open>
  The outcome of the \<open>readv\<close> call is an argument: an \<open>errno\<close>, or the bytes the kernel
  delivered, which it scatters over the free tail of the vector first and then over
  the 65536 bytes of \<open>extrabuf\<close>. \<open>readv_room\<close> is the total length of the two ranges.
\<close>

definition readv_room :: "buffer \<Rightarrow> nat" where
  "readv_room b =
     (let writable = writeableBytes b
      in if writable < 65536 then writable + 65536 else writable)"

definition readFd :: "buffer \<Rightarrow> nat + bytes \<Rightarrow> fault + ((nat + nat) \<times> buffer)" where
  "readFd b r =
     (case r of
        Inl savedErrno \<Rightarrow> Inr (Inl savedErrno, b)
      | Inr data \<Rightarrow>
          (let writable = writeableBytes b; n = length data in
           if n \<le> writable
           then Inr (Inr n, b\<lparr>buf := splice_at (writerIndex b) data (buf b),
                               writerIndex := writerIndex b + n\<rparr>)
           else ebind (append_data
                  (b\<lparr>buf := splice_at (writerIndex b) (take writable data) (buf b),
                     writerIndex := length (buf b)\<rparr>) (drop writable data))
                  (\<lambda>b'. Inr (Inr n, b'))))"

definition swap_buffers :: "buffer \<Rightarrow> buffer \<Rightarrow> buffer \<times> buffer" where
  "swap_buffers b rhs = (rhs, b)"

section \<open>Geometry of a well-formed buffer\<close>

lemma buf_wfD:
  assumes "buf_wf b"
  shows "kPrepend \<le> length (buf b)" and "readerIndex b \<le> writerIndex b"
    and "writerIndex b \<le> length (buf b)"
  using assms by (auto simp: buf_wf_def)

lemma readable_wf [simp]: "buf_wf b \<Longrightarrow> readableBytes b = writerIndex b - readerIndex b"
  by (simp add: readableBytes_def buf_wf_def)

lemma writeable_wf [simp]: "buf_wf b \<Longrightarrow> writeableBytes b = length (buf b) - writerIndex b"
  by (simp add: writeableBytes_def buf_wf_def)

lemma length_contents [simp]: "buf_wf b \<Longrightarrow> length (contents b) = writerIndex b - readerIndex b"
  by (auto simp: contents_def buf_wf_def min_def)

lemma readable_contents: "buf_wf b \<Longrightarrow> readableBytes b = length (contents b)"
  by simp

lemma buf_wf_new [simp]: "buf_wf (new_buffer n)"
  by (simp add: buf_wf_def new_buffer_def)

lemma contents_new [simp]: "contents (new_buffer n) = []"
  by (simp add: contents_def new_buffer_def)

lemma buf_wf_retrieveAll [simp]: "buf_wf b \<Longrightarrow> buf_wf (retrieveAll b)"
  by (simp add: buf_wf_def retrieveAll_def)

lemma contents_retrieveAll [simp]: "contents (retrieveAll b) = []"
  by (simp add: contents_def retrieveAll_def)

section \<open>Functional behaviour of the operations\<close>

lemma retrieve_spec:
  assumes "buf_wf b" and "n \<le> length (contents b)"
  shows "\<exists>b'. retrieve b n = Inr b' \<and> buf_wf b' \<and> contents b' = drop n (contents b)"
proof (cases "n < readableBytes b")
  case True
  with assms show ?thesis
    by (auto simp: retrieve_def buf_wf_def contents_def slice_drop)
next
  case False
  with assms show ?thesis by (simp add: retrieve_def)
qed

lemma retrieve_too_much: "buf_wf b \<Longrightarrow> length (contents b) < n \<Longrightarrow> retrieve b n = Inl Assert_failed"
  by (simp add: retrieve_def)

lemma retrieveUntil_spec:
  assumes "buf_wf b" and "n \<le> length (contents b)"
  shows "\<exists>b'. retrieveUntil b (peek b + n) = Inr b' \<and> buf_wf b' \<and> contents b' = drop n (contents b)"
  using retrieve_spec [OF assms] assms(2) buf_wfD [OF assms(1)]
  by (simp add: retrieveUntil_def peek_def beginWrite_def assms(1) le_diff_conv2 add.commute)

lemma retrieveAsString_spec:
  assumes "buf_wf b" and "n \<le> length (contents b)"
  shows "\<exists>b'. retrieveAsString b n = Inr (take n (contents b), b') \<and> buf_wf b'
           \<and> contents b' = drop n (contents b)"
proof -
  obtain b' where "retrieve b n = Inr b'" "buf_wf b'" "contents b' = drop n (contents b)"
    using retrieve_spec [OF assms] by blast
  moreover have "slice (peek b) (peek b + n) (buf b) = take n (contents b)"
    using assms(2) buf_wfD [OF assms(1)] assms(1)
    by (simp add: contents_def [of b] peek_def take_slice le_diff_conv2 add.commute)
  ultimately show ?thesis using assms by (simp add: retrieveAsString_def)
qed

lemma makeSpace_spec:
  assumes "buf_wf b" and "writeableBytes b < len"
  shows "\<exists>b'. makeSpace b len = Inr b' \<and> buf_wf b' \<and> contents b' = contents b
           \<and> len \<le> writeableBytes b'"
proof (cases "writeableBytes b + prependableBytes b < len + kPrepend")
  case True
  with assms show ?thesis
    by (auto simp: makeSpace_def buf_wf_def contents_def writeableBytes_def slice_vec_resize)
next
  case False
  define r where "r = length (contents b)"
  define b' where "b' = b\<lparr>buf := splice_at kPrepend (contents b) (buf b),
      readerIndex := kPrepend, writerIndex := kPrepend + r\<rparr>"
  have r: "r = writerIndex b - readerIndex b" using assms(1) by (simp add: r_def)
  have lt: "kPrepend < readerIndex b"
    using False assms by (simp add: prependableBytes_def)
  have fit: "kPrepend + r \<le> length (buf b)"
    using lt r buf_wfD [OF assms(1)] by simp
  have len': "length (buf b') = length (buf b)" using fit by (simp add: b'_def r_def)
  have wf': "buf_wf b'"
    using buf_wfD [OF assms(1)] fit len' by (simp add: buf_wf_def) (simp add: b'_def)
  have "contents b' = contents b"
    using slice_at_splice [of kPrepend "contents b" "buf b"] fit
    by (simp only: contents_def [of b']) (simp add: b'_def r_def)
  moreover have "len \<le> writeableBytes b'"
    using False assms(1) wf' len' r lt buf_wfD [OF assms(1)]
    by (simp add: prependableBytes_def) (simp add: b'_def)
  moreover have "makeSpace b len = Inr b'"
    using False lt assms(1) r wf'
    by (simp add: makeSpace_def Let_def b'_def [symmetric]) (simp add: b'_def)
  ultimately show ?thesis using wf' by blast
qed

lemma makeSpace_storage:
  assumes "buf_wf b" and "makeSpace b len = Inr b1"
  shows "length (buf b1) = (if writeableBytes b + prependableBytes b < len + kPrepend
                            then writerIndex b + len else length (buf b))"
proof (cases "writeableBytes b + prependableBytes b < len + kPrepend")
  case True
  then show ?thesis using assms(2) by (auto simp: makeSpace_def)
next
  case False
  then have lt: "kPrepend < readerIndex b"
    and eq: "b\<lparr>buf := splice_at kPrepend (contents b) (buf b), readerIndex := kPrepend,
               writerIndex := kPrepend + readableBytes b\<rparr> = b1"
    using assms(2) by (auto simp: makeSpace_def Let_def split: if_splits)
  from eq have b1: "buf b1 = splice_at kPrepend (contents b) (buf b)" by auto
  from lt have "kPrepend + length (contents b) \<le> length (buf b)"
    using buf_wfD [OF assms(1)] assms(1) by simp
  with False b1 show ?thesis by simp
qed

lemma ensureWritableBytes_spec:
  assumes "buf_wf b"
  shows "\<exists>b'. ensureWritableBytes b len = Inr b' \<and> buf_wf b' \<and> contents b' = contents b
           \<and> len \<le> writeableBytes b'"
  using makeSpace_spec [OF assms, of len] assms
  by (cases "writeableBytes b < len") (auto simp: ensureWritableBytes_def)

lemma write_into_spec:
  assumes "buf_wf b" and "length data \<le> writeableBytes b"
  defines "b' \<equiv> b\<lparr>buf := splice_at (writerIndex b) data (buf b),
                   writerIndex := writerIndex b + length data\<rparr>"
  shows "buf_wf b'" and "contents b' = contents b @ data"
  using assms by (auto simp: buf_wf_def contents_def slice_append_splice)

lemma append_data_spec:
  assumes "buf_wf b"
  shows "\<exists>b'. append_data b data = Inr b' \<and> buf_wf b' \<and> contents b' = contents b @ data"
proof -
  obtain b1 where b1: "ensureWritableBytes b (length data) = Inr b1" "buf_wf b1"
      "contents b1 = contents b" "length data \<le> writeableBytes b1"
    using ensureWritableBytes_spec [OF assms] by blast
  have len: "length (splice_at (writerIndex b1) data (buf b1)) = length (buf b1)"
    using b1(4) buf_wfD [OF b1(2)] b1(2) by simp
  then have "buf_wf (b1\<lparr>buf := splice_at (writerIndex b1) data (buf b1)\<rparr>)"
    using b1(2) by (simp add: buf_wf_def)
  then have "append_data b data = Inr (b1\<lparr>buf := splice_at (writerIndex b1) data (buf b1),
      writerIndex := writerIndex b1 + length data\<rparr>)"
    using b1 len by (simp add: append_data_def hasWritten_def beginWrite_def)
  then show ?thesis
    using write_into_spec [OF b1(2,4)] b1(3) by auto
qed

lemma prepend_data_spec:
  assumes "buf_wf b" and "length data \<le> prependableBytes b"
  shows "\<exists>b'. prepend_data b data = Inr b' \<and> buf_wf b' \<and> contents b' = data @ contents b"
  using assms
  by (auto simp: prepend_data_def prependableBytes_def buf_wf_def contents_def slice_prepend_splice)

lemma readFd_spec:
  assumes "buf_wf b"
  shows "\<exists>b'. readFd b (Inr data) = Inr (Inr (length data), b') \<and> buf_wf b'
           \<and> contents b' = contents b @ data"
proof (cases "length data \<le> writeableBytes b")
  case True
  then show ?thesis
    using write_into_spec [OF assms True] assms by (auto simp: readFd_def Let_def)
next
  case False
  define k where "k = writeableBytes b"
  define b1 where "b1 = b\<lparr>buf := splice_at (writerIndex b) (take k data) (buf b),
      writerIndex := length (buf b)\<rparr>"
  have k: "length (take k data) = k" "writerIndex b + k = length (buf b)"
    using False assms buf_wfD [OF assms] by (simp_all add: k_def)
  have b1: "buf_wf b1" "contents b1 = contents b @ take k data"
    using write_into_spec [of b "take k data"] assms k by (simp_all add: b1_def k_def)
  obtain b' where "append_data b1 (drop k data) = Inr b'" "buf_wf b'"
      "contents b' = contents b1 @ drop k data"
    using append_data_spec [OF b1(1)] by blast
  then show ?thesis
    using False b1(2) by (simp add: readFd_def Let_def k_def b1_def)
qed

lemma readFd_error: "readFd b (Inl e) = Inr (Inl e, b)"
  by (simp add: readFd_def)

text \<open>
  \<open>unwrite\<close> compares \<open>len\<close> with the writeable rather than the readable bytes: it is the
  inverse of \<open>hasWritten\<close> for a length that was just written, but nothing in its
  assert keeps the write index above the read index.
\<close>

lemma unwrite_spec:
  assumes "buf_wf b" and "n \<le> length (contents b)" and "n \<le> writeableBytes b"
  shows "\<exists>b'. unwrite b n = Inr b' \<and> buf_wf b'
           \<and> contents b' = take (length (contents b) - n) (contents b)"
  using assms
  by (auto simp: unwrite_def buf_wf_def contents_def slice_def min_def add.commute)

lemma unwrite_wf_iff:
  assumes "buf_wf b" and "unwrite b n = Inr b'" and "length (buf b) < 2 ^ 63"
  shows "buf_wf b' \<longleftrightarrow> n \<le> length (contents b)"
proof -
  have n: "n \<le> length (buf b) - writerIndex b" and b': "b' = b\<lparr>writerIndex := size_sub (writerIndex b) n\<rparr>"
    using assms(1,2) by (auto simp: unwrite_def split: if_splits)
  show ?thesis
  proof (cases "n \<le> writerIndex b")
    case True
    then show ?thesis using assms(1) b' by (auto simp: buf_wf_def)
  next
    case False
    then have "\<not> size_sub (writerIndex b) n \<le> length (buf b)"
      using n assms(3) by (simp add: size_sub_def)
    then show ?thesis using False assms(1) b' by (auto simp: buf_wf_def)
  qed
qed

text \<open>
  \<open>shrink\<close> resizes the vector to the readable length plus \<open>reserve + kInitSize\<close> without
  moving the readable bytes to the front. The readable range survives exactly when the
  read index is at most \<open>reserve + kInitSize\<close>.
\<close>

lemma shrink_spec:
  assumes "buf_wf b" and "ensureWritableBytes b (readableBytes b + reserve) = Inr b1"
  shows "\<exists>b'. shrink b reserve = Inr b' \<and> (buf_wf b' \<longleftrightarrow> readerIndex b1 \<le> reserve + kInitSize)
           \<and> (readerIndex b1 \<le> reserve + kInitSize \<longrightarrow> contents b' = contents b)"
proof -
  have b1: "buf_wf b1" "contents b1 = contents b"
    using ensureWritableBytes_spec [OF assms(1), of "readableBytes b + reserve"] assms(2) by auto
  define b' where
    "b' = b1\<lparr>buf := vec_resize kNul (readableBytes b1 + reserve + kInitSize) (buf b1)\<rparr>"
  have "shrink b reserve = Inr b'" using assms(2) by (simp add: shrink_def b'_def)
  moreover have "buf_wf b' \<longleftrightarrow> readerIndex b1 \<le> reserve + kInitSize"
  proof -
    have "buf_wf b' \<longleftrightarrow> writerIndex b1 \<le> writerIndex b1 - readerIndex b1 + reserve + kInitSize"
      using b1(1) buf_wfD [OF b1(1)]
      by (simp add: b'_def buf_wf_def [of "buf_update _ _"] kPrepend_def kInitSize_def) arith
    also have "\<dots> \<longleftrightarrow> readerIndex b1 \<le> reserve + kInitSize"
      using buf_wfD(2) [OF b1(1)] by linarith
    finally show ?thesis .
  qed
  moreover have "readerIndex b1 \<le> reserve + kInitSize \<Longrightarrow> contents b' = contents b1"
  proof -
    assume "readerIndex b1 \<le> reserve + kInitSize"
    then have "writerIndex b1 \<le> readableBytes b1 + reserve + kInitSize"
      using b1(1) by simp
    from slice_vec_resize [OF this buf_wfD(3) [OF b1(1)]]
    show ?thesis by (simp add: b'_def contents_def)
  qed
  ultimately show ?thesis using b1(2) by (intro exI [of _ b'] conjI impI) simp_all
qed

section \<open>Integers: what is appended is read back\<close>

lemma peek_bytes_spec:
  assumes "buf_wf b" and "contents b = s @ rest"
  shows "peek_bytes b (length s) = Inr s"
proof -
  have le: "readerIndex b + length s \<le> writerIndex b"
    using length_contents [OF assms(1)] assms(2) buf_wfD [OF assms(1)] by simp
  then have "slice (readerIndex b) (readerIndex b + length s) (buf b) = take (length s) (contents b)"
    by (simp add: contents_def take_slice)
  then show ?thesis using assms le by (simp add: peek_bytes_def peek_def)
qed

lemma of_nat_be_val_unat:
  "of_nat (be_val (be_bytes n (unat (x :: 'a :: len word)))) = x" if "LENGTH('a) = 8 * n"
proof -
  have "unat x < 2 ^ LENGTH('a)" by (rule unsigned_less)
  also have "(2 :: nat) ^ LENGTH('a) = 256 ^ n"
    by (simp add: that power_mult)
  finally show ?thesis by (simp add: be_val_be_bytes)
qed

lemma readInt64_spec:
  assumes "buf_wf b" and "contents b = be_bytes 8 (unat x) @ rest"
  shows "\<exists>b'. readInt64 b = Inr (x, b') \<and> buf_wf b' \<and> contents b' = rest"
proof -
  have "peekInt64 b = Inr x"
    using peek_bytes_spec [OF assms] of_nat_be_val_unat [of 8 x] by (simp add: peekInt64_def)
  moreover have "\<exists>b'. retrieve b 8 = Inr b' \<and> buf_wf b' \<and> contents b' = drop 8 (contents b)"
    using retrieve_spec [OF assms(1), of 8] assms(2) by simp
  ultimately show ?thesis using assms(2) by (auto simp: readInt64_def)
qed

lemma readInt32_spec:
  assumes "buf_wf b" and "contents b = be_bytes 4 (unat x) @ rest"
  shows "\<exists>b'. readInt32 b = Inr (x, b') \<and> buf_wf b' \<and> contents b' = rest"
proof -
  have "peekInt32 b = Inr x"
    using peek_bytes_spec [OF assms] of_nat_be_val_unat [of 4 x] by (simp add: peekInt32_def)
  moreover have "\<exists>b'. retrieve b 4 = Inr b' \<and> buf_wf b' \<and> contents b' = drop 4 (contents b)"
    using retrieve_spec [OF assms(1), of 4] assms(2) by simp
  ultimately show ?thesis using assms(2) by (auto simp: readInt32_def)
qed

section \<open>Line ends\<close>

lemma std_search_Some:
  "std_search pat xs = Some i \<Longrightarrow> take (length pat) (drop i xs) = pat
     \<and> i \<le> length xs \<and> (\<forall>j < i. take (length pat) (drop j xs) \<noteq> pat)"
proof (induction pat xs arbitrary: i rule: std_search.induct)
  case (1 pat)
  then show ?case by (auto split: if_splits)
next
  case (2 pat x xs)
  show ?case
  proof (cases "take (length pat) (x # xs) = pat")
    case True
    with 2 show ?thesis by auto
  next
    case False
    with 2 obtain k where k: "std_search pat xs = Some k" "i = Suc k" by auto
    with False 2 show ?thesis
      by (auto simp: less_Suc_eq_0_disj)
  qed
qed

lemma std_search_None:
  "std_search pat xs = None \<Longrightarrow> take (length pat) (drop j xs) \<noteq> pat \<or> length xs < j"
proof (induction pat xs arbitrary: j rule: std_search.induct)
  case (1 pat)
  then show ?case by (auto split: if_splits)
next
  case (2 pat x xs)
  then show ?case by (cases j) (auto split: if_splits)
qed

section \<open>The byte-queue interface\<close>

text \<open>
  What a connection relies on when it uses a buffer as an output queue: appending never
  fails and adds at the end, a prefix that is there can be taken away. \<open>q_run\<close> runs a
  sequence of such operations and collects the bytes handed out.
\<close>

datatype qop = Put bytes | Take nat

fun q_run :: "('q \<Rightarrow> bytes) \<Rightarrow> ('q \<Rightarrow> bytes \<Rightarrow> 'e + 'q) \<Rightarrow> ('q \<Rightarrow> nat \<Rightarrow> 'e + 'q)
    \<Rightarrow> 'q \<Rightarrow> qop list \<Rightarrow> 'e + (bytes \<times> 'q)" where
  "q_run see put tk q [] = Inr ([], q)"
| "q_run see put tk q (Put d # ops) = ebind (put q d) (\<lambda>q'. q_run see put tk q' ops)"
| "q_run see put tk q (Take n # ops) =
     ebind (tk q n) (\<lambda>q'. ebind (q_run see put tk q' ops)
       (\<lambda>(out, q''). Inr (take n (see q) @ out, q'')))"

fun puts :: "qop list \<Rightarrow> bytes" where
  "puts [] = []"
| "puts (Put d # ops) = d @ puts ops"
| "puts (Take n # ops) = puts ops"

text \<open>A sequence is legal from \<open>n\<close> bytes when no \<open>Take\<close> asks for more than is there.\<close>

fun legal :: "nat \<Rightarrow> qop list \<Rightarrow> bool" where
  "legal n [] = True"
| "legal n (Put d # ops) = legal (n + length d) ops"
| "legal n (Take k # ops) = (k \<le> n \<and> legal (n - k) ops)"

locale byte_queue =
  fixes inv :: "'q \<Rightarrow> bool"
    and see :: "'q \<Rightarrow> bytes"
    and put :: "'q \<Rightarrow> bytes \<Rightarrow> fault + 'q"
    and tk :: "'q \<Rightarrow> nat \<Rightarrow> fault + 'q"
  assumes put_ok: "inv q \<Longrightarrow> \<exists>q'. put q d = Inr q' \<and> inv q' \<and> see q' = see q @ d"
    and tk_ok: "inv q \<Longrightarrow> n \<le> length (see q) \<Longrightarrow>
                \<exists>q'. tk q n = Inr q' \<and> inv q' \<and> see q' = drop n (see q)"
begin

lemma put_eq: "inv q \<Longrightarrow> put q d = Inr q' \<Longrightarrow> inv q' \<and> see q' = see q @ d"
  using put_ok [of q d] by auto

lemma tk_eq: "inv q \<Longrightarrow> n \<le> length (see q) \<Longrightarrow> tk q n = Inr q' \<Longrightarrow> inv q' \<and> see q' = drop n (see q)"
  using tk_ok [of q n] by auto

lemma put_not_Inl: "inv q \<Longrightarrow> put q d \<noteq> Inl e"
  using put_ok [of q d] by auto

lemma tk_not_Inl: "inv q \<Longrightarrow> n \<le> length (see q) \<Longrightarrow> tk q n \<noteq> Inl e"
  using tk_ok [of q n] by auto

lemma run_fifo:
  "inv q \<Longrightarrow> legal (length (see q)) ops \<Longrightarrow>
     \<exists>out q'. q_run see put tk q ops = Inr (out, q') \<and> inv q' \<and> out @ see q' = see q @ puts ops"
proof (induction ops arbitrary: q)
  case Nil
  then show ?case by simp
next
  case (Cons op ops)
  show ?case
  proof (cases op)
    case (Put d)
    obtain q' where q': "put q d = Inr q'" "inv q'" "see q' = see q @ d"
      using put_ok [OF Cons.prems(1)] by blast
    with Cons.prems(2) Put Cons.IH [of q'] show ?thesis by auto
  next
    case (Take n)
    with Cons.prems(2) have n: "n \<le> length (see q)" "legal (length (see q) - n) ops" by auto
    obtain q' where q': "tk q n = Inr q'" "inv q'" "see q' = drop n (see q)"
      using tk_ok [OF Cons.prems(1) n(1)] by blast
    with n(2) Cons.IH [of q'] obtain out q'' where
      "q_run see put tk q' ops = Inr (out, q'')" "inv q''" "out @ see q'' = drop n (see q) @ puts ops"
      by auto
    with q' Take show ?thesis by (simp add: append_assoc [symmetric])
  qed
qed

end

interpretation buffer_queue: byte_queue buf_wf contents append_data retrieve
  by unfold_locales (use append_data_spec retrieve_spec in auto)

section \<open>Properties\<close>

text \<open>
  C8: Any sequence of appends and of retrievals of bytes that are there runs on a
  well-formed buffer without a failing assert and is first-in first-out: the bytes
  handed out followed by the bytes left are the bytes that were there followed by the
  bytes appended, whatever moves and resizes happen on the way.
\<close>

theorem buffer_fifo:
  assumes "buf_wf b" and "legal (length (contents b)) ops"
  shows "\<exists>out b'. q_run contents append_data retrieve b ops = Inr (out, b') \<and> buf_wf b'
           \<and> out @ contents b' = contents b @ puts ops"
  using assms by (rule buffer_queue.run_fifo)

lemma buffer_fifo_witness:
  "\<exists>out b'. q_run contents append_data retrieve (new_buffer 2) [Put ''abc'', Take 2, Put ''d''] = Inr (out, b')
     \<and> buf_wf b' \<and> out @ contents b' = ''abcd''"
  using buffer_fifo [of "new_buffer 2" "[Put ''abc'', Take 2, Put ''d'']"] by simp

text \<open>
  \<open>Buffer::readFd\<close> on a well-formed buffer appends exactly the bytes the kernel
  delivered, in order, whether they fit into the free tail or spill over into the
  stack buffer, returns their number and keeps the buffer well-formed; on an error it
  returns the errno and leaves the buffer as it was.
\<close>

theorem readFd_appends:
  assumes "buf_wf b"
  shows "(\<exists>b'. readFd b (Inr data) = Inr (Inr (length data), b') \<and> buf_wf b'
           \<and> contents b' = contents b @ data) \<and> readFd b (Inl e) = Inr (Inl e, b)"
  using readFd_spec [OF assms] by (simp add: readFd_error)

lemma readFd_appends_witness:
  "(\<exists>b'. readFd (new_buffer 1) (Inr ''abc'') = Inr (Inr 3, b') \<and> buf_wf b'
     \<and> contents b' = ''abc'') \<and> readFd (new_buffer 1) (Inl 4) = Inr (Inl 4, new_buffer 1)"
  using readFd_appends [of "new_buffer 1" "''abc''" 4] by (simp add: numeral_3_eq_3)

text \<open>
  An append enlarges the vector only when the unread bytes, the new bytes and the
  reserved front do not fit into the storage that is there; it then grows to exactly
  the write index plus the new length. Otherwise the storage keeps its size.
\<close>

theorem append_storage:
  assumes "buf_wf b" and "append_data b data = Inr b'"
  shows "length (buf b') =
    (if length data \<le> writeableBytes b
        \<or> length (contents b) + length data + kPrepend \<le> length (buf b)
     then length (buf b) else writerIndex b + length data)"
proof -
  note wf = buf_wfD [OF assms(1)]
  obtain b1 where b1: "ensureWritableBytes b (length data) = Inr b1" "buf_wf b1"
      "length data \<le> writeableBytes b1"
    using ensureWritableBytes_spec [OF assms(1)] by blast
  then have "length (buf b') = length (splice_at (writerIndex b1) data (buf b1))"
    using assms(2) by (auto simp: append_data_def hasWritten_def beginWrite_def split: if_splits)
  also have "\<dots> = length (buf b1)"
    using b1(3) buf_wfD [OF b1(2)] b1(2) by simp
  finally have len: "length (buf b') = length (buf b1)" .
  have "writeableBytes b + prependableBytes b < length data + kPrepend \<longleftrightarrow>
      \<not> length (contents b) + length data + kPrepend \<le> length (buf b)"
    using wf assms(1) by (auto simp: prependableBytes_def)
  then show ?thesis
    using b1(1) makeSpace_storage [OF assms(1), of "length data" b1]
    unfolding len ensureWritableBytes_def by (auto split: if_splits)
qed

lemma append_storage_witness:
  "\<exists>b'. append_data (new_buffer 1) ''abc'' = Inr b' \<and> length (buf b') = 11"
proof -
  obtain b' where b': "append_data (new_buffer 1) ''abc'' = Inr b'"
    using append_data_spec [of "new_buffer 1" "''abc''"] by auto
  from append_storage [OF buf_wf_new b'] have "length (buf b') = 11"
    by (simp add: new_buffer_def kPrepend_def)
       (simp add: writeableBytes_def)
  with b' show ?thesis by blast
qed

text \<open>
  A 32-bit length written in front of the readable bytes with \<open>prependInt32\<close> is read
  back by \<open>readInt32\<close> with its value, and the bytes behind it are untouched.
\<close>

theorem prependInt32_readInt32:
  assumes "buf_wf b" and "4 \<le> prependableBytes b"
  shows "\<exists>b1 b2. prependInt32 b x = Inr b1 \<and> readInt32 b1 = Inr (x, b2)
           \<and> buf_wf b2 \<and> contents b2 = contents b"
proof -
  obtain b1 where b1: "prependInt32 b x = Inr b1" "buf_wf b1"
      "contents b1 = be_bytes 4 (unat x) @ contents b"
    using prepend_data_spec [of b "be_bytes 4 (unat x)"] assms by (auto simp: prependInt32_def)
  with readInt32_spec [OF b1(2,3)] show ?thesis by auto
qed

lemma prependInt32_readInt32_witness:
  "\<exists>b1 b2. prependInt32 (new_buffer 0) 258 = Inr b1 \<and> readInt32 b1 = Inr (258, b2)
     \<and> buf_wf b2 \<and> contents b2 = []"
  using prependInt32_readInt32 [of "new_buffer 0" 258]
  by (simp add: prependableBytes_def) (simp add: new_buffer_def kPrepend_def)

text \<open>
  \<open>shrink\<close> keeps the buffer well-formed, and its bytes, exactly when the read index
  left by \<open>ensureWritableBytes\<close> is at most \<open>reserve + kInitSize\<close>; past that bound the
  vector is cut below the write index, because the bytes are not moved to the front.
\<close>

theorem shrink_keeps_iff:
  assumes "buf_wf b" and "ensureWritableBytes b (readableBytes b + reserve) = Inr b1"
    and "shrink b reserve = Inr b'"
  shows "(buf_wf b' \<longleftrightarrow> readerIndex b1 \<le> reserve + kInitSize)
     \<and> (readerIndex b1 \<le> reserve + kInitSize \<longrightarrow> contents b' = contents b)"
  using shrink_spec [OF assms(1,2)] assms(3) by auto

lemma shrink_keeps_iff_witness:
  "\<not> buf_wf (\<lparr>buf = replicate 1025 kNul, readerIndex = 2048, writerIndex = 2049\<rparr>)"
proof -
  define b where "b = \<lparr>buf = replicate 4096 kNul, readerIndex = 2048, writerIndex = 2049\<rparr>"
  define b' where "b' = \<lparr>buf = replicate 1025 kNul, readerIndex = 2048, writerIndex = 2049\<rparr>"
  have wf: "buf_wf b" by (simp add: b_def buf_wf_def kPrepend_def)
  have e: "ensureWritableBytes b (readableBytes b + 0) = Inr b"
    using wf by (simp add: ensureWritableBytes_def) (simp add: b_def)
  have s: "shrink b 0 = Inr b'"
    using e wf by (simp add: shrink_def) (simp add: b_def b'_def vec_resize_def kInitSize_def)
  show ?thesis
    using shrink_keeps_iff [OF wf e s] by (simp add: b_def b'_def kInitSize_def)
qed

text \<open>
  \<open>unwrite\<close> leaves a well-formed buffer exactly when it takes back no more bytes than
  are readable. Its assert compares with the writeable bytes instead, so it lets a
  larger length through and the write index falls below the read index.
\<close>

theorem unwrite_keeps_iff:
  assumes "buf_wf b" and "unwrite b n = Inr b'" and "length (buf b) < 2 ^ 63"
  shows "buf_wf b' \<longleftrightarrow> n \<le> length (contents b)"
  using assms by (rule unwrite_wf_iff)

lemma unwrite_keeps_iff_witness:
  "\<exists>b'. unwrite (new_buffer 2) 1 = Inr b' \<and> \<not> buf_wf b'"
proof -
  have w: "writeableBytes (new_buffer 2) = 2" by (simp add: writeableBytes_def new_buffer_def)
  then obtain b' where b': "unwrite (new_buffer 2) 1 = Inr b'"
    by (simp add: unwrite_def)
  have l: "length (buf (new_buffer 2)) < 2 ^ 63" by (simp add: new_buffer_def kPrepend_def)
  from unwrite_keeps_iff [OF buf_wf_new b' l] b' show ?thesis by auto
qed

text \<open>
  \<open>findCRLF\<close> returns the first line end of the readable bytes: at the index found the
  bytes are CR LF, inside the readable range, and no earlier readable position has them;
  when it returns null no position has them.
\<close>

theorem findCRLF_first:
  assumes "buf_wf b"
  shows "(findCRLF b = Some i \<longrightarrow>
            peek b \<le> i \<and> i + 2 \<le> beginWrite b \<and> slice i (i + 2) (buf b) = kCRLF
            \<and> (\<forall>j. i < peek b + j \<or> j = i - peek b \<or> take 2 (drop j (contents b)) \<noteq> kCRLF))
         \<and> (findCRLF b = None \<longrightarrow> (\<forall>j. take 2 (drop j (contents b)) \<noteq> kCRLF))"
proof -
  note wf = buf_wfD [OF assms]
  have two: "length kCRLF = 2" by (simp add: kCRLF_def)
  have none: "take 2 (drop j (contents b)) \<noteq> kCRLF" if "findCRLF b = None" for j
  proof -
    have "take (length kCRLF) (drop j (contents b)) \<noteq> kCRLF \<or> length (contents b) < j"
      using that by (intro std_search_None) (simp add: findCRLF_def)
    then show ?thesis by (auto simp: two) (simp add: kCRLF_def)
  qed
  have some: "peek b \<le> i \<and> i + 2 \<le> beginWrite b \<and> slice i (i + 2) (buf b) = kCRLF
      \<and> (\<forall>j. i < peek b + j \<or> j = i - peek b \<or> take 2 (drop j (contents b)) \<noteq> kCRLF)"
    if f: "findCRLF b = Some i"
  proof -
    obtain k where k: "std_search kCRLF (contents b) = Some k" "i = peek b + k"
      using f by (auto simp: findCRLF_def)
    note S = std_search_Some [OF k(1), unfolded two]
    have "length (take 2 (drop k (contents b))) = 2" using S two by metis
    then have k2: "k + 2 \<le> length (contents b)" by (simp add: min_def split: if_splits)
    then have in_range: "readerIndex b + (k + 2) \<le> writerIndex b" using assms wf by simp
    have "drop k (take (k + 2) (contents b)) = slice (readerIndex b + k) (readerIndex b + k + 2) (buf b)"
      using in_range take_slice [of "readerIndex b" "k + 2" "writerIndex b" "buf b"]
        slice_drop [of "readerIndex b" k "readerIndex b + (k + 2)" "buf b"]
      by (simp add: contents_def add.assoc)
    then have "slice i (i + 2) (buf b) = kCRLF"
      using S by (simp add: k(2) peek_def drop_take)
    moreover have "j < k \<Longrightarrow> take 2 (drop j (contents b)) \<noteq> kCRLF" for j
      using S by blast
    ultimately show ?thesis
      using in_range k(2) by (auto simp: peek_def beginWrite_def)
  qed
  show ?thesis using none some by blast
qed

lemma findCRLF_first_witness:
  "buf_wf \<lparr>buf = ''01234567ab'' @ kCRLF, readerIndex = 8, writerIndex = 12\<rparr>
   \<and> findCRLF \<lparr>buf = ''01234567ab'' @ kCRLF, readerIndex = 8, writerIndex = 12\<rparr> = Some 10
   \<and> slice 10 12 (''01234567ab'' @ kCRLF) = kCRLF"
proof -
  define b where "b = \<lparr>buf = ''01234567ab'' @ kCRLF, readerIndex = 8, writerIndex = 12\<rparr>"
  have wf: "buf_wf b" by (simp add: b_def buf_wf_def kPrepend_def kCRLF_def)
  have f: "findCRLF b = Some 10"
    by (simp add: findCRLF_def b_def contents_def slice_def kCRLF_def peek_def)
  show ?thesis using findCRLF_first [OF wf, of 10] f wf by (simp add: b_def)
qed

end
