(* ===== verification/HttpMessage.thy ===== *)
theory HttpMessage
  imports HttpGrammar Buffer "HOL-Library.Char_ord" "HOL-Library.List_Lexorder"
begin

text \<open>
  \<open>http/HttpRequest.h\<close>, \<open>http/HttpParser.cpp\<close>, \<open>http/HttpResponse.h\<close>, \<open>http/HttpResponse.cpp\<close>
  and the request handler \<open>message\<close> of \<open>util/Init.cpp\<close>: the request object that the parser's
  callbacks fill, the parser object that a connection keeps, and the response with its
  text. \<open>boost::lexical_cast\<close> is a parameter (\<open>lc\<close>, \<open>None\<close> where it throws); opening the
  file of a response and the icon compiled into the program are parameters too.
\<close>

section \<open>Requests\<close>

datatype http_method = KInvalid | KGet | KHead | KPost

record request =
  rmethod :: http_method
  rversion :: nat
  rpath :: bytes
  rquery :: bytes
  rbody :: bytes
  rheaders :: "bytes \<rightharpoonup> bytes"

definition new_request :: request where
  "new_request = \<lparr>rmethod = KInvalid, rversion = 0, rpath = [], rquery = [], rbody = [],
     rheaders = Map.empty\<rparr>"

text \<open>
  \<open>strncmp(start, lit, n) == 0\<close>, where \<open>s\<close> is the memory from \<open>start\<close> on and the literal ends
  with a NUL.
\<close>

fun strncmp_eq :: "nat \<Rightarrow> bytes \<Rightarrow> bytes \<Rightarrow> bool" where
  "strncmp_eq 0 s lit = True"
| "strncmp_eq (Suc n) s lit =
     (let a = (case s of [] \<Rightarrow> kNul | c # _ \<Rightarrow> c); b = (case lit of [] \<Rightarrow> kNul | c # _ \<Rightarrow> c)
      in if a \<noteq> b then False else if a = kNul then True else strncmp_eq n (tl s) (tl lit))"

definition setMethod :: "bytes \<Rightarrow> nat \<Rightarrow> request \<Rightarrow> fault + (bool \<times> request)" where
  "setMethod start len req =
     (if rmethod req \<noteq> KInvalid then Inl Assert_failed
      else
        (let m = (if strncmp_eq len start ''GET'' then KGet
                  else if strncmp_eq len start ''HEAD'' then KHead
                  else if strncmp_eq len start ''POST'' then KPost
                  else KInvalid)
         in Inr (m \<noteq> KInvalid, req\<lparr>rmethod := m\<rparr>)))"

definition setVersion :: "bytes \<Rightarrow> nat \<Rightarrow> request \<Rightarrow> fault + (bool \<times> request)" where
  "setVersion start len req =
     (if rversion req \<noteq> 0 then Inl Assert_failed
      else
        (let v = (if strncmp_eq len start ''HTTP/1.1'' then 0x11
                  else if strncmp_eq len start ''HTTP/1.0'' then 0x10
                  else 0)
         in Inr (v \<noteq> 0, req\<lparr>rversion := v\<rparr>)))"

fun methodString :: "http_method \<Rightarrow> bytes" where
  "methodString KGet = ''GET''"
| "methodString KHead = ''HEAD''"
| "methodString KPost = ''POST''"
| "methodString KInvalid = ''UNKNOWN''"

definition setPath :: "bytes \<Rightarrow> request \<Rightarrow> request" where
  "setPath s req = req\<lparr>rpath := s\<rparr>"

definition setQuery :: "bytes \<Rightarrow> request \<Rightarrow> request" where
  "setQuery s req = req\<lparr>rquery := s\<rparr>"

definition addBody :: "bytes \<Rightarrow> request \<Rightarrow> request" where
  "addBody s req = req\<lparr>rbody := rbody req @ s\<rparr>"

text \<open>A string built from \<open>data()\<close> ends at the first NUL; \<open>insert\<close> keeps an entry that is there.\<close>

definition setHeader :: "bytes \<Rightarrow> bytes \<Rightarrow> request \<Rightarrow> request" where
  "setHeader key value req =
     (if rheaders req (c_str key) = None
      then req\<lparr>rheaders := (rheaders req)(c_str key \<mapsto> c_str value)\<rparr> else req)"

definition getHeader :: "(bytes \<Rightarrow> 'a option) \<Rightarrow> bytes \<Rightarrow> 'a \<Rightarrow> request \<Rightarrow> 'a" where
  "getHeader lc key def req =
     (case rheaders req key of
        None \<Rightarrow> def
      | Some value \<Rightarrow> (case lc value of None \<Rightarrow> def | Some x \<Rightarrow> x))"

section \<open>The parser object\<close>

record request_parser =
  hp :: http_parser
  req :: request
  perror :: int

text \<open>
  The constructor initialises the parser and installs the callbacks; the members
  \<open>query_start\<close> and \<open>uri_relaxed\<close> are never given a value, so they are those of \<open>raw\<close>, the
  memory the object is made in.
\<close>

definition new_request_parser :: "http_parser \<Rightarrow> request_parser" where
  "new_request_parser raw =
     \<lparr>hp = (http_parser_init raw)\<lparr>hooks := [HookMethod, HookUri, HookFragment, HookPath, HookQuery,
              HookVersion, HookHeaderDone, HookField], emitted := []\<rparr>,
      req = new_request, perror = 0\<rparr>"

text \<open>A callback that makes a string of its range; one that is not in the input is a fault.\<close>

definition range_at :: "bytes \<Rightarrow> nat \<Rightarrow> nat \<Rightarrow> fault + bytes" where
  "range_at buffer at len =
     (if at + len \<le> length buffer then Inr (piece buffer at len) else Inl Out_of_range)"

definition onRequestMethod :: "bytes \<Rightarrow> nat \<Rightarrow> nat \<Rightarrow> request_parser \<Rightarrow> fault + request_parser" where
  "onRequestMethod buffer at len rp =
     ebind (setMethod (drop at buffer) len (req rp)) (\<lambda>(flag, r).
       Inr (rp\<lparr>req := r, perror := (if \<not> flag then 1000 else perror rp)\<rparr>))"

definition onRequestPath :: "bytes \<Rightarrow> nat \<Rightarrow> nat \<Rightarrow> request_parser \<Rightarrow> fault + request_parser" where
  "onRequestPath buffer at len rp =
     ebind (range_at buffer at len) (\<lambda>s. Inr (rp\<lparr>req := setPath s (req rp)\<rparr>))"

definition onRequestQuery :: "bytes \<Rightarrow> nat \<Rightarrow> nat \<Rightarrow> request_parser \<Rightarrow> fault + request_parser" where
  "onRequestQuery buffer at len rp =
     ebind (range_at buffer at len) (\<lambda>s. Inr (rp\<lparr>req := setQuery s (req rp)\<rparr>))"

definition onRequestVersion :: "bytes \<Rightarrow> nat \<Rightarrow> nat \<Rightarrow> request_parser \<Rightarrow> fault + request_parser" where
  "onRequestVersion buffer at len rp =
     ebind (setVersion (drop at buffer) len (req rp)) (\<lambda>(flag, r).
       Inr (rp\<lparr>req := r, perror := (if \<not> flag then 1001 else perror rp)\<rparr>))"

definition onRequestHttpField :: "bytes \<Rightarrow> nat \<Rightarrow> nat \<Rightarrow> nat \<Rightarrow> nat \<Rightarrow> request_parser
    \<Rightarrow> fault + request_parser" where
  "onRequestHttpField buffer field flen v vlen rp =
     (if flen = 0 then Inr rp
      else ebind (range_at buffer field flen) (\<lambda>key. ebind (range_at buffer v vlen) (\<lambda>value.
        Inr (rp\<lparr>req := setHeader key value (req rp)\<rparr>))))"

text \<open>The callbacks in the order of the calls; those for URI, fragment and end of header are empty.\<close>

fun on_event :: "bytes \<Rightarrow> http_event \<Rightarrow> request_parser \<Rightarrow> fault + request_parser" where
  "on_event buffer (Element HookMethod at len) rp = onRequestMethod buffer at len rp"
| "on_event buffer (Element HookPath at len) rp = onRequestPath buffer at len rp"
| "on_event buffer (Element HookQuery at len) rp = onRequestQuery buffer at len rp"
| "on_event buffer (Element HookVersion at len) rp = onRequestVersion buffer at len rp"
| "on_event buffer (Element HookUri at len) rp = Inr rp"
| "on_event buffer (Element HookFragment at len) rp = Inr rp"
| "on_event buffer (Element HookHeaderDone at len) rp = Inr rp"
| "on_event buffer (Element HookField at len) rp = Inr rp"
| "on_event buffer (FieldEvent f flen v vlen) rp = onRequestHttpField buffer f flen v vlen rp"

fun on_events :: "bytes \<Rightarrow> http_event list \<Rightarrow> request_parser \<Rightarrow> fault + request_parser" where
  "on_events buffer [] rp = Inr rp"
| "on_events buffer (e # es) rp = ebind (on_event buffer e rp) (on_events buffer es)"

definition rp_isFinished :: "request_parser \<Rightarrow> int" where
  "rp_isFinished rp = http_parser_finish (hp rp)"

definition rp_hasError :: "request_parser \<Rightarrow> bool" where
  "rp_hasError rp \<longleftrightarrow> perror rp \<noteq> 0 \<or> http_parser_has_error (hp rp)"

definition rp_execute :: "request_parser \<Rightarrow> buffer \<Rightarrow> fault + (nat \<times> request_parser \<times> buffer)" where
  "rp_execute rp data =
     (if rp_isFinished rp = 0 then
        ebind (http_parser_execute ((hp rp)\<lparr>emitted := []\<rparr>) (contents data) 0) (\<lambda>(n, m).
        ebind (on_events (contents data) (emitted m) (rp\<lparr>hp := m\<rparr>)) (\<lambda>rp'.
        ebind (retrieveUntil data (peek data + n)) (\<lambda>data'. Inr (n, rp', data'))))
      else Inr (0, rp, data))"

definition rp_reset :: "request_parser \<Rightarrow> request_parser" where
  "rp_reset rp = rp\<lparr>hp := http_parser_init (hp rp), req := new_request\<rparr>"

definition getContentLength :: "(bytes \<Rightarrow> nat option) \<Rightarrow> request_parser \<Rightarrow> nat" where
  "getContentLength lc rp = getHeader lc ''Content-Length'' 0 (req rp)"

section \<open>Responses\<close>

record 'f response =
  rfile :: "'f option" \<comment> \<open>\<open>file_\<close>\<close>
  sheaders :: "(bytes \<times> bytes) list" \<comment> \<open>the \<open>std::map\<close> in the order of its keys\<close>
  statusCode :: nat
  statusMessage :: bytes
  closeConnection :: bool
  sbody :: bytes

definition new_response :: "'f response" where
  "new_response = \<lparr>rfile = None, sheaders = [], statusCode = 0, statusMessage = [],
     closeConnection = False, sbody = []\<rparr>"

fun map_insert :: "'k :: linorder \<Rightarrow> 'v \<Rightarrow> ('k \<times> 'v) list \<Rightarrow> ('k \<times> 'v) list" where
  "map_insert k v [] = [(k, v)]"
| "map_insert k v ((k', v') # xs) =
     (if k < k' then (k, v) # (k', v') # xs
      else if k = k' then (k', v') # xs
      else (k', v') # map_insert k v xs)"

definition setClose :: "bytes \<Rightarrow> 'f response \<Rightarrow> 'f response" where
  "setClose connection r = r\<lparr>closeConnection := connection = ''close'' \<or> connection = []\<rparr>"

definition setStatus :: "nat \<Rightarrow> bytes \<Rightarrow> 'f response \<Rightarrow> 'f response" where
  "setStatus code msg r = r\<lparr>statusCode := code, statusMessage := msg\<rparr>"

definition addHeader :: "bytes \<Rightarrow> bytes \<Rightarrow> 'f response \<Rightarrow> 'f response" where
  "addHeader key value r = r\<lparr>sheaders := map_insert (c_str key) (c_str value) (sheaders r)\<rparr>"

definition setContentType :: "bytes \<Rightarrow> 'f response \<Rightarrow> 'f response" where
  "setContentType t r = addHeader ''Content-Type'' t r"

text \<open>The decimal text of a number, as \<open>%d\<close> and \<open>%zd\<close> print it, and \<open>snprintf\<close> into 32 bytes.\<close>

fun decimal :: "nat \<Rightarrow> bytes" where
  "decimal n = (if n < 10 then [char_of (48 + n)] else decimal (n div 10) @ [char_of (48 + n mod 10)])"

declare decimal.simps [simp del]

definition snprintf32 :: "bytes \<Rightarrow> bytes" where
  "snprintf32 s = take 31 s"

fun append_headers :: "(bytes \<times> bytes) list \<Rightarrow> buffer \<Rightarrow> fault + buffer" where
  "append_headers [] b = Inr b"
| "append_headers ((k, v) # hs) b =
     ebind (append_data b k) (\<lambda>b. ebind (append_cstr b '': '') (\<lambda>b.
     ebind (append_data b v) (\<lambda>b. ebind (append_cstr b crlf) (append_headers hs))))"

text \<open>\<open>fsize\<close> is \<open>getSendLen\<close> of the file.\<close>

definition appendToBuffer :: "('f \<Rightarrow> nat) \<Rightarrow> 'f response \<Rightarrow> buffer \<Rightarrow> fault + buffer" where
  "appendToBuffer fsize r b =
     ebind (append_cstr b (snprintf32 (''HTTP/1.1 '' @ decimal (statusCode r) @ '' ''))) (\<lambda>b.
     ebind (append_data b (statusMessage r)) (\<lambda>b.
     ebind (append_cstr b crlf) (\<lambda>b.
     ebind
       (if closeConnection r then append_cstr b (''Connection: close'' @ crlf)
        else
          (let buf = (case rfile r of
                 None \<Rightarrow> snprintf32 (''Content-Length: '' @ decimal (length (sbody r)) @ crlf)
               | Some f \<Rightarrow> snprintf32 (''Content-Length: '' @ decimal (length (sbody r) + fsize f) @ crlf))
           in ebind (append_cstr b buf) (\<lambda>b. append_cstr b (''Connection: Keep-Alive'' @ crlf)))) (\<lambda>b.
     ebind (append_headers (sheaders r) b) (\<lambda>b.
     ebind (append_cstr b crlf) (\<lambda>b. append_data b (sbody r)))))))"

text \<open>
  The handler \<open>message\<close> of \<open>util/Init.cpp\<close>. \<open>favicon\<close> is the compiled-in icon, \<open>open_file\<close>
  makes the \<open>SendFileUtil\<close> of a file name.
\<close>

definition message :: "bytes \<Rightarrow> (bytes \<Rightarrow> 'f) \<Rightarrow> request \<Rightarrow> 'f response \<Rightarrow> 'f response" where
  "message favicon open_file rq r =
     (if rpath rq = ''/'' then
        (addHeader ''Server'' ''ssxrver'' (setContentType ''text/plain'' (setStatus 200 ''OK'' r)))
          \<lparr>sbody := ''Hello ssxrver!'' @ [CHR 0x0A]\<rparr>
      else if rpath rq = ''/html'' then
        (addHeader ''Server'' ''ssxrver'' (setContentType ''text/html'' (setStatus 200 ''OK'' r)))
          \<lparr>sbody := ''<html><head_><title>Fast HttpServer</title></head_>''
                    @ ''<body><h1>Hello html</h1></body></html>''\<rparr>
      else if rpath rq = ''/index.html'' then
        (addHeader ''Server'' ''ssxrver'' (setContentType ''text/plain'' (setStatus 200 ''OK'' r)))
          \<lparr>rfile := Some (open_file ''./html/index.html'')\<rparr>
      else if rpath rq = ''/favicon.ico'' then
        (setContentType ''image/png'' (setStatus 200 ''OK'' r))\<lparr>sbody := favicon\<rparr>
      else (setStatus 404 ''Not Found'' r)\<lparr>closeConnection := True\<rparr>)"

definition defaultHttpCallback :: "request \<Rightarrow> 'f response \<Rightarrow> 'f response" where
  "defaultHttpCallback rq r = (setStatus 404 ''Not Found'' r)\<lparr>closeConnection := True\<rparr>"

section \<open>The text of a response\<close>

definition framing_lines :: "('f \<Rightarrow> nat) \<Rightarrow> 'f response \<Rightarrow> bytes" where
  "framing_lines fsize r =
     (if closeConnection r then ''Connection: close'' @ crlf
      else snprintf32 (''Content-Length: ''
             @ decimal (length (sbody r) + (case rfile r of None \<Rightarrow> 0 | Some f \<Rightarrow> fsize f)) @ crlf)
           @ ''Connection: Keep-Alive'' @ crlf)"

definition response_text :: "('f \<Rightarrow> nat) \<Rightarrow> 'f response \<Rightarrow> bytes" where
  "response_text fsize r =
     snprintf32 (''HTTP/1.1 '' @ decimal (statusCode r) @ '' '') @ statusMessage r @ crlf
     @ framing_lines fsize r @ concat (map header_text (sheaders r)) @ crlf @ sbody r"

lemma no_nul_crlf [simp]: "no_nul crlf"
  by (simp add: crlf_def kNul_def)

lemma no_nul_decimal [simp]: "no_nul (decimal n)"
proof (induction n rule: decimal.induct)
  case (1 n)
  have "char_of (48 + k) \<noteq> kNul" if "k < 10" for k :: nat
  proof -
    have "of_char (char_of (48 + k) :: char) = 48 + k" using that by simp
    moreover have "of_char kNul = (0 :: nat)" by (simp add: kNul_def)
    ultimately show ?thesis by (metis add_is_0 zero_neq_numeral)
  qed
  with 1 show ?case by (subst decimal.simps) auto
qed

lemma append_cstr_spec:
  assumes "buf_wf b" and "no_nul s"
  shows "\<exists>b'. append_cstr b s = Inr b' \<and> buf_wf b' \<and> contents b' = contents b @ s"
proof -
  have tw: "takeWhile (\<lambda>c. c \<noteq> kNul) s = s" using no_nul_c_str [OF assms(2)] unfolding c_str_def .
  show ?thesis unfolding append_cstr_def tw by (rule buffer_queue.put_ok [OF assms(1)])
qed

lemma append_headers_spec:
  "buf_wf b \<Longrightarrow> \<exists>b'. append_headers hs b = Inr b' \<and> buf_wf b'
     \<and> contents b' = contents b @ concat (map header_text hs)"
proof (induction hs b rule: append_headers.induct)
  case (2 k v hs b)
  obtain b1 where 1: "append_data b k = Inr b1" "buf_wf b1" "contents b1 = contents b @ k"
    using buffer_queue.put_ok [OF 2(2)] by blast
  obtain b2 where 2: "append_cstr b1 '': '' = Inr b2" "buf_wf b2" "contents b2 = contents b1 @ '': ''"
    using append_cstr_spec [OF 1(2), of "'': ''"] by (auto simp: kNul_def)
  obtain b3 where 3: "append_data b2 v = Inr b3" "buf_wf b3" "contents b3 = contents b2 @ v"
    using buffer_queue.put_ok [OF 2(2)] by blast
  obtain b4 where 4: "append_cstr b3 crlf = Inr b4" "buf_wf b4" "contents b4 = contents b3 @ crlf"
    using append_cstr_spec [OF 3(2), of crlf] by auto
  from "2.IH" [OF 4(2)] 1 2 3 4 show ?case by (auto simp: header_text_def)
qed simp

lemma framing_spec:
  assumes "buf_wf b"
  shows "\<exists>b'. (if closeConnection r then append_cstr b (''Connection: close'' @ crlf)
        else
          (let buf = (case rfile r of
                 None \<Rightarrow> snprintf32 (''Content-Length: '' @ decimal (length (sbody r)) @ crlf)
               | Some f \<Rightarrow> snprintf32 (''Content-Length: '' @ decimal (length (sbody r) + fsize f) @ crlf))
           in ebind (append_cstr b buf) (\<lambda>b. append_cstr b (''Connection: Keep-Alive'' @ crlf)))) = Inr b'
     \<and> buf_wf b' \<and> contents b' = contents b @ framing_lines fsize r"
proof (cases "closeConnection r")
  case True
  then show ?thesis
    using append_cstr_spec [OF assms, of "''Connection: close'' @ crlf"]
    by (simp add: framing_lines_def kNul_def)
next
  case False
  define n where "n = length (sbody r) + (case rfile r of None \<Rightarrow> 0 | Some f \<Rightarrow> fsize f)"
  define line where "line = snprintf32 (''Content-Length: '' @ decimal n @ crlf)"
  have buf: "(case rfile r of
        None \<Rightarrow> snprintf32 (''Content-Length: '' @ decimal (length (sbody r)) @ crlf)
      | Some f \<Rightarrow> snprintf32 (''Content-Length: '' @ decimal (length (sbody r) + fsize f) @ crlf)) = line"
    by (simp add: line_def n_def split: option.splits)
  have "no_nul line" unfolding line_def snprintf32_def by (rule no_nul_take) (simp add: kNul_def)
  then obtain b1 where 1: "append_cstr b line = Inr b1" "buf_wf b1" "contents b1 = contents b @ line"
    using append_cstr_spec [OF assms] by blast
  obtain b2 where "append_cstr b1 (''Connection: Keep-Alive'' @ crlf) = Inr b2" "buf_wf b2"
      "contents b2 = contents b1 @ ''Connection: Keep-Alive'' @ crlf"
    using append_cstr_spec [OF 1(2), of "''Connection: Keep-Alive'' @ crlf"] by (auto simp: kNul_def)
  with 1 False show ?thesis by (simp add: buf framing_lines_def line_def n_def)
qed

lemma appendToBuffer_spec:
  assumes "buf_wf b"
  shows "\<exists>b'. appendToBuffer fsize r b = Inr b' \<and> buf_wf b' \<and> contents b' = contents b @ response_text fsize r"
proof -
  have st: "no_nul (snprintf32 (''HTTP/1.1 '' @ decimal (statusCode r) @ '' ''))"
    unfolding snprintf32_def by (rule no_nul_take) (simp add: kNul_def)
  obtain b1 where 1: "append_cstr b (snprintf32 (''HTTP/1.1 '' @ decimal (statusCode r) @ '' '')) = Inr b1"
      "buf_wf b1" "contents b1 = contents b @ snprintf32 (''HTTP/1.1 '' @ decimal (statusCode r) @ '' '')"
    using append_cstr_spec [OF assms st] by blast
  obtain b2 where 2: "append_data b1 (statusMessage r) = Inr b2" "buf_wf b2"
      "contents b2 = contents b1 @ statusMessage r"
    using buffer_queue.put_ok [OF 1(2)] by blast
  obtain b3 where 3: "append_cstr b2 crlf = Inr b3" "buf_wf b3" "contents b3 = contents b2 @ crlf"
    using append_cstr_spec [OF 2(2), of crlf] by auto
  obtain b4 where 4: "(if closeConnection r then append_cstr b3 (''Connection: close'' @ crlf)
        else
          (let buf = (case rfile r of
                 None \<Rightarrow> snprintf32 (''Content-Length: '' @ decimal (length (sbody r)) @ crlf)
               | Some f \<Rightarrow> snprintf32 (''Content-Length: '' @ decimal (length (sbody r) + fsize f) @ crlf))
           in ebind (append_cstr b3 buf) (\<lambda>b. append_cstr b (''Connection: Keep-Alive'' @ crlf)))) = Inr b4"
      "buf_wf b4" "contents b4 = contents b3 @ framing_lines fsize r"
    using framing_spec [OF 3(2)] by blast
  obtain b5 where 5: "append_headers (sheaders r) b4 = Inr b5" "buf_wf b5"
      "contents b5 = contents b4 @ concat (map header_text (sheaders r))"
    using append_headers_spec [OF 4(2)] by blast
  obtain b6 where 6: "append_cstr b5 crlf = Inr b6" "buf_wf b6" "contents b6 = contents b5 @ crlf"
    using append_cstr_spec [OF 5(2), of crlf] by auto
  obtain b7 where 7: "append_data b6 (sbody r) = Inr b7" "buf_wf b7" "contents b7 = contents b6 @ sbody r"
    using buffer_queue.put_ok [OF 6(2)] by blast
  show ?thesis
    unfolding appendToBuffer_def 1(1) ebind_Inr 2(1) 3(1) 4(1) 5(1) 6(1) 7(1)
    using 1 2 3 4 5 6 7 by (simp add: response_text_def)
qed

section \<open>The callbacks on a parsed request\<close>

text \<open>A callback sees only its range: its effect is a function of the bytes it is given.\<close>

fun on_item :: "http_item \<Rightarrow> request_parser \<Rightarrow> fault + request_parser" where
  "on_item (Item HookMethod s) rp =
     ebind (setMethod s (length s) (req rp)) (\<lambda>(flag, r).
       Inr (rp\<lparr>req := r, perror := (if \<not> flag then 1000 else perror rp)\<rparr>))"
| "on_item (Item HookPath s) rp = Inr (rp\<lparr>req := setPath s (req rp)\<rparr>)"
| "on_item (Item HookQuery s) rp = Inr (rp\<lparr>req := setQuery s (req rp)\<rparr>)"
| "on_item (Item HookVersion s) rp =
     ebind (setVersion s (length s) (req rp)) (\<lambda>(flag, r).
       Inr (rp\<lparr>req := r, perror := (if \<not> flag then 1001 else perror rp)\<rparr>))"
| "on_item (FieldItem k v) rp = Inr (if k = [] then rp else rp\<lparr>req := setHeader k v (req rp)\<rparr>)"
| "on_item it rp = Inr rp"

fun on_items :: "http_item list \<Rightarrow> request_parser \<Rightarrow> fault + request_parser" where
  "on_items [] rp = Inr rp"
| "on_items (it # its) rp = ebind (on_item it rp) (on_items its)"

lemma on_items_append: "on_items (xs @ ys) rp = ebind (on_items xs rp) (on_items ys)"
proof (induction xs arbitrary: rp)
  case (Cons it xs)
  then show ?case by (cases "on_item it rp") simp_all
qed simp

lemma on_items_one: "on_items [it] rp = on_item it rp"
  by (cases "on_item it rp") simp_all

lemma strncmp_take: "n \<le> length s \<Longrightarrow> strncmp_eq n (take n s) lit = strncmp_eq n s lit"
proof (induction n arbitrary: s lit)
  case (Suc n)
  then show ?case by (cases s) (auto simp: Let_def)
qed simp

lemma piece_drop: "fits buffer at len \<Longrightarrow> piece buffer at len = take len (drop at buffer)
    \<and> length (piece buffer at len) = len \<and> len \<le> length (drop at buffer)"
  by (auto simp: fits_def piece_def slice_def)

lemma on_event_item:
  assumes "item buffer e = it" and "it \<noteq> Wild"
  shows "on_event buffer e rp = on_item it rp"
proof (cases e)
  case (Element h at len)
  then have f: "fits buffer at len" "it = Item h (piece buffer at len)"
    using assms by (auto split: if_splits)
  note P = piece_drop [OF f(1)]
  have "setMethod (drop at buffer) len r = setMethod (piece buffer at len) len r"
    and "setVersion (drop at buffer) len r = setVersion (piece buffer at len) len r" for r
    using P strncmp_take [of len "drop at buffer"] by (simp_all add: setMethod_def setVersion_def)
  then show ?thesis
    using Element f P
    by (cases h) (simp_all add: onRequestMethod_def onRequestVersion_def onRequestPath_def
        onRequestQuery_def range_at_def fits_def)
next
  case (FieldEvent f flen v vlen)
  then have "fits buffer f flen" "fits buffer v vlen"
      "it = FieldItem (piece buffer f flen) (piece buffer v vlen)"
    using assms by (auto split: if_splits)
  with FieldEvent piece_drop [of buffer f flen] show ?thesis
    by (auto simp: onRequestHttpField_def range_at_def fits_def)
qed

lemma on_events_items:
  "map (item buffer) es = its \<Longrightarrow> Wild \<notin> set its \<Longrightarrow> on_events buffer es rp = on_items its rp"
proof (induction es arbitrary: its rp)
  case (Cons e es)
  then have "on_event buffer e rp = on_item (item buffer e) rp" by (intro on_event_item) auto
  with Cons show ?case by (cases "on_item (item buffer e) rp") auto
qed simp

section \<open>The request object of a request\<close>

lemma strncmp_prefix:
  "no_nul s \<Longrightarrow> no_nul lit \<Longrightarrow> strncmp_eq (length s) s lit \<longleftrightarrow> take (length s) lit = s"
proof (induction s arbitrary: lit)
  case (Cons c s)
  then show ?case by (cases lit) auto
qed simp

definition prefix_of :: "bytes \<Rightarrow> bytes \<Rightarrow> bool" where
  "prefix_of s lit \<longleftrightarrow> take (length s) lit = s"

definition method_of :: "bytes \<Rightarrow> http_method" where
  "method_of s =
     (if prefix_of s ''GET'' then KGet
      else if prefix_of s ''HEAD'' then KHead
      else if prefix_of s ''POST'' then KPost
      else KInvalid)"

lemma setMethod_spec:
  assumes "no_nul s" and "rmethod r = KInvalid"
  shows "setMethod s (length s) r = Inr (method_of s \<noteq> KInvalid, r\<lparr>rmethod := method_of s\<rparr>)"
  using assms
  by (simp add: setMethod_def method_of_def prefix_of_def strncmp_prefix kNul_def Let_def)

lemma setVersion_spec:
  assumes "d = CHR ''0'' \<or> d = CHR ''1''" and "rversion r = 0"
  shows "setVersion (version_text d) 8 r
    = Inr (True, r\<lparr>rversion := (if d = CHR ''1'' then 0x11 else 0x10)\<rparr>)"
  using assms
  by (auto simp: setVersion_def version_text_def kNul_def eval_nat_numeral)

fun header_map :: "(bytes \<times> bytes) list \<Rightarrow> (bytes \<rightharpoonup> bytes) \<Rightarrow> (bytes \<rightharpoonup> bytes)" where
  "header_map [] m = m"
| "header_map ((k, v) # hs) m = header_map hs (if m k = None then m(k \<mapsto> v) else m)"

definition request_of :: "http_text \<Rightarrow> request" where
  "request_of t = \<lparr>rmethod = method_of (tmethod t), rversion = (if tminor t = CHR ''1'' then 0x11 else 0x10),
     rpath = tpath t, rquery = (case tquery t of None \<Rightarrow> [] | Some q \<Rightarrow> q), rbody = [],
     rheaders = header_map (theaders t) Map.empty\<rparr>"

lemma char_no_nul: "name_char c \<Longrightarrow> c \<noteq> kNul" "value_char c \<Longrightarrow> c \<noteq> kNul" "method_char c \<Longrightarrow> c \<noteq> kNul"
  by (auto simp: char_classes kNul_def schar_def)

lemma header_no_nul: "header_ok (k, v) \<Longrightarrow> no_nul k \<and> no_nul v"
  unfolding header_ok_def no_nul_def fst_conv snd_conv using char_no_nul by blast

lemma on_items_headers:
  "\<forall>h \<in> set hs. header_ok h \<Longrightarrow>
     on_items (map (\<lambda>h. FieldItem (fst h) (snd h)) hs) rp
       = Inr (rp\<lparr>req := (req rp)\<lparr>rheaders := header_map hs (rheaders (req rp))\<rparr>\<rparr>)"
proof (induction hs arbitrary: rp)
  case (Cons h hs)
  obtain k v where h: "h = (k, v)" by fastforce
  have "k \<noteq> []" "c_str k = k" "c_str v = v"
    using Cons.prems h header_no_nul [of k v] by (auto simp: header_ok_def no_nul_c_str)
  with Cons h show ?case by (simp add: setHeader_def)
qed simp

lemma on_items_request:
  assumes "text_ok t" and "req rp = new_request"
  shows "on_items (request_items t x) rp = Inr (rp\<lparr>req := request_of t,
     perror := (if method_of (tmethod t) = KInvalid then 1000 else perror rp)\<rparr>)"
proof -
  have nn: "no_nul (tmethod t)"
    using assms(1) char_no_nul(3) by (auto simp: text_ok_def no_nul_def)
  have d: "tminor t = CHR ''0'' \<or> tminor t = CHR ''1''" and hs: "\<forall>h \<in> set (theaders t). header_ok h"
    using assms(1) by (auto simp: text_ok_def)
  have v8: "length (version_text (tminor t)) = 8" by (simp add: version_text_def)
  define rp1 where "rp1 = rp\<lparr>req := new_request\<lparr>rmethod := method_of (tmethod t)\<rparr>,
     perror := (if method_of (tmethod t) = KInvalid then 1000 else perror rp)\<rparr>"
  have 1: "on_item (Item HookMethod (tmethod t)) rp = Inr rp1"
    using setMethod_spec [OF nn, of new_request] assms(2)
    by (simp add: rp1_def new_request_def)
  define rp2 where "rp2 = rp1\<lparr>req := (req rp1)\<lparr>rpath := tpath t,
      rquery := (case tquery t of None \<Rightarrow> [] | Some q \<Rightarrow> q)\<rparr>\<rparr>"
  have 2: "on_items (query_items (tpath t) (tquery t)) rp1 = Inr rp2"
    by (cases "tquery t") (simp_all add: setPath_def setQuery_def rp2_def rp1_def new_request_def)
  define rp3 where "rp3 = rp2\<lparr>req := (req rp2)\<lparr>rversion := (if tminor t = CHR ''1'' then 0x11 else 0x10)\<rparr>\<rparr>"
  have "rversion (req rp2) = 0" by (simp add: rp2_def rp1_def new_request_def)
  from setVersion_spec [OF d this]
  have 3: "on_item (Item HookVersion (version_text (tminor t))) rp2 = Inr rp3"
    by (simp add: v8 rp3_def)
  have 4: "on_items (map (\<lambda>h. FieldItem (fst h) (snd h)) (theaders t)) rp3
      = Inr (rp3\<lparr>req := (req rp3)\<lparr>rheaders := header_map (theaders t) Map.empty\<rparr>\<rparr>)"
    using on_items_headers [OF hs, of rp3] by (simp add: rp3_def rp2_def rp1_def new_request_def)
  show ?thesis
    unfolding request_items_def on_items_append on_items_one 1 2 3 4 ebind_Inr
    by (simp add: rp3_def rp2_def rp1_def request_of_def new_request_def)
qed

lemma request_items_tame: "Wild \<notin> set (request_items t x)"
  by (cases "tquery t") (auto simp: request_items_def)

text \<open>A parser object at the start of a request.\<close>

definition rp_ready :: "request_parser \<Rightarrow> bool" where
  "rp_ready rp \<longleftrightarrow> all_hooks (hp rp) \<and> pcs (hp rp) = 1 \<and> body_start (hp rp) = 0 \<and> req rp = new_request"

lemma new_request_parser_ready: "rp_ready (new_request_parser raw)"
proof -
  have "h \<in> set (hooks (hp (new_request_parser raw)))" for h
    by (cases h) (simp_all add: new_request_parser_def)
  then show ?thesis
    by (simp add: rp_ready_def all_hooks_def)
       (simp add: new_request_parser_def http_parser_init_def http_parser_start_def)
qed

lemma rp_execute_request:
  assumes "rp_ready rp" and "text_ok t" and "buf_wf b" and "contents b = request_text t @ x"
    and "length (contents b) < 2 ^ 31"
  shows "\<exists>rp' b'. rp_execute rp b = Inr (length (request_text t), rp', b') \<and> buf_wf b' \<and> contents b' = x
     \<and> req rp' = request_of t \<and> rp_isFinished rp' = 1 \<and> hooks (hp rp') = hooks (hp rp)
     \<and> perror rp' = (if method_of (tmethod t) = KInvalid then 1000 else perror rp)"
proof -
  define m where "m = (hp rp)\<lparr>emitted := []\<rparr>"
  have m: "all_hooks m" "pcs m = 1" "body_start m = 0" "items (contents b) m = []" "hooks m = hooks (hp rp)"
    using assms(1) by (simp_all add: m_def rp_ready_def all_hooks_def items_def)
  obtain m' where e: "http_parser_execute m (contents b) 0 = Inr (length (request_text t), m')"
      "http_parser_finish m' = 1" "items (contents b) m' = request_items t x" "hooks m' = hooks m"
    using execute_request [OF assms(2) m(1-3) assms(4,5)] m(4) by auto
  have ev: "on_events (contents b) (emitted m') (rp\<lparr>hp := m'\<rparr>) = Inr (rp\<lparr>hp := m', req := request_of t,
      perror := (if method_of (tmethod t) = KInvalid then 1000 else perror rp)\<rparr>)"
    using on_events_items [OF e(3) [unfolded items_def] request_items_tame] assms(1)
      on_items_request [OF assms(2), of "rp\<lparr>hp := m'\<rparr>" x] by (simp add: rp_ready_def)
  obtain b' where b': "retrieveUntil b (peek b + length (request_text t)) = Inr b'" "buf_wf b'"
      "contents b' = x"
    using retrieveUntil_spec [OF assms(3), of "length (request_text t)"] assms(4) by auto
  have "http_parser_finish (hp rp) = 0"
    using assms(1) by (simp add: http_parser_finish_def http_parser_has_error_def http_parser_error_def
        http_parser_is_finished_def http_first_final_def rp_ready_def)
  with e ev b' m(5) show ?thesis
    by (simp add: rp_execute_def rp_isFinished_def m_def [symmetric])
qed

section \<open>Properties\<close>

text \<open>
  C5: The request object is the request. A parser object at the start of a request, given a
  buffer with the text of a request and anything behind it, consumes exactly the text,
  reports the request complete, and its request object has the method, version, path,
  query and headers written there (of equal names the first); a method that is no beginning
  of GET, HEAD or POST sets the error 1000, and nothing else does.
\<close>

theorem request_received:
  assumes "rp_ready rp" and "text_ok t" and "buf_wf b" and "contents b = request_text t @ x"
    and "length (contents b) < 2 ^ 31"
  shows "\<exists>rp' b'. rp_execute rp b = Inr (length (request_text t), rp', b') \<and> contents b' = x
     \<and> req rp' = request_of t \<and> rp_isFinished rp' = 1
     \<and> perror rp' = (if method_of (tmethod t) = KInvalid then 1000 else perror rp)"
  using rp_execute_request [OF assms] by blast

definition text_buffer :: "bytes \<Rightarrow> buffer" where
  "text_buffer d = \<lparr>buf = replicate kPrepend kNul @ d, readerIndex = kPrepend, writerIndex = kPrepend + length d\<rparr>"

lemma text_buffer [simp]: "buf_wf (text_buffer d)" "contents (text_buffer d) = d"
  by (simp_all add: text_buffer_def buf_wf_def contents_def slice_def)

lemma request_received_witness:
  "\<exists>rp' b'. rp_execute (new_request_parser fresh_parser) (text_buffer (request_text sample_text @ ''GET''))
       = Inr (length (request_text sample_text), rp', b') \<and> contents b' = ''GET''
     \<and> rmethod (req rp') = KGet \<and> rquery (req rp') = ''x=1'' \<and> rheaders (req rp') ''Host'' = Some ''h''"
proof -
  have "length (request_text sample_text @ ''GET'') < 2 ^ 31"
    by (simp add: request_text_def sample_text_def header_text_def version_text_def crlf_def)
  moreover have "rmethod (request_of sample_text) = KGet" "rquery (request_of sample_text) = ''x=1''"
    "rheaders (request_of sample_text) ''Host'' = Some ''h''"
    by (simp_all add: request_of_def sample_text_def method_of_def prefix_of_def)
  ultimately show ?thesis
    using request_received [OF new_request_parser_ready sample_text_ok text_buffer(1), of "request_text sample_text @ ''GET''" "''GET''" fresh_parser]
    by force
qed

text \<open>
  Which methods are accepted: exactly the beginnings of the three names. \<open>strncmp\<close> with
  the length of the token accepts \<open>G\<close>, \<open>PO\<close> or \<open>HEA\<close> like the full name, and takes the
  first of GET, HEAD and POST that begins with the token.
\<close>

theorem setMethod_accepts:
  assumes "no_nul s" and "rmethod r = KInvalid"
  shows "\<exists>flag r'. setMethod s (length s) r = Inr (flag, r')
     \<and> flag = (prefix_of s ''GET'' \<or> prefix_of s ''HEAD'' \<or> prefix_of s ''POST'')
     \<and> (prefix_of s ''GET'' \<longrightarrow> rmethod r' = KGet)"
  using setMethod_spec [OF assms] by (auto simp: method_of_def split: if_splits)

lemma setMethod_accepts_witness:
  "\<exists>r'. setMethod ''PO'' (length ''PO'') new_request = Inr (True, r')"
proof -
  have "no_nul ''PO''" by (simp add: kNul_def)
  from setMethod_accepts [OF this, of new_request] show ?thesis
    by (auto simp: new_request_def prefix_of_def)
qed

text \<open>
  \<open>HttpResponse::appendToBuffer\<close> adds exactly the text of the response to any buffer,
  however small: status line, the lines that frame the body (close, or length and
  keep-alive), the header lines in the order of their names, a blank line and the body.
\<close>

theorem appendToBuffer_text:
  assumes "buf_wf b"
  shows "\<exists>b'. appendToBuffer fsize r b = Inr b' \<and> buf_wf b' \<and> contents b' = contents b @ response_text fsize r"
  using assms by (rule appendToBuffer_spec)

lemma appendToBuffer_text_witness:
  "\<exists>b'. appendToBuffer (\<lambda>_. 0) (defaultHttpCallback new_request (new_response :: unit response)) (new_buffer 0) = Inr b'
     \<and> contents b' = ''HTTP/1.1 404 Not Found'' @ crlf @ ''Connection: close'' @ crlf @ crlf"
proof -
  have "decimal 404 = ''404''"
  proof -
    have "char_of (48 + 4 :: nat) = CHR ''4''" "char_of (48 + 0 :: nat) = CHR ''0''" by code_simp+
    then show ?thesis by (simp add: decimal.simps)
  qed
  then show ?thesis
    using appendToBuffer_text [OF buf_wf_new, of "\<lambda>_. 0" "defaultHttpCallback new_request (new_response :: unit response)" 0]
    by (auto simp: response_text_def framing_lines_def defaultHttpCallback_def setStatus_def
        new_response_def snprintf32_def)
qed

end
