(* ===== verification/Poller.thy ===== *)
theory Poller
  imports Prelude
begin

unbundle bit_operations_syntax

text \<open>
  \<open>net/Channel.h\<close>, \<open>net/Channel.cpp\<close> and the channel part of \<open>net/Epoll.cpp\<close>: a channel
  holds the event mask it is interested in and its status in the poller, and every change
  of the mask is passed on as an \<open>epoll_ctl\<close> call. The calls made are kept as a history;
  the kernel is a parameter that says, from the history, whether a call succeeds. The
  lemmas show that the status of a channel and the kernel's interest set stay in step.
\<close>

section \<open>Event masks\<close>

type_synonym event_mask = "32 word"

definition EPOLLIN :: event_mask where "EPOLLIN = 1"
definition EPOLLPRI :: event_mask where "EPOLLPRI = 2"
definition EPOLLOUT :: event_mask where "EPOLLOUT = 4"
definition EPOLLERR :: event_mask where "EPOLLERR = 8"
definition EPOLLHUP :: event_mask where "EPOLLHUP = 16"
definition EPOLLET :: event_mask where "EPOLLET = 0x80000000"

definition kNoneEvent :: event_mask where "kNoneEvent = 0"
definition kReadEventLT :: event_mask where "kReadEventLT = EPOLLIN OR EPOLLPRI"
definition kReadEventET :: event_mask where "kReadEventET = EPOLLIN OR EPOLLPRI OR EPOLLET"
definition kWriteEvent :: event_mask where "kWriteEvent = EPOLLOUT"

lemmas event_defs = EPOLLIN_def EPOLLPRI_def EPOLLOUT_def EPOLLERR_def EPOLLHUP_def EPOLLET_def
  kNoneEvent_def kReadEventLT_def kReadEventET_def kWriteEvent_def

section \<open>Channels\<close>

text \<open>The four callbacks of a channel; \<open>callbacks\<close> is the set of those that are not empty.\<close>

datatype callback = CloseCb | ErrorCb | ReadCb | WriteCb

record channel =
  fd :: nat
  events :: event_mask
  revents :: event_mask
  status :: int
  eventHandling :: bool
  addedToLoop :: bool
  callbacks :: "callback list"

definition kNew :: int where "kNew = -1"
definition kAdded :: int where "kAdded = 1"
definition kDeleted :: int where "kDeleted = 2"

lemmas status_defs = kNew_def kAdded_def kDeleted_def

definition new_channel :: "nat \<Rightarrow> channel" where
  "new_channel f = \<lparr>fd = f, events = 0, revents = 0, status = -1,
     eventHandling = False, addedToLoop = False, callbacks = []\<rparr>"

definition setCallback :: "callback \<Rightarrow> channel \<Rightarrow> channel" where
  "setCallback cb ch = ch\<lparr>callbacks := List.insert cb (callbacks ch)\<rparr>"

definition channelReset :: "nat \<Rightarrow> channel \<Rightarrow> channel" where
  "channelReset socketId ch = ch\<lparr>fd := socketId, events := 0, revents := 0, status := -1,
     eventHandling := False, addedToLoop := False\<rparr>"

definition isNoneEvent :: "channel \<Rightarrow> bool" where
  "isNoneEvent ch \<longleftrightarrow> events ch = kNoneEvent"

definition isWriting :: "channel \<Rightarrow> bool" where
  "isWriting ch \<longleftrightarrow> events ch AND kWriteEvent \<noteq> 0"

definition isReading :: "channel \<Rightarrow> bool" where
  "isReading ch \<longleftrightarrow> events ch AND kReadEventLT \<noteq> 0"

definition setRevents :: "event_mask \<Rightarrow> channel \<Rightarrow> channel" where
  "setRevents r ch = ch\<lparr>revents := r\<rparr>"

text \<open>
  \<open>handleEvent\<close> runs the callbacks the returned events call for, in this order, and only
  those that are set. \<open>handleEvent\<close> takes the meaning of a callback as a parameter.
\<close>

definition dispatch :: "channel \<Rightarrow> callback list" where
  "dispatch ch =
     (let r = revents ch in
      filter (\<lambda>cb. cb \<in> set (callbacks ch))
       ((if r AND EPOLLHUP \<noteq> 0 \<and> r AND EPOLLIN = 0 then [CloseCb] else [])
        @ (if r AND EPOLLERR \<noteq> 0 then [ErrorCb] else [])
        @ (if r AND (EPOLLIN OR EPOLLPRI OR EPOLLHUP) \<noteq> 0 then [ReadCb] else [])
        @ (if r AND EPOLLOUT \<noteq> 0 then [WriteCb] else [])))"

fun run_callbacks :: "(callback \<Rightarrow> 's \<Rightarrow> fault + 's) \<Rightarrow> callback list \<Rightarrow> 's \<Rightarrow> fault + 's" where
  "run_callbacks h [] s = Inr s"
| "run_callbacks h (cb # cbs) s = ebind (h cb s) (run_callbacks h cbs)"

section \<open>The poller\<close>

datatype ep_op = CtlAdd | CtlMod | CtlDel

datatype ep_call = Ctl ep_op nat event_mask | CloseFd nat

type_synonym history = "(ep_call \<times> bool) list" \<comment> \<open>newest call first, with its success\<close>

type_synonym kernel = "history \<Rightarrow> ep_call \<Rightarrow> bool"

text \<open>
  The interest set of the kernel after a history: the mask a descriptor was last added or
  modified with, nothing after it was deleted or closed.
\<close>

fun interest :: "history \<Rightarrow> nat \<Rightarrow> event_mask option" where
  "interest [] f = None"
| "interest ((c, False) # h) f = interest h f"
| "interest ((Ctl CtlDel g e, True) # h) f = (if g = f then None else interest h f)"
| "interest ((Ctl CtlAdd g e, True) # h) f = (if g = f then Some e else interest h f)"
| "interest ((Ctl CtlMod g e, True) # h) f = (if g = f then Some e else interest h f)"
| "interest ((CloseFd g, True) # h) f = (if g = f then None else interest h f)"

text \<open>
  What the code relies on of \<open>epoll_ctl\<close>(2): adding a descriptor that is not in the set
  succeeds, and so does modifying or deleting one that is; the opposite calls fail
  (\<open>EEXIST\<close>, \<open>ENOENT\<close>). Closing an open descriptor succeeds. This is the case in which the
  kernel has the resources it needs: \<open>epoll_ctl\<close> may also fail with \<open>ENOMEM\<close> or \<open>ENOSPC\<close>, which
  \<open>ep_update\<close> treats like any other failure (it ends the program for an addition or a change,
  and is logged for a removal), and \<open>close\<close> with \<open>EINTR\<close> or \<open>EIO\<close>; a theorem that assumes the
  contract says nothing of a run with such a failure.
\<close>

definition epoll_contract :: "kernel \<Rightarrow> bool" where
  "epoll_contract k \<longleftrightarrow>
     (\<forall>h f e. k h (Ctl CtlAdd f e) = (interest h f = None)
            \<and> k h (Ctl CtlMod f e) = (interest h f \<noteq> None)
            \<and> k h (Ctl CtlDel f e) = (interest h f \<noteq> None)
            \<and> k h (CloseFd f))"

record poller =
  channels :: "nat \<rightharpoonup> nat" \<comment> \<open>\<open>channels_\<close>: descriptor to the channel registered for it\<close>
  connections :: "nat \<rightharpoonup> nat" \<comment> \<open>\<open>connections_\<close>: descriptor to connection; null is \<open>None\<close>\<close>
  connectionsPool :: "nat option list" \<comment> \<open>last element is \<open>back()\<close>\<close>
  calls :: history
  eventsSize :: nat

definition kInitEventSize :: nat where "kInitEventSize = 16"

definition new_poller :: poller where
  "new_poller = \<lparr>channels = Map.empty, connections = Map.empty, connectionsPool = [],
     calls = [], eventsSize = kInitEventSize\<rparr>"

definition ep_update :: "kernel \<Rightarrow> ep_op \<Rightarrow> channel \<Rightarrow> poller \<Rightarrow> fault + poller" where
  "ep_update k op ch p =
     (let c = Ctl op (fd ch) (events ch); ok = k (calls p) c;
          p' = p\<lparr>calls := (c, ok) # calls p\<rparr>
      in if ok then Inr p' else if op = CtlDel then Inr p' else Inl Fatal)"

definition ep_updateChannel :: "kernel \<Rightarrow> channel \<Rightarrow> poller \<Rightarrow> fault + (channel \<times> poller)" where
  "ep_updateChannel k ch p =
     (if status ch = kNew \<or> status ch = kDeleted then
        (let p1 = (if status ch = kNew then p\<lparr>channels := (channels p)(fd ch \<mapsto> fd ch)\<rparr> else p);
             ch1 = ch\<lparr>status := kAdded\<rparr>
         in ebind (ep_update k CtlAdd ch1 p1) (\<lambda>p2. Inr (ch1, p2)))
      else if isNoneEvent ch then
        ebind (ep_update k CtlDel ch p) (\<lambda>p2. Inr (ch\<lparr>status := kDeleted\<rparr>, p2))
      else ebind (ep_update k CtlMod ch p) (\<lambda>p2. Inr (ch, p2)))"

definition ep_removeChannel :: "kernel \<Rightarrow> channel \<Rightarrow> poller \<Rightarrow> fault + (channel \<times> poller)" where
  "ep_removeChannel k ch p =
     (let f = fd ch;
          p1 = p\<lparr>connectionsPool := connectionsPool p @ [connections p f],
                 connections := (connections p)(f := None)\<rparr>;
          p2 = p1\<lparr>calls := (CloseFd f, k (calls p1) (CloseFd f)) # calls p1\<rparr>
      in ebind (if status ch = kAdded then ep_update k CtlDel ch p2 else Inr p2)
           (\<lambda>p3. Inr (ch\<lparr>status := kNew\<rparr>, p3)))"

text \<open>The methods of \<open>Channel\<close> that go through the loop to the poller.\<close>

definition ch_update :: "kernel \<Rightarrow> channel \<Rightarrow> poller \<Rightarrow> fault + (channel \<times> poller)" where
  "ch_update k ch p = ep_updateChannel k (ch\<lparr>addedToLoop := True\<rparr>) p"

definition enableEvents :: "kernel \<Rightarrow> event_mask \<Rightarrow> channel \<Rightarrow> poller \<Rightarrow> fault + (channel \<times> poller)" where
  "enableEvents k ev ch p = ch_update k (ch\<lparr>events := events ch OR ev\<rparr>) p"

definition disableEvents :: "kernel \<Rightarrow> event_mask \<Rightarrow> channel \<Rightarrow> poller \<Rightarrow> fault + (channel \<times> poller)" where
  "disableEvents k ev ch p = ch_update k (ch\<lparr>events := events ch AND NOT ev\<rparr>) p"

definition disableAll :: "kernel \<Rightarrow> channel \<Rightarrow> poller \<Rightarrow> fault + (channel \<times> poller)" where
  "disableAll k ch p = ch_update k (ch\<lparr>events := kNoneEvent\<rparr>) p"

definition ch_remove :: "kernel \<Rightarrow> channel \<Rightarrow> poller \<Rightarrow> fault + (channel \<times> poller)" where
  "ch_remove k ch p =
     (if \<not> isNoneEvent ch then Inl Assert_failed
      else ep_removeChannel k (ch\<lparr>addedToLoop := False\<rparr>) p)"

text \<open>The destructor's asserts; the descriptor is closed once more.\<close>

definition ch_destroy :: "kernel \<Rightarrow> channel \<Rightarrow> poller \<Rightarrow> fault + poller" where
  "ch_destroy k ch p =
     (if eventHandling ch \<or> addedToLoop ch then Inl Assert_failed
      else Inr (p\<lparr>calls := (CloseFd (fd ch), k (calls p) (CloseFd (fd ch))) # calls p\<rparr>))"

section \<open>Waiting for events\<close>

text \<open>
  The outcome of \<open>epoll_wait\<close> is an argument: an \<open>errno\<close>, or the events of the ready
  channels, at most \<open>eventsSize\<close> many. The channels are kept in a map from descriptor
  to channel. The result lists the active channels in the order reported.
\<close>

fun fillActiveChannels :: "(nat \<times> event_mask) list \<Rightarrow> (nat \<Rightarrow> channel) \<Rightarrow> nat list
    \<Rightarrow> (nat \<Rightarrow> channel) \<times> nat list" where
  "fillActiveChannels [] chans active = (chans, active)"
| "fillActiveChannels ((f, ev) # evs) chans active =
     fillActiveChannels evs (chans(f := setRevents ev (chans f))) (active @ [f])"

definition ep_poll :: "nat + (nat \<times> event_mask) list \<Rightarrow> (nat \<Rightarrow> channel) \<Rightarrow> poller
    \<Rightarrow> (nat \<Rightarrow> channel) \<times> nat list \<times> poller" where
  "ep_poll r chans p =
     (case r of
        Inl e \<Rightarrow> (chans, [], p)
      | Inr evs \<Rightarrow>
          if 0 < length evs
          then (let (chans', active) = fillActiveChannels evs chans [];
                    p' = (if length evs = eventsSize p then p\<lparr>eventsSize := eventsSize p * 2\<rparr> else p)
                in (chans', active, p'))
          else (chans, [], p))"

section \<open>Channel and kernel stay in step\<close>

definition in_step :: "channel \<Rightarrow> poller \<Rightarrow> bool" where
  "in_step ch p \<longleftrightarrow>
     status ch \<in> {kNew, kAdded, kDeleted}
     \<and> interest (calls p) (fd ch) = (if status ch = kAdded then Some (events ch) else None)"

lemma contractD:
  assumes "epoll_contract k"
  shows "k h (Ctl CtlAdd f e) = (interest h f = None)"
    and "k h (Ctl CtlMod f e) = (interest h f \<noteq> None)"
    and "k h (Ctl CtlDel f e) = (interest h f \<noteq> None)"
    and "k h (CloseFd f)"
  using assms by (auto simp: epoll_contract_def)

text \<open>One update, whatever the new mask: it succeeds, keeps step and touches no other descriptor.\<close>

lemma ch_update_in_step:
  assumes "epoll_contract k" and "in_step ch p"
  shows "\<exists>ch' p'. ch_update k (ch\<lparr>events := ev\<rparr>) p = Inr (ch', p') \<and> in_step ch' p'
     \<and> events ch' = ev \<and> fd ch' = fd ch \<and> addedToLoop ch'
     \<and> connections p' = connections p \<and> connectionsPool p' = connectionsPool p
     \<and> callbacks ch' = callbacks ch \<and> revents ch' = revents ch
     \<and> (status ch' = kAdded \<longleftrightarrow> status ch \<noteq> kAdded \<or> ev \<noteq> 0)
     \<and> (\<forall>g. g \<noteq> fd ch \<longrightarrow> interest (calls p') g = interest (calls p) g)"
proof (cases "status ch = kAdded")
  case True
  then show ?thesis
    using assms by (simp add: ch_update_def ep_updateChannel_def ep_update_def in_step_def
        isNoneEvent_def kNoneEvent_def contractD status_defs)
next
  case False
  then show ?thesis
    using assms by (auto simp: ch_update_def ep_updateChannel_def ep_update_def in_step_def
        contractD status_defs Let_def)
qed

datatype chan_op = Enable event_mask | Disable event_mask | DisableAll

fun chan_step :: "kernel \<Rightarrow> chan_op \<Rightarrow> channel \<Rightarrow> poller \<Rightarrow> fault + (channel \<times> poller)" where
  "chan_step k (Enable ev) ch p = enableEvents k ev ch p"
| "chan_step k (Disable ev) ch p = disableEvents k ev ch p"
| "chan_step k DisableAll ch p = disableAll k ch p"

fun chan_mask :: "chan_op \<Rightarrow> event_mask \<Rightarrow> event_mask" where
  "chan_mask (Enable ev) m = m OR ev"
| "chan_mask (Disable ev) m = m AND NOT ev"
| "chan_mask DisableAll m = 0"

fun chan_run :: "kernel \<Rightarrow> chan_op list \<Rightarrow> channel \<Rightarrow> poller \<Rightarrow> fault + (channel \<times> poller)" where
  "chan_run k [] ch p = Inr (ch, p)"
| "chan_run k (op # ops) ch p = ebind (chan_step k op ch p) (\<lambda>(ch', p'). chan_run k ops ch' p')"

lemma chan_step_update: "chan_step k op ch p = ch_update k (ch\<lparr>events := chan_mask op (events ch)\<rparr>) p"
  by (cases op) (simp_all add: enableEvents_def disableEvents_def disableAll_def kNoneEvent_def)

lemma chan_step_in_step:
  assumes "epoll_contract k" and "in_step ch p"
  shows "\<exists>ch' p'. chan_step k op ch p = Inr (ch', p') \<and> in_step ch' p'
     \<and> events ch' = chan_mask op (events ch) \<and> fd ch' = fd ch \<and> addedToLoop ch'
     \<and> connections p' = connections p \<and> connectionsPool p' = connectionsPool p
     \<and> callbacks ch' = callbacks ch \<and> revents ch' = revents ch
     \<and> (status ch' = kAdded \<longleftrightarrow> status ch \<noteq> kAdded \<or> chan_mask op (events ch) \<noteq> 0)
     \<and> (\<forall>g. g \<noteq> fd ch \<longrightarrow> interest (calls p') g = interest (calls p) g)"
  unfolding chan_step_update by (rule ch_update_in_step [OF assms])

lemma chan_run_in_step:
  "epoll_contract k \<Longrightarrow> in_step ch p \<Longrightarrow>
     \<exists>ch' p'. chan_run k ops ch p = Inr (ch', p') \<and> in_step ch' p' \<and> fd ch' = fd ch
       \<and> events ch' = fold chan_mask ops (events ch)
       \<and> (\<forall>g. g \<noteq> fd ch \<longrightarrow> interest (calls p') g = interest (calls p) g)"
proof (induction ops arbitrary: ch p)
  case Nil
  then show ?case by simp
next
  case (Cons op ops)
  obtain ch1 p1 where 1: "chan_step k op ch p = Inr (ch1, p1)" "in_step ch1 p1"
      "events ch1 = chan_mask op (events ch)" "fd ch1 = fd ch"
      "\<forall>g. g \<noteq> fd ch \<longrightarrow> interest (calls p1) g = interest (calls p) g"
    using chan_step_in_step [OF Cons.prems, of op] by blast
  with Cons.IH [OF Cons.prems(1) 1(2)] show ?case by (auto simp: 1)
qed

text \<open>Removing a channel whose mask is empty.\<close>

lemma ch_remove_spec:
  assumes "epoll_contract k" and "in_step ch p" and "isNoneEvent ch"
  shows "\<exists>ch' p'. ch_remove k ch p = Inr (ch', p') \<and> status ch' = kNew \<and> \<not> addedToLoop ch'
     \<and> fd ch' = fd ch \<and> events ch' = 0 \<and> in_step ch' p'
     \<and> connections p' = (connections p)(fd ch := None)
     \<and> connectionsPool p' = connectionsPool p @ [connections p (fd ch)]
     \<and> calls p' = (if status ch = kAdded then [(Ctl CtlDel (fd ch) 0, False)] else [])
                   @ (CloseFd (fd ch), True) # calls p"
  using assms
  by (auto simp: ch_remove_def ep_removeChannel_def ep_update_def in_step_def isNoneEvent_def
      kNoneEvent_def contractD status_defs Let_def)

lemma ch_remove_assert: "events ch \<noteq> 0 \<Longrightarrow> ch_remove k ch p = Inl Assert_failed"
  by (simp add: ch_remove_def isNoneEvent_def kNoneEvent_def)

lemma new_channel_in_step: "interest (calls p) f = None \<Longrightarrow> in_step (new_channel f) p"
  by (simp add: in_step_def new_channel_def status_defs)

lemma fillActiveChannels_active:
  "snd (fillActiveChannels evs chans active) = active @ map fst evs"
  by (induction evs chans active rule: fillActiveChannels.induct) (simp_all del: fun_upd_apply)

lemma fillActiveChannels_other:
  "f \<notin> fst ` set evs \<Longrightarrow> fst (fillActiveChannels evs chans active) f = chans f"
  by (induction evs chans active rule: fillActiveChannels.induct) auto

lemma fillActiveChannels_revents:
  "distinct (map fst evs) \<Longrightarrow> (f, ev) \<in> set evs \<Longrightarrow>
     fst (fillActiveChannels evs chans active) f = setRevents ev (chans f)"
proof (induction evs chans active rule: fillActiveChannels.induct)
  case (2 g e evs chans active)
  show ?case
  proof (cases "(f, ev) = (g, e)")
    case True
    with "2.prems" show ?thesis by (simp add: fillActiveChannels_other)
  next
    case False
    with "2.prems" have "(f, ev) \<in> set evs" and "f \<noteq> g" by (auto simp: rev_image_eqI)
    with "2.IH" "2.prems"(1) show ?thesis by (simp del: fun_upd_apply) simp
  qed
qed simp

text \<open>A kernel that meets the contract, for the witnesses.\<close>

definition plain_kernel :: kernel where
  "plain_kernel h c =
     (case c of
        Ctl CtlAdd f e \<Rightarrow> interest h f = None
      | Ctl CtlMod f e \<Rightarrow> interest h f \<noteq> None
      | Ctl CtlDel f e \<Rightarrow> interest h f \<noteq> None
      | CloseFd f \<Rightarrow> True)"

lemma plain_kernel_contract: "epoll_contract plain_kernel"
  by (simp add: epoll_contract_def plain_kernel_def)

section \<open>Properties\<close>

text \<open>
  C23: Whatever sequence of \<open>enableEvents\<close>, \<open>disableEvents\<close> and \<open>disableAll\<close> a fresh
  channel goes through, no \<open>epoll_ctl\<close> call fails fatally, the kernel watches the descriptor
  exactly while the status is \<open>kAdded\<close> and always with the channel's own mask, and no
  other descriptor's registration changes.
\<close>

theorem channel_kernel_in_step:
  assumes "epoll_contract k" and "interest (calls p) f = None"
  shows "\<exists>ch' p'. chan_run k ops (new_channel f) p = Inr (ch', p')
     \<and> events ch' = fold chan_mask ops 0
     \<and> interest (calls p') f = (if status ch' = kAdded then Some (events ch') else None)
     \<and> (\<forall>g. g \<noteq> f \<longrightarrow> interest (calls p') g = interest (calls p) g)"
proof -
  obtain ch' p' where r: "chan_run k ops (new_channel f) p = Inr (ch', p')" "in_step ch' p'"
      "fd ch' = fd (new_channel f)" "events ch' = fold chan_mask ops (events (new_channel f))"
      "\<forall>g. g \<noteq> fd (new_channel f) \<longrightarrow> interest (calls p') g = interest (calls p) g"
    using chan_run_in_step [OF assms(1) new_channel_in_step [OF assms(2)]] by blast
  have "fd (new_channel f) = f" and "events (new_channel f) = 0"
    by (simp_all add: new_channel_def)
  with r show ?thesis
    by (intro exI [of _ ch'] exI [of _ p']) (simp add: in_step_def)
qed

lemma channel_kernel_in_step_witness:
  "\<exists>ch' p'. chan_run plain_kernel [Enable kReadEventLT, Enable kWriteEvent, Disable kWriteEvent]
       (new_channel 5) new_poller = Inr (ch', p') \<and> events ch' = 3"
  using channel_kernel_in_step [OF plain_kernel_contract, of new_poller 5
      "[Enable kReadEventLT, Enable kWriteEvent, Disable kWriteEvent]"]
  by (auto simp: new_poller_def event_defs)

text \<open>
  Removing a channel with an empty mask closes its descriptor and puts the connection
  held for it into the pool. When the channel is still registered the descriptor is
  closed first, so the \<open>EPOLL_CTL_DEL\<close> that follows always fails and is only logged;
  when it is not registered no \<open>epoll_ctl\<close> call is made. A non-empty mask fails the assert.
\<close>

theorem remove_closes_and_pools:
  assumes "epoll_contract k" and "in_step ch p"
  shows "if events ch = 0
     then \<exists>ch' p'. ch_remove k ch p = Inr (ch', p') \<and> status ch' = kNew
       \<and> connectionsPool p' = connectionsPool p @ [connections p (fd ch)]
       \<and> connections p' (fd ch) = None \<and> interest (calls p') (fd ch) = None
       \<and> calls p' = (if status ch = kAdded then [(Ctl CtlDel (fd ch) 0, False)] else [])
                     @ (CloseFd (fd ch), True) # calls p
     else ch_remove k ch p = Inl Assert_failed"
  using ch_remove_spec [OF assms] ch_remove_assert [of ch k p]
  by (auto simp: isNoneEvent_def kNoneEvent_def in_step_def status_defs)

lemma remove_closes_and_pools_witness:
  "\<exists>ch' p'. ch_remove plain_kernel (new_channel 5) new_poller = Inr (ch', p')
     \<and> calls p' = [(CloseFd 5, True)]"
  using remove_closes_and_pools [OF plain_kernel_contract new_channel_in_step, of new_poller 5]
  by (auto simp: new_poller_def new_channel_def status_defs)

text \<open>
  \<open>disableAll\<close> on a channel that was already taken out of the poller registers it
  again, with an empty mask: the update of a \<open>kDeleted\<close> channel is always an
  \<open>EPOLL_CTL_ADD\<close>, whatever its mask.
\<close>

theorem disableAll_readds:
  assumes "epoll_contract k" and "in_step ch p" and "status ch = kDeleted"
  shows "\<exists>ch' p'. disableAll k ch p = Inr (ch', p') \<and> status ch' = kAdded
     \<and> interest (calls p') (fd ch) = Some 0"
  using ch_update_in_step [OF assms(1,2), of 0] assms(3)
  by (auto simp: disableAll_def kNoneEvent_def status_defs in_step_def)

lemma disableAll_readds_witness:
  "\<exists>ch' p'. disableAll plain_kernel ((new_channel 5)\<lparr>status := kDeleted\<rparr>) new_poller = Inr (ch', p')
     \<and> status ch' = kAdded \<and> interest (calls p') 5 = Some 0"
  using disableAll_readds [OF plain_kernel_contract, of "(new_channel 5)\<lparr>status := kDeleted\<rparr>" new_poller]
  by (auto simp: in_step_def new_channel_def new_poller_def status_defs)

text \<open>
  The callbacks \<open>handleEvent\<close> runs: each at most once and in the order close, error,
  read, write. The close callback runs exactly for a hang-up without readable data; the
  read callback also runs for every hang-up, so a hang-up without data runs both.
\<close>

theorem dispatch_order:
  "sorted_wrt (\<lambda>a b. (a, b) \<in> {(CloseCb, ErrorCb), (CloseCb, ReadCb), (CloseCb, WriteCb),
       (ErrorCb, ReadCb), (ErrorCb, WriteCb), (ReadCb, WriteCb)}) (dispatch ch)
   \<and> (CloseCb \<in> set (dispatch ch) \<longleftrightarrow> CloseCb \<in> set (callbacks ch)
        \<and> revents ch AND EPOLLHUP \<noteq> 0 \<and> revents ch AND EPOLLIN = 0)
   \<and> (ErrorCb \<in> set (dispatch ch) \<longleftrightarrow> ErrorCb \<in> set (callbacks ch) \<and> revents ch AND EPOLLERR \<noteq> 0)
   \<and> (WriteCb \<in> set (dispatch ch) \<longleftrightarrow> WriteCb \<in> set (callbacks ch) \<and> revents ch AND EPOLLOUT \<noteq> 0)
   \<and> (ReadCb \<in> set (dispatch ch) \<longleftrightarrow> ReadCb \<in> set (callbacks ch)
        \<and> revents ch AND (EPOLLIN OR EPOLLPRI OR EPOLLHUP) \<noteq> 0)"
  by (auto simp: dispatch_def Let_def)

text \<open>
  A successful wait reports the ready channels in the kernel's order, each with the
  events the kernel returned for it, leaves all other channels alone, and doubles the
  event array exactly when it was filled.
\<close>

theorem poll_reports_ready:
  assumes "evs \<noteq> []" and "distinct (map fst evs)"
    and "ep_poll (Inr evs) chans p = (chans', active, p')"
  shows "active = map fst evs
     \<and> (\<forall>(f, ev) \<in> set evs. chans' f = setRevents ev (chans f))
     \<and> (\<forall>f. f \<notin> fst ` set evs \<longrightarrow> chans' f = chans f)
     \<and> eventsSize p' = (if length evs = eventsSize p then 2 * eventsSize p else eventsSize p)"
proof -
  have eq: "chans' = fst (fillActiveChannels evs chans [])"
      "active = snd (fillActiveChannels evs chans [])"
    and sz: "eventsSize p' = (if length evs = eventsSize p then 2 * eventsSize p else eventsSize p)"
    using assms by (auto simp: ep_poll_def Let_def split: prod.splits)
  show ?thesis
    unfolding eq sz using fillActiveChannels_active [of evs chans "[]"]
      fillActiveChannels_other [of _ evs chans "[]"]
      fillActiveChannels_revents [OF assms(2), of _ _ chans "[]"] by auto
qed

lemma poll_reports_ready_witness:
  "fst (snd (ep_poll (Inr [(7, EPOLLIN), (5, EPOLLOUT)]) new_channel new_poller)) = [7, 5]"
proof -
  obtain c a q where e: "ep_poll (Inr [(7, EPOLLIN), (5, EPOLLOUT)]) new_channel new_poller = (c, a, q)"
    by (metis prod_cases3)
  show ?thesis using poll_reports_ready [OF _ _ e] e by simp
qed

end
