(* ===== verification/TcpConnection.thy ===== *)
theory TcpConnection
  imports Buffer Poller
begin

unbundle bit_operations_syntax

text \<open>
  \<open>net/TcpConnection.cpp\<close> and the connection part of \<open>net/Epoll.cpp\<close>: one connection, its
  state machine, its two buffers, the file it may be sending, and the events its channel
  asks the poller for. The functions run on the loop's thread unless they take the flag
  \<open>inLoop\<close>, the outcome of \<open>isInLoopThread\<close>; what they hand to the loop is kept in
  \<open>pending\<close>. The outcomes of \<open>write\<close>, \<open>sendfile\<close> and \<open>readv\<close> are arguments, and \<open>wire\<close>
  collects the bytes the kernel took. The output path rests on the laws of \<open>byte_queue\<close>.
\<close>

section \<open>State\<close>

datatype conn_state = KDisconnected | KConnecting | KConnected | KDisconnecting

record send_file =
  inFd :: nat
  offset :: nat
  sendLen :: nat

text \<open>
  \<open>SendFileUtil\<close> and how \<open>open\<close> and \<open>fstat\<close> decide about it; \<open>None\<close> is a length that was never
  set. Sending needs a descriptor and a length.
\<close>

record file_object =
  inFd_id :: int
  file_offset :: nat
  file_length :: "nat option"
  file_err :: nat

definition new_file_object :: file_object where
  "new_file_object = \<lparr>inFd_id = - 1, file_offset = 0, file_length = Some 0, file_err = 0\<rparr>"

definition open_file_object :: "nat + nat \<Rightarrow> nat \<Rightarrow> file_object" where
  "open_file_object opened st_size =
     (case opened of
        Inl errno \<Rightarrow> \<lparr>inFd_id = - 1, file_offset = 0, file_length = None, file_err = errno\<rparr>
      | Inr d \<Rightarrow> \<lparr>inFd_id = int d, file_offset = 0, file_length = Some st_size, file_err = 0\<rparr>)"

text \<open>The descriptors the destructor closes.\<close>

definition close_file_object :: "file_object \<Rightarrow> nat list" where
  "close_file_object f = (if 0 \<le> inFd_id f then [nat (inFd_id f)] else [])"

definition sending :: "file_object \<Rightarrow> send_file option" where
  "sending f = (case file_length f of
     Some n \<Rightarrow> if 0 \<le> inFd_id f then Some \<lparr>inFd = nat (inFd_id f), offset = file_offset f, sendLen = n\<rparr> else None
   | None \<Rightarrow> None)"

lemma open_file_object_sends:
  "sending (open_file_object (Inr d) n) = Some \<lparr>inFd = d, offset = 0, sendLen = n\<rparr>"
  "sending (open_file_object (Inl e) n) = None" "close_file_object (open_file_object (Inr d) n) = [d]"
  "close_file_object (open_file_object (Inl e) n) = []" "close_file_object new_file_object = []"
  by (simp_all add: sending_def open_file_object_def close_file_object_def new_file_object_def)

datatype task = WriteCompleteTask | ForceCloseTask | ShutdownTask | StartReadTask
  | StopReadTask | SendViewTask bytes | SendBufTask buffer

datatype notice = ConnectionNote bool | WriteCompleteNote | ErrorNote nat

record 'c conn =
  cstate :: conn_state
  sockFd :: nat
  chan :: channel
  inBuf :: buffer
  outBuf :: buffer
  sendFile :: "send_file option"
  hcontext :: 'c \<comment> \<open>\<open>context_\<close>, the request parser\<close>
  creading :: bool
  writeCompleteSet :: bool \<comment> \<open>\<open>writeCompleteCallback_\<close> is not empty\<close>
  wire :: bytes
  shutWr :: nat \<comment> \<open>calls of \<open>shutdownWrite\<close>\<close>
  pending :: "task list"
  notices :: "notice list"

type_synonym 'c link = "'c conn \<times> poller"

text \<open>What a system call that moves bytes returns: how many it took, or an \<open>errno\<close>.\<close>

datatype io = Done nat | Failed nat

definition EWOULDBLOCK :: nat where "EWOULDBLOCK = 11"
definition EPIPE :: nat where "EPIPE = 32"
definition ECONNRESET :: nat where "ECONNRESET = 104"

lemmas errno_defs = EWOULDBLOCK_def EPIPE_def ECONNRESET_def

section \<open>Construction and reuse\<close>

definition new_conn :: "'c \<Rightarrow> bool \<Rightarrow> nat \<Rightarrow> 'c conn" where
  "new_conn ctx wcb f =
     \<lparr>cstate = KConnecting, sockFd = f,
      chan = setCallback ErrorCb (setCallback CloseCb
               (setCallback WriteCb (setCallback ReadCb (new_channel f)))),
      inBuf = new_buffer kInitSize, outBuf = new_buffer kInitSize, sendFile = None,
      hcontext = ctx, creading = True, writeCompleteSet = wcb, wire = [], shutWr = 0,
      pending = [], notices = []\<rparr>"

definition sendFileReset :: "'c conn \<Rightarrow> 'c conn" where
  "sendFileReset c = c\<lparr>sendFile := None\<rparr>"

definition setSendFile :: "send_file option \<Rightarrow> 'c conn \<Rightarrow> 'c conn" where
  "setSendFile f c = c\<lparr>sendFile := f\<rparr>"

text \<open>
  \<open>connectReset\<close> readies a pooled connection for a new descriptor; the fields that record
  the history of the old one start over with the new stream.
\<close>

definition connectReset :: "('c \<Rightarrow> 'c) \<Rightarrow> nat \<Rightarrow> 'c conn \<Rightarrow> 'c conn" where
  "connectReset rst f c =
     sendFileReset (c\<lparr>cstate := KConnecting, sockFd := f, chan := channelReset f (chan c),
       hcontext := rst (hcontext c), creading := True, inBuf := retrieveAll (inBuf c),
       outBuf := retrieveAll (outBuf c), wire := [], shutWr := 0\<rparr>)"

definition conn_destructor :: "'c conn \<Rightarrow> fault + unit" where
  "conn_destructor c = (if cstate c = KDisconnected then Inr () else Inl Assert_failed)"

section \<open>Helpers\<close>

definition connected :: "'c conn \<Rightarrow> bool" where
  "connected c \<longleftrightarrow> cstate c = KConnected"

definition queue_task :: "task \<Rightarrow> 'c conn \<Rightarrow> 'c conn" where
  "queue_task t c = c\<lparr>pending := pending c @ [t]\<rparr>"

definition add_notice :: "notice \<Rightarrow> 'c conn \<Rightarrow> 'c conn" where
  "add_notice n c = c\<lparr>notices := notices c @ [n]\<rparr>"

definition with_chan :: "'c conn \<Rightarrow> fault + (channel \<times> poller) \<Rightarrow> fault + 'c link" where
  "with_chan c r = ebind r (\<lambda>(ch, p). Inr (c\<lparr>chan := ch\<rparr>, p))"

definition writeComplete :: "'c conn \<Rightarrow> 'c conn" where
  "writeComplete c = (if writeCompleteSet c then queue_task WriteCompleteTask c else c)"

definition shutdownInLoop :: "'c conn \<Rightarrow> 'c conn" where
  "shutdownInLoop c = (if \<not> isWriting (chan c) then c\<lparr>shutWr := shutWr c + 1\<rparr> else c)"

text \<open>
  \<open>sendfile\<close>(2) with an offset pointer copies from that offset and itself moves the offset
  behind the last byte it copied. \<open>sent_file\<close> is that effect of a call that copied \<open>n\<close>
  bytes, followed by what the code does with the result: it takes \<open>n\<close> off the length left
  and adds \<open>n\<close> to the offset once more.
\<close>

definition k_sendfile :: "(nat \<Rightarrow> bytes) \<Rightarrow> nat \<Rightarrow> send_file \<Rightarrow> bytes \<times> send_file" where
  "k_sendfile fs n f =
     (slice (offset f) (offset f + n) (fs (inFd f)), f\<lparr>offset := offset f + n\<rparr>)"

definition sent_file :: "(nat \<Rightarrow> bytes) \<Rightarrow> nat \<Rightarrow> send_file \<Rightarrow> bytes \<times> send_file" where
  "sent_file fs n f =
     (let (out, f1) = k_sendfile fs n f
      in (out, f1\<lparr>sendLen := size_sub (sendLen f1) n, offset := offset f1 + n\<rparr>))"

definition keep_writing :: "kernel \<Rightarrow> 'c link \<Rightarrow> fault + 'c link" where
  "keep_writing k = (\<lambda>(c, p).
     if \<not> isWriting (chan c) then with_chan c (enableEvents k kWriteEvent (chan c) p)
     else Inr (c, p))"

section \<open>Sending\<close>

text \<open>
  \<open>sendInLoop\<close>: the direct write, then either the rest goes to the output buffer or the
  file that follows is sent. The direct write yields the number of bytes written, those
  remaining, and whether the connection is broken.
\<close>

definition direct_write :: "io \<Rightarrow> bytes \<Rightarrow> nat \<Rightarrow> 'c conn \<Rightarrow> nat \<times> nat \<times> bool \<times> 'c conn" where
  "direct_write wr data len c =
     (if \<not> isWriting (chan c) \<and> readableBytes (outBuf c) = 0 then
        (case wr of
           Done n \<Rightarrow>
             (let remaining = size_sub len n; c1 = c\<lparr>wire := wire c @ take n data\<rparr>
              in (n, remaining, False,
                  case sendFile c1 of
                    None \<Rightarrow> if remaining = 0 then writeComplete c1 else c1
                  | Some f \<Rightarrow> if remaining = 0 \<and> sendLen f = 0 then writeComplete c1 else c1))
         | Failed e \<Rightarrow>
             (0, len, e \<noteq> EWOULDBLOCK \<and> (e = EPIPE \<or> e = ECONNRESET), c))
      else (0, len, False, c))"

definition direct_sendfile :: "kernel \<Rightarrow> (nat \<Rightarrow> bytes) \<Rightarrow> io \<Rightarrow> send_file \<Rightarrow> 'c link \<Rightarrow> fault + 'c link" where
  "direct_sendfile k fs sf f = (\<lambda>(c, p).
     (let (remaining, faultError, c1) =
        (case sf of
           Done n \<Rightarrow>
             (let (out, f1) = sent_file fs n f; c1 = c\<lparr>wire := wire c @ out, sendFile := Some f1\<rparr>
              in (sendLen f1, False,
                  if sendLen f1 = 0 \<and> writeCompleteSet c1
                  then queue_task WriteCompleteTask (sendFileReset c1) else c1))
         | Failed e \<Rightarrow>
             (sendLen f, e \<noteq> EWOULDBLOCK \<and> (e = EPIPE \<or> e = ECONNRESET), c))
      in case sendFile c1 of
           None \<Rightarrow> Inl Null_deref
         | Some f2 \<Rightarrow>
             if \<not> remaining \<le> sendLen f2 then Inl Assert_failed
             else if \<not> faultError \<and> 0 < remaining then keep_writing k (c1, p)
             else Inr (c1, p)))"

definition sendInLoop :: "kernel \<Rightarrow> (nat \<Rightarrow> bytes) \<Rightarrow> io \<Rightarrow> io \<Rightarrow> bytes \<Rightarrow> nat \<Rightarrow> 'c link \<Rightarrow> fault + 'c link" where
  "sendInLoop k fs wr sf data len = (\<lambda>(c, p).
     if cstate c = KDisconnected then Inr (c, p)
     else
       (let (nwrote, remaining, faultError, c1) = direct_write wr data len c
        in if \<not> remaining \<le> len then Inl Assert_failed
           else if \<not> faultError \<and> 0 < remaining then
             ebind (append_data (outBuf c1) (slice nwrote (nwrote + remaining) data))
               (\<lambda>b. keep_writing k (c1\<lparr>outBuf := b\<rparr>, p))
           else (case sendFile c1 of
                   None \<Rightarrow> Inr (c1, p)
                 | Some f \<Rightarrow> direct_sendfile k fs sf f (c1, p))))"

text \<open>
  \<open>send(Buffer *)\<close> from the loop's thread sends the readable bytes and empties the buffer.
  From another thread both arguments of \<open>sendInLoop\<close> are computed from the buffer when the
  functor runs, one of them by emptying it; C++ leaves their order open, and
  \<open>stringFirst\<close> is the choice of the compiler.
\<close>

definition send_buffer :: "kernel \<Rightarrow> (nat \<Rightarrow> bytes) \<Rightarrow> io \<Rightarrow> io \<Rightarrow> bool \<Rightarrow> buffer
    \<Rightarrow> 'c link \<Rightarrow> fault + (buffer \<times> 'c link)" where
  "send_buffer k fs wr sf inLoop b = (\<lambda>(c, p).
     if cstate c = KConnected then
       (if inLoop
        then ebind (sendInLoop k fs wr sf (contents b) (readableBytes b) (c, p))
               (\<lambda>s. Inr (retrieveAll b, s))
        else Inr (b, (queue_task (SendBufTask b) c, p)))
     else Inr (b, (c, p)))"

definition send_buffer_task :: "kernel \<Rightarrow> (nat \<Rightarrow> bytes) \<Rightarrow> io \<Rightarrow> io \<Rightarrow> bool \<Rightarrow> buffer
    \<Rightarrow> 'c link \<Rightarrow> fault + 'c link" where
  "send_buffer_task k fs wr sf stringFirst b s =
     ebind (retrieveAllAsString b) (\<lambda>(data, b').
       sendInLoop k fs wr sf data (readableBytes (if stringFirst then b' else b)) s)"

text \<open>
  \<open>send(std::string_view)\<close> queues only when the connection is not connected; a connected
  one called from another thread does nothing.
\<close>

definition send_view :: "kernel \<Rightarrow> (nat \<Rightarrow> bytes) \<Rightarrow> io \<Rightarrow> io \<Rightarrow> bool \<Rightarrow> bytes
    \<Rightarrow> 'c link \<Rightarrow> fault + 'c link" where
  "send_view k fs wr sf inLoop message = (\<lambda>(c, p).
     if cstate c = KConnected then
       (if inLoop then sendInLoop k fs wr sf message (length message) (c, p) else Inr (c, p))
     else if inLoop then sendInLoop k fs wr sf message (length message) (c, p)
     else Inr (queue_task (SendViewTask message) c, p))"

section \<open>Opening, closing, reading on and off\<close>

definition shutdown :: "bool \<Rightarrow> 'c conn \<Rightarrow> 'c conn" where
  "shutdown inLoop c =
     (if cstate c = KConnected then
        (let c1 = c\<lparr>cstate := KDisconnecting\<rparr>
         in if inLoop then shutdownInLoop c1 else queue_task ShutdownTask c1)
      else c)"

definition forceClose :: "'c conn \<Rightarrow> 'c conn" where
  "forceClose c =
     (if cstate c = KConnected \<or> cstate c = KDisconnecting
      then queue_task ForceCloseTask (c\<lparr>cstate := KDisconnecting\<rparr>) else c)"

definition startReadInLoop :: "kernel \<Rightarrow> 'c link \<Rightarrow> fault + 'c link" where
  "startReadInLoop k = (\<lambda>(c, p).
     if \<not> creading c \<or> \<not> isReading (chan c)
     then with_chan (c\<lparr>creading := True\<rparr>) (enableEvents k kReadEventLT (chan c) p)
     else Inr (c, p))"

definition stopReadInLoop :: "kernel \<Rightarrow> 'c link \<Rightarrow> fault + 'c link" where
  "stopReadInLoop k = (\<lambda>(c, p).
     if creading c \<or> isReading (chan c)
     then with_chan (c\<lparr>creading := False\<rparr>) (disableEvents k kReadEventLT (chan c) p)
     else Inr (c, p))"

definition startRead :: "kernel \<Rightarrow> bool \<Rightarrow> 'c link \<Rightarrow> fault + 'c link" where
  "startRead k inLoop = (\<lambda>(c, p).
     if inLoop then startReadInLoop k (c, p) else Inr (queue_task StartReadTask c, p))"

definition stopRead :: "kernel \<Rightarrow> bool \<Rightarrow> 'c link \<Rightarrow> fault + 'c link" where
  "stopRead k inLoop = (\<lambda>(c, p).
     if inLoop then stopReadInLoop k (c, p) else Inr (queue_task StopReadTask c, p))"

definition connectEstablished :: "kernel \<Rightarrow> 'c link \<Rightarrow> fault + 'c link" where
  "connectEstablished k = (\<lambda>(c, p).
     if cstate c \<noteq> KConnecting then Inl Assert_failed
     else ebind (with_chan (c\<lparr>cstate := KConnected\<rparr>) (enableEvents k kReadEventLT (chan c) p))
            (\<lambda>(c1, p1). Inr (add_notice (ConnectionNote True) c1, p1)))"

definition connectDestroyed :: "kernel \<Rightarrow> 'c link \<Rightarrow> fault + 'c link" where
  "connectDestroyed k = (\<lambda>(c, p).
     ebind (if cstate c = KConnected
            then ebind (with_chan (c\<lparr>cstate := KDisconnected\<rparr>) (disableAll k (chan c) p))
                   (\<lambda>(c1, p1). Inr (add_notice (ConnectionNote False) c1, p1))
            else Inr (c, p))
       (\<lambda>(c2, p2). with_chan c2 (ch_remove k (chan c2) p2)))"

text \<open>
  The close callback set by the poller is \<open>Epoll::removeConnection\<close>, which runs
  \<open>connectDestroyed\<close> in the loop; \<open>handleClose\<close> is already there, so it runs at once.
\<close>

definition handleClose :: "kernel \<Rightarrow> 'c link \<Rightarrow> fault + 'c link" where
  "handleClose k = (\<lambda>(c, p).
     if \<not> (cstate c = KConnected \<or> cstate c = KDisconnecting) then Inl Assert_failed
     else ebind (with_chan (c\<lparr>cstate := KDisconnected\<rparr>) (disableAll k (chan c) p))
            (connectDestroyed k))"

definition forceCloseInLoop :: "kernel \<Rightarrow> 'c link \<Rightarrow> fault + 'c link" where
  "forceCloseInLoop k = (\<lambda>(c, p).
     if cstate c = KConnected \<or> cstate c = KDisconnecting then handleClose k (c, p)
     else Inr (c, p))"

section \<open>Handlers\<close>

text \<open>\<open>err\<close> is what \<open>getSocketError\<close> returns.\<close>

definition handleError :: "nat \<Rightarrow> 'c conn \<Rightarrow> 'c conn" where
  "handleError err c = (if err \<noteq> 104 then add_notice (ErrorNote err) c else c)"

definition defaultMessageCallback :: "'c link \<Rightarrow> fault + 'c link" where
  "defaultMessageCallback = (\<lambda>(c, p). Inr (c\<lparr>inBuf := retrieveAll (inBuf c)\<rparr>, p))"

definition handleRead :: "kernel \<Rightarrow> ('c link \<Rightarrow> fault + 'c link) \<Rightarrow> nat \<Rightarrow> nat + bytes
    \<Rightarrow> 'c link \<Rightarrow> fault + 'c link" where
  "handleRead k messageCallback err r = (\<lambda>(c, p).
     ebind (readFd (inBuf c) r) (\<lambda>(n, b).
       (let c1 = c\<lparr>inBuf := b\<rparr>
        in case n of
             Inr m \<Rightarrow> if 0 < m then messageCallback (c1, p) else handleClose k (c1, p)
           | Inl saveErrno \<Rightarrow> Inr (handleError err c1, p))))"

text \<open>What \<open>handleWrite\<close> does once nothing is left to write.\<close>

definition drained :: "kernel \<Rightarrow> 'c link \<Rightarrow> fault + 'c link" where
  "drained k = (\<lambda>(c, p).
     ebind (with_chan c (disableEvents k kWriteEvent (chan c) p)) (\<lambda>(c1, p1).
       (let c2 = writeComplete c1
        in Inr (if cstate c2 = KDisconnecting then shutdownInLoop c2 else c2, p1))))"

definition handleWrite :: "kernel \<Rightarrow> (nat \<Rightarrow> bytes) \<Rightarrow> io \<Rightarrow> io \<Rightarrow> 'c link \<Rightarrow> fault + 'c link" where
  "handleWrite k fs wr sf = (\<lambda>(c, p).
     if isWriting (chan c) then
       (if 0 < readableBytes (outBuf c) then
          (case wr of
             Done n \<Rightarrow>
               if 0 < n then
                 ebind (retrieve (outBuf c) n) (\<lambda>b.
                   (let c1 = c\<lparr>wire := wire c @ take n (contents (outBuf c)), outBuf := b\<rparr>
                    in if readableBytes b = 0 then drained k (c1, p) else Inr (c1, p)))
               else Inr (c, p)
           | Failed e \<Rightarrow> Inr (c, p))
        else (case sendFile c of
             None \<Rightarrow> Inr (c, p)
           | Some f \<Rightarrow>
               (case sf of
                  Done n \<Rightarrow>
                    if 0 < n then
                      (let (out, f1) = sent_file fs n f;
                           c1 = c\<lparr>wire := wire c @ out, sendFile := Some f1\<rparr>
                       in if sendLen f1 = 0 then drained k (sendFileReset c1, p) else Inr (c1, p))
                    else Inr (c, p)
                | Failed e \<Rightarrow> Inr (c, p))))
     else Inr (c, p))"

text \<open>
  \<open>Channel::handleEvent\<close> on the connection's channel with the callbacks of the constructor;
  the channel is marked as handling an event while they run.
\<close>

definition conn_callback :: "kernel \<Rightarrow> (nat \<Rightarrow> bytes) \<Rightarrow> ('c link \<Rightarrow> fault + 'c link)
    \<Rightarrow> nat \<Rightarrow> nat + bytes \<Rightarrow> io \<Rightarrow> io \<Rightarrow> callback \<Rightarrow> 'c link \<Rightarrow> fault + 'c link" where
  "conn_callback k fs mcb err r wr sf cb =
     (case cb of
        CloseCb \<Rightarrow> handleClose k
      | ErrorCb \<Rightarrow> (\<lambda>(c, p). Inr (handleError err c, p))
      | ReadCb \<Rightarrow> handleRead k mcb err r
      | WriteCb \<Rightarrow> handleWrite k fs wr sf)"

definition conn_handleEvent :: "kernel \<Rightarrow> (nat \<Rightarrow> bytes) \<Rightarrow> ('c link \<Rightarrow> fault + 'c link)
    \<Rightarrow> nat \<Rightarrow> nat + bytes \<Rightarrow> io \<Rightarrow> io \<Rightarrow> event_mask \<Rightarrow> 'c link \<Rightarrow> fault + 'c link" where
  "conn_handleEvent k fs mcb err r wr sf ev = (\<lambda>(c, p).
     ebind (run_callbacks (conn_callback k fs mcb err r wr sf) (dispatch (setRevents ev (chan c)))
              (c\<lparr>chan := (setRevents ev (chan c))\<lparr>eventHandling := True\<rparr>\<rparr>, p))
       (\<lambda>(c1, p1). Inr (c1\<lparr>chan := (chan c1)\<lparr>eventHandling := False\<rparr>\<rparr>, p1)))"

text \<open>The functors handed to the loop.\<close>

definition run_task :: "kernel \<Rightarrow> (nat \<Rightarrow> bytes) \<Rightarrow> bool \<Rightarrow> io \<Rightarrow> io \<Rightarrow> task
    \<Rightarrow> 'c link \<Rightarrow> fault + 'c link" where
  "run_task k fs stringFirst wr sf t s =
     (case t of
        WriteCompleteTask \<Rightarrow> Inr (add_notice WriteCompleteNote (fst s), snd s)
      | ForceCloseTask \<Rightarrow> forceCloseInLoop k s
      | ShutdownTask \<Rightarrow> Inr (shutdownInLoop (fst s), snd s)
      | StartReadTask \<Rightarrow> startReadInLoop k s
      | StopReadTask \<Rightarrow> stopReadInLoop k s
      | SendViewTask m \<Rightarrow> sendInLoop k fs wr sf m (length m) s
      | SendBufTask b \<Rightarrow> send_buffer_task k fs wr sf stringFirst b s)"

section \<open>Interest in writing and the channel\<close>

lemma isWriting_enable:
  assumes "events ch' = events ch OR kWriteEvent"
  shows "isWriting ch'"
proof -
  have "(events ch OR 4) AND 4 = (4 :: event_mask)" by (simp add: word_ao_dist and.commute)
  with assms show ?thesis by (simp add: isWriting_def event_defs)
qed

lemma isWriting_disable: "events ch' = events ch AND NOT kWriteEvent \<Longrightarrow> \<not> isWriting ch'"
  by (simp add: isWriting_def event_defs and.assoc)

lemma write_bit_read_mask:
  "(e OR kReadEventLT) AND kWriteEvent = e AND kWriteEvent"
  "(e AND NOT kReadEventLT) AND kWriteEvent = e AND kWriteEvent"
proof -
  have "(3 :: event_mask) AND 4 = 0" "NOT (3 :: event_mask) AND 4 = 4" by simp_all
  then show "(e OR kReadEventLT) AND kWriteEvent = e AND kWriteEvent"
    "(e AND NOT kReadEventLT) AND kWriteEvent = e AND kWriteEvent"
    by (simp_all add: event_defs word_ao_dist and.assoc)
qed

text \<open>A channel in step that is in the kernel's set whenever it wants an event.\<close>

definition chan_ok :: "channel \<Rightarrow> poller \<Rightarrow> bool" where
  "chan_ok ch p \<longleftrightarrow> in_step ch p \<and> (status ch = kAdded \<or> events ch = 0)"

lemma with_chan_step:
  assumes "epoll_contract k" and "chan_ok ch p"
  shows "\<exists>ch' p'. with_chan c (chan_step k op ch p) = Inr (c\<lparr>chan := ch'\<rparr>, p') \<and> chan_ok ch' p'
     \<and> events ch' = chan_mask op (events ch) \<and> fd ch' = fd ch
     \<and> connections p' = connections p \<and> connectionsPool p' = connectionsPool p"
  using chan_step_in_step [OF assms(1), of ch p op] assms(2)
  by (force simp: chan_ok_def with_chan_def)

lemmas with_enable = with_chan_step [where op = "Enable ev" for ev, simplified chan_step.simps chan_mask.simps]
lemmas with_disable = with_chan_step [where op = "Disable ev" for ev, simplified chan_step.simps chan_mask.simps]
lemmas with_disableAll = with_chan_step [where op = DisableAll, simplified chan_step.simps chan_mask.simps]

lemma chan_ok_interest:
  "chan_ok ch p \<Longrightarrow> isWriting ch \<longleftrightarrow> (\<exists>e. interest (calls p) (fd ch) = Some e \<and> e AND kWriteEvent \<noteq> 0)"
  by (auto simp: chan_ok_def in_step_def isWriting_def)

section \<open>The output path\<close>

definition stream_ok :: "'c conn \<Rightarrow> poller \<Rightarrow> bool" where
  "stream_ok c p \<longleftrightarrow> chan_ok (chan c) p \<and> buf_wf (inBuf c) \<and> buf_wf (outBuf c)
     \<and> sendFile c = None \<and> (isWriting (chan c) \<longleftrightarrow> contents (outBuf c) \<noteq> [])"

text \<open>What a system call may return when asked to take \<open>m\<close> bytes; a broken connection apart.\<close>

fun io_fits :: "nat \<Rightarrow> io \<Rightarrow> bool" where
  "io_fits m (Done n) = (n \<le> m)"
| "io_fits m (Failed e) = True"

fun io_broken :: "io \<Rightarrow> bool" where
  "io_broken (Done n) = False"
| "io_broken (Failed e) = (e = EPIPE \<or> e = ECONNRESET)"

lemma readable_zero: "buf_wf b \<Longrightarrow> readableBytes b = 0 \<longleftrightarrow> contents b = []"
  by (metis length_0_conv readable_contents)

lemma writeComplete_fields [simp]:
  "cstate (writeComplete c) = cstate c" "chan (writeComplete c) = chan c"
  "inBuf (writeComplete c) = inBuf c" "outBuf (writeComplete c) = outBuf c"
  "sendFile (writeComplete c) = sendFile c" "wire (writeComplete c) = wire c"
  "shutWr (writeComplete c) = shutWr c"
  by (simp_all add: writeComplete_def queue_task_def)

lemma shutdownInLoop_fields [simp]:
  "cstate (shutdownInLoop c) = cstate c" "chan (shutdownInLoop c) = chan c"
  "inBuf (shutdownInLoop c) = inBuf c" "outBuf (shutdownInLoop c) = outBuf c"
  "sendFile (shutdownInLoop c) = sendFile c" "wire (shutdownInLoop c) = wire c"
  "shutWr (shutdownInLoop c) = (if isWriting (chan c) then shutWr c else shutWr c + 1)"
  by (simp_all add: shutdownInLoop_def)

text \<open>The direct write of \<open>sendInLoop\<close>: what was written and what remains make up the data.\<close>

lemma direct_write_spec:
  assumes "stream_ok c p" and "io_fits (length d) wr" and "\<not> io_broken wr"
    and "direct_write wr d (length d) c = (n, r, broken, c1)"
  shows "\<not> broken" and "n + r = length d" and "wire c1 = wire c @ take n d"
    and "chan c1 = chan c" "outBuf c1 = outBuf c" "inBuf c1 = inBuf c" "sendFile c1 = None"
      "cstate c1 = cstate c" "shutWr c1 = shutWr c"
    and "contents (outBuf c) \<noteq> [] \<Longrightarrow> n = 0"
  using assms
  by (auto simp: direct_write_def stream_ok_def readable_zero size_sub_def Let_def
      split: if_splits io.splits)

lemma keep_writing_spec:
  assumes "epoll_contract k" and "chan_ok (chan c) p"
  shows "\<exists>ch' p'. keep_writing k (c, p) = Inr (c\<lparr>chan := ch'\<rparr>, p') \<and> chan_ok ch' p' \<and> isWriting ch'
     \<and> fd ch' = fd (chan c) \<and> connectionsPool p' = connectionsPool p"
proof (cases "isWriting (chan c)")
  case True
  then show ?thesis using assms by (auto simp: keep_writing_def intro!: exI [of _ "chan c"])
next
  case False
  then show ?thesis
    using with_enable [OF assms, of c kWriteEvent] isWriting_enable [of _ "chan c"]
    by (simp add: keep_writing_def) blast
qed

lemma send_ok:
  assumes "epoll_contract k" and "stream_ok c p" and "cstate c \<noteq> KDisconnected"
    and "io_fits (length d) wr" and "\<not> io_broken wr"
  shows "\<exists>c' p'. sendInLoop k fs wr sf d (length d) (c, p) = Inr (c', p') \<and> stream_ok c' p'
     \<and> wire c' @ contents (outBuf c') = wire c @ contents (outBuf c) @ d
     \<and> cstate c' = cstate c \<and> shutWr c' = shutWr c"
proof -
  obtain n r broken c1 where dw: "direct_write wr d (length d) c = (n, r, broken, c1)"
    by (metis prod_cases4)
  note D = direct_write_spec [OF assms(2,4,5) dw]
  have wf: "buf_wf (outBuf c1)" "chan_ok (chan c1) p" using assms(2) D by (simp_all add: stream_ok_def)
  show ?thesis
  proof (cases "r = 0")
    case True
    have "\<not> contents (outBuf c) \<noteq> [] \<or> d = []" using D(2,10) True by auto
    with True assms(2,3) D dw show ?thesis by (auto simp: sendInLoop_def stream_ok_def)
  next
    case False
    have sl: "slice n (n + r) d = drop n d" using D(2) by (simp add: slice_def)
    obtain b where b: "append_data (outBuf c1) (drop n d) = Inr b" "buf_wf b"
        "contents b = contents (outBuf c1) @ drop n d"
      using buffer_queue.put_ok [OF wf(1)] by blast
    obtain ch' p' where kw: "keep_writing k (c1\<lparr>outBuf := b\<rparr>, p) = Inr (c1\<lparr>outBuf := b, chan := ch'\<rparr>, p')"
        "chan_ok ch' p'" "isWriting ch'"
      using keep_writing_spec [OF assms(1), of "c1\<lparr>outBuf := b\<rparr>" p] wf(2) by auto
    have "wire c @ take n d @ contents (outBuf c) @ drop n d = wire c @ contents (outBuf c) @ d"
      using D(10) by (cases "contents (outBuf c) = []") auto
    moreover have "drop n d \<noteq> []" using False D(2) by auto
    ultimately show ?thesis
      using dw D False assms(2,3) b kw sl by (simp add: sendInLoop_def stream_ok_def)
  qed
qed

lemma drained_spec:
  assumes "epoll_contract k" and "chan_ok (chan c) p"
  shows "\<exists>c' p'. drained k (c, p) = Inr (c', p') \<and> chan_ok (chan c') p' \<and> \<not> isWriting (chan c')
     \<and> inBuf c' = inBuf c \<and> outBuf c' = outBuf c \<and> sendFile c' = sendFile c \<and> wire c' = wire c
     \<and> cstate c' = cstate c
     \<and> shutWr c' = shutWr c + (if cstate c = KDisconnecting then 1 else 0)"
proof -
  obtain ch' p' where d: "with_chan c (disableEvents k kWriteEvent (chan c) p) = Inr (c\<lparr>chan := ch'\<rparr>, p')"
      "chan_ok ch' p'" "events ch' = events (chan c) AND NOT kWriteEvent"
    using with_disable [OF assms, of c kWriteEvent] by blast
  have "\<not> isWriting ch'" by (rule isWriting_disable [OF d(3)])
  with d show ?thesis by (simp add: drained_def)
qed

lemma write_ok:
  assumes "epoll_contract k" and "stream_ok c p" and "io_fits (readableBytes (outBuf c)) wr"
  shows "\<exists>c' p'. handleWrite k fs wr sf (c, p) = Inr (c', p') \<and> stream_ok c' p'
     \<and> wire c' @ contents (outBuf c') = wire c @ contents (outBuf c) \<and> cstate c' = cstate c
     \<and> shutWr c' = shutWr c + (if cstate c = KDisconnecting \<and> contents (outBuf c) \<noteq> []
                                   \<and> contents (outBuf c') = [] then 1 else 0)"
proof (cases "isWriting (chan c) \<and> (\<exists>n. wr = Done n \<and> 0 < n)")
  case False
  then show ?thesis
    using assms(2) by (auto simp: handleWrite_def stream_ok_def split: io.splits)
next
  case True
  then obtain n where n: "wr = Done n" "0 < n" and w: "isWriting (chan c)" by blast
  have wf: "buf_wf (outBuf c)" and ok: "chan_ok (chan c) p" and ne: "contents (outBuf c) \<noteq> []"
    using assms(2) w by (auto simp: stream_ok_def)
  have le: "n \<le> length (contents (outBuf c))" using assms(3) n readable_contents [OF wf] by simp
  obtain b where b: "retrieve (outBuf c) n = Inr b" "buf_wf b" "contents b = drop n (contents (outBuf c))"
    using buffer_queue.tk_ok [OF wf le] by blast
  define c1 where "c1 = c\<lparr>wire := wire c @ take n (contents (outBuf c)), outBuf := b\<rparr>"
  have pos: "0 < readableBytes (outBuf c)" using ne readable_zero [OF wf] by blast
  have eq: "handleWrite k fs wr sf (c, p)
      = (if contents b = [] then drained k (c1, p) else Inr (c1, p))"
    using n w b pos readable_zero [OF b(2)] by (simp add: handleWrite_def c1_def Let_def)
  have c1: "chan c1 = chan c" "inBuf c1 = inBuf c" "outBuf c1 = b" "sendFile c1 = sendFile c"
      "cstate c1 = cstate c" "shutWr c1 = shutWr c" "wire c1 = wire c @ take n (contents (outBuf c))"
    by (simp_all add: c1_def)
  show ?thesis
  proof (cases "contents b = []")
    case True
    obtain c' p' where "drained k (c1, p) = Inr (c', p')" "chan_ok (chan c') p'" "\<not> isWriting (chan c')"
       "inBuf c' = inBuf c1" "outBuf c' = b" "sendFile c' = sendFile c1" "wire c' = wire c1"
       "cstate c' = cstate c1" "shutWr c' = shutWr c1 + (if cstate c1 = KDisconnecting then 1 else 0)"
      using drained_spec [OF assms(1), of c1 p] ok c1 by auto
    moreover have "take n (contents (outBuf c)) = contents (outBuf c)" using True b(3) le by simp
    ultimately show ?thesis
      using True assms(2) b ne eq c1 by (simp add: stream_ok_def)
  next
    case False
    then show ?thesis using assms(2) b eq w c1 by (auto simp: stream_ok_def)
  qed
qed

section \<open>A connected stream\<close>

text \<open>
  The life of a connected stream in its loop: sends by the user, write events, incoming
  data and switching reading on and off. The outcome of a system call is a function of
  the number of bytes it is asked to take. A message callback that sends is the event
  followed by the sends, since nothing else of the loop runs in between.
\<close>

datatype stream_op = SendData bytes "nat \<Rightarrow> io" | SendBuffer buffer "nat \<Rightarrow> io"
  | Writable "nat \<Rightarrow> io" | Incoming bytes | ReadOn | ReadOff

fun stream_step :: "kernel \<Rightarrow> (nat \<Rightarrow> bytes) \<Rightarrow> stream_op \<Rightarrow> 'c link \<Rightarrow> fault + 'c link" where
  "stream_step k fs (SendData d w) s = send_view k fs (w (length d)) (Done 0) True d s"
| "stream_step k fs (SendBuffer b w) s =
     ebind (send_buffer k fs (w (readableBytes b)) (Done 0) True b s) (\<lambda>(b', s'). Inr s')"
| "stream_step k fs (Writable w) s =
     handleWrite k fs (w (readableBytes (outBuf (fst s)))) (Done 0) s"
| "stream_step k fs (Incoming d) s = handleRead k defaultMessageCallback 0 (Inr d) s"
| "stream_step k fs ReadOn s = startRead k True s"
| "stream_step k fs ReadOff s = stopRead k True s"

fun stream_run :: "kernel \<Rightarrow> (nat \<Rightarrow> bytes) \<Rightarrow> stream_op list \<Rightarrow> 'c link \<Rightarrow> fault + 'c link" where
  "stream_run k fs [] s = Inr s"
| "stream_run k fs (op # ops) s = ebind (stream_step k fs op s) (stream_run k fs ops)"

definition io_sound :: "(nat \<Rightarrow> io) \<Rightarrow> bool" where
  "io_sound w \<longleftrightarrow> (\<forall>m. io_fits m (w m) \<and> \<not> io_broken (w m))"

fun op_sound :: "stream_op \<Rightarrow> bool" where
  "op_sound (SendData d w) = io_sound w"
| "op_sound (SendBuffer b w) = (buf_wf b \<and> io_sound w)"
| "op_sound (Writable w) = io_sound w"
| "op_sound (Incoming d) = (d \<noteq> [])"
| "op_sound ReadOn = True"
| "op_sound ReadOff = True"

fun op_data :: "stream_op \<Rightarrow> bytes" where
  "op_data (SendData d w) = d"
| "op_data (SendBuffer b w) = contents b"
| "op_data _ = []"

lemma reading_step:
  assumes "epoll_contract k" and "stream_ok c p"
  shows "\<exists>c' p'. startReadInLoop k (c, p) = Inr (c', p') \<and> stream_ok c' p' \<and> wire c' = wire c
           \<and> outBuf c' = outBuf c \<and> cstate c' = cstate c"
    and "\<exists>c' p'. stopReadInLoop k (c, p) = Inr (c', p') \<and> stream_ok c' p' \<and> wire c' = wire c
           \<and> outBuf c' = outBuf c \<and> cstate c' = cstate c"
proof -
  have ok: "chan_ok (chan c) p" using assms(2) by (simp add: stream_ok_def)
  obtain ch1 p1 where on: "with_chan (c\<lparr>creading := True\<rparr>) (enableEvents k kReadEventLT (chan c) p)
      = Inr (c\<lparr>creading := True, chan := ch1\<rparr>, p1)" "chan_ok ch1 p1" "isWriting ch1 = isWriting (chan c)"
    using with_enable [OF assms(1) ok, of "c\<lparr>creading := True\<rparr>" kReadEventLT]
    by (auto simp: isWriting_def write_bit_read_mask)
  obtain ch2 p2 where off: "with_chan (c\<lparr>creading := False\<rparr>) (disableEvents k kReadEventLT (chan c) p)
      = Inr (c\<lparr>creading := False, chan := ch2\<rparr>, p2)" "chan_ok ch2 p2" "isWriting ch2 = isWriting (chan c)"
    using with_disable [OF assms(1) ok, of "c\<lparr>creading := False\<rparr>" kReadEventLT]
    by (auto simp: isWriting_def write_bit_read_mask)
  show "\<exists>c' p'. startReadInLoop k (c, p) = Inr (c', p') \<and> stream_ok c' p' \<and> wire c' = wire c
           \<and> outBuf c' = outBuf c \<and> cstate c' = cstate c"
    using assms(2) on by (auto simp: startReadInLoop_def stream_ok_def)
  show "\<exists>c' p'. stopReadInLoop k (c, p) = Inr (c', p') \<and> stream_ok c' p' \<and> wire c' = wire c
           \<and> outBuf c' = outBuf c \<and> cstate c' = cstate c"
    using assms(2) off by (auto simp: stopReadInLoop_def stream_ok_def)
qed

lemma incoming_step:
  assumes "stream_ok c p" and "d \<noteq> []"
  shows "\<exists>b. handleRead k defaultMessageCallback err (Inr d) (c, p) = Inr (c\<lparr>inBuf := b\<rparr>, p) \<and> buf_wf b"
proof -
  obtain b where "readFd (inBuf c) (Inr d) = Inr (Inr (length d), b)" "buf_wf b"
    using readFd_spec [of "inBuf c" d] assms(1) by (auto simp: stream_ok_def)
  with assms(2) show ?thesis
    by (auto simp: handleRead_def defaultMessageCallback_def intro!: exI [of _ "retrieveAll b"])
qed

lemma stream_step_ok:
  assumes "epoll_contract k" and "stream_ok c p" and "cstate c = KConnected" and "op_sound op"
  shows "\<exists>c' p'. stream_step k fs op (c, p) = Inr (c', p') \<and> stream_ok c' p' \<and> cstate c' = KConnected
     \<and> wire c' @ contents (outBuf c') = wire c @ contents (outBuf c) @ op_data op"
proof (cases op)
  case (SendData d w)
  with assms send_ok [OF assms(1,2), of d "w (length d)" fs "Done 0"] show ?thesis
    by (auto simp: send_view_def io_sound_def)
next
  case (SendBuffer b w)
  with assms send_ok [OF assms(1,2), of "contents b" "w (readableBytes b)" fs "Done 0"] show ?thesis
    by (auto simp: send_buffer_def io_sound_def)
next
  case (Writable w)
  with assms write_ok [OF assms(1,2), of "w (readableBytes (outBuf c))" fs "Done 0"] show ?thesis
    by (auto simp: io_sound_def)
next
  case (Incoming d)
  with assms incoming_step [OF assms(2), of d k 0] show ?thesis
    by (auto simp: stream_ok_def)
qed (use assms reading_step [OF assms(1,2)] in \<open>force simp: startRead_def stopRead_def\<close>)+

lemma stream_run_ok:
  "epoll_contract k \<Longrightarrow> stream_ok c p \<Longrightarrow> cstate c = KConnected \<Longrightarrow> \<forall>op \<in> set ops. op_sound op \<Longrightarrow>
     \<exists>c' p'. stream_run k fs ops (c, p) = Inr (c', p') \<and> stream_ok c' p' \<and> cstate c' = KConnected
       \<and> wire c' @ contents (outBuf c') = wire c @ contents (outBuf c) @ concat (map op_data ops)"
proof (induction ops arbitrary: c p)
  case (Cons op ops)
  obtain c1 p1 where 1: "stream_step k fs op (c, p) = Inr (c1, p1)" "stream_ok c1 p1"
      "cstate c1 = KConnected"
      "wire c1 @ contents (outBuf c1) = wire c @ contents (outBuf c) @ op_data op"
    using stream_step_ok [OF Cons.prems(1-3)] Cons.prems(4) by force
  from Cons.IH [OF Cons.prems(1) 1(2,3)] Cons.prems(4) 1(1,4) show ?case
    by (auto simp: append_assoc [symmetric] simp del: append_assoc)
qed simp

text \<open>A connection that has just been established, on a poller that does not know its descriptor.\<close>

lemma established_ok:
  assumes "epoll_contract k" and "chan_ok (chan c) p" and "cstate c = KConnecting"
    and "events (chan c) = 0"
  shows "\<exists>ch' p'. connectEstablished k (c, p)
       = Inr (add_notice (ConnectionNote True) (c\<lparr>cstate := KConnected, chan := ch'\<rparr>), p')
     \<and> chan_ok ch' p' \<and> events ch' = kReadEventLT \<and> fd ch' = fd (chan c)
     \<and> interest (calls p') (fd (chan c)) = Some kReadEventLT"
proof -
  obtain ch' p' where ch: "with_chan (c\<lparr>cstate := KConnected\<rparr>) (enableEvents k kReadEventLT (chan c) p)
      = Inr (c\<lparr>cstate := KConnected, chan := ch'\<rparr>, p')" "chan_ok ch' p'"
      "events ch' = kReadEventLT" "fd ch' = fd (chan c)"
    using with_enable [OF assms(1,2), of "c\<lparr>cstate := KConnected\<rparr>" kReadEventLT] assms(4) by auto
  moreover have "interest (calls p') (fd (chan c)) = Some kReadEventLT"
    using ch(2-4) by (simp add: chan_ok_def in_step_def event_defs)
  ultimately show ?thesis using assms(3) by (auto simp: connectEstablished_def)
qed

lemma new_conn_chan_ok:
  "interest (calls p) f = None \<Longrightarrow> chan_ok (chan (new_conn ctx wcb f)) p"
  by (simp add: chan_ok_def in_step_def new_conn_def setCallback_def new_channel_def status_defs)

lemma connectReset_chan_ok:
  "interest (calls p) f = None \<Longrightarrow> chan_ok (chan (connectReset rst f c)) p"
  by (simp add: chan_ok_def in_step_def connectReset_def sendFileReset_def channelReset_def status_defs)

section \<open>Closing\<close>

lemma handleClose_spec:
  assumes "epoll_contract k" and "chan_ok (chan c) p"
    and "cstate c = KConnected \<or> cstate c = KDisconnecting"
  shows "\<exists>ch' p'. handleClose k (c, p) = Inr (c\<lparr>cstate := KDisconnected, chan := ch'\<rparr>, p')
     \<and> events ch' = 0 \<and> status ch' = kNew \<and> fd ch' = fd (chan c) \<and> \<not> addedToLoop ch'
     \<and> interest (calls p') (fd (chan c)) = None
     \<and> connections p' = (connections p)(fd (chan c) := None)
     \<and> connectionsPool p' = connectionsPool p @ [connections p (fd (chan c))]"
proof -
  obtain ch1 p1 where 1: "with_chan (c\<lparr>cstate := KDisconnected\<rparr>) (disableAll k (chan c) p)
      = Inr (c\<lparr>cstate := KDisconnected, chan := ch1\<rparr>, p1)" "chan_ok ch1 p1" "events ch1 = 0"
      "fd ch1 = fd (chan c)" "connections p1 = connections p"
      "connectionsPool p1 = connectionsPool p"
    using with_disableAll [OF assms(1,2), of "c\<lparr>cstate := KDisconnected\<rparr>"] by auto
  have "in_step ch1 p1" "isNoneEvent ch1"
    using 1(2,3) by (simp_all add: chan_ok_def isNoneEvent_def kNoneEvent_def)
  from ch_remove_spec [OF assms(1) this] obtain ch2 p2 where
    2: "ch_remove k ch1 p1 = Inr (ch2, p2)" "status ch2 = kNew" "\<not> addedToLoop ch2" "fd ch2 = fd ch1"
      "events ch2 = 0" "in_step ch2 p2" "connections p2 = (connections p1)(fd ch1 := None)"
      "connectionsPool p2 = connectionsPool p1 @ [connections p1 (fd ch1)]" by blast
  have "interest (calls p2) (fd (chan c)) = None"
    using 2(2,4,6) 1(4) by (simp add: in_step_def status_defs)
  then show ?thesis
    using assms(3) 1 2 by (auto simp: handleClose_def connectDestroyed_def with_chan_def)
qed

text \<open>Everything a loop can do with a connection, with any outcome of the system calls.\<close>

datatype life_op = SendOp bool bytes io io | SendBufOp bool buffer io io
  | EventOp event_mask nat "nat + bytes" io io | ShutdownOp bool | ForceCloseOp
  | StartOp bool | StopOp bool | TaskOp io io

fun life_step :: "kernel \<Rightarrow> (nat \<Rightarrow> bytes) \<Rightarrow> bool \<Rightarrow> life_op \<Rightarrow> 'c link \<Rightarrow> fault + 'c link" where
  "life_step k fs sfirst (SendOp inLoop d wr sf) s = send_view k fs wr sf inLoop d s"
| "life_step k fs sfirst (SendBufOp inLoop b wr sf) s =
     ebind (send_buffer k fs wr sf inLoop b s) (\<lambda>(b', s'). Inr s')"
| "life_step k fs sfirst (EventOp ev err r wr sf) s =
     conn_handleEvent k fs defaultMessageCallback err r wr sf ev s"
| "life_step k fs sfirst (ShutdownOp inLoop) s = Inr (shutdown inLoop (fst s), snd s)"
| "life_step k fs sfirst ForceCloseOp s = Inr (forceClose (fst s), snd s)"
| "life_step k fs sfirst (StartOp inLoop) s = startRead k inLoop s"
| "life_step k fs sfirst (StopOp inLoop) s = stopRead k inLoop s"
| "life_step k fs sfirst (TaskOp wr sf) s =
     (case pending (fst s) of
        [] \<Rightarrow> Inr s
      | t # ts \<Rightarrow> run_task k fs sfirst wr sf t ((fst s)\<lparr>pending := ts\<rparr>, snd s))"

fun life_run :: "kernel \<Rightarrow> (nat \<Rightarrow> bytes) \<Rightarrow> bool \<Rightarrow> life_op list \<Rightarrow> 'c link \<Rightarrow> fault + 'c link" where
  "life_run k fs sfirst [] s = Inr s"
| "life_run k fs sfirst (op # ops) s = ebind (life_step k fs sfirst op s) (life_run k fs sfirst ops)"

text \<open>How far a connection is in its life, and what a step may do to it and to the pool.\<close>

fun stage :: "conn_state \<Rightarrow> nat" where
  "stage KConnecting = 0"
| "stage KConnected = 1"
| "stage KDisconnecting = 2"
| "stage KDisconnected = 3"

instantiation conn_state :: linorder
begin

definition less_eq_conn_state :: "conn_state \<Rightarrow> conn_state \<Rightarrow> bool" where
  "less_eq_conn_state x y \<longleftrightarrow> stage x \<le> stage y"

definition less_conn_state :: "conn_state \<Rightarrow> conn_state \<Rightarrow> bool" where
  "less_conn_state x y \<longleftrightarrow> stage x < stage y"

lemma stage_inject: "stage x = stage y \<Longrightarrow> x = y"
  by (cases x; cases y) simp_all

instance
proof
  show "x \<le> y \<Longrightarrow> y \<le> x \<Longrightarrow> x = y" for x y :: conn_state
    unfolding less_eq_conn_state_def by (rule stage_inject) (rule antisym)
qed (auto simp: less_eq_conn_state_def less_conn_state_def)

end

lemma last_state [simp]: "KDisconnected \<le> x \<longleftrightarrow> x = KDisconnected"
  by (cases x) (simp_all add: less_eq_conn_state_def)

lemma below_last [simp]: "x \<le> KDisconnected" "KConnected \<le> KDisconnecting"
  by (cases x) (simp_all add: less_eq_conn_state_def)

definition calm :: "'c link \<Rightarrow> 'c link \<Rightarrow> bool" where
  "calm s s' \<longleftrightarrow> cstate (fst s') = cstate (fst s) \<and> connectionsPool (snd s') = connectionsPool (snd s)"

definition advances :: "'c link \<Rightarrow> 'c link \<Rightarrow> bool" where
  "advances s s' \<longleftrightarrow> cstate (fst s) \<le> cstate (fst s')
     \<and> (cstate (fst s) = KConnecting \<longleftrightarrow> cstate (fst s') = KConnecting)
     \<and> length (connectionsPool (snd s')) = length (connectionsPool (snd s))
         + (if cstate (fst s) \<noteq> KDisconnected \<and> cstate (fst s') = KDisconnected then 1 else 0)"

lemma calm_advances: "calm s s' \<Longrightarrow> advances s s'"
  by (simp add: calm_def advances_def)

lemma advances_trans:
  assumes "advances s t" and "advances t u"
  shows "advances s u"
proof -
  have "cstate (fst s) \<le> cstate (fst u)"
    using assms order_trans unfolding advances_def by blast
  moreover have "cstate (fst t) = KDisconnected \<Longrightarrow> cstate (fst u) = KDisconnected"
    and "cstate (fst s) = KDisconnected \<Longrightarrow> cstate (fst t) = KDisconnected"
    using assms by (simp_all add: advances_def)
  ultimately show ?thesis
    using assms unfolding advances_def by (cases "cstate (fst t) = KDisconnected") auto
qed

lemma ep_update_pool: "ep_update k op ch p = Inr p' \<Longrightarrow> connectionsPool p' = connectionsPool p"
  by (auto simp: ep_update_def Let_def split: if_splits)

lemma ch_update_pool: "ch_update k ch p = Inr (ch', p') \<Longrightarrow> connectionsPool p' = connectionsPool p"
  by (auto simp: ch_update_def ep_updateChannel_def ebind_eq_Inr Let_def
      dest!: ep_update_pool split: if_splits)

lemma with_chan_calm:
  "with_chan c' (enableEvents k ev ch p) = Inr s \<Longrightarrow> cstate c' = cstate c \<Longrightarrow> calm (c, p) s"
  "with_chan c' (disableEvents k ev ch p) = Inr s \<Longrightarrow> cstate c' = cstate c \<Longrightarrow> calm (c, p) s"
  by (auto simp: with_chan_def ebind_eq_Inr enableEvents_def disableEvents_def calm_def
      dest!: ch_update_pool)

lemma keep_writing_calm: "keep_writing k (c', p) = Inr s \<Longrightarrow> cstate c' = cstate c \<Longrightarrow> calm (c, p) s"
  by (auto simp: keep_writing_def calm_def split: if_splits dest: with_chan_calm(1) [where c = c])

lemma direct_write_calm: "direct_write wr d len c = (n, r, b, c') \<Longrightarrow> cstate c' = cstate c"
  by (auto simp: direct_write_def Let_def split: if_splits io.splits option.splits)

lemma direct_sendfile_calm: "direct_sendfile k fs sf f (c, p) = Inr s \<Longrightarrow> calm (c, p) s"
  by (auto simp: direct_sendfile_def sent_file_def k_sendfile_def Let_def sendFileReset_def
      queue_task_def calm_def split: if_splits io.splits option.splits
      dest!: keep_writing_calm [where c = c])

lemma sendInLoop_calm:
  assumes "sendInLoop k fs wr sf d len (c, p) = Inr s"
  shows "calm (c, p) s"
proof (cases "cstate c = KDisconnected")
  case True
  with assms show ?thesis by (simp add: sendInLoop_def calm_def)
next
  case False
  obtain n r b c1 where dw: "direct_write wr d len c = (n, r, b, c1)" by (metis prod_cases4)
  have c1: "cstate c1 = cstate c" by (rule direct_write_calm [OF dw])
  have eq: "sendInLoop k fs wr sf d len (c, p) =
      (if \<not> r \<le> len then Inl Assert_failed
       else if \<not> b \<and> 0 < r then
         ebind (append_data (outBuf c1) (slice n (n + r) d)) (\<lambda>q. keep_writing k (c1\<lparr>outBuf := q\<rparr>, p))
       else (case sendFile c1 of
               None \<Rightarrow> Inr (c1, p)
             | Some f \<Rightarrow> direct_sendfile k fs sf f (c1, p)))"
    using False dw by (simp add: sendInLoop_def)
  show ?thesis
  proof (cases "\<not> b \<and> 0 < r")
    case True
    with assms obtain q where "keep_writing k (c1\<lparr>outBuf := q\<rparr>, p) = Inr s"
      unfolding eq by (simp add: ebind_eq_Inr split: if_splits) blast
    then show ?thesis by (rule keep_writing_calm) (simp add: c1)
  next
    case False
    show ?thesis
    proof (cases "sendFile c1")
      case None
      with assms False have "s = (c1, p)" unfolding eq by (simp split: if_splits)
      then show ?thesis by (simp add: calm_def c1)
    next
      case (Some f)
      with assms False have "direct_sendfile k fs sf f (c1, p) = Inr s"
        unfolding eq by (simp split: if_splits)
      from direct_sendfile_calm [OF this] c1 show ?thesis by (simp add: calm_def)
    qed
  qed
qed

lemma drained_calm: "drained k (c', p) = Inr s \<Longrightarrow> cstate c' = cstate c \<Longrightarrow> calm (c, p) s"
  by (auto simp: drained_def ebind_eq_Inr calm_def Let_def split: if_splits
      dest!: with_chan_calm(2) [where c = c])

lemma handleWrite_calm: "handleWrite k fs wr sf (c, p) = Inr s \<Longrightarrow> calm (c, p) s"
  by (auto simp: handleWrite_def ebind_eq_Inr Let_def sent_file_def k_sendfile_def sendFileReset_def
      calm_def split: if_splits io.splits option.splits dest!: drained_calm [where c = c])

lemma reading_calm:
  "startReadInLoop k (c, p) = Inr s \<Longrightarrow> calm (c, p) s"
  "stopReadInLoop k (c, p) = Inr s \<Longrightarrow> calm (c, p) s"
  by (auto simp: startReadInLoop_def stopReadInLoop_def calm_def split: if_splits
      dest!: with_chan_calm [where c = c])

lemma send_view_calm: "send_view k fs wr sf l d (c, p) = Inr s \<Longrightarrow> calm (c, p) s"
  by (auto simp: send_view_def queue_task_def calm_def split: if_splits dest!: sendInLoop_calm)

lemma send_buffer_calm: "send_buffer k fs wr sf l b (c, p) = Inr (b', s) \<Longrightarrow> calm (c, p) s"
  by (auto simp: send_buffer_def queue_task_def calm_def ebind_eq_Inr split: if_splits
      dest!: sendInLoop_calm)

lemma remove_pool:
  "ch_remove k ch p = Inr (ch', p') \<Longrightarrow> length (connectionsPool p') = length (connectionsPool p) + 1"
  by (auto simp: ch_remove_def ep_removeChannel_def ebind_eq_Inr Let_def split: if_splits
      dest!: ep_update_pool)

lemma handleClose_advances:
  assumes "handleClose k (c, p) = Inr s"
  shows "advances (c, p) s"
proof -
  obtain ch1 p1 ch2 p2 where "disableAll k (chan c) p = Inr (ch1, p1)"
      "ch_remove k ch1 p1 = Inr (ch2, p2)" "s = (c\<lparr>cstate := KDisconnected, chan := ch2\<rparr>, p2)"
      "cstate c = KConnected \<or> cstate c = KDisconnecting"
    using assms
    by (auto simp: handleClose_def connectDestroyed_def with_chan_def ebind_eq_Inr split: if_splits)
  moreover from this have "length (connectionsPool p2) = length (connectionsPool p) + 1"
    using ch_update_pool [of k _ p ch1 p1] remove_pool [of k ch1 p1] by (simp add: disableAll_def)
  ultimately show ?thesis by (auto simp: advances_def)
qed

lemma handleRead_advances:
  assumes "handleRead k defaultMessageCallback err r (c, p) = Inr s"
  shows "advances (c, p) s"
proof -
  obtain n b where rd: "readFd (inBuf c) r = Inr (n, b)"
    using assms by (auto simp: handleRead_def ebind_eq_Inr)
  then consider "handleClose k (c\<lparr>inBuf := b\<rparr>, p) = Inr s"
    | "cstate (fst s) = cstate c" "snd s = p"
    using assms by (auto simp: handleRead_def defaultMessageCallback_def handleError_def
        add_notice_def Let_def split: if_splits sum.splits)
  then show ?thesis
  proof cases
    case 1
    from handleClose_advances [OF this] show ?thesis by (simp add: advances_def)
  qed (simp add: advances_def)
qed

lemma conn_callback_advances:
  "conn_callback k fs defaultMessageCallback err r wr sf cb s = Inr s' \<Longrightarrow> advances s s'"
  by (cases cb; cases s)
     (auto simp: conn_callback_def handleError_def add_notice_def
        intro: handleClose_advances handleRead_advances handleWrite_calm [THEN calm_advances]
        simp: advances_def [of "(c, p)" "(c\<lparr>notices := n\<rparr>, p)" for c p n]
          advances_def [of "(c, p)" "(c, p)" for c p])

lemma run_callbacks_advances:
  "run_callbacks (conn_callback k fs defaultMessageCallback err r wr sf) cbs s = Inr s' \<Longrightarrow> advances s s'"
proof (induction cbs arbitrary: s)
  case Nil
  then show ?case by (simp add: advances_def)
next
  case (Cons cb cbs)
  then show ?case by (auto simp: ebind_eq_Inr intro: conn_callback_advances advances_trans)
qed

lemma run_task_advances:
  assumes "run_task k fs sfirst wr sf t (c, p) = Inr s"
  shows "advances (c, p) s"
proof (cases t)
  case ForceCloseTask
  with assms show ?thesis
    by (auto simp: run_task_def forceCloseInLoop_def advances_def [of "(c, p)" "(c, p)"]
        split: if_splits intro: handleClose_advances)
next
  case (SendBufTask b)
  with assms show ?thesis
    by (auto simp: run_task_def send_buffer_task_def ebind_eq_Inr
        intro: sendInLoop_calm [THEN calm_advances])
next
  case (SendViewTask d)
  with assms show ?thesis
    by (auto simp: run_task_def intro: sendInLoop_calm [THEN calm_advances])
qed (use assms in \<open>auto simp: run_task_def advances_def add_notice_def
      dest!: reading_calm [THEN calm_advances]\<close>)

lemma life_step_advances:
  assumes "life_step k fs sfirst op s = Inr s'"
  shows "advances s s'"
proof -
  obtain c p where s: "s = (c, p)" by fastforce
  show ?thesis
  proof (cases op)
    case (EventOp ev err r wr sf)
    with assms s obtain c1 p1 where "run_callbacks (conn_callback k fs defaultMessageCallback err r wr sf)
        (dispatch (setRevents ev (chan c))) (c\<lparr>chan := (setRevents ev (chan c))\<lparr>eventHandling := True\<rparr>\<rparr>, p) = Inr (c1, p1)"
      and "s' = (c1\<lparr>chan := (chan c1)\<lparr>eventHandling := False\<rparr>\<rparr>, p1)"
      by (auto simp: conn_handleEvent_def ebind_eq_Inr)
    with run_callbacks_advances [OF this(1)] s show ?thesis by (simp add: advances_def)
  next
    case (TaskOp wr sf)
    show ?thesis
    proof (cases "pending c")
      case (Cons t ts)
      with assms s TaskOp have "run_task k fs sfirst wr sf t (c\<lparr>pending := ts\<rparr>, p) = Inr s'" by simp
      from run_task_advances [OF this] s show ?thesis by (simp add: advances_def)
    qed (use assms s TaskOp in \<open>simp add: advances_def\<close>)
  next
    case (SendBufOp l b wr sf)
    with assms s show ?thesis
      by (auto simp: ebind_eq_Inr intro: send_buffer_calm [THEN calm_advances])
  qed (use assms s in \<open>auto simp: startRead_def stopRead_def shutdown_def forceClose_def
        shutdownInLoop_def queue_task_def advances_def Let_def split: if_splits
        dest!: send_view_calm [THEN calm_advances] reading_calm [THEN calm_advances]\<close>)
qed

lemma life_run_advances: "life_run k fs sfirst ops s = Inr s' \<Longrightarrow> advances s s'"
proof (induction ops arbitrary: s)
  case Nil
  then show ?case by (simp add: advances_def)
next
  case (Cons op ops)
  then show ?case by (auto simp: ebind_eq_Inr intro: life_step_advances advances_trans)
qed

section \<open>Files\<close>

lemma handleWrite_file:
  assumes "isWriting (chan c)" and "readableBytes (outBuf c) = 0" and "sendFile c = Some f"
    and "0 < n" and "n < sendLen f"
  shows "handleWrite k fs wr (Done n) (c, p) =
    Inr (c\<lparr>wire := wire c @ slice (offset f) (offset f + n) (fs (inFd f)),
           sendFile := Some (f\<lparr>offset := offset f + 2 * n, sendLen := sendLen f - n\<rparr>)\<rparr>, p)"
  using assms by (simp add: handleWrite_def sent_file_def k_sendfile_def size_sub_def Let_def mult_2
      add.assoc)

lemma handleWrite_file_end:
  assumes "isWriting (chan c)" and "readableBytes (outBuf c) = 0" and "sendFile c = Some f"
    and "0 < sendLen f"
  shows "handleWrite k fs wr (Done (sendLen f)) (c, p) =
    drained k (c\<lparr>wire := wire c @ slice (offset f) (offset f + sendLen f) (fs (inFd f)),
                 sendFile := None\<rparr>, p)"
  using assms
  by (simp add: handleWrite_def sent_file_def k_sendfile_def size_sub_def Let_def sendFileReset_def)

text \<open>
  A run of write events while a file is being sent. What \<open>sendfile\<close>(2) may return depends
  on the offset, the length asked for and the end of the file.
\<close>

fun file_writes :: "kernel \<Rightarrow> (nat \<Rightarrow> bytes) \<Rightarrow> (send_file \<Rightarrow> io) list \<Rightarrow> 'c link \<Rightarrow> fault + 'c link" where
  "file_writes k fs [] s = Inr s"
| "file_writes k fs (w # ws) s =
     (case sendFile (fst s) of
        None \<Rightarrow> Inr s
      | Some f \<Rightarrow> ebind (handleWrite k fs (Done 0) (w f) s) (file_writes k fs ws))"

definition sendfile_sound :: "(nat \<Rightarrow> bytes) \<Rightarrow> (send_file \<Rightarrow> io) \<Rightarrow> bool" where
  "sendfile_sound fs w \<longleftrightarrow>
     (\<forall>f. io_fits (min (sendLen f) (length (fs (inFd f)) - offset f)) (w f))"

lemma file_writes_past_end:
  "isWriting (chan c) \<Longrightarrow> readableBytes (outBuf c) = 0 \<Longrightarrow> sendFile c = Some f \<Longrightarrow> 0 < sendLen f \<Longrightarrow>
   length (fs (inFd f)) < offset f + sendLen f \<Longrightarrow> \<forall>w \<in> set ws. sendfile_sound fs w \<Longrightarrow>
     \<exists>c' f'. file_writes k fs ws (c, p) = Inr (c', p) \<and> sendFile c' = Some f' \<and> 0 < sendLen f'
       \<and> isWriting (chan c')"
proof (induction ws arbitrary: c f)
  case (Cons w ws)
  show ?case
  proof (cases "\<exists>n. w f = Done n \<and> 0 < n")
    case False
    then have "handleWrite k fs (Done 0) (w f) (c, p) = Inr (c, p)"
      using Cons.prems(1-3) by (auto simp: handleWrite_def split: io.splits)
    with Cons show ?thesis by simp
  next
    case True
    then obtain n where n: "w f = Done n" "0 < n" by blast
    have "io_fits (min (sendLen f) (length (fs (inFd f)) - offset f)) (w f)"
      using Cons.prems(6) by (simp add: sendfile_sound_def)
    then have lt: "n < sendLen f" using n Cons.prems(5) by simp
    define f1 where "f1 = f\<lparr>offset := offset f + 2 * n, sendLen := sendLen f - n\<rparr>"
    define c1 where "c1 = c\<lparr>wire := wire c @ slice (offset f) (offset f + n) (fs (inFd f)),
        sendFile := Some f1\<rparr>"
    have "handleWrite k fs (Done 0) (w f) (c, p) = Inr (c1, p)"
      using handleWrite_file [OF Cons.prems(1-3) n(2) lt, of k fs "Done 0" p] n(1)
      by (simp add: c1_def f1_def)
    moreover have "\<exists>c' f'. file_writes k fs ws (c1, p) = Inr (c', p) \<and> sendFile c' = Some f'
        \<and> 0 < sendLen f' \<and> isWriting (chan c')"
      by (rule Cons.IH [where f = f1]) (use Cons.prems lt in \<open>simp_all add: c1_def f1_def\<close>)
    ultimately show ?thesis using Cons.prems(3) by simp
  qed
qed simp

section \<open>The connections of a poller\<close>

text \<open>
  \<open>Epoll::createConnection\<close>: connection objects are numbered; a closed one is taken from the
  back of the pool and reset, and only when the pool is empty a new one is made. Both end
  in \<open>connectEstablished\<close>, which runs at once since the caller is a functor of the loop.
  \<open>ctx\<close> is a fresh parser and \<open>rst\<close> its \<open>reset\<close>.
\<close>

record 'c registry =
  conns :: "nat \<Rightarrow> 'c conn"
  nextId :: nat

definition establish :: "kernel \<Rightarrow> nat \<Rightarrow> 'c registry \<times> poller \<Rightarrow> fault + ('c registry \<times> poller)" where
  "establish k i = (\<lambda>(g, p).
     ebind (connectEstablished k (conns g i, p)) (\<lambda>(c, p').
       Inr (g\<lparr>conns := (conns g)(i := c)\<rparr>, p')))"

definition createConnection :: "kernel \<Rightarrow> 'c \<Rightarrow> ('c \<Rightarrow> 'c) \<Rightarrow> bool \<Rightarrow> nat \<Rightarrow> 'c registry \<times> poller
    \<Rightarrow> fault + ('c registry \<times> poller)" where
  "createConnection k ctx rst wcb f = (\<lambda>(g, p).
     if connectionsPool p \<noteq> [] then
       (case last (connectionsPool p) of
          None \<Rightarrow> Inl Null_deref
        | Some i \<Rightarrow>
            establish k i
              (g\<lparr>conns := (conns g)(i := connectReset rst f (conns g i))\<rparr>,
               p\<lparr>connections := (connections p)(f \<mapsto> i),
                 connectionsPool := butlast (connectionsPool p)\<rparr>))
     else
       (let i = nextId g
        in establish k i
             (g\<lparr>conns := (conns g)(i := new_conn ctx wcb f), nextId := i + 1\<rparr>,
              p\<lparr>connections := (connections p)(f \<mapsto> i)\<rparr>)))"

text \<open>
  A pooled connection is as good as new for the stream once it is reset and established.
\<close>

lemma reuse_fresh:
  assumes "epoll_contract k" and "interest (calls p) f = None"
    and "buf_wf (inBuf c)" and "buf_wf (outBuf c)"
  shows "\<exists>c' p'. connectEstablished k (connectReset rst f c, p) = Inr (c', p')
     \<and> cstate c' = KConnected \<and> sockFd c' = f \<and> stream_ok c' p' \<and> hcontext c' = rst (hcontext c)
     \<and> contents (inBuf c') = [] \<and> contents (outBuf c') = [] \<and> creading c'
     \<and> interest (calls p') f = Some kReadEventLT"
proof -
  define c1 where "c1 = connectReset rst f c"
  have c1: "cstate c1 = KConnecting" "events (chan c1) = 0" "fd (chan c1) = f" "sockFd c1 = f"
      "sendFile c1 = None" "inBuf c1 = retrieveAll (inBuf c)" "outBuf c1 = retrieveAll (outBuf c)"
      "hcontext c1 = rst (hcontext c)" "creading c1"
    by (simp_all add: c1_def connectReset_def sendFileReset_def channelReset_def)
  have "chan_ok (chan c1) p" using connectReset_chan_ok [OF assms(2)] by (simp add: c1_def)
  from established_ok [OF assms(1) this c1(1,2)] obtain ch' p' where
    r: "connectEstablished k (c1, p)
       = Inr (add_notice (ConnectionNote True) (c1\<lparr>cstate := KConnected, chan := ch'\<rparr>), p')"
      "chan_ok ch' p'" "events ch' = kReadEventLT" "interest (calls p') f = Some kReadEventLT"
    by (auto simp: c1(3))
  have "\<not> isWriting ch'" using r(3) by (simp add: isWriting_def event_defs)
  with r c1 assms(3,4) show ?thesis
    by (simp add: c1_def [symmetric] add_notice_def stream_ok_def)
qed

lemma established_pool:
  "connectEstablished k (c, p) = Inr (c', p') \<Longrightarrow>
     connectionsPool p' = connectionsPool p \<and> connections p' = connections p"
  by (auto simp: connectEstablished_def with_chan_def enableEvents_def ch_update_def
      ep_updateChannel_def ep_update_def ebind_eq_Inr Let_def split: if_splits)

section \<open>Properties\<close>

text \<open>The connection of the witnesses: established on a fresh poller with descriptor 7.\<close>

definition conn7 :: "unit conn" where
  "conn7 = (new_conn () False 7)\<lparr>cstate := KConnected\<rparr>"

lemma conn7_fields [simp]:
  "cstate conn7 = KConnected" "fd (chan conn7) = 7" "events (chan conn7) = 0"
  "outBuf conn7 = new_buffer kInitSize" "inBuf conn7 = new_buffer kInitSize"
  "wire conn7 = []" "shutWr conn7 = 0" "sendFile conn7 = None"
  by (simp_all add: conn7_def new_conn_def setCallback_def new_channel_def)

lemma conn7_ok: "stream_ok conn7 new_poller" "chan_ok (chan conn7) new_poller"
proof -
  show "chan_ok (chan conn7) new_poller"
    using new_conn_chan_ok [of new_poller 7 "()" False]
    by (simp add: conn7_def new_poller_def)
  then show "stream_ok conn7 new_poller" by (simp add: stream_ok_def isWriting_def)
qed

text \<open>The same connection waiting to write three bytes.\<close>

definition busy7 :: "unit conn" where
  "busy7 = conn7\<lparr>outBuf := \<lparr>buf = replicate 8 kNul @ ''abc'', readerIndex = 8, writerIndex = 11\<rparr>,
     chan := (chan conn7)\<lparr>events := 7, status := kAdded\<rparr>\<rparr>"

definition busy_poller :: poller where
  "busy_poller = new_poller\<lparr>calls := [(Ctl CtlAdd 7 7, True)], connections := [7 \<mapsto> 0]\<rparr>"

lemma busy7_fields [simp]:
  "cstate busy7 = KConnected" "wire busy7 = []" "shutWr busy7 = 0" "sendFile busy7 = None"
  "contents (outBuf busy7) = ''abc''" "fd (chan busy7) = 7" "isWriting (chan busy7)"
  "readableBytes (outBuf busy7) = 3"
  by (simp_all add: busy7_def contents_def slice_def readableBytes_def size_sub_def isWriting_def
      event_defs)

lemma busy7_ok: "stream_ok busy7 busy_poller"
proof -
  have "chan_ok (chan busy7) busy_poller"
    by (simp add: chan_ok_def in_step_def busy7_def busy_poller_def)
  moreover have "buf_wf (outBuf busy7)" "buf_wf (inBuf busy7)"
    by (simp_all add: busy7_def buf_wf_def [of "\<lparr>buf = _, readerIndex = _, writerIndex = _\<rparr>"] kPrepend_def)
  ultimately show ?thesis by (simp add: stream_ok_def)
qed

text \<open>
  C4: The output of a connected stream is exact. Whatever sends, write events, incoming
  data and switching of reading occur, and however little the kernel takes each time, the
  operations run without a fault, the bytes on the wire followed by those in the output
  buffer are the bytes sent in order, and the kernel watches the descriptor for writing
  exactly as long as bytes wait in the buffer.
\<close>

theorem stream_integrity:
  assumes "epoll_contract k" and "stream_ok c p" and "cstate c = KConnected"
    and "\<forall>op \<in> set ops. op_sound op"
  shows "\<exists>c' p'. stream_run k fs ops (c, p) = Inr (c', p') \<and> cstate c' = KConnected
     \<and> wire c' @ contents (outBuf c') = wire c @ contents (outBuf c) @ concat (map op_data ops)
     \<and> ((\<exists>e. interest (calls p') (fd (chan c')) = Some e \<and> e AND kWriteEvent \<noteq> 0)
         = (contents (outBuf c') \<noteq> []))"
proof -
  obtain c' p' where r: "stream_run k fs ops (c, p) = Inr (c', p')" "stream_ok c' p'"
      "cstate c' = KConnected"
      "wire c' @ contents (outBuf c') = wire c @ contents (outBuf c) @ concat (map op_data ops)"
    using stream_run_ok [OF assms] by blast
  moreover from r(2) have "isWriting (chan c') \<longleftrightarrow> contents (outBuf c') \<noteq> []"
      and "chan_ok (chan c') p'" by (simp_all add: stream_ok_def)
  ultimately show ?thesis using chan_ok_interest [of "chan c'" p'] by auto
qed

lemma stream_integrity_witness:
  "\<exists>c' p'. stream_run plain_kernel (\<lambda>_. [])
      [SendData ''hello'' (\<lambda>m. Done (min m 2)), SendData '' all'' (\<lambda>_. Failed 11),
       Writable (\<lambda>m. Done (min m 4))] (conn7, new_poller) = Inr (c', p')
     \<and> wire c' @ contents (outBuf c') = ''hello all''"
  using stream_integrity [OF plain_kernel_contract conn7_ok(1) conn7_fields(1), where fs = "\<lambda>_. []"
      and ops = "[SendData ''hello'' (\<lambda>m. Done (min m 2)), SendData '' all'' (\<lambda>_. Failed 11),
       Writable (\<lambda>m. Done (min m 4))]"]
  by (auto simp: io_sound_def errno_defs)

text \<open>A sequence of write events.\<close>

fun writes :: "kernel \<Rightarrow> (nat \<Rightarrow> bytes) \<Rightarrow> (nat \<Rightarrow> io) list \<Rightarrow> 'c link \<Rightarrow> fault + 'c link" where
  "writes k fs [] s = Inr s"
| "writes k fs (w # ws) s =
     ebind (handleWrite k fs (w (readableBytes (outBuf (fst s)))) (Done 0) s) (writes k fs ws)"

lemma writes_disconnecting:
  "epoll_contract k \<Longrightarrow> stream_ok c p \<Longrightarrow> cstate c = KDisconnecting \<Longrightarrow> \<forall>w \<in> set ws. io_sound w \<Longrightarrow>
     shutWr c = (if contents (outBuf c) = [] then 1 else 0) \<Longrightarrow>
     \<exists>c' p'. writes k fs ws (c, p) = Inr (c', p')
       \<and> wire c' @ contents (outBuf c') = wire c @ contents (outBuf c)
       \<and> shutWr c' = (if contents (outBuf c') = [] then 1 else 0)"
proof (induction ws arbitrary: c p)
  case (Cons w ws)
  obtain c1 p1 where 1: "handleWrite k fs (w (readableBytes (outBuf c))) (Done 0) (c, p) = Inr (c1, p1)"
      "stream_ok c1 p1" "wire c1 @ contents (outBuf c1) = wire c @ contents (outBuf c)"
      "cstate c1 = cstate c"
      "shutWr c1 = shutWr c + (if cstate c = KDisconnecting \<and> contents (outBuf c) \<noteq> []
                                   \<and> contents (outBuf c1) = [] then 1 else 0)"
    using write_ok [OF Cons.prems(1,2), of "w (readableBytes (outBuf c))" fs "Done 0"] Cons.prems(4)
    by (auto simp: io_sound_def)
  have "contents (outBuf c) = [] \<Longrightarrow> contents (outBuf c1) = []"
  proof -
    assume e: "contents (outBuf c) = []"
    then have "\<not> isWriting (chan c)" using Cons.prems(2) by (simp add: stream_ok_def)
    with 1(1) e show ?thesis by (simp add: handleWrite_def)
  qed
  then have "shutWr c1 = (if contents (outBuf c1) = [] then 1 else 0)"
    using 1(5) Cons.prems(3,5) by auto
  with Cons.IH [OF Cons.prems(1) 1(2)] Cons.prems(3,4) 1(1,3,4) show ?case by auto
qed simp



text \<open>
  Closing is complete. From a connected or disconnecting state \<open>handleClose\<close> runs
  without a fault, and leaves the connection disconnected, its descriptor out of the
  kernel's interest set and of the poller's map, and the connection itself at the back of
  the pool, ready for reuse.
\<close>

theorem close_releases:
  assumes "epoll_contract k" and "chan_ok (chan c) p"
    and "cstate c = KConnected \<or> cstate c = KDisconnecting"
  shows "\<exists>c' p'. handleClose k (c, p) = Inr (c', p') \<and> cstate c' = KDisconnected
     \<and> interest (calls p') (fd (chan c)) = None \<and> connections p' (fd (chan c)) = None
     \<and> connectionsPool p' = connectionsPool p @ [connections p (fd (chan c))]
     \<and> conn_destructor c' = Inr ()"
  using handleClose_spec [OF assms] by (force simp: conn_destructor_def)

lemma close_releases_witness:
  "\<exists>c' p'. handleClose plain_kernel (busy7, busy_poller) = Inr (c', p')
     \<and> interest (calls p') 7 = None \<and> connectionsPool p' = [Some 0]"
proof -
  have "chan_ok (chan busy7) busy_poller" using busy7_ok by (simp add: stream_ok_def)
  from close_releases [OF plain_kernel_contract this] show ?thesis
    by (force simp: busy_poller_def new_poller_def)
qed

text \<open>
  C9: A connection is closed and pooled at most once. Over any sequence of sends, events,
  tasks, shutdowns and closes, with any outcome of the system calls, the state only moves
  forward from connected over disconnecting to disconnected, and the pool has grown by one
  exactly when the connection was closed on the way.
\<close>

theorem pooled_once:
  assumes "life_run k fs sfirst ops (c, p) = Inr (c', p')" and "cstate c = KConnected"
  shows "cstate c \<le> cstate c'
     \<and> length (connectionsPool p')
        = length (connectionsPool p) + (if cstate c' = KDisconnected then 1 else 0)"
  using life_run_advances [OF assms(1)] assms(2) by (simp add: advances_def)

lemma pooled_once_witness:
  "\<exists>c' p'. life_run plain_kernel (\<lambda>_. []) True [ForceCloseOp, TaskOp (Done 0) (Done 0)]
       (conn7, new_poller) = Inr (c', p') \<and> length (connectionsPool p') = 1"
proof -
  have "\<exists>c' p'. handleClose plain_kernel (conn7\<lparr>cstate := KDisconnecting, pending := []\<rparr>, new_poller)
      = Inr (c', p') \<and> cstate c' = KDisconnected"
    using handleClose_spec [OF plain_kernel_contract,
        of "conn7\<lparr>cstate := KDisconnecting, pending := []\<rparr>" new_poller] conn7_ok(2) by force
  moreover have "pending conn7 = []" by (simp add: conn7_def new_conn_def)
  ultimately obtain c' p' where r: "life_run plain_kernel (\<lambda>_. []) True
      [ForceCloseOp, TaskOp (Done 0) (Done 0)] (conn7, new_poller) = Inr (c', p')"
      "cstate c' = KDisconnected"
    by (auto simp: forceClose_def queue_task_def run_task_def forceCloseInLoop_def)
  from pooled_once [OF this(1) conn7_fields(1)] r show ?thesis by (simp add: new_poller_def)
qed

text \<open>
  C27: A file that the kernel does not take in one call is never finished. \<open>sendfile\<close> itself
  moves the offset on and the code moves it once more, so after a first call that copied
  only part of the file the offset runs past the end before the length is used up:
  whatever the kernel copies on later write events, the connection keeps the file, a
  length that is not zero and its interest in writing.
\<close>

theorem partial_sendfile_stuck:
  assumes "isWriting (chan c)" and "readableBytes (outBuf c) = 0" and "sendFile c = Some f"
    and "offset f + sendLen f = length (fs (inFd f))"
    and "w f = Done n" and "0 < n" and "n < sendLen f"
    and "\<forall>w' \<in> set ws. sendfile_sound fs w'"
  shows "\<exists>c' f'. file_writes k fs (w # ws) (c, p) = Inr (c', p) \<and> sendFile c' = Some f'
     \<and> 0 < sendLen f' \<and> isWriting (chan c')"
proof -
  define f1 where "f1 = f\<lparr>offset := offset f + 2 * n, sendLen := sendLen f - n\<rparr>"
  define c1 where "c1 = c\<lparr>wire := wire c @ slice (offset f) (offset f + n) (fs (inFd f)), sendFile := Some f1\<rparr>"
  have "handleWrite k fs (Done 0) (w f) (c, p) = Inr (c1, p)"
    unfolding assms(5) using handleWrite_file [OF assms(1-3,6,7), of k fs "Done 0" p]
    by (simp add: c1_def f1_def)
  moreover have "\<exists>c' f'. file_writes k fs ws (c1, p) = Inr (c', p) \<and> sendFile c' = Some f'
      \<and> 0 < sendLen f' \<and> isWriting (chan c')"
    by (rule file_writes_past_end [where f = f1]) (use assms in \<open>simp_all add: c1_def f1_def\<close>)
  ultimately show ?thesis using assms(3) by simp
qed

definition file7 :: "unit conn" where
  "file7 = busy7\<lparr>outBuf := new_buffer 8, sendFile := Some \<lparr>inFd = 9, offset = 0, sendLen = 6\<rparr>\<rparr>"

lemma partial_sendfile_stuck_witness:
  "\<exists>c' f'. file_writes plain_kernel (\<lambda>_. ''abcdef'')
       [\<lambda>f. Done 2, \<lambda>f. Done (min (sendLen f) (6 - offset f)), \<lambda>f. Failed 11] (file7, busy_poller)
     = Inr (c', busy_poller) \<and> sendFile c' = Some f' \<and> 0 < sendLen f' \<and> isWriting (chan c')"
proof (rule partial_sendfile_stuck [where f = "\<lparr>inFd = 9, offset = 0, sendLen = 6\<rparr>" and n = 2])
  show "isWriting (chan file7)" "sendFile file7 = Some \<lparr>inFd = 9, offset = 0, sendLen = 6\<rparr>"
    by (simp_all add: file7_def)
  show "readableBytes (outBuf file7) = 0"
    by (simp add: file7_def new_buffer_def readableBytes_def size_sub_def)
  show "\<forall>w' \<in> set [\<lambda>f. Done (min (sendLen f) (6 - offset f)), \<lambda>f. Failed 11].
      sendfile_sound (\<lambda>_. ''abcdef'') w'"
    by (simp add: sendfile_sound_def) (simp add: min_le_iff_disj eval_nat_numeral)
qed simp_all

text \<open>
  A file waiting behind buffered output is forgotten. When a write event empties the
  output buffer, interest in writing is switched off although a file is still to be sent,
  and every later write event does nothing: the file is not sent.
\<close>

theorem drain_forgets_file:
  assumes "epoll_contract k" and "chan_ok (chan c) p" and "buf_wf (outBuf c)"
    and "isWriting (chan c)" and "contents (outBuf c) \<noteq> []"
  shows "\<exists>c' p'. handleWrite k fs (Done (readableBytes (outBuf c))) sf (c, p) = Inr (c', p')
     \<and> wire c' = wire c @ contents (outBuf c) \<and> sendFile c' = sendFile c \<and> \<not> isWriting (chan c')
     \<and> (\<forall>wr' sf'. handleWrite k fs wr' sf' (c', p') = Inr (c', p'))"
proof -
  define n where "n = readableBytes (outBuf c)"
  have n: "n = length (contents (outBuf c))" "0 < n"
    using assms(5) readable_contents [OF assms(3)] by (simp_all add: n_def)
  obtain b where b: "retrieve (outBuf c) n = Inr b" "buf_wf b" "contents b = []"
    using buffer_queue.tk_ok [OF assms(3), of n] n by auto
  define c1 where "c1 = c\<lparr>wire := wire c @ contents (outBuf c), outBuf := b\<rparr>"
  have "handleWrite k fs (Done n) sf (c, p) = drained k (c1, p)"
    using assms(4) n b readable_zero [OF b(2)]
    by (simp add: handleWrite_def c1_def n_def [symmetric] Let_def)
  moreover obtain c' p' where "drained k (c1, p) = Inr (c', p')" "\<not> isWriting (chan c')"
      "sendFile c' = sendFile c1" "wire c' = wire c1"
    using drained_spec [OF assms(1), of c1 p] assms(2) by (auto simp: c1_def)
  ultimately show ?thesis by (simp add: n_def c1_def handleWrite_def)
qed

lemma drain_forgets_file_witness:
  "\<exists>c' p'. handleWrite plain_kernel (\<lambda>_. ''file'') (Done 3) (Done 0)
       (busy7\<lparr>sendFile := Some \<lparr>inFd = 9, offset = 0, sendLen = 4\<rparr>\<rparr>, busy_poller) = Inr (c', p')
     \<and> sendFile c' = Some \<lparr>inFd = 9, offset = 0, sendLen = 4\<rparr> \<and> \<not> isWriting (chan c')"
  using drain_forgets_file [OF plain_kernel_contract, where fs = "\<lambda>_. ''file''" and sf = "Done 0"
      and c = "busy7\<lparr>sendFile := Some \<lparr>inFd = 9, offset = 0, sendLen = 4\<rparr>\<rparr>" and p = busy_poller]
    busy7_ok by (auto simp: stream_ok_def)

text \<open>
  Sending from another thread. A string sent on a connected connection is dropped
  without a trace; a buffer sent that way is queued, but when the compiler evaluates the
  string argument first, its bytes are taken out of the buffer and none of them is sent.
\<close>

theorem send_from_other_thread:
  assumes "cstate c = KConnected" and "buf_wf b" and "sendFile c = None" and "contents (outBuf c) \<noteq> []"
    and "buf_wf (outBuf c)"
  shows "send_view k fs wr sf False d (c, p) = Inr (c, p)
     \<and> send_buffer k fs wr sf False b (c, p) = Inr (b, (queue_task (SendBufTask b) c, p))
     \<and> send_buffer_task k fs wr sf True b (c, p) = Inr (c, p)"
proof -
  obtain b' where b': "retrieveAllAsString b = Inr (contents b, b')" "buf_wf b'" "contents b' = []"
    using retrieveAsString_spec [OF assms(2), of "readableBytes b"] readable_contents [OF assms(2)]
    by (auto simp: retrieveAllAsString_def)
  have "readableBytes b' = 0" using b'(3) readable_zero [OF b'(2)] by simp
  moreover have "readableBytes (outBuf c) \<noteq> 0" using assms(4,5) readable_zero by blast
  ultimately show ?thesis
    using assms(1,3) b'(1)
    by (simp add: send_view_def send_buffer_def send_buffer_task_def sendInLoop_def direct_write_def)
qed

lemma send_from_other_thread_witness:
  "send_view plain_kernel (\<lambda>_. []) (Done 0) (Done 0) False ''lost'' (busy7, busy_poller)
     = Inr (busy7, busy_poller)"
  using send_from_other_thread [of busy7 "new_buffer 8" plain_kernel "\<lambda>_. []" "Done 0" "Done 0"
      "''lost''" busy_poller] busy7_ok by (simp add: stream_ok_def)

text \<open>
  The poller reuses its closed connections. With a closed connection at the back of
  the pool, \<open>createConnection\<close> allocates none: it takes that one out of the pool, registers
  it under the new descriptor, leaves the other connections alone, and the reused one is a
  connected stream with nothing buffered, a reset parser and the kernel watching for input.
\<close>

theorem createConnection_reuses:
  assumes "epoll_contract k" and "connectionsPool p = rest @ [Some i]"
    and "interest (calls p) f = None" and "buf_wf (inBuf (conns g i))" and "buf_wf (outBuf (conns g i))"
  shows "\<exists>g' p'. createConnection k ctx rst wcb f (g, p) = Inr (g', p')
     \<and> nextId g' = nextId g \<and> connectionsPool p' = rest \<and> connections p' f = Some i
     \<and> (\<forall>j. j = i \<or> conns g' j = conns g j)
     \<and> cstate (conns g' i) = KConnected \<and> stream_ok (conns g' i) p'
     \<and> contents (inBuf (conns g' i)) = [] \<and> contents (outBuf (conns g' i)) = []
     \<and> hcontext (conns g' i) = rst (hcontext (conns g i))
     \<and> interest (calls p') f = Some kReadEventLT"
proof -
  define p0 where "p0 = p\<lparr>connections := (connections p)(f \<mapsto> i), connectionsPool := rest\<rparr>"
  have "interest (calls p0) f = None" using assms(3) by (simp add: p0_def)
  from reuse_fresh [OF assms(1) this assms(4,5), of rst] obtain c' p' where
    r: "connectEstablished k (connectReset rst f (conns g i), p0) = Inr (c', p')"
      "cstate c' = KConnected" "stream_ok c' p'" "hcontext c' = rst (hcontext (conns g i))"
      "contents (inBuf c') = []" "contents (outBuf c') = []"
      "interest (calls p') f = Some kReadEventLT" by blast
  from established_pool [OF r(1)] have "connectionsPool p' = rest" "connections p' f = Some i"
    by (simp_all add: p0_def)
  with r assms(2) show ?thesis
    by (simp add: createConnection_def establish_def p0_def)
qed

lemma createConnection_reuses_witness:
  "\<exists>g' p'. createConnection plain_kernel () (\<lambda>_. ()) False 9
      (\<lparr>conns = (\<lambda>_. busy7), nextId = 1\<rparr>, busy_poller\<lparr>connectionsPool := [None, Some 0]\<rparr>) = Inr (g', p')
     \<and> nextId g' = 1 \<and> connectionsPool p' = [None] \<and> connections p' 9 = Some 0"
  using createConnection_reuses [OF plain_kernel_contract, where rest = "[None]" and i = 0 and f = 9
      and p = "busy_poller\<lparr>connectionsPool := [None, Some 0]\<rparr>"
      and g = "\<lparr>conns = (\<lambda>_. busy7), nextId = 1\<rparr>" and ctx = "()" and rst = "\<lambda>_. ()" and wcb = False] busy7_ok
  by (force simp: stream_ok_def busy_poller_def)

end
