(* ===== verification/HttpServer.thy ===== *)
theory HttpServer
  imports HttpMessage TcpConnection
begin

text \<open>
  \<open>http/HttpServer.cpp\<close>: what the server does with the input of a connection, on the model of
  the connection, its parser and its buffers. The user's \<open>httpCallback_\<close> is a parameter, and
  so are the two instances of \<open>boost::lexical_cast\<close>. The lemmas join those of the buffer, the
  output path, the parser and the response into one statement per kind of input.
\<close>

section \<open>Handlers\<close>

type_synonym server_conn = "request_parser conn"

type_synonym http_callback = "request \<Rightarrow> send_file response \<Rightarrow> send_file response"

definition bad_request :: bytes where
  "bad_request = ''HTTP/1.1 400 Bad Request'' @ crlf @ crlf"

definition onRequest :: "kernel \<Rightarrow> (nat \<Rightarrow> bytes) \<Rightarrow> (bytes \<Rightarrow> bytes option) \<Rightarrow> http_callback \<Rightarrow> io \<Rightarrow> io
    \<Rightarrow> request \<Rightarrow> request_parser link \<Rightarrow> fault + request_parser link" where
  "onRequest k fs lc_string cb wr sf rq = (\<lambda>(c, p).
     (let connection = getHeader lc_string ''Connection'' [] rq;
          response = cb rq (setClose connection new_response)
      in ebind (appendToBuffer sendLen response (new_buffer kInitSize)) (\<lambda>b.
           (let c1 = (if rfile response \<noteq> None then setSendFile (rfile response) c else c)
            in ebind (send_buffer k fs wr sf True b (c1, p)) (\<lambda>(b', c2, p2).
                 if closeConnection response then Inr (shutdown True c2, p2)
                 else
                   (let c3 = c2\<lparr>hcontext := rp_reset (hcontext c2)\<rparr>
                    in Inr (if sendFile c3 \<noteq> None then sendFileReset c3 else c3, p2)))))))"

definition onMessage :: "kernel \<Rightarrow> (nat \<Rightarrow> bytes) \<Rightarrow> (bytes \<Rightarrow> bytes option) \<Rightarrow> (bytes \<Rightarrow> nat option)
    \<Rightarrow> http_callback \<Rightarrow> io \<Rightarrow> io \<Rightarrow> request_parser link \<Rightarrow> fault + request_parser link" where
  "onMessage k fs lc_string lc_uint64 cb wr sf = (\<lambda>(c, p).
     ebind (rp_execute (hcontext c) (inBuf c)) (\<lambda>(n, rp, b).
     ebind (if rp_hasError rp
            then ebind (send_view k fs wr sf True bad_request (c\<lparr>hcontext := rp, inBuf := b\<rparr>, p))
                   (\<lambda>(c2, p2). Inr (shutdown True c2, p2))
            else Inr (c\<lparr>hcontext := rp, inBuf := b\<rparr>, p)) (\<lambda>(c3, p3).
     if rp_isFinished rp = 1 then
       (let length' = getContentLength lc_uint64 rp in
        if 0 < length' then
          (let len = size_sub length' (length (rbody (req rp)));
               e = peek (inBuf c3)
                   + (if readableBytes (inBuf c3) < len then readableBytes (inBuf c3) else len);
               rp4 = rp\<lparr>req := addBody (slice (peek (inBuf c3)) e (buf (inBuf c3))) (req rp)\<rparr>;
               c4 = c3\<lparr>hcontext := rp4\<rparr>
           in ebind (if length (rbody (req rp4)) = length'
                     then onRequest k fs lc_string cb wr sf (req rp4) (c4, p3) else Inr (c4, p3))
                (\<lambda>(c5, p5). ebind (retrieveUntil (inBuf c5) e) (\<lambda>b5. Inr (c5\<lparr>inBuf := b5\<rparr>, p5))))
        else onRequest k fs lc_string cb wr sf (req rp) (c3, p3))
     else Inr (c3, p3))))"

section \<open>Answering a request\<close>

definition answer :: "(bytes \<Rightarrow> bytes option) \<Rightarrow> http_callback \<Rightarrow> request \<Rightarrow> send_file response" where
  "answer lc_string cb rq = cb rq (setClose (getHeader lc_string ''Connection'' [] rq) new_response)"

lemma stream_ok_context [simp]:
  "stream_ok (c\<lparr>hcontext := rp\<rparr>) p = stream_ok c p"
  "stream_ok (c\<lparr>hcontext := rp, inBuf := b\<rparr>) p = (stream_ok (c\<lparr>inBuf := b\<rparr>) p)"
  by (simp_all add: stream_ok_def)

lemma stream_ok_inBuf: "stream_ok c p \<Longrightarrow> buf_wf b \<Longrightarrow> stream_ok (c\<lparr>inBuf := b\<rparr>) p"
  by (simp add: stream_ok_def)

lemma shutdown_frame [simp]:
  "chan (shutdown b c) = chan c" "inBuf (shutdown b c) = inBuf c" "outBuf (shutdown b c) = outBuf c"
  "sendFile (shutdown b c) = sendFile c" "wire (shutdown b c) = wire c" "hcontext (shutdown b c) = hcontext c"
  "cstate (shutdown b c) = (if cstate c = KConnected then KDisconnecting else cstate c)"
  by (simp_all add: shutdown_def shutdownInLoop_def queue_task_def Let_def)

lemma stream_ok_shutdown [simp]: "stream_ok (shutdown b c) p = stream_ok c p"
  by (simp add: stream_ok_def)

lemma direct_write_context:
  "direct_write wr d len c = (n, r, f, c') \<Longrightarrow> hcontext c' = hcontext c \<and> inBuf c' = inBuf c"
  by (auto simp: direct_write_def Let_def writeComplete_def queue_task_def
      split: if_splits io.splits option.splits)

lemma send_context:
  assumes "sendInLoop k fs wr sf d (length d) (c, p) = Inr (c', p')" and "sendFile c = None"
  shows "hcontext c' = hcontext c \<and> inBuf c' = inBuf c"
proof (cases "cstate c = KDisconnected")
  case True
  with assms(1) show ?thesis by (simp add: sendInLoop_def)
next
  case False
  obtain n r f c1 where dw: "direct_write wr d (length d) c = (n, r, f, c1)" by (metis prod_cases4)
  have sf: "sendFile c1 = None"
    using dw assms(2) by (auto simp: direct_write_def Let_def split: if_splits io.splits)
  have "hcontext c' = hcontext c1 \<and> inBuf c' = inBuf c1"
  proof (cases "\<not> f \<and> 0 < r")
    case True
    with assms(1) False dw obtain b where "keep_writing k (c1\<lparr>outBuf := b\<rparr>, p) = Inr (c', p')"
      by (auto simp: sendInLoop_def ebind_eq_Inr split: if_splits)
    then show ?thesis
      by (auto simp: keep_writing_def with_chan_def ebind_eq_Inr split: if_splits)
  next
    case False
    with assms(1) \<open>cstate c \<noteq> KDisconnected\<close> dw sf show ?thesis
      by (auto simp: sendInLoop_def split: if_splits)
  qed
  with direct_write_context [OF dw] show ?thesis by simp
qed

lemma onRequest_ok:
  assumes "epoll_contract k" and "stream_ok c p" and "cstate c = KConnected"
    and "r = answer lc_string cb rq" and "rfile r = None"
    and "io_fits (length (response_text sendLen r)) wr" and "\<not> io_broken wr"
  shows "\<exists>c' p'. onRequest k fs lc_string cb wr sf rq (c, p) = Inr (c', p') \<and> stream_ok c' p'
     \<and> wire c' @ contents (outBuf c') = wire c @ contents (outBuf c) @ response_text sendLen r
     \<and> inBuf c' = inBuf c
     \<and> cstate c' = (if closeConnection r then KDisconnecting else KConnected)
     \<and> hcontext c' = (if closeConnection r then hcontext c else rp_reset (hcontext c))"
proof -
  obtain b where b: "appendToBuffer sendLen r (new_buffer kInitSize) = Inr b" "buf_wf b"
      "contents b = response_text sendLen r"
    using appendToBuffer_spec [OF buf_wf_new, of sendLen r kInitSize] by auto
  have ne: "cstate c \<noteq> KDisconnected" using assms(3) by simp
  obtain c2 p2 where s: "sendInLoop k fs wr sf (contents b) (length (contents b)) (c, p) = Inr (c2, p2)"
      "stream_ok c2 p2" "wire c2 @ contents (outBuf c2) = wire c @ contents (outBuf c) @ contents b"
      "cstate c2 = cstate c"
    using send_ok [OF assms(1,2) ne, of "contents b" wr fs sf] assms(6,7) b(3) by auto
  have ctx: "hcontext c2 = hcontext c" "inBuf c2 = inBuf c"
    using send_context [OF s(1)] assms(2) by (simp_all add: stream_ok_def)
  have nf: "sendFile c2 = None" using s(2) by (simp add: stream_ok_def)
  have "send_buffer k fs wr sf True b (c, p) = Inr (retrieveAll b, (c2, p2))"
    using s(1) assms(3) readable_contents [OF b(2)] by (simp add: send_buffer_def del: readable_wf)
  then show ?thesis
    using b s ctx nf assms(3,5) unfolding onRequest_def answer_def [symmetric] Let_def
    by (simp add: assms(4) [symmetric])
qed

lemma rp_reset_ready: "hooks m = hooks (hp rp) \<Longrightarrow> \<forall>h. h \<in> set (hooks m) \<Longrightarrow> rp_ready (rp_reset rp)"
  by (simp add: rp_ready_def rp_reset_def all_hooks_def http_parser_init_def http_parser_start_def)

lemma rp_finished_no_error: "rp_isFinished rp = 1 \<Longrightarrow> rp_hasError rp \<longleftrightarrow> perror rp \<noteq> 0"
  by (simp add: rp_isFinished_def rp_hasError_def http_parser_finish_def split: if_splits)

text \<open>\<open>onMessage\<close> on the text of a request without a body, up to the check for an error.\<close>

lemma onMessage_request:
  assumes "rp_ready (hcontext c)" and "text_ok t" and "buf_wf (inBuf c)"
    and "contents (inBuf c) = request_text t @ x" and "length (contents (inBuf c)) < 2 ^ 31"
    and "getHeader lcn ''Content-Length'' 0 (request_of t) = 0"
  shows "\<exists>rp b. buf_wf b \<and> contents b = x \<and> req rp = request_of t \<and> hooks (hp rp) = hooks (hp (hcontext c))
     \<and> perror rp = (if method_of (tmethod t) = KInvalid then 1000 else perror (hcontext c))
     \<and> rp_isFinished rp = 1
     \<and> onMessage k fs lcs lcn cb wr sf (c, p) =
         ebind (if perror rp \<noteq> 0
            then ebind (send_view k fs wr sf True bad_request (c\<lparr>hcontext := rp, inBuf := b\<rparr>, p))
                   (\<lambda>(c2, p2). Inr (shutdown True c2, p2))
            else Inr (c\<lparr>hcontext := rp, inBuf := b\<rparr>, p))
           (onRequest k fs lcs cb wr sf (request_of t))"
proof -
  obtain rp b where e: "rp_execute (hcontext c) (inBuf c) = Inr (length (request_text t), rp, b)"
      "buf_wf b" "contents b = x" "req rp = request_of t" "rp_isFinished rp = 1"
      "hooks (hp rp) = hooks (hp (hcontext c))"
      "perror rp = (if method_of (tmethod t) = KInvalid then 1000 else perror (hcontext c))"
    using rp_execute_request [OF assms(1-5)] by blast
  have "getContentLength lcn rp = 0" using e(4) assms(6) by (simp add: getContentLength_def)
  then have "onMessage k fs lcs lcn cb wr sf (c, p) =
         ebind (if perror rp \<noteq> 0
            then ebind (send_view k fs wr sf True bad_request (c\<lparr>hcontext := rp, inBuf := b\<rparr>, p))
                   (\<lambda>(c2, p2). Inr (shutdown True c2, p2))
            else Inr (c\<lparr>hcontext := rp, inBuf := b\<rparr>, p))
           (onRequest k fs lcs cb wr sf (request_of t))"
    using e(1,4,5) rp_finished_no_error [OF e(5)]
    by (simp add: onMessage_def case_prod_beta' split: if_split)
  with e show ?thesis by blast
qed

lemma no_content_length: "header_map (theaders t) Map.empty ''Content-Length'' = None \<Longrightarrow>
    getHeader lcn ''Content-Length'' 0 (request_of t) = 0"
  by (simp add: getHeader_def request_of_def)

text \<open>What of the input goes into the body, and what stays in the buffer.\<close>

lemma piece_taken:
  assumes "buf_wf b" and "contents b = d"
  shows "slice (peek b) (peek b + (if length d < m then length d else m)) (buf b) = take m d"
    and "\<exists>b'. retrieveUntil b (peek b + (if length d < m then length d else m)) = Inr b' \<and> buf_wf b' \<and> contents b' = drop m d"
proof -
  define q where "q = (if length d < m then length d else m)"
  have q: "q \<le> length (contents b)" "take q d = take m d" "drop q d = drop m d" by (simp_all add: q_def assms(2))
  then have "slice (peek b) (peek b + q) (buf b) = take q (contents b)"
    using length_contents [OF assms(1)] by (simp add: contents_def peek_def slice_def min_absorb1)
  then show "slice (peek b) (peek b + (if length d < m then length d else m)) (buf b) = take m d"
    using assms(2) q(2) by (simp add: q_def [symmetric])
  show "\<exists>b'. retrieveUntil b (peek b + (if length d < m then length d else m)) = Inr b' \<and> buf_wf b' \<and> contents b' = drop m d"
    using retrieveUntil_spec [OF assms(1), of q] q assms(2) by (auto simp: q_def [symmetric])
qed

text \<open>\<open>onMessage\<close> behind the header, when a body was announced and some of it is missing.\<close>

lemma onMessage_body:
  assumes "rp_execute (hcontext c) (inBuf c) = Inr (i, rp, b)" and "perror rp = 0" and "rp_isFinished rp = 1"
    and "buf_wf b" and "contents b = d" and "n = getContentLength lcn rp" and "length (rbody (req rp)) < n"
    and "missing = n - length (rbody (req rp))" and "rq = addBody (take missing d) (req rp)"
    and "c1 = c\<lparr>hcontext := rp\<lparr>req := rq\<rparr>, inBuf := b\<rparr>"
    and "e = peek b + (if length d < missing then length d else missing)"
  shows "onMessage k fs lcs lcn cb wr sf (c, p) =
     ebind (if \<not> length d < missing then onRequest k fs lcs cb wr sf rq (c1, p) else Inr (c1, p))
       (\<lambda>(c5, p5). ebind (retrieveUntil (inBuf c5) e) (\<lambda>b5. Inr (c5\<lparr>inBuf := b5\<rparr>, p5)))"
proof -
  have miss: "size_sub n (length (rbody (req rp))) = missing" using assms(7,8) by simp
  have e: "peek b + (if readableBytes b < missing then readableBytes b else missing) = e"
    using readable_contents [OF assms(4)] assms(5) by (simp add: assms(11))
  have noerr: "rp_hasError rp = False" "(rp_isFinished rp = 1) = True" "(0 < n) = True"
    using assms(2,3,7) rp_finished_no_error [OF assms(3)] by simp_all
  have full: "length (rbody rq) = n \<longleftrightarrow> \<not> length d < missing"
    using assms(7,8,9) by (auto simp: addBody_def)
  have inb: "inBuf (c\<lparr>hcontext := rp, inBuf := b\<rparr>) = b"
    "c\<lparr>hcontext := rp, inBuf := b\<rparr>\<lparr>hcontext := rp\<lparr>req := rq\<rparr>\<rparr> = c1" by (simp_all add: assms(10))
  show ?thesis
    unfolding onMessage_def prod.case assms(1) ebind_Inr noerr if_False if_True assms(6) [symmetric] Let_def inb miss e
      piece_taken(1) [OF assms(4,5), of missing, folded assms(11)] assms(9) [symmetric] using full by (simp add: inb(2))
qed

text \<open>
  A message that is there as a whole, with its body if it has one: the length announced is
  the length of the body. \<open>onMessage\<close> does what \<open>onRequest\<close> does with the request as written.
\<close>

lemma onMessage_whole:
  assumes "rp_ready (hcontext c)" and "perror (hcontext c) = 0" and "text_ok t" and "method_of (tmethod t) \<noteq> KInvalid"
    and "buf_wf (inBuf c)" and "contents (inBuf c) = request_text t @ body @ x" and "length (contents (inBuf c)) < 2 ^ 31"
    and "getHeader lcn ''Content-Length'' 0 (request_of t) = length body"
  obtains b rp where "buf_wf b" and "rp_ready (rp_reset rp)" and "perror (rp_reset rp) = 0"
    and "\<forall>c2 p2. onRequest k fs lcs cb wr sf (addBody body (request_of t)) (c\<lparr>hcontext := rp, inBuf := b\<rparr>, p) = Inr (c2, p2) \<longrightarrow>
      inBuf c2 = b \<longrightarrow> (\<exists>b'. onMessage k fs lcs lcn cb wr sf (c, p) = Inr (c2\<lparr>inBuf := b'\<rparr>, p2) \<and> buf_wf b' \<and> contents b' = x)"
proof -
  obtain rp b where x: "rp_execute (hcontext c) (inBuf c) = Inr (length (request_text t), rp, b)"
      "buf_wf b" "contents b = body @ x" "req rp = request_of t" "rp_isFinished rp = 1"
      "hooks (hp rp) = hooks (hp (hcontext c))" "perror rp = 0"
    using rp_execute_request [OF assms(1,3,5,6,7)] assms(2,4) by auto
  define rp1 where "rp1 = rp\<lparr>req := addBody body (request_of t)\<rparr>"
  have "rp_ready (rp_reset rp1)"
    using rp_reset_ready [of "hp (hcontext c)" rp1] x(6) assms(1) by (simp add: rp1_def rp_ready_def all_hooks_def)
  moreover have "perror (rp_reset rp1) = 0" using x(7) by (simp add: rp_reset_def rp1_def)
  moreover have "\<exists>b'. onMessage k fs lcs lcn cb wr sf (c, p) = Inr (c2\<lparr>inBuf := b'\<rparr>, p2) \<and> buf_wf b' \<and> contents b' = x"
    if q: "onRequest k fs lcs cb wr sf (addBody body (request_of t)) (c\<lparr>hcontext := rp1, inBuf := b\<rparr>, p) = Inr (c2, p2)" "inBuf c2 = b"
    for c2 p2
  proof (cases "body = []")
    case True
    have "request_of t = addBody [] (request_of t)" by (simp add: addBody_def)
    then have "rp1 = rp" "addBody body (request_of t) = req rp" using x(4) True by (simp_all add: rp1_def)
    moreover have "getContentLength lcn rp = 0" using x(4) assms(8) True by (simp add: getContentLength_def)
    ultimately have "onMessage k fs lcs lcn cb wr sf (c, p) = Inr (c2, p2)"
      using x(1,5,7) q(1) rp_finished_no_error [OF x(5)] by (simp add: onMessage_def rp1_def)
    then show ?thesis using q(2) x(2,3) True by (intro exI [of _ b]) auto
  next
    case False
    define e where "e = peek b + (if length (body @ x) < length body then length (body @ x) else length body)"
    obtain b' where b': "retrieveUntil b e = Inr b'" "buf_wf b'" "contents b' = x"
      using piece_taken(2) [OF x(2,3), of "length body"] by (auto simp: e_def)
    have n: "length body = getContentLength lcn rp" "rbody (req rp) = []"
      using x(4) assms(8) by (simp_all add: getContentLength_def request_of_def)
    define c1 where "c1 = c\<lparr>hcontext := rp1, inBuf := b\<rparr>"
    have "onMessage k fs lcs lcn cb wr sf (c, p) = ebind (onRequest k fs lcs cb wr sf (addBody body (request_of t)) (c1, p))
        (\<lambda>(c5, p5). ebind (retrieveUntil (inBuf c5) e) (\<lambda>b5. Inr (c5\<lparr>inBuf := b5\<rparr>, p5)))"
      using onMessage_body [OF x(1,7,5,2,3) n(1) _ _ _ c1_def [unfolded rp1_def] e_def, of k fs lcs cb wr sf p] n(2) False x(4)
      by simp
    with q [folded c1_def] b' show ?thesis by (intro exI [of _ b']) simp
  qed
  ultimately show thesis using that x(2) by blast
qed

lemma message_served:
  assumes "epoll_contract k" and "stream_ok c p" and "cstate c = KConnected"
    and "rp_ready (hcontext c)" and "perror (hcontext c) = 0" and "text_ok t" and "method_of (tmethod t) \<noteq> KInvalid"
    and "contents (inBuf c) = request_text t @ body @ x" and "length (contents (inBuf c)) < 2 ^ 31"
    and "getHeader lcn ''Content-Length'' 0 (request_of t) = length body"
    and "r = answer lcs cb (addBody body (request_of t))" and "rfile r = None"
    and "io_fits (length (response_text sendLen r)) wr" and "\<not> io_broken wr"
  shows "\<exists>c' p'. onMessage k fs lcs lcn cb wr sf (c, p) = Inr (c', p') \<and> stream_ok c' p'
     \<and> wire c' @ contents (outBuf c') = wire c @ contents (outBuf c) @ response_text sendLen r
     \<and> contents (inBuf c') = x
     \<and> (if closeConnection r then cstate c' = KDisconnecting
         else cstate c' = KConnected \<and> rp_ready (hcontext c') \<and> perror (hcontext c') = 0)"
proof -
  have wf: "buf_wf (inBuf c)" using assms(2) by (simp add: stream_ok_def)
  obtain b rp where x: "buf_wf b" "rp_ready (rp_reset rp)" "perror (rp_reset rp) = 0"
    and m: "\<forall>c2 p2. onRequest k fs lcs cb wr sf (addBody body (request_of t)) (c\<lparr>hcontext := rp, inBuf := b\<rparr>, p) = Inr (c2, p2) \<longrightarrow>
      inBuf c2 = b \<longrightarrow> (\<exists>b'. onMessage k fs lcs lcn cb wr sf (c, p) = Inr (c2\<lparr>inBuf := b'\<rparr>, p2) \<and> buf_wf b' \<and> contents b' = x)"
    by (rule onMessage_whole [OF assms(4-7) wf assms(8-10), where k = k and fs = fs and lcs = lcs and cb = cb and wr = wr and sf = sf and p = p])
  define c1 where "c1 = c\<lparr>hcontext := rp, inBuf := b\<rparr>"
  have c1: "stream_ok c1 p" "cstate c1 = KConnected" "wire c1 = wire c" "outBuf c1 = outBuf c" "inBuf c1 = b" "hcontext c1 = rp"
    using stream_ok_inBuf [OF assms(2) x(1)] assms(3) by (simp_all add: c1_def)
  obtain c2 p2 where q: "onRequest k fs lcs cb wr sf (addBody body (request_of t)) (c1, p) = Inr (c2, p2)"
      "stream_ok c2 p2" "wire c2 @ contents (outBuf c2) = wire c1 @ contents (outBuf c1) @ response_text sendLen r"
      "inBuf c2 = b" "cstate c2 = (if closeConnection r then KDisconnecting else KConnected)"
      "hcontext c2 = (if closeConnection r then rp else rp_reset rp)"
    using onRequest_ok [OF assms(1) c1(1,2) assms(11-14), of fs sf] c1(5,6) by auto
  obtain b' where "onMessage k fs lcs lcn cb wr sf (c, p) = Inr (c2\<lparr>inBuf := b'\<rparr>, p2)" "buf_wf b'" "contents b' = x"
    using m q(1,4) unfolding c1_def by blast
  then show ?thesis
    using stream_ok_inBuf [OF q(2)] x(2,3) c1 q(3,5,6) by (intro exI [of _ "c2\<lparr>inBuf := b'\<rparr>"] exI [of _ p2]) simp
qed

text \<open>A refused method: the 400 answer, and nothing of the handler's response behind it.\<close>

lemma onRequest_closing:
  assumes "cstate c = KDisconnecting" and "sendFile c = None" and "rfile (answer lcs cb rq) = None"
  shows "\<exists>h. onRequest k fs lcs cb wr sf rq (c, p) = Inr (c\<lparr>hcontext := h\<rparr>, p)"
proof -
  define r where "r = answer lcs cb rq"
  obtain b where b: "appendToBuffer sendLen r (new_buffer kInitSize) = Inr b"
    using appendToBuffer_spec [OF buf_wf_new, of sendLen r kInitSize] by auto
  have "onRequest k fs lcs cb wr sf rq (c, p)
      = Inr (if closeConnection r then c else c\<lparr>hcontext := rp_reset (hcontext c)\<rparr>, p)"
    using b assms unfolding onRequest_def answer_def [symmetric] Let_def r_def
    by (simp add: send_buffer_def shutdown_def)
  then show ?thesis
    by (intro exI [of _ "if closeConnection r then hcontext c else rp_reset (hcontext c)"]) simp
qed

lemma message_refused:
  assumes "epoll_contract k" and "stream_ok c p" and "cstate c = KConnected"
    and "rp_ready (hcontext c)" and "text_ok t" and "method_of (tmethod t) = KInvalid"
    and "contents (inBuf c) = request_text t @ body @ x" and "length (contents (inBuf c)) < 2 ^ 31"
    and "getHeader lcn ''Content-Length'' 0 (request_of t) = length body"
    and "rfile (answer lcs cb (addBody body (request_of t))) = None"
    and "io_fits (length bad_request) wr" and "\<not> io_broken wr"
  shows "\<exists>c' p'. onMessage k fs lcs lcn cb wr sf (c, p) = Inr (c', p') \<and> stream_ok c' p'
     \<and> wire c' @ contents (outBuf c') = wire c @ contents (outBuf c) @ bad_request
     \<and> contents (inBuf c') = x \<and> cstate c' = KDisconnecting"
proof -
  have wf: "buf_wf (inBuf c)" using assms(2) by (simp add: stream_ok_def)
  obtain rp b where x: "rp_execute (hcontext c) (inBuf c) = Inr (length (request_text t), rp, b)"
      "buf_wf b" "contents b = body @ x" "req rp = request_of t" "rp_isFinished rp = 1" "perror rp = 1000"
    using rp_execute_request [OF assms(4,5) wf assms(7,8)] assms(6) by auto
  define c1 where "c1 = c\<lparr>hcontext := rp, inBuf := b\<rparr>"
  have c1: "stream_ok c1 p" "cstate c1 = KConnected" "wire c1 = wire c" "outBuf c1 = outBuf c" "inBuf c1 = b" "hcontext c1 = rp"
    using stream_ok_inBuf [OF assms(2) x(2)] assms(3) by (simp_all add: c1_def)
  obtain c2 p2 where s: "sendInLoop k fs wr sf bad_request (length bad_request) (c1, p) = Inr (c2, p2)"
      "stream_ok c2 p2" "wire c2 @ contents (outBuf c2) = wire c1 @ contents (outBuf c1) @ bad_request"
      "cstate c2 = cstate c1"
    using send_ok [OF assms(1) c1(1), of bad_request wr fs sf] c1(2) assms(11,12) by auto
  have sf: "sendFile c1 = None" using c1(1) by (simp add: stream_ok_def)
  have ctx: "hcontext c2 = rp" "inBuf c2 = b" using send_context [OF s(1) sf] c1(5,6) by simp_all
  have nf: "sendFile c2 = None" using s(2) by (simp add: stream_ok_def)
  define c3 where "c3 = shutdown True c2"
  have c3: "stream_ok c3 p2" "cstate c3 = KDisconnecting" "wire c3 @ contents (outBuf c3) = wire c @ contents (outBuf c) @ bad_request"
      "inBuf c3 = b" "hcontext c3 = rp" "sendFile c3 = None"
    using s(2-4) c1 ctx nf by (simp_all add: c3_def)
  have v: "ebind (send_view k fs wr sf True bad_request (c1, p)) (\<lambda>(c2, p2). Inr (shutdown True c2, p2)) = Inr (c3, p2)"
    using s(1) c1(2) by (simp add: send_view_def c3_def)
  have e: "rp_hasError rp" using x(6) rp_finished_no_error [OF x(5)] by simp
  have n: "getContentLength lcn rp = length body" "rbody (req rp) = []"
    using x(4) assms(9) by (simp_all add: getContentLength_def request_of_def)
  have req: "req rp = addBody [] (request_of t)" using x(4) by (simp add: addBody_def)
  show ?thesis
  proof (cases "body = []")
    case True
    with assms(10) req have "rfile (answer lcs cb (req rp)) = None" by simp
    from onRequest_closing [OF c3(2,6) this, of k fs wr sf p2]
    obtain h where "onRequest k fs lcs cb wr sf (req rp) (c3, p2) = Inr (c3\<lparr>hcontext := h\<rparr>, p2)" by blast
    with True have "onMessage k fs lcs lcn cb wr sf (c, p) = Inr (c3\<lparr>hcontext := h\<rparr>, p2)"
      using x(1,5) v e n by (simp add: onMessage_def c1_def)
    with c3 x(3) True show ?thesis by (intro exI [of _ "c3\<lparr>hcontext := h\<rparr>"] exI [of _ p2]) simp
  next
    case False
    define e' where "e' = peek b + length body"
    obtain b' where b': "retrieveUntil b e' = Inr b'" "buf_wf b'" "contents b' = x"
      using piece_taken(2) [OF x(2,3), of "length body"] by (auto simp: e'_def)
    have sl: "slice (peek b) e' (buf b) = body"
      using piece_taken(1) [OF x(2,3), of "length body"] by (simp add: e'_def)
    have rd: "readableBytes b = length (body @ x)" using readable_contents [OF x(2)] x(3) by simp
    define rq where "rq = addBody body (request_of t)"
    define c4 where "c4 = c3\<lparr>hcontext := rp\<lparr>req := rq\<rparr>\<rparr>"
    have c4: "cstate c4 = KDisconnecting" "sendFile c4 = None" "inBuf c4 = b" using c3 by (simp_all add: c4_def)
    from onRequest_closing [OF c4(1,2), of lcs cb rq k fs wr sf p2] assms(10)
    obtain h where h: "onRequest k fs lcs cb wr sf rq (c4, p2) = Inr (c4\<lparr>hcontext := h\<rparr>, p2)" by (auto simp: rq_def)
    have full: "length (rbody rq) = length body" by (simp add: rq_def addBody_def request_of_def)
    have "onMessage k fs lcs lcn cb wr sf (c, p) = Inr (c4\<lparr>hcontext := h, inBuf := b'\<rparr>, p2)"
      using h x(1,4,5) v e n False b'(1) sl rd full c4(3)
      by (simp add: onMessage_def Let_def c1_def [symmetric] c3(4) e'_def [symmetric] sl rq_def [symmetric] c4_def [symmetric])
    with c3 b'(3) stream_ok_inBuf [OF c3(1) b'(2)] show ?thesis
      by (intro exI [of _ "c4\<lparr>hcontext := h, inBuf := b'\<rparr>"] exI [of _ p2]) (simp add: c4_def)
  qed
qed

section \<open>Properties\<close>

text \<open>
  C1: The server answers a request. The text of a request (of the form \<open>text_ok\<close> describes)
  and its whole body, if it announces one, arrive on a connected stream, in a buffer with
  less than 2 GiB and with anything behind them; the parser is at the start of a request and
  holds no error; \<open>write\<close> takes any part of what it is given, or fails with an error that the
  code does not treat as a broken connection; and the handler's response to the request as
  it was written names no file. Then \<open>onMessage\<close> runs without a fault; exactly one text is
  added to the output, that of the response, or the 400 answer when the method is no
  beginning of GET, HEAD or POST; the input behind the message stays in the buffer; and the
  connection is shut down when the method was refused or the response says so, or else
  stays connected with its parser at the start of the next request.
\<close>

theorem serve_request:
  assumes "epoll_contract k" and "stream_ok c p" and "cstate c = KConnected"
    and "rp_ready (hcontext c)" and "perror (hcontext c) = 0" and "text_ok t"
    and "contents (inBuf c) = request_text t @ body @ x" and "length (contents (inBuf c)) < 2 ^ 31"
    and "getHeader lcn ''Content-Length'' 0 (request_of t) = length body"
    and "r = answer lcs cb (addBody body (request_of t))" and "rfile r = None"
    and "out = (if method_of (tmethod t) = KInvalid then bad_request else response_text sendLen r)"
    and "io_fits (length out) wr" and "\<not> io_broken wr"
  shows "\<exists>c' p'. onMessage k fs lcs lcn cb wr sf (c, p) = Inr (c', p') \<and> stream_ok c' p'
     \<and> wire c' @ contents (outBuf c') = wire c @ contents (outBuf c) @ out
     \<and> contents (inBuf c') = x
     \<and> (if method_of (tmethod t) = KInvalid \<or> closeConnection r then cstate c' = KDisconnecting
         else cstate c' = KConnected \<and> rp_ready (hcontext c') \<and> perror (hcontext c') = 0)"
proof (cases "method_of (tmethod t) = KInvalid")
  case True
  then show ?thesis
    using message_refused [OF assms(1-4,6) True assms(7-9), of lcs cb wr fs sf] assms(10-14) by force
next
  case False
  then show ?thesis
    using message_served [OF assms(1-6) False assms(7-11), of wr fs sf] assms(12-14) by simp
qed

text \<open>The connection of the witnesses: connected, its parser new, with one request received.\<close>

definition sample_request :: http_text where
  "sample_request = \<lparr>tmethod = ''GET'', tpath = ''/html'', tquery = None, tminor = CHR ''1'',
     theaders = [(''Connection'', ''Keep-Alive'')]\<rparr>"

definition server7 :: "request_parser \<Rightarrow> bytes \<Rightarrow> server_conn" where
  "server7 rp d = (new_conn rp False 7)\<lparr>cstate := KConnected,
     inBuf := \<lparr>buf = replicate kPrepend kNul @ d, readerIndex = kPrepend, writerIndex = kPrepend + length d\<rparr>\<rparr>"

lemma server7 [simp]:
  "cstate (server7 rp d) = KConnected" "hcontext (server7 rp d) = rp"
  "wire (server7 rp d) = []" "contents (outBuf (server7 rp d)) = []"
  "contents (inBuf (server7 rp d)) = d" "stream_ok (server7 rp d) new_poller"
proof -
  have "chan_ok (chan (server7 rp d)) new_poller"
    using new_conn_chan_ok [of new_poller 7 rp False] by (simp add: server7_def new_poller_def)
  moreover have "buf_wf (inBuf (server7 rp d))" by (simp add: server7_def buf_wf_def)
  ultimately show "stream_ok (server7 rp d) new_poller"
    by (simp add: stream_ok_def server7_def)
       (simp add: new_conn_def isWriting_def setCallback_def new_channel_def)
  show "contents (outBuf (server7 rp d)) = []" by (simp add: server7_def new_conn_def)
qed (simp_all add: server7_def new_conn_def contents_def slice_def)

lemma sample_request_ok:
  "text_ok sample_request" "method_of (tmethod sample_request) = KGet"
  "header_map (theaders sample_request) Map.empty ''Content-Length'' = None"
  by (simp_all add: text_ok_def sample_request_def path_ok_def query_ok_def header_ok_def char_classes
      schar_def method_of_def prefix_of_def)

lemma sample_answer:
  "answer Some (message [] (\<lambda>_. f)) (request_of sample_request)
     = \<lparr>rfile = None, sheaders = [(''Content-Type'', ''text/html''), (''Server'', ''ssxrver'')], statusCode = 200,
        statusMessage = ''OK'', closeConnection = False,
        sbody = ''<html><head_><title>Fast HttpServer</title></head_><body><h1>Hello html</h1></body></html>''\<rparr>"
  by (simp add: answer_def message_def request_of_def sample_request_def getHeader_def setClose_def
      new_response_def setStatus_def setContentType_def addHeader_def c_str_def kNul_def)

text \<open>A request with a body.\<close>

definition sample_post :: http_text where
  "sample_post = sample_request\<lparr>tmethod := ''POST'', theaders := [(''Connection'', ''Keep-Alive''), (''Content-Length'', ''2'')]\<rparr>"

definition sample_length :: "bytes \<Rightarrow> nat option" where
  "sample_length v = (if v = ''2'' then Some 2 else None)"

lemma sample_post_ok:
  "text_ok sample_post" "method_of (tmethod sample_post) = KPost"
  "getHeader sample_length ''Content-Length'' 0 (request_of sample_post) = 2"
  by (simp_all add: text_ok_def sample_post_def sample_request_def path_ok_def query_ok_def header_ok_def char_classes
      schar_def method_of_def prefix_of_def getHeader_def request_of_def c_str_def kNul_def sample_length_def)

lemma sample_post_answer:
  "answer Some (message [] (\<lambda>_. f)) (addBody ''hi'' (request_of sample_post))
     = \<lparr>rfile = None, sheaders = [(''Content-Type'', ''text/html''), (''Server'', ''ssxrver'')], statusCode = 200,
        statusMessage = ''OK'', closeConnection = False,
        sbody = ''<html><head_><title>Fast HttpServer</title></head_><body><h1>Hello html</h1></body></html>''\<rparr>"
  by (simp add: answer_def message_def request_of_def sample_post_def sample_request_def getHeader_def setClose_def addBody_def
      new_response_def setStatus_def setContentType_def addHeader_def c_str_def kNul_def)

lemma serve_request_witness:
  "\<exists>c' p'. onMessage plain_kernel (\<lambda>_. []) Some sample_length
       (message [] (\<lambda>_. \<lparr>inFd = 9, offset = 0, sendLen = 0\<rparr>)) (Failed 11) (Done 0)
       (server7 (new_request_parser fresh_parser) (request_text sample_post @ ''hi''), new_poller) = Inr (c', p')
     \<and> cstate c' = KConnected \<and> contents (inBuf c') = [] \<and> rp_ready (hcontext c')"
proof -
  have len: "length (request_text sample_post @ ''hi'') < 2 ^ 31"
    by (simp add: request_text_def sample_post_def sample_request_def header_text_def version_text_def crlf_def)
  have pe: "perror (new_request_parser fresh_parser) = 0" by (simp add: new_request_parser_def)
  show ?thesis
    using serve_request [OF plain_kernel_contract server7(6) [of "new_request_parser fresh_parser"] server7(1) _ _ sample_post_ok(1) _ _ _ HOL.refl _ HOL.refl,
        where body = "''hi''" and x = "[]"
        and lcn = sample_length and lcs = Some and cb = "message [] (\<lambda>_. \<lparr>inFd = 9, offset = 0, sendLen = 0\<rparr>)"
        and wr = "Failed 11" and fs = "\<lambda>_. []" and sf = "Done 0"]
      sample_post_ok new_request_parser_ready [of fresh_parser] len pe
    by (auto simp: sample_post_answer errno_defs)
qed

text \<open>
  C26: An error is for good. \<open>HttpRequestParser::reset\<close> leaves \<open>error_\<close> as it is, so once a
  method was refused, the connection object answers 400 also after it has been reset for
  a new client: a well-formed request gets the text of the bad request and a shutdown, and
  the response of the handler is not sent.
\<close>

theorem error_survives_reset:
  assumes "epoll_contract k" and "stream_ok c p" and "cstate c = KConnected"
    and "hcontext c = rp_reset rp" and "\<forall>h. h \<in> set (hooks (hp rp))" and "perror rp \<noteq> 0"
    and "text_ok t" and "contents (inBuf c) = request_text t @ x" and "length (contents (inBuf c)) < 2 ^ 31"
    and "header_map (theaders t) Map.empty ''Content-Length'' = None"
    and "rfile (answer lcs cb (request_of t)) = None"
    and "io_fits (length bad_request) wr" and "\<not> io_broken wr"
  shows "\<exists>c' p'. onMessage k fs lcs lcn cb wr sf (c, p) = Inr (c', p')
     \<and> wire c' @ contents (outBuf c') = wire c @ contents (outBuf c) @ bad_request
     \<and> cstate c' = KDisconnecting \<and> perror (hcontext c') \<noteq> 0"
proof -
  have wf: "buf_wf (inBuf c)" using assms(2) by (simp add: stream_ok_def)
  have ready: "rp_ready (hcontext c)" using rp_reset_ready [OF HOL.refl assms(5)] assms(4) by simp
  have pe: "perror (hcontext c) \<noteq> 0" using assms(4,6) by (simp add: rp_reset_def)
  obtain rp' b where m: "buf_wf b" "perror rp' \<noteq> 0"
      "onMessage k fs lcs lcn cb wr sf (c, p) =
         ebind (ebind (send_view k fs wr sf True bad_request (c\<lparr>hcontext := rp', inBuf := b\<rparr>, p))
                   (\<lambda>(c2, p2). Inr (shutdown True c2, p2)))
           (onRequest k fs lcs cb wr sf (request_of t))"
    using onMessage_request [OF ready assms(7) wf assms(8,9) no_content_length [OF assms(10)], of k fs lcs lcn cb wr sf p] pe
    by (auto split: if_splits)
  define c1 where "c1 = c\<lparr>hcontext := rp', inBuf := b\<rparr>"
  have c1: "stream_ok c1 p" "cstate c1 = KConnected" "wire c1 = wire c" "outBuf c1 = outBuf c"
      "hcontext c1 = rp'"
    using stream_ok_inBuf [OF assms(2) m(1)] assms(3) by (simp_all add: c1_def)
  obtain c2 p2 where s: "sendInLoop k fs wr sf bad_request (length bad_request) (c1, p) = Inr (c2, p2)"
      "stream_ok c2 p2" "wire c2 @ contents (outBuf c2) = wire c1 @ contents (outBuf c1) @ bad_request"
      "cstate c2 = cstate c1"
    using send_ok [OF assms(1) c1(1), of bad_request wr fs sf] c1(2) assms(12,13) by auto
  have ctx: "hcontext c2 = rp'"
    using send_context [OF s(1)] c1(1,5) by (simp add: stream_ok_def)
  define r where "r = answer lcs cb (request_of t)"
  obtain br where br: "appendToBuffer sendLen r (new_buffer kInitSize) = Inr br"
    using appendToBuffer_spec [OF buf_wf_new, of sendLen r kInitSize] by auto
  have nf: "sendFile c2 = None" using s(2) by (simp add: stream_ok_def)
  have "onRequest k fs lcs cb wr sf (request_of t) (shutdown True c2, p2)
      = Inr (if closeConnection r then shutdown True c2
             else (shutdown True c2)\<lparr>hcontext := rp_reset rp'\<rparr>, p2)"
    using br assms(11) c1(2) s(4) ctx nf
    unfolding onRequest_def answer_def [symmetric] Let_def r_def
    by (simp add: send_buffer_def shutdown_def [of True "shutdown True c2"])
  with m(3) s(1) c1(2) have "onMessage k fs lcs lcn cb wr sf (c, p)
      = Inr (if closeConnection r then shutdown True c2
             else (shutdown True c2)\<lparr>hcontext := rp_reset rp'\<rparr>, p2)"
    by (simp add: send_view_def c1_def [symmetric])
  with s(3,4) c1 ctx m(2) show ?thesis by (simp add: rp_reset_def)
qed

lemma error_survives_reset_witness:
  "\<exists>c' p'. onMessage plain_kernel (\<lambda>_. []) Some (\<lambda>_. None)
       (message [] (\<lambda>_. \<lparr>inFd = 9, offset = 0, sendLen = 0\<rparr>)) (Failed 11) (Done 0)
       (server7 (rp_reset ((new_request_parser fresh_parser)\<lparr>perror := 1000\<rparr>))
          (request_text sample_request), new_poller) = Inr (c', p')
     \<and> wire c' @ contents (outBuf c') = bad_request"
proof -
  define rp where "rp = (new_request_parser fresh_parser)\<lparr>perror := 1000\<rparr>"
  have rp: "\<forall>h. h \<in> set (hooks (hp rp))" "perror rp \<noteq> 0"
    using new_request_parser_ready [of fresh_parser]
    by (simp_all add: rp_def rp_ready_def all_hooks_def)
  have len: "length (request_text sample_request) < 2 ^ 31"
    by (simp add: request_text_def sample_request_def header_text_def version_text_def crlf_def)
  show ?thesis
    unfolding rp_def [symmetric]
    using error_survives_reset [OF plain_kernel_contract, where c = "server7 (rp_reset rp) (request_text sample_request)"
        and p = new_poller and t = sample_request and x = "[]" and lcs = Some and lcn = "\<lambda>_. None"
        and cb = "message [] (\<lambda>_. \<lparr>inFd = 9, offset = 0, sendLen = 0\<rparr>)" and wr = "Failed 11" and sf = "Done 0"
        and fs = "\<lambda>_. []" and rp = rp] sample_request_ok rp len
    by (auto simp: sample_answer errno_defs)
qed



end
