(* ===== verification/HttpSession.thy ===== *)
theory HttpSession
  imports HttpServer
begin

text \<open>
  A connection that is kept alive: \<open>TcpConnection::handleRead\<close> with \<open>HttpServer::onMessage\<close> as its
  message callback and \<open>TcpConnection::handleWrite\<close>, in any order, for as many messages as the
  client sends. Each message arrives in one read.
\<close>

section \<open>Histories of a connection\<close>

text \<open>
  A message with what the first \<open>write\<close> of its response returns, and a write event with what
  \<open>write\<close> returns for the bytes it is asked to take.
\<close>

datatype session_op = Message http_text bytes io | WriteEvent "nat \<Rightarrow> io"

fun session_step :: "kernel \<Rightarrow> (nat \<Rightarrow> bytes) \<Rightarrow> (bytes \<Rightarrow> bytes option) \<Rightarrow> (bytes \<Rightarrow> nat option) \<Rightarrow> http_callback
    \<Rightarrow> session_op \<Rightarrow> request_parser link \<Rightarrow> fault + request_parser link" where
  "session_step k fs lcs lcn cb (Message t body wr) s =
     handleRead k (onMessage k fs lcs lcn cb wr (Done 0)) 0 (Inr (request_text t @ body)) s"
| "session_step k fs lcs lcn cb (WriteEvent w) s = handleWrite k fs (w (readableBytes (outBuf (fst s)))) (Done 0) s"

fun session_run :: "kernel \<Rightarrow> (nat \<Rightarrow> bytes) \<Rightarrow> (bytes \<Rightarrow> bytes option) \<Rightarrow> (bytes \<Rightarrow> nat option) \<Rightarrow> http_callback
    \<Rightarrow> session_op list \<Rightarrow> request_parser link \<Rightarrow> fault + request_parser link" where
  "session_run k fs lcs lcn cb [] s = Inr s"
| "session_run k fs lcs lcn cb (op # ops) s = ebind (session_step k fs lcs lcn cb op s) (session_run k fs lcs lcn cb ops)"

text \<open>The response to a message, and when a message is one that keeps the connection.\<close>

fun reply_to :: "(bytes \<Rightarrow> bytes option) \<Rightarrow> http_callback \<Rightarrow> session_op \<Rightarrow> bytes" where
  "reply_to lcs cb (Message t body wr) = response_text sendLen (answer lcs cb (addBody body (request_of t)))"
| "reply_to lcs cb (WriteEvent w) = []"

fun kept_alive :: "(bytes \<Rightarrow> bytes option) \<Rightarrow> (bytes \<Rightarrow> nat option) \<Rightarrow> http_callback \<Rightarrow> session_op \<Rightarrow> bool" where
  "kept_alive lcs lcn cb (Message t body wr) =
     (let r = answer lcs cb (addBody body (request_of t))
      in text_ok t \<and> method_of (tmethod t) \<noteq> KInvalid \<and> length (request_text t @ body) < 2 ^ 31
         \<and> getHeader lcn ''Content-Length'' 0 (request_of t) = length body
         \<and> rfile r = None \<and> \<not> closeConnection r \<and> io_fits (length (response_text sendLen r)) wr \<and> \<not> io_broken wr)"
| "kept_alive lcs lcn cb (WriteEvent w) = io_sound w"

section \<open>One step\<close>

lemma calm_frame [simp]:
  "hcontext (writeComplete c) = hcontext c" "inBuf (writeComplete c) = inBuf c"
  "hcontext (shutdownInLoop c) = hcontext c" "inBuf (shutdownInLoop c) = inBuf c"
  "hcontext (sendFileReset c) = hcontext c" "inBuf (sendFileReset c) = inBuf c"
  by (simp_all add: writeComplete_def queue_task_def shutdownInLoop_def sendFileReset_def)

lemma drained_frame: "drained k (c, p) = Inr (c', p') \<Longrightarrow> hcontext c' = hcontext c \<and> inBuf c' = inBuf c"
  by (auto simp: drained_def with_chan_def ebind_eq_Inr Let_def)

lemma handleWrite_frame:
  assumes "handleWrite k fs wr sf (c, p) = Inr (c', p')"
  shows "hcontext c' = hcontext c \<and> inBuf c' = inBuf c"
proof (cases "isWriting (chan c) \<and> 0 < readableBytes (outBuf c)")
  case True
  with assms show ?thesis
    by (cases wr) (auto simp: handleWrite_def Let_def ebind_eq_Inr dest!: drained_frame split: if_split_asm)
next
  case False
  with assms show ?thesis
    by (cases "sendFile c"; cases sf)
      (auto simp: handleWrite_def Let_def dest!: drained_frame split: if_split_asm prod.split_asm)
qed

lemma message_step:
  assumes "epoll_contract k" and "stream_ok c p" and "cstate c = KConnected" and "rp_ready (hcontext c)"
    and "perror (hcontext c) = 0" and "contents (inBuf c) = []" and "kept_alive lcs lcn cb (Message t body wr)"
  shows "\<exists>c' p'. session_step k fs lcs lcn cb (Message t body wr) (c, p) = Inr (c', p') \<and> stream_ok c' p'
     \<and> cstate c' = KConnected \<and> rp_ready (hcontext c') \<and> perror (hcontext c') = 0 \<and> contents (inBuf c') = []
     \<and> wire c' @ contents (outBuf c') = wire c @ contents (outBuf c) @ reply_to lcs cb (Message t body wr)"
proof -
  define r where "r = answer lcs cb (addBody body (request_of t))"
  have m: "text_ok t" "method_of (tmethod t) \<noteq> KInvalid" "length (request_text t @ body) < 2 ^ 31"
      "getHeader lcn ''Content-Length'' 0 (request_of t) = length body" "rfile r = None" "\<not> closeConnection r"
      "io_fits (length (response_text sendLen r)) wr" "\<not> io_broken wr"
    using assms(7) by (simp_all add: r_def Let_def)
  obtain b where b: "readFd (inBuf c) (Inr (request_text t @ body)) = Inr (Inr (length (request_text t @ body)), b)"
      "buf_wf b" "contents b = request_text t @ body"
    using readFd_spec [of "inBuf c" "request_text t @ body"] assms(2,6) by (auto simp: stream_ok_def)
  have "0 < length (request_text t @ body)" by (simp add: request_text_def)
  then have "session_step k fs lcs lcn cb (Message t body wr) (c, p) = onMessage k fs lcs lcn cb wr (Done 0) (c\<lparr>inBuf := b\<rparr>, p)"
    using b(1) by (simp add: handleRead_def)
  with message_served [OF assms(1) stream_ok_inBuf [OF assms(2) b(2)] _ _ _ m(1,2) _ _ m(4) r_def m(5,7,8), of "[]" fs "Done 0"]
    assms(3-5) b(3) m(3,6) show ?thesis
    by (auto simp: r_def)
qed

lemma session_step_ok:
  assumes "epoll_contract k" and "stream_ok c p" and "cstate c = KConnected" and "rp_ready (hcontext c)"
    and "perror (hcontext c) = 0" and "contents (inBuf c) = []" and "kept_alive lcs lcn cb op"
  shows "\<exists>c' p'. session_step k fs lcs lcn cb op (c, p) = Inr (c', p') \<and> stream_ok c' p'
     \<and> cstate c' = KConnected \<and> rp_ready (hcontext c') \<and> perror (hcontext c') = 0 \<and> contents (inBuf c') = []
     \<and> wire c' @ contents (outBuf c') = wire c @ contents (outBuf c) @ reply_to lcs cb op"
proof (cases op)
  case (Message t body wr)
  with message_step [OF assms(1-6)] assms(7) show ?thesis by simp
next
  case (WriteEvent w)
  then have "io_fits (readableBytes (outBuf c)) (w (readableBytes (outBuf c)))" using assms(7) by (simp add: io_sound_def)
  from write_ok [OF assms(1,2) this, of fs "Done 0"] obtain c' p' where
    w: "handleWrite k fs (w (readableBytes (outBuf c))) (Done 0) (c, p) = Inr (c', p')" "stream_ok c' p'"
      "wire c' @ contents (outBuf c') = wire c @ contents (outBuf c)" "cstate c' = cstate c" by blast
  with handleWrite_frame [OF w(1)] WriteEvent assms(3-6) show ?thesis by simp
qed

lemma session_run_ok:
  "epoll_contract k \<Longrightarrow> stream_ok c p \<Longrightarrow> cstate c = KConnected \<Longrightarrow> rp_ready (hcontext c) \<Longrightarrow> perror (hcontext c) = 0 \<Longrightarrow>
     contents (inBuf c) = [] \<Longrightarrow> \<forall>op \<in> set ops. kept_alive lcs lcn cb op \<Longrightarrow>
   \<exists>c' p'. session_run k fs lcs lcn cb ops (c, p) = Inr (c', p') \<and> stream_ok c' p'
     \<and> cstate c' = KConnected \<and> rp_ready (hcontext c') \<and> perror (hcontext c') = 0 \<and> contents (inBuf c') = []
     \<and> wire c' @ contents (outBuf c') = wire c @ contents (outBuf c) @ concat (map (reply_to lcs cb) ops)"
proof (induction ops arbitrary: c p)
  case (Cons op ops)
  obtain c1 p1 where 1: "session_step k fs lcs lcn cb op (c, p) = Inr (c1, p1)" "stream_ok c1 p1" "cstate c1 = KConnected"
      "rp_ready (hcontext c1)" "perror (hcontext c1) = 0" "contents (inBuf c1) = []"
      "wire c1 @ contents (outBuf c1) = wire c @ contents (outBuf c) @ reply_to lcs cb op"
    using session_step_ok [OF Cons.prems(1-6)] Cons.prems(7) by force
  from Cons.IH [OF Cons.prems(1) 1(2-6)] Cons.prems(7) 1(1,7) show ?case
    by (auto simp: append_assoc [symmetric] simp del: append_assoc)
qed simp

section \<open>Files\<close>

text \<open>A response whose header and whose file the kernel takes at once.\<close>

definition file_bytes :: "(nat \<Rightarrow> bytes) \<Rightarrow> send_file \<Rightarrow> bytes" where
  "file_bytes fs f = slice (offset f) (offset f + sendLen f) (fs (inFd f))"

lemma sendInLoop_file:
  assumes "cstate c \<noteq> KDisconnected" and "\<not> isWriting (chan c)" and "contents (outBuf c) = []" and "buf_wf (outBuf c)"
    and "sendFile c = Some f" and "\<not> writeCompleteSet c"
  shows "sendInLoop k fs (Done (length d)) (Done (sendLen f)) d (length d) (c, p)
    = Inr (c\<lparr>wire := wire c @ d @ file_bytes fs f, sendFile := Some (f\<lparr>offset := offset f + 2 * sendLen f, sendLen := 0\<rparr>)\<rparr>, p)"
proof -
  have "readableBytes (outBuf c) = 0" using assms(3) readable_zero [OF assms(4)] by simp
  then show ?thesis
    using assms by (simp add: sendInLoop_def direct_write_def direct_sendfile_def sent_file_def k_sendfile_def Let_def
        writeComplete_def file_bytes_def)
qed

lemma onRequest_file:
  assumes "cstate c = KConnected" and "\<not> isWriting (chan c)" and "contents (outBuf c) = []" and "buf_wf (outBuf c)"
    and "\<not> writeCompleteSet c" and "r = answer lcs cb rq" and "rfile r = Some f"
  shows "\<exists>c'. onRequest k fs lcs cb (Done (length (response_text sendLen r))) (Done (sendLen f)) rq (c, p) = Inr (c', p)
    \<and> wire c' = wire c @ response_text sendLen r @ file_bytes fs f \<and> outBuf c' = outBuf c \<and> inBuf c' = inBuf c
    \<and> (if closeConnection r then cstate c' = KDisconnecting
        else cstate c' = KConnected \<and> sendFile c' = None \<and> hcontext c' = rp_reset (hcontext c))"
proof -
  obtain b where b: "appendToBuffer sendLen r (new_buffer kInitSize) = Inr b" "buf_wf b" "contents b = response_text sendLen r"
    using appendToBuffer_spec [OF buf_wf_new, of sendLen r kInitSize] by auto
  define c1 where "c1 = setSendFile (Some f) c"
  define c2 where "c2 = c1\<lparr>wire := wire c @ response_text sendLen r @ file_bytes fs f,
    sendFile := Some (f\<lparr>offset := offset f + 2 * sendLen f, sendLen := 0\<rparr>)\<rparr>"
  have "sendInLoop k fs (Done (length (contents b))) (Done (sendLen f)) (contents b) (length (contents b)) (c1, p) = Inr (c2, p)"
    using sendInLoop_file [of c1 f k fs "contents b" p] assms(1-5) b(3) by (simp add: c1_def c2_def setSendFile_def)
  then have s: "send_buffer k fs (Done (length (response_text sendLen r))) (Done (sendLen f)) True b (c1, p) = Inr (retrieveAll b, c2, p)"
    using assms(1) b(3) readable_contents [OF b(2)] by (simp add: send_buffer_def c1_def setSendFile_def del: readable_wf)
  show ?thesis
    using b(1) s assms(1,7) unfolding onRequest_def answer_def [symmetric] Let_def
    by (auto simp: assms(6) [symmetric] c1_def [symmetric] c2_def setSendFile_def sendFileReset_def c1_def)
qed

section \<open>Properties\<close>

text \<open>
  C2: A session is served. On a connected stream with no input waiting, whose parser is at
  the start of a request and holds no error, any number of messages and write events in any
  order are answered without a fault, when each message is one that \<open>kept_alive\<close> describes:
  its request has the form of \<open>text_ok\<close> and a method that is accepted, it arrives in one read
  of less than 2 GiB with the whole body it announces, and the handler's response to it has
  no file and keeps the connection. Each \<open>write\<close> takes any part of what it is given, or
  fails with an error other than \<open>EPIPE\<close> and \<open>ECONNRESET\<close>. Then the bytes on the wire followed
  by those in the output buffer are those from before and the responses to the messages as
  they were written, one for each and in their order, and the connection is ready for more.
\<close>

theorem session_served:
  assumes "epoll_contract k" and "stream_ok c p" and "cstate c = KConnected" and "rp_ready (hcontext c)"
    and "perror (hcontext c) = 0" and "contents (inBuf c) = []" and "\<forall>op \<in> set ops. kept_alive lcs lcn cb op"
  shows "\<exists>c' p'. session_run k fs lcs lcn cb ops (c, p) = Inr (c', p') \<and> stream_ok c' p'
     \<and> cstate c' = KConnected \<and> rp_ready (hcontext c') \<and> perror (hcontext c') = 0 \<and> contents (inBuf c') = []
     \<and> wire c' @ contents (outBuf c') = wire c @ contents (outBuf c) @ concat (map (reply_to lcs cb) ops)"
  using session_run_ok [OF assms] .

definition sample_session :: "session_op list" where
  "sample_session = [Message sample_request [] (Done 10), WriteEvent (\<lambda>n. Done (n div 2)), Message sample_post ''hi'' (Failed 11),
     WriteEvent Done]"

lemma session_served_witness:
  "\<exists>c' p'. session_run plain_kernel (\<lambda>_. []) Some sample_length (message [] (\<lambda>_. \<lparr>inFd = 9, offset = 0, sendLen = 0\<rparr>))
       sample_session (server7 (new_request_parser fresh_parser) [], new_poller) = Inr (c', p')
     \<and> cstate c' = KConnected \<and> contents (inBuf c') = []"
proof -
  let ?cb = "message [] (\<lambda>_. \<lparr>inFd = 9, offset = 0, sendLen = 0\<rparr>) :: http_callback"
  have len: "length (request_text sample_request) < 2 ^ 31" "length (request_text sample_post @ ''hi'') < 2 ^ 31"
    by (simp_all add: request_text_def sample_post_def sample_request_def header_text_def version_text_def crlf_def)
  have r: "rfile (answer Some ?cb (request_of sample_request)) = None" "\<not> closeConnection (answer Some ?cb (request_of sample_request))"
    "10 \<le> length (response_text sendLen (answer Some ?cb (request_of sample_request)))"
    by (simp_all add: sample_answer response_text_def)
  have g: "addBody [] (request_of sample_request) = request_of sample_request"
    "getHeader sample_length ''Content-Length'' 0 (request_of sample_request) = 0"
    using no_content_length [OF sample_request_ok(3)] by (simp_all add: addBody_def)
  have "\<forall>op \<in> set sample_session. kept_alive Some sample_length ?cb op"
    using sample_request_ok sample_post_ok len r g
    by (simp add: sample_session_def sample_post_answer io_sound_def errno_defs)
  from session_served [OF plain_kernel_contract server7(6) server7(1) _ _ _ this, of "new_request_parser fresh_parser" "[]" "\<lambda>_. []"]
    new_request_parser_ready [of fresh_parser] show ?thesis
    by (auto simp: new_request_parser_def)
qed

text \<open>
  C21: A file is served. A request whose response has a file, on a connected stream with an
  empty output, leaves exactly the header and the bytes of the file on the wire, in this
  order, when the kernel takes the header in one \<open>write\<close> and the file in one \<open>sendfile\<close>; then
  the connection is shut down, or has no file left and its parser at the start of the next
  request.
\<close>

theorem file_served:
  assumes "cstate c = KConnected" and "\<not> isWriting (chan c)" and "contents (outBuf c) = []" and "buf_wf (outBuf c)"
    and "\<not> writeCompleteSet c" and "buf_wf (inBuf c)" and "rp_ready (hcontext c)" and "perror (hcontext c) = 0"
    and "text_ok t" and "method_of (tmethod t) \<noteq> KInvalid"
    and "contents (inBuf c) = request_text t @ body @ x" and "length (contents (inBuf c)) < 2 ^ 31"
    and "getHeader lcn ''Content-Length'' 0 (request_of t) = length body"
    and "r = answer lcs cb (addBody body (request_of t))" and "rfile r = Some f"
  shows "\<exists>c'. onMessage k fs lcs lcn cb (Done (length (response_text sendLen r))) (Done (sendLen f)) (c, p) = Inr (c', p)
    \<and> wire c' = wire c @ response_text sendLen r @ file_bytes fs f \<and> contents (outBuf c') = [] \<and> contents (inBuf c') = x
    \<and> (if closeConnection r then cstate c' = KDisconnecting
        else cstate c' = KConnected \<and> sendFile c' = None \<and> rp_ready (hcontext c') \<and> perror (hcontext c') = 0)"
proof -
  let ?wr = "Done (length (response_text sendLen r))" and ?sf = "Done (sendLen f)"
  obtain b rp where x: "buf_wf b" "rp_ready (rp_reset rp)" "perror (rp_reset rp) = 0"
    and m: "\<forall>c2 p2. onRequest k fs lcs cb ?wr ?sf (addBody body (request_of t)) (c\<lparr>hcontext := rp, inBuf := b\<rparr>, p) = Inr (c2, p2) \<longrightarrow>
      inBuf c2 = b \<longrightarrow> (\<exists>b'. onMessage k fs lcs lcn cb ?wr ?sf (c, p) = Inr (c2\<lparr>inBuf := b'\<rparr>, p2) \<and> buf_wf b' \<and> contents b' = x)"
    by (rule onMessage_whole [OF assms(7-10,6,11-13), where k = k and fs = fs and lcs = lcs and cb = cb and wr = ?wr and sf = ?sf and p = p])
  obtain c2 where q: "onRequest k fs lcs cb ?wr ?sf (addBody body (request_of t)) (c\<lparr>hcontext := rp, inBuf := b\<rparr>, p) = Inr (c2, p)"
      "wire c2 = wire c @ response_text sendLen r @ file_bytes fs f" "outBuf c2 = outBuf c" "inBuf c2 = b"
      "if closeConnection r then cstate c2 = KDisconnecting else cstate c2 = KConnected \<and> sendFile c2 = None \<and> hcontext c2 = rp_reset rp"
    using onRequest_file [of "c\<lparr>hcontext := rp, inBuf := b\<rparr>" r lcs cb "addBody body (request_of t)" f k fs p] assms(1-5,14,15) by auto
  obtain b' where "onMessage k fs lcs lcn cb ?wr ?sf (c, p) = Inr (c2\<lparr>inBuf := b'\<rparr>, p)" "contents b' = x"
    using m q(1,4) by blast
  then show ?thesis using q(2,3,5) x(2,3) assms(3) by (intro exI [of _ "c2\<lparr>inBuf := b'\<rparr>"]) (simp split: if_splits)
qed

definition sample_page :: http_text where
  "sample_page = sample_request\<lparr>tpath := ''/index.html''\<rparr>"

lemma file_served_witness:
  "\<exists>c' n. onMessage plain_kernel (\<lambda>_. ''file'') Some (\<lambda>_. None) (message [] (\<lambda>_. \<lparr>inFd = 9, offset = 0, sendLen = 4\<rparr>)) (Done n) (Done 4)
      (server7 (new_request_parser fresh_parser) (request_text sample_page), new_poller) = Inr (c', new_poller)
    \<and> (\<exists>header. wire c' = header @ ''file'') \<and> sendFile c' = None"
proof -
  let ?f = "\<lparr>inFd = 9, offset = 0, sendLen = 4\<rparr> :: send_file"
  let ?c = "server7 (new_request_parser fresh_parser) (request_text sample_page)"
  have t: "text_ok sample_page" "method_of (tmethod sample_page) = KGet"
    "getHeader (\<lambda>_. None) ''Content-Length'' 0 (request_of sample_page) = (0 :: nat)"
    by (simp_all add: text_ok_def sample_page_def sample_request_def path_ok_def query_ok_def header_ok_def char_classes
        schar_def method_of_def prefix_of_def getHeader_def split: option.split)
  have r: "rfile (answer Some (message [] (\<lambda>_. ?f)) (addBody [] (request_of sample_page))) = Some ?f"
    "\<not> closeConnection (answer Some (message [] (\<lambda>_. ?f)) (addBody [] (request_of sample_page)))"
    by (simp_all add: answer_def message_def request_of_def sample_page_def sample_request_def getHeader_def setClose_def addBody_def
      new_response_def setStatus_def setContentType_def addHeader_def c_str_def kNul_def)
  have len: "length (request_text sample_page) < 2 ^ 31"
    by (simp add: request_text_def sample_page_def sample_request_def header_text_def version_text_def crlf_def)
  have c: "\<not> isWriting (chan ?c)" "buf_wf (outBuf ?c)" "buf_wf (inBuf ?c)" "\<not> writeCompleteSet ?c"
    using server7(6) [of "new_request_parser fresh_parser" "request_text sample_page"]
    by (auto simp: stream_ok_def server7_def new_conn_def isWriting_def setCallback_def new_channel_def)
  have "perror (new_request_parser fresh_parser) = 0" by (simp add: new_request_parser_def)
  with file_served [of ?c sample_page "[]" "[]" "\<lambda>_. None" _ Some "message [] (\<lambda>_. ?f)" ?f plain_kernel "\<lambda>_. ''file''" new_poller]
    t r len c new_request_parser_ready [of fresh_parser]
  show ?thesis by (auto simp: file_bytes_def slice_def)
qed

end
