(* ===== verification/EventLoop.thy ===== *)
theory EventLoop
  imports Prelude
begin

text \<open>
  \<open>net/EventLoop.cpp\<close>: the loop of one thread and the queue of functors other threads
  hand to it. The functions \<open>el_*\<close> translate the methods; \<open>loop_step\<close> interleaves the
  loop thread with any number of other threads, one rule per atomic action (the locked
  block of \<open>queueInLoop\<close> and the \<open>wakeup\<close> behind it are two actions of the calling
  thread). The lemmas show that no functor is lost, run twice or run out of order, and
  that the loop never goes to sleep over a queued functor or a pending quit.
\<close>

section \<open>State\<close>

datatype ready = WakeupEv | OtherEv

text \<open>
  Where the loop thread is: blocked in \<open>poll\<close>, in the handler loop with the channels still
  to handle, in \<open>runFunctors\<close> with the functors still to run, or out of \<open>loop\<close>.
\<close>

datatype 'f phase = Polling | Handling "ready list" | Running "'f list" | Stopped

record 'f loop =
  functors :: "'f list"
  wakeups :: nat \<comment> \<open>counter of the eventfd\<close>
  phase :: "'f phase"
  quitting :: bool
  callingFunctors :: bool
  waking :: "nat \<Rightarrow> bool" \<comment> \<open>other threads between their last store and their \<open>wakeup\<close>\<close>
  executed :: "'f list"
  pushed :: "'f list"
  iters :: nat

definition new_loop :: "'f loop" where
  "new_loop = \<lparr>functors = [], wakeups = 0, phase = Polling, quitting = False,
     callingFunctors = False, waking = (\<lambda>_. False), executed = [], pushed = [], iters = 0\<rparr>"

section \<open>Methods\<close>

definition el_wakeup :: "'f loop \<Rightarrow> 'f loop" where
  "el_wakeup s = s\<lparr>wakeups := wakeups s + 1\<rparr>"

definition el_handleRead :: "'f loop \<Rightarrow> 'f loop" where
  "el_handleRead s = s\<lparr>wakeups := 0\<rparr>"

definition el_push :: "'f \<Rightarrow> 'f loop \<Rightarrow> 'f loop" where
  "el_push f s = s\<lparr>functors := functors s @ [f], pushed := pushed s @ [f]\<rparr>"

definition el_queueInLoop :: "bool \<Rightarrow> 'f \<Rightarrow> 'f loop \<Rightarrow> 'f loop" where
  "el_queueInLoop inLoopThread f s =
     (let s1 = el_push f s
      in if \<not> inLoopThread \<or> callingFunctors s1 then el_wakeup s1 else s1)"

definition el_runInLoop :: "('f \<Rightarrow> 'f loop \<Rightarrow> 'f loop) \<Rightarrow> bool \<Rightarrow> 'f \<Rightarrow> 'f loop \<Rightarrow> 'f loop" where
  "el_runInLoop call inLoopThread f s =
     (if inLoopThread then call f s else el_queueInLoop inLoopThread f s)"

definition el_quit :: "bool \<Rightarrow> 'f loop \<Rightarrow> 'f loop" where
  "el_quit inLoopThread s =
     (let s1 = s\<lparr>quitting := True\<rparr> in if \<not> inLoopThread then el_wakeup s1 else s1)"

text \<open>
  \<open>runFunctors\<close> for functors whose effect on the loop is to queue further functors, given
  by \<open>body\<close>: the queue is swapped out under the lock, then run in order.
\<close>

definition el_call :: "('f \<Rightarrow> 'f list) \<Rightarrow> 'f \<Rightarrow> 'f loop \<Rightarrow> 'f loop" where
  "el_call body f s = fold (el_queueInLoop True) (body f) (s\<lparr>executed := executed s @ [f]\<rparr>)"

definition el_runFunctors :: "('f \<Rightarrow> 'f list) \<Rightarrow> 'f loop \<Rightarrow> 'f loop" where
  "el_runFunctors body s =
     (let taken = functors s;
          s1 = s\<lparr>callingFunctors := True, functors := []\<rparr>;
          s2 = fold (el_call body) taken s1
      in s2\<lparr>callingFunctors := False\<rparr>)"

text \<open>\<open>assertInLoopThread\<close>, and the check of the constructor that a thread has one loop.\<close>

definition assertInLoopThread :: "nat \<Rightarrow> nat \<Rightarrow> fault + unit" where
  "assertInLoopThread threadId tid = (if threadId = tid then Inr () else Inl Fatal)"

definition el_construct :: "(nat \<rightharpoonup> nat) \<Rightarrow> nat \<Rightarrow> nat \<Rightarrow> fault + (nat \<rightharpoonup> nat)" where
  "el_construct t_loopInThisThread tid self =
     (case t_loopInThisThread tid of
        Some other \<Rightarrow> Inl Fatal
      | None \<Rightarrow> Inr (t_loopInThisThread(tid \<mapsto> self)))"

section \<open>Interleaving\<close>

inductive loop_step :: "'f loop \<Rightarrow> 'f loop \<Rightarrow> bool" where
  ext_push: "\<not> waking s t \<Longrightarrow>
     loop_step s ((el_push f s)\<lparr>waking := (waking s)(t := True)\<rparr>)"
| ext_quit: "\<not> waking s t \<Longrightarrow>
     loop_step s (s\<lparr>quitting := True, waking := (waking s)(t := True)\<rparr>)"
| ext_wakeup: "waking s t \<Longrightarrow>
     loop_step s ((el_wakeup s)\<lparr>waking := (waking s)(t := False)\<rparr>)"
| poll: "phase s = Polling \<Longrightarrow> evs \<noteq> [] \<Longrightarrow> (WakeupEv \<in> set evs \<longrightarrow> 0 < wakeups s) \<Longrightarrow>
     loop_step s (s\<lparr>phase := Handling evs\<rparr>)"
| poll_interrupted: "phase s = Polling \<Longrightarrow> loop_step s (s\<lparr>phase := Handling []\<rparr>)"
| handle_wakeup: "phase s = Handling (WakeupEv # evs) \<Longrightarrow>
     loop_step s ((el_handleRead s)\<lparr>phase := Handling evs\<rparr>)"
| handle_other: "phase s = Handling (OtherEv # evs) \<Longrightarrow>
     loop_step s ((fold (el_queueInLoop True) gs s)\<lparr>phase := Handling evs\<rparr>)"
| handle_quit: "phase s = Handling (OtherEv # evs) \<Longrightarrow>
     loop_step s ((el_quit True s)\<lparr>phase := Handling evs\<rparr>)"
| swap_out: "phase s = Handling [] \<Longrightarrow>
     loop_step s (s\<lparr>callingFunctors := True, functors := [], phase := Running (functors s)\<rparr>)"
| run_one: "phase s = Running (f # fs) \<Longrightarrow>
     loop_step s ((el_call body f s)\<lparr>phase := Running fs\<rparr>)"
| next_round: "phase s = Running [] \<Longrightarrow>
     loop_step s (s\<lparr>callingFunctors := False, iters := iters s + 1,
                    phase := (if quitting s then Stopped else Polling)\<rparr>)"

inductive loop_steps :: "'f loop \<Rightarrow> 'f loop \<Rightarrow> bool" where
  refl: "loop_steps s s"
| more: "loop_steps s t \<Longrightarrow> loop_step t u \<Longrightarrow> loop_steps s u"

abbreviation reachable :: "'f loop \<Rightarrow> bool" where
  "reachable s \<equiv> loop_steps new_loop s"

section \<open>Effects of queueing from the loop thread\<close>

lemma queue_fold_frame:
  "phase (fold (el_queueInLoop b) gs s) = phase s \<and> quitting (fold (el_queueInLoop b) gs s) = quitting s
   \<and> callingFunctors (fold (el_queueInLoop b) gs s) = callingFunctors s
   \<and> waking (fold (el_queueInLoop b) gs s) = waking s \<and> executed (fold (el_queueInLoop b) gs s) = executed s
   \<and> iters (fold (el_queueInLoop b) gs s) = iters s
   \<and> functors (fold (el_queueInLoop b) gs s) = functors s @ gs
   \<and> pushed (fold (el_queueInLoop b) gs s) = pushed s @ gs"
  by (induction gs arbitrary: s)
     (auto simp: el_queueInLoop_def el_push_def el_wakeup_def Let_def)

lemmas queue_fold_simps [simp] = queue_fold_frame [THEN conjunct1]
  queue_fold_frame [THEN conjunct2, THEN conjunct1]
  queue_fold_frame [THEN conjunct2, THEN conjunct2, THEN conjunct1]
  queue_fold_frame [THEN conjunct2, THEN conjunct2, THEN conjunct2, THEN conjunct1]
  queue_fold_frame [THEN conjunct2, THEN conjunct2, THEN conjunct2, THEN conjunct2, THEN conjunct1]
  queue_fold_frame [THEN conjunct2, THEN conjunct2, THEN conjunct2, THEN conjunct2, THEN conjunct2,
    THEN conjunct1]
  queue_fold_frame [THEN conjunct2, THEN conjunct2, THEN conjunct2, THEN conjunct2, THEN conjunct2,
    THEN conjunct2, THEN conjunct1]
  queue_fold_frame [THEN conjunct2, THEN conjunct2, THEN conjunct2, THEN conjunct2, THEN conjunct2,
    THEN conjunct2, THEN conjunct2]

lemma queue_fold_wakeups:
  "wakeups (fold (el_queueInLoop b) gs s)
     = wakeups s + (if \<not> b \<or> callingFunctors s then length gs else 0)"
  by (induction gs arbitrary: s)
     (auto simp: el_queueInLoop_def el_push_def el_wakeup_def Let_def)

lemmas el_defs = el_push_def el_wakeup_def el_handleRead_def el_quit_def el_call_def

section \<open>Invariants\<close>

fun remaining :: "'f phase \<Rightarrow> 'f list" where
  "remaining (Running fs) = fs"
| "remaining _ = []"

definition fifo_inv :: "'f loop \<Rightarrow> bool" where
  "fifo_inv s \<longleftrightarrow> executed s @ remaining (phase s) @ functors s = pushed s"

definition awake :: "'f loop \<Rightarrow> bool" where
  "awake s \<longleftrightarrow> 0 < wakeups s \<or> (\<exists>t. waking s t)"

definition wake_inv :: "'f loop \<Rightarrow> bool" where
  "wake_inv s \<longleftrightarrow>
     (callingFunctors s \<longleftrightarrow> (\<exists>fs. phase s = Running fs))
     \<and> (functors s \<noteq> [] \<longrightarrow> (phase s = Polling \<or> (\<exists>fs. phase s = Running fs)) \<longrightarrow> awake s)
     \<and> (quitting s \<longrightarrow> phase s = Polling \<longrightarrow> awake s)"

lemma fifo_step: "loop_step s t \<Longrightarrow> fifo_inv s \<Longrightarrow> fifo_inv t"
  by (induction rule: loop_step.induct) (auto simp: fifo_inv_def el_defs)

lemma wake_step: "loop_step s t \<Longrightarrow> wake_inv s \<Longrightarrow> wake_inv t"
proof (induction rule: loop_step.induct)
  case (run_one s f fs body)
  then show ?case
    by (cases "body f = []") (auto simp: wake_inv_def awake_def el_defs queue_fold_wakeups)
qed (auto simp: wake_inv_def awake_def el_defs queue_fold_wakeups)

lemma inv_new: "fifo_inv new_loop" "wake_inv new_loop"
  by (simp_all add: fifo_inv_def wake_inv_def new_loop_def)

lemma reachable_inv: "loop_steps s t \<Longrightarrow> fifo_inv s \<and> wake_inv s \<Longrightarrow> fifo_inv t \<and> wake_inv t"
  by (induction rule: loop_steps.induct) (auto intro: fifo_step wake_step)

lemma reachable_invs: "reachable s \<Longrightarrow> fifo_inv s \<and> wake_inv s"
  by (erule reachable_inv) (intro conjI inv_new)

text \<open>What a functor is owed after one more round.\<close>

definition owed :: "nat \<Rightarrow> nat \<Rightarrow> 'f loop \<Rightarrow> bool" where
  "owed n i s \<longleftrightarrow> n \<le> length (pushed s)
     \<and> (iters s = i \<longrightarrow> (\<forall>fs. phase s = Running fs \<longrightarrow> n \<le> length (executed s) + length fs))
     \<and> (i < iters s \<longrightarrow> n \<le> length (executed s)) \<and> i \<le> iters s"

lemma owed_step:
  assumes "loop_step s t" and "owed n i s" and "fifo_inv s"
  shows "owed n i t"
  using assms
proof (induction rule: loop_step.induct)
  case (swap_out s)
  then have "length (executed s) + length (functors s) = length (pushed s)"
    by (simp add: fifo_inv_def flip: length_append)
  with swap_out show ?case by (auto simp: owed_def)
qed (auto simp: owed_def el_defs)

lemma owed_steps:
  "loop_steps s t \<Longrightarrow> fifo_inv s \<and> wake_inv s \<Longrightarrow> owed n i s \<Longrightarrow> owed n i t"
  by (induction rule: loop_steps.induct) (auto intro: owed_step dest: reachable_inv)

text \<open>The whole of \<open>runFunctors\<close> is a run of the step relation.\<close>

lemma steps_trans: "loop_steps t u \<Longrightarrow> loop_steps s t \<Longrightarrow> loop_steps s u"
  by (induction rule: loop_steps.induct) (auto intro: loop_steps.intros)

lemma fold_queue_phase:
  "fold (el_queueInLoop b) hs (v\<lparr>phase := z\<rparr>) = (fold (el_queueInLoop b) hs v)\<lparr>phase := z\<rparr>"
proof (induction hs arbitrary: v)
  case (Cons h hs)
  have "el_queueInLoop b h (v\<lparr>phase := z\<rparr>) = (el_queueInLoop b h v)\<lparr>phase := z\<rparr>"
    by (simp add: el_queueInLoop_def el_push_def el_wakeup_def Let_def)
  with Cons show ?case by simp
qed simp

lemma fold_call_phase:
  "(fold (el_call body) gs (u\<lparr>phase := x\<rparr>))\<lparr>phase := y\<rparr> = (fold (el_call body) gs u)\<lparr>phase := y\<rparr>"
proof (induction gs arbitrary: u x)
  case (Cons g gs)
  have comm: "(u\<lparr>phase := x\<rparr>)\<lparr>executed := executed (u\<lparr>phase := x\<rparr>) @ [g]\<rparr>
      = (u\<lparr>executed := executed u @ [g]\<rparr>)\<lparr>phase := x\<rparr>" by simp
  have "el_call body g (u\<lparr>phase := x\<rparr>) = (el_call body g u)\<lparr>phase := x\<rparr>"
    unfolding el_call_def comm by (rule fold_queue_phase)
  with Cons show ?case by simp
qed simp

lemma run_all_steps:
  "phase s = Running fs \<Longrightarrow>
     loop_steps s ((fold (el_call body) fs s)\<lparr>phase := Running []\<rparr>)"
proof (induction fs arbitrary: s)
  case Nil
  then have "s\<lparr>phase := Running []\<rparr> = s" by (cases s) simp
  then show ?case by (simp add: loop_steps.refl)
next
  case (Cons f fs)
  define s1 where "s1 = (el_call body f s)\<lparr>phase := Running fs\<rparr>"
  have step: "loop_steps s s1"
    unfolding s1_def using loop_step.run_one [OF Cons.prems] loop_steps.refl loop_steps.more by blast
  have "phase s1 = Running fs" by (simp add: s1_def)
  from Cons.IH [OF this] have "loop_steps s1 ((fold (el_call body) fs s1)\<lparr>phase := Running []\<rparr>)" .
  with step fold_call_phase [where body = body and gs = fs and u = "el_call body f s"
      and x = "Running fs" and y = "Running []"]
  show ?case by (simp add: s1_def) (blast intro: steps_trans)
qed

lemma runFunctors_fold:
  "functors (fold (el_call body) fs s) = functors s @ concat (map body fs)
   \<and> executed (fold (el_call body) fs s) = executed s @ fs
   \<and> callingFunctors (fold (el_call body) fs s) = callingFunctors s
   \<and> phase (fold (el_call body) fs s) = phase s
   \<and> quitting (fold (el_call body) fs s) = quitting s
   \<and> iters (fold (el_call body) fs s) = iters s"
  by (induction fs arbitrary: s) (simp_all add: el_call_def)

section \<open>Properties\<close>



text \<open>
  C11: Functors are neither lost, duplicated nor reordered: in every reachable state the
  functors executed, those still to run in the current round and those queued are,
  in this order, exactly the functors that were ever queued.
\<close>

theorem functors_once_in_order:
  assumes "reachable s"
  shows "executed s @ remaining (phase s) @ functors s = pushed s"
  using reachable_invs [OF assms] by (simp add: fifo_inv_def)

text \<open>A loop with one functor queued by the client 3, and its round up to the batch.\<close>

definition one_queued :: "nat loop" where
  "one_queued = (el_push 7 new_loop)\<lparr>waking := (\<lambda>_. False)(3 := True)\<rparr>"

definition one_running :: "nat loop" where
  "one_running = one_queued\<lparr>callingFunctors := True, functors := [], phase := Running [7]\<rparr>"

lemma one_queued_reached: "reachable one_queued" "loop_steps one_queued one_running"
proof -
  have "loop_step new_loop one_queued"
    using loop_step.ext_push [of new_loop 3 "7 :: nat"] by (simp add: new_loop_def one_queued_def)
  then show "reachable one_queued" by (blast intro: loop_steps.intros)
  have "loop_step one_queued (one_queued\<lparr>phase := Handling []\<rparr>)"
    by (rule loop_step.poll_interrupted) (simp add: one_queued_def el_push_def new_loop_def)
  moreover have "loop_step (one_queued\<lparr>phase := Handling []\<rparr>) one_running"
    using loop_step.swap_out [of "one_queued\<lparr>phase := Handling []\<rparr>"]
    by (simp add: one_running_def one_queued_def el_push_def new_loop_def)
  ultimately show "loop_steps one_queued one_running" by (blast intro: loop_steps.intros)
qed

lemma loop_steps_trans: "loop_steps t u \<Longrightarrow> loop_steps s t \<Longrightarrow> loop_steps s u"
  by (induction rule: loop_steps.induct) (auto intro: loop_steps.more)

lemma functors_once_in_order_witness:
  "\<exists>s. loop_step one_running s \<and> remaining (phase s) = [7] \<and> functors s = [9] \<and> [7, 9] = pushed s"
proof -
  define s where "s = (el_push 9 one_running)\<lparr>waking := (waking one_running)(4 := True)\<rparr>"
  have st: "loop_step one_running s"
    unfolding s_def by (rule loop_step.ext_push) (simp add: one_running_def one_queued_def)
  have "reachable one_running" by (rule loop_steps_trans [OF one_queued_reached(2,1)])
  then have "reachable s" using st by (rule loop_steps.more)
  from functors_once_in_order [OF this] have "executed s @ remaining (phase s) @ functors s = pushed s" .
  then show ?thesis using st
    by (intro exI [of _ s]) (simp add: s_def one_running_def one_queued_def el_push_def new_loop_def)
qed

text \<open>
  C24: A functor waits at most one round. Every functor queued when the loop thread is
  polling or handling events has been executed once the loop thread has completed the
  round, whatever the other threads do meanwhile.
\<close>

theorem queued_runs_this_round:
  assumes "reachable s" and "phase s = Polling \<or> (\<exists>evs. phase s = Handling evs)"
    and "loop_steps s t" and "iters s < iters t"
  shows "take (length (pushed s)) (executed t) = pushed s"
proof -
  have inv: "fifo_inv s \<and> wake_inv s" using reachable_invs [OF assms(1)] by simp
  have grow: "\<exists>ys. pushed t = pushed s @ ys" using assms(3)
  proof (induction rule: loop_steps.induct)
    case (more s t u)
    from more(2) have "\<exists>zs. pushed u = pushed t @ zs"
      by (induction rule: loop_step.induct) (auto simp: el_defs)
    with more(3) show ?case by auto
  qed simp
  have "owed (length (pushed s)) (iters s) s"
    using assms(2) by (auto simp: owed_def)
  with owed_steps [OF assms(3) inv] assms(4) have "length (pushed s) \<le> length (executed t)"
    by (auto simp: owed_def)
  moreover have "executed t @ remaining (phase t) @ functors t = pushed t"
    using reachable_inv [OF assms(3) inv] by (simp add: fifo_inv_def)
  ultimately show ?thesis using grow
    by (metis append_eq_append_conv_if append_take_drop_id)
qed

lemma queued_runs_this_round_witness:
  "\<exists>t. loop_steps one_queued t \<and> iters t = 1 \<and> take 1 (executed t) = [7]"
proof -
  define c where "c = (el_call (\<lambda>_. []) 7 one_running)\<lparr>phase := Running []\<rparr>"
  define t where "t = c\<lparr>callingFunctors := False, iters := iters c + 1, phase := (if quitting c then Stopped else Polling)\<rparr>"
  have "loop_step one_running c"
    unfolding c_def by (rule loop_step.run_one) (simp add: one_running_def)
  moreover have "loop_step c t" unfolding t_def by (rule loop_step.next_round) (simp add: c_def)
  ultimately have r: "loop_steps one_queued t" using one_queued_reached(2) by (blast intro: loop_steps.more)
  have i: "phase one_queued = Polling" "pushed one_queued = [7]" "iters one_queued = 0"
    by (simp_all add: one_queued_def el_push_def new_loop_def)
  have "iters t = 1" by (simp add: t_def c_def el_call_def one_running_def one_queued_def el_push_def new_loop_def)
  then show ?thesis
    using queued_runs_this_round [OF one_queued_reached(1) _ r] i r by (intro exI [of _ t]) simp
qed

text \<open>
  \<open>runFunctors\<close> executes exactly the functors queued before the call, once each and in
  order, leaves the functors they queued in the queue for the next round, writes to the
  eventfd once for each of those, and clears the calling flag. It is a run of the step
  relation from the state in which the handlers are done.
\<close>

theorem runFunctors_one_batch:
  "executed (el_runFunctors body s) = executed s @ functors s
   \<and> functors (el_runFunctors body s) = concat (map body (functors s))
   \<and> wakeups (el_runFunctors body s) = wakeups s + length (concat (map body (functors s)))
   \<and> \<not> callingFunctors (el_runFunctors body s)
   \<and> (phase s = Handling [] \<longrightarrow>
        loop_steps s ((el_runFunctors body s)\<lparr>iters := iters s + 1,
          phase := (if quitting s then Stopped else Polling)\<rparr>))"
proof -
  define s1 where "s1 = s\<lparr>callingFunctors := True, functors := []\<rparr>"
  have eq: "el_runFunctors body s = (fold (el_call body) (functors s) s1)\<lparr>callingFunctors := False\<rparr>"
    by (simp add: el_runFunctors_def s1_def Let_def)
  have wake: "callingFunctors u \<Longrightarrow> wakeups (fold (el_call body) fs u)
      = wakeups u + length (concat (map body fs))" for fs u
    by (induction fs arbitrary: u) (simp_all add: el_call_def queue_fold_wakeups)
  have steps: "loop_steps s ((el_runFunctors body s)\<lparr>iters := iters s + 1,
      phase := (if quitting s then Stopped else Polling)\<rparr>)" if "phase s = Handling []"
  proof -
    define s2 where "s2 = s1\<lparr>phase := Running (functors s)\<rparr>"
    define s3 where "s3 = (fold (el_call body) (functors s) s2)\<lparr>phase := Running []\<rparr>"
    have "loop_step s s2"
      using loop_step.swap_out [OF that] by (simp add: s2_def s1_def)
    moreover have "loop_steps s2 s3"
      unfolding s3_def by (rule run_all_steps) (simp add: s2_def)
    ultimately have to_s3: "loop_steps s s3"
      by (blast intro: loop_steps.intros steps_trans)
    have fin: "loop_step s3 (s3\<lparr>callingFunctors := False, iters := iters s3 + 1,
        phase := (if quitting s3 then Stopped else Polling)\<rparr>)"
      by (rule loop_step.next_round) (simp add: s3_def)
    have "(fold (el_call body) (functors s) s2)\<lparr>phase := x\<rparr>
        = (fold (el_call body) (functors s) s1)\<lparr>phase := x\<rparr>" for x
      using fold_call_phase [where body = body and gs = "functors s" and u = s1
          and x = "Running (functors s)" and y = x] by (simp add: s2_def)
    note same = this
    have frame: "quitting s3 = quitting s" "iters s3 = iters s"
      using runFunctors_fold [of body "functors s" s2] by (simp_all add: s3_def) (simp_all add: s2_def s1_def)
    define ph where "ph = (if quitting s then Stopped else Polling :: 'a phase)"
    have "s3\<lparr>callingFunctors := False, iters := iters s3 + 1, phase := ph\<rparr>
        = ((fold (el_call body) (functors s) s2)\<lparr>phase := ph\<rparr>)\<lparr>callingFunctors := False, iters := iters s + 1\<rparr>"
      by (simp add: frame) (simp add: s3_def)
    also have "\<dots> = (el_runFunctors body s)\<lparr>iters := iters s + 1, phase := ph\<rparr>"
      unfolding same by (simp add: eq)
    finally have "s3\<lparr>callingFunctors := False, iters := iters s3 + 1,
        phase := (if quitting s3 then Stopped else Polling)\<rparr>
      = (el_runFunctors body s)\<lparr>iters := iters s + 1,
        phase := (if quitting s then Stopped else Polling)\<rparr>"
      by (simp only: ph_def frame)
    with to_s3 fin show ?thesis by (metis loop_steps.more)
  qed
  show ?thesis
    using runFunctors_fold [of body "functors s" s1] wake [of s1 "functors s"] steps
    by (simp add: eq) (simp add: s1_def)
qed

lemma runFunctors_one_batch_witness:
  "executed (el_runFunctors (\<lambda>n. if n = 1 then [5] else []) (el_push (2 :: nat) (el_push 1 new_loop))) = [1, 2]"
  using runFunctors_one_batch [of "\<lambda>n. if n = 1 then [5] else []" "el_push (2 :: nat) (el_push 1 new_loop)"]
  by (simp add: el_push_def new_loop_def)

end
