(* ===== verification/Timers.thy ===== *)
theory Timers
  imports Prelude "HOL-Library.Product_Lexorder"
begin

text \<open>
  \<open>net/Timer.h\<close> and \<open>net/TimerManager.cpp\<close>: timers shared between the user and a priority
  queue ordered by expiration and sequence number, driven by one timerfd. Timers live in
  a store indexed by their sequence number (the code shares them through pointers, and
  a cancellation sets a flag on the shared object); the queue holds sequence numbers.
  Times are nanosecond counts; every reading of the steady clock takes the next value of
  the parameter \<open>clk\<close>, and \<open>timerfd_settime\<close> is the parameter \<open>settime\<close>.
\<close>

section \<open>State\<close>

record timer =
  expiration :: int
  interval :: int
  tdeleted :: bool

definition new_timer :: "int \<Rightarrow> int \<Rightarrow> timer" where
  "new_timer when ival = \<lparr>expiration = when, interval = ival, tdeleted = False\<rparr>"

definition isRepeat :: "timer \<Rightarrow> bool" where
  "isRepeat t \<longleftrightarrow> 0 < interval t"

definition restart :: "int \<Rightarrow> timer \<Rightarrow> timer" where
  "restart now t = t\<lparr>expiration := now + interval t\<rparr>"

definition setDelete :: "bool \<Rightarrow> timer \<Rightarrow> timer" where
  "setDelete on t = t\<lparr>tdeleted := on\<rparr>"

record manager =
  store :: "nat \<Rightarrow> timer"
  tqueue :: "nat list"
  sTimerNum :: nat
  timerFd :: "int option" \<comment> \<open>the time the timerfd is armed for\<close>
  reads :: nat \<comment> \<open>clock readings so far\<close>
  fired :: "nat list" \<comment> \<open>timers whose callback was run, oldest first\<close>

type_synonym clock = "nat \<Rightarrow> int"

type_synonym settime = "int \<Rightarrow> int \<times> int \<Rightarrow> int option \<Rightarrow> bool \<times> int option"

definition new_manager :: manager where
  "new_manager = \<lparr>store = (\<lambda>_. new_timer 0 0), tqueue = [], sTimerNum = 0, timerFd = None,
     reads = 0, fired = []\<rparr>"

section \<open>The priority queue\<close>

text \<open>
  \<open>TimerCmp\<close> orders later timers first, so that \<open>top\<close> of the \<open>std::priority_queue\<close> is the
  earliest timer, and the one created first among equals. The order is total on distinct
  timers, so the sequence of \<open>top\<close>/\<open>pop\<close> results is that of the sorted list.
\<close>

definition timerCmp :: "(nat \<Rightarrow> timer) \<Rightarrow> nat \<Rightarrow> nat \<Rightarrow> bool" where
  "timerCmp st a b =
     (if expiration (st a) = expiration (st b) then b < a
      else expiration (st b) < expiration (st a))"

definition tkey :: "(nat \<Rightarrow> timer) \<Rightarrow> nat \<Rightarrow> int \<times> nat" where
  "tkey st i = (expiration (st i), i)"

lemma timerCmp_tkey: "timerCmp st a b \<longleftrightarrow> tkey st b < tkey st a"
  by (auto simp: timerCmp_def tkey_def)

definition tq_push :: "(nat \<Rightarrow> timer) \<Rightarrow> nat \<Rightarrow> nat list \<Rightarrow> nat list" where
  "tq_push st i q = insort_key (tkey st) i q"

text \<open>The laws the manager relies on, and what it concludes from them.\<close>

locale prio_queue =
  fixes key :: "'a \<Rightarrow> 'k :: linorder"
    and valid :: "'q \<Rightarrow> bool"
    and elems :: "'q \<Rightarrow> 'a set"
    and push :: "'a \<Rightarrow> 'q \<Rightarrow> 'q"
    and top :: "'q \<Rightarrow> 'a"
    and pop :: "'q \<Rightarrow> 'q"
  assumes push_valid: "valid q \<Longrightarrow> x \<notin> elems q \<Longrightarrow> valid (push x q)"
    and push_elems: "elems (push x q) = insert x (elems q)"
    and top_in: "elems q \<noteq> {} \<Longrightarrow> top q \<in> elems q"
    and top_least: "valid q \<Longrightarrow> x \<in> elems q \<Longrightarrow> key (top q) \<le> key x"
    and pop_valid: "valid q \<Longrightarrow> valid (pop q)"
    and pop_elems: "valid q \<Longrightarrow> elems q \<noteq> {} \<Longrightarrow> elems (pop q) = elems q - {top q}"
begin

lemma none_before: "valid q \<Longrightarrow> b < key (top q) \<Longrightarrow> x \<in> elems q \<Longrightarrow> b < key x"
  using top_least by fastforce

lemma new_least_iff:
  assumes "valid q" and "elems q \<noteq> {}"
  shows "b < key (top q) \<longleftrightarrow> (\<forall>x \<in> elems q. b < key x)"
  using assms none_before top_in by blast

lemma push_pop_new_top:
  assumes "valid q" and "x \<notin> elems q" and "top (push x q) = x"
  shows "elems (pop (push x q)) = elems q"
  using assms pop_elems [OF push_valid] push_elems by fastforce

end

definition tq_valid :: "(nat \<Rightarrow> timer) \<Rightarrow> nat list \<Rightarrow> bool" where
  "tq_valid st q \<longleftrightarrow> sorted (map (tkey st) q) \<and> distinct q"

interpretation tq: prio_queue "tkey st" "tq_valid st" set "tq_push st" hd tl for st
proof
  fix q :: "nat list" and x
  show "tq_valid st q \<Longrightarrow> x \<notin> set q \<Longrightarrow> tq_valid st (tq_push st x q)"
    by (simp add: tq_valid_def tq_push_def sorted_insort_key distinct_insort)
  show "set (tq_push st x q) = insert x (set q)"
    by (simp add: tq_push_def set_insort_key)
  show "set q \<noteq> {} \<Longrightarrow> hd q \<in> set q" by simp
  show "tq_valid st q \<Longrightarrow> x \<in> set q \<Longrightarrow> tkey st (hd q) \<le> tkey st x"
    by (cases q) (auto simp: tq_valid_def)
  show "tq_valid st q \<Longrightarrow> tq_valid st (tl q)"
    by (cases q) (auto simp: tq_valid_def)
  show "tq_valid st q \<Longrightarrow> set q \<noteq> {} \<Longrightarrow> set (tl q) = set q - {hd q}"
    by (cases q) (auto simp: tq_valid_def)
qed

section \<open>Arming the timerfd\<close>

text \<open>Division of C++ rounds towards zero and its remainder has the sign of the dividend.\<close>

definition cdiv :: "int \<Rightarrow> int \<Rightarrow> int" where
  "cdiv a b = sgn a * (\<bar>a\<bar> div b)"

definition crem :: "int \<Rightarrow> int \<Rightarrow> int" where
  "crem a b = a - b * cdiv a b"

definition giga :: int where "giga = 1000000000"

definition resetTimerFd :: "settime \<Rightarrow> clock \<Rightarrow> int \<Rightarrow> manager \<Rightarrow> manager" where
  "resetTimerFd settime clk expi m =
     (let now = clk (reads m);
          nsec = expi - now;
          value = (cdiv nsec giga, crem nsec giga);
          (ok, fd') = settime now value (timerFd m)
      in m\<lparr>reads := reads m + 1, timerFd := fd'\<rparr>)"

text \<open>
  What the code relies on of \<open>timerfd_settime\<close>(2) with a relative value: a zero value
  disarms, a negative part is refused with \<open>EINVAL\<close> and changes nothing, and any other
  value arms the descriptor for that time from now.
\<close>

definition settime_contract :: "settime \<Rightarrow> bool" where
  "settime_contract settime \<longleftrightarrow>
     (\<forall>now s n a. settime now (s, n) a =
        (if s < 0 \<or> n < 0 \<or> giga \<le> n then (False, a)
         else if s = 0 \<and> n = 0 then (True, None)
         else (True, Some (now + s * giga + n))))"

section \<open>Operations of the manager\<close>

text \<open>\<open>insert\<close> pushes the timer and says whether the earliest expiration changed.\<close>

definition tm_insert :: "nat \<Rightarrow> manager \<Rightarrow> bool \<times> manager" where
  "tm_insert i m =
     (if tqueue m \<noteq> [] then
        (let earliestChanged = expiration (store m i) < expiration (store m (hd (tqueue m)))
         in (earliestChanged, m\<lparr>tqueue := tq_push (store m) i (tqueue m)\<rparr>))
      else (True, m\<lparr>tqueue := tq_push (store m) i (tqueue m)\<rparr>))"

definition addTimerInLoop :: "settime \<Rightarrow> clock \<Rightarrow> nat \<Rightarrow> manager \<Rightarrow> manager" where
  "addTimerInLoop settime clk i m =
     (let (earliestChanged, m1) = tm_insert i m
      in if earliestChanged then resetTimerFd settime clk (expiration (store m1 i)) m1 else m1)"

definition make_timer :: "int \<Rightarrow> int \<Rightarrow> manager \<Rightarrow> nat \<times> manager" where
  "make_timer when ival m =
     (sTimerNum m, m\<lparr>store := (store m)(sTimerNum m := new_timer when ival),
                      sTimerNum := sTimerNum m + 1\<rparr>)"

text \<open>
  \<open>addTimer\<close> called from the loop's own thread. After handing the timer to the loop it
  asserts that the pointer it has just created is null, so with asserts compiled in it
  never returns; without them (\<open>ndebug\<close>) it returns the timer.
\<close>

definition addTimer :: "bool \<Rightarrow> settime \<Rightarrow> clock \<Rightarrow> int \<Rightarrow> int \<Rightarrow> manager \<Rightarrow> fault + (nat \<times> manager)" where
  "addTimer ndebug settime clk when ival m =
     (let (i, m1) = make_timer when ival m;
          m2 = addTimerInLoop settime clk i m1;
          timer = Some i
      in if ndebug \<or> timer = None then Inr (i, m2) else Inl Assert_failed)"

definition runAt :: "bool \<Rightarrow> settime \<Rightarrow> clock \<Rightarrow> int \<Rightarrow> manager \<Rightarrow> fault + (nat \<times> manager)" where
  "runAt ndebug settime clk time m = addTimer ndebug settime clk time 0 m"

definition runEvery :: "bool \<Rightarrow> settime \<Rightarrow> clock \<Rightarrow> int \<Rightarrow> manager \<Rightarrow> fault + (nat \<times> manager)" where
  "runEvery ndebug settime clk ival m =
     addTimer ndebug settime clk (clk (reads m) + ival) ival (m\<lparr>reads := reads m + 1\<rparr>)"

definition runAfter :: "bool \<Rightarrow> settime \<Rightarrow> clock \<Rightarrow> int \<Rightarrow> manager \<Rightarrow> fault + (nat \<times> manager)" where
  "runAfter ndebug settime clk delay m =
     addTimer ndebug settime clk (clk (reads m) + delay) 0 (m\<lparr>reads := reads m + 1\<rparr>)"

text \<open>
  A cancellation through a dangling weak pointer does nothing. A timer that no longer
  exists is in no queue, so setting its flag in the store is not observable.
\<close>

definition cancelInLoop :: "nat \<Rightarrow> manager \<Rightarrow> manager" where
  "cancelInLoop i m = m\<lparr>store := (store m)(i := setDelete True (store m i))\<rparr>"

text \<open>\<open>getExpired\<close>: the expired timers that are not deleted, and the queue that is left.\<close>

fun getExpired :: "(nat \<Rightarrow> timer) \<Rightarrow> int \<Rightarrow> nat list \<Rightarrow> nat list \<times> nat list" where
  "getExpired st now [] = ([], [])"
| "getExpired st now (i # q) =
     (if expiration (st i) \<le> now
      then (let (e, q') = getExpired st now q in (if tdeleted (st i) then e else i # e, q'))
      else ([], i # q))"

text \<open>
  The callbacks may use the manager themselves, from the loop's own thread: cancel any
  timer or create new ones. \<open>acts i\<close> is what the callback of timer \<open>i\<close> does to it. A new
  timer is made by \<open>addTimer\<close> with asserts compiled out; with them the program ends there.
\<close>

datatype act = CancelAct nat | AddAct int int

fun do_act :: "settime \<Rightarrow> clock \<Rightarrow> act \<Rightarrow> manager \<Rightarrow> manager" where
  "do_act settime clk (CancelAct i) m = cancelInLoop i m"
| "do_act settime clk (AddAct when ival) m =
     (case addTimer True settime clk when ival m of Inl f \<Rightarrow> m | Inr (i, m1) \<Rightarrow> m1)"

lemma do_act_AddAct:
  "do_act settime clk (AddAct when ival) m
     = addTimerInLoop settime clk (sTimerNum m) (snd (make_timer when ival m))"
  by (simp add: addTimer_def make_timer_def)

declare do_act.simps(2) [simp del] do_act_AddAct [simp]

definition run_callback :: "settime \<Rightarrow> clock \<Rightarrow> (nat \<Rightarrow> act list) \<Rightarrow> nat \<Rightarrow> manager \<Rightarrow> manager" where
  "run_callback settime clk acts i m =
     fold (do_act settime clk) (acts i) (m\<lparr>fired := fired m @ [i]\<rparr>)"

fun run_expired :: "settime \<Rightarrow> clock \<Rightarrow> (nat \<Rightarrow> act list) \<Rightarrow> nat list \<Rightarrow> manager \<Rightarrow> manager" where
  "run_expired settime clk acts [] m = m"
| "run_expired settime clk acts (i # e) m =
     run_expired settime clk acts e
       (if tdeleted (store m i) then m else run_callback settime clk acts i m)"

text \<open>The first loop of \<open>reset\<close> puts the periodic timers back, the second drops deleted ones.\<close>

definition reinsert :: "int \<Rightarrow> nat \<Rightarrow> manager \<Rightarrow> manager" where
  "reinsert now i m =
     (if isRepeat (store m i) \<and> \<not> tdeleted (store m i)
      then snd (tm_insert i (m\<lparr>store := (store m)(i := restart now (store m i))\<rparr>))
      else m)"

fun reset_insert :: "int \<Rightarrow> nat list \<Rightarrow> manager \<Rightarrow> manager" where
  "reset_insert now [] m = m"
| "reset_insert now (i # e) m =
     reset_insert now e (reinsert now i m)"

fun skip_deleted :: "(nat \<Rightarrow> timer) \<Rightarrow> nat list \<Rightarrow> nat list" where
  "skip_deleted st [] = []"
| "skip_deleted st (i # q) = (if \<not> tdeleted (st i) then i # q else skip_deleted st q)"

definition tm_reset :: "settime \<Rightarrow> clock \<Rightarrow> nat list \<Rightarrow> int \<Rightarrow> manager \<Rightarrow> manager" where
  "tm_reset settime clk e now m =
     (let m1 = reset_insert now e m;
          q = skip_deleted (store m1) (tqueue m1);
          m2 = m1\<lparr>tqueue := q\<rparr>
      in if q \<noteq> [] then resetTimerFd settime clk (expiration (store m2 (hd q))) m2 else m2)"

definition tm_handleRead :: "settime \<Rightarrow> clock \<Rightarrow> (nat \<Rightarrow> act list) \<Rightarrow> manager \<Rightarrow> manager" where
  "tm_handleRead settime clk acts m =
     (let now = clk (reads m);
          (e, q) = getExpired (store m) now (tqueue m);
          m1 = m\<lparr>reads := reads m + 1, tqueue := q, timerFd := None\<rparr>;
          m2 = run_expired settime clk acts e m1
      in tm_reset settime clk e now m2)"

section \<open>Arming\<close>

lemma cdiv_crem_pos: "0 < n \<Longrightarrow> cdiv n giga = n div giga \<and> crem n giga = n mod giga"
  by (simp add: cdiv_def crem_def giga_def minus_mult_div_eq_mod)

lemma cdiv_crem_neg:
  assumes "n < 0"
  shows "cdiv n giga < 0 \<or> crem n giga < 0"
proof (rule ccontr)
  assume "\<not> ?thesis"
  then have "0 \<le> giga * cdiv n giga + crem n giga" by (simp add: giga_def)
  then show False using assms by (simp add: crem_def)
qed

lemma resetTimerFd_fields [simp]:
  "store (resetTimerFd settime clk expi m) = store m"
  "tqueue (resetTimerFd settime clk expi m) = tqueue m"
  "sTimerNum (resetTimerFd settime clk expi m) = sTimerNum m"
  "fired (resetTimerFd settime clk expi m) = fired m"
  "reads (resetTimerFd settime clk expi m) = reads m + 1"
  by (simp_all add: resetTimerFd_def Let_def split: prod.splits)

lemma resetTimerFd_spec:
  assumes "settime_contract settime"
  shows "timerFd (resetTimerFd settime clk expi m) =
    (if clk (reads m) < expi then Some expi
     else if expi = clk (reads m) then None else timerFd m)"
proof -
  define now where "now = clk (reads m)"
  define n where "n = expi - now"
  have eff: "timerFd (resetTimerFd settime clk expi m)
      = snd (settime now (cdiv n giga, crem n giga) (timerFd m))"
    by (simp add: resetTimerFd_def Let_def n_def now_def split: prod.splits)
  consider "0 < n" | "n = 0" | "n < 0" by linarith
  then show ?thesis
  proof cases
    case 1
    have "0 \<le> n div giga" "0 \<le> n mod giga" "n mod giga < giga"
      using 1 by (simp_all add: giga_def pos_imp_zdiv_nonneg_iff)
    moreover have "\<not> (n div giga = 0 \<and> n mod giga = 0)"
      using 1 by (metis mult_div_mod_eq add.right_neutral less_irrefl mult_zero_right)
    moreover have "now + n div giga * giga + n mod giga = expi"
      by (simp add: n_def add.assoc)
    ultimately show ?thesis
      using assms 1 cdiv_crem_pos [OF 1] unfolding eff settime_contract_def
      by (simp add: n_def now_def [symmetric])
  next
    case 2
    then have "cdiv n giga = 0" "crem n giga = 0" by (simp_all add: cdiv_def crem_def)
    with assms 2 show ?thesis
      unfolding eff settime_contract_def by (simp add: n_def now_def giga_def)
  next
    case 3
    have "snd (settime now (cdiv n giga, crem n giga) (timerFd m)) = timerFd m"
      using assms cdiv_crem_neg [OF 3] unfolding settime_contract_def by auto
    with 3 show ?thesis unfolding eff by (simp add: n_def now_def)
  qed
qed

section \<open>The queue stays sorted\<close>

definition tm_inv :: "manager \<Rightarrow> bool" where
  "tm_inv m \<longleftrightarrow> tq_valid (store m) (tqueue m) \<and> (\<forall>i \<in> set (tqueue m). i < sTimerNum m)"

lemma tq_valid_cong:
  assumes "\<forall>i \<in> set q. expiration (st' i) = expiration (st i)"
  shows "tq_valid st' q = tq_valid st q"
proof -
  have "map (tkey st') q = map (tkey st) q" using assms by (simp add: tkey_def)
  then show ?thesis unfolding tq_valid_def by (rule arg_cong)
qed

lemma expiration_setDelete [simp]: "expiration (setDelete b t) = expiration t"
  and interval_setDelete [simp]: "interval (setDelete b t) = interval t"
  and tdeleted_setDelete [simp]: "tdeleted (setDelete b t) = b"
  and tdeleted_restart [simp]: "tdeleted (restart now t) = tdeleted t"
  and interval_restart [simp]: "interval (restart now t) = interval t"
  and expiration_restart [simp]: "expiration (restart now t) = now + interval t"
  by (simp_all add: setDelete_def restart_def)

lemma isRepeat_same [simp]: "isRepeat (setDelete b t) = isRepeat t" "isRepeat (restart now t) = isRepeat t"
  by (simp_all add: isRepeat_def)

lemma tm_insert_fields [simp]:
  "tqueue (snd (tm_insert i m)) = tq_push (store m) i (tqueue m)"
  "store (snd (tm_insert i m)) = store m"
  "sTimerNum (snd (tm_insert i m)) = sTimerNum m"
  "fired (snd (tm_insert i m)) = fired m"
  by (simp_all add: tm_insert_def Let_def)

lemma addTimerInLoop_fields [simp]:
  "tqueue (addTimerInLoop settime clk i m) = tq_push (store m) i (tqueue m)"
  "store (addTimerInLoop settime clk i m) = store m"
  "sTimerNum (addTimerInLoop settime clk i m) = sTimerNum m"
  "fired (addTimerInLoop settime clk i m) = fired m"
  using tm_insert_fields [of i m]
  by (cases "tm_insert i m"; simp add: addTimerInLoop_def)+

lemma set_tq_push [simp]: "set (tq_push st i q) = insert i (set q)"
  by (rule tq.push_elems)

text \<open>
  Between taking the expired timers out and putting the periodic ones back, those timers
  are in neither place twice: the batch \<open>e\<close> and the queue are disjoint.
\<close>

definition batch_inv :: "nat list \<Rightarrow> manager \<Rightarrow> bool" where
  "batch_inv e m \<longleftrightarrow> tm_inv m \<and> distinct e \<and> set e \<inter> set (tqueue m) = {}
     \<and> (\<forall>i \<in> set e. i < sTimerNum m)"

lemma batch_inv_Nil [simp]: "batch_inv [] m = tm_inv m"
  by (simp add: batch_inv_def)

lemma cancel_batch: "batch_inv e m \<Longrightarrow> batch_inv e (cancelInLoop i m)"
  using tq_valid_cong [of "tqueue m" "(store m)(i := setDelete True (store m i))" "store m"]
  by (auto simp: batch_inv_def tm_inv_def cancelInLoop_def)

lemma make_timer_batch:
  assumes "batch_inv e m" and m1_def: "m1 = snd (make_timer when ival m)"
  shows "batch_inv e (addTimerInLoop settime clk (sTimerNum m) m1)"
proof -
  have q: "tqueue m1 = tqueue m" "sTimerNum m1 = sTimerNum m + 1"
    by (simp_all add: m1_def make_timer_def)
  have "tq_valid (store m1) (tqueue m)"
    using assms(1) tq_valid_cong [of "tqueue m" "store m1" "store m"]
    by (auto simp: batch_inv_def tm_inv_def m1_def make_timer_def)
  moreover have "sTimerNum m \<notin> set (tqueue m)" "sTimerNum m \<notin> set e"
    using assms(1) by (auto simp: batch_inv_def tm_inv_def)
  ultimately show ?thesis
    using assms(1) tq.push_valid [of "store m1" "tqueue m" "sTimerNum m"]
    by (auto simp: batch_inv_def tm_inv_def q less_Suc_eq)
qed

lemma act_batch: "batch_inv e m \<Longrightarrow> batch_inv e (do_act settime clk a m)"
  using make_timer_batch [of e m _ _ _ settime clk]
  by (cases a) (auto simp: cancel_batch make_timer_def)

lemma run_callback_batch: "batch_inv e m \<Longrightarrow> batch_inv e (run_callback settime clk acts i m)"
proof -
  assume "batch_inv e m"
  then have "batch_inv e (m\<lparr>fired := fired m @ [i]\<rparr>)" by (simp add: batch_inv_def tm_inv_def)
  then have "batch_inv e (fold (do_act settime clk) as (m\<lparr>fired := fired m @ [i]\<rparr>))" for as
    by (induction as arbitrary: m rule: rev_induct) (simp_all add: act_batch)
  then show ?thesis by (simp add: run_callback_def)
qed

lemma run_expired_batch:
  "batch_inv e m \<Longrightarrow> batch_inv e (run_expired settime clk acts es m)"
  by (induction es arbitrary: m) (simp_all add: run_callback_batch)

lemma reinsert_fields [simp]:
  "sTimerNum (reinsert now i m) = sTimerNum m" "fired (reinsert now i m) = fired m"
  "tdeleted (store (reinsert now i m) j) = tdeleted (store m j)"
  "isRepeat (store (reinsert now i m) j) = isRepeat (store m j)"
  by (simp_all add: reinsert_def)

lemma reinsert_batch:
  assumes "batch_inv (i # e) m"
  shows "batch_inv e (reinsert now i m)"
proof -
  define st where "st = (store m)(i := restart now (store m i))"
  have i: "i \<notin> set (tqueue m)" "batch_inv e m"
    using assms by (auto simp: batch_inv_def)
  have "tq_valid st (tqueue m)"
    using i tq_valid_cong [of "tqueue m" st "store m"]
    by (auto simp: batch_inv_def tm_inv_def st_def)
  from tq.push_valid [OF this i(1)] assms i(2) show ?thesis
    by (auto simp: batch_inv_def tm_inv_def reinsert_def st_def)
qed

lemma reset_insert_batch: "batch_inv e m \<Longrightarrow> tm_inv (reset_insert now e m)"
  by (induction e arbitrary: m) (simp_all add: reinsert_batch)

lemma reset_insert_fields [simp]:
  "sTimerNum (reset_insert now e m) = sTimerNum m" "fired (reset_insert now e m) = fired m"
  "tdeleted (store (reset_insert now e m) j) = tdeleted (store m j)"
  "isRepeat (store (reset_insert now e m) j) = isRepeat (store m j)"
  by (induction e arbitrary: m) simp_all

lemma skip_deleted_suffix: "\<exists>d. q = d @ skip_deleted st q \<and> (\<forall>i \<in> set d. tdeleted (st i))"
proof (induction q)
  case (Cons i q)
  then obtain d where "q = d @ skip_deleted st q" "\<forall>i \<in> set d. tdeleted (st i)" by blast
  then show ?case
    by (cases "tdeleted (st i)") (auto intro!: exI [of _ "i # d"])
qed simp

lemma skip_deleted_live: "skip_deleted st q \<noteq> [] \<Longrightarrow> \<not> tdeleted (st (hd (skip_deleted st q)))"
  by (induction q) auto

lemma skip_deleted_inv: "tm_inv m \<Longrightarrow> tm_inv (m\<lparr>tqueue := skip_deleted (store m) (tqueue m)\<rparr>)"
proof -
  assume inv: "tm_inv m"
  obtain d where d: "tqueue m = d @ skip_deleted (store m) (tqueue m)"
    using skip_deleted_suffix by blast
  from inv have "tq_valid (store m) (d @ skip_deleted (store m) (tqueue m))"
    and "\<forall>i \<in> set (d @ skip_deleted (store m) (tqueue m)). i < sTimerNum m"
    by (simp_all add: tm_inv_def d [symmetric])
  then show ?thesis by (simp add: tm_inv_def tq_valid_def sorted_append)
qed

lemma getExpired_spec:
  "tq_valid st q \<Longrightarrow> getExpired st now q =
     (filter (\<lambda>i. expiration (st i) \<le> now \<and> \<not> tdeleted (st i)) q,
      filter (\<lambda>i. now < expiration (st i)) q)"
proof (induction q)
  case (Cons i q)
  have later: "expiration (st i) \<le> expiration (st j)" if "j \<in> set q" for j
    using Cons.prems that by (auto simp: tq_valid_def tkey_def)
  show ?case
  proof (cases "expiration (st i) \<le> now")
    case True
    with Cons show ?thesis by (simp add: tq_valid_def)
  next
    case False
    then have "now < expiration (st j)" if "j \<in> set q" for j
      using later [OF that] by simp
    then have "filter (\<lambda>i. expiration (st i) \<le> now \<and> \<not> tdeleted (st i)) q = []"
      and "filter (\<lambda>i. now < expiration (st i)) q = q"
      by (force simp: filter_empty_conv, simp)
    with False show ?thesis by simp
  qed
qed simp

lemma getExpired_batch:
  assumes "tm_inv m" and "getExpired (store m) now (tqueue m) = (e, q)"
  shows "batch_inv e (m\<lparr>reads := r, tqueue := q, timerFd := t\<rparr>)"
proof -
  have eq: "e = filter (\<lambda>i. expiration (store m i) \<le> now \<and> \<not> tdeleted (store m i)) (tqueue m)"
    "q = filter (\<lambda>i. now < expiration (store m i)) (tqueue m)"
    using getExpired_spec [of "store m" "tqueue m" now] assms by (auto simp: tm_inv_def)
  then show ?thesis
    using assms(1) by (auto simp: batch_inv_def tm_inv_def tq_valid_def sorted_filter)
qed

lemma tm_reset_inv: "batch_inv e m \<Longrightarrow> tm_inv (tm_reset settime clk e now m)"
  using skip_deleted_inv [OF reset_insert_batch, of e m now]
  by (auto simp: tm_reset_def Let_def tm_inv_def)

lemma handleRead_inv: "tm_inv m \<Longrightarrow> tm_inv (tm_handleRead settime clk acts m)"
  unfolding tm_handleRead_def Let_def
  by (auto split: prod.split intro!: tm_reset_inv run_expired_batch getExpired_batch)

section \<open>Runs\<close>

text \<open>
  What can happen to a manager: its loop runs an action of the user (a new timer or a
  cancellation), or the timerfd becomes readable.
\<close>

datatype tm_op = ActOp act | TickOp

fun tm_step :: "settime \<Rightarrow> clock \<Rightarrow> (nat \<Rightarrow> act list) \<Rightarrow> tm_op \<Rightarrow> manager \<Rightarrow> manager" where
  "tm_step settime clk acts (ActOp a) m = do_act settime clk a m"
| "tm_step settime clk acts TickOp m = tm_handleRead settime clk acts m"

definition tm_run :: "settime \<Rightarrow> clock \<Rightarrow> (nat \<Rightarrow> act list) \<Rightarrow> tm_op list \<Rightarrow> manager \<Rightarrow> manager" where
  "tm_run settime clk acts ops m = fold (tm_step settime clk acts) ops m"

lemma tm_step_inv: "tm_inv m \<Longrightarrow> tm_inv (tm_step settime clk acts op m)"
  using act_batch [of "[]" m] by (cases op) (simp_all add: handleRead_inv)

lemma tm_inv_new: "tm_inv new_manager"
  by (simp add: tm_inv_def new_manager_def tq_valid_def)

lemma tm_run_inv: "tm_inv m \<Longrightarrow> tm_inv (tm_run settime clk acts ops m)"
  unfolding tm_run_def by (induction ops arbitrary: m) (simp_all add: tm_step_inv)

text \<open>\<open>handleRead\<close> as the composition of its loops.\<close>

definition taken :: "nat list \<Rightarrow> manager \<Rightarrow> manager" where
  "taken q m = m\<lparr>reads := reads m + 1, tqueue := q, timerFd := None\<rparr>"

lemma taken_fields [simp]:
  "store (taken q m) = store m" "tqueue (taken q m) = q" "sTimerNum (taken q m) = sTimerNum m"
  "fired (taken q m) = fired m"
  by (simp_all add: taken_def)

lemma tm_handleRead_loops:
  "getExpired (store m) (clk (reads m)) (tqueue m) = (e, q) \<Longrightarrow>
     tm_handleRead settime clk acts m
       = tm_reset settime clk e (clk (reads m)) (run_expired settime clk acts e (taken q m))"
  by (simp add: tm_handleRead_def taken_def)

lemma tm_reset_fields [simp]:
  "store (tm_reset settime clk e now m) = store (reset_insert now e m)"
  "sTimerNum (tm_reset settime clk e now m) = sTimerNum (reset_insert now e m)"
  "fired (tm_reset settime clk e now m) = fired (reset_insert now e m)"
  "tqueue (tm_reset settime clk e now m)
     = skip_deleted (store (reset_insert now e m)) (tqueue (reset_insert now e m))"
  by (simp_all add: tm_reset_def Let_def)

text \<open>A fact kept by acts and by the loops of \<open>handleRead\<close> is kept by \<open>handleRead\<close>.\<close>

definition cancelled :: "nat \<Rightarrow> nat \<Rightarrow> manager \<Rightarrow> bool" where
  "cancelled i n m \<longleftrightarrow> i < sTimerNum m \<and> tdeleted (store m i) \<and> count_list (fired m) i = n"

lemma act_cancelled: "cancelled i n m \<Longrightarrow> cancelled i n (do_act settime clk a m)"
  by (cases a) (auto simp: cancelled_def cancelInLoop_def make_timer_def)

lemma fold_act_cancelled: "cancelled i n m \<Longrightarrow> cancelled i n (fold (do_act settime clk) as m)"
  by (induction as arbitrary: m) (simp_all add: act_cancelled)

lemma run_expired_cancelled: "cancelled i n m \<Longrightarrow> cancelled i n (run_expired settime clk acts e m)"
proof (induction e arbitrary: m)
  case (Cons j e)
  show ?case
  proof (cases "tdeleted (store m j)")
    case True
    with Cons show ?thesis by simp
  next
    case False
    with Cons.prems have "cancelled i n (m\<lparr>fired := fired m @ [j]\<rparr>)"
      by (auto simp: cancelled_def)
    with Cons.IH False show ?thesis by (simp add: run_callback_def fold_act_cancelled)
  qed
qed simp

lemma reset_insert_cancelled: "cancelled i n (reset_insert now e m) = cancelled i n m"
  by (simp add: cancelled_def)

lemma handleRead_cancelled: "cancelled i n m \<Longrightarrow> cancelled i n (tm_handleRead settime clk acts m)"
proof -
  assume c: "cancelled i n m"
  obtain e q where eq: "getExpired (store m) (clk (reads m)) (tqueue m) = (e, q)" by fastforce
  have "cancelled i n (taken q m)" using c by (simp add: cancelled_def)
  then have "cancelled i n (run_expired settime clk acts e (taken q m))"
    by (rule run_expired_cancelled)
  then show ?thesis
    using tm_handleRead_loops [where settime = settime and clk = clk and acts = acts, OF eq]
    by (simp add: cancelled_def)
qed

lemma tm_run_cancelled: "cancelled i n m \<Longrightarrow> cancelled i n (tm_run settime clk acts ops m)"
proof (unfold tm_run_def, induction ops arbitrary: m)
  case (Cons op ops)
  then show ?case by (cases op) (simp_all add: act_cancelled handleRead_cancelled)
qed simp

text \<open>Every timer that does not repeat is in one place at a time.\<close>

definition shots :: "nat list \<Rightarrow> nat \<Rightarrow> manager \<Rightarrow> nat" where
  "shots e i m = count_list (fired m) i + count_list e i + (if i \<in> set (tqueue m) then 1 else 0)"

definition once_inv :: "nat list \<Rightarrow> manager \<Rightarrow> bool" where
  "once_inv e m \<longleftrightarrow> batch_inv e m \<and> (\<forall>i. isRepeat (store m i) \<or> shots e i m \<le> 1)
     \<and> (\<forall>i. sTimerNum m \<le> i \<longrightarrow> count_list (fired m) i = 0)"

lemma act_once: "once_inv e m \<Longrightarrow> once_inv e (do_act settime clk a m)"
proof -
  assume o: "once_inv e m"
  then have b: "batch_inv e (do_act settime clk a m)" by (simp add: once_inv_def act_batch)
  show ?thesis
  proof (cases a)
    case (CancelAct j)
    with o b show ?thesis by (simp add: once_inv_def cancelInLoop_def shots_def)
  next
    case (AddAct w ival)
    have "count_list e (sTimerNum m) = 0" "sTimerNum m \<notin> set (tqueue m)"
      using o by (auto simp: once_inv_def batch_inv_def tm_inv_def count_list_0_iff)
    with o b AddAct show ?thesis
      by (auto simp: once_inv_def make_timer_def shots_def)
  qed
qed

lemma fold_act_once: "once_inv e m \<Longrightarrow> once_inv e (fold (do_act settime clk) as m)"
  by (induction as arbitrary: m) (simp_all add: act_once)

lemma run_expired_once:
  "once_inv e m \<Longrightarrow> once_inv [] (run_expired settime clk acts e m)"
proof (induction e arbitrary: m)
  case (Cons i e)
  have le: "shots e j m \<le> shots (i # e) j m"
    and eq: "shots e j (m\<lparr>fired := fired m @ [i]\<rparr>) = shots (i # e) j m" for j
    by (simp_all add: shots_def)
  have batch: "batch_inv e m" "i < sTimerNum m"
    using Cons.prems by (auto simp: once_inv_def batch_inv_def)
  have drop: "once_inv e m"
    using Cons.prems batch le order_trans unfolding once_inv_def by blast
  have "batch_inv e (m\<lparr>fired := fired m @ [i]\<rparr>)"
    using batch(1) by (simp add: batch_inv_def tm_inv_def)
  then have fire: "once_inv e (m\<lparr>fired := fired m @ [i]\<rparr>)"
    using Cons.prems batch(2) unfolding once_inv_def eq by auto
  show ?case
  proof (cases "tdeleted (store m i)")
    case True
    with drop Cons.IH show ?thesis by simp
  next
    case False
    with Cons.IH [OF fold_act_once [OF fire]] show ?thesis by (simp add: run_callback_def)
  qed
qed simp

lemma reset_insert_shots:
  "\<not> isRepeat (store m i) \<Longrightarrow> i \<in> set (tqueue (reset_insert now e m)) \<longleftrightarrow> i \<in> set (tqueue m)"
proof (induction e arbitrary: m)
  case (Cons j e)
  have "i \<in> set (tqueue (reinsert now j m)) \<longleftrightarrow> i \<in> set (tqueue m)"
    using Cons.prems by (auto simp: reinsert_def)
  with Cons show ?case by simp
qed simp

lemma distinct_count: "distinct e \<Longrightarrow> count_list e i = (if i \<in> set e then 1 else 0)"
  by (induction e) auto

lemma handleRead_once:
  assumes "once_inv [] m"
  shows "once_inv [] (tm_handleRead settime clk acts m)"
proof -
  obtain e q where eq: "getExpired (store m) (clk (reads m)) (tqueue m) = (e, q)" by fastforce
  have inv: "tm_inv m" using assms by (simp add: once_inv_def)
  have "batch_inv e (taken q m)"
    unfolding taken_def by (rule getExpired_batch [OF inv eq])
  moreover have "set e \<union> set q \<subseteq> set (tqueue m)"
    using getExpired_spec [of "store m" "tqueue m"] inv eq by (auto simp: tm_inv_def)
  then have "shots e i (taken q m) \<le> shots [] i m" for i
    using calculation by (auto simp: shots_def batch_inv_def distinct_count)
  ultimately have once: "once_inv e (taken q m)"
    using assms order_trans unfolding once_inv_def by fastforce
  define m2 where "m2 = run_expired settime clk acts e (taken q m)"
  have m2: "once_inv [] m2" "batch_inv e m2"
    using run_expired_once [OF once] run_expired_batch once
    by (simp_all add: m2_def once_inv_def)
  define m3 where "m3 = tm_reset settime clk e (clk (reads m)) m2"
  have sub: "set (tqueue m3) \<subseteq> set (tqueue (reset_insert (clk (reads m)) e m2))"
    using skip_deleted_suffix [of "tqueue (reset_insert (clk (reads m)) e m2)"
        "store (reset_insert (clk (reads m)) e m2)"]
    by (metis Un_upper2 m3_def set_append tm_reset_fields(4))
  have "shots [] i m3 \<le> shots [] i m2" if "\<not> isRepeat (store m2 i)" for i
    using sub reset_insert_shots [OF that] by (auto simp: shots_def) (simp_all add: m3_def)
  then have "once_inv [] m3"
    using m2 tm_reset_inv [OF m2(2)] order_trans unfolding once_inv_def m3_def by fastforce
  then show ?thesis
    using tm_handleRead_loops [where settime = settime and clk = clk and acts = acts, OF eq]
    by (simp add: m2_def m3_def)
qed

lemma tm_run_once: "once_inv [] m \<Longrightarrow> once_inv [] (tm_run settime clk acts ops m)"
proof (unfold tm_run_def, induction ops arbitrary: m)
  case (Cons op ops)
  then show ?case by (cases op) (simp_all add: act_once handleRead_once)
qed simp

lemma once_new: "once_inv [] new_manager"
  using tm_inv_new by (simp add: once_inv_def shots_def) (simp add: new_manager_def)

section \<open>One tick\<close>

text \<open>
  The timers of a batch that are run, one after the other: each that no callback before it
  has cancelled. \<open>D\<close> holds the ones cancelled so far.
\<close>

fun runs :: "(nat \<Rightarrow> act list) \<Rightarrow> nat set \<Rightarrow> nat list \<Rightarrow> nat list" where
  "runs acts D [] = []"
| "runs acts D (i # e) =
     (if i \<in> D then runs acts D e else i # runs acts (D \<union> {j. CancelAct j \<in> set (acts i)}) e)"

text \<open>What the actions of callbacks change of the timers there are, and that new ones are queued.\<close>

definition acted :: "act set \<Rightarrow> manager \<Rightarrow> manager \<Rightarrow> bool" where
  "acted A m m' \<longleftrightarrow> sTimerNum m \<le> sTimerNum m'
     \<and> (\<forall>i < sTimerNum m. (tdeleted (store m' i) \<longleftrightarrow> tdeleted (store m i) \<or> CancelAct i \<in> A)
          \<and> expiration (store m' i) = expiration (store m i) \<and> interval (store m' i) = interval (store m i)
          \<and> (i \<in> set (tqueue m') \<longleftrightarrow> i \<in> set (tqueue m)))
     \<and> (\<forall>i < sTimerNum m'. sTimerNum m \<le> i \<longrightarrow> i \<in> set (tqueue m'))"

lemma acted_refl: "acted {} m (m\<lparr>fired := f\<rparr>)"
  by (simp add: acted_def)

lemma acted_trans: "acted A m m1 \<Longrightarrow> acted B m1 m2 \<Longrightarrow> acted (A \<union> B) m m2"
  unfolding acted_def by (simp add: order.trans) (metis leI order.strict_trans2)

lemma act_acted: "acted {a} m (do_act settime clk a m)"
  by (cases a) (simp_all add: acted_def cancelInLoop_def make_timer_def new_timer_def less_Suc_eq)

lemma acts_fired: "fired (fold (do_act settime clk) as m) = fired m"
proof (induction as arbitrary: m)
  case (Cons a as)
  then show ?case by (cases a) (simp_all add: cancelInLoop_def make_timer_def)
qed simp

lemma acts_acted: "acted (set as) m (fold (do_act settime clk) as m)"
proof (induction as arbitrary: m)
  case (Cons a as)
  from acted_trans [OF act_acted Cons.IH] show ?case by simp
qed (simp add: acted_def)

lemma run_expired_acted:
  "\<forall>i \<in> set e. i < sTimerNum m \<and> (i \<in> D \<longleftrightarrow> tdeleted (store m i)) \<Longrightarrow>
     fired (run_expired settime clk acts e m) = fired m @ runs acts D e
     \<and> acted (\<Union>j \<in> set (runs acts D e). set (acts j)) m (run_expired settime clk acts e m)"
proof (induction e arbitrary: m D)
  case (Cons i e)
  show ?case
  proof (cases "tdeleted (store m i)")
    case True
    with Cons.IH [of m D] Cons.prems show ?thesis by simp
  next
    case False
    define m1 where "m1 = run_callback settime clk acts i m"
    define D1 where "D1 = D \<union> {j. CancelAct j \<in> set (acts i)}"
    have m1: "acted (set (acts i)) m m1" "fired m1 = fired m @ [i]"
      using acted_trans [OF acted_refl acts_acted] acts_fired
      by (simp_all add: m1_def run_callback_def)
    then have "\<forall>j \<in> set e. j < sTimerNum m1 \<and> (j \<in> D1 \<longleftrightarrow> tdeleted (store m1 j))"
      using Cons.prems by (auto simp: acted_def D1_def)
    from Cons.IH [OF this] m1 show ?thesis
      using False Cons.prems acted_trans [OF m1(1)] by (simp add: m1_def [symmetric] D1_def [symmetric])
  qed
qed (simp add: acted_def)

lemma reset_insert_members:
  "i \<in> set (tqueue (reset_insert now e m)) \<longleftrightarrow>
     i \<in> set (tqueue m) \<or> i \<in> set e \<and> isRepeat (store m i) \<and> \<not> tdeleted (store m i)"
proof (induction e arbitrary: m)
  case (Cons j e)
  have "i \<in> set (tqueue (reinsert now j m)) \<longleftrightarrow>
      i \<in> set (tqueue m) \<or> i = j \<and> isRepeat (store m i) \<and> \<not> tdeleted (store m i)"
    by (auto simp: reinsert_def)
  with Cons show ?case by auto
qed simp

lemma reset_insert_interval [simp]: "interval (store (reset_insert now e m) i) = interval (store m i)"
proof (induction e arbitrary: m)
  case (Cons j e)
  have "interval (store (reinsert now j m) i) = interval (store m i)" by (simp add: reinsert_def)
  with Cons show ?case by simp
qed simp

lemma reset_insert_expiration:
  "expiration (store (reset_insert now e m) i)
     = (if i \<in> set e \<and> isRepeat (store m i) \<and> \<not> tdeleted (store m i) then now + interval (store m i)
        else expiration (store m i))"
proof (induction e arbitrary: m)
  case (Cons j e)
  have "expiration (store (reinsert now j m) i)
      = (if i = j \<and> isRepeat (store m i) \<and> \<not> tdeleted (store m i) then now + interval (store m i)
         else expiration (store m i))"
    "interval (store (reinsert now j m) i) = interval (store m i)"
    by (auto simp: reinsert_def)
  with Cons show ?case by auto
qed simp

lemma skip_deleted_members: "\<not> tdeleted (st i) \<Longrightarrow> i \<in> set (skip_deleted st q) \<longleftrightarrow> i \<in> set q"
  by (induction q) auto

lemma tm_handleRead_acted:
  assumes "tm_inv m" and "now = clk (reads m)"
    and "e = filter (\<lambda>i. expiration (store m i) \<le> now \<and> \<not> tdeleted (store m i)) (tqueue m)"
    and "rn = runs acts {} e" and m': "m' = tm_handleRead settime clk acts m"
  shows "fired m' = fired m @ rn"
    and "i < sTimerNum m \<Longrightarrow>
           tdeleted (store m' i) \<longleftrightarrow> tdeleted (store m i) \<or> (\<exists>j \<in> set rn. CancelAct i \<in> set (acts j))"
    and "i < sTimerNum m \<Longrightarrow> \<not> tdeleted (store m' i) \<Longrightarrow>
           i \<in> set (tqueue m') \<longleftrightarrow> i \<in> set (tqueue m) \<and> (now < expiration (store m i) \<or> isRepeat (store m i))"
    and "i < sTimerNum m \<Longrightarrow> \<not> tdeleted (store m' i) \<Longrightarrow>
           expiration (store m' i) = (if i \<in> set e \<and> isRepeat (store m i) then now + interval (store m i)
             else expiration (store m i))"
    and "sTimerNum m \<le> i \<Longrightarrow> i < sTimerNum m' \<Longrightarrow> \<not> tdeleted (store m' i) \<Longrightarrow> i \<in> set (tqueue m')"
proof -
  define r where "r = filter (\<lambda>i. now < expiration (store m i)) (tqueue m)"
  have eq: "getExpired (store m) (clk (reads m)) (tqueue m) = (e, r)"
    using getExpired_spec [of "store m" "tqueue m"] assms(1,2) by (simp add: assms(3) r_def tm_inv_def)
  define m2 where "m2 = run_expired settime clk acts e (taken r m)"
  have "\<forall>i \<in> set e. i < sTimerNum (taken r m) \<and> (i \<in> {} \<longleftrightarrow> tdeleted (store (taken r m) i))"
    using assms(1) by (auto simp: assms(3) tm_inv_def)
  from run_expired_acted [OF this, of settime clk acts]
  have m2: "fired m2 = fired m @ rn" "acted (\<Union>j \<in> set rn. set (acts j)) (taken r m) m2"
    by (simp_all add: m2_def assms(4))
  have m'eq: "m' = tm_reset settime clk e now m2"
    using tm_handleRead_loops [where settime = settime and clk = clk and acts = acts, OF eq]
    by (simp add: m' m2_def assms(2))
  have A: "(tdeleted (store m2 i) \<longleftrightarrow> tdeleted (store m i) \<or> (\<exists>j \<in> set rn. CancelAct i \<in> set (acts j)))
      \<and> expiration (store m2 i) = expiration (store m i) \<and> isRepeat (store m2 i) = isRepeat (store m i)
      \<and> interval (store m2 i) = interval (store m i) \<and> (i \<in> set (tqueue m2) \<longleftrightarrow> i \<in> set r)"
    if "i < sTimerNum m" for i
    using m2(2) that by (auto simp: acted_def isRepeat_def)
  show "fired m' = fired m @ rn" by (simp add: m'eq m2(1))
  show "tdeleted (store m' i) \<longleftrightarrow> tdeleted (store m i) \<or> (\<exists>j \<in> set rn. CancelAct i \<in> set (acts j))"
    if "i < sTimerNum m"
    using A [OF that] by (simp add: m'eq)
  show "i \<in> set (tqueue m') \<longleftrightarrow> i \<in> set (tqueue m) \<and> (now < expiration (store m i) \<or> isRepeat (store m i))"
    if "i < sTimerNum m" "\<not> tdeleted (store m' i)"
    using A [OF that(1)] that(2) by (auto simp: m'eq skip_deleted_members reset_insert_members assms(3) r_def)
  show "expiration (store m' i) = (if i \<in> set e \<and> isRepeat (store m i) then now + interval (store m i)
      else expiration (store m i))" if "i < sTimerNum m" "\<not> tdeleted (store m' i)"
    using A [OF that(1)] that(2) by (auto simp: m'eq reset_insert_expiration)
  show "i \<in> set (tqueue m')" if "sTimerNum m \<le> i" "i < sTimerNum m'" "\<not> tdeleted (store m' i)"
    using m2(2) that by (auto simp: m'eq skip_deleted_members reset_insert_members acted_def)
qed

text \<open>A timerfd that meets the contract, for the witnesses.\<close>

definition plain_settime :: settime where
  "plain_settime now v a =
     (if fst v < 0 \<or> snd v < 0 \<or> giga \<le> snd v then (False, a)
      else if fst v = 0 \<and> snd v = 0 then (True, None)
      else (True, Some (now + fst v * giga + snd v)))"

lemma plain_settime_contract: "settime_contract plain_settime"
  by (simp add: settime_contract_def plain_settime_def)

section \<open>Properties\<close>

text \<open>
  C7: One tick of the timer manager, whatever the callbacks do to it (asserts compiled out).
  The batch \<open>e\<close> is exactly the timers in the queue that have expired at the clock reading and
  are not cancelled, in the order of expiration and creation. Its timers are run in this
  order, except those that a callback before them in the tick has cancelled. A timer is
  cancelled at the end exactly when it was before or a callback of the tick cancelled it;
  one that is not is in the queue at the end exactly when it was in it and had not expired
  or is periodic, and is due one interval after the reading when it is of the batch and
  periodic, and at the same time as before otherwise. Every timer that a callback made and
  none cancelled is in the queue, and is not run in this tick.
\<close>

theorem tick_runs_expired:
  assumes "tm_inv m" and "now = clk (reads m)"
    and "e = filter (\<lambda>i. expiration (store m i) \<le> now \<and> \<not> tdeleted (store m i)) (tqueue m)"
    and "rn = runs acts {} e" and "m' = tm_handleRead settime clk acts m"
  shows "fired m' = fired m @ rn \<and> sorted (map (tkey (store m)) e)
     \<and> (\<forall>i < sTimerNum m.
          (tdeleted (store m' i) \<longleftrightarrow> tdeleted (store m i) \<or> (\<exists>j \<in> set rn. CancelAct i \<in> set (acts j)))
          \<and> (\<not> tdeleted (store m' i) \<longrightarrow>
               (i \<in> set (tqueue m') \<longleftrightarrow>
                  i \<in> set (tqueue m) \<and> (now < expiration (store m i) \<or> isRepeat (store m i)))
               \<and> expiration (store m' i) = (if i \<in> set e \<and> isRepeat (store m i)
                   then now + interval (store m i) else expiration (store m i))))
     \<and> (\<forall>i < sTimerNum m'. sTimerNum m \<le> i \<longrightarrow> \<not> tdeleted (store m' i) \<longrightarrow> i \<in> set (tqueue m') \<and> i \<notin> set rn)"
proof -
  note Q = tm_handleRead_acted [OF assms]
  have "sorted (map (tkey (store m)) e)"
    using assms(1) by (simp add: assms(3) sorted_filter tm_inv_def tq_valid_def)
  moreover have "set (runs acts D es) \<subseteq> set es" for D es by (induction es arbitrary: D) auto
  then have "set rn \<subseteq> set (tqueue m)" unfolding assms(3,4) by fastforce
  then have "\<forall>i. sTimerNum m \<le> i \<longrightarrow> i \<notin> set rn" using assms(1) by (force simp: tm_inv_def)
  ultimately show ?thesis using Q by blast
qed

definition three_timers :: manager where
  "three_timers = new_manager\<lparr>
     store := (\<lambda>_. new_timer 0 0)(0 := new_timer 15 0, 1 := new_timer 5 7, 2 := new_timer 500 0),
     tqueue := [1, 0, 2], sTimerNum := 3, timerFd := Some 5, reads := 2\<rparr>"

lemma tick_runs_expired_witness:
  "fired (tm_handleRead plain_settime (\<lambda>n. 10 * int n) (\<lambda>_. []) three_timers) = [1, 0]
   \<and> fired (tm_handleRead plain_settime (\<lambda>n. 10 * int n) (\<lambda>_. [CancelAct 0, AddAct 5 0]) three_timers) = [1]"
proof -
  have f: "reads three_timers = 2" "fired three_timers = []" "tqueue three_timers = [1, 0, 2]"
      "store three_timers 0 = new_timer 15 0" "store three_timers 1 = new_timer 5 7"
      "store three_timers 2 = new_timer 500 0" "sTimerNum three_timers = 3"
    by (simp_all add: three_timers_def) (simp add: new_manager_def)
  have "tm_inv three_timers"
    using f by (simp add: tm_inv_def tq_valid_def tkey_def new_timer_def less_eq_prod_def)
  note tick = tick_runs_expired [OF this HOL.refl HOL.refl HOL.refl HOL.refl,
      where clk = "\<lambda>n. 10 * int n" and settime = plain_settime]
  show ?thesis
    using tick [THEN conjunct1, of "\<lambda>_. []"] tick [THEN conjunct1, of "\<lambda>_. [CancelAct 0, AddAct 5 0]"] f
    by (simp add: new_timer_def)
qed

text \<open>
  C12: A cancelled timer never runs again: from the moment its flag is set, whatever
  actions, ticks and callbacks follow, the number of times it has run does not change
  and it stays cancelled.
\<close>

theorem cancelled_never_fires:
  assumes "i < sTimerNum m"
  shows "count_list (fired (tm_run settime clk acts ops (cancelInLoop i m))) i = count_list (fired m) i
    \<and> tdeleted (store (tm_run settime clk acts ops (cancelInLoop i m)) i)"
proof -
  have "cancelled i (count_list (fired m) i) (cancelInLoop i m)"
    using assms by (simp add: cancelled_def cancelInLoop_def)
  from tm_run_cancelled [OF this] show ?thesis by (simp add: cancelled_def)
qed

lemma cancelled_never_fires_witness:
  "count_list (fired (tm_run plain_settime int (\<lambda>_. []) [TickOp, TickOp]
     (cancelInLoop 0 (snd (make_timer 1 1 new_manager))))) 0 = 0"
  using cancelled_never_fires [of 0 "snd (make_timer 1 1 new_manager)" plain_settime int "\<lambda>_. []"]
  by (simp add: make_timer_def new_manager_def)

text \<open>
  A timer that does not repeat runs at most once in any history of the manager,
  including histories whose callbacks cancel timers and add new ones.
\<close>

theorem one_shot_fires_once:
  "isRepeat (store (tm_run settime clk acts ops new_manager) i)
   \<or> count_list (fired (tm_run settime clk acts ops new_manager)) i \<le> 1"
proof -
  have "once_inv [] (tm_run settime clk acts ops new_manager)"
    by (rule tm_run_once [OF once_new])
  then show ?thesis by (auto simp: once_inv_def shots_def dest: spec [of _ i])
qed

text \<open>
  Arming the timerfd for a time after the clock reading arms it for exactly that
  time. For the time of the reading itself the value is zero, which disarms it, and for
  an earlier time the value is refused and the old setting stays: a timer that is
  already due is not armed for.
\<close>

theorem resetTimerFd_effect:
  assumes "settime_contract settime"
  shows "timerFd (resetTimerFd settime clk expi m) =
    (if clk (reads m) < expi then Some expi
     else if expi = clk (reads m) then None else timerFd m)"
  using assms by (rule resetTimerFd_spec)

lemma resetTimerFd_effect_witness:
  "timerFd (resetTimerFd plain_settime (\<lambda>_. 5) 5 (new_manager\<lparr>timerFd := Some 9\<rparr>)) = None"
  using resetTimerFd_effect [OF plain_settime_contract, of "\<lambda>_. 5" 5 "new_manager\<lparr>timerFd := Some 9\<rparr>"]
  by simp

text \<open>
  After every tick the head of a non-empty queue is a live timer, the earliest one of
  the queue, and when it is due after the last clock reading the timerfd is armed for it.
\<close>

theorem tick_arms_earliest:
  assumes "settime_contract settime" and "tm_inv m"
    and "m' = tm_handleRead settime clk acts m" and "tqueue m' \<noteq> []"
    and "clk (reads m' - 1) < expiration (store m' (hd (tqueue m')))"
  shows "\<not> tdeleted (store m' (hd (tqueue m')))
     \<and> (\<forall>i \<in> set (tqueue m'). expiration (store m' (hd (tqueue m'))) \<le> expiration (store m' i))
     \<and> timerFd m' = Some (expiration (store m' (hd (tqueue m'))))"
proof -
  obtain e q where eq: "getExpired (store m) (clk (reads m)) (tqueue m) = (e, q)" by fastforce
  define m3 where "m3 = reset_insert (clk (reads m)) e (run_expired settime clk acts e (taken q m))"
  define m4 where "m4 = m3\<lparr>tqueue := skip_deleted (store m3) (tqueue m3)\<rparr>"
  have m': "m' = tm_reset settime clk e (clk (reads m)) (run_expired settime clk acts e (taken q m))"
    unfolding assms(3)
    by (rule tm_handleRead_loops [where settime = settime and clk = clk and acts = acts, OF eq])
  then have q': "tqueue m' = tqueue m4" and st: "store m' = store m4"
    by (simp_all add: m4_def m3_def)
  then have arm: "m' = resetTimerFd settime clk (expiration (store m4 (hd (tqueue m4)))) m4"
    using assms(4) m' by (simp add: tm_reset_def Let_def m4_def m3_def)
  have "\<not> tdeleted (store m' (hd (tqueue m')))"
    using skip_deleted_live [of "store m3" "tqueue m3"] assms(4) by (simp add: q' st m4_def)
  moreover have "tq_valid (store m') (tqueue m')"
    using handleRead_inv [OF assms(2)] by (simp add: assms(3) tm_inv_def)
  then have "\<forall>i \<in> set (tqueue m'). tkey (store m') (hd (tqueue m')) \<le> tkey (store m') i"
    using tq.top_least by blast
  moreover have "reads m' - 1 = reads m4" by (subst arm) simp
  then have "timerFd m' = Some (expiration (store m' (hd (tqueue m'))))"
    using resetTimerFd_spec [OF assms(1), of clk _ m4] assms(5) by (subst arm) (simp add: q' st)
  ultimately show ?thesis by (auto simp: tkey_def less_eq_prod_def)
qed

lemma tick_arms_earliest_witness:
  "timerFd (tm_handleRead plain_settime (\<lambda>n. 10 * int n) (\<lambda>_. [])
     (tm_run plain_settime (\<lambda>n. 10 * int n) (\<lambda>_. [])
        [ActOp (AddAct 25 0), ActOp (AddAct 500 0)] new_manager)) = Some 25"
proof -
  define m where "m = tm_run plain_settime (\<lambda>n. 10 * int n) (\<lambda>_. [])
        [ActOp (AddAct 25 0), ActOp (AddAct 500 0)] new_manager"
  have inv: "tm_inv m" unfolding m_def by (rule tm_run_inv [OF tm_inv_new])
  have m: "m = new_manager\<lparr>store := (\<lambda>_. new_timer 0 0)(0 := new_timer 25 0, 1 := new_timer 500 0),
      tqueue := [0, 1], sTimerNum := 2, timerFd := Some 25, reads := 1\<rparr>"
    by (simp add: m_def tm_run_def new_manager_def make_timer_def addTimerInLoop_def
        tm_insert_def tq_push_def tkey_def new_timer_def resetTimerFd_def Let_def
        plain_settime_def giga_def cdiv_def crem_def)
  define m' where "m' = tm_handleRead plain_settime (\<lambda>n. 10 * int n) (\<lambda>_. []) m"
  have f: "tqueue m' = [0, 1]" "store m' 0 = new_timer 25 0" "reads m' = 3"
    by (simp_all add: m'_def m new_manager_def tm_handleRead_def new_timer_def tm_reset_def)
  show ?thesis
    using tick_arms_earliest [OF plain_settime_contract inv m'_def] f
    unfolding m_def [symmetric] m'_def [symmetric] by (simp add: new_timer_def)
qed

end
