(* ===== verification/ReplyActions.thy ===== *)
theory ReplyActions
  imports Ragel "HOL-Library.Word"
begin

text \<open>
  The data of \<open>http/httpclient_parser.h\<close> and the actions of \<open>http/httpclient_parser.cpp\<close>, the
  parser of responses and chunk headers. As for requests an event records the pointer and the
  length given to a callback. \<open>rtr\<close>\<open>n\<close> is the block of the label \<open>tr\<close>\<open>n\<close>.
\<close>

section \<open>Numbers in the input\<close>

text \<open>
  \<open>strtol\<close>(3): white space, a sign, for base 16 an optional \<open>0x\<close> in front of a digit, and the
  longest run of digits, saturated at the range of \<open>long\<close>. The text ends at a NUL, which is
  no digit, or with the list.
\<close>

definition is_space :: "char \<Rightarrow> bool" where
  "is_space ch \<longleftrightarrow> ch = CHR 0x20 \<or> 9 \<le> schar ch \<and> schar ch \<le> 13"

definition digit_value :: "char \<Rightarrow> int" where
  "digit_value ch =
     (let c = schar ch in
      if 48 \<le> c \<and> c \<le> 57 then c - 48
      else if 65 \<le> c \<and> c \<le> 90 then c - 55
      else if 97 \<le> c \<and> c \<le> 122 then c - 87
      else 36)"

fun digits_value :: "int \<Rightarrow> int \<Rightarrow> bytes \<Rightarrow> int" where
  "digits_value base acc [] = acc"
| "digits_value base acc (ch # s) =
     (if digit_value ch < base then digits_value base (acc * base + digit_value ch) s else acc)"

fun drop_prefix :: "int \<Rightarrow> bytes \<Rightarrow> bytes" where
  "drop_prefix base (z # x # d # s) =
     (if base = 16 \<and> z = CHR ''0'' \<and> (x = CHR ''x'' \<or> x = CHR ''X'') \<and> digit_value d < 16
      then d # s else z # x # d # s)"
| "drop_prefix base s = s"

definition saturate :: "int \<Rightarrow> int" where
  "saturate v = max (- (2 ^ 63)) (min (2 ^ 63 - 1) v)"

definition strtol :: "int \<Rightarrow> bytes \<Rightarrow> int" where
  "strtol base s =
     (case dropWhile is_space s of
        [] \<Rightarrow> 0
      | sg # t \<Rightarrow>
          if sg = CHR ''-'' then saturate (- digits_value base 0 (drop_prefix base t))
          else if sg = CHR ''+'' then saturate (digits_value base 0 (drop_prefix base t))
          else saturate (digits_value base 0 (drop_prefix base (sg # t))))"

text \<open>The conversion of a \<open>long\<close> to \<open>int\<close>.\<close>

definition to_int :: "int \<Rightarrow> int" where
  "to_int v = sint (word_of_int v :: 32 word)"

lemma to_int_id: "- (2 ^ 31) \<le> v \<Longrightarrow> v < 2 ^ 31 \<Longrightarrow> to_int v = v"
  by (simp add: to_int_def sint_sbintrunc' signed_take_bit_int_eq_self)

section \<open>The parser and its callbacks\<close>

datatype reply_hook = HookHttpField | HookReason | HookStatusCode | HookChunkSize | HookReplyVersion
  | HookReplyDone | HookLastChunk

datatype reply_event = ReplyElement reply_hook nat nat | ReplyField nat nat nat nat

record httpclient_parser =
  cl_cs :: nat
  cl_body_start :: nat
  cl_content_len :: int
  cl_status :: int
  cl_chunked :: bool
  cl_chunks_done :: bool
  cl_close :: bool
  cl_nread :: nat
  cl_mark :: nat
  cl_field_start :: nat
  cl_field_len :: nat
  cl_hooks :: "reply_hook list" \<comment> \<open>the callbacks that are not null\<close>
  cl_emitted :: "reply_event list"

section \<open>Actions\<close>

datatype reply_action = RMark | RStartField | RWriteField | RStartValue | RContentLen | RClose
  | RWriteValue | RReason | RStatus | RVersion | RChunkSize | RChunked | RDone

definition reply_emit :: "reply_hook \<Rightarrow> reply_event \<Rightarrow> httpclient_parser \<Rightarrow> httpclient_parser" where
  "reply_emit h e m = (if h \<in> set (cl_hooks m) then m\<lparr>cl_emitted := cl_emitted m @ [e]\<rparr> else m)"

definition reply_element :: "reply_hook \<Rightarrow> nat \<Rightarrow> httpclient_parser \<Rightarrow> httpclient_parser" where
  "reply_element h p m = reply_emit h (ReplyElement h (cl_mark m) (size_sub p (cl_mark m))) m"

definition reply_act :: "bytes \<Rightarrow> nat \<Rightarrow> reply_action \<Rightarrow> httpclient_parser \<Rightarrow> httpclient_parser" where
  "reply_act buffer p a m =
     (case a of
        RMark \<Rightarrow> m\<lparr>cl_mark := p\<rparr>
      | RStartField \<Rightarrow> m\<lparr>cl_field_start := p\<rparr>
      | RWriteField \<Rightarrow> m\<lparr>cl_field_len := size_sub p (cl_field_start m)\<rparr>
      | RStartValue \<Rightarrow> m\<lparr>cl_mark := p\<rparr>
      | RContentLen \<Rightarrow> m\<lparr>cl_content_len := to_int (strtol 10 (drop (cl_mark m) buffer))\<rparr>
      | RClose \<Rightarrow> m\<lparr>cl_close := True\<rparr>
      | RWriteValue \<Rightarrow> reply_emit HookHttpField
          (ReplyField (cl_field_start m) (cl_field_len m) (cl_mark m) (size_sub p (cl_mark m))) m
      | RReason \<Rightarrow> reply_element HookReason p m
      | RStatus \<Rightarrow> reply_element HookStatusCode p
          (m\<lparr>cl_status := to_int (strtol 10 (drop (cl_mark m) buffer))\<rparr>)
      | RVersion \<Rightarrow> reply_element HookReplyVersion p m
      | RChunkSize \<Rightarrow>
          (let v = to_int (strtol 16 (drop (cl_mark m) buffer));
               m1 = m\<lparr>cl_chunked := True, cl_content_len := v, cl_chunks_done := v \<le> 0\<rparr>
           in if cl_chunks_done m1 \<and> HookLastChunk \<in> set (cl_hooks m1)
              then reply_element HookLastChunk p m1 else reply_element HookChunkSize p m1)
      | RChunked \<Rightarrow> m\<lparr>cl_chunked := True\<rparr>
      | RDone \<Rightarrow> reply_emit HookReplyDone
          (ReplyElement HookReplyDone (p + 1) (size_sub (size_sub (length buffer) p) 1))
          (m\<lparr>cl_body_start := p + 1\<rparr>))"

definition rbreaks :: "reply_action \<Rightarrow> bool" where
  "rbreaks a \<longleftrightarrow> a = RDone"

section \<open>Moves\<close>

type_synonym rmove = "reply_action list \<times> nat"

definition to_st :: "nat \<Rightarrow> rmove" where
  "to_st n = ([], n)"

definition rtr0 :: rmove where "rtr0 = ([RMark], 2)"
definition rtr2 :: rmove where "rtr2 = ([RMark], 8)"
definition rtr3 :: rmove where "rtr3 = ([RChunkSize, RDone], 120)"
definition rtr4 :: rmove where "rtr4 = ([RChunkSize], 3)"
definition rtr6 :: rmove where "rtr6 = ([RChunkSize], 4)"
definition rtr7 :: rmove where "rtr7 = ([RDone], 120)"
definition rtr8 :: rmove where "rtr8 = ([RStartField], 5)"
definition rtr9 :: rmove where "rtr9 = ([RWriteField, RStartValue, RWriteValue, RDone], 120)"
definition rtr10 :: rmove where "rtr10 = ([RWriteField, RStartValue, RWriteValue], 3)"
definition rtr12 :: rmove where "rtr12 = ([RWriteField, RStartValue, RWriteValue], 4)"
definition rtr13 :: rmove where "rtr13 = ([RWriteField, RStartValue], 6)"
definition rtr14 :: rmove where "rtr14 = ([RStartValue], 7)"
definition rtr15 :: rmove where "rtr15 = ([RWriteValue, RDone], 120)"
definition rtr16 :: rmove where "rtr16 = ([RWriteValue], 3)"
definition rtr18 :: rmove where "rtr18 = ([RWriteValue], 4)"
definition rtr26 :: rmove where "rtr26 = ([RVersion], 16)"
definition rtr27 :: rmove where "rtr27 = ([RMark], 17)"
definition rtr28 :: rmove where "rtr28 = ([RStatus], 18)"
definition rtr30 :: rmove where "rtr30 = ([RMark], 19)"
definition rtr32 :: rmove where "rtr32 = ([RReason], 20)"
definition rtr33 :: rmove where "rtr33 = ([RReason], 24)"
definition rtr35 :: rmove where "rtr35 = ([RStartField], 21)"
definition rtr36 :: rmove where "rtr36 = ([RStartField], 25)"
definition rtr37 :: rmove where "rtr37 = ([RStartField], 44)"
definition rtr39 :: rmove where "rtr39 = ([RWriteField], 22)"
definition rtr40 :: rmove where "rtr40 = ([RStartValue], 23)"
definition rtr41 :: rmove where "rtr41 = ([RStartValue], 22)"
definition rtr42 :: rmove where "rtr42 = ([RStartValue, RWriteValue], 20)"
definition rtr43 :: rmove where "rtr43 = ([RStartValue, RWriteValue], 24)"
definition rtr45 :: rmove where "rtr45 = ([RWriteValue], 20)"
definition rtr46 :: rmove where "rtr46 = ([RWriteValue], 24)"
definition rtr58 :: rmove where "rtr58 = ([RWriteField], 35)"
definition rtr59 :: rmove where "rtr59 = ([RStartValue], 35)"
definition rtr60 :: rmove where "rtr60 = ([RStartValue, RWriteValue], 36)"
definition rtr61 :: rmove where "rtr61 = ([RStartValue, RWriteValue], 95)"
definition rtr62 :: rmove where "rtr62 = ([RStartValue], 96)"
definition rtr64 :: rmove where "rtr64 = ([RDone], 122)"
definition rtr66 :: rmove where "rtr66 = ([RStartField], 90)"
definition rtr74 :: rmove where "rtr74 = ([RClose, RDone], 120)"
definition rtr75 :: rmove where "rtr75 = ([RClose], 3)"
definition rtr76 :: rmove where "rtr76 = ([RClose, RStartField], 21)"
definition rtr77 :: rmove where "rtr77 = ([RClose, RStartField], 25)"
definition rtr78 :: rmove where "rtr78 = ([RClose, RStartField], 44)"
definition rtr95 :: rmove where "rtr95 = ([RWriteField], 61)"
definition rtr96 :: rmove where "rtr96 = ([RStartValue], 61)"
definition rtr97 :: rmove where "rtr97 = ([RStartValue, RWriteValue], 62)"
definition rtr98 :: rmove where "rtr98 = ([RStartValue, RWriteValue], 80)"
definition rtr99 :: rmove where "rtr99 = ([RStartValue], 81)"
definition rtr101 :: rmove where "rtr101 = ([RDone], 121)"
definition rtr103 :: rmove where "rtr103 = ([RStartValue, RStartField], 73)"
definition rtr104 :: rmove where "rtr104 = ([RStartValue], 64)"
definition rtr111 :: rmove where "rtr111 = ([RWriteValue, RChunked], 20)"
definition rtr112 :: rmove where "rtr112 = ([RWriteValue], 71)"
definition rtr113 :: rmove where "rtr113 = ([RChunked], 20)"
definition rtr136 :: rmove where "rtr136 = ([RWriteValue], 43)"
definition rtr137 :: rmove where "rtr137 = ([RWriteValue], 88)"
definition rtr148 :: rmove where "rtr148 = ([RWriteField], 112)"
definition rtr149 :: rmove where "rtr149 = ([RStartValue], 112)"
definition rtr150 :: rmove where "rtr150 = ([RStartValue, RWriteValue], 113)"
definition rtr151 :: rmove where "rtr151 = ([RStartValue, RWriteValue], 118)"
definition rtr152 :: rmove where "rtr152 = ([RStartValue], 119)"
definition rtr154 :: rmove where "rtr154 = ([RDone], 123)"
definition rtr156 :: rmove where "rtr156 = ([RStartValue, RStartField], 117)"
definition rtr157 :: rmove where "rtr157 = ([RStartValue], 115)"
definition rtr158 :: rmove where "rtr158 = ([RContentLen, RWriteValue], 20)"
definition rtr159 :: rmove where "rtr159 = ([RContentLen, RWriteValue], 24)"

lemmas rtr_defs = rtr0_def rtr2_def rtr3_def rtr4_def rtr6_def rtr7_def rtr8_def rtr9_def
  rtr10_def rtr12_def rtr13_def rtr14_def rtr15_def rtr16_def rtr18_def rtr26_def rtr27_def
  rtr28_def rtr30_def rtr32_def rtr33_def rtr35_def rtr36_def rtr37_def rtr39_def rtr40_def
  rtr41_def rtr42_def rtr43_def rtr45_def rtr46_def rtr58_def rtr59_def rtr60_def rtr61_def
  rtr62_def rtr64_def rtr66_def rtr74_def rtr75_def rtr76_def rtr77_def rtr78_def rtr95_def
  rtr96_def rtr97_def rtr98_def rtr99_def rtr101_def rtr103_def rtr104_def rtr111_def
  rtr112_def rtr113_def rtr136_def rtr137_def rtr148_def rtr149_def rtr150_def rtr151_def
  rtr152_def rtr154_def rtr156_def rtr157_def rtr158_def rtr159_def

text \<open>What the machine promises of a move.\<close>

definition reply_first_final :: nat where "reply_first_final = 120"

definition sound_rmove :: "rmove \<Rightarrow> bool" where
  "sound_rmove m \<longleftrightarrow> snd m \<le> 123 \<and> (performs rbreaks (fst m) \<longleftrightarrow> reply_first_final \<le> snd m)
     \<and> (snd m = 0 \<longrightarrow> fst m = [])"

named_theorems reply_moves

lemma sound_rif [reply_moves]:
  "sound_rmove (if b then x else y) \<longleftrightarrow> (b \<longrightarrow> sound_rmove x) \<and> (\<not> b \<longrightarrow> sound_rmove y)"
  by simp

lemma sound_to [reply_moves]: "n < 120 \<Longrightarrow> sound_rmove (to_st n)"
  by (simp add: sound_rmove_def to_st_def performs_def reply_first_final_def)

lemma sound_to_zero [reply_moves]: "sound_rmove (to_st 0)"
  by (simp add: sound_to)

lemma sound_rtr [reply_moves]: "sound_rmove rtr0" "sound_rmove rtr2" "sound_rmove rtr3"
  "sound_rmove rtr4" "sound_rmove rtr6" "sound_rmove rtr7" "sound_rmove rtr8"
  "sound_rmove rtr9" "sound_rmove rtr10" "sound_rmove rtr12" "sound_rmove rtr13"
  "sound_rmove rtr14" "sound_rmove rtr15" "sound_rmove rtr16" "sound_rmove rtr18"
  "sound_rmove rtr26" "sound_rmove rtr27" "sound_rmove rtr28" "sound_rmove rtr30"
  "sound_rmove rtr32" "sound_rmove rtr33" "sound_rmove rtr35" "sound_rmove rtr36"
  "sound_rmove rtr37" "sound_rmove rtr39" "sound_rmove rtr40" "sound_rmove rtr41"
  "sound_rmove rtr42" "sound_rmove rtr43" "sound_rmove rtr45" "sound_rmove rtr46"
  "sound_rmove rtr58" "sound_rmove rtr59" "sound_rmove rtr60" "sound_rmove rtr61"
  "sound_rmove rtr62" "sound_rmove rtr64" "sound_rmove rtr66" "sound_rmove rtr74"
  "sound_rmove rtr75" "sound_rmove rtr76" "sound_rmove rtr77" "sound_rmove rtr78"
  "sound_rmove rtr95" "sound_rmove rtr96" "sound_rmove rtr97" "sound_rmove rtr98"
  "sound_rmove rtr99" "sound_rmove rtr101" "sound_rmove rtr103" "sound_rmove rtr104"
  "sound_rmove rtr111" "sound_rmove rtr112" "sound_rmove rtr113" "sound_rmove rtr136"
  "sound_rmove rtr137" "sound_rmove rtr148" "sound_rmove rtr149" "sound_rmove rtr150"
  "sound_rmove rtr151" "sound_rmove rtr152" "sound_rmove rtr154" "sound_rmove rtr156"
  "sound_rmove rtr157" "sound_rmove rtr158" "sound_rmove rtr159"
  by (simp_all add: sound_rmove_def rtr_defs performs_def rbreaks_def reply_first_final_def)

end
