(* ===== verification/ReplyStates1.thy ===== *)
theory ReplyStates1
  imports ReplyActions
begin

text \<open>
  States 1 to 62 of \<open>http/httpclient_parser.cpp\<close>: \<open>reply_case\<close>\<open>n\<close> is the body of \<open>case n\<close> of
  \<open>httpclient_parser_execute\<close>, as a function of the character at \<open>p\<close>, read as a signed char.
  The lemmas below each block say that every move of it is sound, for the laws of the machine.
\<close>

definition reply_case1 :: "int \<Rightarrow> rmove" where
  "reply_case1 c =
     (if c = 72 then rtr2
      else if c < 65 then (if 48 \<le> c \<and> c \<le> 57 then rtr0
          else to_st 0)
      else if c > 70 then (if 97 \<le> c \<and> c \<le> 102 then rtr0
          else to_st 0)
      else rtr0)"

definition reply_case2 :: "int \<Rightarrow> rmove" where
  "reply_case2 c =
     (if c = 10 then rtr3
      else if c = 13 then rtr4
      else if c = 59 then rtr6
      else if c < 65 then (if 48 \<le> c \<and> c \<le> 57 then to_st 2
          else to_st 0)
      else if c > 70 then (if 97 \<le> c \<and> c \<le> 102 then to_st 2
          else to_st 0)
      else to_st 2)"

definition reply_case3 :: "int \<Rightarrow> rmove" where
  "reply_case3 c =
     (if c = 10 then rtr7
      else to_st 0)"

definition reply_case4 :: "int \<Rightarrow> rmove" where
  "reply_case4 c =
     (if c = 33 \<or> c = 124 \<or> c = 126 then rtr8
      else if c < 45 then (if c > 39 then (if 42 \<le> c \<and> c \<le> 43 then rtr8
              else to_st 0)
          else if c \<ge> 35 then rtr8
          else to_st 0)
      else if c > 46 then (if c < 65 then (if 48 \<le> c \<and> c \<le> 57 then rtr8
              else to_st 0)
          else if c > 90 then (if 94 \<le> c \<and> c \<le> 122 then rtr8
              else to_st 0)
          else rtr8)
      else rtr8)"

definition reply_case5 :: "int \<Rightarrow> rmove" where
  "reply_case5 c =
     (if c = 10 then rtr9
      else if c = 13 then rtr10
      else if c = 33 then to_st 5
      else if c = 59 then rtr12
      else if c = 61 then rtr13
      else if c = 124 \<or> c = 126 then to_st 5
      else if c < 45 then (if c > 39 then (if 42 \<le> c \<and> c \<le> 43 then to_st 5
              else to_st 0)
          else if c \<ge> 35 then to_st 5
          else to_st 0)
      else if c > 46 then (if c < 65 then (if 48 \<le> c \<and> c \<le> 57 then to_st 5
              else to_st 0)
          else if c > 90 then (if 94 \<le> c \<and> c \<le> 122 then to_st 5
              else to_st 0)
          else to_st 5)
      else to_st 5)"

definition reply_case6 :: "int \<Rightarrow> rmove" where
  "reply_case6 c =
     (if c = 33 \<or> c = 124 \<or> c = 126 then rtr14
      else if c < 45 then (if c > 39 then (if 42 \<le> c \<and> c \<le> 43 then rtr14
              else to_st 0)
          else if c \<ge> 35 then rtr14
          else to_st 0)
      else if c > 46 then (if c < 65 then (if 48 \<le> c \<and> c \<le> 57 then rtr14
              else to_st 0)
          else if c > 90 then (if 94 \<le> c \<and> c \<le> 122 then rtr14
              else to_st 0)
          else rtr14)
      else rtr14)"

definition reply_case7 :: "int \<Rightarrow> rmove" where
  "reply_case7 c =
     (if c = 10 then rtr15
      else if c = 13 then rtr16
      else if c = 33 then to_st 7
      else if c = 59 then rtr18
      else if c = 124 \<or> c = 126 then to_st 7
      else if c < 45 then (if c > 39 then (if 42 \<le> c \<and> c \<le> 43 then to_st 7
              else to_st 0)
          else if c \<ge> 35 then to_st 7
          else to_st 0)
      else if c > 46 then (if c < 65 then (if 48 \<le> c \<and> c \<le> 57 then to_st 7
              else to_st 0)
          else if c > 90 then (if 94 \<le> c \<and> c \<le> 122 then to_st 7
              else to_st 0)
          else to_st 7)
      else to_st 7)"

definition reply_case8 :: "int \<Rightarrow> rmove" where
  "reply_case8 c =
     (if c = 84 then to_st 9
      else to_st 0)"

definition reply_case9 :: "int \<Rightarrow> rmove" where
  "reply_case9 c =
     (if c = 84 then to_st 10
      else to_st 0)"

definition reply_case10 :: "int \<Rightarrow> rmove" where
  "reply_case10 c =
     (if c = 80 then to_st 11
      else to_st 0)"

lemma reply_case1_10_sound:
  "sound_rmove (reply_case1 c)"
  "sound_rmove (reply_case2 c)"
  "sound_rmove (reply_case3 c)"
  "sound_rmove (reply_case4 c)"
  "sound_rmove (reply_case5 c)"
  "sound_rmove (reply_case6 c)"
  "sound_rmove (reply_case7 c)"
  "sound_rmove (reply_case8 c)"
  "sound_rmove (reply_case9 c)"
  "sound_rmove (reply_case10 c)"
  by (simp_all add: reply_moves reply_case1_def reply_case2_def reply_case3_def reply_case4_def reply_case5_def reply_case6_def reply_case7_def reply_case8_def reply_case9_def reply_case10_def)

definition reply_case11 :: "int \<Rightarrow> rmove" where
  "reply_case11 c =
     (if c = 47 then to_st 12
      else to_st 0)"

definition reply_case12 :: "int \<Rightarrow> rmove" where
  "reply_case12 c =
     (if 48 \<le> c \<and> c \<le> 57 then to_st 13
      else to_st 0)"

definition reply_case13 :: "int \<Rightarrow> rmove" where
  "reply_case13 c =
     (if c = 46 then to_st 14
      else if 48 \<le> c \<and> c \<le> 57 then to_st 13
      else to_st 0)"

definition reply_case14 :: "int \<Rightarrow> rmove" where
  "reply_case14 c =
     (if 48 \<le> c \<and> c \<le> 57 then to_st 15
      else to_st 0)"

definition reply_case15 :: "int \<Rightarrow> rmove" where
  "reply_case15 c =
     (if c = 32 then rtr26
      else if 48 \<le> c \<and> c \<le> 57 then to_st 15
      else to_st 0)"

definition reply_case16 :: "int \<Rightarrow> rmove" where
  "reply_case16 c =
     (if 48 \<le> c \<and> c \<le> 57 then rtr27
      else to_st 0)"

definition reply_case17 :: "int \<Rightarrow> rmove" where
  "reply_case17 c =
     (if c = 32 then rtr28
      else if 48 \<le> c \<and> c \<le> 57 then to_st 17
      else to_st 0)"

definition reply_case18 :: "int \<Rightarrow> rmove" where
  "reply_case18 c =
     (if c = 10 then to_st 0
      else rtr30)"

definition reply_case19 :: "int \<Rightarrow> rmove" where
  "reply_case19 c =
     (if c = 10 then rtr32
      else if c = 13 then rtr33
      else to_st 19)"

definition reply_case20 :: "int \<Rightarrow> rmove" where
  "reply_case20 c =
     (if c = 10 then rtr7
      else if c = 13 then to_st 3
      else if c = 33 then rtr35
      else if c = 67 then rtr36
      else if c = 84 then rtr37
      else if c = 99 then rtr36
      else if c = 116 then rtr37
      else if c = 124 \<or> c = 126 then rtr35
      else if c < 45 then (if c > 39 then (if 42 \<le> c \<and> c \<le> 43 then rtr35
              else to_st 0)
          else if c \<ge> 35 then rtr35
          else to_st 0)
      else if c > 46 then (if c < 65 then (if 48 \<le> c \<and> c \<le> 57 then rtr35
              else to_st 0)
          else if c > 90 then (if 94 \<le> c \<and> c \<le> 122 then rtr35
              else to_st 0)
          else rtr35)
      else rtr35)"

lemma reply_case11_20_sound:
  "sound_rmove (reply_case11 c)"
  "sound_rmove (reply_case12 c)"
  "sound_rmove (reply_case13 c)"
  "sound_rmove (reply_case14 c)"
  "sound_rmove (reply_case15 c)"
  "sound_rmove (reply_case16 c)"
  "sound_rmove (reply_case17 c)"
  "sound_rmove (reply_case18 c)"
  "sound_rmove (reply_case19 c)"
  "sound_rmove (reply_case20 c)"
  by (simp_all add: reply_moves reply_case11_def reply_case12_def reply_case13_def reply_case14_def reply_case15_def reply_case16_def reply_case17_def reply_case18_def reply_case19_def reply_case20_def)

definition reply_case21 :: "int \<Rightarrow> rmove" where
  "reply_case21 c =
     (if c = 33 then to_st 21
      else if c = 58 then rtr39
      else if c = 124 \<or> c = 126 then to_st 21
      else if c < 45 then (if c > 39 then (if 42 \<le> c \<and> c \<le> 43 then to_st 21
              else to_st 0)
          else if c \<ge> 35 then to_st 21
          else to_st 0)
      else if c > 46 then (if c < 65 then (if 48 \<le> c \<and> c \<le> 57 then to_st 21
              else to_st 0)
          else if c > 90 then (if 94 \<le> c \<and> c \<le> 122 then to_st 21
              else to_st 0)
          else to_st 21)
      else to_st 21)"

definition reply_case22 :: "int \<Rightarrow> rmove" where
  "reply_case22 c =
     (if c = 10 then rtr42
      else if c = 13 then rtr43
      else if c = 32 then rtr41
      else if 9 \<le> c \<and> c \<le> 12 then rtr41
      else rtr40)"

definition reply_case23 :: "int \<Rightarrow> rmove" where
  "reply_case23 c =
     (if c = 10 then rtr45
      else if c = 13 then rtr46
      else to_st 23)"

definition reply_case24 :: "int \<Rightarrow> rmove" where
  "reply_case24 c =
     (if c = 10 then to_st 20
      else to_st 0)"

definition reply_case25 :: "int \<Rightarrow> rmove" where
  "reply_case25 c =
     (if c = 33 then to_st 21
      else if c = 58 then rtr39
      else if c = 79 \<or> c = 111 then to_st 26
      else if c = 124 \<or> c = 126 then to_st 21
      else if c < 45 then (if c > 39 then (if 42 \<le> c \<and> c \<le> 43 then to_st 21
              else to_st 0)
          else if c \<ge> 35 then to_st 21
          else to_st 0)
      else if c > 46 then (if c < 65 then (if 48 \<le> c \<and> c \<le> 57 then to_st 21
              else to_st 0)
          else if c > 90 then (if 94 \<le> c \<and> c \<le> 122 then to_st 21
              else to_st 0)
          else to_st 21)
      else to_st 21)"

definition reply_case26 :: "int \<Rightarrow> rmove" where
  "reply_case26 c =
     (if c = 33 then to_st 21
      else if c = 58 then rtr39
      else if c = 78 \<or> c = 110 then to_st 27
      else if c = 124 \<or> c = 126 then to_st 21
      else if c < 45 then (if c > 39 then (if 42 \<le> c \<and> c \<le> 43 then to_st 21
              else to_st 0)
          else if c \<ge> 35 then to_st 21
          else to_st 0)
      else if c > 46 then (if c < 65 then (if 48 \<le> c \<and> c \<le> 57 then to_st 21
              else to_st 0)
          else if c > 90 then (if 94 \<le> c \<and> c \<le> 122 then to_st 21
              else to_st 0)
          else to_st 21)
      else to_st 21)"

definition reply_case27 :: "int \<Rightarrow> rmove" where
  "reply_case27 c =
     (if c = 33 then to_st 21
      else if c = 58 then rtr39
      else if c = 78 then to_st 28
      else if c = 84 then to_st 101
      else if c = 110 then to_st 28
      else if c = 116 then to_st 101
      else if c = 124 \<or> c = 126 then to_st 21
      else if c < 45 then (if c > 39 then (if 42 \<le> c \<and> c \<le> 43 then to_st 21
              else to_st 0)
          else if c \<ge> 35 then to_st 21
          else to_st 0)
      else if c > 46 then (if c < 65 then (if 48 \<le> c \<and> c \<le> 57 then to_st 21
              else to_st 0)
          else if c > 90 then (if 94 \<le> c \<and> c \<le> 122 then to_st 21
              else to_st 0)
          else to_st 21)
      else to_st 21)"

definition reply_case28 :: "int \<Rightarrow> rmove" where
  "reply_case28 c =
     (if c = 33 then to_st 21
      else if c = 58 then rtr39
      else if c = 69 \<or> c = 101 then to_st 29
      else if c = 124 \<or> c = 126 then to_st 21
      else if c < 45 then (if c > 39 then (if 42 \<le> c \<and> c \<le> 43 then to_st 21
              else to_st 0)
          else if c \<ge> 35 then to_st 21
          else to_st 0)
      else if c > 46 then (if c < 65 then (if 48 \<le> c \<and> c \<le> 57 then to_st 21
              else to_st 0)
          else if c > 90 then (if 94 \<le> c \<and> c \<le> 122 then to_st 21
              else to_st 0)
          else to_st 21)
      else to_st 21)"

definition reply_case29 :: "int \<Rightarrow> rmove" where
  "reply_case29 c =
     (if c = 33 then to_st 21
      else if c = 58 then rtr39
      else if c = 67 \<or> c = 99 then to_st 30
      else if c = 124 \<or> c = 126 then to_st 21
      else if c < 45 then (if c > 39 then (if 42 \<le> c \<and> c \<le> 43 then to_st 21
              else to_st 0)
          else if c \<ge> 35 then to_st 21
          else to_st 0)
      else if c > 46 then (if c < 65 then (if 48 \<le> c \<and> c \<le> 57 then to_st 21
              else to_st 0)
          else if c > 90 then (if 94 \<le> c \<and> c \<le> 122 then to_st 21
              else to_st 0)
          else to_st 21)
      else to_st 21)"

definition reply_case30 :: "int \<Rightarrow> rmove" where
  "reply_case30 c =
     (if c = 33 then to_st 21
      else if c = 58 then rtr39
      else if c = 84 \<or> c = 116 then to_st 31
      else if c = 124 \<or> c = 126 then to_st 21
      else if c < 45 then (if c > 39 then (if 42 \<le> c \<and> c \<le> 43 then to_st 21
              else to_st 0)
          else if c \<ge> 35 then to_st 21
          else to_st 0)
      else if c > 46 then (if c < 65 then (if 48 \<le> c \<and> c \<le> 57 then to_st 21
              else to_st 0)
          else if c > 90 then (if 94 \<le> c \<and> c \<le> 122 then to_st 21
              else to_st 0)
          else to_st 21)
      else to_st 21)"

lemma reply_case21_30_sound:
  "sound_rmove (reply_case21 c)"
  "sound_rmove (reply_case22 c)"
  "sound_rmove (reply_case23 c)"
  "sound_rmove (reply_case24 c)"
  "sound_rmove (reply_case25 c)"
  "sound_rmove (reply_case26 c)"
  "sound_rmove (reply_case27 c)"
  "sound_rmove (reply_case28 c)"
  "sound_rmove (reply_case29 c)"
  "sound_rmove (reply_case30 c)"
  by (simp_all add: reply_moves reply_case21_def reply_case22_def reply_case23_def reply_case24_def reply_case25_def reply_case26_def reply_case27_def reply_case28_def reply_case29_def reply_case30_def)

definition reply_case31 :: "int \<Rightarrow> rmove" where
  "reply_case31 c =
     (if c = 33 then to_st 21
      else if c = 58 then rtr39
      else if c = 73 \<or> c = 105 then to_st 32
      else if c = 124 \<or> c = 126 then to_st 21
      else if c < 45 then (if c > 39 then (if 42 \<le> c \<and> c \<le> 43 then to_st 21
              else to_st 0)
          else if c \<ge> 35 then to_st 21
          else to_st 0)
      else if c > 46 then (if c < 65 then (if 48 \<le> c \<and> c \<le> 57 then to_st 21
              else to_st 0)
          else if c > 90 then (if 94 \<le> c \<and> c \<le> 122 then to_st 21
              else to_st 0)
          else to_st 21)
      else to_st 21)"

definition reply_case32 :: "int \<Rightarrow> rmove" where
  "reply_case32 c =
     (if c = 33 then to_st 21
      else if c = 58 then rtr39
      else if c = 79 \<or> c = 111 then to_st 33
      else if c = 124 \<or> c = 126 then to_st 21
      else if c < 45 then (if c > 39 then (if 42 \<le> c \<and> c \<le> 43 then to_st 21
              else to_st 0)
          else if c \<ge> 35 then to_st 21
          else to_st 0)
      else if c > 46 then (if c < 65 then (if 48 \<le> c \<and> c \<le> 57 then to_st 21
              else to_st 0)
          else if c > 90 then (if 94 \<le> c \<and> c \<le> 122 then to_st 21
              else to_st 0)
          else to_st 21)
      else to_st 21)"

definition reply_case33 :: "int \<Rightarrow> rmove" where
  "reply_case33 c =
     (if c = 33 then to_st 21
      else if c = 58 then rtr39
      else if c = 78 \<or> c = 110 then to_st 34
      else if c = 124 \<or> c = 126 then to_st 21
      else if c < 45 then (if c > 39 then (if 42 \<le> c \<and> c \<le> 43 then to_st 21
              else to_st 0)
          else if c \<ge> 35 then to_st 21
          else to_st 0)
      else if c > 46 then (if c < 65 then (if 48 \<le> c \<and> c \<le> 57 then to_st 21
              else to_st 0)
          else if c > 90 then (if 94 \<le> c \<and> c \<le> 122 then to_st 21
              else to_st 0)
          else to_st 21)
      else to_st 21)"

definition reply_case34 :: "int \<Rightarrow> rmove" where
  "reply_case34 c =
     (if c = 33 then to_st 21
      else if c = 58 then rtr58
      else if c = 124 \<or> c = 126 then to_st 21
      else if c < 45 then (if c > 39 then (if 42 \<le> c \<and> c \<le> 43 then to_st 21
              else to_st 0)
          else if c \<ge> 35 then to_st 21
          else to_st 0)
      else if c > 46 then (if c < 65 then (if 48 \<le> c \<and> c \<le> 57 then to_st 21
              else to_st 0)
          else if c > 90 then (if 94 \<le> c \<and> c \<le> 122 then to_st 21
              else to_st 0)
          else to_st 21)
      else to_st 21)"

definition reply_case35 :: "int \<Rightarrow> rmove" where
  "reply_case35 c =
     (if c = 10 then rtr60
      else if c = 13 then rtr61
      else if c = 32 then rtr59
      else if c = 67 \<or> c = 99 then rtr62
      else if 9 \<le> c \<and> c \<le> 12 then rtr59
      else rtr40)"

definition reply_case36 :: "int \<Rightarrow> rmove" where
  "reply_case36 c =
     (if c = 10 then rtr64
      else if c = 13 then to_st 89
      else if c = 32 then to_st 37
      else if c = 33 then rtr35
      else if c = 67 then rtr66
      else if c = 84 then rtr37
      else if c = 99 then rtr66
      else if c = 116 then rtr37
      else if c = 124 \<or> c = 126 then rtr35
      else if c < 45 then (if c < 35 then (if 9 \<le> c \<and> c \<le> 12 then to_st 37
              else to_st 0)
          else if c > 39 then (if 42 \<le> c \<and> c \<le> 43 then rtr35
              else to_st 0)
          else rtr35)
      else if c > 46 then (if c < 65 then (if 48 \<le> c \<and> c \<le> 57 then rtr35
              else to_st 0)
          else if c > 90 then (if 94 \<le> c \<and> c \<le> 122 then rtr35
              else to_st 0)
          else rtr35)
      else rtr35)"

definition reply_case37 :: "int \<Rightarrow> rmove" where
  "reply_case37 c =
     (if c = 32 then to_st 37
      else if c = 67 \<or> c = 99 then to_st 38
      else if 9 \<le> c \<and> c \<le> 13 then to_st 37
      else to_st 0)"

definition reply_case38 :: "int \<Rightarrow> rmove" where
  "reply_case38 c =
     (if c = 76 \<or> c = 108 then to_st 39
      else to_st 0)"

definition reply_case39 :: "int \<Rightarrow> rmove" where
  "reply_case39 c =
     (if c = 79 \<or> c = 111 then to_st 40
      else to_st 0)"

definition reply_case40 :: "int \<Rightarrow> rmove" where
  "reply_case40 c =
     (if c = 83 \<or> c = 115 then to_st 41
      else to_st 0)"

lemma reply_case31_40_sound:
  "sound_rmove (reply_case31 c)"
  "sound_rmove (reply_case32 c)"
  "sound_rmove (reply_case33 c)"
  "sound_rmove (reply_case34 c)"
  "sound_rmove (reply_case35 c)"
  "sound_rmove (reply_case36 c)"
  "sound_rmove (reply_case37 c)"
  "sound_rmove (reply_case38 c)"
  "sound_rmove (reply_case39 c)"
  "sound_rmove (reply_case40 c)"
  by (simp_all add: reply_moves reply_case31_def reply_case32_def reply_case33_def reply_case34_def reply_case35_def reply_case36_def reply_case37_def reply_case38_def reply_case39_def reply_case40_def)

definition reply_case41 :: "int \<Rightarrow> rmove" where
  "reply_case41 c =
     (if c = 69 \<or> c = 101 then to_st 42
      else to_st 0)"

definition reply_case42 :: "int \<Rightarrow> rmove" where
  "reply_case42 c =
     (if c = 10 then to_st 43
      else if c = 13 then to_st 88
      else to_st 0)"

definition reply_case43 :: "int \<Rightarrow> rmove" where
  "reply_case43 c =
     (if c = 10 then rtr74
      else if c = 13 then rtr75
      else if c = 33 then rtr76
      else if c = 67 then rtr77
      else if c = 84 then rtr78
      else if c = 99 then rtr77
      else if c = 116 then rtr78
      else if c = 124 \<or> c = 126 then rtr76
      else if c < 45 then (if c > 39 then (if 42 \<le> c \<and> c \<le> 43 then rtr76
              else to_st 0)
          else if c \<ge> 35 then rtr76
          else to_st 0)
      else if c > 46 then (if c < 65 then (if 48 \<le> c \<and> c \<le> 57 then rtr76
              else to_st 0)
          else if c > 90 then (if 94 \<le> c \<and> c \<le> 122 then rtr76
              else to_st 0)
          else rtr76)
      else rtr76)"

definition reply_case44 :: "int \<Rightarrow> rmove" where
  "reply_case44 c =
     (if c = 33 then to_st 21
      else if c = 58 then rtr39
      else if c = 82 \<or> c = 114 then to_st 45
      else if c = 124 \<or> c = 126 then to_st 21
      else if c < 45 then (if c > 39 then (if 42 \<le> c \<and> c \<le> 43 then to_st 21
              else to_st 0)
          else if c \<ge> 35 then to_st 21
          else to_st 0)
      else if c > 46 then (if c < 65 then (if 48 \<le> c \<and> c \<le> 57 then to_st 21
              else to_st 0)
          else if c > 90 then (if 94 \<le> c \<and> c \<le> 122 then to_st 21
              else to_st 0)
          else to_st 21)
      else to_st 21)"

definition reply_case45 :: "int \<Rightarrow> rmove" where
  "reply_case45 c =
     (if c = 33 then to_st 21
      else if c = 58 then rtr39
      else if c = 65 \<or> c = 97 then to_st 46
      else if c = 124 \<or> c = 126 then to_st 21
      else if c < 45 then (if c > 39 then (if 42 \<le> c \<and> c \<le> 43 then to_st 21
              else to_st 0)
          else if c \<ge> 35 then to_st 21
          else to_st 0)
      else if c > 46 then (if c < 66 then (if 48 \<le> c \<and> c \<le> 57 then to_st 21
              else to_st 0)
          else if c > 90 then (if 94 \<le> c \<and> c \<le> 122 then to_st 21
              else to_st 0)
          else to_st 21)
      else to_st 21)"

definition reply_case46 :: "int \<Rightarrow> rmove" where
  "reply_case46 c =
     (if c = 33 then to_st 21
      else if c = 58 then rtr39
      else if c = 78 \<or> c = 110 then to_st 47
      else if c = 124 \<or> c = 126 then to_st 21
      else if c < 45 then (if c > 39 then (if 42 \<le> c \<and> c \<le> 43 then to_st 21
              else to_st 0)
          else if c \<ge> 35 then to_st 21
          else to_st 0)
      else if c > 46 then (if c < 65 then (if 48 \<le> c \<and> c \<le> 57 then to_st 21
              else to_st 0)
          else if c > 90 then (if 94 \<le> c \<and> c \<le> 122 then to_st 21
              else to_st 0)
          else to_st 21)
      else to_st 21)"

definition reply_case47 :: "int \<Rightarrow> rmove" where
  "reply_case47 c =
     (if c = 33 then to_st 21
      else if c = 58 then rtr39
      else if c = 83 \<or> c = 115 then to_st 48
      else if c = 124 \<or> c = 126 then to_st 21
      else if c < 45 then (if c > 39 then (if 42 \<le> c \<and> c \<le> 43 then to_st 21
              else to_st 0)
          else if c \<ge> 35 then to_st 21
          else to_st 0)
      else if c > 46 then (if c < 65 then (if 48 \<le> c \<and> c \<le> 57 then to_st 21
              else to_st 0)
          else if c > 90 then (if 94 \<le> c \<and> c \<le> 122 then to_st 21
              else to_st 0)
          else to_st 21)
      else to_st 21)"

definition reply_case48 :: "int \<Rightarrow> rmove" where
  "reply_case48 c =
     (if c = 33 then to_st 21
      else if c = 58 then rtr39
      else if c = 70 \<or> c = 102 then to_st 49
      else if c = 124 \<or> c = 126 then to_st 21
      else if c < 45 then (if c > 39 then (if 42 \<le> c \<and> c \<le> 43 then to_st 21
              else to_st 0)
          else if c \<ge> 35 then to_st 21
          else to_st 0)
      else if c > 46 then (if c < 65 then (if 48 \<le> c \<and> c \<le> 57 then to_st 21
              else to_st 0)
          else if c > 90 then (if 94 \<le> c \<and> c \<le> 122 then to_st 21
              else to_st 0)
          else to_st 21)
      else to_st 21)"

definition reply_case49 :: "int \<Rightarrow> rmove" where
  "reply_case49 c =
     (if c = 33 then to_st 21
      else if c = 58 then rtr39
      else if c = 69 \<or> c = 101 then to_st 50
      else if c = 124 \<or> c = 126 then to_st 21
      else if c < 45 then (if c > 39 then (if 42 \<le> c \<and> c \<le> 43 then to_st 21
              else to_st 0)
          else if c \<ge> 35 then to_st 21
          else to_st 0)
      else if c > 46 then (if c < 65 then (if 48 \<le> c \<and> c \<le> 57 then to_st 21
              else to_st 0)
          else if c > 90 then (if 94 \<le> c \<and> c \<le> 122 then to_st 21
              else to_st 0)
          else to_st 21)
      else to_st 21)"

definition reply_case50 :: "int \<Rightarrow> rmove" where
  "reply_case50 c =
     (if c = 33 then to_st 21
      else if c = 58 then rtr39
      else if c = 82 \<or> c = 114 then to_st 51
      else if c = 124 \<or> c = 126 then to_st 21
      else if c < 45 then (if c > 39 then (if 42 \<le> c \<and> c \<le> 43 then to_st 21
              else to_st 0)
          else if c \<ge> 35 then to_st 21
          else to_st 0)
      else if c > 46 then (if c < 65 then (if 48 \<le> c \<and> c \<le> 57 then to_st 21
              else to_st 0)
          else if c > 90 then (if 94 \<le> c \<and> c \<le> 122 then to_st 21
              else to_st 0)
          else to_st 21)
      else to_st 21)"

lemma reply_case41_50_sound:
  "sound_rmove (reply_case41 c)"
  "sound_rmove (reply_case42 c)"
  "sound_rmove (reply_case43 c)"
  "sound_rmove (reply_case44 c)"
  "sound_rmove (reply_case45 c)"
  "sound_rmove (reply_case46 c)"
  "sound_rmove (reply_case47 c)"
  "sound_rmove (reply_case48 c)"
  "sound_rmove (reply_case49 c)"
  "sound_rmove (reply_case50 c)"
  by (simp_all add: reply_moves reply_case41_def reply_case42_def reply_case43_def reply_case44_def reply_case45_def reply_case46_def reply_case47_def reply_case48_def reply_case49_def reply_case50_def)

definition reply_case51 :: "int \<Rightarrow> rmove" where
  "reply_case51 c =
     (if c = 33 then to_st 21
      else if c = 45 then to_st 52
      else if c = 46 then to_st 21
      else if c = 58 then rtr39
      else if c = 124 \<or> c = 126 then to_st 21
      else if c < 48 then (if c > 39 then (if 42 \<le> c \<and> c \<le> 43 then to_st 21
              else to_st 0)
          else if c \<ge> 35 then to_st 21
          else to_st 0)
      else if c > 57 then (if c > 90 then (if 94 \<le> c \<and> c \<le> 122 then to_st 21
              else to_st 0)
          else if c \<ge> 65 then to_st 21
          else to_st 0)
      else to_st 21)"

definition reply_case52 :: "int \<Rightarrow> rmove" where
  "reply_case52 c =
     (if c = 33 then to_st 21
      else if c = 58 then rtr39
      else if c = 69 \<or> c = 101 then to_st 53
      else if c = 124 \<or> c = 126 then to_st 21
      else if c < 45 then (if c > 39 then (if 42 \<le> c \<and> c \<le> 43 then to_st 21
              else to_st 0)
          else if c \<ge> 35 then to_st 21
          else to_st 0)
      else if c > 46 then (if c < 65 then (if 48 \<le> c \<and> c \<le> 57 then to_st 21
              else to_st 0)
          else if c > 90 then (if 94 \<le> c \<and> c \<le> 122 then to_st 21
              else to_st 0)
          else to_st 21)
      else to_st 21)"

definition reply_case53 :: "int \<Rightarrow> rmove" where
  "reply_case53 c =
     (if c = 33 then to_st 21
      else if c = 58 then rtr39
      else if c = 78 \<or> c = 110 then to_st 54
      else if c = 124 \<or> c = 126 then to_st 21
      else if c < 45 then (if c > 39 then (if 42 \<le> c \<and> c \<le> 43 then to_st 21
              else to_st 0)
          else if c \<ge> 35 then to_st 21
          else to_st 0)
      else if c > 46 then (if c < 65 then (if 48 \<le> c \<and> c \<le> 57 then to_st 21
              else to_st 0)
          else if c > 90 then (if 94 \<le> c \<and> c \<le> 122 then to_st 21
              else to_st 0)
          else to_st 21)
      else to_st 21)"

definition reply_case54 :: "int \<Rightarrow> rmove" where
  "reply_case54 c =
     (if c = 33 then to_st 21
      else if c = 58 then rtr39
      else if c = 67 \<or> c = 99 then to_st 55
      else if c = 124 \<or> c = 126 then to_st 21
      else if c < 45 then (if c > 39 then (if 42 \<le> c \<and> c \<le> 43 then to_st 21
              else to_st 0)
          else if c \<ge> 35 then to_st 21
          else to_st 0)
      else if c > 46 then (if c < 65 then (if 48 \<le> c \<and> c \<le> 57 then to_st 21
              else to_st 0)
          else if c > 90 then (if 94 \<le> c \<and> c \<le> 122 then to_st 21
              else to_st 0)
          else to_st 21)
      else to_st 21)"

definition reply_case55 :: "int \<Rightarrow> rmove" where
  "reply_case55 c =
     (if c = 33 then to_st 21
      else if c = 58 then rtr39
      else if c = 79 \<or> c = 111 then to_st 56
      else if c = 124 \<or> c = 126 then to_st 21
      else if c < 45 then (if c > 39 then (if 42 \<le> c \<and> c \<le> 43 then to_st 21
              else to_st 0)
          else if c \<ge> 35 then to_st 21
          else to_st 0)
      else if c > 46 then (if c < 65 then (if 48 \<le> c \<and> c \<le> 57 then to_st 21
              else to_st 0)
          else if c > 90 then (if 94 \<le> c \<and> c \<le> 122 then to_st 21
              else to_st 0)
          else to_st 21)
      else to_st 21)"

definition reply_case56 :: "int \<Rightarrow> rmove" where
  "reply_case56 c =
     (if c = 33 then to_st 21
      else if c = 58 then rtr39
      else if c = 68 \<or> c = 100 then to_st 57
      else if c = 124 \<or> c = 126 then to_st 21
      else if c < 45 then (if c > 39 then (if 42 \<le> c \<and> c \<le> 43 then to_st 21
              else to_st 0)
          else if c \<ge> 35 then to_st 21
          else to_st 0)
      else if c > 46 then (if c < 65 then (if 48 \<le> c \<and> c \<le> 57 then to_st 21
              else to_st 0)
          else if c > 90 then (if 94 \<le> c \<and> c \<le> 122 then to_st 21
              else to_st 0)
          else to_st 21)
      else to_st 21)"

definition reply_case57 :: "int \<Rightarrow> rmove" where
  "reply_case57 c =
     (if c = 33 then to_st 21
      else if c = 58 then rtr39
      else if c = 73 \<or> c = 105 then to_st 58
      else if c = 124 \<or> c = 126 then to_st 21
      else if c < 45 then (if c > 39 then (if 42 \<le> c \<and> c \<le> 43 then to_st 21
              else to_st 0)
          else if c \<ge> 35 then to_st 21
          else to_st 0)
      else if c > 46 then (if c < 65 then (if 48 \<le> c \<and> c \<le> 57 then to_st 21
              else to_st 0)
          else if c > 90 then (if 94 \<le> c \<and> c \<le> 122 then to_st 21
              else to_st 0)
          else to_st 21)
      else to_st 21)"

definition reply_case58 :: "int \<Rightarrow> rmove" where
  "reply_case58 c =
     (if c = 33 then to_st 21
      else if c = 58 then rtr39
      else if c = 78 \<or> c = 110 then to_st 59
      else if c = 124 \<or> c = 126 then to_st 21
      else if c < 45 then (if c > 39 then (if 42 \<le> c \<and> c \<le> 43 then to_st 21
              else to_st 0)
          else if c \<ge> 35 then to_st 21
          else to_st 0)
      else if c > 46 then (if c < 65 then (if 48 \<le> c \<and> c \<le> 57 then to_st 21
              else to_st 0)
          else if c > 90 then (if 94 \<le> c \<and> c \<le> 122 then to_st 21
              else to_st 0)
          else to_st 21)
      else to_st 21)"

definition reply_case59 :: "int \<Rightarrow> rmove" where
  "reply_case59 c =
     (if c = 33 then to_st 21
      else if c = 58 then rtr39
      else if c = 71 \<or> c = 103 then to_st 60
      else if c = 124 \<or> c = 126 then to_st 21
      else if c < 45 then (if c > 39 then (if 42 \<le> c \<and> c \<le> 43 then to_st 21
              else to_st 0)
          else if c \<ge> 35 then to_st 21
          else to_st 0)
      else if c > 46 then (if c < 65 then (if 48 \<le> c \<and> c \<le> 57 then to_st 21
              else to_st 0)
          else if c > 90 then (if 94 \<le> c \<and> c \<le> 122 then to_st 21
              else to_st 0)
          else to_st 21)
      else to_st 21)"

definition reply_case60 :: "int \<Rightarrow> rmove" where
  "reply_case60 c =
     (if c = 33 then to_st 21
      else if c = 58 then rtr95
      else if c = 124 \<or> c = 126 then to_st 21
      else if c < 45 then (if c > 39 then (if 42 \<le> c \<and> c \<le> 43 then to_st 21
              else to_st 0)
          else if c \<ge> 35 then to_st 21
          else to_st 0)
      else if c > 46 then (if c < 65 then (if 48 \<le> c \<and> c \<le> 57 then to_st 21
              else to_st 0)
          else if c > 90 then (if 94 \<le> c \<and> c \<le> 122 then to_st 21
              else to_st 0)
          else to_st 21)
      else to_st 21)"

lemma reply_case51_60_sound:
  "sound_rmove (reply_case51 c)"
  "sound_rmove (reply_case52 c)"
  "sound_rmove (reply_case53 c)"
  "sound_rmove (reply_case54 c)"
  "sound_rmove (reply_case55 c)"
  "sound_rmove (reply_case56 c)"
  "sound_rmove (reply_case57 c)"
  "sound_rmove (reply_case58 c)"
  "sound_rmove (reply_case59 c)"
  "sound_rmove (reply_case60 c)"
  by (simp_all add: reply_moves reply_case51_def reply_case52_def reply_case53_def reply_case54_def reply_case55_def reply_case56_def reply_case57_def reply_case58_def reply_case59_def reply_case60_def)

definition reply_case61 :: "int \<Rightarrow> rmove" where
  "reply_case61 c =
     (if c = 10 then rtr97
      else if c = 13 then rtr98
      else if c = 32 then rtr96
      else if c = 67 \<or> c = 99 then rtr99
      else if 9 \<le> c \<and> c \<le> 12 then rtr96
      else rtr40)"

definition reply_case62 :: "int \<Rightarrow> rmove" where
  "reply_case62 c =
     (if c = 10 then rtr101
      else if c = 13 then to_st 72
      else if c = 32 then to_st 63
      else if c = 33 then rtr35
      else if c = 67 then rtr103
      else if c = 84 then rtr37
      else if c = 99 then rtr103
      else if c = 116 then rtr37
      else if c = 124 \<or> c = 126 then rtr35
      else if c < 45 then (if c < 35 then (if 9 \<le> c \<and> c \<le> 12 then to_st 63
              else to_st 0)
          else if c > 39 then (if 42 \<le> c \<and> c \<le> 43 then rtr35
              else to_st 0)
          else rtr35)
      else if c > 46 then (if c < 65 then (if 48 \<le> c \<and> c \<le> 57 then rtr35
              else to_st 0)
          else if c > 90 then (if 94 \<le> c \<and> c \<le> 122 then rtr35
              else to_st 0)
          else rtr35)
      else rtr35)"

lemma reply_case61_62_sound:
  "sound_rmove (reply_case61 c)"
  "sound_rmove (reply_case62 c)"
  by (simp_all add: reply_moves reply_case61_def reply_case62_def)

end
