(* ===== verification/ReplyStates2.thy ===== *)
theory ReplyStates2
  imports ReplyActions
begin

text \<open>
  States 63 to 123 of \<open>http/httpclient_parser.cpp\<close>: \<open>reply_case\<close>\<open>n\<close> is the body of \<open>case n\<close> of
  \<open>httpclient_parser_execute\<close>, as a function of the character at \<open>p\<close>, read as a signed char.
  The lemmas below each block say that every move of it is sound, for the laws of the machine.
\<close>

definition reply_case63 :: "int \<Rightarrow> rmove" where
  "reply_case63 c =
     (if c = 32 then to_st 63
      else if c = 67 \<or> c = 99 then rtr104
      else if 9 \<le> c \<and> c \<le> 13 then to_st 63
      else to_st 0)"

definition reply_case64 :: "int \<Rightarrow> rmove" where
  "reply_case64 c =
     (if c = 72 \<or> c = 104 then to_st 65
      else to_st 0)"

definition reply_case65 :: "int \<Rightarrow> rmove" where
  "reply_case65 c =
     (if c = 85 \<or> c = 117 then to_st 66
      else to_st 0)"

definition reply_case66 :: "int \<Rightarrow> rmove" where
  "reply_case66 c =
     (if c = 78 \<or> c = 110 then to_st 67
      else to_st 0)"

definition reply_case67 :: "int \<Rightarrow> rmove" where
  "reply_case67 c =
     (if c = 75 \<or> c = 107 then to_st 68
      else to_st 0)"

definition reply_case68 :: "int \<Rightarrow> rmove" where
  "reply_case68 c =
     (if c = 69 \<or> c = 101 then to_st 69
      else to_st 0)"

definition reply_case69 :: "int \<Rightarrow> rmove" where
  "reply_case69 c =
     (if c = 68 \<or> c = 100 then to_st 70
      else to_st 0)"

definition reply_case70 :: "int \<Rightarrow> rmove" where
  "reply_case70 c =
     (if c = 10 then rtr111
      else if c = 13 then rtr112
      else to_st 0)"

definition reply_case71 :: "int \<Rightarrow> rmove" where
  "reply_case71 c =
     (if c = 10 then rtr113
      else to_st 0)"

definition reply_case72 :: "int \<Rightarrow> rmove" where
  "reply_case72 c =
     (if c = 10 then rtr101
      else if c = 32 then to_st 63
      else if c = 67 \<or> c = 99 then rtr104
      else if 9 \<le> c \<and> c \<le> 13 then to_st 63
      else to_st 0)"

lemma reply_case63_72_sound:
  "sound_rmove (reply_case63 c)"
  "sound_rmove (reply_case64 c)"
  "sound_rmove (reply_case65 c)"
  "sound_rmove (reply_case66 c)"
  "sound_rmove (reply_case67 c)"
  "sound_rmove (reply_case68 c)"
  "sound_rmove (reply_case69 c)"
  "sound_rmove (reply_case70 c)"
  "sound_rmove (reply_case71 c)"
  "sound_rmove (reply_case72 c)"
  by (simp_all add: reply_moves reply_case63_def reply_case64_def reply_case65_def reply_case66_def reply_case67_def reply_case68_def reply_case69_def reply_case70_def reply_case71_def reply_case72_def)

definition reply_case73 :: "int \<Rightarrow> rmove" where
  "reply_case73 c =
     (if c = 33 then to_st 21
      else if c = 58 then rtr39
      else if c = 72 then to_st 74
      else if c = 79 then to_st 26
      else if c = 104 then to_st 74
      else if c = 111 then to_st 26
      else if c = 124 \<or> c = 126 then to_st 21
      else if c < 45 then (if c > 39 then (if 42 \<le> c \<and> c \<le> 43 then to_st 21
              else to_st 0)
          else if c \<ge> 35 then to_st 21
          else to_st 0)
      else if c > 46 then (if c < 65 then (if 48 \<le> c \<and> c \<le> 57 then to_st 21
              else to_st 0)
          else if c > 90 then (if 94 \<le> c \<and> c \<le> 122 then to_st 21
              else to_st 0)
          else to_st 21)
      else to_st 21)"

definition reply_case74 :: "int \<Rightarrow> rmove" where
  "reply_case74 c =
     (if c = 33 then to_st 21
      else if c = 58 then rtr39
      else if c = 85 \<or> c = 117 then to_st 75
      else if c = 124 \<or> c = 126 then to_st 21
      else if c < 45 then (if c > 39 then (if 42 \<le> c \<and> c \<le> 43 then to_st 21
              else to_st 0)
          else if c \<ge> 35 then to_st 21
          else to_st 0)
      else if c > 46 then (if c < 65 then (if 48 \<le> c \<and> c \<le> 57 then to_st 21
              else to_st 0)
          else if c > 90 then (if 94 \<le> c \<and> c \<le> 122 then to_st 21
              else to_st 0)
          else to_st 21)
      else to_st 21)"

definition reply_case75 :: "int \<Rightarrow> rmove" where
  "reply_case75 c =
     (if c = 33 then to_st 21
      else if c = 58 then rtr39
      else if c = 78 \<or> c = 110 then to_st 76
      else if c = 124 \<or> c = 126 then to_st 21
      else if c < 45 then (if c > 39 then (if 42 \<le> c \<and> c \<le> 43 then to_st 21
              else to_st 0)
          else if c \<ge> 35 then to_st 21
          else to_st 0)
      else if c > 46 then (if c < 65 then (if 48 \<le> c \<and> c \<le> 57 then to_st 21
              else to_st 0)
          else if c > 90 then (if 94 \<le> c \<and> c \<le> 122 then to_st 21
              else to_st 0)
          else to_st 21)
      else to_st 21)"

definition reply_case76 :: "int \<Rightarrow> rmove" where
  "reply_case76 c =
     (if c = 33 then to_st 21
      else if c = 58 then rtr39
      else if c = 75 \<or> c = 107 then to_st 77
      else if c = 124 \<or> c = 126 then to_st 21
      else if c < 45 then (if c > 39 then (if 42 \<le> c \<and> c \<le> 43 then to_st 21
              else to_st 0)
          else if c \<ge> 35 then to_st 21
          else to_st 0)
      else if c > 46 then (if c < 65 then (if 48 \<le> c \<and> c \<le> 57 then to_st 21
              else to_st 0)
          else if c > 90 then (if 94 \<le> c \<and> c \<le> 122 then to_st 21
              else to_st 0)
          else to_st 21)
      else to_st 21)"

definition reply_case77 :: "int \<Rightarrow> rmove" where
  "reply_case77 c =
     (if c = 33 then to_st 21
      else if c = 58 then rtr39
      else if c = 69 \<or> c = 101 then to_st 78
      else if c = 124 \<or> c = 126 then to_st 21
      else if c < 45 then (if c > 39 then (if 42 \<le> c \<and> c \<le> 43 then to_st 21
              else to_st 0)
          else if c \<ge> 35 then to_st 21
          else to_st 0)
      else if c > 46 then (if c < 65 then (if 48 \<le> c \<and> c \<le> 57 then to_st 21
              else to_st 0)
          else if c > 90 then (if 94 \<le> c \<and> c \<le> 122 then to_st 21
              else to_st 0)
          else to_st 21)
      else to_st 21)"

definition reply_case78 :: "int \<Rightarrow> rmove" where
  "reply_case78 c =
     (if c = 33 then to_st 21
      else if c = 58 then rtr39
      else if c = 68 \<or> c = 100 then to_st 79
      else if c = 124 \<or> c = 126 then to_st 21
      else if c < 45 then (if c > 39 then (if 42 \<le> c \<and> c \<le> 43 then to_st 21
              else to_st 0)
          else if c \<ge> 35 then to_st 21
          else to_st 0)
      else if c > 46 then (if c < 65 then (if 48 \<le> c \<and> c \<le> 57 then to_st 21
              else to_st 0)
          else if c > 90 then (if 94 \<le> c \<and> c \<le> 122 then to_st 21
              else to_st 0)
          else to_st 21)
      else to_st 21)"

definition reply_case79 :: "int \<Rightarrow> rmove" where
  "reply_case79 c =
     (if c = 10 then rtr111
      else if c = 13 then rtr112
      else if c = 33 then to_st 21
      else if c = 58 then rtr39
      else if c = 124 \<or> c = 126 then to_st 21
      else if c < 45 then (if c > 39 then (if 42 \<le> c \<and> c \<le> 43 then to_st 21
              else to_st 0)
          else if c \<ge> 35 then to_st 21
          else to_st 0)
      else if c > 46 then (if c < 65 then (if 48 \<le> c \<and> c \<le> 57 then to_st 21
              else to_st 0)
          else if c > 90 then (if 94 \<le> c \<and> c \<le> 122 then to_st 21
              else to_st 0)
          else to_st 21)
      else to_st 21)"

definition reply_case80 :: "int \<Rightarrow> rmove" where
  "reply_case80 c =
     (if c = 10 then to_st 62
      else if c = 32 then to_st 63
      else if c = 67 \<or> c = 99 then rtr104
      else if 9 \<le> c \<and> c \<le> 13 then to_st 63
      else to_st 0)"

definition reply_case81 :: "int \<Rightarrow> rmove" where
  "reply_case81 c =
     (if c = 10 then rtr45
      else if c = 13 then rtr46
      else if c = 72 \<or> c = 104 then to_st 82
      else to_st 23)"

definition reply_case82 :: "int \<Rightarrow> rmove" where
  "reply_case82 c =
     (if c = 10 then rtr45
      else if c = 13 then rtr46
      else if c = 85 \<or> c = 117 then to_st 83
      else to_st 23)"

lemma reply_case73_82_sound:
  "sound_rmove (reply_case73 c)"
  "sound_rmove (reply_case74 c)"
  "sound_rmove (reply_case75 c)"
  "sound_rmove (reply_case76 c)"
  "sound_rmove (reply_case77 c)"
  "sound_rmove (reply_case78 c)"
  "sound_rmove (reply_case79 c)"
  "sound_rmove (reply_case80 c)"
  "sound_rmove (reply_case81 c)"
  "sound_rmove (reply_case82 c)"
  by (simp_all add: reply_moves reply_case73_def reply_case74_def reply_case75_def reply_case76_def reply_case77_def reply_case78_def reply_case79_def reply_case80_def reply_case81_def reply_case82_def)

definition reply_case83 :: "int \<Rightarrow> rmove" where
  "reply_case83 c =
     (if c = 10 then rtr45
      else if c = 13 then rtr46
      else if c = 78 \<or> c = 110 then to_st 84
      else to_st 23)"

definition reply_case84 :: "int \<Rightarrow> rmove" where
  "reply_case84 c =
     (if c = 10 then rtr45
      else if c = 13 then rtr46
      else if c = 75 \<or> c = 107 then to_st 85
      else to_st 23)"

definition reply_case85 :: "int \<Rightarrow> rmove" where
  "reply_case85 c =
     (if c = 10 then rtr45
      else if c = 13 then rtr46
      else if c = 69 \<or> c = 101 then to_st 86
      else to_st 23)"

definition reply_case86 :: "int \<Rightarrow> rmove" where
  "reply_case86 c =
     (if c = 10 then rtr45
      else if c = 13 then rtr46
      else if c = 68 \<or> c = 100 then to_st 87
      else to_st 23)"

definition reply_case87 :: "int \<Rightarrow> rmove" where
  "reply_case87 c =
     (if c = 10 then rtr111
      else if c = 13 then rtr112
      else to_st 23)"

definition reply_case88 :: "int \<Rightarrow> rmove" where
  "reply_case88 c =
     (if c = 10 then to_st 43
      else to_st 0)"

definition reply_case89 :: "int \<Rightarrow> rmove" where
  "reply_case89 c =
     (if c = 10 then rtr64
      else if c = 32 then to_st 37
      else if c = 67 \<or> c = 99 then to_st 38
      else if 9 \<le> c \<and> c \<le> 13 then to_st 37
      else to_st 0)"

definition reply_case90 :: "int \<Rightarrow> rmove" where
  "reply_case90 c =
     (if c = 33 then to_st 21
      else if c = 58 then rtr39
      else if c = 76 then to_st 91
      else if c = 79 then to_st 26
      else if c = 108 then to_st 91
      else if c = 111 then to_st 26
      else if c = 124 \<or> c = 126 then to_st 21
      else if c < 45 then (if c > 39 then (if 42 \<le> c \<and> c \<le> 43 then to_st 21
              else to_st 0)
          else if c \<ge> 35 then to_st 21
          else to_st 0)
      else if c > 46 then (if c < 65 then (if 48 \<le> c \<and> c \<le> 57 then to_st 21
              else to_st 0)
          else if c > 90 then (if 94 \<le> c \<and> c \<le> 122 then to_st 21
              else to_st 0)
          else to_st 21)
      else to_st 21)"

definition reply_case91 :: "int \<Rightarrow> rmove" where
  "reply_case91 c =
     (if c = 33 then to_st 21
      else if c = 58 then rtr39
      else if c = 79 \<or> c = 111 then to_st 92
      else if c = 124 \<or> c = 126 then to_st 21
      else if c < 45 then (if c > 39 then (if 42 \<le> c \<and> c \<le> 43 then to_st 21
              else to_st 0)
          else if c \<ge> 35 then to_st 21
          else to_st 0)
      else if c > 46 then (if c < 65 then (if 48 \<le> c \<and> c \<le> 57 then to_st 21
              else to_st 0)
          else if c > 90 then (if 94 \<le> c \<and> c \<le> 122 then to_st 21
              else to_st 0)
          else to_st 21)
      else to_st 21)"

definition reply_case92 :: "int \<Rightarrow> rmove" where
  "reply_case92 c =
     (if c = 33 then to_st 21
      else if c = 58 then rtr39
      else if c = 83 \<or> c = 115 then to_st 93
      else if c = 124 \<or> c = 126 then to_st 21
      else if c < 45 then (if c > 39 then (if 42 \<le> c \<and> c \<le> 43 then to_st 21
              else to_st 0)
          else if c \<ge> 35 then to_st 21
          else to_st 0)
      else if c > 46 then (if c < 65 then (if 48 \<le> c \<and> c \<le> 57 then to_st 21
              else to_st 0)
          else if c > 90 then (if 94 \<le> c \<and> c \<le> 122 then to_st 21
              else to_st 0)
          else to_st 21)
      else to_st 21)"

lemma reply_case83_92_sound:
  "sound_rmove (reply_case83 c)"
  "sound_rmove (reply_case84 c)"
  "sound_rmove (reply_case85 c)"
  "sound_rmove (reply_case86 c)"
  "sound_rmove (reply_case87 c)"
  "sound_rmove (reply_case88 c)"
  "sound_rmove (reply_case89 c)"
  "sound_rmove (reply_case90 c)"
  "sound_rmove (reply_case91 c)"
  "sound_rmove (reply_case92 c)"
  by (simp_all add: reply_moves reply_case83_def reply_case84_def reply_case85_def reply_case86_def reply_case87_def reply_case88_def reply_case89_def reply_case90_def reply_case91_def reply_case92_def)

definition reply_case93 :: "int \<Rightarrow> rmove" where
  "reply_case93 c =
     (if c = 33 then to_st 21
      else if c = 58 then rtr39
      else if c = 69 \<or> c = 101 then to_st 94
      else if c = 124 \<or> c = 126 then to_st 21
      else if c < 45 then (if c > 39 then (if 42 \<le> c \<and> c \<le> 43 then to_st 21
              else to_st 0)
          else if c \<ge> 35 then to_st 21
          else to_st 0)
      else if c > 46 then (if c < 65 then (if 48 \<le> c \<and> c \<le> 57 then to_st 21
              else to_st 0)
          else if c > 90 then (if 94 \<le> c \<and> c \<le> 122 then to_st 21
              else to_st 0)
          else to_st 21)
      else to_st 21)"

definition reply_case94 :: "int \<Rightarrow> rmove" where
  "reply_case94 c =
     (if c = 10 then to_st 43
      else if c = 13 then to_st 88
      else if c = 33 then to_st 21
      else if c = 58 then rtr39
      else if c = 124 \<or> c = 126 then to_st 21
      else if c < 45 then (if c > 39 then (if 42 \<le> c \<and> c \<le> 43 then to_st 21
              else to_st 0)
          else if c \<ge> 35 then to_st 21
          else to_st 0)
      else if c > 46 then (if c < 65 then (if 48 \<le> c \<and> c \<le> 57 then to_st 21
              else to_st 0)
          else if c > 90 then (if 94 \<le> c \<and> c \<le> 122 then to_st 21
              else to_st 0)
          else to_st 21)
      else to_st 21)"

definition reply_case95 :: "int \<Rightarrow> rmove" where
  "reply_case95 c =
     (if c = 10 then to_st 36
      else if c = 32 then to_st 37
      else if c = 67 \<or> c = 99 then to_st 38
      else if 9 \<le> c \<and> c \<le> 13 then to_st 37
      else to_st 0)"

definition reply_case96 :: "int \<Rightarrow> rmove" where
  "reply_case96 c =
     (if c = 10 then rtr45
      else if c = 13 then rtr46
      else if c = 76 \<or> c = 108 then to_st 97
      else to_st 23)"

definition reply_case97 :: "int \<Rightarrow> rmove" where
  "reply_case97 c =
     (if c = 10 then rtr45
      else if c = 13 then rtr46
      else if c = 79 \<or> c = 111 then to_st 98
      else to_st 23)"

definition reply_case98 :: "int \<Rightarrow> rmove" where
  "reply_case98 c =
     (if c = 10 then rtr45
      else if c = 13 then rtr46
      else if c = 83 \<or> c = 115 then to_st 99
      else to_st 23)"

definition reply_case99 :: "int \<Rightarrow> rmove" where
  "reply_case99 c =
     (if c = 10 then rtr45
      else if c = 13 then rtr46
      else if c = 69 \<or> c = 101 then to_st 100
      else to_st 23)"

definition reply_case100 :: "int \<Rightarrow> rmove" where
  "reply_case100 c =
     (if c = 10 then rtr136
      else if c = 13 then rtr137
      else to_st 23)"

definition reply_case101 :: "int \<Rightarrow> rmove" where
  "reply_case101 c =
     (if c = 33 then to_st 21
      else if c = 58 then rtr39
      else if c = 69 \<or> c = 101 then to_st 102
      else if c = 124 \<or> c = 126 then to_st 21
      else if c < 45 then (if c > 39 then (if 42 \<le> c \<and> c \<le> 43 then to_st 21
              else to_st 0)
          else if c \<ge> 35 then to_st 21
          else to_st 0)
      else if c > 46 then (if c < 65 then (if 48 \<le> c \<and> c \<le> 57 then to_st 21
              else to_st 0)
          else if c > 90 then (if 94 \<le> c \<and> c \<le> 122 then to_st 21
              else to_st 0)
          else to_st 21)
      else to_st 21)"

definition reply_case102 :: "int \<Rightarrow> rmove" where
  "reply_case102 c =
     (if c = 33 then to_st 21
      else if c = 58 then rtr39
      else if c = 78 \<or> c = 110 then to_st 103
      else if c = 124 \<or> c = 126 then to_st 21
      else if c < 45 then (if c > 39 then (if 42 \<le> c \<and> c \<le> 43 then to_st 21
              else to_st 0)
          else if c \<ge> 35 then to_st 21
          else to_st 0)
      else if c > 46 then (if c < 65 then (if 48 \<le> c \<and> c \<le> 57 then to_st 21
              else to_st 0)
          else if c > 90 then (if 94 \<le> c \<and> c \<le> 122 then to_st 21
              else to_st 0)
          else to_st 21)
      else to_st 21)"

lemma reply_case93_102_sound:
  "sound_rmove (reply_case93 c)"
  "sound_rmove (reply_case94 c)"
  "sound_rmove (reply_case95 c)"
  "sound_rmove (reply_case96 c)"
  "sound_rmove (reply_case97 c)"
  "sound_rmove (reply_case98 c)"
  "sound_rmove (reply_case99 c)"
  "sound_rmove (reply_case100 c)"
  "sound_rmove (reply_case101 c)"
  "sound_rmove (reply_case102 c)"
  by (simp_all add: reply_moves reply_case93_def reply_case94_def reply_case95_def reply_case96_def reply_case97_def reply_case98_def reply_case99_def reply_case100_def reply_case101_def reply_case102_def)

definition reply_case103 :: "int \<Rightarrow> rmove" where
  "reply_case103 c =
     (if c = 33 then to_st 21
      else if c = 58 then rtr39
      else if c = 84 \<or> c = 116 then to_st 104
      else if c = 124 \<or> c = 126 then to_st 21
      else if c < 45 then (if c > 39 then (if 42 \<le> c \<and> c \<le> 43 then to_st 21
              else to_st 0)
          else if c \<ge> 35 then to_st 21
          else to_st 0)
      else if c > 46 then (if c < 65 then (if 48 \<le> c \<and> c \<le> 57 then to_st 21
              else to_st 0)
          else if c > 90 then (if 94 \<le> c \<and> c \<le> 122 then to_st 21
              else to_st 0)
          else to_st 21)
      else to_st 21)"

definition reply_case104 :: "int \<Rightarrow> rmove" where
  "reply_case104 c =
     (if c = 33 then to_st 21
      else if c = 45 then to_st 105
      else if c = 46 then to_st 21
      else if c = 58 then rtr39
      else if c = 124 \<or> c = 126 then to_st 21
      else if c < 48 then (if c > 39 then (if 42 \<le> c \<and> c \<le> 43 then to_st 21
              else to_st 0)
          else if c \<ge> 35 then to_st 21
          else to_st 0)
      else if c > 57 then (if c > 90 then (if 94 \<le> c \<and> c \<le> 122 then to_st 21
              else to_st 0)
          else if c \<ge> 65 then to_st 21
          else to_st 0)
      else to_st 21)"

definition reply_case105 :: "int \<Rightarrow> rmove" where
  "reply_case105 c =
     (if c = 33 then to_st 21
      else if c = 58 then rtr39
      else if c = 76 \<or> c = 108 then to_st 106
      else if c = 124 \<or> c = 126 then to_st 21
      else if c < 45 then (if c > 39 then (if 42 \<le> c \<and> c \<le> 43 then to_st 21
              else to_st 0)
          else if c \<ge> 35 then to_st 21
          else to_st 0)
      else if c > 46 then (if c < 65 then (if 48 \<le> c \<and> c \<le> 57 then to_st 21
              else to_st 0)
          else if c > 90 then (if 94 \<le> c \<and> c \<le> 122 then to_st 21
              else to_st 0)
          else to_st 21)
      else to_st 21)"

definition reply_case106 :: "int \<Rightarrow> rmove" where
  "reply_case106 c =
     (if c = 33 then to_st 21
      else if c = 58 then rtr39
      else if c = 69 \<or> c = 101 then to_st 107
      else if c = 124 \<or> c = 126 then to_st 21
      else if c < 45 then (if c > 39 then (if 42 \<le> c \<and> c \<le> 43 then to_st 21
              else to_st 0)
          else if c \<ge> 35 then to_st 21
          else to_st 0)
      else if c > 46 then (if c < 65 then (if 48 \<le> c \<and> c \<le> 57 then to_st 21
              else to_st 0)
          else if c > 90 then (if 94 \<le> c \<and> c \<le> 122 then to_st 21
              else to_st 0)
          else to_st 21)
      else to_st 21)"

definition reply_case107 :: "int \<Rightarrow> rmove" where
  "reply_case107 c =
     (if c = 33 then to_st 21
      else if c = 58 then rtr39
      else if c = 78 \<or> c = 110 then to_st 108
      else if c = 124 \<or> c = 126 then to_st 21
      else if c < 45 then (if c > 39 then (if 42 \<le> c \<and> c \<le> 43 then to_st 21
              else to_st 0)
          else if c \<ge> 35 then to_st 21
          else to_st 0)
      else if c > 46 then (if c < 65 then (if 48 \<le> c \<and> c \<le> 57 then to_st 21
              else to_st 0)
          else if c > 90 then (if 94 \<le> c \<and> c \<le> 122 then to_st 21
              else to_st 0)
          else to_st 21)
      else to_st 21)"

definition reply_case108 :: "int \<Rightarrow> rmove" where
  "reply_case108 c =
     (if c = 33 then to_st 21
      else if c = 58 then rtr39
      else if c = 71 \<or> c = 103 then to_st 109
      else if c = 124 \<or> c = 126 then to_st 21
      else if c < 45 then (if c > 39 then (if 42 \<le> c \<and> c \<le> 43 then to_st 21
              else to_st 0)
          else if c \<ge> 35 then to_st 21
          else to_st 0)
      else if c > 46 then (if c < 65 then (if 48 \<le> c \<and> c \<le> 57 then to_st 21
              else to_st 0)
          else if c > 90 then (if 94 \<le> c \<and> c \<le> 122 then to_st 21
              else to_st 0)
          else to_st 21)
      else to_st 21)"

definition reply_case109 :: "int \<Rightarrow> rmove" where
  "reply_case109 c =
     (if c = 33 then to_st 21
      else if c = 58 then rtr39
      else if c = 84 \<or> c = 116 then to_st 110
      else if c = 124 \<or> c = 126 then to_st 21
      else if c < 45 then (if c > 39 then (if 42 \<le> c \<and> c \<le> 43 then to_st 21
              else to_st 0)
          else if c \<ge> 35 then to_st 21
          else to_st 0)
      else if c > 46 then (if c < 65 then (if 48 \<le> c \<and> c \<le> 57 then to_st 21
              else to_st 0)
          else if c > 90 then (if 94 \<le> c \<and> c \<le> 122 then to_st 21
              else to_st 0)
          else to_st 21)
      else to_st 21)"

definition reply_case110 :: "int \<Rightarrow> rmove" where
  "reply_case110 c =
     (if c = 33 then to_st 21
      else if c = 58 then rtr39
      else if c = 72 \<or> c = 104 then to_st 111
      else if c = 124 \<or> c = 126 then to_st 21
      else if c < 45 then (if c > 39 then (if 42 \<le> c \<and> c \<le> 43 then to_st 21
              else to_st 0)
          else if c \<ge> 35 then to_st 21
          else to_st 0)
      else if c > 46 then (if c < 65 then (if 48 \<le> c \<and> c \<le> 57 then to_st 21
              else to_st 0)
          else if c > 90 then (if 94 \<le> c \<and> c \<le> 122 then to_st 21
              else to_st 0)
          else to_st 21)
      else to_st 21)"

definition reply_case111 :: "int \<Rightarrow> rmove" where
  "reply_case111 c =
     (if c = 33 then to_st 21
      else if c = 58 then rtr148
      else if c = 124 \<or> c = 126 then to_st 21
      else if c < 45 then (if c > 39 then (if 42 \<le> c \<and> c \<le> 43 then to_st 21
              else to_st 0)
          else if c \<ge> 35 then to_st 21
          else to_st 0)
      else if c > 46 then (if c < 65 then (if 48 \<le> c \<and> c \<le> 57 then to_st 21
              else to_st 0)
          else if c > 90 then (if 94 \<le> c \<and> c \<le> 122 then to_st 21
              else to_st 0)
          else to_st 21)
      else to_st 21)"

definition reply_case112 :: "int \<Rightarrow> rmove" where
  "reply_case112 c =
     (if c = 10 then rtr150
      else if c = 13 then rtr151
      else if c = 32 then rtr149
      else if c > 12 then (if 48 \<le> c \<and> c \<le> 57 then rtr152
          else rtr40)
      else if c \<ge> 9 then rtr149
      else rtr40)"

lemma reply_case103_112_sound:
  "sound_rmove (reply_case103 c)"
  "sound_rmove (reply_case104 c)"
  "sound_rmove (reply_case105 c)"
  "sound_rmove (reply_case106 c)"
  "sound_rmove (reply_case107 c)"
  "sound_rmove (reply_case108 c)"
  "sound_rmove (reply_case109 c)"
  "sound_rmove (reply_case110 c)"
  "sound_rmove (reply_case111 c)"
  "sound_rmove (reply_case112 c)"
  by (simp_all add: reply_moves reply_case103_def reply_case104_def reply_case105_def reply_case106_def reply_case107_def reply_case108_def reply_case109_def reply_case110_def reply_case111_def reply_case112_def)

definition reply_case113 :: "int \<Rightarrow> rmove" where
  "reply_case113 c =
     (if c = 10 then rtr154
      else if c = 13 then to_st 116
      else if c = 32 then to_st 114
      else if c = 33 then rtr35
      else if c = 67 then rtr36
      else if c = 84 then rtr37
      else if c = 99 then rtr36
      else if c = 116 then rtr37
      else if c = 124 \<or> c = 126 then rtr35
      else if c < 45 then (if c < 35 then (if 9 \<le> c \<and> c \<le> 12 then to_st 114
              else to_st 0)
          else if c > 39 then (if 42 \<le> c \<and> c \<le> 43 then rtr35
              else to_st 0)
          else rtr35)
      else if c > 46 then (if c < 65 then (if 48 \<le> c \<and> c \<le> 57 then rtr156
              else to_st 0)
          else if c > 90 then (if 94 \<le> c \<and> c \<le> 122 then rtr35
              else to_st 0)
          else rtr35)
      else rtr35)"

definition reply_case114 :: "int \<Rightarrow> rmove" where
  "reply_case114 c =
     (if c = 32 then to_st 114
      else if c > 13 then (if 48 \<le> c \<and> c \<le> 57 then rtr157
          else to_st 0)
      else if c \<ge> 9 then to_st 114
      else to_st 0)"

definition reply_case115 :: "int \<Rightarrow> rmove" where
  "reply_case115 c =
     (if c = 10 then rtr158
      else if c = 13 then rtr159
      else if 48 \<le> c \<and> c \<le> 57 then to_st 115
      else to_st 0)"

definition reply_case116 :: "int \<Rightarrow> rmove" where
  "reply_case116 c =
     (if c = 10 then rtr154
      else if c = 32 then to_st 114
      else if c > 13 then (if 48 \<le> c \<and> c \<le> 57 then rtr157
          else to_st 0)
      else if c \<ge> 9 then to_st 114
      else to_st 0)"

definition reply_case117 :: "int \<Rightarrow> rmove" where
  "reply_case117 c =
     (if c = 10 then rtr158
      else if c = 13 then rtr159
      else if c = 33 then to_st 21
      else if c = 58 then rtr39
      else if c = 124 \<or> c = 126 then to_st 21
      else if c < 45 then (if c > 39 then (if 42 \<le> c \<and> c \<le> 43 then to_st 21
              else to_st 0)
          else if c \<ge> 35 then to_st 21
          else to_st 0)
      else if c > 46 then (if c < 65 then (if 48 \<le> c \<and> c \<le> 57 then to_st 117
              else to_st 0)
          else if c > 90 then (if 94 \<le> c \<and> c \<le> 122 then to_st 21
              else to_st 0)
          else to_st 21)
      else to_st 21)"

definition reply_case118 :: "int \<Rightarrow> rmove" where
  "reply_case118 c =
     (if c = 10 then to_st 113
      else if c = 32 then to_st 114
      else if c > 13 then (if 48 \<le> c \<and> c \<le> 57 then rtr157
          else to_st 0)
      else if c \<ge> 9 then to_st 114
      else to_st 0)"

definition reply_case119 :: "int \<Rightarrow> rmove" where
  "reply_case119 c =
     (if c = 10 then rtr158
      else if c = 13 then rtr159
      else if 48 \<le> c \<and> c \<le> 57 then to_st 119
      else to_st 23)"

definition reply_case120 :: "int \<Rightarrow> rmove" where
  "reply_case120 c =
     (to_st 0)"

definition reply_case121 :: "int \<Rightarrow> rmove" where
  "reply_case121 c =
     (if c = 32 then to_st 63
      else if c = 67 \<or> c = 99 then rtr104
      else if 9 \<le> c \<and> c \<le> 13 then to_st 63
      else to_st 0)"

definition reply_case122 :: "int \<Rightarrow> rmove" where
  "reply_case122 c =
     (if c = 32 then to_st 37
      else if c = 67 \<or> c = 99 then to_st 38
      else if 9 \<le> c \<and> c \<le> 13 then to_st 37
      else to_st 0)"

lemma reply_case113_122_sound:
  "sound_rmove (reply_case113 c)"
  "sound_rmove (reply_case114 c)"
  "sound_rmove (reply_case115 c)"
  "sound_rmove (reply_case116 c)"
  "sound_rmove (reply_case117 c)"
  "sound_rmove (reply_case118 c)"
  "sound_rmove (reply_case119 c)"
  "sound_rmove (reply_case120 c)"
  "sound_rmove (reply_case121 c)"
  "sound_rmove (reply_case122 c)"
  by (simp_all add: reply_moves reply_case113_def reply_case114_def reply_case115_def reply_case116_def reply_case117_def reply_case118_def reply_case119_def reply_case120_def reply_case121_def reply_case122_def)

definition reply_case123 :: "int \<Rightarrow> rmove" where
  "reply_case123 c =
     (if c = 32 then to_st 114
      else if c > 13 then (if 48 \<le> c \<and> c \<le> 57 then rtr157
          else to_st 0)
      else if c \<ge> 9 then to_st 114
      else to_st 0)"

lemma reply_case123_123_sound:
  "sound_rmove (reply_case123 c)"
  by (simp_all add: reply_moves reply_case123_def)

end
