(* ===== verification/ReplyMachine.thy ===== *)
theory ReplyMachine
  imports ReplyStates1 ReplyStates2
begin

text \<open>
  The machine of \<open>http/httpclient_parser.cpp\<close>: the switch over the states, the functions of the
  parser, and the machine as an instance of \<open>ragel_machine\<close>. The states 120 to 123 are all
  final, which is why \<open>httpclient_parser_is_finished\<close>, which tests for 120 alone, misses some
  responses.
\<close>

section \<open>The switch\<close>

definition reply_cases1 :: "nat \<Rightarrow> int \<Rightarrow> rmove" where
  "reply_cases1 n c =
     (if n = 1 then reply_case1 c
      else if n = 2 then reply_case2 c
      else if n = 3 then reply_case3 c
      else if n = 4 then reply_case4 c
      else if n = 5 then reply_case5 c
      else if n = 6 then reply_case6 c
      else if n = 7 then reply_case7 c
      else if n = 8 then reply_case8 c
      else if n = 9 then reply_case9 c
      else if n = 10 then reply_case10 c
      else if n = 11 then reply_case11 c
      else if n = 12 then reply_case12 c
      else if n = 13 then reply_case13 c
      else if n = 14 then reply_case14 c
      else if n = 15 then reply_case15 c
      else if n = 16 then reply_case16 c
      else if n = 17 then reply_case17 c
      else if n = 18 then reply_case18 c
      else if n = 19 then reply_case19 c
      else if n = 20 then reply_case20 c
      else if n = 21 then reply_case21 c
      else if n = 22 then reply_case22 c
      else if n = 23 then reply_case23 c
      else if n = 24 then reply_case24 c
      else if n = 25 then reply_case25 c
      else if n = 26 then reply_case26 c
      else if n = 27 then reply_case27 c
      else if n = 28 then reply_case28 c
      else if n = 29 then reply_case29 c
      else if n = 30 then reply_case30 c
      else if n = 31 then reply_case31 c
      else if n = 32 then reply_case32 c
      else if n = 33 then reply_case33 c
      else if n = 34 then reply_case34 c
      else if n = 35 then reply_case35 c
      else if n = 36 then reply_case36 c
      else if n = 37 then reply_case37 c
      else if n = 38 then reply_case38 c
      else if n = 39 then reply_case39 c
      else if n = 40 then reply_case40 c
      else if n = 41 then reply_case41 c
      else to_st 0)"

definition reply_cases2 :: "nat \<Rightarrow> int \<Rightarrow> rmove" where
  "reply_cases2 n c =
     (if n = 42 then reply_case42 c
      else if n = 43 then reply_case43 c
      else if n = 44 then reply_case44 c
      else if n = 45 then reply_case45 c
      else if n = 46 then reply_case46 c
      else if n = 47 then reply_case47 c
      else if n = 48 then reply_case48 c
      else if n = 49 then reply_case49 c
      else if n = 50 then reply_case50 c
      else if n = 51 then reply_case51 c
      else if n = 52 then reply_case52 c
      else if n = 53 then reply_case53 c
      else if n = 54 then reply_case54 c
      else if n = 55 then reply_case55 c
      else if n = 56 then reply_case56 c
      else if n = 57 then reply_case57 c
      else if n = 58 then reply_case58 c
      else if n = 59 then reply_case59 c
      else if n = 60 then reply_case60 c
      else if n = 61 then reply_case61 c
      else if n = 62 then reply_case62 c
      else if n = 63 then reply_case63 c
      else if n = 64 then reply_case64 c
      else if n = 65 then reply_case65 c
      else if n = 66 then reply_case66 c
      else if n = 67 then reply_case67 c
      else if n = 68 then reply_case68 c
      else if n = 69 then reply_case69 c
      else if n = 70 then reply_case70 c
      else if n = 71 then reply_case71 c
      else if n = 72 then reply_case72 c
      else if n = 73 then reply_case73 c
      else if n = 74 then reply_case74 c
      else if n = 75 then reply_case75 c
      else if n = 76 then reply_case76 c
      else if n = 77 then reply_case77 c
      else if n = 78 then reply_case78 c
      else if n = 79 then reply_case79 c
      else if n = 80 then reply_case80 c
      else if n = 81 then reply_case81 c
      else if n = 82 then reply_case82 c
      else to_st 0)"

definition reply_cases3 :: "nat \<Rightarrow> int \<Rightarrow> rmove" where
  "reply_cases3 n c =
     (if n = 83 then reply_case83 c
      else if n = 84 then reply_case84 c
      else if n = 85 then reply_case85 c
      else if n = 86 then reply_case86 c
      else if n = 87 then reply_case87 c
      else if n = 88 then reply_case88 c
      else if n = 89 then reply_case89 c
      else if n = 90 then reply_case90 c
      else if n = 91 then reply_case91 c
      else if n = 92 then reply_case92 c
      else if n = 93 then reply_case93 c
      else if n = 94 then reply_case94 c
      else if n = 95 then reply_case95 c
      else if n = 96 then reply_case96 c
      else if n = 97 then reply_case97 c
      else if n = 98 then reply_case98 c
      else if n = 99 then reply_case99 c
      else if n = 100 then reply_case100 c
      else if n = 101 then reply_case101 c
      else if n = 102 then reply_case102 c
      else if n = 103 then reply_case103 c
      else if n = 104 then reply_case104 c
      else if n = 105 then reply_case105 c
      else if n = 106 then reply_case106 c
      else if n = 107 then reply_case107 c
      else if n = 108 then reply_case108 c
      else if n = 109 then reply_case109 c
      else if n = 110 then reply_case110 c
      else if n = 111 then reply_case111 c
      else if n = 112 then reply_case112 c
      else if n = 113 then reply_case113 c
      else if n = 114 then reply_case114 c
      else if n = 115 then reply_case115 c
      else if n = 116 then reply_case116 c
      else if n = 117 then reply_case117 c
      else if n = 118 then reply_case118 c
      else if n = 119 then reply_case119 c
      else if n = 120 then reply_case120 c
      else if n = 121 then reply_case121 c
      else if n = 122 then reply_case122 c
      else if n = 123 then reply_case123 c
      else to_st 0)"

definition reply_case :: "nat \<Rightarrow> int \<Rightarrow> rmove" where
  "reply_case n c =
     (if n \<le> 41 then reply_cases1 n c
      else if n \<le> 82 then reply_cases2 n c
      else reply_cases3 n c)"

lemmas reply_cases_sound = reply_case1_10_sound reply_case11_20_sound reply_case21_30_sound
  reply_case31_40_sound reply_case41_50_sound reply_case51_60_sound reply_case61_62_sound
  reply_case63_72_sound reply_case73_82_sound reply_case83_92_sound reply_case93_102_sound
  reply_case103_112_sound reply_case113_122_sound reply_case123_123_sound

lemma reply_cases1_sound: "sound_rmove (reply_cases1 n c)"
  by (simp add: reply_cases1_def sound_rif reply_cases_sound sound_to_zero)

lemma reply_cases2_sound: "sound_rmove (reply_cases2 n c)"
  by (simp add: reply_cases2_def sound_rif reply_cases_sound sound_to_zero)

lemma reply_cases3_sound: "sound_rmove (reply_cases3 n c)"
  by (simp add: reply_cases3_def sound_rif reply_cases_sound sound_to_zero)

lemma reply_case_sound: "sound_rmove (reply_case n c)"
  by (simp add: reply_case_def sound_rif reply_cases1_sound reply_cases2_sound reply_cases3_sound)

section \<open>The functions of the parser\<close>

definition httpclient_parser_start :: nat where "httpclient_parser_start = 1"
definition httpclient_parser_error :: nat where "httpclient_parser_error = 0"

definition reply_valid :: "nat \<Rightarrow> bool" where
  "reply_valid n \<longleftrightarrow> 1 \<le> n \<and> n \<le> 123"

definition reply_step :: "nat \<Rightarrow> char \<Rightarrow> rmove" where
  "reply_step n ch = reply_case n (schar ch)"

definition httpclient_parser_init :: "httpclient_parser \<Rightarrow> httpclient_parser" where
  "httpclient_parser_init m = m\<lparr>cl_cs := httpclient_parser_start, cl_body_start := 0, cl_content_len := - 1,
     cl_chunked := False, cl_chunks_done := False, cl_mark := 0, cl_nread := 0, cl_field_len := 0,
     cl_field_start := 0, cl_close := False\<rparr>"

definition httpclient_parser_has_error :: "httpclient_parser \<Rightarrow> bool" where
  "httpclient_parser_has_error m \<longleftrightarrow> cl_cs m = httpclient_parser_error"

definition httpclient_parser_is_finished :: "httpclient_parser \<Rightarrow> bool" where
  "httpclient_parser_is_finished m \<longleftrightarrow> cl_cs m = reply_first_final"

definition httpclient_parser_finish :: "httpclient_parser \<Rightarrow> int" where
  "httpclient_parser_finish m =
     (if httpclient_parser_has_error m then - 1 else if httpclient_parser_is_finished m then 1 else 0)"

abbreviation reply_loop :: "bytes \<Rightarrow> nat \<Rightarrow> bytes \<Rightarrow> nat \<Rightarrow> httpclient_parser \<Rightarrow> nat \<times> nat \<times> httpclient_parser" where
  "reply_loop buffer \<equiv> ragel_run reply_valid reply_step rbreaks (reply_act buffer)"

text \<open>
  What follows the machine. The asserts end the program, a failed \<open>check\<close> makes the function
  return -1. \<open>after\<close> is the byte behind the input, which the function asserts to be NUL; it is
  absent when the input ends where its memory does.
\<close>

definition httpclient_parser_exit :: "nat \<Rightarrow> nat \<Rightarrow> nat \<times> nat \<times> httpclient_parser \<Rightarrow> fault + (int \<times> httpclient_parser)" where
  "httpclient_parser_exit len off = (\<lambda>(p, n, m1).
     (let m2 = m1\<lparr>cl_cs := n\<rparr>;
          m3 = m2\<lparr>cl_nread := cl_nread m2 + (p - off)\<rparr>
      in if \<not> p \<le> len then Inl Assert_failed
         else if \<not> cl_nread m3 \<le> len then Inl Assert_failed
         else if \<not> cl_body_start m3 \<le> len then Inl Assert_failed
         else if \<not> cl_mark m3 < len then Inr (- 1, m3)
         else if \<not> cl_field_len m3 \<le> len then Inr (- 1, m3)
         else if \<not> cl_field_start m3 < len then Inr (- 1, m3)
         else Inr (to_int (int (cl_nread m3)), m3)))"

definition httpclient_parser_execute :: "httpclient_parser \<Rightarrow> bytes \<Rightarrow> char option \<Rightarrow> nat
    \<Rightarrow> fault + (int \<times> httpclient_parser)" where
  "httpclient_parser_execute m buffer after off =
     (let len = length buffer;
          m0 = m\<lparr>cl_nread := 0, cl_mark := 0, cl_field_len := 0, cl_field_start := 0\<rparr>
      in if \<not> off \<le> len then Inl Assert_failed
         else (case after of
             None \<Rightarrow> Inl Out_of_range
           | Some ch \<Rightarrow>
               if ch \<noteq> CHR 0x00 then Inl Assert_failed
               else if int len - int off \<noteq> to_int (int len) - to_int (int off) then Inl Assert_failed
               else httpclient_parser_exit len off
                      (reply_loop buffer off (drop off buffer) (cl_cs m0) m0)))"

section \<open>The laws of the machine\<close>

interpretation reply: ragel_machine reply_valid reply_step rbreaks reply_first_final
proof
  show "\<not> reply_valid 0" by (simp add: reply_valid_def)
  show "0 < reply_first_final" by (simp add: reply_first_final_def)
  fix n ch acts t
  assume "reply_step n ch = (acts, t)"
  then have s: "sound_rmove (acts, t)" using reply_case_sound [of n "schar ch"] by (simp add: reply_step_def)
  then show "t = 0 \<or> reply_valid t" by (auto simp: sound_rmove_def reply_valid_def)
  show "performs rbreaks acts \<longleftrightarrow> reply_first_final \<le> t" using s by (simp add: sound_rmove_def)
qed

end
