(* ===== verification/ReplySteps.thy ===== *)
theory ReplySteps
  imports ReplyMachine
begin

text \<open>
  The moves of the response machine on a status line and on header lines. The machine
  recognises three header names while it reads any name, so most positions in a header line
  are shared by several states; the predicates below are these positions, and every state of
  a position makes the same move on the same class of characters, up to the actions that the
  recognised headers add.
\<close>

section \<open>Positions\<close>

definition line_state :: "nat \<Rightarrow> bool" where
  "line_state n \<longleftrightarrow> n = 20 \<or> n = 36 \<or> n = 43 \<or> n = 62 \<or> n = 113"

definition name_state :: "nat \<Rightarrow> bool" where
  "name_state n \<longleftrightarrow> n \<in> {21, 25, 26, 27, 28, 29, 30, 31, 32, 33, 34, 44, 45, 46, 47, 48, 49, 50, 51, 52,
     53, 54, 55, 56, 57, 58, 59, 60, 73, 74, 75, 76, 77, 78, 79, 90, 91, 92, 93,
     94, 101, 102, 103, 104, 105, 106, 107, 108, 109, 110, 111, 117}"

definition lead_state :: "nat \<Rightarrow> bool" where
  "lead_state n \<longleftrightarrow> n = 22 \<or> n = 35 \<or> n = 61 \<or> n = 112"

definition value_state :: "nat \<Rightarrow> bool" where
  "value_state n \<longleftrightarrow> n \<in> {23, 81, 82, 83, 84, 85, 86, 87, 96, 97, 98, 99, 100, 119}"

definition value_end :: "nat \<Rightarrow> bool" where
  "value_end n \<longleftrightarrow> n = 24 \<or> n = 71 \<or> n = 88"

definition blank_end :: "nat \<Rightarrow> bool" where
  "blank_end n \<longleftrightarrow> n = 24 \<or> n = 95 \<or> n = 80 \<or> n = 118"

definition last_line :: "nat \<Rightarrow> bool" where
  "last_line n \<longleftrightarrow> n = 3 \<or> n = 89 \<or> n = 72 \<or> n = 116"

text \<open>The classes of characters: of a name, blanks in front of a value, of a value.\<close>

definition reply_token :: "int \<Rightarrow> bool" where
  "reply_token c \<longleftrightarrow> c = 33 \<or> 35 \<le> c \<and> c \<le> 39 \<or> c = 42 \<or> c = 43 \<or> c = 45 \<or> c = 46 \<or> 48 \<le> c \<and> c \<le> 57
     \<or> 65 \<le> c \<and> c \<le> 90 \<or> 94 \<le> c \<and> c \<le> 122 \<or> c = 124 \<or> c = 126"

definition blank :: "int \<Rightarrow> bool" where
  "blank c \<longleftrightarrow> c = 9 \<or> c = 11 \<or> c = 12 \<or> c = 32"

definition in_line :: "int \<Rightarrow> bool" where
  "in_line c \<longleftrightarrow> c \<noteq> 10 \<and> c \<noteq> 13"

section \<open>Moves of the positions\<close>

definition goes :: "(reply_action list \<Rightarrow> nat \<Rightarrow> bool) \<Rightarrow> rmove \<Rightarrow> bool" where
  "goes P m \<longleftrightarrow> P (fst m) (snd m)"

lemma goes_if: "goes P (if b then x else y) \<longleftrightarrow> (b \<longrightarrow> goes P x) \<and> (\<not> b \<longrightarrow> goes P y)"
  by simp

lemma goes_to: "goes P (to_st n) = P [] n"
  by (simp add: goes_def to_st_def)

lemma goes_rtr:
  "goes P rtr0 = P [RMark] 2"
  "goes P rtr2 = P [RMark] 8"
  "goes P rtr3 = P [RChunkSize, RDone] 120"
  "goes P rtr4 = P [RChunkSize] 3"
  "goes P rtr6 = P [RChunkSize] 4"
  "goes P rtr7 = P [RDone] 120"
  "goes P rtr8 = P [RStartField] 5"
  "goes P rtr9 = P [RWriteField, RStartValue, RWriteValue, RDone] 120"
  "goes P rtr10 = P [RWriteField, RStartValue, RWriteValue] 3"
  "goes P rtr12 = P [RWriteField, RStartValue, RWriteValue] 4"
  "goes P rtr13 = P [RWriteField, RStartValue] 6"
  "goes P rtr14 = P [RStartValue] 7"
  "goes P rtr15 = P [RWriteValue, RDone] 120"
  "goes P rtr16 = P [RWriteValue] 3"
  "goes P rtr18 = P [RWriteValue] 4"
  "goes P rtr26 = P [RVersion] 16"
  "goes P rtr27 = P [RMark] 17"
  "goes P rtr28 = P [RStatus] 18"
  "goes P rtr30 = P [RMark] 19"
  "goes P rtr32 = P [RReason] 20"
  "goes P rtr33 = P [RReason] 24"
  "goes P rtr35 = P [RStartField] 21"
  "goes P rtr36 = P [RStartField] 25"
  "goes P rtr37 = P [RStartField] 44"
  "goes P rtr39 = P [RWriteField] 22"
  "goes P rtr40 = P [RStartValue] 23"
  "goes P rtr41 = P [RStartValue] 22"
  "goes P rtr42 = P [RStartValue, RWriteValue] 20"
  "goes P rtr43 = P [RStartValue, RWriteValue] 24"
  "goes P rtr45 = P [RWriteValue] 20"
  "goes P rtr46 = P [RWriteValue] 24"
  "goes P rtr58 = P [RWriteField] 35"
  "goes P rtr59 = P [RStartValue] 35"
  "goes P rtr60 = P [RStartValue, RWriteValue] 36"
  "goes P rtr61 = P [RStartValue, RWriteValue] 95"
  "goes P rtr62 = P [RStartValue] 96"
  "goes P rtr64 = P [RDone] 122"
  "goes P rtr66 = P [RStartField] 90"
  "goes P rtr74 = P [RClose, RDone] 120"
  "goes P rtr75 = P [RClose] 3"
  "goes P rtr76 = P [RClose, RStartField] 21"
  "goes P rtr77 = P [RClose, RStartField] 25"
  "goes P rtr78 = P [RClose, RStartField] 44"
  "goes P rtr95 = P [RWriteField] 61"
  "goes P rtr96 = P [RStartValue] 61"
  "goes P rtr97 = P [RStartValue, RWriteValue] 62"
  "goes P rtr98 = P [RStartValue, RWriteValue] 80"
  "goes P rtr99 = P [RStartValue] 81"
  "goes P rtr101 = P [RDone] 121"
  "goes P rtr103 = P [RStartValue, RStartField] 73"
  "goes P rtr104 = P [RStartValue] 64"
  "goes P rtr111 = P [RWriteValue, RChunked] 20"
  "goes P rtr112 = P [RWriteValue] 71"
  "goes P rtr113 = P [RChunked] 20"
  "goes P rtr136 = P [RWriteValue] 43"
  "goes P rtr137 = P [RWriteValue] 88"
  "goes P rtr148 = P [RWriteField] 112"
  "goes P rtr149 = P [RStartValue] 112"
  "goes P rtr150 = P [RStartValue, RWriteValue] 113"
  "goes P rtr151 = P [RStartValue, RWriteValue] 118"
  "goes P rtr152 = P [RStartValue] 119"
  "goes P rtr154 = P [RDone] 123"
  "goes P rtr156 = P [RStartValue, RStartField] 117"
  "goes P rtr157 = P [RStartValue] 115"
  "goes P rtr158 = P [RContentLen, RWriteValue] 20"
  "goes P rtr159 = P [RContentLen, RWriteValue] 24"
  by (simp_all add: goes_def rtr_defs)

lemma name_states:
  "name_state 21" "name_state 25" "name_state 26" "name_state 27" "name_state 28"
    "name_state 29" "name_state 30" "name_state 31" "name_state 32" "name_state 33"
    "name_state 34" "name_state 44" "name_state 45" "name_state 46" "name_state 47"
    "name_state 48" "name_state 49" "name_state 50" "name_state 51" "name_state 52"
    "name_state 53" "name_state 54" "name_state 55" "name_state 56" "name_state 57"
    "name_state 58" "name_state 59" "name_state 60" "name_state 73" "name_state 74"
    "name_state 75" "name_state 76" "name_state 77" "name_state 78" "name_state 79"
    "name_state 90" "name_state 91" "name_state 92" "name_state 93" "name_state 94"
    "name_state 101" "name_state 102" "name_state 103" "name_state 104" "name_state 105"
    "name_state 106" "name_state 107" "name_state 108" "name_state 109" "name_state 110"
        "name_state 111" "name_state 117" "\<not> name_state 0" "\<not> name_state 20"
    "\<not> name_state 22" "\<not> name_state 24" "\<not> name_state 35" "\<not> name_state 43"
    "\<not> name_state 61" "\<not> name_state 71" "\<not> name_state 88"
    "\<not> name_state 112"
  by (simp_all add: name_state_def)

lemma value_states:
  "value_state 23" "value_state 81" "value_state 82" "value_state 83" "value_state 84"
    "value_state 85" "value_state 86" "value_state 87" "value_state 96" "value_state 97"
        "value_state 98" "value_state 99" "value_state 100" "value_state 119"
    "\<not> value_state 0" "\<not> value_state 20" "\<not> value_state 22"
    "\<not> value_state 24" "\<not> value_state 35" "\<not> value_state 36"
    "\<not> value_state 43" "\<not> value_state 61" "\<not> value_state 62"
    "\<not> value_state 71" "\<not> value_state 80" "\<not> value_state 88"
    "\<not> value_state 95" "\<not> value_state 112" "\<not> value_state 113"
    "\<not> value_state 118"
  by (simp_all add: value_state_def)

lemmas goes_simps = goes_if goes_to goes_rtr line_state_def name_states lead_state_def value_states
  value_end_def blank_end_def last_line_def reply_token_def blank_def in_line_def

lemma reply_case_eqs:
  "reply_case 1 c = reply_case1 c"
  "reply_case 2 c = reply_case2 c"
  "reply_case 3 c = reply_case3 c"
  "reply_case 8 c = reply_case8 c"
  "reply_case 9 c = reply_case9 c"
  "reply_case 10 c = reply_case10 c"
  "reply_case 11 c = reply_case11 c"
  "reply_case 12 c = reply_case12 c"
  "reply_case 13 c = reply_case13 c"
  "reply_case 14 c = reply_case14 c"
  "reply_case 15 c = reply_case15 c"
  "reply_case 16 c = reply_case16 c"
  "reply_case 17 c = reply_case17 c"
  "reply_case 18 c = reply_case18 c"
  "reply_case 19 c = reply_case19 c"
  "reply_case 20 c = reply_case20 c"
  "reply_case 21 c = reply_case21 c"
  "reply_case 22 c = reply_case22 c"
  "reply_case 23 c = reply_case23 c"
  "reply_case 24 c = reply_case24 c"
  "reply_case 25 c = reply_case25 c"
  "reply_case 26 c = reply_case26 c"
  "reply_case 27 c = reply_case27 c"
  "reply_case 28 c = reply_case28 c"
  "reply_case 29 c = reply_case29 c"
  "reply_case 30 c = reply_case30 c"
  "reply_case 31 c = reply_case31 c"
  "reply_case 32 c = reply_case32 c"
  "reply_case 33 c = reply_case33 c"
  "reply_case 34 c = reply_case34 c"
  "reply_case 35 c = reply_case35 c"
  "reply_case 36 c = reply_case36 c"
  "reply_case 43 c = reply_case43 c"
  "reply_case 44 c = reply_case44 c"
  "reply_case 45 c = reply_case45 c"
  "reply_case 46 c = reply_case46 c"
  "reply_case 47 c = reply_case47 c"
  "reply_case 48 c = reply_case48 c"
  "reply_case 49 c = reply_case49 c"
  "reply_case 50 c = reply_case50 c"
  "reply_case 51 c = reply_case51 c"
  "reply_case 52 c = reply_case52 c"
  "reply_case 53 c = reply_case53 c"
  "reply_case 54 c = reply_case54 c"
  "reply_case 55 c = reply_case55 c"
  "reply_case 56 c = reply_case56 c"
  "reply_case 57 c = reply_case57 c"
  "reply_case 58 c = reply_case58 c"
  "reply_case 59 c = reply_case59 c"
  "reply_case 60 c = reply_case60 c"
  "reply_case 61 c = reply_case61 c"
  "reply_case 62 c = reply_case62 c"
  "reply_case 71 c = reply_case71 c"
  "reply_case 72 c = reply_case72 c"
  "reply_case 73 c = reply_case73 c"
  "reply_case 74 c = reply_case74 c"
  "reply_case 75 c = reply_case75 c"
  "reply_case 76 c = reply_case76 c"
  "reply_case 77 c = reply_case77 c"
  "reply_case 78 c = reply_case78 c"
  "reply_case 79 c = reply_case79 c"
  "reply_case 80 c = reply_case80 c"
  "reply_case 81 c = reply_case81 c"
  "reply_case 82 c = reply_case82 c"
  "reply_case 83 c = reply_case83 c"
  "reply_case 84 c = reply_case84 c"
  "reply_case 85 c = reply_case85 c"
  "reply_case 86 c = reply_case86 c"
  "reply_case 87 c = reply_case87 c"
  "reply_case 88 c = reply_case88 c"
  "reply_case 89 c = reply_case89 c"
  "reply_case 90 c = reply_case90 c"
  "reply_case 91 c = reply_case91 c"
  "reply_case 92 c = reply_case92 c"
  "reply_case 93 c = reply_case93 c"
  "reply_case 94 c = reply_case94 c"
  "reply_case 95 c = reply_case95 c"
  "reply_case 96 c = reply_case96 c"
  "reply_case 97 c = reply_case97 c"
  "reply_case 98 c = reply_case98 c"
  "reply_case 99 c = reply_case99 c"
  "reply_case 100 c = reply_case100 c"
  "reply_case 101 c = reply_case101 c"
  "reply_case 102 c = reply_case102 c"
  "reply_case 103 c = reply_case103 c"
  "reply_case 104 c = reply_case104 c"
  "reply_case 105 c = reply_case105 c"
  "reply_case 106 c = reply_case106 c"
  "reply_case 107 c = reply_case107 c"
  "reply_case 108 c = reply_case108 c"
  "reply_case 109 c = reply_case109 c"
  "reply_case 110 c = reply_case110 c"
  "reply_case 111 c = reply_case111 c"
  "reply_case 112 c = reply_case112 c"
  "reply_case 113 c = reply_case113 c"
  "reply_case 116 c = reply_case116 c"
  "reply_case 117 c = reply_case117 c"
  "reply_case 118 c = reply_case118 c"
  "reply_case 119 c = reply_case119 c"
  by (simp_all add: reply_case_def reply_cases1_def reply_cases2_def reply_cases3_def)

lemma name_cases1:
  "reply_token c \<Longrightarrow> goes (\<lambda>a t. a = [] \<and> name_state t) (reply_case21 c)"
  "reply_token c \<Longrightarrow> goes (\<lambda>a t. a = [] \<and> name_state t) (reply_case25 c)"
  "reply_token c \<Longrightarrow> goes (\<lambda>a t. a = [] \<and> name_state t) (reply_case26 c)"
  "reply_token c \<Longrightarrow> goes (\<lambda>a t. a = [] \<and> name_state t) (reply_case27 c)"
  "reply_token c \<Longrightarrow> goes (\<lambda>a t. a = [] \<and> name_state t) (reply_case28 c)"
  "reply_token c \<Longrightarrow> goes (\<lambda>a t. a = [] \<and> name_state t) (reply_case29 c)"
  "reply_token c \<Longrightarrow> goes (\<lambda>a t. a = [] \<and> name_state t) (reply_case30 c)"
  "reply_token c \<Longrightarrow> goes (\<lambda>a t. a = [] \<and> name_state t) (reply_case31 c)"
  "reply_token c \<Longrightarrow> goes (\<lambda>a t. a = [] \<and> name_state t) (reply_case32 c)"
  "reply_token c \<Longrightarrow> goes (\<lambda>a t. a = [] \<and> name_state t) (reply_case33 c)"
  "reply_token c \<Longrightarrow> goes (\<lambda>a t. a = [] \<and> name_state t) (reply_case34 c)"
  by (simp_all add: goes_simps reply_case21_def reply_case25_def reply_case26_def
    reply_case27_def reply_case28_def reply_case29_def reply_case30_def reply_case31_def
    reply_case32_def reply_case33_def reply_case34_def) presburger+

lemma name_cases2:
  "reply_token c \<Longrightarrow> goes (\<lambda>a t. a = [] \<and> name_state t) (reply_case44 c)"
  "reply_token c \<Longrightarrow> goes (\<lambda>a t. a = [] \<and> name_state t) (reply_case45 c)"
  "reply_token c \<Longrightarrow> goes (\<lambda>a t. a = [] \<and> name_state t) (reply_case46 c)"
  "reply_token c \<Longrightarrow> goes (\<lambda>a t. a = [] \<and> name_state t) (reply_case47 c)"
  "reply_token c \<Longrightarrow> goes (\<lambda>a t. a = [] \<and> name_state t) (reply_case48 c)"
  "reply_token c \<Longrightarrow> goes (\<lambda>a t. a = [] \<and> name_state t) (reply_case49 c)"
  "reply_token c \<Longrightarrow> goes (\<lambda>a t. a = [] \<and> name_state t) (reply_case50 c)"
  "reply_token c \<Longrightarrow> goes (\<lambda>a t. a = [] \<and> name_state t) (reply_case51 c)"
  "reply_token c \<Longrightarrow> goes (\<lambda>a t. a = [] \<and> name_state t) (reply_case52 c)"
  "reply_token c \<Longrightarrow> goes (\<lambda>a t. a = [] \<and> name_state t) (reply_case53 c)"
  "reply_token c \<Longrightarrow> goes (\<lambda>a t. a = [] \<and> name_state t) (reply_case54 c)"
  by (simp_all add: goes_simps reply_case44_def reply_case45_def reply_case46_def
    reply_case47_def reply_case48_def reply_case49_def reply_case50_def reply_case51_def
    reply_case52_def reply_case53_def reply_case54_def) presburger+

lemma name_cases3:
  "reply_token c \<Longrightarrow> goes (\<lambda>a t. a = [] \<and> name_state t) (reply_case55 c)"
  "reply_token c \<Longrightarrow> goes (\<lambda>a t. a = [] \<and> name_state t) (reply_case56 c)"
  "reply_token c \<Longrightarrow> goes (\<lambda>a t. a = [] \<and> name_state t) (reply_case57 c)"
  "reply_token c \<Longrightarrow> goes (\<lambda>a t. a = [] \<and> name_state t) (reply_case58 c)"
  "reply_token c \<Longrightarrow> goes (\<lambda>a t. a = [] \<and> name_state t) (reply_case59 c)"
  "reply_token c \<Longrightarrow> goes (\<lambda>a t. a = [] \<and> name_state t) (reply_case60 c)"
  "reply_token c \<Longrightarrow> goes (\<lambda>a t. a = [] \<and> name_state t) (reply_case73 c)"
  "reply_token c \<Longrightarrow> goes (\<lambda>a t. a = [] \<and> name_state t) (reply_case74 c)"
  "reply_token c \<Longrightarrow> goes (\<lambda>a t. a = [] \<and> name_state t) (reply_case75 c)"
  "reply_token c \<Longrightarrow> goes (\<lambda>a t. a = [] \<and> name_state t) (reply_case76 c)"
  "reply_token c \<Longrightarrow> goes (\<lambda>a t. a = [] \<and> name_state t) (reply_case77 c)"
  by (simp_all add: goes_simps reply_case55_def reply_case56_def reply_case57_def
    reply_case58_def reply_case59_def reply_case60_def reply_case73_def reply_case74_def
    reply_case75_def reply_case76_def reply_case77_def) presburger+

lemma name_cases4:
  "reply_token c \<Longrightarrow> goes (\<lambda>a t. a = [] \<and> name_state t) (reply_case78 c)"
  "reply_token c \<Longrightarrow> goes (\<lambda>a t. a = [] \<and> name_state t) (reply_case79 c)"
  "reply_token c \<Longrightarrow> goes (\<lambda>a t. a = [] \<and> name_state t) (reply_case90 c)"
  "reply_token c \<Longrightarrow> goes (\<lambda>a t. a = [] \<and> name_state t) (reply_case91 c)"
  "reply_token c \<Longrightarrow> goes (\<lambda>a t. a = [] \<and> name_state t) (reply_case92 c)"
  "reply_token c \<Longrightarrow> goes (\<lambda>a t. a = [] \<and> name_state t) (reply_case93 c)"
  "reply_token c \<Longrightarrow> goes (\<lambda>a t. a = [] \<and> name_state t) (reply_case94 c)"
  "reply_token c \<Longrightarrow> goes (\<lambda>a t. a = [] \<and> name_state t) (reply_case101 c)"
  "reply_token c \<Longrightarrow> goes (\<lambda>a t. a = [] \<and> name_state t) (reply_case102 c)"
  "reply_token c \<Longrightarrow> goes (\<lambda>a t. a = [] \<and> name_state t) (reply_case103 c)"
  "reply_token c \<Longrightarrow> goes (\<lambda>a t. a = [] \<and> name_state t) (reply_case104 c)"
  by (simp_all add: goes_simps reply_case78_def reply_case79_def reply_case90_def
    reply_case91_def reply_case92_def reply_case93_def reply_case94_def reply_case101_def
    reply_case102_def reply_case103_def reply_case104_def) presburger+

lemma name_cases5:
  "reply_token c \<Longrightarrow> goes (\<lambda>a t. a = [] \<and> name_state t) (reply_case105 c)"
  "reply_token c \<Longrightarrow> goes (\<lambda>a t. a = [] \<and> name_state t) (reply_case106 c)"
  "reply_token c \<Longrightarrow> goes (\<lambda>a t. a = [] \<and> name_state t) (reply_case107 c)"
  "reply_token c \<Longrightarrow> goes (\<lambda>a t. a = [] \<and> name_state t) (reply_case108 c)"
  "reply_token c \<Longrightarrow> goes (\<lambda>a t. a = [] \<and> name_state t) (reply_case109 c)"
  "reply_token c \<Longrightarrow> goes (\<lambda>a t. a = [] \<and> name_state t) (reply_case110 c)"
  "reply_token c \<Longrightarrow> goes (\<lambda>a t. a = [] \<and> name_state t) (reply_case111 c)"
  "reply_token c \<Longrightarrow> goes (\<lambda>a t. a = [] \<and> name_state t) (reply_case117 c)"
  by (simp_all add: goes_simps reply_case105_def reply_case106_def reply_case107_def
    reply_case108_def reply_case109_def reply_case110_def reply_case111_def reply_case117_def)
    presburger+

lemma colon_cases1:
  "goes (\<lambda>a t. a = [RWriteField] \<and> lead_state t) (reply_case21 58)"
  "goes (\<lambda>a t. a = [RWriteField] \<and> lead_state t) (reply_case25 58)"
  "goes (\<lambda>a t. a = [RWriteField] \<and> lead_state t) (reply_case26 58)"
  "goes (\<lambda>a t. a = [RWriteField] \<and> lead_state t) (reply_case27 58)"
  "goes (\<lambda>a t. a = [RWriteField] \<and> lead_state t) (reply_case28 58)"
  "goes (\<lambda>a t. a = [RWriteField] \<and> lead_state t) (reply_case29 58)"
  "goes (\<lambda>a t. a = [RWriteField] \<and> lead_state t) (reply_case30 58)"
  "goes (\<lambda>a t. a = [RWriteField] \<and> lead_state t) (reply_case31 58)"
  "goes (\<lambda>a t. a = [RWriteField] \<and> lead_state t) (reply_case32 58)"
  "goes (\<lambda>a t. a = [RWriteField] \<and> lead_state t) (reply_case33 58)"
  "goes (\<lambda>a t. a = [RWriteField] \<and> lead_state t) (reply_case34 58)"
  "goes (\<lambda>a t. a = [RWriteField] \<and> lead_state t) (reply_case44 58)"
  "goes (\<lambda>a t. a = [RWriteField] \<and> lead_state t) (reply_case45 58)"
  "goes (\<lambda>a t. a = [RWriteField] \<and> lead_state t) (reply_case46 58)"
  by (simp_all add: goes_simps reply_case21_def reply_case25_def reply_case26_def
    reply_case27_def reply_case28_def reply_case29_def reply_case30_def reply_case31_def
    reply_case32_def reply_case33_def reply_case34_def reply_case44_def reply_case45_def
    reply_case46_def)

lemma colon_cases2:
  "goes (\<lambda>a t. a = [RWriteField] \<and> lead_state t) (reply_case47 58)"
  "goes (\<lambda>a t. a = [RWriteField] \<and> lead_state t) (reply_case48 58)"
  "goes (\<lambda>a t. a = [RWriteField] \<and> lead_state t) (reply_case49 58)"
  "goes (\<lambda>a t. a = [RWriteField] \<and> lead_state t) (reply_case50 58)"
  "goes (\<lambda>a t. a = [RWriteField] \<and> lead_state t) (reply_case51 58)"
  "goes (\<lambda>a t. a = [RWriteField] \<and> lead_state t) (reply_case52 58)"
  "goes (\<lambda>a t. a = [RWriteField] \<and> lead_state t) (reply_case53 58)"
  "goes (\<lambda>a t. a = [RWriteField] \<and> lead_state t) (reply_case54 58)"
  "goes (\<lambda>a t. a = [RWriteField] \<and> lead_state t) (reply_case55 58)"
  "goes (\<lambda>a t. a = [RWriteField] \<and> lead_state t) (reply_case56 58)"
  "goes (\<lambda>a t. a = [RWriteField] \<and> lead_state t) (reply_case57 58)"
  "goes (\<lambda>a t. a = [RWriteField] \<and> lead_state t) (reply_case58 58)"
  "goes (\<lambda>a t. a = [RWriteField] \<and> lead_state t) (reply_case59 58)"
  "goes (\<lambda>a t. a = [RWriteField] \<and> lead_state t) (reply_case60 58)"
  by (simp_all add: goes_simps reply_case47_def reply_case48_def reply_case49_def
    reply_case50_def reply_case51_def reply_case52_def reply_case53_def reply_case54_def
    reply_case55_def reply_case56_def reply_case57_def reply_case58_def reply_case59_def
    reply_case60_def)

lemma colon_cases3:
  "goes (\<lambda>a t. a = [RWriteField] \<and> lead_state t) (reply_case73 58)"
  "goes (\<lambda>a t. a = [RWriteField] \<and> lead_state t) (reply_case74 58)"
  "goes (\<lambda>a t. a = [RWriteField] \<and> lead_state t) (reply_case75 58)"
  "goes (\<lambda>a t. a = [RWriteField] \<and> lead_state t) (reply_case76 58)"
  "goes (\<lambda>a t. a = [RWriteField] \<and> lead_state t) (reply_case77 58)"
  "goes (\<lambda>a t. a = [RWriteField] \<and> lead_state t) (reply_case78 58)"
  "goes (\<lambda>a t. a = [RWriteField] \<and> lead_state t) (reply_case79 58)"
  "goes (\<lambda>a t. a = [RWriteField] \<and> lead_state t) (reply_case90 58)"
  "goes (\<lambda>a t. a = [RWriteField] \<and> lead_state t) (reply_case91 58)"
  "goes (\<lambda>a t. a = [RWriteField] \<and> lead_state t) (reply_case92 58)"
  "goes (\<lambda>a t. a = [RWriteField] \<and> lead_state t) (reply_case93 58)"
  "goes (\<lambda>a t. a = [RWriteField] \<and> lead_state t) (reply_case94 58)"
  "goes (\<lambda>a t. a = [RWriteField] \<and> lead_state t) (reply_case101 58)"
  "goes (\<lambda>a t. a = [RWriteField] \<and> lead_state t) (reply_case102 58)"
  by (simp_all add: goes_simps reply_case73_def reply_case74_def reply_case75_def
    reply_case76_def reply_case77_def reply_case78_def reply_case79_def reply_case90_def
    reply_case91_def reply_case92_def reply_case93_def reply_case94_def reply_case101_def
    reply_case102_def)

lemma colon_cases4:
  "goes (\<lambda>a t. a = [RWriteField] \<and> lead_state t) (reply_case103 58)"
  "goes (\<lambda>a t. a = [RWriteField] \<and> lead_state t) (reply_case104 58)"
  "goes (\<lambda>a t. a = [RWriteField] \<and> lead_state t) (reply_case105 58)"
  "goes (\<lambda>a t. a = [RWriteField] \<and> lead_state t) (reply_case106 58)"
  "goes (\<lambda>a t. a = [RWriteField] \<and> lead_state t) (reply_case107 58)"
  "goes (\<lambda>a t. a = [RWriteField] \<and> lead_state t) (reply_case108 58)"
  "goes (\<lambda>a t. a = [RWriteField] \<and> lead_state t) (reply_case109 58)"
  "goes (\<lambda>a t. a = [RWriteField] \<and> lead_state t) (reply_case110 58)"
  "goes (\<lambda>a t. a = [RWriteField] \<and> lead_state t) (reply_case111 58)"
  "goes (\<lambda>a t. a = [RWriteField] \<and> lead_state t) (reply_case117 58)"
  by (simp_all add: goes_simps reply_case103_def reply_case104_def reply_case105_def
    reply_case106_def reply_case107_def reply_case108_def reply_case109_def reply_case110_def
    reply_case111_def reply_case117_def)

lemma line_name_cases:
  "reply_token c \<Longrightarrow> goes (\<lambda>a t. (a = [RStartField] \<or> a = [RClose, RStartField] \<or> a = [RStartValue, RStartField]) \<and> name_state t) (reply_case20 c)"
  "reply_token c \<Longrightarrow> goes (\<lambda>a t. (a = [RStartField] \<or> a = [RClose, RStartField] \<or> a = [RStartValue, RStartField]) \<and> name_state t) (reply_case36 c)"
  "reply_token c \<Longrightarrow> goes (\<lambda>a t. (a = [RStartField] \<or> a = [RClose, RStartField] \<or> a = [RStartValue, RStartField]) \<and> name_state t) (reply_case43 c)"
  "reply_token c \<Longrightarrow> goes (\<lambda>a t. (a = [RStartField] \<or> a = [RClose, RStartField] \<or> a = [RStartValue, RStartField]) \<and> name_state t) (reply_case62 c)"
  "reply_token c \<Longrightarrow> goes (\<lambda>a t. (a = [RStartField] \<or> a = [RClose, RStartField] \<or> a = [RStartValue, RStartField]) \<and> name_state t) (reply_case113 c)"
  by (simp_all add: goes_simps reply_case20_def reply_case36_def reply_case43_def
    reply_case62_def reply_case113_def) presburger+

lemma line_cr_cases:
  "goes (\<lambda>a t. (a = [] \<or> a = [RClose]) \<and> last_line t) (reply_case20 13)"
  "goes (\<lambda>a t. (a = [] \<or> a = [RClose]) \<and> last_line t) (reply_case36 13)"
  "goes (\<lambda>a t. (a = [] \<or> a = [RClose]) \<and> last_line t) (reply_case43 13)"
  "goes (\<lambda>a t. (a = [] \<or> a = [RClose]) \<and> last_line t) (reply_case62 13)"
  "goes (\<lambda>a t. (a = [] \<or> a = [RClose]) \<and> last_line t) (reply_case113 13)"
  by (simp_all add: goes_simps reply_case20_def reply_case36_def reply_case43_def
    reply_case62_def reply_case113_def)

lemma last_lf_cases:
  "goes (\<lambda>a t. a = [RDone] \<and> 120 \<le> t) (reply_case3 10)"
  "goes (\<lambda>a t. a = [RDone] \<and> 120 \<le> t) (reply_case89 10)"
  "goes (\<lambda>a t. a = [RDone] \<and> 120 \<le> t) (reply_case72 10)"
  "goes (\<lambda>a t. a = [RDone] \<and> 120 \<le> t) (reply_case116 10)"
  by (simp_all add: goes_simps reply_case3_def reply_case89_def reply_case72_def
    reply_case116_def)

lemma lead_value_cases:
  "in_line c \<Longrightarrow> \<not> blank c \<Longrightarrow> goes (\<lambda>a t. a = [RStartValue] \<and> value_state t) (reply_case22 c)"
  "in_line c \<Longrightarrow> \<not> blank c \<Longrightarrow> goes (\<lambda>a t. a = [RStartValue] \<and> value_state t) (reply_case35 c)"
  "in_line c \<Longrightarrow> \<not> blank c \<Longrightarrow> goes (\<lambda>a t. a = [RStartValue] \<and> value_state t) (reply_case61 c)"
  "in_line c \<Longrightarrow> \<not> blank c \<Longrightarrow> goes (\<lambda>a t. a = [RStartValue] \<and> value_state t) (reply_case112 c)"
  by (simp_all add: goes_simps reply_case22_def reply_case35_def reply_case61_def
    reply_case112_def)

lemma lead_cr_cases:
  "goes (\<lambda>a t. a = [RStartValue, RWriteValue] \<and> blank_end t) (reply_case22 13)"
  "goes (\<lambda>a t. a = [RStartValue, RWriteValue] \<and> blank_end t) (reply_case35 13)"
  "goes (\<lambda>a t. a = [RStartValue, RWriteValue] \<and> blank_end t) (reply_case61 13)"
  "goes (\<lambda>a t. a = [RStartValue, RWriteValue] \<and> blank_end t) (reply_case112 13)"
  by (simp_all add: goes_simps reply_case22_def reply_case35_def reply_case61_def
    reply_case112_def)

lemma value_value_cases:
  "in_line c \<Longrightarrow> goes (\<lambda>a t. a = [] \<and> value_state t) (reply_case23 c)"
  "in_line c \<Longrightarrow> goes (\<lambda>a t. a = [] \<and> value_state t) (reply_case81 c)"
  "in_line c \<Longrightarrow> goes (\<lambda>a t. a = [] \<and> value_state t) (reply_case82 c)"
  "in_line c \<Longrightarrow> goes (\<lambda>a t. a = [] \<and> value_state t) (reply_case83 c)"
  "in_line c \<Longrightarrow> goes (\<lambda>a t. a = [] \<and> value_state t) (reply_case84 c)"
  "in_line c \<Longrightarrow> goes (\<lambda>a t. a = [] \<and> value_state t) (reply_case85 c)"
  "in_line c \<Longrightarrow> goes (\<lambda>a t. a = [] \<and> value_state t) (reply_case86 c)"
  "in_line c \<Longrightarrow> goes (\<lambda>a t. a = [] \<and> value_state t) (reply_case87 c)"
  "in_line c \<Longrightarrow> goes (\<lambda>a t. a = [] \<and> value_state t) (reply_case96 c)"
  "in_line c \<Longrightarrow> goes (\<lambda>a t. a = [] \<and> value_state t) (reply_case97 c)"
  "in_line c \<Longrightarrow> goes (\<lambda>a t. a = [] \<and> value_state t) (reply_case98 c)"
  "in_line c \<Longrightarrow> goes (\<lambda>a t. a = [] \<and> value_state t) (reply_case99 c)"
  "in_line c \<Longrightarrow> goes (\<lambda>a t. a = [] \<and> value_state t) (reply_case100 c)"
  "in_line c \<Longrightarrow> goes (\<lambda>a t. a = [] \<and> value_state t) (reply_case119 c)"
  by (simp_all add: goes_simps reply_case23_def reply_case81_def reply_case82_def
    reply_case83_def reply_case84_def reply_case85_def reply_case86_def reply_case87_def
    reply_case96_def reply_case97_def reply_case98_def reply_case99_def reply_case100_def
    reply_case119_def)

lemma value_cr_cases:
  "goes (\<lambda>a t. (a = [RWriteValue] \<or> a = [RContentLen, RWriteValue]) \<and> value_end t) (reply_case23 13)"
  "goes (\<lambda>a t. (a = [RWriteValue] \<or> a = [RContentLen, RWriteValue]) \<and> value_end t) (reply_case81 13)"
  "goes (\<lambda>a t. (a = [RWriteValue] \<or> a = [RContentLen, RWriteValue]) \<and> value_end t) (reply_case82 13)"
  "goes (\<lambda>a t. (a = [RWriteValue] \<or> a = [RContentLen, RWriteValue]) \<and> value_end t) (reply_case83 13)"
  "goes (\<lambda>a t. (a = [RWriteValue] \<or> a = [RContentLen, RWriteValue]) \<and> value_end t) (reply_case84 13)"
  "goes (\<lambda>a t. (a = [RWriteValue] \<or> a = [RContentLen, RWriteValue]) \<and> value_end t) (reply_case85 13)"
  "goes (\<lambda>a t. (a = [RWriteValue] \<or> a = [RContentLen, RWriteValue]) \<and> value_end t) (reply_case86 13)"
  "goes (\<lambda>a t. (a = [RWriteValue] \<or> a = [RContentLen, RWriteValue]) \<and> value_end t) (reply_case87 13)"
  "goes (\<lambda>a t. (a = [RWriteValue] \<or> a = [RContentLen, RWriteValue]) \<and> value_end t) (reply_case96 13)"
  "goes (\<lambda>a t. (a = [RWriteValue] \<or> a = [RContentLen, RWriteValue]) \<and> value_end t) (reply_case97 13)"
  "goes (\<lambda>a t. (a = [RWriteValue] \<or> a = [RContentLen, RWriteValue]) \<and> value_end t) (reply_case98 13)"
  "goes (\<lambda>a t. (a = [RWriteValue] \<or> a = [RContentLen, RWriteValue]) \<and> value_end t) (reply_case99 13)"
  "goes (\<lambda>a t. (a = [RWriteValue] \<or> a = [RContentLen, RWriteValue]) \<and> value_end t) (reply_case100 13)"
  "goes (\<lambda>a t. (a = [RWriteValue] \<or> a = [RContentLen, RWriteValue]) \<and> value_end t) (reply_case119 13)"
  by (simp_all add: goes_simps reply_case23_def reply_case81_def reply_case82_def
    reply_case83_def reply_case84_def reply_case85_def reply_case86_def reply_case87_def
    reply_case96_def reply_case97_def reply_case98_def reply_case99_def reply_case100_def
    reply_case119_def)

lemma value_lf_cases:
  "goes (\<lambda>a t. (a = [] \<or> a = [RChunked]) \<and> (t = 20 \<or> t = 43)) (reply_case24 10)"
  "goes (\<lambda>a t. (a = [] \<or> a = [RChunked]) \<and> (t = 20 \<or> t = 43)) (reply_case71 10)"
  "goes (\<lambda>a t. (a = [] \<or> a = [RChunked]) \<and> (t = 20 \<or> t = 43)) (reply_case88 10)"
  by (simp_all add: goes_simps reply_case24_def reply_case71_def reply_case88_def)

lemma blank_lf_cases:
  "goes (\<lambda>a t. a = [] \<and> line_state t) (reply_case24 10)"
  "goes (\<lambda>a t. a = [] \<and> line_state t) (reply_case95 10)"
  "goes (\<lambda>a t. a = [] \<and> line_state t) (reply_case80 10)"
  "goes (\<lambda>a t. a = [] \<and> line_state t) (reply_case118 10)"
  by (simp_all add: goes_simps reply_case24_def reply_case95_def reply_case80_def
    reply_case118_def)

lemma lead_blank_cases:
  "blank c \<Longrightarrow> goes (\<lambda>a t. a = [RStartValue] \<and> t = 22) (reply_case22 c)"
  "blank c \<Longrightarrow> goes (\<lambda>a t. a = [RStartValue] \<and> t = 35) (reply_case35 c)"
  "blank c \<Longrightarrow> goes (\<lambda>a t. a = [RStartValue] \<and> t = 61) (reply_case61 c)"
  "blank c \<Longrightarrow> goes (\<lambda>a t. a = [RStartValue] \<and> t = 112) (reply_case112 c)"
  by (simp_all add: goes_simps reply_case22_def reply_case35_def reply_case61_def
    reply_case112_def) presburger+

section \<open>Steps of the positions\<close>

lemma name_move:
  "name_state n \<Longrightarrow> reply_token c \<Longrightarrow> goes (\<lambda>a t. a = [] \<and> name_state t) (reply_case n c)"
  by (drule iffD1 [OF name_state_def], elim insertE emptyE disjE) (simp_all only:
    reply_case_eqs not_False_eq_True name_cases1 name_cases2 name_cases3 name_cases4
    name_cases5)

lemma colon_move:
  "name_state n \<Longrightarrow> goes (\<lambda>a t. a = [RWriteField] \<and> lead_state t) (reply_case n 58)"
  by (drule iffD1 [OF name_state_def], elim insertE emptyE disjE) (simp_all only:
    reply_case_eqs not_False_eq_True colon_cases1 colon_cases2 colon_cases3 colon_cases4)

lemma line_name_move:
  "line_state n \<Longrightarrow> reply_token c \<Longrightarrow> goes (\<lambda>a t. (a = [RStartField] \<or> a = [RClose, RStartField] \<or> a = [RStartValue, RStartField]) \<and> name_state t) (reply_case n c)"
  by (drule iffD1 [OF line_state_def], elim insertE emptyE disjE) (simp_all only:
    reply_case_eqs not_False_eq_True line_name_cases)

lemma line_cr_move:
  "line_state n \<Longrightarrow> goes (\<lambda>a t. (a = [] \<or> a = [RClose]) \<and> last_line t) (reply_case n 13)"
  by (drule iffD1 [OF line_state_def], elim insertE emptyE disjE) (simp_all only:
    reply_case_eqs not_False_eq_True line_cr_cases)

lemma last_lf_move:
  "last_line n \<Longrightarrow> goes (\<lambda>a t. a = [RDone] \<and> 120 \<le> t) (reply_case n 10)"
  by (drule iffD1 [OF last_line_def], elim insertE emptyE disjE) (simp_all only: reply_case_eqs
    not_False_eq_True last_lf_cases)

lemma lead_value_move:
  "lead_state n \<Longrightarrow> in_line c \<Longrightarrow> \<not> blank c \<Longrightarrow> goes (\<lambda>a t. a = [RStartValue] \<and> value_state t) (reply_case n c)"
  by (drule iffD1 [OF lead_state_def], elim insertE emptyE disjE) (simp_all only:
    reply_case_eqs not_False_eq_True lead_value_cases)

lemma lead_cr_move:
  "lead_state n \<Longrightarrow> goes (\<lambda>a t. a = [RStartValue, RWriteValue] \<and> blank_end t) (reply_case n 13)"
  by (drule iffD1 [OF lead_state_def], elim insertE emptyE disjE) (simp_all only:
    reply_case_eqs not_False_eq_True lead_cr_cases)

lemma value_value_move:
  "value_state n \<Longrightarrow> in_line c \<Longrightarrow> goes (\<lambda>a t. a = [] \<and> value_state t) (reply_case n c)"
  by (drule iffD1 [OF value_state_def], elim insertE emptyE disjE) (simp_all only:
    reply_case_eqs not_False_eq_True value_value_cases)

lemma value_cr_move:
  "value_state n \<Longrightarrow> goes (\<lambda>a t. (a = [RWriteValue] \<or> a = [RContentLen, RWriteValue]) \<and> value_end t) (reply_case n 13)"
  by (drule iffD1 [OF value_state_def], elim insertE emptyE disjE) (simp_all only:
    reply_case_eqs not_False_eq_True value_cr_cases)

lemma value_lf_move:
  "value_end n \<Longrightarrow> goes (\<lambda>a t. (a = [] \<or> a = [RChunked]) \<and> (t = 20 \<or> t = 43)) (reply_case n 10)"
  by (drule iffD1 [OF value_end_def], elim insertE emptyE disjE) (simp_all only: reply_case_eqs
    not_False_eq_True value_lf_cases)

lemma blank_lf_move:
  "blank_end n \<Longrightarrow> goes (\<lambda>a t. a = [] \<and> line_state t) (reply_case n 10)"
  by (drule iffD1 [OF blank_end_def], elim insertE emptyE disjE) (simp_all only: reply_case_eqs
    not_False_eq_True blank_lf_cases)

lemma lead_blank_move:
  "lead_state n \<Longrightarrow> blank c \<Longrightarrow> goes (\<lambda>a t. a = [RStartValue] \<and> t = n) (reply_case n c)"
  by (drule iffD1 [OF lead_state_def], elim insertE emptyE disjE) (simp_all only:
    reply_case_eqs not_False_eq_True lead_blank_cases)

end
