(* ===== verification/ReplyGrammar.thy ===== *)
theory ReplyGrammar
  imports ReplySteps
begin

text \<open>
  What \<open>httpclient_parser_execute\<close> does with a response and with a chunk header. As for
  requests the texts are written down, the emitted events are read back as pieces of the
  input, and each segment has a lemma that takes the loop across it; the lemmas speak of
  positions in place of states.
\<close>

section \<open>Reading the events\<close>

datatype reply_item = ReplyItem reply_hook bytes | ReplyFieldItem bytes bytes | ReplyWild

fun reply_item_of :: "bytes \<Rightarrow> reply_event \<Rightarrow> reply_item" where
  "reply_item_of buffer (ReplyElement h at len) =
     (if fits buffer at len then ReplyItem h (piece buffer at len) else ReplyWild)"
| "reply_item_of buffer (ReplyField f flen v vlen) =
     (if fits buffer f flen \<and> fits buffer v vlen
      then ReplyFieldItem (piece buffer f flen) (piece buffer v vlen) else ReplyWild)"

definition reply_items :: "bytes \<Rightarrow> httpclient_parser \<Rightarrow> reply_item list" where
  "reply_items buffer m = map (reply_item_of buffer) (cl_emitted m)"

definition reply_all_hooks :: "httpclient_parser \<Rightarrow> bool" where
  "reply_all_hooks m \<longleftrightarrow> (\<forall>h. h \<in> set (cl_hooks m))"

text \<open>What a segment of the headers leaves alone.\<close>

definition reply_frame :: "httpclient_parser \<Rightarrow> httpclient_parser \<Rightarrow> bool" where
  "reply_frame m m' \<longleftrightarrow> cl_hooks m' = cl_hooks m \<and> cl_body_start m' = cl_body_start m \<and> cl_status m' = cl_status m"

lemma reply_frame_trans: "reply_frame m m1 \<Longrightarrow> reply_frame m1 m2 \<Longrightarrow> reply_frame m m2"
  by (simp add: reply_frame_def)

lemmas reply_act_defs = reply_act_def reply_element_def reply_emit_def performs_def rbreaks_def

section \<open>Steps and loops\<close>

lemma goes_step: "goes P (reply_case n (schar ch)) \<Longrightarrow> \<exists>a t. reply_step n ch = (a, t) \<and> P a t"
  by (cases "reply_case n (schar ch)") (simp add: goes_def reply_step_def)

lemma reply_run_step:
  "reply_step n ch = (acts, t) \<Longrightarrow> reply_valid n \<Longrightarrow> t \<noteq> 0 \<Longrightarrow> \<not> performs rbreaks acts \<Longrightarrow>
     reply_loop buffer p (ch # x) n m = reply_loop buffer (p + 1) x t (fold (reply_act buffer p) acts m)"
  by simp

lemma position_valid:
  "line_state n \<Longrightarrow> reply_valid n" "name_state n \<Longrightarrow> reply_valid n" "lead_state n \<Longrightarrow> reply_valid n"
  "value_state n \<Longrightarrow> reply_valid n" "value_end n \<Longrightarrow> reply_valid n" "blank_end n \<Longrightarrow> reply_valid n"
  "last_line n \<Longrightarrow> reply_valid n"
  by (auto simp: reply_valid_def line_state_def name_state_def lead_state_def value_state_def
      value_end_def blank_end_def last_line_def)

lemma position_nonzero:
  "line_state n \<Longrightarrow> n \<noteq> 0" "name_state n \<Longrightarrow> n \<noteq> 0" "lead_state n \<Longrightarrow> n \<noteq> 0" "value_state n \<Longrightarrow> n \<noteq> 0"
  "value_end n \<Longrightarrow> n \<noteq> 0" "blank_end n \<Longrightarrow> n \<noteq> 0" "last_line n \<Longrightarrow> n \<noteq> 0"
  using position_valid [of n] by (auto simp: reply_valid_def)

text \<open>A run of characters that keep the position and perform nothing.\<close>

lemma run_stay:
  assumes "\<And>n. Q n \<Longrightarrow> reply_valid n" and "\<And>n. Q n \<Longrightarrow> n \<noteq> 0"
    and "\<And>n ch. Q n \<Longrightarrow> C ch \<Longrightarrow> goes (\<lambda>a t. a = [] \<and> Q t) (reply_case n (schar ch))"
  shows "Q n \<Longrightarrow> \<forall>ch \<in> set s. C ch \<Longrightarrow>
     \<exists>n'. Q n' \<and> reply_loop buffer p (s @ x) n m = reply_loop buffer (p + length s) x n' m"
proof (induction s arbitrary: n p)
  case (Cons ch s)
  obtain t where t: "reply_step n ch = ([], t)" "Q t"
    using goes_step [OF assms(3) [OF Cons.prems(1)]] Cons.prems(2) by fastforce
  from Cons.IH [OF t(2), of "p + 1"] Cons.prems(2) obtain n' where
    "Q n'" "reply_loop buffer (p + 1) (s @ x) t m = reply_loop buffer (p + 1 + length s) x n' m" by auto
  with t assms(1) [OF Cons.prems(1)] assms(2) [OF t(2)] show ?case by (auto simp: performs_def)
qed auto

lemma run_names:
  "name_state n \<Longrightarrow> \<forall>ch \<in> set s. reply_token (schar ch) \<Longrightarrow>
     \<exists>n'. name_state n' \<and> reply_loop buffer p (s @ x) n m = reply_loop buffer (p + length s) x n' m"
  by (rule run_stay [where C = "\<lambda>ch. reply_token (schar ch)"])
     (erule position_valid position_nonzero name_move, assumption?)+

lemma run_values:
  "value_state n \<Longrightarrow> \<forall>ch \<in> set s. in_line (schar ch) \<Longrightarrow>
     \<exists>n'. value_state n' \<and> reply_loop buffer p (s @ x) n m = reply_loop buffer (p + length s) x n' m"
  by (rule run_stay [where C = "\<lambda>ch. in_line (schar ch)"])
     (erule position_valid position_nonzero value_value_move, assumption?)+

text \<open>The two characters of a line end.\<close>

lemma cr_step: "goes P (reply_case n 13) \<Longrightarrow> \<exists>a t. reply_step n CHR 0x0D = (a, t) \<and> P a t"
  using goes_step [of P n "CHR 0x0D"] by (simp add: schar_def)

lemma lf_step: "goes P (reply_case n 10) \<Longrightarrow> \<exists>a t. reply_step n CHR 0x0A = (a, t) \<and> P a t"
  using goes_step [of P n "CHR 0x0A"] by (simp add: schar_def)

section \<open>The segments of a response\<close>

lemma seg_name:
  assumes "line_state n" and "s \<noteq> []" and "\<forall>ch \<in> set s. reply_token (schar ch)"
  shows "\<exists>n' m'. lead_state n' \<and> reply_frame m m' \<and> cl_emitted m' = cl_emitted m
     \<and> cl_field_start m' = p \<and> cl_field_len m' = length s
     \<and> reply_loop buffer p (s @ '':'' @ x) n m = reply_loop buffer (p + length s + 1) x n' m'"
proof -
  obtain ch u where s: "s = ch # u" using assms(2) by (cases s) auto
  obtain acts t where a: "reply_step n ch = (acts, t)" "name_state t"
      "acts = [RStartField] \<or> acts = [RClose, RStartField] \<or> acts = [RStartValue, RStartField]"
    using goes_step [OF line_name_move [OF assms(1), of "schar ch"]] assms(3) s by auto
  define m1 where "m1 = fold (reply_act buffer p) acts m"
  have m1: "reply_frame m m1" "cl_emitted m1 = cl_emitted m" "cl_field_start m1 = p"
    using a(3) by (auto simp: m1_def reply_act_def reply_frame_def)
  have "\<not> performs rbreaks acts" using a(3) by (auto simp: performs_def rbreaks_def)
  with a position_valid(1) [OF assms(1)] position_nonzero(2) [OF a(2)] s
  have 1: "reply_loop buffer p (s @ '':'' @ x) n m = reply_loop buffer (p + 1) (u @ '':'' @ x) t m1"
    by (simp add: m1_def)
  obtain k where k: "name_state k"
      "reply_loop buffer (p + 1) (u @ '':'' @ x) t m1 = reply_loop buffer (p + 1 + length u) ('':'' @ x) k m1"
    using run_names [OF a(2)] assms(3) s by (metis list.set_intros(2))
  have "schar CHR '':'' = 58" by (simp add: schar_def)
  then obtain n' where n': "reply_step k CHR '':'' = ([RWriteField], n')" "lead_state n'"
    using goes_step [of _ k "CHR '':''"] colon_move [OF k(1)] by fastforce
  define m2 where "m2 = m1\<lparr>cl_field_len := length s\<rparr>"
  have "reply_loop buffer (p + 1 + length u) ('':'' @ x) k m1 = reply_loop buffer (p + length s + 1) x n' m2"
    using n' position_valid(2) [OF k(1)] position_nonzero(3) [OF n'(2)] m1(3) s
    by (simp add: performs_def rbreaks_def reply_act_def m2_def)
  with 1 k(2) n'(2) m1 show ?thesis by (intro exI [of _ n'] exI [of _ m2]) (simp add: m2_def reply_frame_def)
qed

lemma run_blanks:
  "lead_state n \<Longrightarrow> \<forall>ch \<in> set s. blank (schar ch) \<Longrightarrow>
     \<exists>k. reply_loop buffer p (s @ x) n m = reply_loop buffer (p + length s) x n (m\<lparr>cl_mark := k\<rparr>)"
proof (induction s arbitrary: p m)
  case Nil
  show ?case by (rule exI [of _ "cl_mark m"]) simp
next
  case (Cons ch s)
  have "reply_step n ch = ([RStartValue], n)"
    using goes_step [OF lead_blank_move [OF Cons.prems(1)]] Cons.prems(2) by fastforce
  with Cons.prems position_valid(3) [OF Cons.prems(1)] position_nonzero(3) [OF Cons.prems(1)]
  have "reply_loop buffer p ((ch # s) @ x) n m = reply_loop buffer (p + 1) (s @ x) n (m\<lparr>cl_mark := p\<rparr>)"
    by (simp add: performs_def rbreaks_def reply_act_def)
  with Cons.IH [of "p + 1" "m\<lparr>cl_mark := p\<rparr>"] Cons.prems show ?case by auto
qed

lemma seg_value:
  assumes "lead_state n" and "v \<noteq> []" and "\<not> blank (schar (hd v))" and "\<forall>ch \<in> set v. in_line (schar ch)"
    and "reply_all_hooks m"
  shows "\<exists>n' m'. n' \<in> {20, 43} \<and> reply_frame m m'
     \<and> cl_emitted m' = cl_emitted m @ [ReplyField (cl_field_start m) (cl_field_len m) p (length v)]
     \<and> reply_loop buffer p (v @ crlf @ x) n m = reply_loop buffer (p + length v + 2) x n' m'"
proof -
  obtain ch u where v: "v = ch # u" using assms(2) by (cases v) auto
  obtain t where t: "reply_step n ch = ([RStartValue], t)" "value_state t"
    using goes_step [OF lead_value_move [OF assms(1), of "schar ch"]] assms(3,4) v by fastforce
  define m1 where "m1 = m\<lparr>cl_mark := p\<rparr>"
  have 1: "reply_loop buffer p (v @ crlf @ x) n m = reply_loop buffer (p + 1) (u @ crlf @ x) t m1"
    using t position_valid(3) [OF assms(1)] position_nonzero(4) [OF t(2)] v
    by (simp add: performs_def rbreaks_def reply_act_def m1_def)
  obtain k where k: "value_state k"
      "reply_loop buffer (p + 1) (u @ crlf @ x) t m1 = reply_loop buffer (p + length v) (crlf @ x) k m1"
    using run_values [OF t(2), of u buffer "p + 1" "crlf @ x" m1] assms(4) v by auto
  obtain acts e where e: "reply_step k CHR 0x0D = (acts, e)" "value_end e"
      "acts = [RWriteValue] \<or> acts = [RContentLen, RWriteValue]"
    using cr_step [OF value_cr_move [OF k(1)]] by blast
  obtain acts2 n' where n': "reply_step e CHR 0x0A = (acts2, n')" "n' = 20 \<or> n' = 43"
      "acts2 = [] \<or> acts2 = [RChunked]"
    using lf_step [OF value_lf_move [OF e(2)]] by blast
  define m2 where "m2 = fold (reply_act buffer (p + length v + 1)) acts2 (fold (reply_act buffer (p + length v)) acts m1)"
  have "\<not> performs rbreaks acts" "\<not> performs rbreaks acts2"
    using e(3) n'(3) by (auto simp: performs_def rbreaks_def)
  then have "reply_loop buffer (p + length v) (crlf @ x) k m1 = reply_loop buffer (p + length v + 2) x n' m2"
    using e n' position_valid(4) [OF k(1)] position_valid(5) [OF e(2)] position_nonzero(5) [OF e(2)]
    by (auto simp: crlf_def m2_def)
  moreover have "reply_frame m m2" "cl_emitted m2 = cl_emitted m
      @ [ReplyField (cl_field_start m) (cl_field_len m) p (length v)]"
    using e(3) n'(3) assms(5)
    by (auto simp: m2_def m1_def reply_act_defs reply_frame_def reply_all_hooks_def)
  ultimately show ?thesis using 1 k(2) n'(2) by auto
qed

lemma seg_empty:
  assumes "lead_state n" and "reply_all_hooks m"
  shows "\<exists>n' m'. line_state n' \<and> reply_frame m m'
     \<and> cl_emitted m' = cl_emitted m @ [ReplyField (cl_field_start m) (cl_field_len m) p 0]
     \<and> reply_loop buffer p (crlf @ x) n m = reply_loop buffer (p + 2) x n' m'"
proof -
  obtain e where e: "reply_step n CHR 0x0D = ([RStartValue, RWriteValue], e)" "blank_end e"
    using cr_step [OF lead_cr_move [OF assms(1)]] by blast
  obtain n' where n': "reply_step e CHR 0x0A = ([], n')" "line_state n'"
    using lf_step [OF blank_lf_move [OF e(2)]] by blast
  define m1 where "m1 = fold (reply_act buffer p) [RStartValue, RWriteValue] m"
  have "reply_loop buffer p (crlf @ x) n m = reply_loop buffer (p + 2) x n' m1"
    using e n' position_valid(3) [OF assms(1)] position_valid(6) [OF e(2)] position_nonzero(6) [OF e(2)]
      position_nonzero(1) [OF n'(2)]
    by (simp add: crlf_def performs_def rbreaks_def m1_def)
  moreover have "reply_frame m m1" "cl_emitted m1 = cl_emitted m
      @ [ReplyField (cl_field_start m) (cl_field_len m) p 0]"
    using assms(2) by (simp_all add: m1_def reply_act_defs reply_frame_def reply_all_hooks_def)
  ultimately show ?thesis using n'(2) by blast
qed

section \<open>A header line\<close>

text \<open>Name, colon, blanks, value.\<close>

type_synonym reply_header = "bytes \<times> bytes \<times> bytes"

definition reply_header_text :: "reply_header \<Rightarrow> bytes" where
  "reply_header_text h = (case h of (s, b, v) \<Rightarrow> s @ '':'' @ b @ v @ crlf)"

definition reply_header_ok :: "reply_header \<Rightarrow> bool" where
  "reply_header_ok h \<longleftrightarrow> (case h of (s, b, v) \<Rightarrow> s \<noteq> [] \<and> (\<forall>ch \<in> set s. reply_token (schar ch))
     \<and> (\<forall>ch \<in> set b. blank (schar ch)) \<and> (\<forall>ch \<in> set v. in_line (schar ch))
     \<and> (v \<noteq> [] \<longrightarrow> \<not> blank (schar (hd v))))"

definition reply_header_item :: "reply_header \<Rightarrow> reply_item" where
  "reply_header_item h = (case h of (s, b, v) \<Rightarrow> ReplyFieldItem s v)"

text \<open>The control state behind a line depends on whether the value was empty.\<close>

definition behind_line :: "reply_header \<Rightarrow> nat \<Rightarrow> bool" where
  "behind_line h n \<longleftrightarrow> line_state n \<and> (snd (snd h) \<noteq> [] \<longrightarrow> n \<in> {20, 43})"

lemma seg_value_or_empty:
  assumes "lead_state n" and "\<forall>ch \<in> set v. in_line (schar ch)" and "v \<noteq> [] \<longrightarrow> \<not> blank (schar (hd v))"
    and "reply_all_hooks m"
  shows "\<exists>n' m'. line_state n' \<and> (v \<noteq> [] \<longrightarrow> n' \<in> {20, 43}) \<and> reply_frame m m'
     \<and> cl_emitted m' = cl_emitted m @ [ReplyField (cl_field_start m) (cl_field_len m) p (length v)]
     \<and> reply_loop buffer p (v @ crlf @ x) n m = reply_loop buffer (p + length v + 2) x n' m'"
proof (cases "v = []")
  case True
  then show ?thesis using seg_empty [OF assms(1,4), of p buffer x] by simp
next
  case False
  have "line_state n'" if "n' \<in> {20, 43}" for n' using that by (auto simp: line_state_def)
  with False show ?thesis using seg_value [OF assms(1) False _ assms(2,4), of p buffer x] assms(3) by blast
qed

lemma reply_frame_hooks: "reply_frame m m' \<Longrightarrow> reply_all_hooks m' = reply_all_hooks m"
  by (simp add: reply_frame_def reply_all_hooks_def)

lemma seg_reply_header:
  assumes "line_state n" and "reply_header_ok h" and "reply_all_hooks m"
    and "drop p buffer = reply_header_text h @ x"
  shows "\<exists>n' m'. behind_line h n' \<and> reply_frame m m'
     \<and> reply_items buffer m' = reply_items buffer m @ [reply_header_item h]
     \<and> reply_loop buffer p (reply_header_text h @ x) n m
        = reply_loop buffer (p + length (reply_header_text h)) x n' m'"
proof -
  obtain s b v where h: "h = (s, b, v)" by (cases h)
  note ok = assms(2) [unfolded reply_header_ok_def h prod.case]
  define p1 where "p1 = p + length s + 1"
  define p2 where "p2 = p1 + length b"
  obtain n1 m1 where 1: "lead_state n1" "reply_frame m m1" "cl_emitted m1 = cl_emitted m"
      "cl_field_start m1 = p" "cl_field_len m1 = length s"
      "reply_loop buffer p (s @ '':'' @ b @ v @ crlf @ x) n m = reply_loop buffer p1 (b @ v @ crlf @ x) n1 m1"
    using seg_name [OF assms(1), of s m p buffer "b @ v @ crlf @ x"] ok by (auto simp: p1_def)
  obtain k where k: "reply_loop buffer p1 (b @ v @ crlf @ x) n1 m1
      = reply_loop buffer p2 (v @ crlf @ x) n1 (m1\<lparr>cl_mark := k\<rparr>)"
    using run_blanks [OF 1(1), of b buffer p1 "v @ crlf @ x" m1] ok by (auto simp: p2_def)
  have "reply_all_hooks (m1\<lparr>cl_mark := k\<rparr>)"
    using reply_frame_hooks [OF 1(2)] assms(3) by (simp add: reply_all_hooks_def)
  from seg_value_or_empty [OF 1(1) _ _ this, of v p2 buffer x] ok obtain n' m' where 2:
    "line_state n'" "v \<noteq> [] \<longrightarrow> n' \<in> {20, 43}" "reply_frame (m1\<lparr>cl_mark := k\<rparr>) m'"
    "cl_emitted m' = cl_emitted m @ [ReplyField p (length s) p2 (length v)]"
    "reply_loop buffer p2 (v @ crlf @ x) n1 (m1\<lparr>cl_mark := k\<rparr>) = reply_loop buffer (p2 + length v + 2) x n' m'"
    using 1(3,4,5) by auto
  have d: "drop p buffer = s @ '':'' @ b @ v @ crlf @ x"
    using assms(4) h by (simp add: reply_header_text_def)
  have d2: "drop p2 buffer = v @ crlf @ x"
    using drop_past [of p buffer "s @ '':'' @ b" "v @ crlf @ x"] d by (simp add: p1_def p2_def add.assoc)
  have "reply_items buffer m' = reply_items buffer m @ [reply_header_item h]"
    using 2(4) piece_here [OF d] fits_here [OF d] piece_here [OF d2] fits_here [OF d2] h
    by (simp add: reply_items_def reply_header_item_def crlf_def)
  moreover have "p2 + length v + 2 = p + length (reply_header_text h)"
    using h by (simp add: reply_header_text_def p1_def p2_def crlf_def)
  moreover have "reply_frame m m'" using 1(2) 2(3) by (simp add: reply_frame_def)
  moreover have "behind_line h n'" using 2(1,2) h by (simp add: behind_line_def)
  moreover have "reply_header_text h @ x = s @ '':'' @ b @ v @ crlf @ x"
    using h by (simp add: reply_header_text_def)
  ultimately show ?thesis using 1(6) k 2(5) by metis
qed

text \<open>All header lines; the control state is that behind the last one.\<close>

definition behind_lines :: "reply_header list \<Rightarrow> nat \<Rightarrow> bool" where
  "behind_lines hs n \<longleftrightarrow> line_state n \<and> (hs = [] \<or> snd (snd (last hs)) \<noteq> [] \<longrightarrow> n \<in> {20, 43})"

lemma seg_reply_headers:
  "behind_lines gs n \<Longrightarrow> \<forall>h \<in> set hs. reply_header_ok h \<Longrightarrow> reply_all_hooks m \<Longrightarrow>
   drop p buffer = concat (map reply_header_text hs) @ x \<Longrightarrow>
     \<exists>n' m'. behind_lines (gs @ hs) n' \<and> reply_frame m m'
       \<and> reply_items buffer m' = reply_items buffer m @ map reply_header_item hs
       \<and> reply_loop buffer p (concat (map reply_header_text hs) @ x) n m
         = reply_loop buffer (p + length (concat (map reply_header_text hs))) x n' m'"
proof (induction hs arbitrary: gs n p m)
  case Nil
  then show ?case by (auto simp: reply_frame_def)
next
  case (Cons h hs)
  define y where "y = concat (map reply_header_text hs) @ x"
  have d: "drop p buffer = reply_header_text h @ y" using Cons.prems(4) by (simp add: y_def)
  have "line_state n" using Cons.prems(1) by (simp add: behind_lines_def)
  from seg_reply_header [OF this _ Cons.prems(3) d] Cons.prems(2) obtain n1 m1 where 1:
    "behind_line h n1" "reply_frame m m1" "reply_items buffer m1 = reply_items buffer m @ [reply_header_item h]"
    "reply_loop buffer p (reply_header_text h @ y) n m
       = reply_loop buffer (p + length (reply_header_text h)) y n1 m1" by auto
  have "behind_lines (gs @ [h]) n1" using 1(1) by (auto simp: behind_lines_def behind_line_def)
  moreover have "reply_all_hooks m1" using reply_frame_hooks [OF 1(2)] Cons.prems(3) by simp
  ultimately obtain n' m' where 2: "behind_lines ((gs @ [h]) @ hs) n'" "reply_frame m1 m'"
      "reply_items buffer m' = reply_items buffer m1 @ map reply_header_item hs"
      "reply_loop buffer (p + length (reply_header_text h)) y n1 m1
        = reply_loop buffer (p + length (reply_header_text h) + length (concat (map reply_header_text hs))) x n' m'"
    using Cons.IH [of "gs @ [h]" n1 m1 "p + length (reply_header_text h)"] Cons.prems(2) drop_past [OF d]
    unfolding y_def by auto
  with 1 show ?case
    by (intro exI [of _ n'] exI [of _ m']) (auto simp: y_def add.assoc reply_frame_def)
qed

lemma seg_last_line:
  assumes "behind_lines hs n" and "reply_all_hooks m" and "drop p buffer = crlf @ x"
  shows "\<exists>t m'. 120 \<le> t \<and> (hs = [] \<or> snd (snd (last hs)) \<noteq> [] \<longrightarrow> t = 120)
     \<and> reply_items buffer m' = reply_items buffer m @ [ReplyItem HookReplyDone x]
     \<and> cl_body_start m' = p + 2 \<and> cl_status m' = cl_status m \<and> cl_hooks m' = cl_hooks m
     \<and> reply_loop buffer p (crlf @ x) n m = (p + 2, t, m')"
proof -
  have n: "line_state n" using assms(1) by (simp add: behind_lines_def)
  obtain acts k where k: "reply_step n CHR 0x0D = (acts, k)" "acts = [] \<or> acts = [RClose]" "last_line k"
    using cr_step [OF line_cr_move [OF n]] by blast
  obtain t where t: "reply_step k CHR 0x0A = ([RDone], t)" "120 \<le> t"
    using lf_step [OF last_lf_move [OF k(3)]] by blast
  define m1 where "m1 = fold (reply_act buffer p) acts m"
  have m1: "cl_emitted m1 = cl_emitted m" "reply_frame m m1"
    using k(2) by (auto simp: m1_def reply_act_def reply_frame_def)
  define m2 where "m2 = reply_act buffer (p + 1) RDone m1"
  have "\<not> performs rbreaks acts" using k(2) by (auto simp: performs_def rbreaks_def)
  then have "reply_loop buffer p (crlf @ x) n m = (p + 2, t, m2)"
    using k(1) t position_valid(1) [OF n] position_valid(7) [OF k(3)] position_nonzero(7) [OF k(3)]
    by (simp add: crlf_def m1_def m2_def performs_def rbreaks_def)
  moreover have "length (drop p buffer) = Suc (Suc (length x))" using assms(3) by (simp add: crlf_def)
  then have len: "length buffer = p + 2 + length x" by simp
  have "piece buffer (p + 2) (length x) = x"
    using drop_past [OF assms(3)] by (intro piece_here [where x = "[]"]) (simp add: crlf_def)
  then have "reply_items buffer m2 = reply_items buffer m @ [ReplyItem HookReplyDone x]"
    using len m1 assms(2) by (simp add: m2_def reply_act_defs reply_items_def reply_all_hooks_def reply_frame_def fits_def)
  moreover have "cl_body_start m2 = p + 2 \<and> cl_status m2 = cl_status m \<and> cl_hooks m2 = cl_hooks m"
    using m1(2) by (simp add: m2_def reply_act_def reply_emit_def reply_frame_def)
  moreover have "t = 120" if "hs = [] \<or> snd (snd (last hs)) \<noteq> []"
  proof -
    have "n = 20 \<or> n = 43" using assms(1) that by (simp add: behind_lines_def)
    then have "k = 3" using k(1)
      by (auto simp: reply_step_def schar_def reply_case_eqs reply_case20_def reply_case43_def to_st_def rtr75_def)
    with t(1) show ?thesis
      by (simp add: reply_step_def schar_def reply_case_eqs reply_case3_def rtr7_def)
  qed
  ultimately show ?thesis using t(2) by blast
qed

section \<open>The status line\<close>

definition digits :: "bytes \<Rightarrow> bool" where
  "digits s \<longleftrightarrow> s \<noteq> [] \<and> (\<forall>ch \<in> set s. 48 \<le> schar ch \<and> schar ch \<le> 57)"

lemma digits_cons: "digits (ch # s) \<longleftrightarrow> 48 \<le> schar ch \<and> schar ch \<le> 57 \<and> (s = [] \<or> digits s)"
  by (auto simp: digits_def)

text \<open>A run that stays in one state.\<close>

lemma reply_run_loop:
  "reply_valid n \<Longrightarrow> (\<And>ch. ch \<in> set s \<Longrightarrow> reply_step n ch = ([], n)) \<Longrightarrow>
     reply_loop buffer p (s @ x) n m = reply_loop buffer (p + length s) x n m"
  by (rule ragel_run_loop) (simp_all add: reply_valid_def)

lemma digit_step:
  "48 \<le> schar ch \<Longrightarrow> schar ch \<le> 57 \<Longrightarrow> reply_step 12 ch = ([], 13) \<and> reply_step 13 ch = ([], 13)
     \<and> reply_step 14 ch = ([], 15) \<and> reply_step 15 ch = ([], 15) \<and> reply_step 16 ch = ([RMark], 17)
     \<and> reply_step 17 ch = ([], 17)"
  by (simp add: reply_step_def reply_case_eqs reply_case12_def reply_case13_def reply_case14_def
      reply_case15_def reply_case16_def reply_case17_def to_st_def rtr27_def)

text \<open>Digits take the loop from one state to the next and then stay there.\<close>

lemma run_digits:
  assumes "digits s" and "\<And>ch. 48 \<le> schar ch \<Longrightarrow> schar ch \<le> 57 \<Longrightarrow> reply_step n ch = (acts, n + 1)"
    and "\<And>ch. 48 \<le> schar ch \<Longrightarrow> schar ch \<le> 57 \<Longrightarrow> reply_step (n + 1) ch = ([], n + 1)"
    and "reply_valid n" and "reply_valid (n + 1)" and "\<not> performs rbreaks acts"
  shows "reply_loop buffer p (s @ x) n m = reply_loop buffer (p + length s) x (n + 1) (fold (reply_act buffer p) acts m)"
proof -
  obtain ch u where s: "s = ch # u" and ch: "48 \<le> schar ch" "schar ch \<le> 57" and u: "u = [] \<or> digits u"
    using assms(1) by (cases s) (auto simp: digits_cons digits_def)
  have "reply_loop buffer p (s @ x) n m = reply_loop buffer (p + 1) (u @ x) (n + 1) (fold (reply_act buffer p) acts m)"
    using assms(2) [OF ch] assms(4,6) s by simp
  also have "\<dots> = reply_loop buffer (p + 1 + length u) x (n + 1) (fold (reply_act buffer p) acts m)"
    using u assms(3) by (intro reply_run_loop [OF assms(5)]) (auto simp: digits_def)
  finally show ?thesis using s by simp
qed

lemma status_steps:
  "reply_step 1 CHR ''H'' = ([RMark], 8)" "reply_step 8 CHR ''T'' = ([], 9)" "reply_step 9 CHR ''T'' = ([], 10)"
  "reply_step 10 CHR ''P'' = ([], 11)" "reply_step 11 CHR ''/'' = ([], 12)" "reply_step 13 CHR ''.'' = ([], 14)"
  "reply_step 15 CHR '' '' = ([RVersion], 16)" "reply_step 17 CHR '' '' = ([RStatus], 18)"
  "reply_step 19 CHR 0x0D = ([RReason], 24)" "reply_step 24 CHR 0x0A = ([], 20)"
  by (simp_all add: reply_step_def reply_case_eqs reply_case1_def reply_case8_def reply_case9_def
      reply_case10_def reply_case11_def reply_case13_def reply_case15_def reply_case17_def
      reply_case19_def reply_case24_def to_st_def rtr2_def rtr26_def rtr28_def rtr33_def schar_def del: One_nat_def)

lemma reason_steps:
  "in_line (schar ch) \<Longrightarrow> reply_step 18 ch = ([RMark], 19) \<and> reply_step 19 ch = ([], 19)"
  by (simp add: reply_step_def reply_case_eqs reply_case18_def reply_case19_def rtr30_def to_st_def in_line_def)

text \<open>\<open>strtol\<close> on a run of digits that something else ends.\<close>

lemma digit_values: "48 \<le> schar ch \<Longrightarrow> schar ch \<le> 57 \<Longrightarrow> digit_value ch = schar ch - 48"
  by (simp add: digit_value_def Let_def)

lemma digits_value_stop:
  "\<forall>ch \<in> set s. digit_value ch < base \<Longrightarrow> \<not> digit_value e < base \<Longrightarrow>
     digits_value base acc (s @ e # x) = digits_value base acc s"
  by (induction s arbitrary: acc) auto

lemma drop_prefix_10: "drop_prefix 10 t = t"
  by (induction "10::int" t rule: drop_prefix.induct) auto

lemma strtol_digits:
  assumes "digits s" and "\<not> digit_value e < 10"
  shows "strtol 10 (s @ e # x) = saturate (digits_value 10 0 s)"
proof -
  obtain ch u where s: "s = ch # u" and ch: "48 \<le> schar ch" "schar ch \<le> 57"
    using assms(1) by (cases s) (auto simp: digits_cons digits_def)
  have "\<not> is_space ch" "ch \<noteq> CHR ''-''" "ch \<noteq> CHR ''+''"
    using ch by (auto simp: is_space_def schar_def)
  moreover have "digits_value 10 0 (s @ e # x) = digits_value 10 0 s"
    using assms by (intro digits_value_stop) (auto simp: digits_def digit_values)
  ultimately show ?thesis by (simp add: strtol_def s drop_prefix_10)
qed

record reply_text =
  pmajor :: bytes
  pminor :: bytes
  pstatus :: bytes
  preason :: bytes
  pheaders :: "reply_header list"

definition reply_text_ok :: "reply_text \<Rightarrow> bool" where
  "reply_text_ok t \<longleftrightarrow> digits (pmajor t) \<and> digits (pminor t) \<and> digits (pstatus t)
     \<and> preason t \<noteq> [] \<and> (\<forall>ch \<in> set (preason t). in_line (schar ch))
     \<and> (\<forall>h \<in> set (pheaders t). reply_header_ok h)"

definition version_part :: "reply_text \<Rightarrow> bytes" where
  "version_part t = ''HTTP/'' @ pmajor t @ ''.'' @ pminor t"

definition reply_bytes :: "reply_text \<Rightarrow> bytes" where
  "reply_bytes t = version_part t @ '' '' @ pstatus t @ '' '' @ preason t @ crlf
     @ concat (map reply_header_text (pheaders t)) @ crlf"

lemma seg_reply_version:
  assumes "digits (pmajor t)" and "digits (pminor t)" and "reply_all_hooks m" and "buffer = version_part t @ '' '' @ x"
  shows "\<exists>m'. reply_loop buffer 0 buffer 1 m = reply_loop buffer (length (version_part t) + 1) x 16 m'
     \<and> reply_items buffer m' = reply_items buffer m @ [ReplyItem HookReplyVersion (version_part t)]
     \<and> reply_frame m m'"
proof -
  define m1 where "m1 = m\<lparr>cl_mark := 0\<rparr>"
  define q where "q = 5 + length (pmajor t)"
  define e where "e = q + 1 + length (pminor t)"
  have ok: "reply_valid n" if "1 \<le> n" "n \<le> 30" for n using that by (simp add: reply_valid_def)
  have "reply_loop buffer 0 buffer 1 m = reply_loop buffer 5 (pmajor t @ ''.'' @ pminor t @ '' '' @ x) 12 m1"
    using assms(4) status_steps(1-5)
    by (simp add: version_part_def ok performs_def rbreaks_def reply_act_def m1_def eval_nat_numeral)
  also have "\<dots> = reply_loop buffer q (''.'' @ pminor t @ '' '' @ x) 13 m1"
    using run_digits [OF assms(1), of 12 "[]" buffer 5 _ m1] by (simp add: digit_step ok performs_def q_def)
  also have "\<dots> = reply_loop buffer (q + 1) (pminor t @ '' '' @ x) 14 m1"
    using status_steps(6) by (simp add: ok performs_def)
  also have "\<dots> = reply_loop buffer e ('' '' @ x) 15 m1"
    using run_digits [OF assms(2), of 14 "[]" buffer "q + 1" _ m1] by (simp add: digit_step ok performs_def e_def)
  also have "\<dots> = reply_loop buffer (e + 1) x 16 (reply_act buffer e RVersion m1)"
    using status_steps(7) by (simp add: ok performs_def rbreaks_def)
  finally have run: "reply_loop buffer 0 buffer 1 m = \<dots>" .
  have e: "e = length (version_part t)" by (simp add: e_def q_def version_part_def)
  have "drop 0 buffer = version_part t @ '' '' @ x" using assms(4) by simp
  from piece_here [OF this] fits_here [OF this] run e assms(3) show ?thesis
    by (intro exI [of _ "reply_act buffer e RVersion m1"])
       (simp add: m1_def reply_act_defs reply_items_def reply_all_hooks_def reply_frame_def)
qed

lemma seg_reply_status:
  assumes "digits s" and "reply_all_hooks m" and "drop p buffer = s @ '' '' @ x"
  shows "\<exists>m'. reply_loop buffer p (s @ '' '' @ x) 16 m = reply_loop buffer (p + length s + 1) x 18 m'
     \<and> reply_items buffer m' = reply_items buffer m @ [ReplyItem HookStatusCode s]
     \<and> cl_status m' = to_int (saturate (digits_value 10 0 s))
     \<and> cl_hooks m' = cl_hooks m \<and> cl_body_start m' = cl_body_start m"
proof -
  define m1 where "m1 = m\<lparr>cl_mark := p\<rparr>"
  define m2 where "m2 = reply_act buffer (p + length s) RStatus m1"
  have ok: "reply_valid n" if "1 \<le> n" "n \<le> 30" for n using that by (simp add: reply_valid_def)
  have "reply_loop buffer p (s @ '' '' @ x) 16 m = reply_loop buffer (p + length s) ('' '' @ x) 17 m1"
    using run_digits [OF assms(1), of 16 "[RMark]" buffer p _ m]
    by (simp add: digit_step ok performs_def rbreaks_def reply_act_def m1_def)
  also have "\<dots> = reply_loop buffer (p + length s + 1) x 18 m2"
    using status_steps(8) by (simp add: ok performs_def rbreaks_def m2_def)
  finally have run: "reply_loop buffer p (s @ '' '' @ x) 16 m = \<dots>" .
  have "strtol 10 (s @ '' '' @ x) = saturate (digits_value 10 0 s)"
    using strtol_digits [OF assms(1), of "CHR '' ''" x] by (simp add: digit_value_def schar_def)
  with run piece_here [OF assms(3)] fits_here [OF assms(3)] assms(2,3) show ?thesis
    by (intro exI [of _ m2]) (simp add: m2_def m1_def reply_act_defs reply_items_def reply_all_hooks_def)
qed

lemma seg_reply_reason:
  assumes "s \<noteq> []" and "\<forall>ch \<in> set s. in_line (schar ch)" and "reply_all_hooks m"
    and "drop p buffer = s @ crlf @ x"
  shows "\<exists>m'. reply_loop buffer p (s @ crlf @ x) 18 m = reply_loop buffer (p + length s + 2) x 20 m'
     \<and> reply_items buffer m' = reply_items buffer m @ [ReplyItem HookReason s] \<and> reply_frame m m'"
proof -
  obtain ch u where s: "s = ch # u" using assms(1) by (cases s) auto
  define m1 where "m1 = m\<lparr>cl_mark := p\<rparr>"
  define m2 where "m2 = reply_act buffer (p + length s) RReason m1"
  have ok: "reply_valid n" if "1 \<le> n" "n \<le> 30" for n using that by (simp add: reply_valid_def)
  have "reply_loop buffer p (s @ crlf @ x) 18 m = reply_loop buffer (p + 1) (u @ crlf @ x) 19 m1"
    using reason_steps [of ch] assms(2) s by (simp add: ok performs_def rbreaks_def reply_act_def m1_def)
  also have "\<dots> = reply_loop buffer (p + length s) (crlf @ x) 19 m1"
    using reply_run_loop [of 19 u buffer "p + 1" "crlf @ x" m1] reason_steps assms(2) s by (simp add: ok)
  also have "\<dots> = reply_loop buffer (p + length s + 2) x 20 m2"
    using status_steps(9,10) by (simp add: crlf_def ok performs_def rbreaks_def m2_def)
  finally have run: "reply_loop buffer p (s @ crlf @ x) 18 m = \<dots>" .
  from this piece_here [OF assms(4)] fits_here [OF assms(4)] assms(3) show ?thesis
    by (intro exI [of _ m2])
       (simp add: crlf_def m2_def m1_def reply_act_defs reply_items_def reply_all_hooks_def reply_frame_def)
qed

definition reply_parts :: "reply_text \<Rightarrow> bytes \<Rightarrow> reply_item list" where
  "reply_parts t rest = [ReplyItem HookReplyVersion (version_part t), ReplyItem HookStatusCode (pstatus t),
       ReplyItem HookReason (preason t)]
     @ map reply_header_item (pheaders t) @ [ReplyItem HookReplyDone rest]"

definition ends_in_value :: "reply_text \<Rightarrow> bool" where
  "ends_in_value t \<longleftrightarrow> pheaders t = [] \<or> snd (snd (last (pheaders t))) \<noteq> []"

lemma run_reply:
  assumes "reply_text_ok t" and "reply_all_hooks m" and "buffer = reply_bytes t @ x"
  shows "\<exists>k m'. reply_loop buffer 0 buffer 1 m = (length (reply_bytes t), k, m')
     \<and> 120 \<le> k \<and> (ends_in_value t \<longrightarrow> k = 120)
     \<and> reply_items buffer m' = reply_items buffer m @ reply_parts t x
     \<and> cl_body_start m' = length (reply_bytes t) \<and> cl_hooks m' = cl_hooks m
     \<and> cl_status m' = to_int (saturate (digits_value 10 0 (pstatus t)))"
proof -
  let ?h = "concat (map reply_header_text (pheaders t))"
  define x4 where "x4 = crlf @ x"
  define x3 where "x3 = ?h @ x4"
  define x2 where "x2 = preason t @ crlf @ x3"
  define x1 where "x1 = pstatus t @ '' '' @ x2"
  have b: "buffer = version_part t @ '' '' @ x1"
    using assms(3) by (simp add: reply_bytes_def x1_def x2_def x3_def x4_def)
  define p1 where "p1 = length (version_part t) + 1"
  define p2 where "p2 = p1 + length (pstatus t) + 1"
  define p3 where "p3 = p2 + length (preason t) + 2"
  define p4 where "p4 = p3 + length ?h"
  note ok = assms(1) [unfolded reply_text_ok_def]
  have d1: "drop p1 buffer = x1" using b by (simp add: p1_def)
  have d2: "drop p2 buffer = x2"
    using drop_past [of p1 buffer "pstatus t @ '' ''" x2] d1 by (simp add: p2_def x1_def)
  have d3: "drop p3 buffer = x3"
    using drop_past [of p2 buffer "preason t @ crlf" x3] d2 by (simp add: p3_def x2_def crlf_def)
  have d4: "drop p4 buffer = x4" using drop_past [of p3 buffer ?h x4] d3 by (simp add: p4_def x3_def)
  obtain m1 where 1: "reply_loop buffer 0 buffer 1 m = reply_loop buffer p1 x1 16 m1"
      "reply_items buffer m1 = reply_items buffer m @ [ReplyItem HookReplyVersion (version_part t)]" "reply_frame m m1"
    using seg_reply_version [OF _ _ assms(2) b] ok unfolding p1_def by auto
  have h1: "reply_all_hooks m1" using reply_frame_hooks [OF 1(3)] assms(2) by simp
  obtain m2 where 2: "reply_loop buffer p1 x1 16 m1 = reply_loop buffer p2 x2 18 m2"
      "reply_items buffer m2 = reply_items buffer m1 @ [ReplyItem HookStatusCode (pstatus t)]"
      "cl_status m2 = to_int (saturate (digits_value 10 0 (pstatus t)))" "cl_hooks m2 = cl_hooks m1"
    using seg_reply_status [OF _ h1 d1 [unfolded x1_def]] ok unfolding p2_def x1_def by blast
  have h2: "reply_all_hooks m2" using h1 2(4) by (simp add: reply_all_hooks_def)
  obtain m3 where 3: "reply_loop buffer p2 x2 18 m2 = reply_loop buffer p3 x3 20 m3"
      "reply_items buffer m3 = reply_items buffer m2 @ [ReplyItem HookReason (preason t)]" "reply_frame m2 m3"
    using seg_reply_reason [OF _ _ h2 d2 [unfolded x2_def]] ok unfolding p3_def x2_def by blast
  have h3: "reply_all_hooks m3" using reply_frame_hooks [OF 3(3)] h2 by simp
  have "behind_lines [] 20" by (simp add: behind_lines_def line_state_def)
  from seg_reply_headers [OF this _ h3 d3 [unfolded x3_def]] ok obtain n m4 where 4:
      "behind_lines (pheaders t) n" "reply_frame m3 m4"
      "reply_items buffer m4 = reply_items buffer m3 @ map reply_header_item (pheaders t)"
      "reply_loop buffer p3 x3 20 m3 = reply_loop buffer p4 x4 n m4"
    unfolding p4_def x3_def by auto
  have h4: "reply_all_hooks m4" using reply_frame_hooks [OF 4(2)] h3 by simp
  obtain k m5 where 5: "120 \<le> k" "ends_in_value t \<longrightarrow> k = 120"
      "reply_items buffer m5 = reply_items buffer m4 @ [ReplyItem HookReplyDone x]" "cl_body_start m5 = p4 + 2"
      "cl_status m5 = cl_status m4" "cl_hooks m5 = cl_hooks m4" "reply_loop buffer p4 x4 n m4 = (p4 + 2, k, m5)"
    using seg_last_line [OF 4(1) h4 d4 [unfolded x4_def]] unfolding x4_def ends_in_value_def by blast
  have "p4 + 2 = length (reply_bytes t)"
    by (simp add: reply_bytes_def p4_def p3_def p2_def p1_def crlf_def)
  with 1 2 3 4 5 show ?thesis by (intro exI [of _ k] exI [of _ m5]) (simp add: reply_parts_def reply_frame_def)
qed

end
