(* ===== verification/ReplyParser.thy ===== *)
theory ReplyParser
  imports ReplyGrammar HttpMessage
begin

text \<open>
  The properties of \<open>httpclient_parser_execute\<close>, and the class \<open>HttpResponseParser\<close> of
  \<open>http/HttpParser.cpp\<close> on top of it: its callbacks fill an \<open>HttpResponse\<close>, its \<open>execute\<close>
  reads from a \<open>Buffer\<close>.
\<close>

section \<open>One execution\<close>

definition reply_entered :: "httpclient_parser \<Rightarrow> httpclient_parser" where
  "reply_entered m = m\<lparr>cl_nread := 0, cl_mark := 0, cl_field_len := 0, cl_field_start := 0\<rparr>"

definition reply_kept :: "httpclient_parser \<Rightarrow> httpclient_parser \<Rightarrow> bool" where
  "reply_kept m m' \<longleftrightarrow> cl_nread m' = cl_nread m \<and> cl_hooks m' = cl_hooks m"

definition reply_bounded :: "nat \<Rightarrow> nat \<Rightarrow> httpclient_parser \<Rightarrow> bool" where
  "reply_bounded len q m \<longleftrightarrow> cl_mark m \<le> q \<and> cl_mark m < len \<and> cl_field_start m \<le> q
     \<and> cl_field_start m < len \<and> cl_field_len m \<le> q \<and> cl_body_start m \<le> len"

lemma reply_act_kept: "reply_kept m x \<Longrightarrow> reply_kept m (reply_act buffer p a x)"
  by (cases a) (simp_all add: reply_kept_def reply_act_def reply_element_def reply_emit_def Let_def)

lemma reply_act_bounded: "reply_bounded len q m \<Longrightarrow> q < len \<Longrightarrow> reply_bounded len q (reply_act buffer q a m)"
  by (cases a) (auto simp: reply_bounded_def reply_act_def reply_element_def reply_emit_def Let_def size_sub_def)

lemma reply_loop_bounded:
  assumes "reply_loop buffer p s n m = (p', n', m')" and "reply_bounded (p + length s) p m"
  shows "reply_kept m m'" and "reply_bounded (p + length s) p' m'"
proof -
  show "reply_kept m m'"
    by (rule ragel_run_inv [where Q = "\<lambda>_. reply_kept m", OF _ _ assms(1)])
       (erule reply_act_kept, simp_all add: reply_kept_def)
  show "reply_bounded (p + length s) p' m'"
    by (rule ragel_run_inv [where Q = "reply_bounded (p + length s)", OF _ _ assms(1) assms(2)])
       (erule reply_act_bounded, simp, simp add: reply_bounded_def)
qed

text \<open>On input that is not empty and small enough for an \<open>int\<close>, nothing fails.\<close>

lemma reply_execute_eq:
  assumes "buffer \<noteq> []" and "length buffer < 2 ^ 31" and "cl_body_start m \<le> length buffer"
    and "reply_loop buffer 0 buffer (cl_cs m) (reply_entered m) = (p, n, m1)"
  shows "httpclient_parser_execute m buffer (Some CHR 0x00) 0 = Inr (int p, m1\<lparr>cl_cs := n, cl_nread := p\<rparr>)
     \<and> p \<le> length buffer \<and> cl_hooks m1 = cl_hooks m"
proof -
  have "reply_bounded (0 + length buffer) 0 (reply_entered m)"
    using assms(1,3) by (simp add: reply_bounded_def reply_entered_def)
  from reply_loop_bounded [OF assms(4) this]
  have k: "reply_kept (reply_entered m) m1" "reply_bounded (length buffer) p m1" by simp_all
  have le: "p \<le> length buffer" using ragel_run_bounds [OF assms(4)] by simp
  have "to_int (int p) = int p" using le assms(2) by (intro to_int_id) simp_all
  moreover have "to_int (int (length buffer)) = int (length buffer)" "to_int 0 = 0"
    using assms(2) by (simp_all add: to_int_id)
  moreover have "cl_cs (reply_entered m) = cl_cs m" by (simp add: reply_entered_def)
  ultimately show ?thesis using k le assms
    by (simp add: httpclient_parser_execute_def httpclient_parser_exit_def reply_entered_def [symmetric]
        reply_bounded_def reply_kept_def Let_def)
       (simp add: reply_entered_def)
qed

lemma execute_reply:
  assumes "reply_text_ok t" and "reply_all_hooks m" and "cl_cs m = 1" and "cl_body_start m = 0"
    and "buffer = reply_bytes t @ x" and "length buffer < 2 ^ 31"
  shows "\<exists>m'. httpclient_parser_execute m buffer (Some CHR 0x00) 0 = Inr (int (length (reply_bytes t)), m')
     \<and> 120 \<le> cl_cs m' \<and> (ends_in_value t \<longrightarrow> cl_cs m' = 120)
     \<and> reply_items buffer m' = reply_items buffer m @ reply_parts t x
     \<and> cl_body_start m' = length (reply_bytes t)
     \<and> cl_status m' = to_int (saturate (digits_value 10 0 (pstatus t)))"
proof -
  have h: "reply_all_hooks (reply_entered m)"
    using assms(2) by (simp add: reply_all_hooks_def reply_entered_def)
  obtain k m1 where 1: "reply_loop buffer 0 buffer 1 (reply_entered m) = (length (reply_bytes t), k, m1)"
      "120 \<le> k" "ends_in_value t \<longrightarrow> k = 120"
      "reply_items buffer m1 = reply_items buffer (reply_entered m) @ reply_parts t x"
      "cl_body_start m1 = length (reply_bytes t)" "cl_status m1 = to_int (saturate (digits_value 10 0 (pstatus t)))"
    using run_reply [OF assms(1) h assms(5)] by blast
  have ne: "buffer \<noteq> []" using assms(5) by (simp add: reply_bytes_def version_part_def)
  have b: "cl_body_start m \<le> length buffer" using assms(4) by simp
  show ?thesis
    using reply_execute_eq [OF ne assms(6) b, of "length (reply_bytes t)" k m1] 1 assms(3)
    by (simp add: reply_items_def reply_entered_def)
qed

section \<open>Chunk headers\<close>

definition hex_digits :: "bytes \<Rightarrow> bool" where
  "hex_digits s \<longleftrightarrow> s \<noteq> [] \<and> (\<forall>ch \<in> set s. 48 \<le> schar ch \<and> schar ch \<le> 57
     \<or> 65 \<le> schar ch \<and> schar ch \<le> 70 \<or> 97 \<le> schar ch \<and> schar ch \<le> 102)"

lemma hex_steps:
  assumes "48 \<le> schar ch \<and> schar ch \<le> 57 \<or> 65 \<le> schar ch \<and> schar ch \<le> 70 \<or> 97 \<le> schar ch \<and> schar ch \<le> 102"
  shows "reply_step 1 ch = ([RMark], 2) \<and> reply_step 2 ch = ([], 2) \<and> digit_value ch < 16 \<and> 0 \<le> digit_value ch"
  using assms
  by (auto simp: reply_step_def reply_case_eqs reply_case1_def reply_case2_def rtr0_def to_st_def digit_value_def Let_def
      simp del: One_nat_def)

lemma chunk_line_steps: "reply_step 2 CHR 0x0D = ([RChunkSize], 3)" "reply_step 3 CHR 0x0A = ([RDone], 120)"
  by (simp_all add: reply_step_def reply_case_eqs reply_case2_def reply_case3_def rtr4_def rtr7_def schar_def)

lemma drop_prefix_hex: "\<forall>ch \<in> set s. digit_value ch < 16 \<Longrightarrow> \<not> digit_value e < 16 \<Longrightarrow>
    e \<noteq> CHR ''x'' \<Longrightarrow> e \<noteq> CHR ''X'' \<Longrightarrow> drop_prefix b (s @ e # t) = s @ e # t"
  by (induction b "s @ e # t" rule: drop_prefix.induct)
     (auto simp: Cons_eq_append_conv digit_value_def schar_def split: if_splits)

lemma strtol_hex:
  assumes "hex_digits s" and "\<not> digit_value e < 16" and "e \<noteq> CHR ''x''" and "e \<noteq> CHR ''X''"
  shows "strtol 16 (s @ e # x) = saturate (digits_value 16 0 s)"
proof -
  have dv: "\<forall>ch \<in> set s. digit_value ch < 16" using assms(1) hex_steps by (auto simp: hex_digits_def)
  obtain ch u where s: "s = ch # u" using assms(1) by (cases s) (auto simp: hex_digits_def)
  have "\<not> is_space ch" "ch \<noteq> CHR ''-''" "ch \<noteq> CHR ''+''"
    using assms(1) s by (auto simp: hex_digits_def is_space_def schar_def)
  then show ?thesis
    using drop_prefix_hex [OF dv assms(2-4), of 16 x] digits_value_stop [OF dv assms(2), of 0 x] s
    by (simp add: strtol_def)
qed

lemma digits_value_nonneg: "\<forall>ch \<in> set s. 0 \<le> digit_value ch \<Longrightarrow> 0 \<le> acc \<Longrightarrow> 0 \<le> base \<Longrightarrow> 0 \<le> digits_value base acc s"
  by (induction s arbitrary: acc) auto

lemma run_chunk:
  assumes "hex_digits s" and "buffer = s @ crlf @ x"
  shows "reply_loop buffer 0 buffer 1 m = (length s + 2, 120,
     reply_act buffer (length s + 1) RDone (reply_act buffer (length s) RChunkSize (m\<lparr>cl_mark := 0\<rparr>)))"
proof -
  obtain ch u where s: "s = ch # u" using assms(1) by (cases s) (auto simp: hex_digits_def)
  have ok: "reply_valid n" if "1 \<le> n" "n \<le> 30" for n using that by (simp add: reply_valid_def)
  have "reply_loop buffer 0 buffer 1 m = reply_loop buffer 1 (u @ crlf @ x) 2 (m\<lparr>cl_mark := 0\<rparr>)"
    using hex_steps [of ch] assms s
    by (simp add: hex_digits_def ok performs_def rbreaks_def reply_act_def)
  also have "\<dots> = reply_loop buffer (length s) (crlf @ x) 2 (m\<lparr>cl_mark := 0\<rparr>)"
    using reply_run_loop [of 2 u buffer 1 "crlf @ x"] hex_steps assms(1) s by (auto simp: hex_digits_def ok)
  finally show ?thesis
    using chunk_line_steps by (simp add: crlf_def ok performs_def rbreaks_def)
qed

lemma execute_chunk:
  assumes "hex_digits s" and "cl_cs m = 1" and "cl_body_start m = 0" and "buffer = s @ crlf @ x"
    and "length buffer < 2 ^ 31"
  shows "\<exists>m'. httpclient_parser_execute m buffer (Some CHR 0x00) 0 = Inr (int (length s + 2), m')
     \<and> httpclient_parser_finish m' = 1 \<and> cl_chunked m'
     \<and> cl_content_len m' = to_int (saturate (digits_value 16 0 s))
     \<and> cl_chunks_done m' = (cl_content_len m' \<le> 0)"
proof -
  define m1 where "m1 = (reply_entered m)\<lparr>cl_mark := 0\<rparr>"
  define m2 where "m2 = reply_act buffer (length s + 1) RDone (reply_act buffer (length s) RChunkSize m1)"
  have l: "reply_loop buffer 0 buffer (cl_cs m) (reply_entered m) = (length s + 2, 120, m2)"
    using run_chunk [OF assms(1,4), of "reply_entered m"] by (simp add: assms(2) m2_def m1_def)
  have "strtol 16 (s @ crlf @ x) = saturate (digits_value 16 0 s)"
    using strtol_hex [OF assms(1), of "CHR 0x0D" "CHR 0x0A # x"] by (simp add: crlf_def digit_value_def schar_def)
  then have "cl_content_len m2 = to_int (saturate (digits_value 16 0 s)) \<and> cl_chunked m2
      \<and> cl_chunks_done m2 = (cl_content_len m2 \<le> 0)"
    by (simp add: m2_def m1_def reply_act_def reply_element_def reply_emit_def Let_def assms(4))
  moreover have "buffer \<noteq> []" "cl_body_start m \<le> length buffer" using assms(3,4) by (simp_all add: crlf_def)
  ultimately show ?thesis
    using reply_execute_eq [OF _ assms(5) _ l]
    by (simp add: httpclient_parser_finish_def httpclient_parser_has_error_def
        httpclient_parser_error_def httpclient_parser_is_finished_def reply_first_final_def)
qed

section \<open>The class\<close>

record 'f response_parser =
  cp :: httpclient_parser
  resp :: "'f response"
  cerror :: int

definition new_response_parser :: "httpclient_parser \<Rightarrow> 'f response_parser" where
  "new_response_parser raw =
     \<lparr>cp = (httpclient_parser_init raw)\<lparr>cl_hooks := [HookReason, HookStatusCode, HookChunkSize,
              HookReplyVersion, HookReplyDone, HookLastChunk, HookHttpField], cl_emitted := []\<rparr>,
      resp = new_response, cerror = 0\<rparr>"

text \<open>The callbacks.\<close>

definition onResponseReason :: "bytes \<Rightarrow> nat \<Rightarrow> nat \<Rightarrow> 'f response_parser \<Rightarrow> fault + 'f response_parser" where
  "onResponseReason buffer at len rp =
     ebind (range_at buffer at len) (\<lambda>s. Inr (rp\<lparr>resp := (resp rp)\<lparr>statusMessage := s\<rparr>\<rparr>))"

text \<open>
  \<open>HttpStatus\<close> has no fixed underlying type and its largest enumerator is 404, so converting a
  number outside 0 to 511 to it is undefined.
\<close>

definition onResponseStatus :: "bytes \<Rightarrow> nat \<Rightarrow> nat \<Rightarrow> 'f response_parser \<Rightarrow> fault + 'f response_parser" where
  "onResponseStatus buffer at len rp =
     (let status = to_int (strtol 10 (drop at buffer)) in
      if 0 \<le> status \<and> status < 512 then Inr (rp\<lparr>resp := (resp rp)\<lparr>statusCode := nat status\<rparr>\<rparr>)
      else Inl Out_of_range)"

definition onResponseHttpField :: "bytes \<Rightarrow> nat \<Rightarrow> nat \<Rightarrow> nat \<Rightarrow> nat \<Rightarrow> 'f response_parser
    \<Rightarrow> fault + 'f response_parser" where
  "onResponseHttpField buffer field flen v vlen rp =
     (if flen = 0 then Inr rp
      else ebind (range_at buffer field flen) (\<lambda>key. ebind (range_at buffer v vlen) (\<lambda>value.
        Inr (rp\<lparr>resp := addHeader key value (resp rp)\<rparr>))))"

fun on_reply_event :: "bytes \<Rightarrow> reply_event \<Rightarrow> 'f response_parser \<Rightarrow> fault + 'f response_parser" where
  "on_reply_event buffer (ReplyElement h at len) rp =
     (if h = HookReason then onResponseReason buffer at len rp
      else if h = HookStatusCode then onResponseStatus buffer at len rp
      else Inr rp)"
| "on_reply_event buffer (ReplyField f flen v vlen) rp = onResponseHttpField buffer f flen v vlen rp"

fun on_reply_events :: "bytes \<Rightarrow> reply_event list \<Rightarrow> 'f response_parser \<Rightarrow> fault + 'f response_parser" where
  "on_reply_events buffer [] rp = Inr rp"
| "on_reply_events buffer (e # es) rp = ebind (on_reply_event buffer e rp) (on_reply_events buffer es)"

definition cp_isFinished :: "'f response_parser \<Rightarrow> int" where
  "cp_isFinished rp = httpclient_parser_finish (cp rp)"

definition cp_hasError :: "'f response_parser \<Rightarrow> bool" where
  "cp_hasError rp \<longleftrightarrow> cerror rp \<noteq> 0 \<or> httpclient_parser_has_error (cp rp)"

text \<open>
  The byte that follows the readable ones is in the vector unless the buffer is full. The
  result of the C function is an \<open>int\<close>; -1 becomes the largest \<open>size_t\<close>, and the pointer that
  is formed with it lies one byte below \<open>peek()\<close>, which the first assert of \<open>retrieveUntil\<close>
  refuses.
\<close>

definition byte_behind :: "buffer \<Rightarrow> char option" where
  "byte_behind b = (if writerIndex b < length (buf b) then Some (buf b ! writerIndex b) else None)"

definition cp_execute :: "'f response_parser \<Rightarrow> buffer \<Rightarrow> fault + (nat \<times> 'f response_parser \<times> buffer)" where
  "cp_execute rp data =
     (if cp_isFinished rp = 0 then
        ebind (httpclient_parser_execute ((cp rp)\<lparr>cl_emitted := []\<rparr>) (contents data) (byte_behind data) 0) (\<lambda>(n, m).
        ebind (on_reply_events (contents data) (cl_emitted m) (rp\<lparr>cp := m\<rparr>)) (\<lambda>rp'.
        ebind (if n < 0 then Inl Assert_failed else retrieveUntil data (peek data + nat n)) (\<lambda>data'.
          Inr (nat n, rp', data'))))
      else Inr (0, rp, data))"

definition cp_reset :: "'f response_parser \<Rightarrow> 'f response_parser" where
  "cp_reset rp = rp\<lparr>cp := httpclient_parser_init (cp rp), resp := new_response\<rparr>"

section \<open>The response object of a response\<close>

lemma on_reply_events_append:
  "on_reply_events buffer (es @ fs) rp = ebind (on_reply_events buffer es rp) (on_reply_events buffer fs)"
proof (induction es arbitrary: rp)
  case (Cons e es)
  then show ?case by (cases "on_reply_event buffer e rp") simp_all
qed simp

text \<open>The events with the items they are read back as.\<close>

lemma piece_length: "fits buffer at len \<Longrightarrow> length (piece buffer at len) = len"
  using piece_drop [of buffer at len] by blast

lemma reply_element_cases:
  assumes "reply_item_of buffer e = ReplyItem h s"
  obtains at where "e = ReplyElement h at (length s)" "fits buffer at (length s)" "s = piece buffer at (length s)"
proof (cases e)
  case (ReplyElement h' at len)
  with assms that [of at] piece_length show ?thesis by (auto split: if_splits)
next
  case (ReplyField f flen a alen)
  with assms show ?thesis by (simp split: if_splits)
qed

lemma reply_field_cases:
  assumes "reply_item_of buffer e = ReplyFieldItem k v"
  obtains f a where "e = ReplyField f (length k) a (length v)" "fits buffer f (length k)" "fits buffer a (length v)"
    "k = piece buffer f (length k)" "v = piece buffer a (length v)"
proof (cases e)
  case (ReplyElement h' at len)
  with assms show ?thesis by (simp split: if_splits)
next
  case (ReplyField f flen a alen)
  with assms that [of f a] piece_length show ?thesis by (auto split: if_splits)
qed

fun add_headers :: "reply_header list \<Rightarrow> 'f response \<Rightarrow> 'f response" where
  "add_headers [] r = r"
| "add_headers ((s, b, v) # hs) r = add_headers hs (addHeader s v r)"

lemma on_reply_headers:
  "map (reply_item_of buffer) es = map reply_header_item hs \<Longrightarrow> \<forall>h \<in> set hs. reply_header_ok h \<Longrightarrow>
     on_reply_events buffer es rp = Inr (rp\<lparr>resp := add_headers hs (resp rp)\<rparr>)"
proof (induction hs arbitrary: es rp)
  case (Cons h hs)
  obtain s b v where h: "h = (s, b, v)" by (cases h)
  obtain e fs where es: "es = e # fs" "reply_item_of buffer e = ReplyFieldItem s v"
      "map (reply_item_of buffer) fs = map reply_header_item hs"
    using Cons.prems(1) h by (cases es) (auto simp: reply_header_item_def)
  have "s \<noteq> []" using Cons.prems(2) h by (simp add: reply_header_ok_def)
  then have "on_reply_event buffer e rp = Inr (rp\<lparr>resp := addHeader s v (resp rp)\<rparr>)"
    using reply_field_cases [OF es(2)] by (fastforce simp: onResponseHttpField_def range_at_def fits_def)
  with Cons.IH [OF es(3), of "rp\<lparr>resp := addHeader s v (resp rp)\<rparr>"] Cons.prems(2) es(1) h show ?case by simp
qed simp

text \<open>The number the status callback reads is the one the machine has stored.\<close>

fun status_at :: "reply_event \<Rightarrow> nat option" where
  "status_at (ReplyElement h at len) = (if h = HookStatusCode then Some at else None)"
| "status_at (ReplyField f flen v vlen) = None"

definition status_seen :: "bytes \<Rightarrow> httpclient_parser \<Rightarrow> bool" where
  "status_seen buffer m \<longleftrightarrow> (let es = List.map_filter status_at (cl_emitted m) in
     HookStatusCode \<in> set (cl_hooks m) \<and> (es \<noteq> [] \<longrightarrow> to_int (strtol 10 (drop (last es) buffer)) = cl_status m))"

lemma map_filter_one: "List.map_filter f (xs @ [x]) = List.map_filter f xs @ (case f x of None \<Rightarrow> [] | Some y \<Rightarrow> [y])"
  by (induction xs) (auto simp: map_filter_simps split: option.splits)

lemma status_seen_act: "status_seen buffer m \<Longrightarrow> status_seen buffer (reply_act buffer q a m)"
  by (cases a) (auto simp: status_seen_def reply_act_def reply_element_def reply_emit_def map_filter_one Let_def)

lemma status_seen_run:
  assumes "reply_loop buffer p s n m = (p', n', m')" and "status_seen buffer m"
  shows "status_seen buffer m'"
  by (rule ragel_run_inv [where Q = "\<lambda>_. status_seen buffer", OF _ _ assms]) (erule status_seen_act, assumption)

lemma on_reply_parts:
  assumes "map (reply_item_of buffer) es = reply_parts t x" and "reply_text_ok t"
    and "List.map_filter status_at es \<noteq> [] \<longrightarrow> to_int (strtol 10 (drop (last (List.map_filter status_at es)) buffer)) = v"
  shows "on_reply_events buffer es rp = (if 0 \<le> v \<and> v < 512 then Inr (rp\<lparr>resp := add_headers (pheaders t)
     ((resp rp)\<lparr>statusCode := nat v, statusMessage := preason t\<rparr>)\<rparr>) else Inl Out_of_range)"
proof -
  obtain e1 e2 e3 fs d where es: "es = [e1, e2, e3] @ fs @ [d]"
      "reply_item_of buffer e1 = ReplyItem HookReplyVersion (version_part t)"
      "reply_item_of buffer e2 = ReplyItem HookStatusCode (pstatus t)"
      "reply_item_of buffer e3 = ReplyItem HookReason (preason t)"
      "map (reply_item_of buffer) fs = map reply_header_item (pheaders t)"
      "reply_item_of buffer d = ReplyItem HookReplyDone x"
    using assms(1) by (auto simp: reply_parts_def map_eq_append_conv map_eq_Cons_conv)
  obtain a1 where e1: "e1 = ReplyElement HookReplyVersion a1 (length (version_part t))"
    using reply_element_cases [OF es(2)] .
  obtain a2 where e2: "e2 = ReplyElement HookStatusCode a2 (length (pstatus t))"
    using reply_element_cases [OF es(3)] .
  obtain a3 where e3: "e3 = ReplyElement HookReason a3 (length (preason t))"
      "fits buffer a3 (length (preason t))" "preason t = piece buffer a3 (length (preason t))"
    using reply_element_cases [OF es(4)] .
  obtain a4 where d: "d = ReplyElement HookReplyDone a4 (length x)" using reply_element_cases [OF es(6)] .
  have "status_at e = None" if "e \<in> set fs" for e
  proof -
    have "reply_item_of buffer e \<in> set (map (reply_item_of buffer) fs)" using that by simp
    then obtain h where "reply_item_of buffer e = reply_header_item h" unfolding es(5) by auto
    then show ?thesis by (cases e; cases h) (auto simp: reply_header_item_def split: if_splits)
  qed
  then have "List.map_filter status_at fs = []" by (simp add: map_filter_def)
  then have "List.map_filter status_at es = [a2]"
    by (simp add: es(1) e1 e2 e3(1) d map_filter_one map_filter_simps)
  then have v: "to_int (strtol 10 (drop a2 buffer)) = v" using assms(3) by simp
  have hs: "\<forall>h \<in> set (pheaders t). reply_header_ok h" using assms(2) by (simp add: reply_text_ok_def)
  define r where "r = (resp rp)\<lparr>statusCode := nat v, statusMessage := preason t\<rparr>"
  have "range_at buffer a3 (length (preason t)) = Inr (preason t)"
    using e3(2) e3(3) [symmetric] by (simp add: range_at_def fits_def)
  then have first: "on_reply_events buffer [e1, e2, e3] rp
      = (if 0 \<le> v \<and> v < 512 then Inr (rp\<lparr>resp := r\<rparr>) else Inl Out_of_range)"
    using v by (simp add: e1 e2 e3(1) onResponseStatus_def onResponseReason_def r_def)
  have close: "on_reply_events buffer [d] rp' = Inr rp'" for rp' :: "'a response_parser"
    by (simp add: d)
  show ?thesis
    unfolding es(1) on_reply_events_append first
    by (simp add: on_reply_headers [OF es(5) hs] close r_def del: on_reply_events.simps)
qed

text \<open>The header map: sorted, and of equal names the first value stays.\<close>

lemma map_insert_keys: "set (map fst (map_insert k v xs)) = insert k (set (map fst xs))"
proof (induction xs)
  case (Cons p xs)
  then show ?case by (cases p) auto
qed simp

lemma map_insert_sorted: "sorted (map fst xs) \<Longrightarrow> distinct (map fst xs) \<Longrightarrow>
    sorted (map fst (map_insert k v xs)) \<and> distinct (map fst (map_insert k v xs))"
proof (induction xs)
  case (Cons p xs)
  obtain k' v' where p: "p = (k', v')" by (cases p)
  have keys: "fst ` set (map_insert k v xs) = insert k (fst ` set xs)" using map_insert_keys [of k v xs] by simp
  have "sorted (map fst (map_insert k v xs))" "distinct (map fst (map_insert k v xs))"
    using Cons by auto
  with Cons.prems p keys show ?case by (auto simp: image_iff)
qed simp

lemma map_insert_lookup: "sorted (map fst xs) \<Longrightarrow>
    map_of (map_insert k v xs) = (case map_of xs k of None \<Rightarrow> (map_of xs)(k \<mapsto> v) | Some w \<Rightarrow> map_of xs)"
proof (induction xs)
  case (Cons p xs)
  obtain k' v' where p: "p = (k', v')" by (cases p)
  show ?case
  proof (cases "k < k'")
    case True
    then have "k \<notin> fst ` set xs" using Cons.prems p by auto
    then have "map_of xs k = None" by (simp add: map_of_eq_None_iff)
    with True p show ?thesis by auto
  next
    case False
    with Cons p show ?thesis by (auto simp: fun_eq_iff split: option.splits)
  qed
qed auto

definition header_entry :: "reply_header \<Rightarrow> bytes \<times> bytes" where
  "header_entry h = (case h of (s, b, v) \<Rightarrow> (s, c_str v))"

lemma reply_token_no_nul: "\<forall>ch \<in> set s. reply_token (schar ch) \<Longrightarrow> c_str s = s"
  by (rule no_nul_c_str) (auto simp: no_nul_def reply_token_def kNul_def schar_def)

lemma add_headers_lookup:
  "\<forall>h \<in> set hs. reply_header_ok h \<Longrightarrow> sorted (map fst (sheaders r)) \<Longrightarrow> distinct (map fst (sheaders r)) \<Longrightarrow>
     map_of (sheaders (add_headers hs r)) = map_of (sheaders r @ map header_entry hs)"
proof (induction hs arbitrary: r)
  case (Cons h hs)
  obtain s b v where h: "h = (s, b, v)" by (cases h)
  have s: "c_str s = s" using Cons.prems(1) h reply_token_no_nul by (auto simp: reply_header_ok_def)
  let ?r = "addHeader s v r"
  have "sorted (map fst (sheaders ?r)) \<and> distinct (map fst (sheaders ?r))"
    using map_insert_sorted Cons.prems(2,3) by (simp add: addHeader_def)
  with Cons.IH [of ?r] Cons.prems(1) h
  have "map_of (sheaders (add_headers (h # hs) r)) = map_of (map header_entry hs) ++ map_of (sheaders ?r)" by simp
  also have "map_of (sheaders ?r) = [s \<mapsto> c_str v] ++ map_of (sheaders r)"
    using map_insert_lookup [OF Cons.prems(2), of s "c_str v"] s
    by (auto simp: addHeader_def map_add_def fun_eq_iff split: option.splits)
  finally show ?case using h by (simp add: header_entry_def map_add_assoc)
qed simp

lemma add_headers_status [simp]: "statusCode (add_headers hs r) = statusCode r"
    "statusMessage (add_headers hs r) = statusMessage r"
  by (induction hs r rule: add_headers.induct) (simp_all add: addHeader_def)

section \<open>Executing on a buffer\<close>

definition cp_ready :: "'f response_parser \<Rightarrow> bool" where
  "cp_ready rp \<longleftrightarrow> reply_all_hooks (cp rp) \<and> cl_cs (cp rp) = 1 \<and> cl_body_start (cp rp) = 0 \<and> resp rp = new_response"

lemma new_response_parser_ready: "cp_ready (new_response_parser raw)"
proof -
  have "h \<in> set (cl_hooks (cp (new_response_parser raw)))" for h
    by (cases h) (simp_all add: new_response_parser_def)
  then show ?thesis
    by (simp add: cp_ready_def reply_all_hooks_def)
       (simp add: new_response_parser_def httpclient_parser_init_def httpclient_parser_start_def)
qed

lemma digits_value_mono: "\<forall>ch \<in> set s. 0 \<le> digit_value ch \<Longrightarrow> 0 \<le> acc \<Longrightarrow> 1 \<le> base \<Longrightarrow> acc \<le> digits_value base acc s"
proof (induction s arbitrary: acc)
  case (Cons ch s)
  have "acc \<le> acc * base" using Cons.prems(2,3) by (simp add: mult_le_cancel_left1)
  then have "acc \<le> acc * base + digit_value ch" using Cons.prems(1) by auto
  moreover have "acc * base + digit_value ch \<le> digits_value base (acc * base + digit_value ch) s"
    using Cons.prems \<open>acc \<le> acc * base + digit_value ch\<close> by (intro Cons.IH) auto
  ultimately show ?case by auto
qed simp

lemma small_status:
  assumes "digits s" and "digits_value 10 0 s < 512"
  shows "to_int (saturate (digits_value 10 0 s)) = digits_value 10 0 s \<and> 0 \<le> digits_value 10 0 s"
proof -
  have "0 \<le> digits_value 10 0 s"
    using assms(1) by (intro digits_value_mono) (auto simp: digits_def digit_values)
  with assms(2) show ?thesis by (simp add: saturate_def to_int_id)
qed

text \<open>The \<open>int\<close> that \<open>atoi\<close> makes of a status: it saturates at the range of \<open>long\<close> and is cut to 32 bits.\<close>

definition status_int :: "bytes \<Rightarrow> int" where
  "status_int s = to_int (saturate (digits_value 10 0 s))"

lemma cp_execute_reply:
  assumes "cp_ready rp" and "reply_text_ok t" and "buf_wf b" and "contents b = reply_bytes t @ x"
    and "length (contents b) < 2 ^ 31" and "byte_behind b = Some CHR 0x00"
  shows "\<not> (0 \<le> status_int (pstatus t) \<and> status_int (pstatus t) < 512) \<Longrightarrow> cp_execute rp b = Inl Out_of_range"
    and "0 \<le> status_int (pstatus t) \<Longrightarrow> status_int (pstatus t) < 512 \<Longrightarrow>
     \<exists>rp' b'. cp_execute rp b = Inr (length (reply_bytes t), rp', b') \<and> buf_wf b' \<and> contents b' = x
     \<and> resp rp' = add_headers (pheaders t) (new_response\<lparr>statusCode := nat (status_int (pstatus t)),
          statusMessage := preason t\<rparr>)
     \<and> cl_cs (cp rp') = ragel_cs reply_valid reply_step rbreaks (contents b) 1
     \<and> (ends_in_value t \<longrightarrow> cp_isFinished rp' = 1)"
proof -
  let ?B = "contents b" and ?v = "status_int (pstatus t)" and ?n = "length (reply_bytes t)"
  define m where "m = (cp rp)\<lparr>cl_emitted := []\<rparr>"
  have m: "reply_all_hooks m" "cl_cs m = 1" "cl_body_start m = 0" "cl_emitted m = []"
    using assms(1) by (simp_all add: m_def cp_ready_def reply_all_hooks_def)
  have h: "reply_all_hooks (reply_entered m)" using m(1) by (simp add: reply_all_hooks_def reply_entered_def)
  obtain k m1 where 1: "reply_loop ?B 0 ?B 1 (reply_entered m) = (?n, k, m1)"
      "120 \<le> k" "ends_in_value t \<longrightarrow> k = 120"
      "reply_items ?B m1 = reply_items ?B (reply_entered m) @ reply_parts t x" "cl_status m1 = ?v"
    using run_reply [OF assms(2) h assms(4)] by (auto simp: status_int_def)
  define m2 where "m2 = m1\<lparr>cl_cs := k, cl_nread := ?n\<rparr>"
  have ne: "?B \<noteq> []" using assms(4) by (simp add: reply_bytes_def version_part_def)
  have e: "httpclient_parser_execute m ?B (byte_behind b) 0 = Inr (int ?n, m2)"
    using reply_execute_eq [OF ne assms(5), of m ?n k m1] 1(1) m(2,3) assms(6) by (simp add: m2_def)
  have "map (reply_item_of ?B) (cl_emitted m1) = reply_parts t x"
    using 1(4) m(4) by (simp add: reply_items_def reply_entered_def)
  moreover have "status_seen ?B (reply_entered m)"
    using m(1,4) by (simp add: status_seen_def reply_entered_def reply_all_hooks_def map_filter_simps)
  from status_seen_run [OF 1(1) this]
  have "List.map_filter status_at (cl_emitted m1) \<noteq> [] \<longrightarrow>
      to_int (strtol 10 (drop (last (List.map_filter status_at (cl_emitted m1))) ?B)) = ?v"
    by (simp add: status_seen_def Let_def 1(5))
  ultimately have ev: "on_reply_events ?B (cl_emitted m2) (rp\<lparr>cp := m2\<rparr>)
      = (if 0 \<le> ?v \<and> ?v < 512 then Inr (rp\<lparr>cp := m2, resp := add_headers (pheaders t)
           ((resp rp)\<lparr>statusCode := nat ?v, statusMessage := preason t\<rparr>)\<rparr>) else Inl Out_of_range)"
    using on_reply_parts [OF _ assms(2), of ?B "cl_emitted m1" x ?v "rp\<lparr>cp := m2\<rparr>"]
    by (simp add: m2_def)
  obtain b' where b': "retrieveUntil b (peek b + ?n) = Inr b'" "buf_wf b'" "contents b' = x"
    using retrieveUntil_spec [OF assms(3), of ?n] assms(4) by auto
  have f: "cp_isFinished rp = 0"
    using assms(1) by (simp add: cp_isFinished_def httpclient_parser_finish_def httpclient_parser_has_error_def
        httpclient_parser_error_def httpclient_parser_is_finished_def reply_first_final_def cp_ready_def)
  show "cp_execute rp b = Inl Out_of_range" if "\<not> (0 \<le> ?v \<and> ?v < 512)"
    using that f e ev by (auto simp: cp_execute_def m_def [symmetric])
  assume "0 \<le> ?v" "?v < 512"
  with f e ev b' have "cp_execute rp b = Inr (?n, rp\<lparr>cp := m2, resp := add_headers (pheaders t)
      ((resp rp)\<lparr>statusCode := nat ?v, statusMessage := preason t\<rparr>)\<rparr>, b')"
    by (simp add: cp_execute_def m_def [symmetric])
  moreover have "ends_in_value t \<longrightarrow> httpclient_parser_finish m2 = 1"
    using 1(3) by (simp add: m2_def httpclient_parser_finish_def httpclient_parser_has_error_def
        httpclient_parser_error_def httpclient_parser_is_finished_def reply_first_final_def)
  ultimately show "\<exists>rp' b'. cp_execute rp b = Inr (?n, rp', b') \<and> buf_wf b' \<and> contents b' = x
     \<and> resp rp' = add_headers (pheaders t) (new_response\<lparr>statusCode := nat ?v, statusMessage := preason t\<rparr>)
     \<and> cl_cs (cp rp') = ragel_cs reply_valid reply_step rbreaks ?B 1 \<and> (ends_in_value t \<longrightarrow> cp_isFinished rp' = 1)"
    using b' ragel_run_cs [OF 1(1)] assms(1) by (simp add: cp_isFinished_def cp_ready_def m2_def)
qed

section \<open>Properties\<close>

text \<open>
  C13: \<open>HttpResponseParser::execute\<close> on a well-formed buffer below 2 GiB with the text of a
  response (of the form \<open>reply_text_ok\<close> describes) and anything behind it, with a parser at
  the start of a response. It depends on two things that the text does not say. When the
  byte behind the readable ones is not a NUL, or there is none, the call faults: an assert
  of the C function fails, or the byte is read behind the vector. When it is a NUL but the
  \<open>int\<close> that \<open>atoi\<close> makes of the status is not in 0 to 511, the conversion to \<open>HttpStatus\<close> is
  undefined. Otherwise exactly the text up to the blank line is consumed, and the
  \<open>HttpResponse\<close> has its status, its reason and its headers (the first of equal names); it
  is finished when it has no header or the last one has a value.
\<close>

theorem response_received:
  assumes "cp_ready rp" and "reply_text_ok t" and "buf_wf b" and "contents b = reply_bytes t @ x"
    and "length (contents b) < 2 ^ 31" and "status = status_int (pstatus t)"
  shows "if byte_behind b = None then cp_execute rp b = Inl Out_of_range
     else if byte_behind b \<noteq> Some CHR 0x00 then cp_execute rp b = Inl Assert_failed
     else if status < 0 \<or> 512 \<le> status then cp_execute rp b = Inl Out_of_range
     else \<exists>rp' b'. cp_execute rp b = Inr (length (reply_bytes t), rp', b') \<and> contents b' = x
       \<and> statusCode (resp rp') = nat status \<and> statusMessage (resp rp') = preason t
       \<and> map_of (sheaders (resp rp')) = map_of (map header_entry (pheaders t))
       \<and> (ends_in_value t \<longrightarrow> cp_isFinished rp' = 1)"
proof (cases "byte_behind b = Some CHR 0x00")
  case False
  have "cp_isFinished rp = 0"
    using assms(1) by (simp add: cp_isFinished_def httpclient_parser_finish_def httpclient_parser_has_error_def
        httpclient_parser_error_def httpclient_parser_is_finished_def reply_first_final_def cp_ready_def)
  with False show ?thesis
    by (auto simp: cp_execute_def httpclient_parser_execute_def split: option.split)
next
  case nul: True
  let ?r = "new_response\<lparr>statusCode := nat status, statusMessage := preason t\<rparr>"
  have "\<forall>h \<in> set (pheaders t). reply_header_ok h" using assms(2) by (simp add: reply_text_ok_def)
  from add_headers_lookup [OF this, of ?r]
  have "map_of (sheaders (add_headers (pheaders t) ?r)) = map_of (map header_entry (pheaders t))"
    by (simp add: new_response_def)
  with nul cp_execute_reply [OF assms(1-5) nul, folded assms(6)] show ?thesis by fastforce
qed

definition sample_reply :: reply_text where
  "sample_reply = \<lparr>pmajor = ''1'', pminor = ''1'', pstatus = ''404'', preason = ''Not Found'',
     pheaders = [(''Host'', '' '', ''h''), (''Host'', [], ''g'')]\<rparr>"

lemma sample_reply_ok: "reply_text_ok sample_reply"
  by (simp add: reply_text_ok_def sample_reply_def digits_def reply_header_ok_def reply_token_def blank_def
      in_line_def schar_def)

definition raw_client :: httpclient_parser where
  "raw_client = \<lparr>cl_cs = 0, cl_body_start = 0, cl_content_len = 0, cl_status = 0, cl_chunked = False,
     cl_chunks_done = False, cl_close = False, cl_nread = 0, cl_mark = 0, cl_field_start = 0, cl_field_len = 0,
     cl_hooks = [], cl_emitted = []\<rparr>"

definition nul_buffer :: "bytes \<Rightarrow> buffer" where
  "nul_buffer d = (text_buffer d)\<lparr>buf := buf (text_buffer d) @ [CHR 0x00]\<rparr>"

lemma nul_buffer [simp]: "buf_wf (nul_buffer d)" "contents (nul_buffer d) = d" "byte_behind (nul_buffer d) = Some CHR 0x00"
  by (simp_all add: nul_buffer_def text_buffer_def buf_wf_def contents_def slice_def byte_behind_def nth_append)

lemma response_received_witness:
  "\<exists>rp' b'. cp_execute (new_response_parser raw_client) (nul_buffer (reply_bytes sample_reply @ ''HTTP''))
       = Inr (length (reply_bytes sample_reply), rp', b') \<and> contents b' = ''HTTP''
     \<and> statusCode (resp rp') = 404 \<and> map_of (sheaders (resp rp')) ''Host'' = Some ''h'' \<and> cp_isFinished rp' = 1"
proof -
  have "length (reply_bytes sample_reply @ ''HTTP'') < 2 ^ 31"
    by (simp add: reply_bytes_def version_part_def sample_reply_def reply_header_text_def crlf_def)
  moreover have "status_int (pstatus sample_reply) = 404"
    using small_status [of "pstatus sample_reply"]
    by (simp add: status_int_def sample_reply_def digits_def digit_value_def schar_def)
  moreover have "ends_in_value sample_reply" by (simp add: ends_in_value_def sample_reply_def)
  moreover have "map_of (map header_entry (pheaders sample_reply)) ''Host'' = Some ''h''"
    by (simp add: sample_reply_def header_entry_def c_str_def kNul_def)
  ultimately show ?thesis
    using response_received [OF new_response_parser_ready sample_reply_ok nul_buffer(1), of "reply_bytes sample_reply @ ''HTTP''" "''HTTP''" 404 raw_client]
    by force
qed

text \<open>
  C18: on any non-empty input below 2 GiB that is followed by a NUL, in the middle of a response,
  no assert of \<open>httpclient_parser_execute\<close> fails, it returns a length and not -1, reads no
  more than the input, and has read all of it unless it is done or in error.
\<close>

theorem reply_execute_safe:
  assumes "buffer \<noteq> []" and "length buffer < 2 ^ 31" and "cl_body_start m \<le> length buffer"
    and "reply_valid (cl_cs m)" and "cl_cs m < 120"
  shows "\<exists>n m'. httpclient_parser_execute m buffer (Some CHR 0x00) 0 = Inr (int n, m') \<and> n \<le> length buffer
     \<and> (cl_cs m' = 0 \<or> reply_valid (cl_cs m')) \<and> (httpclient_parser_finish m' = 0 \<and> cl_cs m' < 120 \<longrightarrow> n = length buffer)"
proof -
  obtain p n m1 where l: "reply_loop buffer 0 buffer (cl_cs m) (reply_entered m) = (p, n, m1)"
    by (metis prod_cases3)
  have g: "reply.going (cl_cs m)" using assms(4,5) unfolding reply.going_def by (simp add: reply_first_final_def)
  have rng: "n = 0 \<or> reply_valid n"
    using ragel_run_cs [OF l] reply.control_range [OF assms(4)] by simp
  have "p = length buffer" if "n \<noteq> 0" "n < 120"
    using reply.consumed_all [OF l g] that rng unfolding reply.going_def by (simp add: reply_first_final_def)
  with reply_execute_eq [OF assms(1-3) l] rng show ?thesis
    by (auto simp: httpclient_parser_finish_def httpclient_parser_has_error_def httpclient_parser_error_def
        split: if_splits)
qed

lemma reply_execute_safe_witness:
  "\<exists>n m'. httpclient_parser_execute (httpclient_parser_init raw_client) ''HTTP/1.'' (Some CHR 0x00) 0 = Inr (int n, m')
     \<and> n \<le> 7"
  using reply_execute_safe [of "''HTTP/1.''" "httpclient_parser_init raw_client"]
  by (force simp: httpclient_parser_init_def httpclient_parser_start_def reply_valid_def)

text \<open>
  a line with a chunk size ends the machine right behind the line with that size, if it is
  below 2 GiB; a larger one becomes a negative number and is taken for the last chunk.
\<close>

theorem chunk_size_read:
  assumes "hex_digits s" and "cl_cs m = 1" and "cl_body_start m = 0" and "buffer = s @ crlf @ x"
    and "length buffer < 2 ^ 31" and "digits_value 16 0 s < 2 ^ 32"
  shows "\<exists>m'. httpclient_parser_execute m buffer (Some CHR 0x00) 0 = Inr (int (length s + 2), m')
     \<and> httpclient_parser_finish m' = 1 \<and> cl_chunked m'
     \<and> cl_content_len m' = (if digits_value 16 0 s < 2 ^ 31 then digits_value 16 0 s else digits_value 16 0 s - 2 ^ 32)
     \<and> (cl_chunks_done m' \<longleftrightarrow> digits_value 16 0 s = 0 \<or> 2 ^ 31 \<le> digits_value 16 0 s)"
proof -
  let ?v = "digits_value 16 0 s"
  have nn: "0 \<le> ?v"
    using assms(1) hex_steps by (intro digits_value_nonneg) (auto simp: hex_digits_def)
  have "saturate ?v = ?v" using nn assms(6) by (simp add: saturate_def)
  moreover have "to_int ?v = (if ?v < 2 ^ 31 then ?v else ?v - 2 ^ 32)"
  proof (cases "?v < 2 ^ 31")
    case True
    with nn show ?thesis by (simp add: to_int_id)
  next
    case False
    have "(word_of_int ?v :: 32 word) = word_of_int (?v - 2 ^ 32)"
      by (simp only: word_of_int_eq_iff take_bit_eq_mod) simp
    then have "to_int ?v = to_int (?v - 2 ^ 32)" by (simp only: to_int_def)
    with False assms(6) show ?thesis by (simp add: to_int_id)
  qed
  ultimately show ?thesis using execute_chunk [OF assms(1-5)] nn assms(6) by (auto split: if_splits)
qed

lemma chunk_size_read_witness:
  "\<exists>m'. httpclient_parser_execute (httpclient_parser_init raw_client) (''80000000'' @ crlf) (Some CHR 0x00) 0 = Inr (10, m')
     \<and> cl_content_len m' = - (2 ^ 31) \<and> cl_chunks_done m'"
proof -
  have "hex_digits ''80000000''" by (simp add: hex_digits_def schar_def)
  moreover have "digits_value 16 0 ''80000000'' = 2 ^ 31" by (simp add: digit_value_def schar_def)
  ultimately show ?thesis
    using chunk_size_read [of "''80000000''" "httpclient_parser_init raw_client" "''80000000'' @ crlf" "[]"]
    by (force simp: httpclient_parser_init_def httpclient_parser_start_def crlf_def)
qed

definition blank_reply :: "bytes \<Rightarrow> reply_text" where
  "blank_reply name = \<lparr>pmajor = ''1'', pminor = ''1'', pstatus = ''200'', preason = ''OK'',
     pheaders = [(name, [], [])]\<rparr>"

lemma blank_reply_run:
  "ragel_cs reply_valid reply_step rbreaks (reply_bytes (blank_reply ''Connection'')) 1 = 122" 
  "ragel_cs reply_valid reply_step rbreaks (reply_bytes (blank_reply ''Content-Length'')) 1 = 123" 
  "ragel_cs reply_valid reply_step rbreaks (reply_bytes (blank_reply ''Transfer-Encoding'')) 1 = 121" 
  by code_simp+

text \<open>
  a response whose only header is an empty Connection, Content-Length or
  Transfer-Encoding is read to its end, but \<open>isFinished\<close> stays 0, since the machine ends in
  one of three accepting states that the test does not include.
\<close>

theorem empty_value_unfinished:
  assumes "name = ''Connection'' \<or> name = ''Content-Length'' \<or> name = ''Transfer-Encoding''"
    and "cp_ready rp" and "buf_wf b" and "contents b = reply_bytes (blank_reply name)"
    and "byte_behind b = Some CHR 0x00"
  shows "\<exists>rp' b'. cp_execute rp b = Inr (length (contents b), rp', b') \<and> contents b' = []
     \<and> statusCode (resp rp') = 200 \<and> cp_isFinished rp' = 0"
proof -
  have ok: "reply_text_ok (blank_reply name)"
    using assms(1) by (elim disjE) (simp_all add: reply_text_ok_def blank_reply_def digits_def reply_header_ok_def
        reply_token_def in_line_def schar_def)
  have v: "status_int (pstatus (blank_reply name)) = 200"
    using small_status [of "pstatus (blank_reply name)"]
    by (simp add: status_int_def blank_reply_def digits_def digit_value_def schar_def)
  have len: "length (contents b) < 2 ^ 31"
    using assms(1) unfolding assms(4)
    by (elim disjE) (simp_all add: reply_bytes_def version_part_def blank_reply_def reply_header_text_def crlf_def)
  have "ragel_cs reply_valid reply_step rbreaks (reply_bytes (blank_reply name)) 1 \<in> {121, 122, 123}"
    using assms(1) by (elim disjE) (simp_all only: blank_reply_run, simp_all)
  moreover obtain rp' b' where "cp_execute rp b = Inr (length (reply_bytes (blank_reply name)), rp', b')" "contents b' = []"
      "resp rp' = add_headers (pheaders (blank_reply name)) (new_response\<lparr>statusCode := nat 200,
          statusMessage := preason (blank_reply name)\<rparr>)"
      "cl_cs (cp rp') = ragel_cs reply_valid reply_step rbreaks (contents b) 1"
    using cp_execute_reply(2) [OF assms(2) ok assms(3) _ len assms(5), of "[]"] v assms(4) by auto
  ultimately show ?thesis
    using assms(4)
    by (auto simp: cp_isFinished_def httpclient_parser_finish_def httpclient_parser_has_error_def
        httpclient_parser_error_def httpclient_parser_is_finished_def reply_first_final_def)
qed

lemma empty_value_unfinished_witness:
  "\<exists>rp' b'. cp_execute (new_response_parser raw_client) (nul_buffer (reply_bytes (blank_reply ''Connection'')))
       = Inr (32, rp', b') \<and> cp_isFinished rp' = 0"
proof -
  have "length (reply_bytes (blank_reply ''Connection'')) = 32"
    by (simp add: reply_bytes_def version_part_def blank_reply_def reply_header_text_def crlf_def)
  with empty_value_unfinished [OF _ new_response_parser_ready nul_buffer(1) nul_buffer(2) nul_buffer(3), of "''Connection''" raw_client]
  show ?thesis by auto
qed

text \<open>
  an assert of \<open>httpclient_parser_execute\<close> wants a NUL behind its input, which \<open>Buffer\<close> does
  not put there: a read that is shorter than the former contents of an emptied buffer
  makes it fail.
\<close>

theorem stale_byte_asserts:
  assumes "buf_wf b" and "readerIndex b = kPrepend" and "contents b = u @ ch # w" and "ch \<noteq> kNul"
    and "length v = length u" and "cp_isFinished rp = 0"
  shows "\<exists>b1. append_data (retrieveAll b) v = Inr b1 \<and> contents b1 = v \<and> cp_execute rp b1 = Inl Assert_failed"
proof -
  let ?c = "retrieveAll b" and ?n = "length u"
  have wf: "kPrepend \<le> writerIndex b" "writerIndex b \<le> length (buf b)"
    using assms(1,2) by (simp_all add: buf_wf_def)
  have "length (u @ ch # w) = writerIndex b - kPrepend"
    using arg_cong [OF assms(3), of length] wf assms(2) by (simp add: contents_def)
  then have lt: "kPrepend + ?n < writerIndex b" by simp
  have "take (writerIndex b - kPrepend) (drop kPrepend (buf b)) ! ?n = ch"
    using assms(2,3) by (simp add: contents_def slice_def)
  then have nth: "buf b ! (kPrepend + ?n) = ch" using lt wf by simp
  define b1 where "b1 = ?c\<lparr>buf := splice_at kPrepend v (buf b), writerIndex := kPrepend + ?n\<rparr>"
  have "\<not> length (buf b) - kPrepend < ?n" using lt wf by simp
  then have "append_data ?c v = Inr b1"
    using lt wf assms(5)
    by (simp add: append_data_def ensureWritableBytes_def hasWritten_def writeableBytes_def beginWrite_def
        retrieveAll_def size_sub_def b1_def)
  moreover have "contents b1 = v"
    using lt wf assms(5) slice_at_splice [of kPrepend v "buf b"] by (simp add: contents_def b1_def retrieveAll_def)
  moreover have "byte_behind b1 = Some ch"
    using lt wf assms(5) nth
    by (simp add: byte_behind_def b1_def retrieveAll_def) (simp add: splice_at_def nth_append)
  ultimately show ?thesis
    using assms(4,6) by (simp add: cp_execute_def httpclient_parser_execute_def kNul_def)
qed

lemma stale_byte_asserts_witness:
  "\<exists>b1. append_data (retrieveAll (text_buffer ''HTTP/1.1'')) ''HTTP'' = Inr b1
     \<and> cp_execute (new_response_parser raw_client) b1 = Inl Assert_failed"
proof -
  have "cp_isFinished (new_response_parser raw_client) = 0"
    by (simp add: cp_isFinished_def new_response_parser_def httpclient_parser_init_def
        httpclient_parser_start_def httpclient_parser_finish_def httpclient_parser_has_error_def
        httpclient_parser_error_def httpclient_parser_is_finished_def reply_first_final_def)
  moreover have "readerIndex (text_buffer ''HTTP/1.1'') = kPrepend" by (simp add: text_buffer_def)
  ultimately show ?thesis
    using stale_byte_asserts [of "text_buffer ''HTTP/1.1''" "''HTTP''" "CHR ''/''" "''1.1''" "''HTTP''"]
    by (auto simp: kNul_def)
qed

end
