(* ===== verification/LogStream.thy ===== *)
theory LogStream
  imports ReplyParser "HOL-Library.Signed_Division"
begin

text \<open>
  \<open>base/LogStream.h\<close>, \<open>base/LogStream.cpp\<close> and \<open>base/Logging.cpp\<close>: the fixed buffer a log
  line is put together in, the formatting of numbers, and the line that a \<open>Logger\<close> writes.
  A buffer is the whole array and the index of \<open>cur_\<close>. \<open>snprintf\<close> of a double, the thread's
  name and \<open>strerror_r\<close> are parameters.
\<close>

section \<open>FixedBuffer\<close>

definition kSmallBuffer :: nat where "kSmallBuffer = 4000"
definition kLargeBuffer :: nat where "kLargeBuffer = 4000 * 1000"

record fixed_buffer =
  fdata :: bytes
  fcur :: nat

definition new_fixed :: "nat \<Rightarrow> fixed_buffer" where
  "new_fixed SIZE = \<lparr>fdata = replicate SIZE kNul, fcur = 0\<rparr>"

definition favail :: "fixed_buffer \<Rightarrow> nat" where
  "favail b = size_sub (length (fdata b)) (fcur b)"

definition ftext :: "fixed_buffer \<Rightarrow> bytes" where
  "ftext b = take (fcur b) (fdata b)"

definition fadd :: "nat \<Rightarrow> fixed_buffer \<Rightarrow> fixed_buffer" where
  "fadd len b = b\<lparr>fcur := fcur b + len\<rparr>"

definition freset :: "fixed_buffer \<Rightarrow> fixed_buffer" where
  "freset b = b\<lparr>fcur := 0\<rparr>"

text \<open>A copy into the array; past its end it is a fault.\<close>

definition fstore :: "nat \<Rightarrow> bytes \<Rightarrow> fixed_buffer \<Rightarrow> fault + fixed_buffer" where
  "fstore at s b =
     (if at + length s \<le> length (fdata b) then Inr (b\<lparr>fdata := splice_at at s (fdata b)\<rparr>) else Inl Out_of_range)"

definition fappend :: "bytes \<Rightarrow> fixed_buffer \<Rightarrow> fault + fixed_buffer" where
  "fappend s b =
     (if length s < favail b then ebind (fstore (fcur b) s b) (\<lambda>b1. Inr (fadd (length s) b1))
      else if 0 < favail b then
        ebind (fstore (fcur b) (take (favail b) s) b) (\<lambda>b1. Inr (fadd (favail b1) b1))
      else Inr b)"

section \<open>Numbers\<close>

definition log_digits :: bytes where "log_digits = ''9876543210123456789''"
definition digitsHex :: bytes where "digitsHex = ''0123456789ABCDEF''"

text \<open>The \<open>do\<close> loop, which writes the digits from the last to the first. \<open>zero\<close> is \<open>digits + 9\<close>.\<close>

function convert_loop :: "int \<Rightarrow> bytes" where
  "convert_loop i =
     (let lsd = i smod 10; j = i sdiv 10
      in log_digits ! nat (9 + lsd) # (if j \<noteq> 0 then convert_loop j else []))"
  by pat_completeness auto
termination
  by (relation "measure (\<lambda>i. nat \<bar>i\<bar>)")
     (auto simp: signed_divide_int_def sgn_if abs_mult split: if_splits)

declare convert_loop.simps [simp del]

definition convert :: "int \<Rightarrow> bytes" where
  "convert value = rev (convert_loop value @ (if value < 0 then ''-'' else []))"

fun hex_loop :: "nat \<Rightarrow> bytes" where
  "hex_loop i = digitsHex ! (i mod 16) # (if i div 16 \<noteq> 0 then hex_loop (i div 16) else [])"

declare hex_loop.simps [simp del]

definition convertHex :: "nat \<Rightarrow> bytes" where
  "convertHex value = rev (hex_loop value)"

section \<open>LogStream\<close>

definition kMaxNumericSize :: nat where "kMaxNumericSize = 21"

text \<open>\<open>convert\<close> writes the digits and a NUL at \<open>current()\<close>; \<open>add\<close> then takes the digits in.\<close>

definition formatInteger :: "int \<Rightarrow> fixed_buffer \<Rightarrow> fault + fixed_buffer" where
  "formatInteger v b =
     (if kMaxNumericSize \<le> favail b
      then ebind (fstore (fcur b) (convert v @ [kNul]) b) (\<lambda>b1. Inr (fadd (length (convert v)) b1))
      else Inr b)"

definition put_pointer :: "nat \<Rightarrow> fixed_buffer \<Rightarrow> fault + fixed_buffer" where
  "put_pointer v b =
     (if kMaxNumericSize \<le> favail b
      then ebind (fstore (fcur b) (''0x'' @ convertHex v @ [kNul]) b) (\<lambda>b1. Inr (fadd (length (convertHex v) + 2) b1))
      else Inr b)"

text \<open>\<open>snprintf\<close> writes at most 20 characters and a NUL and returns the length of the whole text.\<close>

definition put_double :: "('d \<Rightarrow> bytes) \<Rightarrow> 'd \<Rightarrow> fixed_buffer \<Rightarrow> fault + fixed_buffer" where
  "put_double g12 v b =
     (if kMaxNumericSize \<le> favail b
      then ebind (fstore (fcur b) (take (kMaxNumericSize - 1) (g12 v) @ [kNul]) b) (\<lambda>b1. Inr (fadd (length (g12 v)) b1))
      else Inr b)"

datatype 'd log_item = LBool bool | LInt int | LPointer nat | LDouble 'd | LChar char | LCstr "bytes option" | LString bytes

fun log_put :: "('d \<Rightarrow> bytes) \<Rightarrow> 'd log_item \<Rightarrow> fixed_buffer \<Rightarrow> fault + fixed_buffer" where
  "log_put g12 (LBool s) b = fappend (if s then ''1'' else ''0'') b"
| "log_put g12 (LInt v) b = formatInteger v b"
| "log_put g12 (LPointer v) b = put_pointer v b"
| "log_put g12 (LDouble v) b = put_double g12 v b"
| "log_put g12 (LChar v) b = fappend [v] b"
| "log_put g12 (LCstr (Some str)) b = fappend (c_str str) b"
| "log_put g12 (LCstr None) b = fappend ''(null)'' b"
| "log_put g12 (LString v) b = fappend v b"

fun log_puts :: "('d \<Rightarrow> bytes) \<Rightarrow> 'd log_item list \<Rightarrow> fixed_buffer \<Rightarrow> fault + fixed_buffer" where
  "log_puts g12 [] b = Inr b"
| "log_puts g12 (x # xs) b = ebind (log_put g12 x b) (log_puts g12 xs)"

section \<open>Logger\<close>

datatype log_level = DEBUG | INFO | WARN | ERROR | FATAL

fun LogLevelName :: "log_level \<Rightarrow> bytes" where
  "LogLevelName DEBUG = ''DEBUG ''"
| "LogLevelName INFO = ''INFO  ''"
| "LogLevelName WARN = ''WARN  ''"
| "LogLevelName ERROR = ''ERROR ''"
| "LogLevelName FATAL = ''FATAL ''"

text \<open>\<open>SourceFile\<close>: what follows the last slash.\<close>

definition SourceFile :: "bytes \<Rightarrow> bytes" where
  "SourceFile s = rev (takeWhile (\<lambda>c. c \<noteq> CHR ''/'') (rev s))"

definition Logger_Impl :: "('d \<Rightarrow> bytes) \<Rightarrow> bytes \<Rightarrow> (int \<Rightarrow> bytes) \<Rightarrow> log_level \<Rightarrow> int \<Rightarrow> fault + fixed_buffer" where
  "Logger_Impl g12 tidString strerror level savedErrno =
     log_puts g12 ([LCstr (Some tidString), LCstr (Some '' ''), LCstr (Some (LogLevelName level))]
        @ (if savedErrno \<noteq> 0
           then [LCstr (Some (strerror savedErrno)), LCstr (Some '' (errno=''), LInt savedErrno, LCstr (Some '') '')]
           else []))
       (new_fixed kSmallBuffer)"

definition Logger_finish :: "('d \<Rightarrow> bytes) \<Rightarrow> bytes \<Rightarrow> int \<Rightarrow> fixed_buffer \<Rightarrow> fault + fixed_buffer" where
  "Logger_finish g12 basename line =
     log_puts g12 [LCstr (Some '' - ''), LCstr (Some basename), LChar CHR '':'', LInt line, LChar CHR 0x0A]"

text \<open>
  What a log statement does: the constructor, the insertions of the statement, and the
  destructor. The result is what \<open>g_output\<close> is given, and whether the output is flushed and
  the program aborted.
\<close>

definition log_statement :: "('d \<Rightarrow> bytes) \<Rightarrow> bytes \<Rightarrow> (int \<Rightarrow> bytes) \<Rightarrow> bytes \<Rightarrow> int \<Rightarrow> log_level \<Rightarrow> int
    \<Rightarrow> bytes option \<Rightarrow> 'd log_item list \<Rightarrow> fault + (bytes \<times> bool)" where
  "log_statement g12 tidString strerror path line level savedErrno func xs =
     ebind (Logger_Impl g12 tidString strerror level savedErrno) (\<lambda>b0.
     ebind (log_puts g12 (case func of None \<Rightarrow> [] | Some f \<Rightarrow> [LCstr (Some f), LChar CHR '' '']) b0) (\<lambda>b1.
     ebind (log_puts g12 xs b1) (\<lambda>b2.
     ebind (Logger_finish g12 (SourceFile path) line b2) (\<lambda>b3.
       Inr (ftext b3, level = FATAL)))))"

section \<open>The numbers are right\<close>

lemma log_digit: "k < 10 \<Longrightarrow> log_digits ! (9 + k) = char_of (48 + k) \<and> log_digits ! (9 - k) = char_of (48 + k)"
proof -
  have "\<forall>k \<in> set [0..<10]. log_digits ! (9 + k) = char_of (48 + k) \<and> log_digits ! (9 - k) = char_of (48 + k)"
    by code_simp
  then show "k < 10 \<Longrightarrow> ?thesis" by auto
qed

text \<open>The sign of the remainder does not matter: the table is symmetric about \<open>zero\<close>.\<close>

lemma convert_digit: "log_digits ! nat (9 + i smod 10) = char_of (48 + nat \<bar>i\<bar> mod 10)"
proof -
  define k where "k = nat \<bar>i\<bar> mod 10"
  have k: "k < 10" "int k = \<bar>i\<bar> mod 10" by (simp_all add: k_def zmod_int)
  have m: "i smod 10 = (if i < 0 then - int k else int k)"
    unfolding k(2) by (simp add: signed_modulo_int_def sgn_if)
  show ?thesis
  proof (cases "i < 0")
    case True
    then have "nat (9 + i smod 10) = 9 - k" using m by simp
    with log_digit [OF k(1)] show ?thesis by (simp add: k_def)
  next
    case False
    then have "nat (9 + i smod 10) = 9 + k" using m by simp
    with log_digit [OF k(1)] show ?thesis by (simp add: k_def)
  qed
qed

lemma convert_quotient: "nat \<bar>i sdiv 10\<bar> = nat \<bar>i\<bar> div 10"
  by (cases "i = 0") (auto simp: signed_divide_int_def abs_mult sgn_if nat_div_distrib)

lemma rev_convert_loop: "rev (convert_loop i) = decimal (nat \<bar>i\<bar>)"
proof (induction i rule: convert_loop.induct)
  case (1 i)
  have z: "i sdiv 10 = 0 \<longleftrightarrow> nat \<bar>i\<bar> < 10"
    using convert_quotient [of i] by (metis abs_0_eq nat_eq_iff nat_0_iff abs_le_zero_iff div_eq_0_iff zero_neq_numeral)
  show ?case
  proof (cases "i sdiv 10 = 0")
    case True
    with z show ?thesis
      by (subst convert_loop.simps, subst decimal.simps) (simp add: Let_def convert_digit)
  next
    case False
    with z 1 show ?thesis
      by (subst convert_loop.simps, subst decimal.simps) (simp add: Let_def convert_digit convert_quotient)
  qed
qed

lemma convert_decimal: "convert v = (if v < 0 then ''-'' else []) @ decimal (nat \<bar>v\<bar>)"
  by (simp add: convert_def rev_convert_loop)

lemma decimal_length: "n < 10 ^ k \<Longrightarrow> 0 < k \<Longrightarrow> length (decimal n) \<le> k"
proof (induction k arbitrary: n)
  case (Suc k)
  show ?case
  proof (cases "n < 10")
    case True
    then show ?thesis by (subst decimal.simps) simp
  next
    case False
    then have "0 < k" using Suc.prems by (cases k) auto
    moreover have "n div 10 < 10 ^ k" using Suc.prems(1) by (simp add: less_mult_imp_div_less mult.commute)
    ultimately show ?thesis using Suc.IH [of "n div 10"] False by (subst decimal.simps) simp
  qed
qed simp

lemma convert_length: "- (2 ^ 63) \<le> v \<Longrightarrow> v < 2 ^ 64 \<Longrightarrow> length (convert v) \<le> 20"
proof (cases "v < 0")
  case True
  assume "- (2 ^ 63) \<le> v"
  with True have "nat \<bar>v\<bar> < 10 ^ 19" by simp
  from decimal_length [OF this] True show ?thesis by (simp add: convert_decimal)
next
  case False
  assume "v < 2 ^ 64"
  with False have "nat \<bar>v\<bar> < 10 ^ 20" by simp
  from decimal_length [OF this] False show ?thesis by (simp add: convert_decimal)
qed

text \<open>Reading a printed number back.\<close>

lemma char_digit: "k < 10 \<Longrightarrow> digit_value (char_of (48 + k)) = int k \<and> schar (char_of (48 + k)) = 48 + int k"
proof -
  have "\<forall>k \<in> set [0..<10]. digit_value (char_of (48 + k)) = int k \<and> schar (char_of (48 + k)) = 48 + int k"
    by code_simp
  then show "k < 10 \<Longrightarrow> ?thesis" by auto
qed

lemma digits_value_append: "\<forall>ch \<in> set s. digit_value ch < base \<Longrightarrow>
    digits_value base acc (s @ t) = digits_value base (digits_value base acc s) t"
  by (induction s arbitrary: acc) auto

lemma decimal_digits: "digits (decimal n) \<and> digits_value 10 0 (decimal n) = int n"
proof (induction n rule: decimal.induct)
  case (1 n)
  show ?case
  proof (cases "n < 10")
    case True
    then show ?thesis using char_digit [of n] by (subst (1 2) decimal.simps) (simp add: digits_def)
  next
    case False
    have "digits (decimal (n div 10))" "digits_value 10 0 (decimal (n div 10)) = int (n div 10)" using 1 False by simp_all
    moreover from this have "\<forall>ch \<in> set (decimal (n div 10)). digit_value ch < 10"
      by (auto simp: digits_def digit_values)
    ultimately show ?thesis
      using False char_digit [of "n mod 10"] by (subst (1 2) decimal.simps)
        (auto simp: digits_def digits_value_append zdiv_int zmod_int)
  qed
qed

lemma strtol_decimal: "strtol 10 (decimal n) = saturate (int n)"
proof -
  obtain c s where c: "decimal n = c # s" "48 \<le> schar c" "schar c \<le> 57"
    using decimal_digits [of n] by (cases "decimal n") (auto simp: digits_def)
  then have "\<not> is_space c" "c \<noteq> CHR ''-''" "c \<noteq> CHR ''+''"
    by (auto simp: is_space_def schar_def)
  with decimal_digits [of n] c show ?thesis by (simp add: strtol_def drop_prefix_10)
qed

text \<open>
  the text that \<open>convert\<close> makes of an integer is read back by \<open>strtol\<close> in base 10 as that
  integer, for every value of a 64-bit signed type, the smallest one included.
\<close>

theorem convert_strtol:
  assumes "- (2 ^ 63) \<le> v" and "v < 2 ^ 63"
  shows "strtol 10 (convert v) = v"
proof (cases "v < 0")
  case False
  with assms strtol_decimal [of "nat \<bar>v\<bar>"] show ?thesis by (simp add: convert_decimal saturate_def)
next
  case True
  have "\<not> is_space CHR ''-''" by (simp add: is_space_def schar_def)
  then show ?thesis
    using True assms decimal_digits [of "nat \<bar>v\<bar>"] by (simp add: convert_decimal strtol_def saturate_def drop_prefix_10)
qed

lemma convert_strtol_witness: "strtol 10 (convert (- (2 ^ 63))) = - (2 ^ 63)"
  by (rule convert_strtol) simp_all

lemma hex_digit: "k < 16 \<Longrightarrow> digit_value (digitsHex ! k) = int k"
proof -
  have "\<forall>k \<in> set [0..<16]. digit_value (digitsHex ! k) = int k" by code_simp
  then show "k < 16 \<Longrightarrow> ?thesis" by auto
qed

lemma convertHex_step: "convertHex n = (if n div 16 \<noteq> 0 then convertHex (n div 16) else []) @ [digitsHex ! (n mod 16)]"
  unfolding convertHex_def by (subst hex_loop.simps) simp

lemma convertHex_value: "(\<forall>ch \<in> set (convertHex n). digit_value ch < 16) \<and> digits_value 16 0 (convertHex n) = int n"
proof (induction n rule: hex_loop.induct)
  case (1 n)
  show ?case
  proof (cases "n div 16 = 0")
    case True
    then show ?thesis using hex_digit [of "n mod 16"] by (subst (1 2) convertHex_step) auto
  next
    case False
    with 1 have IH: "\<forall>ch \<in> set (convertHex (n div 16)). digit_value ch < 16"
        "digits_value 16 0 (convertHex (n div 16)) = int (n div 16)" by auto
    have "int (n div 16) * 16 + int (n mod 16) = int n" by (metis div_mult_mod_eq of_nat_add of_nat_mult of_nat_numeral)
    with IH False hex_digit [of "n mod 16"] show ?thesis
      by (subst (1 2) convertHex_step) (simp add: digits_value_append)
  qed
qed

lemma convertHex_length: "n < 16 ^ k \<Longrightarrow> 0 < k \<Longrightarrow> length (convertHex n) \<le> k"
proof (induction k arbitrary: n)
  case (Suc k)
  show ?case
  proof (cases "n div 16 = 0")
    case True
    then show ?thesis by (subst convertHex_step) simp
  next
    case False
    then have "0 < k" using Suc.prems by (cases k) auto
    moreover have "n div 16 < 16 ^ k" using Suc.prems(1) by (simp add: less_mult_imp_div_less mult.commute)
    ultimately show ?thesis using Suc.IH [of "n div 16"] False by (subst convertHex_step) simp
  qed
qed simp

section \<open>The buffer stays sound\<close>

definition fixed_wf :: "nat \<Rightarrow> fixed_buffer \<Rightarrow> bool" where
  "fixed_wf n b \<longleftrightarrow> length (fdata b) = n \<and> fcur b \<le> n"

lemma new_fixed [simp]: "fixed_wf n (new_fixed n)" "ftext (new_fixed n) = []"
  by (simp_all add: fixed_wf_def new_fixed_def ftext_def)

lemma ftext_length: "fixed_wf n b \<Longrightarrow> length (ftext b) = fcur b"
  by (simp add: fixed_wf_def ftext_def)

lemma favail_eq: "fixed_wf n b \<Longrightarrow> favail b = n - fcur b"
  by (simp add: fixed_wf_def favail_def size_sub_def)

lemma store_text:
  assumes "fixed_wf n b" and "fcur b + length s \<le> n" and "k \<le> length s"
  shows "\<exists>b1. fstore (fcur b) s b = Inr b1 \<and> fixed_wf n b1 \<and> fcur b1 = fcur b
     \<and> fixed_wf n (fadd k b1) \<and> ftext (fadd k b1) = ftext b @ take k s"
proof -
  have "take (fcur b + k) (splice_at (fcur b) s (fdata b)) = take (fcur b) (fdata b) @ take k s"
    using assms by (simp add: splice_at_def fixed_wf_def min_def take_drop)
  with assms show ?thesis by (auto simp: fstore_def fixed_wf_def fadd_def ftext_def)
qed

text \<open>What \<open>append\<close> does: everything while it fits, and then what fits.\<close>

lemma fappend_spec:
  assumes "fixed_wf n b"
  shows "\<exists>b'. fappend s b = Inr b' \<and> fixed_wf n b' \<and> ftext b' = take n (ftext b @ s)"
proof -
  note a = favail_eq [OF assms] and l = ftext_length [OF assms]
  consider (all) "length s < favail b" | (some) "\<not> length s < favail b" "0 < favail b" | (none) "favail b = 0"
    by linarith
  then show ?thesis
  proof cases
    case all
    then have "fcur b + length s \<le> n" using a by simp
    from store_text [OF assms this, of "length s"] all a l show ?thesis by (auto simp: fappend_def)
  next
    case some
    have "fcur b \<le> n" using assms by (simp add: fixed_wf_def)
    with store_text [OF assms, of "take (favail b) s" "favail b"] some a l obtain b1 where
      b1: "fstore (fcur b) (take (favail b) s) b = Inr b1" "fixed_wf n b1" "fcur b1 = fcur b"
        "fixed_wf n (fadd (favail b) b1)" "ftext (fadd (favail b) b1) = ftext b @ take (favail b) s" by auto
    then have "favail b1 = favail b" using a favail_eq by simp
    with b1 some a l show ?thesis by (auto simp: fappend_def)
  next
    case none
    with a l assms show ?thesis by (auto simp: fappend_def fixed_wf_def)
  qed
qed

text \<open>A number is inserted as a whole, or left out when fewer than 21 bytes are free.\<close>

definition number_text :: "nat \<Rightarrow> bytes \<Rightarrow> bytes \<Rightarrow> bytes" where
  "number_text n t s = (if length t + kMaxNumericSize \<le> n then t @ s else t)"

lemma number_spec:
  assumes "fixed_wf n b" and "length s \<le> 20"
  shows "\<exists>b'. (if kMaxNumericSize \<le> favail b
       then ebind (fstore (fcur b) (s @ [kNul]) b) (\<lambda>b1. Inr (fadd (length s) b1)) else Inr b) = Inr b'
     \<and> fixed_wf n b' \<and> ftext b' = number_text n (ftext b) s"
  using store_text [OF assms(1), of "s @ [kNul]" "length s"] assms favail_eq [OF assms(1)] ftext_length [OF assms(1)]
  by (auto simp: number_text_def kMaxNumericSize_def fixed_wf_def)

definition item_ok :: "('d \<Rightarrow> bytes) \<Rightarrow> 'd log_item \<Rightarrow> bool" where
  "item_ok g12 x \<longleftrightarrow> (case x of LInt v \<Rightarrow> - (2 ^ 63) \<le> v \<and> v < 2 ^ 64 | LPointer v \<Rightarrow> v < 2 ^ 64
     | LDouble d \<Rightarrow> length (g12 d) \<le> 20 | _ \<Rightarrow> True)"

fun item_text :: "('d \<Rightarrow> bytes) \<Rightarrow> 'd log_item \<Rightarrow> bytes" where
  "item_text g12 (LBool s) = (if s then ''1'' else ''0'')"
| "item_text g12 (LInt v) = convert v"
| "item_text g12 (LPointer v) = ''0x'' @ convertHex v"
| "item_text g12 (LDouble v) = g12 v"
| "item_text g12 (LChar v) = [v]"
| "item_text g12 (LCstr None) = ''(null)''"
| "item_text g12 (LCstr (Some s)) = c_str s"
| "item_text g12 (LString s) = s"

fun is_number :: "'d log_item \<Rightarrow> bool" where
  "is_number (LInt v) = True" | "is_number (LPointer v) = True" | "is_number (LDouble v) = True"
| "is_number x = False"

text \<open>The text of a buffer of \<open>n\<close> bytes after a sequence of insertions.\<close>

definition text_put :: "('d \<Rightarrow> bytes) \<Rightarrow> nat \<Rightarrow> 'd log_item \<Rightarrow> bytes \<Rightarrow> bytes" where
  "text_put g12 n x t = (if is_number x then number_text n t (item_text g12 x) else take n (t @ item_text g12 x))"

lemma log_put_spec:
  assumes "fixed_wf n b" and "item_ok g12 x"
  shows "\<exists>b'. log_put g12 x b = Inr b' \<and> fixed_wf n b' \<and> ftext b' = text_put g12 n x (ftext b)"
proof (cases x)
  case (LInt v)
  then have "length (convert v) \<le> 20" using assms(2) convert_length by (simp add: item_ok_def)
  from number_spec [OF assms(1) this] LInt show ?thesis by (simp add: formatInteger_def text_put_def)
next
  case (LPointer v)
  then have "v < 16 ^ 16" using assms(2) by (simp add: item_ok_def)
  from convertHex_length [OF this] have "length (''0x'' @ convertHex v) \<le> 20" by simp
  from number_spec [OF assms(1) this] LPointer show ?thesis by (auto simp: put_pointer_def text_put_def split: if_splits)
next
  case (LDouble d)
  then have "length (g12 d) \<le> 20" using assms(2) by (simp add: item_ok_def)
  from number_spec [OF assms(1) this] LDouble \<open>length (g12 d) \<le> 20\<close> show ?thesis
    by (auto simp: put_double_def text_put_def kMaxNumericSize_def split: if_splits)
next
  case (LCstr s)
  then show ?thesis using fappend_spec [OF assms(1)] by (cases s) (simp_all add: text_put_def)
qed (use fappend_spec [OF assms(1)] in \<open>simp_all add: text_put_def\<close>)

lemma log_puts_spec:
  "fixed_wf n b \<Longrightarrow> \<forall>x \<in> set xs. item_ok g12 x \<Longrightarrow>
     \<exists>b'. log_puts g12 xs b = Inr b' \<and> fixed_wf n b' \<and> ftext b' = fold (text_put g12 n) xs (ftext b)"
proof (induction xs arbitrary: b)
  case (Cons x xs)
  obtain b1 where b1: "log_put g12 x b = Inr b1" "fixed_wf n b1" "ftext b1 = text_put g12 n x (ftext b)"
    using log_put_spec [OF Cons.prems(1), of g12 x] Cons.prems(2) by auto
  with Cons.IH [OF b1(2)] Cons.prems(2) show ?case by auto
qed simp

section \<open>The integer types\<close>

text \<open>One overload for each integer type, whose width decides which number is printed.\<close>

definition put_short :: "16 word \<Rightarrow> fixed_buffer \<Rightarrow> fault + fixed_buffer" where
  "put_short v = formatInteger (sint v)"

definition put_unsigned_short :: "16 word \<Rightarrow> fixed_buffer \<Rightarrow> fault + fixed_buffer" where
  "put_unsigned_short v = formatInteger (uint v)"

definition put_int :: "32 word \<Rightarrow> fixed_buffer \<Rightarrow> fault + fixed_buffer" where
  "put_int v = formatInteger (sint v)"

definition put_unsigned_int :: "32 word \<Rightarrow> fixed_buffer \<Rightarrow> fault + fixed_buffer" where
  "put_unsigned_int v = formatInteger (uint v)"

definition put_long :: "64 word \<Rightarrow> fixed_buffer \<Rightarrow> fault + fixed_buffer" where
  "put_long v = formatInteger (sint v)"

definition put_unsigned_long :: "64 word \<Rightarrow> fixed_buffer \<Rightarrow> fault + fixed_buffer" where
  "put_unsigned_long v = formatInteger (uint v)"

definition put_long_long :: "64 word \<Rightarrow> fixed_buffer \<Rightarrow> fault + fixed_buffer" where
  "put_long_long v = formatInteger (sint v)"

definition put_unsigned_long_long :: "64 word \<Rightarrow> fixed_buffer \<Rightarrow> fault + fixed_buffer" where
  "put_unsigned_long_long v = formatInteger (uint v)"

text \<open>A string with its length, checked by an assert; the name of a source file.\<close>

definition new_T :: "bytes \<Rightarrow> nat \<Rightarrow> fault + (bytes \<times> nat)" where
  "new_T str len = (if length (c_str str) = len then Inr (str, len) else Inl Assert_failed)"

definition put_T :: "bytes \<times> nat \<Rightarrow> fixed_buffer \<Rightarrow> fault + fixed_buffer" where
  "put_T v = fappend (take (snd v) (fst v))"

definition put_SourceFile :: "bytes \<Rightarrow> fixed_buffer \<Rightarrow> fault + fixed_buffer" where
  "put_SourceFile name = fappend name"

text \<open>Each prints the number its argument stands for, whatever the width; nothing is written outside the buffer.\<close>

definition prints :: "nat \<Rightarrow> int \<Rightarrow> (fixed_buffer \<Rightarrow> fault + fixed_buffer) \<Rightarrow> bool" where
  "prints n v put \<longleftrightarrow> (\<forall>b. fixed_wf n b \<longrightarrow>
     (\<exists>b'. put b = Inr b' \<and> fixed_wf n b' \<and> ftext b' = number_text n (ftext b) (convert v)))"

lemma formatInteger_prints: "- (2 ^ 63) \<le> v \<Longrightarrow> v < 2 ^ 64 \<Longrightarrow> prints n v (formatInteger v)"
  unfolding prints_def formatInteger_def using number_spec convert_length by blast

lemma signed_prints: "LENGTH('a::len) \<le> 64 \<Longrightarrow> prints n (sint (w :: 'a word)) (formatInteger (sint w))"
proof (rule formatInteger_prints)
  assume l: "LENGTH('a) \<le> 64"
  have "(2 :: int) ^ (LENGTH('a) - 1) \<le> 2 ^ 63" by (rule power_increasing) (use l in simp_all)
  then have "- (2 ^ 63) \<le> sint w \<and> sint w < 2 ^ 63" using sint_ge [of w] sint_lt [of w] by linarith
  then show "- (2 ^ 63) \<le> sint w" "sint w < 2 ^ 64" by simp_all
qed

lemma unsigned_prints: "LENGTH('a::len) \<le> 64 \<Longrightarrow> prints n (uint (w :: 'a word)) (formatInteger (uint w))"
proof (rule formatInteger_prints)
  assume l: "LENGTH('a) \<le> 64"
  have "(2 :: int) ^ LENGTH('a) \<le> 2 ^ 64" by (rule power_increasing) (use l in simp_all)
  then have "uint w < 2 ^ 64" using uint_lt2p [of w] by linarith
  then show "uint w < 2 ^ 64" by simp
  show "- (2 ^ 63) \<le> uint w" by (rule order_trans [OF _ uint_nonnegative]) simp
qed

lemma integer_overloads:
  "prints n (sint v16) (put_short v16)" "prints n (uint v16) (put_unsigned_short v16)"
  "prints n (sint v32) (put_int v32)" "prints n (uint v32) (put_unsigned_int v32)"
  "prints n (sint v64) (put_long v64)" "prints n (uint v64) (put_unsigned_long v64)"
  "prints n (sint v64) (put_long_long v64)" "prints n (uint v64) (put_unsigned_long_long v64)"
  by (simp_all add: put_short_def put_unsigned_short_def put_int_def put_unsigned_int_def put_long_def put_unsigned_long_def
      put_long_long_def put_unsigned_long_long_def signed_prints unsigned_prints)

section \<open>The text of a log statement\<close>

definition statement_items :: "bytes \<Rightarrow> (int \<Rightarrow> bytes) \<Rightarrow> bytes \<Rightarrow> int \<Rightarrow> log_level \<Rightarrow> int \<Rightarrow> bytes option
    \<Rightarrow> 'd log_item list \<Rightarrow> 'd log_item list" where
  "statement_items tidString strerror path line level savedErrno func xs =
     [LCstr (Some tidString), LCstr (Some '' ''), LCstr (Some (LogLevelName level))]
     @ (if savedErrno \<noteq> 0
        then [LCstr (Some (strerror savedErrno)), LCstr (Some '' (errno=''), LInt savedErrno, LCstr (Some '') '')]
        else [])
     @ (case func of None \<Rightarrow> [] | Some f \<Rightarrow> [LCstr (Some f), LChar CHR '' ''])
     @ xs
     @ [LCstr (Some '' - ''), LCstr (Some (SourceFile path)), LChar CHR '':'', LInt line, LChar CHR 0x0A]"

lemma log_puts_append: "log_puts g12 (xs @ ys) b = ebind (log_puts g12 xs b) (log_puts g12 ys)"
proof (induction xs arbitrary: b)
  case (Cons x xs)
  then show ?case by (cases "log_put g12 x b") simp_all
qed simp

lemma log_statement_puts:
  "log_statement g12 tidString strerror path line level savedErrno func xs =
     ebind (log_puts g12 (statement_items tidString strerror path line level savedErrno func xs) (new_fixed kSmallBuffer))
       (\<lambda>b. Inr (ftext b, level = FATAL))"
proof -
  have assoc: "ebind (ebind x f) g = ebind x (\<lambda>y. ebind (f y) g)" for x :: "fault + fixed_buffer" and f g
    by (cases x) simp_all
  show ?thesis
    unfolding log_statement_def statement_items_def log_puts_append Logger_Impl_def Logger_finish_def assoc
    by simp
qed

lemma log_statement_spec:
  assumes "\<forall>x \<in> set (statement_items tidString strerror path line level savedErrno func xs). item_ok g12 x"
  shows "log_statement g12 tidString strerror path line level savedErrno func xs
     = Inr (fold (text_put g12 kSmallBuffer) (statement_items tidString strerror path line level savedErrno func xs) [],
            level = FATAL)"
  using log_puts_spec [OF new_fixed(1) assms, of kSmallBuffer] by (auto simp: log_statement_puts)

lemma text_put_length: "length t \<le> n \<Longrightarrow> item_ok g12 x \<Longrightarrow> length (text_put g12 n x t) \<le> n
    \<and> take (length t) (text_put g12 n x t) = t"
proof -
  assume l: "length t \<le> n" and ok: "item_ok g12 x"
  have hex: "v < 2 ^ 64 \<Longrightarrow> length (convertHex v) \<le> 18" for v
    using convertHex_length [of v 16] by simp
  have "length (item_text g12 x) \<le> 20" if "is_number x"
    using that ok convert_length hex by (cases x) (auto simp: item_ok_def)
  then show ?thesis using l by (auto simp: text_put_def number_text_def kMaxNumericSize_def)
qed

lemma texts_whole: "length t + length (concat (map (item_text g12) xs)) + kMaxNumericSize \<le> n \<Longrightarrow>
    fold (text_put g12 n) xs t = t @ concat (map (item_text g12) xs)"
proof (induction xs arbitrary: t)
  case (Cons x xs)
  have "text_put g12 n x t = t @ item_text g12 x" using Cons.prems by (simp add: text_put_def number_text_def)
  with Cons.IH [of "t @ item_text g12 x"] Cons.prems show ?case by simp
qed simp

lemma texts_full: "length t = n \<Longrightarrow> fold (text_put g12 n) xs t = t"
  by (induction xs) (simp_all add: text_put_def number_text_def kMaxNumericSize_def)

lemma texts_bounded: "length t \<le> n \<Longrightarrow> \<forall>x \<in> set xs. item_ok g12 x \<Longrightarrow>
    length (fold (text_put g12 n) xs t) \<le> n \<and> take (length t) (fold (text_put g12 n) xs t) = t"
proof (induction xs arbitrary: t)
  case (Cons x xs)
  let ?t = "text_put g12 n x t"
  have t: "length ?t \<le> n" "take (length t) ?t = t" using text_put_length [OF Cons.prems(1), of g12 x] Cons.prems(2) by auto
  then have "length t \<le> length ?t" by (metis length_take min.absorb_iff2 min.commute)
  with Cons.IH [OF t(1)] Cons.prems(2) t(2) show ?case by (auto dest: arg_cong [where f = "take (length t)"])
qed simp

lemma SourceFile_no_nul: "no_nul s \<Longrightarrow> no_nul (SourceFile s)"
  using set_takeWhileD [of kNul _ "rev s"] by (auto simp: no_nul_def SourceFile_def)

section \<open>Properties\<close>

text \<open>
  C19: whatever is inserted into a stream, in whatever order and however full its buffer is,
  no operation writes outside the buffer, the write pointer stays between its ends, and the
  text already there stays as it was.
\<close>

theorem log_stream_keeps_wf:
  assumes "fixed_wf n b" and "\<forall>x \<in> set xs. item_ok g12 x"
  shows "\<exists>b'. log_puts g12 xs b = Inr b' \<and> fixed_wf n b' \<and> fcur b \<le> fcur b' \<and> take (fcur b) (ftext b') = ftext b"
proof -
  obtain b' where b': "log_puts g12 xs b = Inr b'" "fixed_wf n b'" "ftext b' = fold (text_put g12 n) xs (ftext b)"
    using log_puts_spec [OF assms] by blast
  have l: "length (ftext b) = fcur b" "length (ftext b') = fcur b'" using ftext_length assms(1) b'(2) by blast+
  then have "length (ftext b) \<le> n" using assms(1) by (simp add: fixed_wf_def)
  from texts_bounded [OF this assms(2)] b'(3) l(1) have keep: "take (fcur b) (ftext b') = ftext b" by simp
  then have "min (fcur b') (fcur b) = fcur b" using l by (metis length_take)
  with b' keep show ?thesis by (simp add: min_absorb2 min_def split: if_splits)
qed

lemma log_stream_keeps_wf_witness:
  "\<exists>b'. log_puts (\<lambda>d :: nat. decimal d) [LInt (- 5), LCstr None, LBool True] (new_fixed 22) = Inr b' \<and> fixed_wf 22 b'"
  using log_stream_keeps_wf [of 22 "new_fixed 22" "[LInt (- 5), LCstr None, LBool True]" "\<lambda>d :: nat. decimal d"]
  by (auto simp: item_ok_def)

text \<open>
  a log statement whose line fits into the 4000 bytes of its buffer with 21 to spare puts
  out exactly the thread id, the level, the items inserted, the base name of the source
  file and the line number, and only \<open>FATAL\<close> ends the program.
\<close>

theorem log_line:
  assumes "\<forall>x \<in> set xs. item_ok g12 x" and "no_nul tidString" and "no_nul path" and "0 \<le> line" and "line < 2 ^ 31"
    and "length (tidString @ '' '' @ LogLevelName level @ concat (map (item_text g12) xs) @ '' - '' @ SourceFile path
           @ '':'' @ convert line @ [CHR 0x0A]) + 21 \<le> 4000"
  shows "log_statement g12 tidString strerror path line level 0 None xs
     = Inr (tidString @ '' '' @ LogLevelName level @ concat (map (item_text g12) xs) @ '' - '' @ SourceFile path
           @ '':'' @ convert line @ [CHR 0x0A], level = FATAL)"
proof -
  let ?is = "statement_items tidString strerror path line level 0 None xs"
  have base: "c_str (SourceFile path) = SourceFile path" "c_str tidString = tidString"
    using no_nul_c_str [OF SourceFile_no_nul [OF assms(3)]] no_nul_c_str [OF assms(2)] .
  have lits: "c_str '' '' = '' ''" "c_str '' - '' = '' - ''" "c_str (LogLevelName level) = LogLevelName level"
    by (cases level; simp add: c_str_def kNul_def)+
  have "concat (map (item_text g12) ?is) = tidString @ '' '' @ LogLevelName level @ concat (map (item_text g12) xs)
      @ '' - '' @ SourceFile path @ '':'' @ convert line @ [CHR 0x0A]"
    by (simp add: statement_items_def base lits)
  moreover have "\<forall>x \<in> set ?is. item_ok g12 x" using assms(1,4,5) by (auto simp: statement_items_def item_ok_def)
  ultimately show ?thesis
    using log_statement_spec [of tidString strerror path line level 0 None xs g12]
      texts_whole [of "[]" g12 ?is kSmallBuffer] assms(6) by (simp add: kSmallBuffer_def kMaxNumericSize_def)
qed

lemma log_line_witness:
  "log_statement (\<lambda>d :: nat. decimal d) ''17 '' (\<lambda>e. ''err'') ''src/net/Epoll.cpp'' 94 WARN 0 None [LCstr (Some ''fd ''), LInt (- 7)]
     = Inr (''17  WARN  fd -7 - Epoll.cpp:94'' @ [CHR 0x0A], False)"
proof -
  have d: "decimal 7 = ''7''" "decimal 94 = ''94''" by code_simp+
  have "no_nul ''17 ''" "no_nul ''src/net/Epoll.cpp''" by (simp_all add: no_nul_def kNul_def)
  then show ?thesis
    using log_line [of "[LCstr (Some ''fd ''), LInt (- 7)]" "\<lambda>d :: nat. decimal d" "''17 ''" "''src/net/Epoll.cpp''" 94 WARN "\<lambda>e. ''err''"]
    by (simp add: item_ok_def convert_decimal d SourceFile_def c_str_def kNul_def)
qed

text \<open>
  a log statement with any items, an errno and a function name included, runs without a
  fault and puts out at most 4000 bytes.
\<close>

theorem log_statement_bounded:
  assumes "\<forall>x \<in> set xs. item_ok g12 x" and "0 \<le> line" and "line < 2 ^ 31" and "- (2 ^ 31) \<le> savedErrno" and "savedErrno < 2 ^ 31"
  shows "\<exists>out. log_statement g12 tidString strerror path line level savedErrno func xs = Inr (out, level = FATAL)
     \<and> length out \<le> 4000"
proof -
  have "\<forall>x \<in> set (statement_items tidString strerror path line level savedErrno func xs). item_ok g12 x"
    using assms by (auto simp: statement_items_def item_ok_def split: option.splits)
  with log_statement_spec texts_bounded [of "[]" kSmallBuffer] show ?thesis by (fastforce simp: kSmallBuffer_def)
qed

lemma log_statement_bounded_witness:
  "\<exists>out. log_statement (\<lambda>d :: nat. decimal d) ''17 '' (\<lambda>e. ''err'') ''a.cpp'' 9 ERROR 11 None [LString (replicate 5000 CHR ''x'')]
     = Inr (out, False) \<and> length out \<le> 4000"
  using log_statement_bounded [of "[LString (replicate 5000 CHR ''x'')]" "\<lambda>d :: nat. decimal d" 9 11 "''17 ''" "\<lambda>e. ''err''" "''a.cpp''" ERROR None]
  by (simp add: item_ok_def)

text \<open>
  a message that fills the buffer is cut at 4000 bytes, and the source file, the line
  number and the line break at its end are lost: the next statement continues the line.
\<close>

theorem long_line_cut:
  assumes "no_nul tidString" and "0 \<le> line" and "line < 2 ^ 31"
    and "length (tidString @ '' '' @ LogLevelName level) \<le> 4000"
    and "4000 \<le> length (tidString @ '' '' @ LogLevelName level @ s)"
  shows "log_statement g12 tidString strerror path line level 0 None [LString s]
     = Inr (take 4000 (tidString @ '' '' @ LogLevelName level @ s), level = FATAL)"
proof -
  let ?head = "tidString @ '' '' @ LogLevelName level"
  let ?is = "statement_items tidString strerror path line level 0 None [LString s]"
  let ?tail = "[LCstr (Some '' - ''), LCstr (Some (SourceFile path)), LChar CHR '':'', LInt line, LChar CHR 0x0A]"
  have c: "c_str tidString = tidString" using no_nul_c_str [OF assms(1)] .
  have lits: "c_str '' '' = '' ''" "c_str (LogLevelName level) = LogLevelName level"
    by (cases level; simp add: c_str_def kNul_def)+
  have head: "fold (text_put g12 kSmallBuffer) [LCstr (Some tidString), LCstr (Some '' ''), LCstr (Some (LogLevelName level))] [] = ?head"
    using assms(4) by (simp add: text_put_def c lits kSmallBuffer_def)
  have "fold (text_put g12 kSmallBuffer) ?is [] = fold (text_put g12 kSmallBuffer) ?tail (take 4000 (?head @ s))"
    using head by (simp add: statement_items_def text_put_def [of g12 _ "LString s"] kSmallBuffer_def)
  also have "\<dots> = take 4000 (?head @ s)"
    by (rule texts_full) (use assms(5) in \<open>simp add: kSmallBuffer_def\<close>)
  finally have "fold (text_put g12 kSmallBuffer) ?is [] = take 4000 (tidString @ '' '' @ LogLevelName level @ s)" by simp
  moreover have "\<forall>x \<in> set ?is. item_ok g12 x" using assms(2,3) by (auto simp: statement_items_def item_ok_def)
  ultimately show ?thesis using log_statement_spec [of tidString strerror path line level 0 None "[LString s]" g12] by simp
qed

lemma long_line_cut_witness:
  "log_statement (\<lambda>d :: nat. decimal d) ''17 '' (\<lambda>e. ''err'') ''a.cpp'' 9 INFO 0 None [LString (replicate 4000 CHR ''x'')]
     = Inr (''17  INFO  '' @ replicate 3990 CHR ''x'', False)"
proof -
  have "no_nul ''17 ''" by (simp add: no_nul_def kNul_def)
  note long = long_line_cut [OF this, of 9 INFO "replicate 4000 CHR ''x''" "\<lambda>d :: nat. decimal d" "\<lambda>e. ''err''" "''a.cpp''"]
  have "take 4000 (''17  INFO  '' @ replicate 4000 CHR ''x'') = ''17  INFO  '' @ replicate 3990 CHR ''x''"
    by (simp only: take_append length_append take_replicate) simp
  with long show ?thesis by simp
qed

end
