(* ===== verification/AsyncLog.thy ===== *)
theory AsyncLog
  imports LogStream
begin

text \<open>
  \<open>base/File.cpp\<close> (\<open>WriteFile\<close>), \<open>base/LogFile.cpp\<close> and \<open>base/AsyncLogThread.cpp\<close>: the file a
  log is written to, rolling to a new file, and the double-buffered thread between the
  threads that log and the file. The appenders and the log thread share the state below;
  each locked section is one step, and so is the work of the log thread between two of
  them, which touches nothing the others use. \<open>al_run\<close> is a run over any interleaving.
\<close>

section \<open>WriteFile\<close>

record write_file =
  wf_name :: bytes
  writeLen :: nat
  wf_text :: bytes \<comment> \<open>what has been written through this object, in order\<close>

text \<open>\<open>BOOST_ASSERT_MSG(err, ...)\<close> holds when there is an error; it is compiled in unless \<open>ndebug\<close>.\<close>

definition WriteFile :: "bool \<Rightarrow> int \<Rightarrow> bytes \<Rightarrow> fault + write_file" where
  "WriteFile ndebug err name =
     (if \<not> ndebug \<and> \<not> err \<noteq> 0 then Inl Assert_failed
      else Inr \<lparr>wf_name = name, writeLen = 0, wf_text = []\<rparr>)"

text \<open>
  The loop around \<open>fwrite_unlocked\<close>. \<open>fw i r\<close> is the answer to the i-th call, which offers \<open>r\<close>
  bytes; the function takes no more than it is offered.
\<close>

function wf_loop :: "(nat \<Rightarrow> nat \<Rightarrow> nat) \<Rightarrow> nat \<Rightarrow> bytes \<Rightarrow> bytes" where
  "wf_loop fw i s =
     (let x = min (fw i (length s)) (length s) in
      if x = 0 then []
      else take x s @ (if 0 < length s - x then wf_loop fw (i + 1) (drop x s) else []))"
  by pat_completeness auto
termination
  by (relation "measure (\<lambda>(fw, i, s). length s)") auto

declare wf_loop.simps [simp del]

definition wf_append :: "(nat \<Rightarrow> nat \<Rightarrow> nat) \<Rightarrow> bytes \<Rightarrow> write_file \<Rightarrow> write_file" where
  "wf_append fw s f = f\<lparr>wf_text := wf_text f @ wf_loop fw 0 s, writeLen := writeLen f + length s\<rparr>"

section \<open>LogFile\<close>

record log_file =
  baseName :: bytes
  rollSize :: nat
  lfile :: write_file
  lclosed :: "write_file list" \<comment> \<open>the files closed so far\<close>

definition getLogFileName :: "bytes \<Rightarrow> bytes \<Rightarrow> bytes" where
  "getLogFileName base timeBuf = (base @ timeBuf) @ ''log''"

definition rollFile :: "bool \<Rightarrow> bytes \<Rightarrow> log_file \<Rightarrow> fault + log_file" where
  "rollFile ndebug timeBuf l =
     ebind (WriteFile ndebug 0 (getLogFileName (baseName l) timeBuf)) (\<lambda>f.
       Inr (l\<lparr>lfile := f, lclosed := lclosed l @ [lfile l]\<rparr>))"

definition new_log_file :: "bool \<Rightarrow> bytes \<Rightarrow> bytes \<Rightarrow> nat \<Rightarrow> fault + log_file" where
  "new_log_file ndebug timeBuf base roll =
     ebind (WriteFile ndebug 0 (getLogFileName base timeBuf)) (\<lambda>f.
       Inr \<lparr>baseName = base, rollSize = roll, lfile = f, lclosed = []\<rparr>)"

definition lf_append :: "bool \<Rightarrow> (nat \<Rightarrow> nat \<Rightarrow> nat) \<Rightarrow> bytes \<Rightarrow> bytes \<Rightarrow> log_file \<Rightarrow> fault + log_file" where
  "lf_append ndebug fw timeBuf s l =
     (let l1 = l\<lparr>lfile := wf_append fw s (lfile l)\<rparr>
      in if rollSize l1 \<le> writeLen (lfile l1) then rollFile ndebug timeBuf l1 else Inr l1)"

definition log_text :: "log_file \<Rightarrow> bytes" where
  "log_text l = concat (map wf_text (lclosed l @ [lfile l]))"

section \<open>AsyncLogThread\<close>

datatype log_pc = LogTop | LogLocked | LogWriting | LogDone

record async_log =
  running :: bool
  currentBuffer :: "fixed_buffer option" \<comment> \<open>the \<open>unique_ptr\<close>s\<close>
  nextBuffer :: "fixed_buffer option"
  buffers :: "fixed_buffer list"
  newBuffer1 :: "fixed_buffer option"
  newBuffer2 :: "fixed_buffer option"
  buffersToWrite :: "fixed_buffer list"
  log_output :: log_file
  log_at :: log_pc
  erased :: nat \<comment> \<open>how many buffers the log thread has erased unwritten\<close>

text \<open>The object after \<open>start\<close>, when the log thread has entered its loop.\<close>

definition started_log :: "log_file \<Rightarrow> async_log" where
  "started_log f = \<lparr>running = True, currentBuffer = Some (new_fixed kLargeBuffer),
     nextBuffer = Some (new_fixed kLargeBuffer), buffers = [], newBuffer1 = Some (new_fixed kLargeBuffer),
     newBuffer2 = Some (new_fixed kLargeBuffer), buffersToWrite = [], log_output = f, log_at = LogTop, erased = 0\<rparr>"

definition deref :: "'a option \<Rightarrow> fault + 'a" where
  "deref p = (case p of None \<Rightarrow> Inl Null_deref | Some x \<Rightarrow> Inr x)"

definition al_append :: "bytes \<Rightarrow> async_log \<Rightarrow> fault + async_log" where
  "al_append s a =
     ebind (deref (currentBuffer a)) (\<lambda>b.
       if length s < favail b then
         ebind (fappend s b) (\<lambda>b'. Inr (a\<lparr>currentBuffer := Some b'\<rparr>))
       else
         (let a1 = a\<lparr>buffers := buffers a @ [b], currentBuffer := None\<rparr>;
              a2 = (case nextBuffer a1 of
                      Some nb \<Rightarrow> a1\<lparr>currentBuffer := Some nb, nextBuffer := None\<rparr>
                    | None \<Rightarrow> a1\<lparr>currentBuffer := Some (new_fixed kLargeBuffer)\<rparr>)
          in ebind (deref (currentBuffer a2)) (\<lambda>c.
             ebind (fappend s c) (\<lambda>c'. Inr (a2\<lparr>currentBuffer := Some c'\<rparr>)))))"

definition al_stop :: "async_log \<Rightarrow> async_log" where
  "al_stop a = a\<lparr>running := False\<rparr>"

text \<open>The locked section of the loop, from the end of the wait, which a timeout may end at any time.\<close>

definition is_fresh :: "fixed_buffer option \<Rightarrow> bool" where
  "is_fresh p \<longleftrightarrow> (case p of None \<Rightarrow> False | Some b \<Rightarrow> fcur b = 0)"

definition al_collect :: "async_log \<Rightarrow> fault + async_log" where
  "al_collect a =
     (if \<not> is_fresh (newBuffer1 a) \<or> \<not> is_fresh (newBuffer2 a) \<or> buffersToWrite a \<noteq> [] then Inl Assert_failed
      else ebind (deref (currentBuffer a)) (\<lambda>b.
        (let a1 = a\<lparr>buffers := [], buffersToWrite := buffers a @ [b], currentBuffer := newBuffer1 a, newBuffer1 := None\<rparr>
         in Inr (if nextBuffer a1 = None then a1\<lparr>nextBuffer := newBuffer2 a1, newBuffer2 := None\<rparr> else a1))))"

fun write_all :: "bool \<Rightarrow> (nat \<Rightarrow> nat \<Rightarrow> nat) \<Rightarrow> bytes \<Rightarrow> fixed_buffer list \<Rightarrow> log_file \<Rightarrow> fault + log_file" where
  "write_all ndebug fw timeBuf [] l = Inr l"
| "write_all ndebug fw timeBuf (b # bs) l =
     ebind (lf_append ndebug fw timeBuf (ftext b) l) (write_all ndebug fw timeBuf bs)"

text \<open>Taking a buffer back from the written ones; the vector must not be empty.\<close>

definition recycle :: "fixed_buffer option \<Rightarrow> fixed_buffer list \<Rightarrow> fault + (fixed_buffer option \<times> fixed_buffer list)" where
  "recycle p bs =
     (if p = None then (if bs = [] then Inl Assert_failed else Inr (Some (freset (last bs)), butlast bs))
      else Inr (p, bs))"

definition al_write :: "bool \<Rightarrow> (nat \<Rightarrow> nat \<Rightarrow> nat) \<Rightarrow> bytes \<Rightarrow> async_log \<Rightarrow> fault + async_log" where
  "al_write ndebug fw timeBuf a =
     (if buffersToWrite a = [] then Inl Assert_failed
      else
        (let bs = (if 25 < length (buffersToWrite a) then take 2 (buffersToWrite a) else buffersToWrite a) in
         ebind (write_all ndebug fw timeBuf bs (log_output a)) (\<lambda>f.
         ebind (recycle (newBuffer1 a) (if 2 < length bs then take 2 bs else bs)) (\<lambda>(n1, bs1).
         ebind (recycle (newBuffer2 a) bs1) (\<lambda>(n2, bs2).
           Inr (a\<lparr>log_output := f, newBuffer1 := n1, newBuffer2 := n2, buffersToWrite := [],
                  erased := erased a + (length (buffersToWrite a) - length bs)\<rparr>))))))"

section \<open>Runs\<close>

text \<open>
  \<open>Log_append\<close> and \<open>Log_stop\<close> are calls from outside, the others the moves of the log thread: the test
  of \<open>running_\<close>, the locked section, and the writing, with the answers of the file system.
\<close>

datatype log_act = Log_append bytes | Log_stop | Log_test | Log_collect | Log_write "nat \<Rightarrow> nat \<Rightarrow> nat" bytes

fun al_step :: "bool \<Rightarrow> log_act \<Rightarrow> async_log \<Rightarrow> fault + async_log" where
  "al_step ndebug (Log_append s) a = al_append s a"
| "al_step ndebug Log_stop a = Inr (al_stop a)"
| "al_step ndebug Log_test a =
     Inr (if log_at a = LogTop then a\<lparr>log_at := (if running a then LogLocked else LogDone)\<rparr> else a)"
| "al_step ndebug Log_collect a =
     (if log_at a = LogLocked then ebind (al_collect a) (\<lambda>a'. Inr (a'\<lparr>log_at := LogWriting\<rparr>)) else Inr a)"
| "al_step ndebug (Log_write fw timeBuf) a =
     (if log_at a = LogWriting then ebind (al_write ndebug fw timeBuf a) (\<lambda>a'. Inr (a'\<lparr>log_at := LogTop\<rparr>)) else Inr a)"

fun al_run :: "bool \<Rightarrow> log_act list \<Rightarrow> async_log \<Rightarrow> fault + async_log" where
  "al_run ndebug [] a = Inr a"
| "al_run ndebug (x # xs) a = ebind (al_step ndebug x a) (al_run ndebug xs)"

text \<open>
  The bytes logged in a run, and those on their way to the file. A message that does not fit
  into an empty buffer is cut to its size.
\<close>

fun logged :: "log_act list \<Rightarrow> bytes" where
  "logged [] = []"
| "logged (Log_append s # xs) = take kLargeBuffer s @ logged xs"
| "logged (_ # xs) = logged xs"

definition in_flight :: "async_log \<Rightarrow> bytes" where
  "in_flight a = concat (map ftext (buffersToWrite a)) @ concat (map ftext (buffers a))
     @ (case currentBuffer a of None \<Rightarrow> [] | Some b \<Rightarrow> ftext b)"

section \<open>The file\<close>

text \<open>A call of \<open>fwrite\<close> that takes something, and no more than offered.\<close>

definition progress :: "(nat \<Rightarrow> nat \<Rightarrow> nat) \<Rightarrow> bool" where
  "progress fw \<longleftrightarrow> (\<forall>i r. 0 < r \<longrightarrow> 0 < fw i r)"

lemma wf_loop_all: "progress fw \<Longrightarrow> wf_loop fw i s = s"
proof (induction fw i s rule: wf_loop.induct)
  case (1 fw i s)
  define x where "x = min (fw i (length s)) (length s)"
  show ?case
  proof (cases "s = []")
    case True
    then show ?thesis by (subst wf_loop.simps) simp
  next
    case False
    then have x: "x \<noteq> 0" using 1(2) by (simp add: x_def progress_def)
    then have "wf_loop fw (i + 1) (drop x s) = drop x s" if "0 < length s - x"
      using 1(1) [OF x_def _ that] 1(2) by simp
    with x show ?thesis by (subst wf_loop.simps) (auto simp: Let_def x_def [symmetric])
  qed
qed

lemma WriteFile_release [simp]: "WriteFile True err name = Inr \<lparr>wf_name = name, writeLen = 0, wf_text = []\<rparr>"
  by (simp add: WriteFile_def)

lemma lf_append_total: "\<exists>l'. lf_append True fw timeBuf s l = Inr l'"
  by (simp add: lf_append_def rollFile_def Let_def)

lemma lf_append_text: "progress fw \<Longrightarrow> lf_append True fw timeBuf s l = Inr l' \<Longrightarrow> log_text l' = log_text l @ s"
  by (auto simp: lf_append_def rollFile_def Let_def log_text_def wf_append_def wf_loop_all split: if_splits)

lemma write_all_total: "\<exists>l'. write_all True fw timeBuf bs l = Inr l'"
proof (induction bs arbitrary: l)
  case (Cons b bs)
  obtain l1 where "lf_append True fw timeBuf (ftext b) l = Inr l1" using lf_append_total by blast
  with Cons.IH [of l1] show ?case by simp
qed simp

lemma write_all_text: "progress fw \<Longrightarrow> write_all True fw timeBuf bs l = Inr l' \<Longrightarrow>
    log_text l' = log_text l @ concat (map ftext bs)"
proof (induction bs arbitrary: l)
  case (Cons b bs)
  obtain l1 where "lf_append True fw timeBuf (ftext b) l = Inr l1" using lf_append_total by blast
  with Cons lf_append_text show ?case by fastforce
qed simp

section \<open>The invariant of the buffers\<close>

definition empty_buffer :: "fixed_buffer option \<Rightarrow> bool" where
  "empty_buffer p \<longleftrightarrow> (\<exists>b. p = Some b \<and> fixed_wf kLargeBuffer b \<and> fcur b = 0)"

definition al_inv :: "async_log \<Rightarrow> bool" where
  "al_inv a \<longleftrightarrow> (\<exists>b. currentBuffer a = Some b \<and> fixed_wf kLargeBuffer b)
     \<and> (\<forall>b \<in> set (buffers a) \<union> set (buffersToWrite a). fixed_wf kLargeBuffer b)
     \<and> (if nextBuffer a = None then buffers a \<noteq> [] else empty_buffer (nextBuffer a))
     \<and> (if log_at a = LogWriting
        then buffersToWrite a \<noteq> [] \<and> newBuffer1 a = None
          \<and> (if newBuffer2 a = None then 2 \<le> length (buffersToWrite a) else empty_buffer (newBuffer2 a))
        else buffersToWrite a = [] \<and> empty_buffer (newBuffer1 a) \<and> empty_buffer (newBuffer2 a))"

lemma empty_new: "empty_buffer (Some (new_fixed kLargeBuffer))"
  by (simp add: empty_buffer_def new_fixed_def fixed_wf_def)

lemma al_inv_started: "al_inv (started_log f)"
  using empty_new by (simp add: al_inv_def started_log_def)

lemma empty_append:
  assumes "empty_buffer (Some c)"
  shows "\<exists>c'. fappend s c = Inr c' \<and> fixed_wf kLargeBuffer c' \<and> ftext c' = take kLargeBuffer s"
proof -
  have "fixed_wf kLargeBuffer c" "ftext c = []" using assms by (auto simp: empty_buffer_def ftext_def)
  with fappend_spec [of kLargeBuffer c s] show ?thesis by simp
qed

lemma al_append_inv:
  assumes "al_inv a"
  shows "\<exists>a'. al_append s a = Inr a' \<and> al_inv a' \<and> log_output a' = log_output a \<and> erased a' = erased a
     \<and> log_at a' = log_at a \<and> in_flight a' = in_flight a @ take kLargeBuffer s"
proof -
  obtain b where b: "currentBuffer a = Some b" "fixed_wf kLargeBuffer b"
    using assms unfolding al_inv_def by blast
  show ?thesis
  proof (cases "length s < favail b")
    case True
    obtain b' where b': "fappend s b = Inr b'" "fixed_wf kLargeBuffer b'" "ftext b' = take kLargeBuffer (ftext b @ s)"
      using fappend_spec [OF b(2)] by blast
    have "length (ftext b @ s) \<le> kLargeBuffer"
      using True favail_eq [OF b(2)] ftext_length [OF b(2)] b(2) by (simp add: fixed_wf_def)
    with b b' True assms show ?thesis
      by (intro exI [of _ "a\<lparr>currentBuffer := Some b'\<rparr>"]) (simp add: al_append_def deref_def al_inv_def in_flight_def)
  next
    case False
    define c where "c = (case nextBuffer a of Some nb \<Rightarrow> nb | None \<Rightarrow> new_fixed kLargeBuffer)"
    have "empty_buffer (Some c)"
      using assms empty_new by (cases "nextBuffer a") (simp_all add: al_inv_def c_def)
    then obtain c' where c': "fappend s c = Inr c'" "fixed_wf kLargeBuffer c'" "ftext c' = take kLargeBuffer s"
      using empty_append by blast
    have "al_append s a = Inr (a\<lparr>buffers := buffers a @ [b], currentBuffer := Some c', nextBuffer := None\<rparr>)"
      using b False c'(1) by (cases "nextBuffer a") (simp_all add: al_append_def deref_def c_def Let_def)
    with b c' assms show ?thesis by (auto simp: al_inv_def in_flight_def)
  qed
qed

lemma al_collect_inv:
  assumes "al_inv a" and "log_at a = LogLocked"
  shows "\<exists>a'. al_collect a = Inr a' \<and> al_inv (a'\<lparr>log_at := LogWriting\<rparr>) \<and> log_output a' = log_output a
     \<and> erased a' = erased a \<and> in_flight a' = in_flight a"
proof -
  obtain b where b: "currentBuffer a = Some b" "fixed_wf kLargeBuffer b"
    using assms(1) unfolding al_inv_def by blast
  obtain n1 n2 where n: "newBuffer1 a = Some n1" "newBuffer2 a = Some n2" "fcur n1 = 0" "fcur n2 = 0"
      "fixed_wf kLargeBuffer n1" "fixed_wf kLargeBuffer n2" "buffersToWrite a = []"
    using assms by (auto simp: al_inv_def empty_buffer_def)
  have "ftext n1 = []" using n(3) by (simp add: ftext_def)
  with b n assms show ?thesis
    by (auto simp: al_collect_def is_fresh_def deref_def al_inv_def in_flight_def empty_buffer_def Let_def Suc_le_eq)
qed

lemma al_write_inv:
  assumes "al_inv a" and "log_at a = LogWriting"
  shows "\<exists>a'. al_write True fw timeBuf a = Inr a' \<and> al_inv (a'\<lparr>log_at := LogTop\<rparr>) \<and> erased a \<le> erased a'
     \<and> (erased a' = erased a \<longrightarrow> length (buffersToWrite a) \<le> 25)
     \<and> (progress fw \<and> length (buffersToWrite a) \<le> 25 \<longrightarrow>
          log_text (log_output a') @ in_flight a' = log_text (log_output a) @ in_flight a)
     \<and> (progress fw \<and> 25 < length (buffersToWrite a) \<longrightarrow>
          log_text (log_output a') = log_text (log_output a) @ concat (map ftext (take 2 (buffersToWrite a))))"
proof -
  define bs where "bs = (if 25 < length (buffersToWrite a) then take 2 (buffersToWrite a) else buffersToWrite a)"
  define cs where "cs = (if 2 < length bs then take 2 bs else bs)"
  have w: "buffersToWrite a \<noteq> []" "newBuffer1 a = None" "\<forall>b \<in> set (buffersToWrite a). fixed_wf kLargeBuffer b"
    using assms by (auto simp: al_inv_def)
  obtain f where f: "write_all True fw timeBuf bs (log_output a) = Inr f" using write_all_total by blast
  have cs: "cs \<noteq> []" "\<forall>b \<in> set cs. fixed_wf kLargeBuffer b" "newBuffer2 a = None \<longrightarrow> length cs = 2"
    using w assms by (auto simp: cs_def bs_def al_inv_def dest!: in_set_takeD)
  define n1 where "n1 = Some (freset (last cs))"
  have n1: "recycle (newBuffer1 a) cs = Inr (n1, butlast cs)" "empty_buffer n1"
    using w(2) cs by (simp_all add: recycle_def n1_def empty_buffer_def freset_def fixed_wf_def)
  obtain n2 ds where n2: "recycle (newBuffer2 a) (butlast cs) = Inr (n2, ds)" "empty_buffer n2"
  proof (cases "newBuffer2 a")
    case None
    then have "length (butlast cs) = 1" using cs(3) by simp
    then obtain b where b: "butlast cs = [b]" by (cases "butlast cs") auto
    then have "b \<in> set cs" by (metis in_set_butlastD list.set_intros(1))
    then have "fixed_wf kLargeBuffer b" using cs(2) by blast
    with None b that [of "Some (freset b)" "[]"] show ?thesis
      by (simp add: recycle_def empty_buffer_def freset_def fixed_wf_def)
  next
    case (Some b)
    with assms that show ?thesis by (simp add: recycle_def al_inv_def)
  qed
  define a' where "a' = a\<lparr>log_output := f, newBuffer1 := n1, newBuffer2 := n2, buffersToWrite := [],
      erased := erased a + (length (buffersToWrite a) - length bs)\<rparr>"
  have "al_write True fw timeBuf a = Inr a'"
    using w(1) f n1(1) n2(1)
    unfolding al_write_def Let_def bs_def [symmetric] cs_def [symmetric] a'_def by simp
  moreover have "al_inv (a'\<lparr>log_at := LogTop\<rparr>)"
    using assms n1(2) n2(2) by (auto simp: al_inv_def a'_def)
  moreover have "progress fw \<Longrightarrow> log_text f = log_text (log_output a) @ concat (map ftext bs)"
    using write_all_text [OF _ f] .
  ultimately show ?thesis by (auto simp: a'_def bs_def in_flight_def split: if_splits)
qed

text \<open>One step of a run.\<close>

lemma al_step_inv:
  assumes "al_inv a"
  shows "\<exists>a'. al_step True x a = Inr a' \<and> al_inv a' \<and> erased a \<le> erased a'
     \<and> (erased a' = erased a \<and> (\<forall>fw t. x = Log_write fw t \<longrightarrow> progress fw) \<longrightarrow>
        log_text (log_output a') @ in_flight a' = log_text (log_output a) @ in_flight a @ logged [x])"
proof (cases x)
  case (Log_append s)
  then show ?thesis using al_append_inv [OF assms, of s] by auto
next
  case Log_stop
  have "al_inv (al_stop a)" "in_flight (al_stop a) = in_flight a" "log_output (al_stop a) = log_output a" "erased (al_stop a) = erased a"
    using assms by (simp_all add: al_inv_def al_stop_def in_flight_def)
  with Log_stop show ?thesis by simp
next
  case Log_test
  define a' where "a' = (if log_at a = LogTop then a\<lparr>log_at := (if running a then LogLocked else LogDone)\<rparr> else a)"
  have "al_inv a'" "in_flight a' = in_flight a" "log_output a' = log_output a" "erased a' = erased a"
    using assms by (auto simp: al_inv_def a'_def in_flight_def)
  with Log_test show ?thesis by (simp add: a'_def [symmetric])
next
  case Log_collect
  show ?thesis
  proof (cases "log_at a = LogLocked")
    case True
    obtain a1 where "al_collect a = Inr a1" "al_inv (a1\<lparr>log_at := LogWriting\<rparr>)" "log_output a1 = log_output a"
        "erased a1 = erased a" "in_flight a1 = in_flight a"
      using al_collect_inv [OF assms True] by blast
    moreover have "in_flight (a1\<lparr>log_at := LogWriting\<rparr>) = in_flight a1" by (simp add: in_flight_def)
    ultimately show ?thesis using Log_collect True by simp
  next
    case False
    with Log_collect assms show ?thesis by simp
  qed
next
  case (Log_write fw timeBuf)
  show ?thesis
  proof (cases "log_at a = LogWriting")
    case True
    obtain a1 where a1: "al_write True fw timeBuf a = Inr a1" "al_inv (a1\<lparr>log_at := LogTop\<rparr>)" "erased a \<le> erased a1"
        "erased a1 = erased a \<longrightarrow> length (buffersToWrite a) \<le> 25"
        "progress fw \<and> length (buffersToWrite a) \<le> 25 \<longrightarrow>
          log_text (log_output a1) @ in_flight a1 = log_text (log_output a) @ in_flight a"
      using al_write_inv [OF assms True, of fw timeBuf] by blast
    moreover have "in_flight (a1\<lparr>log_at := LogTop\<rparr>) = in_flight a1" by (simp add: in_flight_def)
    ultimately show ?thesis using Log_write True by simp
  next
    case False
    with Log_write assms show ?thesis by simp
  qed
qed

lemma logged_Cons: "logged (x # xs) = logged [x] @ logged xs"
  by (cases x) simp_all

definition log_answers_ok :: "log_act list \<Rightarrow> bool" where
  "log_answers_ok acts \<longleftrightarrow> (\<forall>fw t. Log_write fw t \<in> set acts \<longrightarrow> progress fw)"

lemma al_run_inv:
  "al_inv a \<Longrightarrow> \<exists>a'. al_run True acts a = Inr a' \<and> al_inv a' \<and> erased a \<le> erased a'
     \<and> (erased a' = erased a \<and> log_answers_ok acts \<longrightarrow>
        log_text (log_output a') @ in_flight a' = log_text (log_output a) @ in_flight a @ logged acts)"
proof (induction acts arbitrary: a)
  case (Cons x acts)
  obtain a1 where a1: "al_step True x a = Inr a1" "al_inv a1" "erased a \<le> erased a1"
      "erased a1 = erased a \<and> (\<forall>fw t. x = Log_write fw t \<longrightarrow> progress fw) \<longrightarrow>
        log_text (log_output a1) @ in_flight a1 = log_text (log_output a) @ in_flight a @ logged [x]"
    using al_step_inv [OF Cons.prems, of x] by blast
  obtain a' where a': "al_run True acts a1 = Inr a'" "al_inv a'" "erased a1 \<le> erased a'"
      "erased a' = erased a1 \<and> log_answers_ok acts \<longrightarrow>
        log_text (log_output a') @ in_flight a' = log_text (log_output a1) @ in_flight a1 @ logged acts"
    using Cons.IH [OF a1(2)] by blast
  have "log_text (log_output a') @ in_flight a' = log_text (log_output a) @ in_flight a @ logged (x # acts)"
    if "erased a' = erased a" "log_answers_ok (x # acts)"
  proof -
    have "erased a1 = erased a" "erased a' = erased a1" using that(1) a1(3) a'(3) by simp_all
    moreover have "log_answers_ok acts" using that(2) by (simp add: log_answers_ok_def)
    ultimately have "log_text (log_output a') @ in_flight a' = log_text (log_output a1) @ in_flight a1 @ logged acts"
        "log_text (log_output a1) @ in_flight a1 = log_text (log_output a) @ in_flight a @ logged [x]"
      using a1(4) a'(4) that(2) by (auto simp: log_answers_ok_def)
    then show ?thesis by (metis append.assoc logged_Cons)
  qed
  with a1 a' show ?case by auto
qed simp

text \<open>A run that succeeds with asserts compiled in is one without them.\<close>

lemma lf_append_release: "lf_append ndebug fw timeBuf s l = Inr l' \<Longrightarrow> lf_append True fw timeBuf s l = Inr l'"
  by (auto simp: lf_append_def rollFile_def WriteFile_def Let_def split: if_splits)

lemma write_all_release: "write_all ndebug fw timeBuf bs l = Inr l' \<Longrightarrow> write_all True fw timeBuf bs l = Inr l'"
proof (induction bs arbitrary: l)
  case (Cons b bs)
  then obtain l1 where "lf_append ndebug fw timeBuf (ftext b) l = Inr l1" "write_all ndebug fw timeBuf bs l1 = Inr l'"
    by (auto simp: ebind_eq_Inr)
  with Cons.IH lf_append_release show ?case by fastforce
qed simp

lemma al_write_release: "al_write ndebug fw timeBuf a = Inr a' \<Longrightarrow> al_write True fw timeBuf a = Inr a'"
  by (auto simp: al_write_def Let_def ebind_eq_Inr write_all_release split: if_splits)

lemma al_run_release: "al_run ndebug acts a = Inr a' \<Longrightarrow> al_run True acts a = Inr a'"
proof (induction acts arbitrary: a)
  case (Cons x acts)
  then obtain a1 where a1: "al_step ndebug x a = Inr a1" "al_run ndebug acts a1 = Inr a'"
    by (auto simp: ebind_eq_Inr)
  have "al_step True x a = Inr a1"
    using a1(1) al_write_release by (cases x) (auto simp: ebind_eq_Inr split: if_splits)
  with Cons.IH a1(2) show ?case by simp
qed simp

text \<open>What an append leaves alone, and how long a run cannot fill 25 buffers.\<close>

lemma al_append_frame:
  assumes "al_append s a = Inr a'"
  shows "log_at a' = log_at a \<and> log_output a' = log_output a \<and> erased a' = erased a
     \<and> buffersToWrite a' = buffersToWrite a \<and> length (buffers a') \<le> length (buffers a) + 1"
proof -
  obtain b where b: "currentBuffer a = Some b"
    using assms by (cases "currentBuffer a") (simp_all add: al_append_def deref_def)
  show ?thesis
  proof (cases "length s < favail b")
    case True
    with assms b show ?thesis
      by (cases "fappend s b") (auto simp: al_append_def deref_def)
  next
    case False
    define c where "c = (case nextBuffer a of Some nb \<Rightarrow> nb | None \<Rightarrow> new_fixed kLargeBuffer)"
    from assms b False show ?thesis
      by (cases "nextBuffer a"; cases "fappend s c") (auto simp: al_append_def deref_def Let_def c_def)
  qed
qed

lemma al_collect_frame: "al_collect a = Inr a' \<Longrightarrow> erased a' = erased a \<and> buffers a' = []
    \<and> length (buffersToWrite a') = length (buffers a) + 1"
  by (cases "currentBuffer a") (auto simp: al_collect_def deref_def Let_def split: if_splits)

lemma al_write_frame: "al_write True fw timeBuf a = Inr a' \<Longrightarrow> length (buffersToWrite a) \<le> 25 \<Longrightarrow>
    erased a' = erased a \<and> buffers a' = buffers a \<and> buffersToWrite a' = []"
  using write_all_total [of fw timeBuf "buffersToWrite a" "log_output a"]
  by (auto simp: al_write_def ebind_def Let_def split: if_splits sum.splits)

fun is_append :: "log_act \<Rightarrow> bool" where
  "is_append (Log_append s) = True" | "is_append _ = False"

lemma few_appends:
  "al_run True acts a = Inr a' \<Longrightarrow> length (buffers a) + length (filter is_append acts) \<le> 24 \<Longrightarrow>
     length (buffersToWrite a) \<le> 25 \<Longrightarrow> erased a' = erased a"
proof (induction acts arbitrary: a)
  case (Cons x acts)
  obtain a1 where a1: "al_step True x a = Inr a1" "al_run True acts a1 = Inr a'"
    using Cons.prems(1) by (cases "al_step True x a") auto
  have "erased a1 = erased a \<and> length (buffersToWrite a1) \<le> 25
      \<and> length (buffers a1) \<le> length (buffers a) + (if is_append x then 1 else 0)"
  proof (cases x)
    case (Log_append s)
    with al_append_frame a1(1) Cons.prems(3) show ?thesis by simp
  next
    case Log_collect
    with a1(1) Cons.prems(2,3) show ?thesis
      by (cases "al_collect a") (auto dest: al_collect_frame split: if_splits)
  next
    case (Log_write fw timeBuf)
    with a1(1) Cons.prems(3) show ?thesis
      by (cases "al_write True fw timeBuf a") (auto dest: al_write_frame split: if_splits)
  qed (use a1(1) Cons.prems(3) in \<open>auto simp: al_stop_def\<close>)
  with Cons.IH [OF a1(2)] Cons.prems(2) show ?case by (auto split: if_splits)
qed simp

lemma log_done_stays: "log_at a = LogDone \<Longrightarrow> al_run ndebug acts a = Inr a' \<Longrightarrow> log_output a' = log_output a"
proof (induction acts arbitrary: a)
  case (Cons x acts)
  obtain a1 where a1: "al_step ndebug x a = Inr a1" using Cons.prems(2) by (cases "al_step ndebug x a") auto
  have "log_at a1 = LogDone \<and> log_output a1 = log_output a"
    using a1 Cons.prems(1) al_append_frame by (cases x) (auto simp: al_stop_def)
  with Cons.IH [of a1] Cons.prems(2) a1 show ?case by simp
qed simp

text \<open>The open file is below the roll size and every closed one has reached it.\<close>

definition rolled :: "log_file \<Rightarrow> bool" where
  "rolled l \<longleftrightarrow> writeLen (lfile l) < rollSize l \<and> writeLen (lfile l) = length (wf_text (lfile l))
     \<and> (\<forall>w \<in> set (lclosed l). rollSize l \<le> length (wf_text w))"

section \<open>Properties\<close>

text \<open>
  In every interleaving of appends, a stop and the moves of the log thread, whatever the
  file takes, no null buffer is used, no assert of the thread fails, and the buffers
  circulate as they should: there is always a current one, and between two rounds the
  thread has its two empty ones back.
\<close>

theorem async_log_safe: "\<exists>a. al_run True acts (started_log f) = Inr a \<and> al_inv a"
  using al_run_inv [OF al_inv_started] by blast

text \<open>
  C14: In every interleaving of appends, a stop and the moves of the log thread that ends
  without a fault, with asserts compiled in or not, in which no buffer was erased for
  overload and every call of \<open>fwrite_unlocked\<close> takes at least one byte, the files together
  hold, followed by what the buffers still hold, exactly the bytes logged, in order; of a
  message of more than \<open>kLargeBuffer\<close> bytes that is its first \<open>kLargeBuffer\<close> ones.
\<close>

theorem async_log_order:
  assumes "al_run ndebug acts (started_log f) = Inr a" and "log_answers_ok acts" and "erased a = 0"
  shows "log_text (log_output a) @ in_flight a = log_text f @ logged acts"
proof -
  have "erased (started_log f) = 0" "in_flight (started_log f) = []" "log_output (started_log f) = f"
    by (simp_all add: started_log_def in_flight_def)
  with al_run_inv [OF al_inv_started, of acts f] al_run_release [OF assms(1)] assms(2,3) show ?thesis by auto
qed

definition empty_log :: log_file where
  "empty_log = \<lparr>baseName = ''log'', rollSize = 65536, lfile = \<lparr>wf_name = ''log.1.log'', writeLen = 0, wf_text = []\<rparr>, lclosed = []\<rparr>"

lemma async_log_order_witness:
  "\<exists>a. al_run True [Log_append ''a'', Log_test, Log_collect, Log_append ''b'', Log_write (\<lambda>i r. 1) ''.1.''] (started_log empty_log) = Inr a
     \<and> log_text (log_output a) @ in_flight a = ''ab''"
proof -
  let ?acts = "[Log_append ''a'', Log_test, Log_collect, Log_append ''b'', Log_write (\<lambda>i r. 1) ''.1.'']"
  obtain a where a: "al_run True ?acts (started_log empty_log) = Inr a"
    using al_run_inv [OF al_inv_started] by blast
  have "log_answers_ok ?acts" by (auto simp: log_answers_ok_def progress_def)
  moreover have "erased a = 0" using few_appends [OF a] by (simp add: started_log_def)
  moreover have "log_text empty_log = []" by (simp add: empty_log_def log_text_def)
  ultimately have "log_text (log_output a) @ in_flight a = ''ab''" using async_log_order [OF a] by (simp add: kLargeBuffer_def)
  with a show ?thesis by blast
qed

text \<open>
  a message logged after the last exchange of the buffers and followed by \<open>stop\<close> before the
  thread tests \<open>running_\<close> is never written: the thread leaves its loop without looking at the
  buffers again.
\<close>

theorem stop_loses_lines:
  assumes "al_run True [Log_append s, Log_stop, Log_test] (started_log f) = Inr a" and "al_run True acts a = Inr a'"
  shows "log_at a = LogDone \<and> log_text (log_output a') = log_text f"
proof -
  obtain a1 where a1: "al_append s (started_log f) = Inr a1" using assms(1) by (cases "al_append s (started_log f)") auto
  have "log_at a1 = LogTop" "log_output a1 = f" using al_append_frame [OF a1] by (simp_all add: started_log_def)
  then have "log_at a = LogDone" "log_output a = f" using assms(1) a1 by (auto simp: al_stop_def)
  with log_done_stays [OF _ assms(2)] show ?thesis by simp
qed

lemma stop_loses_lines_witness:
  "\<exists>a a'. al_run True [Log_append ''last words'', Log_stop, Log_test] (started_log empty_log) = Inr a
     \<and> al_run True [Log_collect, Log_write (\<lambda>i r. r) ''.1.''] a = Inr a' \<and> log_text (log_output a') = []"
proof -
  obtain a where a: "al_run True [Log_append ''last words'', Log_stop, Log_test] (started_log empty_log) = Inr a" "al_inv a"
    using al_run_inv [OF al_inv_started] by blast
  obtain a' where a': "al_run True [Log_collect, Log_write (\<lambda>i r. r) ''.1.''] a = Inr a'" using al_run_inv [OF a(2)] by blast
  have "log_text empty_log = []" by (simp add: empty_log_def log_text_def)
  with stop_loses_lines [OF a(1) a'] a(1) a' show ?thesis by auto
qed

text \<open>
  when more than 25 buffers wait, the log thread writes the first two and drops all others
  without a trace in the file.
\<close>

theorem overload_drops:
  assumes "al_inv a" and "log_at a = LogWriting" and "25 < length (buffersToWrite a)" and "progress fw"
  shows "\<exists>a'. al_write True fw timeBuf a = Inr a' \<and> buffersToWrite a' = []
     \<and> log_text (log_output a') = log_text (log_output a) @ concat (map ftext (take 2 (buffersToWrite a)))
     \<and> erased a' = erased a + (length (buffersToWrite a) - 2)"
proof -
  obtain a' where a': "al_write True fw timeBuf a = Inr a'"
      "log_text (log_output a') = log_text (log_output a) @ concat (map ftext (take 2 (buffersToWrite a)))"
    using al_write_inv [OF assms(1,2), of fw timeBuf] assms(3,4) by blast
  moreover have "buffersToWrite a' = []" "erased a' = erased a + (length (buffersToWrite a) - 2)"
    using a'(1) assms(3) by (auto simp: al_write_def ebind_def Let_def split: if_splits sum.splits)
  ultimately show ?thesis by blast
qed

definition busy_log :: async_log where
  "busy_log = (started_log empty_log)\<lparr>newBuffer1 := None, newBuffer2 := None,
     buffersToWrite := replicate 26 (new_fixed kLargeBuffer), log_at := LogWriting\<rparr>"

lemma overload_drops_witness:
  "\<exists>a'. al_write True (\<lambda>i r. r) ''.1.'' busy_log = Inr a' \<and> erased a' = 24"
proof -
  have "al_inv busy_log" using empty_new by (simp add: busy_log_def started_log_def al_inv_def)
  moreover have "log_at busy_log = LogWriting" "length (buffersToWrite busy_log) = 26" "erased busy_log = 0"
    by (simp_all add: busy_log_def started_log_def)
  ultimately show ?thesis using overload_drops [of busy_log "\<lambda>i r. r" "''.1.''"] by (auto simp: progress_def)
qed

text \<open>
  Appending to a log file loses nothing, opens a new file exactly when the current one has
  reached the roll size, and so every file closed has at least that size and the open one
  less.
\<close>

theorem log_file_rolls:
  assumes "rolled l" and "progress fw"
  shows "\<exists>l'. lf_append True fw timeBuf s l = Inr l' \<and> log_text l' = log_text l @ s
     \<and> (0 < rollSize l \<longrightarrow> rolled l')
     \<and> length (lclosed l') = length (lclosed l) + (if rollSize l \<le> writeLen (lfile l) + length s then 1 else 0)"
proof -
  obtain l' where l': "lf_append True fw timeBuf s l = Inr l'" using lf_append_total by blast
  moreover have "wf_loop fw 0 s = s" using wf_loop_all [OF assms(2)] .
  ultimately show ?thesis
    using assms(1) lf_append_text [OF assms(2) l']
    by (auto simp: lf_append_def rollFile_def Let_def rolled_def wf_append_def)
qed

lemma log_file_rolls_witness:
  "\<exists>l'. lf_append True (\<lambda>i r. 1) ''.2.'' ''ab'' (empty_log\<lparr>rollSize := 2\<rparr>) = Inr l' \<and> log_text l' = ''ab'' \<and> length (lclosed l') = 1"
proof -
  have "rolled (empty_log\<lparr>rollSize := 2\<rparr>)" "log_text (empty_log\<lparr>rollSize := 2\<rparr>) = []"
    by (simp_all add: rolled_def empty_log_def log_text_def)
  then show ?thesis
    using log_file_rolls [of "empty_log\<lparr>rollSize := 2\<rparr>" "\<lambda>i r. 1" "''.2.''" "''ab''"] by (auto simp: progress_def empty_log_def)
qed

end
