(* ===== verification/TaskQueue.thy ===== *)
theory TaskQueue
  imports Prelude
begin

text \<open>
  \<open>base/ThreadSafeQueue.hpp\<close>, \<open>base/ThreadPool.cpp\<close> and \<open>base/Thread.cpp\<close>. The queue is a
  linked list with a dummy node at its end, one mutex for each end and a condition
  variable; its nodes live in a heap here, so that a null or dangling pointer shows up as a
  fault. The locale states what the pool needs of a queue; the step relation interleaves
  the workers, which pop, and any number of threads that push.
\<close>

section \<open>The nodes\<close>

record 'a node =
  nval :: "'a option" \<comment> \<open>\<open>val_\<close>\<close>
  nnext :: "nat option" \<comment> \<open>\<open>next_\<close>\<close>

record 'a tsq =
  heap :: "nat \<Rightarrow> 'a node option"
  thead :: nat
  ttail :: nat
  fresh :: nat \<comment> \<open>the address the next \<open>new\<close> returns\<close>

definition new_node :: "'a node" where
  "new_node = \<lparr>nval = None, nnext = None\<rparr>"

definition new_tsq :: "'a tsq" where
  "new_tsq = \<lparr>heap = [0 \<mapsto> new_node], thead = 0, ttail = 0, fresh = 1\<rparr>"

definition tsq_push :: "'a \<Rightarrow> 'a tsq \<Rightarrow> fault + 'a tsq" where
  "tsq_push x q =
     (case heap q (ttail q) of
        None \<Rightarrow> Inl Null_deref
      | Some nd \<Rightarrow>
          (let p = fresh q in
           Inr (q\<lparr>heap := (heap q)(p \<mapsto> new_node, ttail q \<mapsto> nd\<lparr>nval := Some x, nnext := Some p\<rparr>),
                  ttail := p, fresh := p + 1\<rparr>)))"

definition tsq_has_data :: "'a tsq \<Rightarrow> bool" where
  "tsq_has_data q \<longleftrightarrow> thead q \<noteq> ttail q"

definition tsq_empty :: "'a tsq \<Rightarrow> bool" where
  "tsq_empty q \<longleftrightarrow> thead q = ttail q"

text \<open>
  \<open>popHead\<close> moves the successor into \<open>head_\<close>; the old node is handed out and deleted by the
  caller. A null successor leaves a null \<open>head_\<close>, a fault here.
\<close>

definition popHead :: "'a tsq \<Rightarrow> fault + 'a tsq" where
  "popHead q =
     (case heap q (thead q) of
        None \<Rightarrow> Inl Null_deref
      | Some nd \<Rightarrow> (case nnext nd of
          None \<Rightarrow> Inl Null_deref
        | Some p \<Rightarrow> Inr (q\<lparr>heap := (heap q)(thead q := None), thead := p\<rparr>)))"

text \<open>\<open>x = std::move(*head_->val_)\<close> and \<open>popHead()\<close>, as \<open>waitPopHead(x)\<close> and \<open>tryPopHead(x)\<close> have it.\<close>

definition take_head :: "'a tsq \<Rightarrow> fault + ('a \<times> 'a tsq)" where
  "take_head q =
     (case heap q (thead q) of
        None \<Rightarrow> Inl Null_deref
      | Some nd \<Rightarrow> (case nval nd of
          None \<Rightarrow> Inl Null_deref
        | Some x \<Rightarrow> ebind (popHead q) (\<lambda>q'. Inr (x, q'))))"

definition tryPop :: "'a tsq \<Rightarrow> fault + ('a option \<times> 'a tsq)" where
  "tryPop q = (if \<not> tsq_has_data q then Inr (None, q) else ebind (take_head q) (\<lambda>(x, q'). Inr (Some x, q')))"

text \<open>
  The overloads that return a shared pointer to the value take it from the node that was
  popped; \<open>waitAndPop\<close> and \<open>waitPopHead\<close> as they go on once \<open>waitForData\<close> has returned.
\<close>

definition waitPopHead_node :: "'a tsq \<Rightarrow> fault + ('a node \<times> 'a tsq)" where
  "waitPopHead_node q = (case heap q (thead q) of None \<Rightarrow> Inl Null_deref | Some nd \<Rightarrow> ebind (popHead q) (\<lambda>q'. Inr (nd, q')))"

definition waitAndPop_ptr :: "'a tsq \<Rightarrow> fault + ('a option \<times> 'a tsq)" where
  "waitAndPop_ptr q = ebind (waitPopHead_node q) (\<lambda>(oldHead, q'). Inr (nval oldHead, q'))"

definition tryPopHead_node :: "'a tsq \<Rightarrow> fault + ('a node option \<times> 'a tsq)" where
  "tryPopHead_node q = (if \<not> tsq_has_data q then Inr (None, q)
     else ebind (waitPopHead_node q) (\<lambda>(oldHead, q'). Inr (Some oldHead, q')))"

definition tryPop_ptr :: "'a tsq \<Rightarrow> fault + ('a option \<times> 'a tsq)" where
  "tryPop_ptr q = ebind (tryPopHead_node q)
     (\<lambda>(oldHead, q'). Inr (case oldHead of None \<Rightarrow> None | Some nd \<Rightarrow> nval nd, q'))"

section \<open>The list in the heap\<close>

fun lseg :: "(nat \<Rightarrow> 'a node option) \<Rightarrow> nat \<Rightarrow> nat list \<Rightarrow> 'a list \<Rightarrow> nat \<Rightarrow> bool" where
  "lseg hp a [] [] b \<longleftrightarrow> a = b"
| "lseg hp a (p # ps) (x # xs) b \<longleftrightarrow>
     a = p \<and> (\<exists>c. hp p = Some \<lparr>nval = Some x, nnext = Some c\<rparr> \<and> lseg hp c ps xs b)"
| "lseg hp a _ _ b \<longleftrightarrow> False"

text \<open>A queue holds a list: the segment from head to tail, the dummy node, and no other node.\<close>

definition holds_at :: "nat list \<Rightarrow> 'a list \<Rightarrow> 'a tsq \<Rightarrow> bool" where
  "holds_at ps xs q \<longleftrightarrow> lseg (heap q) (thead q) ps xs (ttail q) \<and> distinct (ps @ [ttail q])
     \<and> heap q (ttail q) = Some new_node \<and> dom (heap q) = set (ps @ [ttail q])
     \<and> (\<forall>p \<in> set (ps @ [ttail q]). p < fresh q)"

definition holds :: "'a list \<Rightarrow> 'a tsq \<Rightarrow> bool" where
  "holds xs q \<longleftrightarrow> (\<exists>ps. holds_at ps xs q)"

lemma lseg_cong: "lseg hp a ps xs b \<Longrightarrow> \<forall>p \<in> set ps. hp' p = hp p \<Longrightarrow> lseg hp' a ps xs b"
  by (induction hp a ps xs b rule: lseg.induct) auto

lemma lseg_snoc: "lseg hp a ps xs b \<Longrightarrow> hp b = Some \<lparr>nval = Some x, nnext = Some c\<rparr> \<Longrightarrow> lseg hp a (ps @ [b]) (xs @ [x]) c"
  by (induction hp a ps xs b rule: lseg.induct) auto

lemma lseg_length: "lseg hp a ps xs b \<Longrightarrow> length ps = length xs"
  by (induction hp a ps xs b rule: lseg.induct) auto

lemma new_tsq_holds: "holds [] new_tsq"
  unfolding holds_def by (rule exI [of _ "[]"]) (simp add: holds_at_def new_tsq_def)

lemma push_holds:
  assumes "holds xs q"
  shows "\<exists>q'. tsq_push x q = Inr q' \<and> holds (xs @ [x]) q'"
proof -
  obtain ps where h: "holds_at ps xs q" using assms by (auto simp: holds_def)
  let ?p = "fresh q" and ?t = "ttail q"
  let ?hp = "(heap q)(?p \<mapsto> new_node, ?t \<mapsto> new_node\<lparr>nval := Some x, nnext := Some ?p\<rparr>)"
  have new: "?p \<notin> set (ps @ [?t])" using h by (auto simp: holds_at_def)
  have "lseg ?hp (thead q) ps xs ?t"
    by (rule lseg_cong [of "heap q"]) (use h new in \<open>auto simp: holds_at_def\<close>)
  then have "lseg ?hp (thead q) (ps @ [?t]) (xs @ [x]) ?p"
    by (rule lseg_snoc) (simp add: new_node_def)
  moreover have "?hp ?p = Some new_node" using new by simp
  moreover have "dom ?hp = set ((ps @ [?t]) @ [?p])" using h by (auto simp: holds_at_def)
  ultimately have "holds_at (ps @ [?t]) (xs @ [x]) (q\<lparr>heap := ?hp, ttail := ?p, fresh := ?p + 1\<rparr>)"
    using h new by (auto simp: holds_at_def less_Suc_eq)
  then have "holds (xs @ [x]) (q\<lparr>heap := ?hp, ttail := ?p, fresh := ?p + 1\<rparr>)" by (auto simp: holds_def)
  moreover have "tsq_push x q = Inr (q\<lparr>heap := ?hp, ttail := ?p, fresh := ?p + 1\<rparr>)"
    using h by (simp add: tsq_push_def holds_at_def Let_def)
  ultimately show ?thesis by blast
qed

lemma lseg_ends: "lseg hp a ps xs b \<Longrightarrow> b \<notin> set ps \<Longrightarrow> a = b \<longleftrightarrow> xs = []"
  by (induction hp a ps xs b rule: lseg.induct) auto

lemma has_data_holds: "holds xs q \<Longrightarrow> tsq_has_data q \<longleftrightarrow> xs \<noteq> []"
  using lseg_ends by (fastforce simp: holds_def holds_at_def tsq_has_data_def)

lemma take_holds:
  assumes "holds (x # xs) q"
  shows "\<exists>q'. take_head q = Inr (x, q') \<and> holds xs q'"
proof -
  obtain ps where h: "holds_at ps (x # xs) q" using assms by (auto simp: holds_def)
  then obtain p qs where ps: "ps = p # qs" by (cases ps) (auto simp: holds_at_def)
  with h obtain c where c: "thead q = p" "heap q p = Some \<lparr>nval = Some x, nnext = Some c\<rparr>" "lseg (heap q) c qs xs (ttail q)"
    by (auto simp: holds_at_def)
  let ?q = "q\<lparr>heap := (heap q)(p := None), thead := c\<rparr>"
  have "lseg ((heap q)(p := None)) c qs xs (ttail q)"
    by (rule lseg_cong [OF c(3)]) (use h ps in \<open>auto simp: holds_at_def\<close>)
  then have "holds_at qs xs ?q" using h ps by (auto simp: holds_at_def)
  then show ?thesis using c by (auto simp: take_head_def popHead_def holds_def)
qed

section \<open>What the pool needs of a queue\<close>

lemma tryPop_ptr_same: "holds xs q \<Longrightarrow> tryPop_ptr q = tryPop q"
  using take_holds [of "hd xs" "tl xs" q] has_data_holds [of xs q]
  by (cases xs) (auto simp: tryPop_ptr_def tryPop_def tryPopHead_node_def waitPopHead_node_def take_head_def ebind_eq_Inr
      split: option.splits)

datatype 'a queue_op = QPush 'a | QPop

fun queue_run :: "('a \<Rightarrow> 'q \<Rightarrow> fault + 'q) \<Rightarrow> ('q \<Rightarrow> fault + ('a option \<times> 'q)) \<Rightarrow> 'a queue_op list \<Rightarrow> 'q
    \<Rightarrow> fault + ('a option list \<times> 'q)" where
  "queue_run push pop [] q = Inr ([], q)"
| "queue_run push pop (QPush x # ops) q = ebind (push x q) (queue_run push pop ops)"
| "queue_run push pop (QPop # ops) q =
     ebind (pop q) (\<lambda>(r, q1). ebind (queue_run push pop ops q1) (\<lambda>(rs, q2). Inr (r # rs, q2)))"

text \<open>The same operations on a list.\<close>

fun list_run :: "'a queue_op list \<Rightarrow> 'a list \<Rightarrow> 'a option list \<times> 'a list" where
  "list_run [] xs = ([], xs)"
| "list_run (QPush x # ops) xs = list_run ops (xs @ [x])"
| "list_run (QPop # ops) [] = (let (rs, ys) = list_run ops [] in (None # rs, ys))"
| "list_run (QPop # ops) (x # xs) = (let (rs, ys) = list_run ops xs in (Some x # rs, ys))"

locale fifo =
  fixes holding :: "'a list \<Rightarrow> 'q \<Rightarrow> bool"
    and push :: "'a \<Rightarrow> 'q \<Rightarrow> fault + 'q"
    and pop :: "'q \<Rightarrow> fault + ('a option \<times> 'q)"
  assumes push_ok: "holding xs q \<Longrightarrow> \<exists>q'. push x q = Inr q' \<and> holding (xs @ [x]) q'"
    and pop_empty: "holding [] q \<Longrightarrow> pop q = Inr (None, q)"
    and pop_ok: "holding (x # xs) q \<Longrightarrow> \<exists>q'. pop q = Inr (Some x, q') \<and> holding xs q'"
begin

lemma run_refines:
  "holding xs q \<Longrightarrow> \<exists>q'. queue_run push pop ops q = Inr (fst (list_run ops xs), q') \<and> holding (snd (list_run ops xs)) q'"
proof (induction ops xs arbitrary: q rule: list_run.induct)
  case (2 x ops xs)
  obtain q1 where "push x q = Inr q1" "holding (xs @ [x]) q1" using push_ok [OF 2(2)] by blast
  with 2(1) show ?case by simp
next
  case (3 ops)
  with pop_empty [OF 3(2)] show ?case by (fastforce simp: split_beta Let_def)
next
  case (4 ops x xs)
  obtain q1 where "pop q = Inr (Some x, q1)" "holding xs q1" using pop_ok [OF 4(2)] by blast
  with 4(1) show ?case by (fastforce simp: split_beta Let_def)
qed simp

end

interpretation tsq: fifo holds tsq_push tryPop
proof
  fix xs :: "'a list" and q x
  show "holds xs q \<Longrightarrow> \<exists>q'. tsq_push x q = Inr q' \<and> holds (xs @ [x]) q'" by (rule push_holds)
  show "holds [] (q :: 'a tsq) \<Longrightarrow> tryPop q = Inr (None, q)" using has_data_holds [of "[]" q] by (simp add: tryPop_def)
  show "holds (x # xs) q \<Longrightarrow> \<exists>q'. tryPop q = Inr (Some x, q') \<and> holds xs q'"
    using has_data_holds [of "x # xs" q] take_holds [of x xs q] by (auto simp: tryPop_def)
qed

section \<open>Thread\<close>

text \<open>
  A \<open>std::thread\<close> that is started is joinable until it is joined. Joining one that is not
  joinable throws, which ends the program in a destructor, and so does destroying one that
  is.
\<close>

definition thread_destructor :: "bool \<Rightarrow> bool \<Rightarrow> fault + unit" where
  "thread_destructor started joinable =
     (if started \<and> \<not> joinable then Inl Fatal \<comment> \<open>\<open>thread_->join()\<close>\<close>
      else if started \<and> joinable then Inl Fatal \<comment> \<open>\<open>~thread\<close>\<close>
      else Inr ())"

lemma thread_destructor_ends: "thread_destructor True joinable = Inl Fatal"
  by (simp add: thread_destructor_def)

section \<open>ThreadPool\<close>

text \<open>Where a worker is in \<open>runInThread\<close> and, inside \<open>waitAndPop\<close>, with respect to the mutex of the head.\<close>

datatype 'a worker = WUnborn | WInit | WTop | WLock | WCheck | WBlocking | WBlocked | WPop | WRun 'a | WDone

text \<open>How far \<open>start\<close> is: not called, about to start a thread, or through.\<close>

datatype pool_phase = PhNew | PhStarting nat | PhStarted

record 'a pool =
  taskQueue :: "'a tsq"
  prunning :: bool
  threadInitCallback :: bool \<comment> \<open>whether it is set\<close>
  phase :: pool_phase
  worker :: "nat \<Rightarrow> 'a worker"
  headOwner :: "nat option"
  notifying :: nat \<comment> \<open>threads between the push and \<open>notify_one\<close>\<close>
  initialised :: "nat list" \<comment> \<open>history: the workers that have run \<open>threadInitCallback_\<close>\<close>
  spuriousWakes :: nat \<comment> \<open>history: how often a wait has ended without a notification\<close>
  callerInits :: nat \<comment> \<open>history: how often \<open>start\<close> has run it itself\<close>
  pushed :: "'a list" \<comment> \<open>history\<close>
  popped :: "'a list" \<comment> \<open>history\<close>

definition new_pool :: "bool \<Rightarrow> 'a pool" where
  "new_pool cb = \<lparr>taskQueue = new_tsq, prunning = False, threadInitCallback = cb, phase = PhNew, worker = (\<lambda>w. WUnborn),
     headOwner = None, notifying = 0, initialised = [], spuriousWakes = 0, callerInits = 0, pushed = [], popped = []\<rparr>"

definition pool_stop :: "'a pool \<Rightarrow> 'a pool" where
  "pool_stop s = s\<lparr>prunning := False\<rparr>"

definition pool_destructor :: "'a pool \<Rightarrow> 'a pool" where
  "pool_destructor s = (if prunning s then pool_stop s else s)"

definition move_to :: "nat \<Rightarrow> 'a worker \<Rightarrow> 'a pool \<Rightarrow> 'a pool" where
  "move_to w pc s = s\<lparr>worker := (worker s)(w := pc)\<rparr>"

text \<open>What a worker does before its loop, and \<open>start\<close> with no threads.\<close>

definition run_init :: "nat \<Rightarrow> 'a pool \<Rightarrow> 'a pool" where
  "run_init w s = (if threadInitCallback s then s\<lparr>initialised := initialised s @ [w]\<rparr> else s)"

definition end_start :: "nat \<Rightarrow> 'a pool \<Rightarrow> 'a pool" where
  "end_start n s = (if n = 0 \<and> threadInitCallback s then s\<lparr>phase := PhStarted, callerInits := callerInits s + 1\<rparr>
     else s\<lparr>phase := PhStarted\<rparr>)"

text \<open>
  A worker leaves its wait when it is notified, or for no reason; either way it takes the
  mutex again and repeats its test.
\<close>

inductive pool_step :: "nat \<Rightarrow> 'a pool \<Rightarrow> 'a pool \<Rightarrow> bool" for n :: nat where
  add_task: "tsq_push x (taskQueue s) = Inr q \<Longrightarrow>
     pool_step n s (s\<lparr>taskQueue := q, notifying := notifying s + 1, pushed := pushed s @ [x]\<rparr>)"
| notify_one: "0 < notifying s \<Longrightarrow> w < n \<Longrightarrow> worker s w = WBlocked \<Longrightarrow>
     pool_step n s (move_to w WLock (s\<lparr>notifying := notifying s - 1\<rparr>))"
| notify_none: "0 < notifying s \<Longrightarrow> \<forall>w < n. worker s w \<noteq> WBlocked \<Longrightarrow>
     pool_step n s (s\<lparr>notifying := notifying s - 1\<rparr>)"
| spurious_wakeup: "w < n \<Longrightarrow> worker s w = WBlocked \<Longrightarrow>
     pool_step n s (move_to w WLock (s\<lparr>spuriousWakes := spuriousWakes s + 1\<rparr>))"
| call_start: "phase s = PhNew \<Longrightarrow> pool_step n s (s\<lparr>prunning := True, phase := PhStarting 0\<rparr>)"
| start_thread: "phase s = PhStarting w \<Longrightarrow> w < n \<Longrightarrow> worker s w = WUnborn \<Longrightarrow>
     pool_step n s (move_to w WInit (s\<lparr>phase := PhStarting (w + 1)\<rparr>))"
| start_ends: "phase s = PhStarting n \<Longrightarrow> pool_step n s (end_start n s)"
| stop: "pool_step n s (pool_stop s)"
| init_worker: "w < n \<Longrightarrow> worker s w = WInit \<Longrightarrow> pool_step n s (move_to w WTop (run_init w s))"
| test_running: "w < n \<Longrightarrow> worker s w = WTop \<Longrightarrow>
     pool_step n s (move_to w (if prunning s then WLock else WDone) s)"
| lock_head: "w < n \<Longrightarrow> worker s w = WLock \<Longrightarrow> headOwner s = None \<Longrightarrow>
     pool_step n s (move_to w WCheck (s\<lparr>headOwner := Some w\<rparr>))"
| check: "w < n \<Longrightarrow> worker s w = WCheck \<Longrightarrow>
     pool_step n s (move_to w (if tsq_has_data (taskQueue s) then WPop else WBlocking) s)"
| block: "w < n \<Longrightarrow> worker s w = WBlocking \<Longrightarrow>
     pool_step n s (move_to w WBlocked (s\<lparr>headOwner := None\<rparr>))"
| pop: "w < n \<Longrightarrow> worker s w = WPop \<Longrightarrow> take_head (taskQueue s) = Inr (x, q) \<Longrightarrow>
     pool_step n s (move_to w (WRun x) (s\<lparr>taskQueue := q, headOwner := None, popped := popped s @ [x]\<rparr>))"
| run_task: "w < n \<Longrightarrow> worker s w = WRun x \<Longrightarrow> pool_step n s (move_to w WTop s)"

inductive pool_steps :: "nat \<Rightarrow> 'a pool \<Rightarrow> 'a pool \<Rightarrow> bool" for n :: nat where
  pool_refl: "pool_steps n s s"
| pool_more: "pool_steps n s t \<Longrightarrow> pool_step n t u \<Longrightarrow> pool_steps n s u"

inductive_cases pool_stepE: "pool_step n s t"

section \<open>The invariant of the pool\<close>

text \<open>
  The owner of the head's mutex is the worker inside the locked section; a worker that has
  seen data still finds it there when it pops.
\<close>

definition inside :: "'a worker \<Rightarrow> bool" where
  "inside pc \<longleftrightarrow> pc = WCheck \<or> pc = WBlocking \<or> pc = WPop"

definition pool_inv :: "nat \<Rightarrow> 'a pool \<Rightarrow> bool" where
  "pool_inv n s \<longleftrightarrow> (\<forall>w. inside (worker s w) \<longrightarrow> headOwner s = Some w)
     \<and> (\<exists>xs. holds xs (taskQueue s) \<and> popped s @ xs = pushed s \<and> (\<forall>w. worker s w = WPop \<longrightarrow> xs \<noteq> []))"

lemma pool_fields [simp]:
  "taskQueue (run_init w s) = taskQueue s" "worker (run_init w s) = worker s" "headOwner (run_init w s) = headOwner s"
  "notifying (run_init w s) = notifying s" "pushed (run_init w s) = pushed s" "popped (run_init w s) = popped s"
  "phase (run_init w s) = phase s" "threadInitCallback (run_init w s) = threadInitCallback s"
  "taskQueue (end_start n s) = taskQueue s" "worker (end_start n s) = worker s" "headOwner (end_start n s) = headOwner s"
  "notifying (end_start n s) = notifying s" "pushed (end_start n s) = pushed s" "popped (end_start n s) = popped s"
  "phase (end_start n s) = PhStarted" "threadInitCallback (end_start n s) = threadInitCallback s"
  "initialised (end_start n s) = initialised s" "spuriousWakes (end_start n s) = spuriousWakes s" "spuriousWakes (run_init w s) = spuriousWakes s"
  by (simp_all add: run_init_def end_start_def)

lemma pool_inv_start: "pool_inv n (new_pool cb)"
  using new_tsq_holds by (auto simp: pool_inv_def new_pool_def inside_def)

lemma pool_inv_owner: "pool_inv n s \<Longrightarrow> inside (worker s v) \<Longrightarrow> headOwner s = Some v"
  by (simp add: pool_inv_def)

lemma pool_inv_frame:
  "pool_inv n s \<Longrightarrow> taskQueue t = taskQueue s \<Longrightarrow> popped t = popped s \<Longrightarrow> pushed t = pushed s \<Longrightarrow>
     (\<And>v. inside (worker t v) \<Longrightarrow> headOwner t = Some v) \<Longrightarrow> (\<And>v. worker t v = WPop \<Longrightarrow> worker s v = WPop) \<Longrightarrow>
     pool_inv n t"
  unfolding pool_inv_def by metis

lemma pool_inv_same:
  "pool_inv n s \<Longrightarrow> taskQueue t = taskQueue s \<Longrightarrow> popped t = popped s \<Longrightarrow> pushed t = pushed s \<Longrightarrow> headOwner t = headOwner s \<Longrightarrow>
     worker t = worker s \<Longrightarrow> pool_inv n t"
  by (simp add: pool_inv_def)

lemma pool_inv_move:
  "pool_inv n s \<Longrightarrow> taskQueue t = taskQueue s \<Longrightarrow> popped t = popped s \<Longrightarrow> pushed t = pushed s \<Longrightarrow> headOwner t = headOwner s \<Longrightarrow>
     worker t = worker s \<Longrightarrow> \<not> inside pc \<Longrightarrow> pool_inv n (move_to w pc t)"
  unfolding move_to_def by (auto intro!: pool_inv_frame [of n s] dest: pool_inv_owner simp: inside_def split: if_splits)

lemma pool_inv_step: "pool_step n s t \<Longrightarrow> pool_inv n s \<Longrightarrow> pool_inv n t"
proof (induction rule: pool_step.induct)
  case (add_task x s q)
  obtain xs where xs: "holds xs (taskQueue s)" "popped s @ xs = pushed s" using add_task(2) by (auto simp: pool_inv_def)
  from push_holds [OF xs(1), of x] add_task(1) have "holds (xs @ [x]) q" by auto
  with add_task(2) xs show ?case by (auto simp: pool_inv_def intro!: exI [of _ "xs @ [x]"])
next
  case (check w s)
  obtain xs where xs: "holds xs (taskQueue s)" "popped s @ xs = pushed s" "\<forall>w. worker s w = WPop \<longrightarrow> xs \<noteq> []"
    using check(3) by (auto simp: pool_inv_def)
  have "tsq_has_data (taskQueue s) \<longleftrightarrow> xs \<noteq> []" using xs(1) by (rule has_data_holds)
  moreover have "headOwner s = Some w" using check(2,3) by (auto simp: pool_inv_def inside_def)
  moreover have "\<forall>v. inside (worker s v) \<longrightarrow> headOwner s = Some v" using check(3) by (simp add: pool_inv_def)
  ultimately show ?case
    using xs unfolding pool_inv_def move_to_def
    by (intro conjI exI [of _ xs]) (auto simp: inside_def)
next
  case (pop w s x q)
  obtain xs where xs: "holds xs (taskQueue s)" "popped s @ xs = pushed s" "xs \<noteq> []"
    using pop(2,4) by (auto simp: pool_inv_def)
  then obtain y ys where ys: "xs = y # ys" by (cases xs) auto
  have "x = y" "holds ys q" using take_holds [of y ys "taskQueue s"] xs(1) ys pop(3) by auto
  moreover have own: "headOwner s = Some w" using pop(2,4) by (auto simp: pool_inv_def inside_def)
  moreover have "\<not> inside (worker s v)" if "v \<noteq> w" for v
    using pop(4) own that by (auto simp: pool_inv_def)
  ultimately show ?case
    using xs(2) ys unfolding pool_inv_def
    by (intro conjI exI [of _ ys]) (auto simp: move_to_def inside_def)
next
  case (lock_head w s)
  have "\<not> inside (worker s v)" for v using pool_inv_owner [OF lock_head(4), of v] lock_head(3) by auto
  with lock_head show ?case
    by (intro pool_inv_frame [OF lock_head(4)]) (auto simp: move_to_def inside_def split: if_splits)
next
  case (block w s)
  have "headOwner s = Some w" using pool_inv_owner [OF block(3), of w] block(2) by (simp add: inside_def)
  then have "\<not> inside (worker s v)" if "v \<noteq> w" for v using pool_inv_owner [OF block(3), of v] that by auto
  then show ?case
    by (intro pool_inv_frame [OF block(3)]) (auto simp: move_to_def inside_def split: if_splits)
qed ((erule pool_inv_move; simp add: inside_def; fail) | (erule pool_inv_same; simp add: pool_stop_def; fail))+

lemma pool_inv_steps: "pool_steps n s t \<Longrightarrow> pool_inv n s \<Longrightarrow> pool_inv n t"
  by (induction rule: pool_steps.induct) (auto intro: pool_inv_step)

section \<open>The callback of a new worker\<close>

text \<open>
  Each worker runs \<open>threadInitCallback_\<close> once, before it looks for a task; a pool without
  workers runs it once, in \<open>start\<close>. The thread that \<open>start\<close> is about to start is always new.
\<close>

definition init_inv :: "nat \<Rightarrow> 'a pool \<Rightarrow> bool" where
  "init_inv n s \<longleftrightarrow>
     (\<forall>w. (case phase s of PhNew \<Rightarrow> True | PhStarting i \<Rightarrow> i \<le> w | PhStarted \<Rightarrow> n \<le> w) \<longrightarrow> worker s w = WUnborn)
     \<and> (\<forall>i. phase s = PhStarting i \<longrightarrow> i \<le> n) \<and> distinct (initialised s)
     \<and> set (initialised s) = (if threadInitCallback s then {w. worker s w \<noteq> WUnborn \<and> worker s w \<noteq> WInit} else {})
     \<and> callerInits s = (if phase s = PhStarted \<and> n = 0 \<and> threadInitCallback s then 1 else 0)"

lemma init_inv_move:
  "init_inv n s \<Longrightarrow> phase t = phase s \<Longrightarrow> initialised t = initialised s \<Longrightarrow> threadInitCallback t = threadInitCallback s \<Longrightarrow>
     callerInits t = callerInits s \<Longrightarrow> worker t = worker s \<Longrightarrow> worker s w \<noteq> WUnborn \<Longrightarrow> worker s w \<noteq> WInit \<Longrightarrow>
     pc \<noteq> WUnborn \<Longrightarrow> pc \<noteq> WInit \<Longrightarrow> init_inv n (move_to w pc t)"
  by (auto simp: init_inv_def move_to_def split: pool_phase.splits)

lemma init_inv_same:
  "init_inv n s \<Longrightarrow> phase t = phase s \<Longrightarrow> initialised t = initialised s \<Longrightarrow> threadInitCallback t = threadInitCallback s \<Longrightarrow>
     callerInits t = callerInits s \<Longrightarrow> worker t = worker s \<Longrightarrow> init_inv n t"
  by (simp add: init_inv_def)

lemma init_inv_step: "pool_step n s t \<Longrightarrow> init_inv n s \<Longrightarrow> init_inv n t"
proof (induction rule: pool_step.induct)
  case (start_thread s w)
  then show ?case by (auto simp: init_inv_def move_to_def)
next
  case (init_worker w s)
  then show ?case
    by (auto simp: init_inv_def move_to_def run_init_def split: pool_phase.splits if_splits)
qed ((erule init_inv_move; simp; fail) | (erule init_inv_same; simp add: pool_stop_def; fail)
    | (auto simp: init_inv_def end_start_def; fail))+

theorem init_callback_once: "pool_steps n (new_pool cb) s \<Longrightarrow> init_inv n s"
proof (induction "new_pool cb :: 'a pool" s rule: pool_steps.induct)
  case pool_refl
  show ?case by (simp add: init_inv_def new_pool_def)
next
  case (pool_more t u)
  then show ?case by (blast intro: init_inv_step)
qed

section \<open>A worker that nobody wakes\<close>

text \<open>Between two states nothing was added and no wait ended without a notification.\<close>

definition quiet :: "'a pool \<Rightarrow> 'a pool \<Rightarrow> bool" where
  "quiet s t \<longleftrightarrow> pushed t = pushed s \<and> spuriousWakes t = spuriousWakes s"

lemma blocked_step:
  "pool_step n s t \<Longrightarrow> worker s w = WBlocked \<Longrightarrow> notifying s = 0 \<Longrightarrow> quiet s t \<Longrightarrow>
     worker t w = WBlocked \<and> notifying t = 0"
  by (induction rule: pool_step.induct) (auto simp: move_to_def pool_stop_def quiet_def)

lemma blocked_popped: "pool_step 1 s t \<Longrightarrow> worker s 0 = WBlocked \<Longrightarrow> popped t = popped s"
  by (induction rule: pool_step.induct) (auto simp: move_to_def pool_stop_def)

lemma history_grows: "pool_step n s t \<Longrightarrow> (\<exists>xs. pushed t = pushed s @ xs) \<and> spuriousWakes s \<le> spuriousWakes t"
  by (induction rule: pool_step.induct) (auto simp: move_to_def pool_stop_def)

lemma history_grows_steps: "pool_steps n s t \<Longrightarrow> (\<exists>xs. pushed t = pushed s @ xs) \<and> spuriousWakes s \<le> spuriousWakes t"
proof (induction rule: pool_steps.induct)
  case (pool_more s t u)
  with history_grows [OF pool_more(2)] show ?case by fastforce
qed simp

lemma quiet_steps:
  assumes "pool_steps n s t" and "pool_step n t u" and "quiet s u"
  shows "quiet s t" and "quiet t u"
proof -
  obtain xs ys where x: "pushed t = pushed s @ xs" "pushed u = pushed t @ ys"
    using history_grows_steps [OF assms(1)] history_grows [OF assms(2)] by blast
  then have "pushed s @ xs @ ys = pushed s" using assms(3) by (simp add: quiet_def)
  then have "xs = []" "ys = []" by simp_all
  then show "quiet s t" "quiet t u"
    using x assms(3) history_grows_steps [OF assms(1)] history_grows [OF assms(2)] by (simp_all add: quiet_def)
qed

lemma blocked_steps:
  "pool_steps n s t \<Longrightarrow> worker s w = WBlocked \<Longrightarrow> notifying s = 0 \<Longrightarrow> quiet s t \<Longrightarrow>
     worker t w = WBlocked \<and> notifying t = 0"
proof (induction rule: pool_steps.induct)
  case (pool_more s t u)
  note q = quiet_steps [OF pool_more(1,2) pool_more.prems(3)]
  have IH: "worker t w = WBlocked" "notifying t = 0" using pool_more.IH pool_more.prems q(1) by auto
  show ?case by (rule blocked_step [OF pool_more(2) IH q(2)])
qed simp

lemma single_blocked_steps:
  "pool_steps 1 s t \<Longrightarrow> worker s 0 = WBlocked \<Longrightarrow> notifying s = 0 \<Longrightarrow> quiet s t \<Longrightarrow> popped t = popped s"
proof (induction rule: pool_steps.induct)
  case (pool_more s t u)
  note q = quiet_steps [OF pool_more(1,2) pool_more.prems(3)]
  have "worker t 0 = WBlocked" using blocked_steps [OF pool_more(1) pool_more.prems(1,2) q(1)] ..
  then have "popped u = popped t" by (rule blocked_popped [OF pool_more(2)])
  with pool_more.IH pool_more.prems q(1) show ?case by simp
qed simp

text \<open>A wait that ends for no reason finds the task.\<close>

lemma spurious_finds:
  assumes "worker s 0 = WBlocked" and "headOwner s = None" and "holds (x # xs) (taskQueue s)"
  shows "\<exists>t. pool_steps 1 s t \<and> pushed t = pushed s \<and> spuriousWakes t = spuriousWakes s + 1 \<and> popped t = popped s @ [x]"
proof -
  define s1 where "s1 = move_to 0 WLock (s\<lparr>spuriousWakes := spuriousWakes s + 1\<rparr>)"
  define s2 where "s2 = move_to 0 WCheck (s1\<lparr>headOwner := Some 0\<rparr>)"
  define s3 where "s3 = move_to 0 WPop s2"
  obtain q where q: "take_head (taskQueue s) = Inr (x, q)" using take_holds [OF assms(3)] by blast
  define s4 where "s4 = move_to 0 (WRun x) (s3\<lparr>taskQueue := q, headOwner := None, popped := popped s3 @ [x]\<rparr>)"
  have "pool_step 1 s s1" unfolding s1_def by (rule spurious_wakeup) (simp_all add: assms(1))
  moreover have "pool_step 1 s1 s2"
    unfolding s2_def by (rule lock_head) (simp_all add: s1_def move_to_def assms(2))
  moreover have "pool_step 1 s2 s3"
    using check [of 0 1 s2] has_data_holds [OF assms(3)] by (simp add: s3_def s2_def s1_def move_to_def)
  moreover have "pool_step 1 s3 s4"
    unfolding s4_def by (rule pop) (simp_all add: s3_def s2_def s1_def move_to_def q)
  ultimately have "pool_steps 1 s s4" by (meson pool_refl pool_more)
  then show ?thesis by (intro exI [of _ s4]) (simp add: s4_def s3_def s2_def s1_def move_to_def)
qed

section \<open>Properties\<close>

text \<open>
  Any sequence of pushes and pops on a new queue runs without following a null or dangling
  pointer, answers what the same operations on a list answer, and leaves the list that they
  leave.
\<close>

theorem task_queue_fifo:
  "\<exists>q'. queue_run tsq_push tryPop ops new_tsq = Inr (fst (list_run ops []), q') \<and> holds (snd (list_run ops [])) q'"
  by (rule tsq.run_refines) (rule new_tsq_holds)

text \<open>
  C15: in every reachable state of the pool, however its workers and the pushing threads
  interleave, the tasks handed out followed by those in the queue are the tasks ever added,
  in order, and a worker that has seen a task finds one when it pops.
\<close>

theorem tasks_once_in_order:
  assumes "pool_steps n (new_pool cb) s"
  shows "\<exists>xs. holds xs (taskQueue s) \<and> popped s @ xs = pushed s
     \<and> (\<forall>w < n. worker s w = WPop \<longrightarrow> (\<exists>x q. take_head (taskQueue s) = Inr (x, q) \<and> xs = x # tl xs))"
proof -
  obtain xs where xs: "holds xs (taskQueue s)" "popped s @ xs = pushed s" "\<forall>w. worker s w = WPop \<longrightarrow> xs \<noteq> []"
    using pool_inv_steps [OF assms pool_inv_start] by (auto simp: pool_inv_def)
  moreover have "xs \<noteq> [] \<Longrightarrow> \<exists>x q. take_head (taskQueue s) = Inr (x, q) \<and> xs = x # tl xs"
  proof -
    assume "xs \<noteq> []"
    then obtain y ys where "xs = y # ys" using \<open>xs \<noteq> []\<close> by (cases xs) auto
    with take_holds [of y ys "taskQueue s"] xs(1) show ?thesis by auto
  qed
  ultimately show ?thesis by blast
qed

definition one_pushed :: "nat pool" where
  "one_pushed = (new_pool False)\<lparr>taskQueue := new_tsq\<lparr>heap := [1 \<mapsto> new_node, 0 \<mapsto> \<lparr>nval = Some 7, nnext = Some 1\<rparr>],
     ttail := 1, fresh := 2\<rparr>, pushed := [7]\<rparr>"

lemma push_seven: "tsq_push 7 new_tsq = Inr (taskQueue one_pushed)"
  by (auto simp: tsq_push_def new_tsq_def one_pushed_def new_pool_def new_node_def Let_def)

lemma tasks_once_in_order_witness:
  "pool_steps 1 (new_pool False) (one_pushed\<lparr>notifying := 1\<rparr>) \<and> (\<exists>xs. holds xs (taskQueue one_pushed) \<and> xs = [7])"
proof -
  have "pool_step 1 (new_pool False) (one_pushed\<lparr>notifying := 1\<rparr>)"
    using add_task [of 7 "new_pool False" "taskQueue one_pushed" 1] push_seven
    by (simp add: new_pool_def one_pushed_def)
  then have r: "pool_steps 1 (new_pool False) (one_pushed\<lparr>notifying := 1\<rparr>)" by (rule pool_more [OF pool_refl])
  with tasks_once_in_order [OF r] show ?thesis by (simp add: one_pushed_def new_pool_def)
qed

text \<open>A pool of one worker, about to test \<open>running_\<close> for the first time.\<close>

definition one_worker :: "nat pool" where
  "one_worker = move_to 0 WTop ((new_pool False)\<lparr>prunning := True, phase := PhStarting 1\<rparr>)"

lemma one_worker_reached: "pool_steps 1 (new_pool False) one_worker"
proof -
  let ?s = "(new_pool False)\<lparr>prunning := True, phase := PhStarting 0\<rparr> :: nat pool"
  let ?t = "move_to 0 WInit ((new_pool False)\<lparr>prunning := True, phase := PhStarting 1\<rparr>) :: nat pool"
  have "pool_step 1 (new_pool False) ?s" using call_start [of "new_pool False" 1] by (simp add: new_pool_def)
  moreover have "pool_step 1 ?s ?t" using start_thread [of ?s 0 1] by (simp add: new_pool_def)
  moreover have "pool_step 1 ?t one_worker"
    using init_worker [of 0 1 ?t] by (simp add: one_worker_def move_to_def run_init_def new_pool_def)
  ultimately show ?thesis by (meson pool_refl pool_more)
qed

text \<open>
  C25: A wake-up can be lost. With one worker there is a run in which a task is pushed and
  notified between the worker's test and its wait (the push takes only the mutex of the
  tail), so that the worker blocks with the task in the queue. In every continuation in
  which no task is added and no wait ends for no reason, the task stays in the queue and
  the worker blocked; a single spurious wake-up is enough for the task to be taken.
\<close>

theorem wakeup_lost:
  "\<exists>s. pool_steps 1 (new_pool False) s \<and> pushed s = [7 :: nat] \<and> holds [7] (taskQueue s) \<and> notifying s = 0
     \<and> worker s 0 = WBlocked
     \<and> (\<forall>t. pool_steps 1 s t \<and> pushed t = pushed s \<and> spuriousWakes t = spuriousWakes s \<longrightarrow> worker t 0 = WBlocked \<and> popped t = [])
     \<and> (\<exists>t. pool_steps 1 s t \<and> pushed t = pushed s \<and> spuriousWakes t = spuriousWakes s + 1 \<and> popped t = [7])"
proof -
  let ?p = "\<lambda>pc. move_to 0 pc one_worker"
  define s1 where "s1 = (move_to 0 WBlocking one_worker)\<lparr>headOwner := Some 0\<rparr>"
  define s2 where "s2 = s1\<lparr>taskQueue := taskQueue one_pushed, notifying := 1, pushed := [7]\<rparr>"
  define s where "s = move_to 0 WBlocked (s2\<lparr>notifying := 0, headOwner := None\<rparr>)"
  note eqs = one_worker_def move_to_def new_pool_def
  have "pool_step 1 one_worker (?p WLock)" using test_running [of 0 1 one_worker] by (simp add: eqs)
  moreover have "pool_step 1 (?p WLock) (move_to 0 WCheck ((?p WLock)\<lparr>headOwner := Some 0\<rparr>))"
    by (rule lock_head) (simp_all add: eqs)
  moreover have "pool_step 1 (move_to 0 WCheck ((?p WLock)\<lparr>headOwner := Some 0\<rparr>)) s1"
    using check [of 0 1 "move_to 0 WCheck ((?p WLock)\<lparr>headOwner := Some 0\<rparr>)"]
    by (simp add: s1_def eqs tsq_has_data_def new_tsq_def)
  moreover have "pool_step 1 s1 s2"
    using add_task [of 7 s1 "taskQueue one_pushed" 1] push_seven by (simp add: s1_def s2_def eqs)
  moreover have "pool_step 1 s2 (s2\<lparr>notifying := 0\<rparr>)"
    using notify_none [of s2 1] by (simp add: s2_def s1_def move_to_def)
  moreover have "pool_step 1 (s2\<lparr>notifying := 0\<rparr>) s"
    using block [of 0 1 "s2\<lparr>notifying := 0\<rparr>"] by (simp add: s2_def s1_def move_to_def s_def)
  ultimately have r: "pool_steps 1 (new_pool False) s" using one_worker_reached by (meson pool_more)
  have p: "pushed s = [7]" "popped s = []" "worker s 0 = WBlocked" "notifying s = 0" "taskQueue s = taskQueue one_pushed"
    by (simp_all add: s_def s2_def s1_def eqs)
  have h: "holds [7] (taskQueue s)"
    using pool_inv_steps [OF r pool_inv_start] p by (auto simp: pool_inv_def)
  have "headOwner s = None" by (simp add: s_def move_to_def)
  from spurious_finds [OF p(3) this h] p(2)
  have f: "\<exists>t. pool_steps 1 s t \<and> pushed t = pushed s \<and> spuriousWakes t = spuriousWakes s + 1 \<and> popped t = [7]" by simp
  have m: "\<forall>t. pool_steps 1 s t \<and> pushed t = pushed s \<and> spuriousWakes t = spuriousWakes s \<longrightarrow> worker t 0 = WBlocked \<and> popped t = []"
    using blocked_steps [of 1 s _ 0] single_blocked_steps [of s] p by (simp add: quiet_def)
  from r p(1,3,4) h m f show ?thesis by (intro exI [of _ s]) simp
qed

lemma wakeup_lost_witness:
  "\<exists>s. pool_steps 1 (new_pool False) s \<and> holds [7 :: nat] (taskQueue s) \<and> worker s 0 = WBlocked \<and> popped s = []"
proof -
  obtain s where s: "pool_steps 1 (new_pool False) s" "holds [7 :: nat] (taskQueue s)"
      "\<forall>t. pool_steps 1 s t \<and> pushed t = pushed s \<and> spuriousWakes t = spuriousWakes s \<longrightarrow> worker t 0 = WBlocked \<and> popped t = []"
    using wakeup_lost by blast
  with pool_refl [of 1 s] show ?thesis by blast
qed

text \<open>
  \<open>stop\<close> does not end a worker that is blocked on an empty queue: it stays blocked in
  every run after it in which no task is added and no wait ends for no reason.
\<close>

theorem stop_leaves_blocked:
  assumes "pool_steps n (pool_stop s) t" and "worker s w = WBlocked" and "notifying s = 0" and "pushed t = pushed s"
    and "spuriousWakes t = spuriousWakes s"
  shows "worker t w = WBlocked"
  using blocked_steps [OF assms(1), of w] assms by (simp add: pool_stop_def quiet_def)

lemma stop_leaves_blocked_witness:
  "worker (pool_stop (move_to 0 WBlocked (new_pool False)) :: nat pool) 0 = WBlocked"
  using stop_leaves_blocked [OF pool_refl, where s = "move_to 0 WBlocked (new_pool False)" and w = 0] by (simp add: move_to_def new_pool_def pool_stop_def)

end
