(* ===== verification/Sockets.thy ===== *)
theory Sockets
  imports Prelude
begin

text \<open>
  \<open>net/SocketOps.cpp\<close>: the system calls on sockets. The calls made so far with their answers
  are the state, and the kernel is a function from this history and the next call to its
  answer. \<open>accept\<close> stands in \<open>Acceptor\<close>, \<open>read\<close>, \<open>write\<close> and \<open>sendfile\<close> in \<open>TcpConnection\<close>.
\<close>

section \<open>The kernel\<close>

datatype sock_kind = Stream | Dgram

datatype sock_option = SO_KEEPALIVE | TCP_NODELAY | SO_REUSEADDR | SO_REUSEPORT

text \<open>\<open>sockaddr_in\<close>: the address and the port.\<close>

type_synonym address = "32 word \<times> 16 word"

definition no_address :: address where
  "no_address = (0, 0)"

datatype sock_call = SysSocket sock_kind | SysBind int address | SysListen int | SysConnect int address
  | SysSetsockopt int sock_option int | SysGetError int | SysGetpeername int | SysGetsockname int
  | SysShutdownWrite int | SysClose int | SysOpenNull | SysSendto int bytes address

text \<open>A number, an address, or an error with its \<open>errno\<close>.\<close>

datatype sock_answer = Answer int | Address address | Errno nat

type_synonym sock_history = "(sock_call \<times> sock_answer) list"

type_synonym sock_kernel = "sock_history \<Rightarrow> sock_call \<Rightarrow> sock_answer"

definition sys_call :: "sock_kernel \<Rightarrow> sock_call \<Rightarrow> sock_history \<Rightarrow> sock_answer \<times> sock_history" where
  "sys_call k c t = (k t c, t @ [(c, k t c)])"

text \<open>What the C function returns.\<close>

fun returned :: "sock_answer \<Rightarrow> int" where
  "returned (Answer n) = n"
| "returned (Address a) = 0"
| "returned (Errno e) = - 1"

text \<open>A call whose failure is logged as fatal, and one whose failure is at most logged.\<close>

definition or_die :: "sock_kernel \<Rightarrow> sock_call \<Rightarrow> sock_history \<Rightarrow> fault + (int \<times> sock_history)" where
  "or_die k c t = (let (a, t1) = sys_call k c t in if returned a < 0 then Inl Fatal else Inr (returned a, t1))"

definition try_sys :: "sock_kernel \<Rightarrow> sock_call \<Rightarrow> sock_history \<Rightarrow> sock_history" where
  "try_sys k c t = snd (sys_call k c t)"

section \<open>Operations\<close>

definition bindOrDie :: "sock_kernel \<Rightarrow> int \<Rightarrow> address \<Rightarrow> sock_history \<Rightarrow> fault + (int \<times> sock_history)" where
  "bindOrDie k sockfd addr = or_die k (SysBind sockfd addr)"

definition listenOrDie :: "sock_kernel \<Rightarrow> int \<Rightarrow> sock_history \<Rightarrow> fault + (int \<times> sock_history)" where
  "listenOrDie k sockfd = or_die k (SysListen sockfd)"

definition createStreamNonblockingOrDie :: "sock_kernel \<Rightarrow> sock_history \<Rightarrow> fault + (int \<times> sock_history)" where
  "createStreamNonblockingOrDie k = or_die k (SysSocket Stream)"

definition createDgramNonblockingOrDie :: "sock_kernel \<Rightarrow> sock_history \<Rightarrow> fault + (int \<times> sock_history)" where
  "createDgramNonblockingOrDie k = or_die k (SysSocket Dgram)"

definition sock_connect :: "sock_kernel \<Rightarrow> int \<Rightarrow> address \<Rightarrow> sock_history \<Rightarrow> int \<times> sock_history" where
  "sock_connect k sockfd addr t = map_prod returned id (sys_call k (SysConnect sockfd addr) t)"

definition sock_sendto :: "sock_kernel \<Rightarrow> int \<Rightarrow> bytes \<Rightarrow> address \<Rightarrow> sock_history \<Rightarrow> int \<times> sock_history" where
  "sock_sendto k sockfd data addr t = map_prod returned id (sys_call k (SysSendto sockfd data addr) t)"

definition sock_close :: "sock_kernel \<Rightarrow> int \<Rightarrow> sock_history \<Rightarrow> sock_history" where
  "sock_close k sockfd = try_sys k (SysClose sockfd)"

definition shutdownWrite :: "sock_kernel \<Rightarrow> int \<Rightarrow> sock_history \<Rightarrow> sock_history" where
  "shutdownWrite k sockfd = try_sys k (SysShutdownWrite sockfd)"

text \<open>The pending error of the socket, or the error of asking for it.\<close>

definition getSocketError :: "sock_kernel \<Rightarrow> int \<Rightarrow> sock_history \<Rightarrow> int \<times> sock_history" where
  "getSocketError k sockfd t =
     map_prod (\<lambda>a. case a of Errno e \<Rightarrow> int e | Answer optval \<Rightarrow> optval | Address x \<Rightarrow> 0) id (sys_call k (SysGetError sockfd) t)"

text \<open>An address that cannot be had is all zero.\<close>

definition answered :: "sock_answer \<Rightarrow> address" where
  "answered a = (case a of Address x \<Rightarrow> x | _ \<Rightarrow> no_address)"

definition getPeerAddr :: "sock_kernel \<Rightarrow> int \<Rightarrow> sock_history \<Rightarrow> address \<times> sock_history" where
  "getPeerAddr k sockFd t = map_prod answered id (sys_call k (SysGetpeername sockFd) t)"

definition getLocalAddr :: "sock_kernel \<Rightarrow> int \<Rightarrow> sock_history \<Rightarrow> address \<times> sock_history" where
  "getLocalAddr k sockFd t = map_prod answered id (sys_call k (SysGetsockname sockFd) t)"

definition setKeepAlive :: "sock_kernel \<Rightarrow> int \<Rightarrow> bool \<Rightarrow> sock_history \<Rightarrow> sock_history" where
  "setKeepAlive k sockFd on = try_sys k (SysSetsockopt sockFd SO_KEEPALIVE (if on then 1 else 0))"

definition setTcpNoDelay :: "sock_kernel \<Rightarrow> int \<Rightarrow> bool \<Rightarrow> sock_history \<Rightarrow> sock_history" where
  "setTcpNoDelay k sockFd on = try_sys k (SysSetsockopt sockFd TCP_NODELAY (if on then 1 else 0))"

definition setReuseAddr :: "sock_kernel \<Rightarrow> int \<Rightarrow> bool \<Rightarrow> sock_history \<Rightarrow> sock_history" where
  "setReuseAddr k sockFd on = try_sys k (SysSetsockopt sockFd SO_REUSEADDR (if on then 1 else 0))"

definition setReusePort :: "sock_kernel \<Rightarrow> int \<Rightarrow> bool \<Rightarrow> sock_history \<Rightarrow> sock_history" where
  "setReusePort k sockFd on = try_sys k (SysSetsockopt sockFd SO_REUSEPORT (if on then 1 else 0))"

section \<open>What holds of every kernel\<close>

text \<open>The calls of a history, without the answers.\<close>

definition calls_of :: "sock_history \<Rightarrow> sock_call list" where
  "calls_of t = map fst t"

lemma calls_append [simp]: "calls_of (t @ u) = calls_of t @ calls_of u" "calls_of [] = []" "calls_of ((c, a) # t) = c # calls_of t"
  by (simp_all add: calls_of_def)

lemma try_syss [simp]: "calls_of (try_sys k c t) = calls_of t @ [c]"
  by (simp add: try_sys_def sys_call_def)

lemmas sock_options = setKeepAlive_def setTcpNoDelay_def setReuseAddr_def setReusePort_def

lemma or_dieE:
  assumes "or_die k c t = Inr (r, t')"
  obtains "r = returned (k t c)" "0 \<le> r" "t' = t @ [(c, k t c)]"
  using assms by (auto simp: or_die_def sys_call_def split: if_split_asm)

lemma or_die_cases: "(\<exists>t'. or_die k c t = Inr (returned (k t c), t') \<and> 0 \<le> returned (k t c) \<and> calls_of t' = calls_of t @ [c])
    \<or> or_die k c t = Inl Fatal"
  by (auto simp: or_die_def sys_call_def)

end
