(* ===== verification/Acceptor.thy ===== *)
theory Acceptor
  imports Poller EventLoop Sockets
begin

text \<open>
  \<open>net/EventLoopThreadPool.cpp\<close>, \<open>net/EventLoopThread.cpp\<close> and \<open>net/TcpServer.cpp\<close>: starting
  the loop threads, accepting connections and handing them to the loops in turn. Loops are
  numbered and have the state of \<open>EventLoop\<close>; a functor queued here is the descriptor it
  creates a connection for. The list of what the system calls answer is an argument.
\<close>

section \<open>The pool of loops\<close>

record loop_pool =
  baseLoop :: nat
  pstarted :: bool
  numThreads :: nat
  next_loop :: nat \<comment> \<open>\<open>next_\<close>\<close>
  loops :: "nat list"

definition new_loop_pool :: "nat \<Rightarrow> loop_pool" where
  "new_loop_pool base = \<lparr>baseLoop = base, pstarted = False, numThreads = 0, next_loop = 0, loops = []\<rparr>"

definition setThreadNum :: "nat \<Rightarrow> loop_pool \<Rightarrow> loop_pool" where
  "setThreadNum n p = p\<lparr>numThreads := n\<rparr>"

text \<open>\<open>startLoop i\<close> is the loop that the i-th new thread reports.\<close>

definition loop_pool_start :: "(nat \<Rightarrow> nat) \<Rightarrow> loop_pool \<Rightarrow> fault + loop_pool" where
  "loop_pool_start startLoop p =
     (if pstarted p then Inl Assert_failed
      else Inr (p\<lparr>pstarted := True, loops := loops p @ map startLoop [0..<numThreads p]\<rparr>))"

definition getNextLoop :: "loop_pool \<Rightarrow> fault + (nat \<times> loop_pool)" where
  "getNextLoop p =
     (if \<not> pstarted p then Inl Assert_failed
      else if loops p \<noteq> [] then
        (if \<not> next_loop p < length (loops p) then Inl Out_of_range
         else Inr (loops p ! next_loop p, p\<lparr>next_loop := (next_loop p + 1) mod numThreads p\<rparr>))
      else Inr (baseLoop p, p))"

section \<open>Starting a loop thread\<close>

text \<open>
  \<open>startLoop\<close> waits on the condition variable until the new thread has published its loop, and
  reads the pointer once more behind the lock. A locked section is one step: the test of the
  predicate with the decision to block, the publication with its notification, and the reset
  of the pointer after the loop has returned. A blocked caller goes back to the test when it
  is notified, or for no reason (\<open>Spurious\<close>). That the loop returns is a move of its own: a
  functor has called \<open>quit\<close>, one that the init callback has queued at the earliest.
\<close>

datatype starter = Starting | Testing | Waiting | Passed | Got "nat option"
datatype loop_thread = Unborn | Preparing | Looping | Ended | Cleared

record start_state =
  starter :: starter
  loop_thread :: loop_thread
  loop_ptr :: "nat option"

datatype start_move = Regular | Spurious | LoopReturns

inductive start_step :: "nat \<Rightarrow> start_move \<Rightarrow> start_state \<Rightarrow> start_state \<Rightarrow> bool" for me :: nat where
  spawn: "starter s = Starting \<Longrightarrow> start_step me Regular s (s\<lparr>starter := Testing, loop_thread := Preparing\<rparr>)"
| test_null: "starter s = Testing \<Longrightarrow> loop_ptr s = None \<Longrightarrow> start_step me Regular s (s\<lparr>starter := Waiting\<rparr>)"
| test_set: "starter s = Testing \<Longrightarrow> loop_ptr s \<noteq> None \<Longrightarrow> start_step me Regular s (s\<lparr>starter := Passed\<rparr>)"
| wake_up: "starter s = Waiting \<Longrightarrow> start_step me Spurious s (s\<lparr>starter := Testing\<rparr>)"
| read_loop: "starter s = Passed \<Longrightarrow> start_step me Regular s (s\<lparr>starter := Got (loop_ptr s)\<rparr>)"
| publish: "loop_thread s = Preparing \<Longrightarrow>
     start_step me Regular s (s\<lparr>loop_thread := Looping, loop_ptr := Some me,
        starter := (if starter s = Waiting then Testing else starter s)\<rparr>)"
| loop_ends: "loop_thread s = Looping \<Longrightarrow> start_step me LoopReturns s (s\<lparr>loop_thread := Ended\<rparr>)"
| clear_loop: "loop_thread s = Ended \<Longrightarrow> start_step me Regular s (s\<lparr>loop_thread := Cleared, loop_ptr := None\<rparr>)"

inductive_simps start_step_Regular: "start_step me Regular s t"

inductive start_run :: "nat \<Rightarrow> start_move list \<Rightarrow> start_state \<Rightarrow> start_state \<Rightarrow> bool" for me :: nat where
  start_refl: "start_run me [] s s"
| start_more: "start_run me ls s t \<Longrightarrow> start_step me x t u \<Longrightarrow> start_run me (ls @ [x]) s u"

definition start_init :: start_state where
  "start_init = \<lparr>starter = Starting, loop_thread = Unborn, loop_ptr = None\<rparr>"

section \<open>Accepting\<close>

text \<open>
  What \<open>accept4\<close> answers: a descriptor and the peer's address as text, or an error. With
  \<open>EMFILE\<close> come the answers to the two calls that follow, the \<open>accept\<close> into the free slot and
  the \<open>open\<close> of \<open>/dev/null\<close>.
\<close>

datatype errno = EAGAIN | ECONNABORTED | EINTR | EPERM | EMFILE int int | EOther nat

datatype accepted = Connection nat bytes | Failed errno

definition socket_accept :: "errno \<Rightarrow> fault + errno" where
  "socket_accept e = (case e of EOther n \<Rightarrow> Inl Fatal | _ \<Rightarrow> Inr e)"

record tcp_server =
  srv_pool :: loop_pool
  srv_started :: bool
  evloops :: "nat \<Rightarrow> nat loop"
  idleFd :: int
  acceptChannel :: channel
  closed_fds :: "int list" \<comment> \<open>history\<close>
  handed :: "(nat \<times> nat) list" \<comment> \<open>history: loop and descriptor\<close>

definition newConnection :: "nat \<Rightarrow> tcp_server \<Rightarrow> fault + tcp_server" where
  "newConnection sockFd s =
     ebind (getNextLoop (srv_pool s)) (\<lambda>(l, p).
       Inr (s\<lparr>srv_pool := p,
              evloops := (evloops s)(l := el_queueInLoop (l = baseLoop (srv_pool s)) sockFd (evloops s l)),
              handed := handed s @ [(l, sockFd)]\<rparr>))"

definition admitted :: "bytes set \<Rightarrow> int \<Rightarrow> nat \<Rightarrow> bytes \<Rightarrow> bool" where
  "admitted blocksIp workerConnections connFd ip \<longleftrightarrow>
     ip \<notin> blocksIp \<and> (workerConnections = - 1 \<or> int connFd \<le> workerConnections)"

text \<open>
  The loop. The boolean says whether it was left; with the answers exhausted the thread is
  still in it.
\<close>

fun acceptHandRead :: "bytes set \<Rightarrow> int \<Rightarrow> accepted list \<Rightarrow> tcp_server \<Rightarrow> fault + (bool \<times> tcp_server)" where
  "acceptHandRead bl wc [] s = Inr (False, s)"
| "acceptHandRead bl wc (Connection f ip # xs) s =
     (if admitted bl wc f ip then ebind (newConnection f s) (acceptHandRead bl wc xs)
      else acceptHandRead bl wc xs (s\<lparr>closed_fds := closed_fds s @ [int f]\<rparr>))"
| "acceptHandRead bl wc (Failed e # xs) s =
     ebind (socket_accept e) (\<lambda>err.
       case err of
         EAGAIN \<Rightarrow> Inr (True, s)
       | EMFILE raw opened \<Rightarrow>
           acceptHandRead bl wc xs (s\<lparr>closed_fds := closed_fds s @ [idleFd s, raw], idleFd := opened\<rparr>)
       | _ \<Rightarrow> acceptHandRead bl wc xs s)"

text \<open>The members of the constructor in their order, and its body.\<close>

definition new_tcp_server :: "sock_kernel \<Rightarrow> nat \<Rightarrow> (nat \<Rightarrow> nat loop) \<Rightarrow> address \<Rightarrow> sock_history \<Rightarrow> fault + (tcp_server \<times> sock_history)" where
  "new_tcp_server sk base ls listenAddr t =
     ebind (createStreamNonblockingOrDie sk t) (\<lambda>(acceptFd, t1).
     let (opened, t2) = sys_call sk SysOpenNull t1;
         t3 = setReusePort sk acceptFd True (setReuseAddr sk acceptFd True t2)
     in ebind (bindOrDie sk acceptFd listenAddr t3) (\<lambda>(r, t4).
        Inr (\<lparr>srv_pool = new_loop_pool base, srv_started = False, evloops = ls, idleFd = returned opened,
               acceptChannel = setCallback ReadCb (new_channel (nat acceptFd)), closed_fds = [], handed = []\<rparr>, t4)))"

text \<open>The destructor, with the one of its channel, which also closes the listening socket.\<close>

definition srv_destructor :: "sock_kernel \<Rightarrow> kernel \<Rightarrow> tcp_server \<times> poller \<times> sock_history \<Rightarrow> fault + (poller \<times> sock_history)" where
  "srv_destructor sk k = (\<lambda>(s, p, t).
     let t1 = sock_close sk (idleFd s) t in ebind (ch_destroy k (acceptChannel s) p) (\<lambda>p'. Inr (p', t1)))"

definition acceptSocketListen :: "sock_kernel \<Rightarrow> kernel \<Rightarrow> tcp_server \<times> poller \<times> sock_history
    \<Rightarrow> fault + (tcp_server \<times> poller \<times> sock_history)" where
  "acceptSocketListen sk k = (\<lambda>(s, p, t).
     ebind (listenOrDie sk (int (fd (acceptChannel s))) t) (\<lambda>(r, t').
     ebind (enableEvents k kReadEventET (acceptChannel s) p) (\<lambda>(ch, p').
       Inr (s\<lparr>acceptChannel := ch\<rparr>, p', t'))))"

text \<open>\<open>start\<close>, from the thread of the base loop, where \<open>runInLoop\<close> calls at once.\<close>

definition srv_start :: "sock_kernel \<Rightarrow> kernel \<Rightarrow> (nat \<Rightarrow> nat) \<Rightarrow> tcp_server \<times> poller \<times> sock_history
    \<Rightarrow> fault + (tcp_server \<times> poller \<times> sock_history)" where
  "srv_start sk k startLoop = (\<lambda>(s, p, t).
     if \<not> srv_started s then
       ebind (loop_pool_start startLoop (srv_pool s)) (\<lambda>lp.
         acceptSocketListen sk k (s\<lparr>srv_started := True, srv_pool := lp\<rparr>, p, t))
     else Inr (s, p, t))"

section \<open>Turns\<close>

definition pool_ok :: "loop_pool \<Rightarrow> bool" where
  "pool_ok p \<longleftrightarrow> pstarted p \<and> length (loops p) = numThreads p \<and> (loops p \<noteq> [] \<longrightarrow> next_loop p < length (loops p))"

text \<open>The loop whose turn it is after \<open>i\<close> more connections.\<close>

definition turn :: "loop_pool \<Rightarrow> nat \<Rightarrow> nat" where
  "turn p i = (if loops p = [] then baseLoop p else loops p ! ((next_loop p + i) mod length (loops p)))"

lemma getNextLoop_turn:
  assumes "pool_ok p"
  shows "\<exists>p'. getNextLoop p = Inr (turn p 0, p') \<and> pool_ok p' \<and> baseLoop p' = baseLoop p \<and> loops p' = loops p
     \<and> (\<forall>i. turn p' i = turn p (i + 1))"
proof (cases "loops p = []")
  case True
  with assms show ?thesis by (simp add: getNextLoop_def turn_def pool_ok_def)
next
  case False
  define p' where "p' = p\<lparr>next_loop := (next_loop p + 1) mod numThreads p\<rparr>"
  have "getNextLoop p = Inr (turn p 0, p')"
    using False assms by (simp add: getNextLoop_def turn_def pool_ok_def p'_def)
  moreover have "turn p' i = turn p (i + 1)" for i
    using False assms by (simp add: turn_def pool_ok_def p'_def mod_add_left_eq add.assoc)
  ultimately show ?thesis using False assms by (auto simp: pool_ok_def p'_def)
qed

text \<open>Every loop gets its share.\<close>

lemma one_per_round: "0 < N \<Longrightarrow> j < N \<Longrightarrow> length (filter (\<lambda>i. (a + i) mod N = j) [b..<b + N]) = (1::nat)"
proof (induction b)
  case 0
  have "{i. i < N \<and> (a + i) mod N = j} = {(j + (N - a mod N)) mod N}"
  proof (intro equalityI subsetI)
    fix i assume "i \<in> {i. i < N \<and> (a + i) mod N = j}"
    then have i: "i < N" "j = (a mod N + i) mod N" by (auto simp: mod_add_left_eq)
    have "a mod N < N" using 0 by simp
    then have "(a mod N + i + (N - a mod N)) mod N = i" using i(1) by simp
    moreover have "((a mod N + i) mod N + (N - a mod N)) mod N = (a mod N + i + (N - a mod N)) mod N"
      by (rule mod_add_left_eq)
    ultimately have "(j + (N - a mod N)) mod N = i" using i(2) by simp
    then show "i \<in> {(j + (N - a mod N)) mod N}" by simp
  next
    fix i assume "i \<in> {(j + (N - a mod N)) mod N}"
    then have i: "i = (j + (N - a mod N)) mod N" by simp
    have am: "a mod N < N" using 0 by simp
    have "(a + i) mod N = (a mod N + (j + (N - a mod N))) mod N"
      by (simp add: i mod_add_eq) (metis mod_add_left_eq mod_add_right_eq)
    also have "a mod N + (j + (N - a mod N)) = j + N" using am by simp
    also have "(j + N) mod N = j" using 0(2) by simp
    finally show "i \<in> {i. i < N \<and> (a + i) mod N = j}" using 0 by (simp add: i)
  qed
  then have "card {i. i < N \<and> (a + i) mod N = j} = 1" by simp
  moreover have "{i. i < N \<and> (a + i) mod N = j} = set (filter (\<lambda>i. (a + i) mod N = j) [0..<N])" by auto
  ultimately show ?case by (metis add_0 distinct_card distinct_filter distinct_upt)
next
  case (Suc b)
  have "[b..<b + N] = b # [Suc b..<b + N]" using Suc.prems(1) by (simp add: upt_conv_Cons)
  moreover have "[Suc b..<Suc b + N] = [Suc b..<b + N] @ [b + N]" using Suc.prems(1) by simp
  moreover have "(a + (b + N)) mod N = (a + b) mod N" by (simp add: add.assoc [symmetric])
  ultimately show ?case using Suc.IH [OF Suc.prems] by (simp split: if_splits)
qed

lemma share_of_loop: "0 < N \<Longrightarrow> j < N \<Longrightarrow> length (filter (\<lambda>i. (a + i) mod N = j) [0..<k * N]) = k"
proof (induction k)
  case (Suc k)
  have "[0..<Suc k * N] = [0..<k * N] @ [k * N..<k * N + N]"
    by (metis add.commute le_add1 mult_Suc upt_add_eq_append zero_le)
  with Suc one_per_round [OF Suc.prems, of a "k * N"] show ?case by simp
qed simp

section \<open>Handing out\<close>

fun admitted_fds :: "bytes set \<Rightarrow> int \<Rightarrow> accepted list \<Rightarrow> nat list" where
  "admitted_fds bl wc [] = []"
| "admitted_fds bl wc (Connection f ip # xs) = (if admitted bl wc f ip then f # admitted_fds bl wc xs else admitted_fds bl wc xs)"
| "admitted_fds bl wc (_ # xs) = admitted_fds bl wc xs"

definition in_turn :: "loop_pool \<Rightarrow> nat list \<Rightarrow> (nat \<times> nat) list" where
  "in_turn p fs = zip (map (turn p) [0..<length fs]) fs"

lemma in_turn_Cons:
  assumes "\<forall>i. turn p' i = turn p (i + 1)"
  shows "in_turn p (f # fs) = (turn p 0, f) # in_turn p' fs"
proof -
  have "[0..<length (f # fs)] = 0 # map Suc [0..<length fs]" by (simp add: map_Suc_upt upt_conv_Cons del: upt_Suc)
  then have "map (turn p) [0..<length (f # fs)] = turn p 0 # map (turn p') [0..<length fs]" using assms by simp
  then show ?thesis unfolding in_turn_def by simp
qed

definition for_loop :: "nat \<Rightarrow> (nat \<times> nat) list \<Rightarrow> nat list" where
  "for_loop l hs = map snd (filter (\<lambda>h. fst h = l) hs)"

definition benign :: "accepted list \<Rightarrow> bool" where
  "benign xs \<longleftrightarrow> (\<forall>n. Failed (EOther n) \<notin> set xs)"

lemma newConnection_turn:
  assumes "pool_ok (srv_pool s)"
  shows "\<exists>s'. newConnection f s = Inr s' \<and> pool_ok (srv_pool s') \<and> handed s' = handed s @ [(turn (srv_pool s) 0, f)]
     \<and> (\<forall>i. turn (srv_pool s') i = turn (srv_pool s) (i + 1)) \<and> loops (srv_pool s') = loops (srv_pool s)
     \<and> (\<forall>l. functors (evloops s' l) = functors (evloops s l) @ for_loop l [(turn (srv_pool s) 0, f)])
     \<and> closed_fds s' = closed_fds s"
  using getNextLoop_turn [OF assms]
  by (auto simp: newConnection_def el_queueInLoop_def el_push_def el_wakeup_def Let_def for_loop_def)

lemma accept_spec:
  "pool_ok (srv_pool s) \<Longrightarrow> benign xs \<Longrightarrow> Failed EAGAIN \<notin> set xs \<Longrightarrow>
     \<exists>s'. acceptHandRead bl wc (xs @ ys) s = acceptHandRead bl wc ys s' \<and> pool_ok (srv_pool s')
       \<and> handed s' = handed s @ in_turn (srv_pool s) (admitted_fds bl wc xs)
       \<and> (\<forall>l. functors (evloops s' l) = functors (evloops s l) @ for_loop l (in_turn (srv_pool s) (admitted_fds bl wc xs)))"
proof (induction bl wc xs arbitrary: s rule: admitted_fds.induct)
  case (1 bl wc)
  then show ?case by (auto simp: in_turn_def for_loop_def)
next
  case (2 bl wc f ip xs)
  show ?case
  proof (cases "admitted bl wc f ip")
    case True
    obtain s1 where s1: "newConnection f s = Inr s1" "pool_ok (srv_pool s1)"
        "handed s1 = handed s @ [(turn (srv_pool s) 0, f)]" "\<forall>i. turn (srv_pool s1) i = turn (srv_pool s) (i + 1)"
        "\<forall>l. functors (evloops s1 l) = functors (evloops s l) @ for_loop l [(turn (srv_pool s) 0, f)]"
      using newConnection_turn [OF 2(3), of f] by blast
    from 2(1) [OF True s1(2)] 2(4,5) obtain s' where "acceptHandRead bl wc (xs @ ys) s1 = acceptHandRead bl wc ys s'"
        "pool_ok (srv_pool s')" "handed s' = handed s1 @ in_turn (srv_pool s1) (admitted_fds bl wc xs)"
        "\<forall>l. functors (evloops s' l) = functors (evloops s1 l) @ for_loop l (in_turn (srv_pool s1) (admitted_fds bl wc xs))"
      by (auto simp: benign_def)
    with True s1(1,3,5) in_turn_Cons [OF s1(4)] show ?thesis by (auto simp: for_loop_def)
  next
    case False
    with 2(2) [OF False, of "s\<lparr>closed_fds := closed_fds s @ [int f]\<rparr>"] 2(3-5) show ?thesis by (auto simp: benign_def)
  qed
next
  case (3 bl wc e xs)
  then have ok: "benign xs" "Failed EAGAIN \<notin> set xs" by (auto simp: benign_def)
  show ?case
  proof (cases e)
    case (EMFILE raw opened)
    from 3(1) [of "s\<lparr>closed_fds := closed_fds s @ [idleFd s, raw], idleFd := opened\<rparr>"] 3(2) ok EMFILE
    show ?thesis by (auto simp: socket_accept_def)
  qed (use 3 ok in \<open>auto simp: socket_accept_def benign_def\<close>)
qed

lemma share_in_turn:
  assumes "pool_ok p" and "distinct (loops p)" and "l \<in> set (loops p)" and "length fs = k * length (loops p)"
  shows "length (for_loop l (in_turn p fs)) = k"
proof -
  let ?N = "length (loops p)"
  obtain j where j: "j < ?N" "loops p ! j = l" using assms(3) by (metis in_set_conv_nth)
  then have N: "0 < ?N" "loops p \<noteq> []" by auto
  have eq: "turn p i = l \<longleftrightarrow> (next_loop p + i) mod ?N = j" for i
    using assms(2) j N nth_eq_iff_index_eq [OF assms(2), of "(next_loop p + i) mod ?N" j]
    by (auto simp: turn_def)
  have "length (for_loop l (in_turn p fs)) = length (filter (\<lambda>h. h = l) (map fst (in_turn p fs)))"
    by (simp add: for_loop_def filter_map comp_def)
  also have "map fst (in_turn p fs) = map (turn p) [0..<k * ?N]" by (simp add: in_turn_def assms(4))
  also have "length (filter (\<lambda>h. h = l) \<dots>) = k"
    using share_of_loop [OF N(1) j(1), of "next_loop p" k] by (simp add: filter_map comp_def eq)
  finally show ?thesis .
qed

section \<open>The handshake\<close>

definition start_inv :: "nat \<Rightarrow> start_move list \<Rightarrow> start_state \<Rightarrow> bool" where
  "start_inv me ls s \<longleftrightarrow> loop_ptr s = (if loop_thread s = Looping \<or> loop_thread s = Ended then Some me else None)
     \<and> (starter s = Starting \<longleftrightarrow> loop_thread s = Unborn)
     \<and> (starter s = Waiting \<longrightarrow> loop_thread s = Preparing \<or> loop_thread s = Cleared)
     \<and> (starter s = Passed \<longrightarrow> loop_thread s \<noteq> Preparing)
     \<and> (\<forall>v. starter s = Got v \<longrightarrow> v = Some me \<or> v = None \<and> LoopReturns \<in> set ls)
     \<and> (LoopReturns \<in> set ls \<or> loop_thread s \<noteq> Ended \<and> loop_thread s \<noteq> Cleared)"

text \<open>How many steps are left when nothing wakes the caller for no reason.\<close>

definition start_left :: "start_state \<Rightarrow> nat" where
  "start_left s =
     (case loop_thread s of Unborn \<Rightarrow> 5 | Preparing \<Rightarrow> 4 | Looping \<Rightarrow> 2 | Ended \<Rightarrow> 1 | Cleared \<Rightarrow> 0)
     + (case starter s of Starting \<Rightarrow> 3 | Testing \<Rightarrow> 3 | Waiting \<Rightarrow> 2 | Passed \<Rightarrow> 1 | Got v \<Rightarrow> 0)"

lemma start_inv_init: "start_inv me [] start_init"
  by (simp add: start_inv_def start_init_def)

lemma start_inv_step: "start_step me x s t \<Longrightarrow> start_inv me ls s \<Longrightarrow> start_inv me (ls @ [x]) t"
proof (induction rule: start_step.induct)
  case (read_loop s)
  then show ?case by (cases "loop_thread s") (auto simp: start_inv_def)
next
  case (test_null s)
  then show ?case by (cases "loop_thread s") (auto simp: start_inv_def)
qed (auto simp: start_inv_def)

lemma start_left_step:
  "start_step me x s t \<Longrightarrow> start_inv me ls s \<Longrightarrow>
     start_left t + (if x = Spurious then 0 else 1) \<le> start_left s + (if x = Spurious then 1 else 0)"
  by (induction rule: start_step.induct)
     (auto simp: start_left_def start_inv_def split: starter.splits loop_thread.splits)

lemma start_run_inv:
  "start_run me ls start_init s \<Longrightarrow> start_inv me ls s
     \<and> start_left s + length (filter (\<lambda>x. x \<noteq> Spurious) ls) \<le> 8 + length (filter (\<lambda>x. x = Spurious) ls)"
proof (induction ls start_init s rule: start_run.induct)
  case start_refl
  show ?case using start_inv_init by (simp add: start_left_def start_init_def)
next
  case (start_more ls t x u)
  then have inv: "start_inv me ls t" by simp
  with start_more start_inv_step [OF start_more.hyps(3) inv] start_left_step [OF start_more.hyps(3) inv]
  show ?case by (cases "x = Spurious") simp_all
qed

text \<open>Until \<open>startLoop\<close> has returned, one of the two threads can go on, unless the loop has ended.\<close>

lemma start_goes_on:
  assumes "start_inv me ls s" and "LoopReturns \<notin> set ls" and "\<nexists>v. starter s = Got v"
  shows "\<exists>t. start_step me Regular s t"
proof (cases "starter s")
  case Starting
  from spawn [OF this] show ?thesis by blast
next
  case Testing
  with test_null [OF Testing] test_set [OF Testing] show ?thesis by blast
next
  case Waiting
  with assms(1,2) have "loop_thread s = Preparing" by (auto simp: start_inv_def)
  from publish [OF this] show ?thesis by blast
next
  case Passed
  from read_loop [OF this] show ?thesis by blast
next
  case (Got v)
  with assms(3) show ?thesis by blast
qed

text \<open>
  When a functor that the init callback has queued quits the loop at once, the caller may
  read the pointer after it was reset, or find it null and wait for a notification that
  nobody sends.
\<close>

lemma start_prefix:
  "start_run me [Regular] start_init \<lparr>starter = Testing, loop_thread = Preparing, loop_ptr = None\<rparr>"
  "start_run me [Regular, Regular] start_init \<lparr>starter = Testing, loop_thread = Looping, loop_ptr = Some me\<rparr>"
proof -
  show 1: "start_run me [Regular] start_init \<lparr>starter = Testing, loop_thread = Preparing, loop_ptr = None\<rparr>"
    using start_more [OF start_refl spawn, of start_init me] by (simp add: start_init_def)
  show "start_run me [Regular, Regular] start_init \<lparr>starter = Testing, loop_thread = Looping, loop_ptr = Some me\<rparr>"
    using start_more [OF 1 publish] by simp
qed

lemma startLoop_null:
  "start_run me [Regular, Regular, Regular, LoopReturns, Regular, Regular] start_init
     \<lparr>starter = Got None, loop_thread = Cleared, loop_ptr = None\<rparr>"
proof -
  have 1: "start_run me [Regular, Regular, Regular] start_init \<lparr>starter = Passed, loop_thread = Looping, loop_ptr = Some me\<rparr>"
    using start_more [OF start_prefix(2) test_set] by simp
  have 2: "start_run me [Regular, Regular, Regular, LoopReturns] start_init
      \<lparr>starter = Passed, loop_thread = Ended, loop_ptr = Some me\<rparr>"
    using start_more [OF 1 loop_ends] by simp
  have 3: "start_run me [Regular, Regular, Regular, LoopReturns, Regular] start_init
      \<lparr>starter = Passed, loop_thread = Cleared, loop_ptr = None\<rparr>"
    using start_more [OF 2 clear_loop] by simp
  show ?thesis using start_more [OF 3 read_loop] by simp
qed

lemma startLoop_hangs:
  defines "s \<equiv> \<lparr>starter = Waiting, loop_thread = Cleared, loop_ptr = None\<rparr>"
  shows "start_run me [Regular, Regular, LoopReturns, Regular, Regular] start_init s \<and> \<not> start_step me Regular s t"
proof -
  have 1: "start_run me [Regular, Regular, LoopReturns] start_init \<lparr>starter = Testing, loop_thread = Ended, loop_ptr = Some me\<rparr>"
    using start_more [OF start_prefix(2) loop_ends] by simp
  have 2: "start_run me [Regular, Regular, LoopReturns, Regular] start_init
      \<lparr>starter = Testing, loop_thread = Cleared, loop_ptr = None\<rparr>"
    using start_more [OF 1 clear_loop] by simp
  have "start_run me [Regular, Regular, LoopReturns, Regular, Regular] start_init s"
    using start_more [OF 2 test_null] by (simp add: s_def)
  then show ?thesis by (simp add: start_step_Regular s_def)
qed

section \<open>Listening\<close>

text \<open>The constructor, where its system calls succeed.\<close>

lemma new_tcp_server_spec:
  assumes "interest (calls p) (nat d) = None" and "sk t (SysSocket Stream) = Answer d" and "0 \<le> d"
    and "\<forall>u. 0 \<le> returned (sk u (SysBind d addr))"
  shows "\<exists>s t'. new_tcp_server sk base ls addr t = Inr (s, t') \<and> fd (acceptChannel s) = nat d
     \<and> calls_of t' = calls_of t @ [SysSocket Stream, SysOpenNull, SysSetsockopt d SO_REUSEADDR 1, SysSetsockopt d SO_REUSEPORT 1, SysBind d addr]
     \<and> \<not> srv_started s \<and> srv_pool s = new_loop_pool base \<and> events (acceptChannel s) = 0 \<and> in_step (acceptChannel s) p"
proof -
  have "in_step (setCallback ReadCb (new_channel (nat d))) p"
    using new_channel_in_step [OF assms(1)] by (simp add: in_step_def setCallback_def)
  moreover have "or_die sk (SysBind d addr) u = Inr (returned (sk u (SysBind d addr)), u @ [(SysBind d addr, sk u (SysBind d addr))])" for u
    using assms(4) by (simp add: or_die_def sys_call_def not_less)
  ultimately show ?thesis
    using assms(2,3)
    by (simp add: new_tcp_server_def createStreamNonblockingOrDie_def or_die_def [of sk "SysSocket Stream"] sys_call_def bindOrDie_def
        setReuseAddr_def setReusePort_def setCallback_def new_channel_def)
qed

text \<open>Starting twice is starting once, and the listening socket is watched edge-triggered.\<close>

lemma srv_start_listens:
  assumes "epoll_contract k" and "\<not> srv_started s" and "\<not> pstarted (srv_pool s)" and "in_step (acceptChannel s) p"
    and "events (acceptChannel s) = 0" and "0 \<le> returned (sk t (SysListen (int (fd (acceptChannel s)))))"
  shows "\<exists>s' p' t'. srv_start sk k startLoop (s, p, t) = Inr (s', p', t') \<and> srv_start sk k startLoop (s', p', t') = Inr (s', p', t')
     \<and> in_step (acceptChannel s') p' \<and> events (acceptChannel s') = kReadEventET \<and> addedToLoop (acceptChannel s')
     \<and> fd (acceptChannel s') = fd (acceptChannel s) \<and> srv_started s' \<and> status (acceptChannel s') = kAdded
     \<and> (\<forall>g. g \<noteq> fd (acceptChannel s) \<longrightarrow> interest (calls p') g = interest (calls p) g)
     \<and> numThreads (srv_pool s') = numThreads (srv_pool s)
     \<and> loops (srv_pool s') = loops (srv_pool s) @ map startLoop [0..<numThreads (srv_pool s)]
     \<and> calls_of t' = calls_of t @ [SysListen (int (fd (acceptChannel s)))]"
proof -
  obtain ch p' where u: "ch_update k ((acceptChannel s)\<lparr>events := kReadEventET\<rparr>) p = Inr (ch, p')" "in_step ch p'"
      "events ch = kReadEventET" "addedToLoop ch" "fd ch = fd (acceptChannel s)" "status ch = kAdded"
      "\<forall>g. g \<noteq> fd (acceptChannel s) \<longrightarrow> interest (calls p') g = interest (calls p) g"
    using ch_update_in_step [OF assms(1,4), of kReadEventET] by (auto simp: event_defs)
  let ?l = "SysListen (int (fd (acceptChannel s)))"
  define s' where "s' = s\<lparr>srv_started := True, acceptChannel := ch, srv_pool := (srv_pool s)\<lparr>pstarted := True,
      loops := loops (srv_pool s) @ map startLoop [0..<numThreads (srv_pool s)]\<rparr>\<rparr>"
  have "srv_start sk k startLoop (s, p, t) = Inr (s', p', t @ [(?l, sk t ?l)])"
    using u(1) assms(2,3,5,6)
    by (simp add: srv_start_def loop_pool_start_def acceptSocketListen_def enableEvents_def listenOrDie_def or_die_def sys_call_def s'_def)
  moreover have "srv_start sk k startLoop (s', p', u) = Inr (s', p', u)" for u by (simp add: srv_start_def s'_def)
  ultimately show ?thesis using u(2-7)
    by (intro exI [of _ s'] exI [of _ p'] exI [of _ "t @ [(?l, sk t ?l)]"]) (simp add: s'_def)
qed

text \<open>A server that has been started cannot be destroyed: its channel is still in the loop.\<close>

lemma started_not_destroyed: "addedToLoop (acceptChannel s) \<Longrightarrow> srv_destructor sk k (s, p, t) = Inl Assert_failed"
  by (simp add: srv_destructor_def ch_destroy_def Let_def)

section \<open>Properties\<close>

text \<open>
  C16: the accept loop, given any connections and errors that are not fatal up to \<open>EAGAIN\<close>,
  returns and has handed exactly the admitted connections, in the order of arrival and in
  turn, to the loops: each is the last functor queued at its loop.
\<close>

theorem accept_round_robin:
  assumes "pool_ok (srv_pool s)" and "benign xs" and "Failed EAGAIN \<notin> set xs"
  shows "\<exists>s'. acceptHandRead bl wc (xs @ Failed EAGAIN # ys) s = Inr (True, s')
     \<and> handed s' = handed s @ in_turn (srv_pool s) (admitted_fds bl wc xs)
     \<and> (\<forall>l. functors (evloops s' l) = functors (evloops s l) @ for_loop l (in_turn (srv_pool s) (admitted_fds bl wc xs)))"
  using accept_spec [OF assms, of bl wc "Failed EAGAIN # ys"] by (auto simp: socket_accept_def)

definition three_loops :: tcp_server where
  "three_loops = \<lparr>srv_pool = \<lparr>baseLoop = 0, pstarted = True, numThreads = 3, next_loop = 2, loops = [10, 11, 12]\<rparr>,
     srv_started = True, evloops = (\<lambda>l. new_loop), idleFd = 4, acceptChannel = new_channel 3, closed_fds = [], handed = []\<rparr>"

lemma three_loops_ok: "pool_ok (srv_pool three_loops)"
  by (simp add: pool_ok_def three_loops_def)

lemma accept_round_robin_witness:
  "\<exists>s'. acceptHandRead {''6.6.6.6''} 21 ([Connection 20 ''1.2.3.4'', Connection 5 ''6.6.6.6'', Connection 21 ''1.2.3.4'',
       Connection 22 ''1.2.3.4''] @ [Failed EAGAIN]) three_loops = Inr (True, s')
     \<and> handed s' = [(12, 20), (10, 21)]"
proof -
  define xs where "xs = [Connection 20 ''1.2.3.4'', Connection 5 ''6.6.6.6'', Connection 21 ''1.2.3.4'', Connection 22 ''1.2.3.4'']"
  have a: "admitted_fds {''6.6.6.6''} 21 xs = [20, 21]" by (simp add: admitted_def xs_def)
  have "in_turn (srv_pool three_loops) [20, 21] = [(12, 20), (10, 21)]" by code_simp
  moreover have "handed three_loops = []" by (simp add: three_loops_def)
  moreover have "benign xs" "Failed EAGAIN \<notin> set xs" by (simp_all add: benign_def xs_def)
  ultimately have "\<exists>s'. acceptHandRead {''6.6.6.6''} 21 (xs @ [Failed EAGAIN]) three_loops = Inr (True, s')
      \<and> handed s' = [(12, 20), (10, 21)]"
    using accept_round_robin [OF three_loops_ok, of xs "{''6.6.6.6''}" 21 "[]"] unfolding a by auto
  then show ?thesis unfolding xs_def .
qed

text \<open>
  When the accept loop admits a number of connections that is a multiple of the number of
  loops, it has queued the same number of them at every loop.
\<close>

theorem connections_balanced:
  assumes "pool_ok (srv_pool s)" and "distinct (loops (srv_pool s))" and "l \<in> set (loops (srv_pool s))"
    and "benign xs" and "Failed EAGAIN \<notin> set xs"
    and "length (admitted_fds bl wc xs) = k * length (loops (srv_pool s))"
  shows "\<exists>s'. acceptHandRead bl wc (xs @ Failed EAGAIN # ys) s = Inr (True, s')
     \<and> length (functors (evloops s' l)) = length (functors (evloops s l)) + k"
  using accept_spec [OF assms(1,4,5), of bl wc "Failed EAGAIN # ys"] share_in_turn [OF assms(1-3,6)]
  by (auto simp: socket_accept_def)

lemma connections_balanced_witness:
  "\<exists>s'. acceptHandRead {} (- 1) (map (\<lambda>f. Connection f ''1.2.3.4'') [20, 21, 22, 23, 24, 25] @ [Failed EAGAIN]) three_loops
     = Inr (True, s') \<and> length (functors (evloops s' 11)) = 2"
proof -
  define xs where "xs = map (\<lambda>f. Connection f ''1.2.3.4'') [20, 21, 22, 23, 24, 25]"
  have "loops (srv_pool three_loops) = [10, 11, 12]" "functors (evloops three_loops 11) = []"
    by (simp_all add: three_loops_def new_loop_def)
  moreover have "benign xs" "Failed EAGAIN \<notin> set xs" "length (admitted_fds {} (- 1) xs) = 6"
    by (simp_all add: benign_def admitted_def xs_def)
  ultimately have "\<exists>s'. acceptHandRead {} (- 1) (xs @ [Failed EAGAIN]) three_loops = Inr (True, s')
      \<and> length (functors (evloops s' 11)) = 2"
    using connections_balanced [OF three_loops_ok, of 11 xs "{}" "- 1" 2 "[]"] by (simp add: numeral_2_eq_2)
  then show ?thesis unfolding xs_def .
qed

text \<open>
  The accept loop runs without a fault on any answers of \<open>accept\<close> that are not fatal, and it
  is left exactly when one of them is \<open>EAGAIN\<close>.
\<close>

theorem accept_loop_ends:
  assumes "pool_ok (srv_pool s)" and "benign xs"
  shows "\<exists>left s'. acceptHandRead bl wc xs s = Inr (left, s') \<and> (left \<longleftrightarrow> Failed EAGAIN \<in> set xs)"
proof (cases "Failed EAGAIN \<in> set xs")
  case True
  then obtain as bs where "xs = as @ Failed EAGAIN # bs" "Failed EAGAIN \<notin> set as" by (meson split_list_first)
  moreover from this have "benign as" using assms(2) by (simp add: benign_def)
  ultimately show ?thesis
    using accept_spec [OF assms(1), of as bl wc "Failed EAGAIN # bs"] True by (auto simp: socket_accept_def)
next
  case False
  from accept_spec [OF assms False, of bl wc "[]"] False show ?thesis by auto
qed

lemma accept_loop_ends_witness:
  "\<exists>s'. acceptHandRead {} (- 1) [Failed EINTR, Failed (EMFILE 9 8)] three_loops = Inr (False, s')"
  using accept_loop_ends [of three_loops "[Failed EINTR, Failed (EMFILE 9 8)]" "{}" "- 1"] three_loops_ok
  by (auto simp: benign_def)

text \<open>
  C17: \<open>startLoop\<close> returns the loop of the thread it started. As long as that loop has not
  returned from \<open>loop()\<close>, a result is this loop, and in every reachable state before the result
  one of the two threads can take a step that is no spurious wake-up. A run has at most
  eight steps beside the spurious wake-ups and one more for each of them, so only endless
  spurious wake-ups could keep the caller from its result. Once the loop has returned, the
  result may also be null.
\<close>

theorem startLoop_returns:
  assumes "start_run me ls start_init s"
  shows "length (filter (\<lambda>x. x \<noteq> Spurious) ls) \<le> 8 + length (filter (\<lambda>x. x = Spurious) ls)
     \<and> (\<forall>v. starter s = Got v \<longrightarrow> v = Some me \<or> v = None \<and> LoopReturns \<in> set ls)
     \<and> (LoopReturns \<notin> set ls \<and> (\<nexists>v. starter s = Got v) \<longrightarrow> (\<exists>t. start_step me Regular s t))"
proof -
  from start_run_inv [OF assms] have inv: "start_inv me ls s"
    and "length (filter (\<lambda>x. x \<noteq> Spurious) ls) \<le> 8 + length (filter (\<lambda>x. x = Spurious) ls)" by simp_all
  moreover have "\<forall>v. starter s = Got v \<longrightarrow> v = Some me \<or> v = None \<and> LoopReturns \<in> set ls"
    using inv by (simp add: start_inv_def)
  ultimately show ?thesis using start_goes_on [OF inv] by blast
qed

lemma startLoop_returns_witness:
  "\<exists>t. start_step 5 Regular \<lparr>starter = Testing, loop_thread = Preparing, loop_ptr = None\<rparr> t"
  using startLoop_returns [OF start_prefix(1) [of 5]] by simp

end
