(* ===== verification/JsonString.thy ===== *)
theory JsonString
  imports LogStream
begin

text \<open>
  The strings of \<open>util/cJSON.c\<close>: how \<open>parse_string\<close> reads one and \<open>print_string_ptr\<close> writes
  one. The input is a C string, given as the bytes before its NUL; reading past the NUL
  and writing past an allocated block are faults, and so is the use of a variable that was
  never set. An allocation always succeeds.
\<close>

section \<open>What a parse returns\<close>

text \<open>
  A pointer behind what was parsed, a null pointer with the place \<open>ep\<close> of the error, or a
  fault. The recursive functions have fuel, one unit for each call.
\<close>

datatype 'a parsed = Fuel_out | Faulty fault | Stopped bytes | Parsed 'a bytes

definition pbind :: "'a parsed \<Rightarrow> ('a \<Rightarrow> bytes \<Rightarrow> 'b parsed) \<Rightarrow> 'b parsed" where
  "pbind p f = (case p of Fuel_out \<Rightarrow> Fuel_out | Faulty e \<Rightarrow> Faulty e | Stopped s \<Rightarrow> Stopped s | Parsed x s \<Rightarrow> f x s)"

lemma pbind_simps [simp]:
  "pbind Fuel_out f = Fuel_out" "pbind (Faulty e) f = Faulty e" "pbind (Stopped s) f = Stopped s" "pbind (Parsed x s) f = f x s"
  by (simp_all add: pbind_def)

section \<open>Escapes\<close>

abbreviation quote :: char where "quote \<equiv> CHR 0x22"
abbreviation backslash :: char where "backslash \<equiv> CHR 0x5C"

text \<open>
  \<open>sscanf(s, "%4x", &uc)\<close>: after white space at most four characters, a sign and a prefix \<open>0x\<close>
  among them. Nothing is stored unless there is a digit.
\<close>

definition hex_prefix :: "bytes \<Rightarrow> bool" where
  "hex_prefix d \<longleftrightarrow> take 2 d = ''0x'' \<or> take 2 d = ''0X''"

definition sscanf_4x :: "bytes \<Rightarrow> 32 word option" where
  "sscanf_4x s =
     (let w = take 4 (dropWhile is_space s);
          neg = (take 1 w = ''-'');
          d = (if neg \<or> take 1 w = ''+'' then tl w else w);
          ds = takeWhile (\<lambda>ch. digit_value ch < 16) (if hex_prefix d then drop 2 d else d);
          v = digits_value 16 0 ds
      in if ds = [] then None else Some (word_of_int (if neg then - v else v)))"

text \<open>The bytes of a code point: the last ones carry six bits each.\<close>

definition byte_of :: "32 word \<Rightarrow> char" where
  "byte_of w = char_of (unat w)"

definition firstByteMark :: "32 word list" where
  "firstByteMark = [0x00, 0x00, 0xC0, 0xE0, 0xF0, 0xF8, 0xFC]"

definition utf8_length :: "32 word \<Rightarrow> nat" where
  "utf8_length uc = (if uc < 0x80 then 1 else if uc < 0x800 then 2 else if uc < 0x10000 then 3 else 4)"

definition continuation :: "32 word \<Rightarrow> char" where
  "continuation uc = byte_of (and (or uc 0x80) 0xBF)"

fun utf8_fill :: "nat \<Rightarrow> 32 word \<Rightarrow> nat \<Rightarrow> bytes" where
  "utf8_fill 0 uc len = [byte_of (or uc (firstByteMark ! len))]"
| "utf8_fill (Suc k) uc len = utf8_fill k (drop_bit 6 uc) len @ [continuation uc]"

definition utf8 :: "32 word \<Rightarrow> bytes" where
  "utf8 uc = utf8_fill (utf8_length uc - 1) uc (utf8_length uc)"

definition surrogates :: "32 word \<Rightarrow> 32 word \<Rightarrow> 32 word" where
  "surrogates uc uc2 = or 0x10000 (or (push_bit 10 (and uc 0x3FF)) (and uc2 0x3FF))"

section \<open>parse_string\<close>

text \<open>The first loop counts; \<open>None\<close> is a step over the NUL behind a last backslash.\<close>

fun string_len :: "bytes \<Rightarrow> nat option" where
  "string_len [] = Some 0"
| "string_len (c # s) =
     (if c = quote then Some 0
      else if c = backslash then (case s of [] \<Rightarrow> None | d # s' \<Rightarrow> map_option Suc (string_len s'))
      else map_option Suc (string_len s))"

definition put :: "nat \<Rightarrow> bytes \<Rightarrow> bytes \<Rightarrow> fault + bytes" where
  "put room out bs = (if length out + length bs \<le> room then Inr (out @ bs) else Inl Out_of_range)"

fun escaped :: "char \<Rightarrow> char" where
  "escaped e =
     (if e = CHR ''b'' then CHR 0x08 else if e = CHR ''f'' then CHR 0x0C else if e = CHR ''n'' then CHR 0x0A
      else if e = CHR ''r'' then CHR 0x0D else if e = CHR ''t'' then CHR 0x09 else e)"

declare escaped.simps [simp del]

text \<open>
  The second loop, with the block it fills and the variables \<open>uc\<close> and \<open>uc2\<close>, which keep
  their value, or none, when \<open>sscanf\<close> stores nothing. \<open>uc\<close> has been shifted after use.
\<close>

function string_fill :: "nat \<Rightarrow> bytes \<Rightarrow> 32 word option \<Rightarrow> 32 word option \<Rightarrow> bytes \<Rightarrow> fault + (bytes \<times> bytes)" where
  "string_fill room out uc uc2 [] = Inr (out, [])"
| "string_fill room out uc uc2 (c # s) =
     (if c = quote then Inr (out, c # s)
      else if c \<noteq> backslash then ebind (put room out [c]) (\<lambda>out'. string_fill room out' uc uc2 s)
      else (case s of
          [] \<Rightarrow> Inl Out_of_range
        | e # r \<Rightarrow>
          if e \<noteq> CHR ''u'' then ebind (put room out [escaped e]) (\<lambda>out'. string_fill room out' uc uc2 r)
          else if length r < 4 then Inl Out_of_range
          else
            (let uc' = (case sscanf_4x r of None \<Rightarrow> uc | Some w \<Rightarrow> Some w); r4 = drop 4 r in
             case uc' of
               None \<Rightarrow> Inl Out_of_range
             | Some w \<Rightarrow>
               if 0xDC00 \<le> w \<and> w \<le> 0xDFFF \<or> w = 0 then string_fill room out uc' uc2 r4
               else if 0xD800 \<le> w \<and> w \<le> 0xDBFF then
                 (if take 2 r4 \<noteq> [backslash, CHR ''u''] then string_fill room out uc' uc2 r4
                  else if length r4 < 6 then Inl Out_of_range
                  else
                    (let uc2' = (case sscanf_4x (drop 2 r4) of None \<Rightarrow> uc2 | Some v \<Rightarrow> Some v); r6 = drop 6 r4 in
                     case uc2' of
                       None \<Rightarrow> Inl Out_of_range
                     | Some v \<Rightarrow>
                       if v < 0xDC00 \<or> 0xDFFF < v then string_fill room out uc' uc2' r6
                       else ebind (put room out (utf8 (surrogates w v))) (\<lambda>out'.
                         string_fill room out' (Some (drop_bit (6 * (utf8_length (surrogates w v) - 1)) (surrogates w v))) uc2' r6)))
               else ebind (put room out (utf8 w)) (\<lambda>out'.
                 string_fill room out' (Some (drop_bit (6 * (utf8_length w - 1)) w)) uc2 r4))))"
  by pat_completeness auto
termination
  by (relation "measure (\<lambda>(room, out, uc, uc2, s). length s)") auto

declare string_fill.simps [simp del]

definition parse_string :: "bytes \<Rightarrow> bytes parsed" where
  "parse_string str =
     (if take 1 str \<noteq> [quote] then Stopped str
      else (case string_len (tl str) of
          None \<Rightarrow> Faulty Out_of_range
        | Some len \<Rightarrow>
          (case string_fill (len + 1) [] None None (tl str) of
             Inl e \<Rightarrow> Faulty e
           | Inr (out, rest) \<Rightarrow>
             if len + 1 \<le> length out then Faulty Out_of_range \<comment> \<open>\<open>*ptr2 = 0\<close>\<close>
             else Parsed out (if take 1 rest = [quote] then tl rest else rest))))"

section \<open>print_string_ptr\<close>

definition code :: "char \<Rightarrow> nat" where
  "code c = of_char c"

definition is_escape :: "char \<Rightarrow> bool" where
  "is_escape c \<longleftrightarrow> c \<in> {quote, backslash, CHR 0x08, CHR 0x0C, CHR 0x0A, CHR 0x0D, CHR 0x09}"

fun print_len :: "bytes \<Rightarrow> nat" where
  "print_len [] = 0"
| "print_len (token # s) = 1 + (if is_escape token then 1 else if code token < 32 then 5 else 0) + print_len s"

text \<open>\<open>%04x\<close> of a byte.\<close>

definition hex_digit_of :: "nat \<Rightarrow> char" where
  "hex_digit_of k = ''0123456789abcdef'' ! k"

definition escape :: "char \<Rightarrow> bytes" where
  "escape token =
     (if token = backslash then [backslash]
      else if token = quote then [quote]
      else if token = CHR 0x08 then ''b''
      else if token = CHR 0x0C then ''f''
      else if token = CHR 0x0A then ''n''
      else if token = CHR 0x0D then ''r''
      else if token = CHR 0x09 then ''t''
      else ''u00'' @ [hex_digit_of (code token div 16), hex_digit_of (code token mod 16)])"

fun print_chars :: "bytes \<Rightarrow> bytes" where
  "print_chars [] = []"
| "print_chars (c # s) =
     (if 31 < code c \<and> c \<noteq> quote \<and> c \<noteq> backslash then c # print_chars s
      else backslash # escape c @ print_chars s)"

text \<open>A null pointer gives the empty string, without quotes.\<close>

definition print_string_ptr :: "bytes option \<Rightarrow> fault + bytes" where
  "print_string_ptr str =
     (case str of
        None \<Rightarrow> Inr []
      | Some s \<Rightarrow>
        (let out = [quote] @ print_chars (c_str s) @ [quote] in
         if length out + 1 \<le> print_len (c_str s) + 3 then Inr out else Inl Out_of_range))"

section \<open>Reading back what was written\<close>

lemma sscanf_4x_take: "\<not> is_space c \<Longrightarrow> sscanf_4x (c # s) = sscanf_4x (c # take 3 s)"
  by (simp add: sscanf_4x_def numeral_eq_Suc)

lemma control_chars:
  "k \<in> {1..<32} \<Longrightarrow> (let c = char_of k; d = [hex_digit_of (k div 16), hex_digit_of (k mod 16)] in
     sscanf_4x (''00'' @ d) = Some (of_nat k) \<and> utf8 (of_nat k) = [c] \<and> (if escape c = ''u00'' @ d then True else escaped (hd (escape c)) = c
        \<and> length (escape c) = 1 \<and> hd (escape c) \<noteq> CHR ''u''))
     \<and> (of_nat k :: 32 word) < 0x80 \<and> (of_nat k :: 32 word) \<noteq> 0"
proof -
  have "\<forall>k \<in> set [1..<32]. (let c = char_of k; d = [hex_digit_of (k div 16), hex_digit_of (k mod 16)] in
     sscanf_4x (''00'' @ d) = Some (of_nat k) \<and> utf8 (of_nat k) = [c] \<and> (if escape c = ''u00'' @ d then True else escaped (hd (escape c)) = c
        \<and> length (escape c) = 1 \<and> hd (escape c) \<noteq> CHR ''u''))
     \<and> (of_nat k :: 32 word) < 0x80 \<and> (of_nat k :: 32 word) \<noteq> 0"
    by code_simp
  then show "k \<in> {1..<32} \<Longrightarrow> ?thesis" by (metis atLeastLessThan_upt)
qed

lemma char_code: "char_of (code c) = c" "code c = 0 \<longleftrightarrow> c = kNul" "code c < 16 * 16"
proof -
  show id: "char_of (code c) = c" by (simp add: code_def)
  have "code kNul = 0" by (simp add: code_def kNul_def)
  moreover have "c = kNul" if "code c = 0" using id that by (simp add: kNul_def char_of_def)
  ultimately show "code c = 0 \<longleftrightarrow> c = kNul" by auto
  show "code c < 16 * 16" using char_bound [of c] by (simp add: code_def)
qed

text \<open>How a character that is not written as itself is escaped.\<close>

lemma escape_cases:
  assumes "c \<noteq> kNul" and "\<not> (31 < code c \<and> c \<noteq> quote \<and> c \<noteq> backslash)"
  obtains e where "escape c = [e]" "e \<noteq> CHR ''u''" "escaped e = c"
  | d w where "escape c = ''u00'' @ d" "length d = 2" "sscanf_4x (''00'' @ d) = Some w" "utf8 w = [c]" "w < 0x80" "w \<noteq> 0"
proof (cases "code c \<le> 31")
  case True
  with assms(1) have k: "code c \<in> {1..<32}" using char_code(2) [of c] by simp
  let ?d = "[hex_digit_of (code c div 16), hex_digit_of (code c mod 16)]"
  note cc = control_chars [OF k, unfolded Let_def char_code(1)]
  show thesis
  proof (cases "escape c = ''u00'' @ ?d")
    case True
    with cc show thesis by (intro that(2) [of ?d "of_nat (code c)"]) simp_all
  next
    case False
    with cc obtain e where "escape c = [e]" "e \<noteq> CHR ''u''" "escaped e = c"
      by (cases "escape c") auto
    then show thesis by (rule that(1))
  qed
next
  case False
  then have "c = quote \<or> c = backslash" using assms(2) by auto
  then show thesis by (intro that(1) [of c]) (auto simp: escape_def escaped.simps)
qed

lemma fill_plain: "c \<noteq> quote \<Longrightarrow> c \<noteq> backslash \<Longrightarrow>
    string_fill room out uc uc2 (c # s) = ebind (put room out [c]) (\<lambda>out'. string_fill room out' uc uc2 s)"
  by (simp add: string_fill.simps)

lemma fill_short: "e \<noteq> CHR ''u'' \<Longrightarrow>
    string_fill room out uc uc2 (backslash # e # s) = ebind (put room out [escaped e]) (\<lambda>out'. string_fill room out' uc uc2 s)"
  by (simp add: string_fill.simps)

text \<open>The three ways of a \<open>\u\<close> whose digits are there.\<close>

lemmas fill_step = list.case option.case Let_def if_True if_False simp_thms

lemma fill_dropped:
  assumes "4 \<le> length r" and "sscanf_4x r = Some w" and "0xDC00 \<le> w \<and> w \<le> 0xDFFF \<or> w = 0"
  shows "string_fill room out uc uc2 (backslash # CHR ''u'' # r) = string_fill room out (Some w) uc2 (drop 4 r)"
proof -
  have n: "(length r < 4) = False" "(backslash = quote) = False" "(backslash \<noteq> backslash) = False" "(CHR ''u'' \<noteq> CHR ''u'') = False"
    using assms(1) by auto
  have "(0xDC00 \<le> w \<and> w \<le> 0xDFFF \<or> w = 0) = True" using assms(3) by (rule Eq_TrueI [THEN meta_eq_to_obj_eq])
  then show ?thesis unfolding string_fill.simps(2) by (simp only: n assms(2) fill_step)
qed

lemma fill_single:
  assumes "4 \<le> length r" and "sscanf_4x r = Some w" and "\<not> (0xDC00 \<le> w \<and> w \<le> 0xDFFF \<or> w = 0)"
    and "\<not> (0xD800 \<le> w \<and> w \<le> 0xDBFF)"
  shows "string_fill room out uc uc2 (backslash # CHR ''u'' # r) = ebind (put room out (utf8 w)) (\<lambda>out'.
    string_fill room out' (Some (drop_bit (6 * (utf8_length w - 1)) w)) uc2 (drop 4 r))"
proof -
  have n: "(length r < 4) = False" "(backslash = quote) = False" "(backslash \<noteq> backslash) = False" "(CHR ''u'' \<noteq> CHR ''u'') = False"
    using assms(1) by auto
  have "(0xDC00 \<le> w \<and> w \<le> 0xDFFF \<or> w = 0) = False" "(0xD800 \<le> w \<and> w \<le> 0xDBFF) = False" using assms(3,4) by blast+
  then show ?thesis unfolding string_fill.simps(2) by (simp only: n assms(2) fill_step)
qed

lemma fill_small:
  assumes "sscanf_4x h = Some w" and "length h = 4" and "\<not> is_space (hd h)" and "w < 0x80" and "w \<noteq> 0"
  shows "string_fill room out uc uc2 (backslash # CHR ''u'' # h @ s) =
     ebind (put room out (utf8 w)) (\<lambda>out'. string_fill room out' (Some w) uc2 s)"
proof -
  obtain c t where h: "h = c # t" "length t = 3" using assms(2) by (cases h) auto
  have "\<not> is_space c" "take 3 (t @ s) = t" using assms(3) h by simp_all
  from sscanf_4x_take [OF this(1), of "t @ s"] this(2) have sc: "sscanf_4x (h @ s) = Some w" using assms(1) h(1) by simp
  have big: "\<not> 0xDC00 \<le> w" "\<not> 0xD800 \<le> w" using assms(4) by (simp_all add: word_le_nat_alt word_less_nat_alt)
  have b: "drop_bit (6 * (utf8_length w - 1)) w = w" using assms(4) by (simp add: utf8_length_def)
  have l: "4 \<le> length (h @ s)" "drop 4 (h @ s) = s" using assms(2) by simp_all
  have "\<not> (0xDC00 \<le> w \<and> w \<le> 0xDFFF \<or> w = 0)" "\<not> (0xD800 \<le> w \<and> w \<le> 0xDBFF)" using big assms(5) by blast+
  from fill_single [OF l(1) sc this, of room out uc uc2] show ?thesis unfolding l(2) b .
qed

lemma fill_printed:
  "no_nul s \<Longrightarrow> length out + length s \<le> room \<Longrightarrow>
     string_fill room out uc uc2 (print_chars s @ quote # r) = Inr (out @ s, quote # r)"
proof (induction s arbitrary: out uc)
  case Nil
  show ?case by (simp add: string_fill.simps)
next
  case (Cons c s)
  have ih: "string_fill room (out @ [c]) uc uc2 (print_chars s @ quote # r) = Inr (out @ c # s, quote # r)" for uc
    using Cons.IH [of "out @ [c]"] Cons.prems by simp
  have p: "put room out [c] = Inr (out @ [c])" using Cons.prems(2) by (simp add: put_def)
  show ?case
  proof (cases "31 < code c \<and> c \<noteq> quote \<and> c \<noteq> backslash")
    case True
    with ih p show ?thesis by (simp add: fill_plain)
  next
    case False
    have "c \<noteq> kNul" using Cons.prems(1) by simp
    from this False show ?thesis
    proof (cases rule: escape_cases)
      case (1 e)
      with False ih p show ?thesis by (auto simp: fill_short)
    next
      case (2 d w)
      have "string_fill room out uc uc2 (backslash # CHR ''u'' # (''00'' @ d) @ print_chars s @ quote # r) = Inr (out @ c # s, quote # r)"
        using fill_small [OF 2(3), of room out uc uc2 "print_chars s @ quote # r"] 2 p ih by (simp add: is_space_def schar_def)
      with False 2(1) show ?thesis by auto
    qed
  qed
qed

lemma len_printed: "no_nul s \<Longrightarrow> \<exists>n. string_len (print_chars s @ quote # r) = Some n \<and> length s \<le> n"
proof (induction s)
  case (Cons c s)
  then obtain n where n: "string_len (print_chars s @ quote # r) = Some n" "length s \<le> n" by auto
  show ?case
  proof (cases "31 < code c \<and> c \<noteq> quote \<and> c \<noteq> backslash")
    case True
    with n show ?thesis by auto
  next
    case False
    have "c \<noteq> kNul" using Cons.prems(1) by simp
    from this False show ?thesis
    proof (cases rule: escape_cases)
      case (1 e)
      with False n show ?thesis by auto
    next
      case (2 d w)
      have "hex_digit_of k \<noteq> quote \<and> hex_digit_of k \<noteq> backslash" if "k < 16" for k
      proof -
        have "\<forall>k \<in> set [0..<16]. hex_digit_of k \<noteq> quote \<and> hex_digit_of k \<noteq> backslash" by code_simp
        with that show ?thesis by auto
      qed
      moreover have "code c div 16 < 16" using char_code(3) [of c] by (simp only: less_mult_imp_div_less)
      moreover have "d = [hex_digit_of (code c div 16), hex_digit_of (code c mod 16)]"
        using 2(1) by (auto simp: escape_def split: if_splits)
      ultimately show ?thesis using False 2(1) n by auto
    qed
  qed
qed simp

lemma parse_printed:
  assumes "no_nul s"
  shows "parse_string (quote # print_chars s @ quote # r) = Parsed s r"
proof -
  obtain n where n: "string_len (print_chars s @ quote # r) = Some n" "length s \<le> n" using len_printed [OF assms] by blast
  then have "string_fill (n + 1) [] None None (print_chars s @ quote # r) = Inr (s, quote # r)"
    using fill_printed [OF assms, of "[]" "n + 1"] by simp
  with n show ?thesis by (simp add: parse_string_def)
qed

lemma print_chars_length: "length (print_chars s) \<le> print_len s"
proof (induction s)
  case (Cons c s)
  have "length (escape c) \<le> (if is_escape c then 1 else 5)"
    by (auto simp: escape_def is_escape_def)
  with Cons show ?case by (auto simp: is_escape_def)
qed simp

lemma print_string_ptr_some: "no_nul s \<Longrightarrow> print_string_ptr (Some s) = Inr (quote # print_chars s @ [quote])"
  using print_chars_length [of s] by (simp add: print_string_ptr_def no_nul_c_str)

lemma print_string_ptr_total: "\<exists>out. print_string_ptr s = Inr out"
proof (cases s)
  case (Some t)
  then show ?thesis using print_chars_length [of "c_str t"] by (simp add: print_string_ptr_def)
qed (simp add: print_string_ptr_def)

section \<open>Texts that are safe to read\<close>

lemma fill_unpaired:
  assumes "4 \<le> length r" and "sscanf_4x r = Some w" and "0xD800 \<le> w \<and> w \<le> 0xDBFF"
    and "\<not> (0xDC00 \<le> w \<and> w \<le> 0xDFFF \<or> w = 0)" and "take 2 (drop 4 r) \<noteq> [backslash, CHR ''u'']"
  shows "string_fill room out uc uc2 (backslash # CHR ''u'' # r) = string_fill room out (Some w) uc2 (drop 4 r)"
proof -
  have n: "(length r < 4) = False" "(backslash = quote) = False" "(backslash \<noteq> backslash) = False" "(CHR ''u'' \<noteq> CHR ''u'') = False"
    using assms(1) by auto
  have "(0xDC00 \<le> w \<and> w \<le> 0xDFFF \<or> w = 0) = False" "(0xD800 \<le> w \<and> w \<le> 0xDBFF) = True"
      "(take 2 (drop 4 r) \<noteq> [backslash, CHR ''u'']) = True" using assms(3-5) by blast+
  then show ?thesis unfolding string_fill.simps(2) by (simp only: n assms(2) fill_step)
qed

lemma fill_pair:
  assumes "4 \<le> length r" and "sscanf_4x r = Some w" and "0xD800 \<le> w \<and> w \<le> 0xDBFF"
    and "\<not> (0xDC00 \<le> w \<and> w \<le> 0xDFFF \<or> w = 0)" and "take 2 (drop 4 r) = [backslash, CHR ''u'']"
    and "6 \<le> length (drop 4 r)" and "sscanf_4x (drop 2 (drop 4 r)) = Some v"
  shows "string_fill room out uc uc2 (backslash # CHR ''u'' # r) =
     (if v < 0xDC00 \<or> 0xDFFF < v then string_fill room out (Some w) (Some v) (drop 6 (drop 4 r))
      else ebind (put room out (utf8 (surrogates w v))) (\<lambda>out'.
        string_fill room out' (Some (drop_bit (6 * (utf8_length (surrogates w v) - 1)) (surrogates w v))) (Some v) (drop 6 (drop 4 r))))"
proof -
  have n: "(length r < 4) = False" "(backslash = quote) = False" "(backslash \<noteq> backslash) = False" "(CHR ''u'' \<noteq> CHR ''u'') = False"
      "(length (drop 4 r) < 6) = False"
    using assms(1,6) by auto
  have "(0xDC00 \<le> w \<and> w \<le> 0xDFFF \<or> w = 0) = False" "(0xD800 \<le> w \<and> w \<le> 0xDBFF) = True"
      "(take 2 (drop 4 r) \<noteq> [backslash, CHR ''u'']) = False" using assms(3-5) by blast+
  then show ?thesis unfolding string_fill.simps(2) by (simp only: n assms(2,7) fill_step)
qed

definition hex_char :: "char \<Rightarrow> bool" where
  "hex_char ch \<longleftrightarrow> digit_value ch < 16"

lemma hex_char_plain: "hex_char ch \<Longrightarrow> \<not> is_space ch \<and> ch \<noteq> quote \<and> ch \<noteq> backslash \<and> ch \<noteq> CHR ''-'' \<and> ch \<noteq> CHR ''+''
    \<and> ch \<noteq> CHR ''x'' \<and> ch \<noteq> CHR ''X''"
  by (auto simp: hex_char_def digit_value_def is_space_def schar_def Let_def split: if_splits)

lemma sscanf_digits:
  assumes "4 \<le> length r" and "\<forall>ch \<in> set (take 4 r). hex_char ch"
  shows "sscanf_4x r = Some (word_of_int (digits_value 16 0 (take 4 r)))"
proof -
  have "\<exists>a b c d s. r = a # b # c # d # s"
    using assms(1) by (cases r; cases "tl r"; cases "tl (tl r)"; cases "tl (tl (tl r))") auto
  then obtain a b c d s where r: "r = a # b # c # d # s" by blast
  then have h: "hex_char a" "hex_char b" "hex_char c" "hex_char d" using assms(2) by simp_all
  have "takeWhile (\<lambda>ch. digit_value ch < 16) [a, b, c, d] = [a, b, c, d]" using h by (simp add: hex_char_def)
  then show ?thesis
    using hex_char_plain [OF h(1)] hex_char_plain [OF h(2)] by (simp add: sscanf_4x_def r Let_def hex_prefix_def)
qed

text \<open>Every backslash is followed by a character, and every \<open>\u\<close> by four hexadecimal digits.\<close>

function escapes_ok :: "bytes \<Rightarrow> bool" where
  "escapes_ok [] \<longleftrightarrow> True"
| "escapes_ok (c # s) \<longleftrightarrow>
     (if c = quote then True
      else if c \<noteq> backslash then escapes_ok s
      else (case s of [] \<Rightarrow> False
        | e # r \<Rightarrow> if e \<noteq> CHR ''u'' then escapes_ok r
          else 4 \<le> length r \<and> (\<forall>ch \<in> set (take 4 r). hex_char ch) \<and> escapes_ok (drop 4 r)))"
  by pat_completeness auto
termination
  by (relation "measure length") auto

declare escapes_ok.simps(2) [simp del]

lemma escapes_ok_u: "escapes_ok (backslash # CHR ''u'' # r) \<longleftrightarrow>
    4 \<le> length r \<and> (\<forall>ch \<in> set (take 4 r). hex_char ch) \<and> escapes_ok (drop 4 r)"
  by (simp add: escapes_ok.simps)

lemma string_len_plain: "c \<noteq> quote \<Longrightarrow> c \<noteq> backslash \<Longrightarrow> string_len (c # s) = map_option Suc (string_len s)"
  by simp

lemma string_len_hex: "4 \<le> length r \<Longrightarrow> \<forall>ch \<in> set (take 4 r). hex_char ch \<Longrightarrow>
    string_len r = map_option (\<lambda>n. n + 4) (string_len (drop 4 r))"
proof -
  assume a: "4 \<le> length r" "\<forall>ch \<in> set (take 4 r). hex_char ch"
  have "\<exists>a b c d s. r = a # b # c # d # s"
    using a(1) by (cases r; cases "tl r"; cases "tl (tl r)"; cases "tl (tl (tl r))") auto
  then obtain a b c d s where r: "r = a # b # c # d # s" by blast
  with a(2) have "hex_char a" "hex_char b" "hex_char c" "hex_char d" by simp_all
  then have "\<forall>x \<in> {a, b, c, d}. x \<noteq> quote \<and> x \<noteq> backslash" using hex_char_plain by blast
  then show ?thesis by (cases "string_len s") (simp_all add: r)
qed

lemma utf8_fill_length: "length (utf8_fill k uc len) = k + 1"
  by (induction k uc len rule: utf8_fill.induct) simp_all

lemma utf8_length_le: "length (utf8 uc) \<le> 4"
  by (simp add: utf8_def utf8_fill_length utf8_length_def)

definition fills :: "nat \<Rightarrow> bytes \<Rightarrow> bool" where
  "fills n s \<longleftrightarrow> (\<forall>room out uc uc2. length out + n \<le> room \<longrightarrow>
     (\<exists>out' r. string_fill room out uc uc2 s = Inr (out', r) \<and> length out' \<le> length out + n \<and> (r = [] \<or> take 1 r = [quote])))"

lemma fills_put:
  assumes "fills n s" and "length bs + n \<le> m"
    and "\<And>room out uc uc2. \<exists>uc' uc2'. string_fill room out uc uc2 t = ebind (put room out bs) (\<lambda>out'. string_fill room out' uc' uc2' s)"
  shows "fills m t"
  unfolding fills_def
proof (intro allI impI)
  fix room and out :: bytes and uc uc2
  assume room: "length out + m \<le> room"
  obtain uc' uc2' where e: "string_fill room out uc uc2 t = ebind (put room out bs) (\<lambda>out'. string_fill room out' uc' uc2' s)"
    using assms(3) by blast
  have p: "put room out bs = Inr (out @ bs)" using room assms(2) by (simp add: put_def)
  have "length (out @ bs) + n \<le> room" using room assms(2) by simp
  then obtain out' r where "string_fill room (out @ bs) uc' uc2' s = Inr (out', r)" "length out' \<le> length (out @ bs) + n"
      "r = [] \<or> take 1 r = [quote]"
    using assms(1) unfolding fills_def by blast
  then show "\<exists>out' r. string_fill room out uc uc2 t = Inr (out', r) \<and> length out' \<le> length out + m \<and> (r = [] \<or> take 1 r = [quote])"
    using e p assms(2) by auto
qed

lemma fills_skip:
  assumes "fills n s" and "n \<le> m"
    and "\<And>room out uc uc2. \<exists>uc' uc2'. string_fill room out uc uc2 t = string_fill room out uc' uc2' s"
  shows "fills m t"
  unfolding fills_def
proof (intro allI impI)
  fix room and out :: bytes and uc uc2
  assume room: "length out + m \<le> room"
  obtain uc' uc2' where "string_fill room out uc uc2 t = string_fill room out uc' uc2' s" using assms(3) by blast
  moreover have "length out + n \<le> room" using room assms(2) by simp
  then obtain out' r where "string_fill room out uc' uc2' s = Inr (out', r)" "length out' \<le> length out + n"
      "r = [] \<or> take 1 r = [quote]"
    using assms(1) unfolding fills_def by blast
  ultimately show "\<exists>out' r. string_fill room out uc uc2 t = Inr (out', r) \<and> length out' \<le> length out + m \<and> (r = [] \<or> take 1 r = [quote])"
    using assms(2) by auto
qed

lemma fills_unicode:
  assumes "4 \<le> length r" and "\<forall>ch \<in> set (take 4 r). hex_char ch" and "string_len (drop 4 r) = Some n" and "fills n (drop 4 r)"
    and pair: "\<And>q. drop 4 r = backslash # CHR ''u'' # q \<Longrightarrow>
      4 \<le> length q \<and> (\<forall>ch \<in> set (take 4 q). hex_char ch) \<and> (\<exists>k. string_len (drop 4 q) = Some k \<and> fills k (drop 4 q))"
  shows "fills (n + 5) (backslash # CHR ''u'' # r)"
proof -
  obtain w where w: "sscanf_4x r = Some w" using sscanf_digits [OF assms(1,2)] by blast
  have le: "n \<le> n + 5" by simp
  consider (dropped) "0xDC00 \<le> w \<and> w \<le> 0xDFFF \<or> w = 0"
    | (single) "\<not> (0xDC00 \<le> w \<and> w \<le> 0xDFFF \<or> w = 0)" "\<not> (0xD800 \<le> w \<and> w \<le> 0xDBFF)"
    | (unpaired) "\<not> (0xDC00 \<le> w \<and> w \<le> 0xDFFF \<or> w = 0)" "0xD800 \<le> w \<and> w \<le> 0xDBFF" "take 2 (drop 4 r) \<noteq> [backslash, CHR ''u'']"
    | (paired) "\<not> (0xDC00 \<le> w \<and> w \<le> 0xDFFF \<or> w = 0)" "0xD800 \<le> w \<and> w \<le> 0xDBFF" "take 2 (drop 4 r) = [backslash, CHR ''u'']"
    by blast
  then show ?thesis
  proof cases
    case dropped
    show ?thesis by (rule fills_skip [OF assms(4) le]) (use fill_dropped [OF assms(1) w dropped] in blast)
  next
    case single
    have l: "length (utf8 w) + n \<le> n + 5" using utf8_length_le [of w] by simp
    show ?thesis by (rule fills_put [OF assms(4) l]) (use fill_single [OF assms(1) w single] in blast)
  next
    case unpaired
    show ?thesis by (rule fills_skip [OF assms(4) le]) (use fill_unpaired [OF assms(1) w unpaired(2,1,3)] in blast)
  next
    case paired
    then obtain q where q: "drop 4 r = backslash # CHR ''u'' # q"
      by (cases "drop 4 r"; cases "tl (drop 4 r)") auto
    obtain k where k: "4 \<le> length q" "\<forall>ch \<in> set (take 4 q). hex_char ch" "string_len (drop 4 q) = Some k" "fills k (drop 4 q)"
      using pair [OF q] by blast
    have "string_len (drop 4 r) = Some (k + 5)" using string_len_hex [OF k(1,2)] k(3) unfolding q by simp
    then have n: "n = k + 5" using assms(3) by simp
    obtain v where v: "sscanf_4x (drop 2 (drop 4 r)) = Some v" using sscanf_digits [OF k(1,2)] unfolding q by auto
    have l6: "6 \<le> length (drop 4 r)" "drop 6 (drop 4 r) = drop 4 q" using k(1) unfolding q by (simp_all add: numeral_eq_Suc)
    note step = fill_pair [OF assms(1) w paired(2,1,3) l6(1) v, unfolded l6(2)]
    show ?thesis
    proof (cases "v < 0xDC00 \<or> 0xDFFF < v")
      case True
      have "k \<le> n + 5" using n by simp
      then show ?thesis
        by (rule fills_skip [OF k(4)]) (unfold step if_P [OF True], blast)
    next
      case False
      have l: "length (utf8 (surrogates w v)) + k \<le> n + 5" using utf8_length_le [of "surrogates w v"] n by simp
      show ?thesis
        by (rule fills_put [OF k(4) l]) (unfold step if_not_P [OF False], blast)
    qed
  qed
qed

lemma fills_stop: "fills 0 []" "fills 0 (quote # s)"
  by (simp_all add: fills_def string_fill.simps)

lemma fills_all: "escapes_ok s \<Longrightarrow> \<exists>n. string_len s = Some n \<and> fills n s"
proof (induction s rule: length_induct)
  case (1 s)
  show ?case
  proof (cases s)
    case Nil
    then show ?thesis using fills_stop(1) by simp
  next
    case (Cons c t)
    consider (stop) "c = quote" | (plain) "c \<noteq> quote" "c \<noteq> backslash" | (esc) "c \<noteq> quote" "c = backslash" by blast
    then show ?thesis
    proof cases
      case stop
      then show ?thesis using fills_stop(2) Cons by simp
    next
      case plain
      then have "escapes_ok t" using 1(2) Cons by (simp add: escapes_ok.simps)
      then obtain n where n: "string_len t = Some n" "fills n t" using 1(1) Cons by auto
      have "fills (Suc n) (c # t)" by (rule fills_put [OF n(2), of "[c]"]) (use fill_plain [OF plain] in auto)
      then show ?thesis using plain n(1) Cons by simp
    next
      case esc
      then obtain e r where t: "t = e # r" using 1(2) Cons by (cases t) (simp_all add: escapes_ok.simps)
      show ?thesis
      proof (cases "e = CHR ''u''")
        case False
        then have "escapes_ok r" using 1(2) Cons esc t by (simp add: escapes_ok.simps)
        moreover have "length r < length s" using Cons t by simp
        ultimately obtain n where n: "string_len r = Some n" "fills n r" using 1(1) by blast
        have "fills (Suc n) (backslash # e # r)"
          by (rule fills_put [OF n(2), of "[escaped e]"]) (use fill_short [OF False] in auto)
        then show ?thesis using n(1) Cons t esc by simp
      next
        case True
        have s: "s = backslash # CHR ''u'' # r" using Cons t esc True by simp
        then have r: "4 \<le> length r" "\<forall>ch \<in> set (take 4 r). hex_char ch" "escapes_ok (drop 4 r)"
          using 1(2) escapes_ok_u by blast+
        have "length (drop 4 r) < length s" by (simp add: s)
        then obtain n where n: "string_len (drop 4 r) = Some n" "fills n (drop 4 r)" using 1(1) r(3) by blast
        have "fills (n + 5) (backslash # CHR ''u'' # r)"
        proof (rule fills_unicode [OF r(1,2) n])
          fix q assume q: "drop 4 r = backslash # CHR ''u'' # q"
          then have ok: "4 \<le> length q" "\<forall>ch \<in> set (take 4 q). hex_char ch" "escapes_ok (drop 4 q)"
            using r(3) escapes_ok_u by simp_all
          have "length q < length (drop 4 r)" by (simp add: q)
          then have "length (drop 4 q) < length s" by (simp add: s)
          with 1(1) ok show "4 \<le> length q \<and> (\<forall>ch \<in> set (take 4 q). hex_char ch)
              \<and> (\<exists>k. string_len (drop 4 q) = Some k \<and> fills k (drop 4 q))" by blast
        qed
        moreover have "string_len s = Some (n + 5)" using string_len_hex [OF r(1,2)] n(1) by (simp add: s)
        ultimately show ?thesis unfolding s by blast
      qed
    qed
  qed
qed

section \<open>Surrogates\<close>

lemma low_ten: "and w 0x3FF = (take_bit 10 w :: 32 word)"
  by (simp add: take_bit_eq_mask mask_eq_decr_exp)

lemma unat_low_ten: "unat (and w 0x3FF :: 32 word) = unat w mod 1024"
  by (simp only: low_ten unsigned_take_bit_eq) (simp add: take_bit_eq_mod)

lemma or_above: "y < 2 ^ k \<Longrightarrow> or (push_bit k x) y = push_bit k x + (y :: nat)"
proof -
  assume "y < 2 ^ k"
  then have "take_bit k y = y" by (simp add: take_bit_nat_eq_self)
  then have low: "bit y n \<Longrightarrow> n < k" for n by (metis bit_take_bit_iff)
  have "and (push_bit k x) y = 0" by (rule bit_eqI) (use low in \<open>force simp: bit_and_iff bit_push_bit_iff\<close>)
  then show ?thesis by (simp add: disjunctive_add_eq_or)
qed

lemma bit_65536: "bit (65536 :: nat) n \<longleftrightarrow> n = 16"
proof -
  have "(65536 :: nat) = push_bit 16 1" by (simp add: push_bit_eq_mult)
  then have "bit (65536 :: nat) n \<longleftrightarrow> 16 \<le> n \<and> bit (1 :: nat) (n - 16)" by (simp only: bit_push_bit_iff) simp
  then show ?thesis by (simp only: bit_1_iff) auto
qed

lemma or_bit16: "or 65536 (push_bit 10 x) = (if bit x 6 then 0 else 65536) + push_bit 10 (x :: nat)"
proof (cases "bit x 6")
  case True
  have "or 65536 (push_bit 10 x) = push_bit 10 x"
    by (rule bit_eqI) (use True in \<open>auto simp: bit_or_iff bit_push_bit_iff bit_65536\<close>)
  with True show ?thesis by simp
next
  case False
  have "and 65536 (push_bit 10 x) = 0"
    by (rule bit_eqI) (use False in \<open>auto simp: bit_and_iff bit_push_bit_iff bit_65536\<close>)
  then have "65536 + push_bit 10 x = or 65536 (push_bit 10 x)" by (rule disjunctive_add_eq_or)
  with False show ?thesis by (simp only: if_False)
qed

lemma surrogates_unat:
  "unat (surrogates w v) = (if bit w 6 then 0 else 0x10000) + (unat w mod 1024) * 1024 + unat v mod 1024"
proof -
  define x y where "x = and w 0x3FF" and "y = and v 0x3FF"
  have x: "unat x = unat w mod 1024" and y: "unat y = unat v mod 1024"
    unfolding x_def y_def by (rule unat_low_ten)+
  have b: "unat x < 1024" "unat y < 2 ^ 10" unfolding x y by simp_all
  have "unat (push_bit 10 x) = take_bit 32 (push_bit 10 (unat x))" by (simp only: unsigned_push_bit_eq) simp
  also have "\<dots> = push_bit 10 (unat x)" using b(1) by (intro take_bit_nat_eq_self) (simp add: push_bit_eq_mult)
  finally have p: "unat (push_bit 10 x) = push_bit 10 (unat x)" .
  have bx: "bit (unat x) 6 \<longleftrightarrow> bit w 6"
    unfolding x_def low_ten by (simp add: bit_unsigned_iff bit_take_bit_iff)
  have h: "unat (0x10000 :: 32 word) = 65536" by simp
  have "unat (surrogates w v) = or 65536 (or (push_bit 10 (unat x)) (unat y))"
    unfolding surrogates_def x_def [symmetric] y_def [symmetric] unsigned_or_eq p h ..
  also have "\<dots> = or 65536 (push_bit 10 (unat x)) + unat y"
  proof -
    have "or 65536 (push_bit 10 (unat x)) = push_bit 10 (or 64 (unat x))"
      by (simp only: push_bit_or) (simp add: push_bit_eq_mult)
    with or_above [OF b(2), of "or 64 (unat x)"] show ?thesis by (metis or.assoc)
  qed
  also have "\<dots> = (if bit w 6 then 0 else 65536) + push_bit 10 (unat x) + unat y"
    unfolding or_bit16 bx ..
  finally show ?thesis unfolding x y by (simp add: push_bit_eq_mult)
qed

section \<open>Properties\<close>



text \<open>
  C31: a \<open>\u\<close> with fewer than four digits makes \<open>parse_string\<close> step over the closing quote: the block
  is allocated for the text in front of the quote and then filled with what stands behind
  it, so it overflows as soon as a few more characters follow.
\<close>

theorem string_overflow:
  assumes "\<forall>x \<in> {c, d, e}. x \<noteq> quote \<and> x \<noteq> backslash"
  shows "parse_string (quote # backslash # CHR ''u'' # CHR ''1'' # quote # a # b # c # d # e # s) = Faulty Out_of_range"
proof -
  let ?h = "[CHR ''1'', quote, a, b]" and ?s = "c # d # e # s"
  have "sscanf_4x ?h = Some 1"
    by (simp add: sscanf_4x_def is_space_def schar_def hex_prefix_def digit_value_def)
  moreover have "(1 :: 32 word) < 0x80" "(1 :: 32 word) \<noteq> 0" by simp_all
  moreover have u: "utf8 1 = [CHR 0x01]" by code_simp
  ultimately have "string_fill 3 [] None None (backslash # CHR ''u'' # ?h @ ?s)
      = string_fill 3 [CHR 0x01] (Some 1) None ?s"
    using fill_small [of ?h 1 3 "[]" None None ?s] by (simp add: is_space_def schar_def put_def)
  also have "\<dots> = Inl Out_of_range"
    using assms by (simp add: fill_plain put_def)
  finally have "string_fill 3 [] None None (backslash # CHR ''u'' # ?h @ ?s) = Inl Out_of_range" .
  moreover have "string_len (backslash # CHR ''u'' # ?h @ ?s) = Some 2" by (simp add: numeral_eq_Suc)
  ultimately show ?thesis by (simp add: parse_string_def numeral_eq_Suc)
qed

lemma string_overflow_witness: "parse_string (quote # backslash # ''u1'' @ quote # ''abcde'') = Faulty Out_of_range"
  using string_overflow [of "CHR ''c''" "CHR ''d''" "CHR ''e''"] by simp

text \<open>
  a surrogate pair is decoded to the code point it stands for exactly when bit 6 of its
  first half is clear, since the code combines with \<open>0x10000 |\<close> what has to be added; the pairs of
  the planes 2, 4, 6 and so on come out one plane too low.
\<close>

theorem surrogate_planes:
  assumes "0xD800 \<le> w" and "w \<le> 0xDBFF" and "0xDC00 \<le> v" and "v \<le> 0xDFFF"
  shows "unat (surrogates w v) = 0x10000 + (unat w - 0xD800) * 0x400 + (unat v - 0xDC00) \<longleftrightarrow> \<not> bit w 6"
proof -
  have "0xD800 \<le> unat w" "unat w \<le> 0xDBFF" "0xDC00 \<le> unat v" "unat v \<le> 0xDFFF"
    using assms by (simp_all add: word_le_nat_alt)
  moreover define x y where "x = unat w - 0xD800" and "y = unat v - 0xDC00"
  ultimately have "unat w = 54 * 1024 + x" "x < 1024" "unat v = 55 * 1024 + y" "y < 1024" by simp_all
  then have "unat w mod 1024 = x" "unat v mod 1024 = y" by (simp_all only: mod_mult_self3 mod_less)
  then show ?thesis by (auto simp: surrogates_unat x_def [symmetric] y_def [symmetric])
qed

lemma surrogate_planes_witness: "unat (surrogates 0xD840 0xDC00) \<noteq> 0x20000 \<and> unat (surrogates 0xD83D 0xDE00) = 0x1F600"
proof -
  have "bit (0xD840 :: 32 word) 6" "\<not> bit (0xD83D :: 32 word) 6" by code_simp+
  then show ?thesis
    using surrogate_planes [where w = "0xD840" and v = "0xDC00"] surrogate_planes [where w = "0xD83D" and v = "0xDE00"] by simp
qed

end
