(* ===== verification/Json.thy ===== *)
theory Json
  imports JsonString
begin

text \<open>
  \<open>util/cJSON.c\<close>: the tree of a JSON text, parsing and printing. A list of siblings is a list
  here. Allocation always succeeds; what the library computes with doubles is a parameter.
\<close>

section \<open>The tree\<close>

text \<open>
  \<open>from_int sign n\<close> is the double \<open>sign * n\<close>; \<open>from_text sign ds e\<close> is the double that is
  \<open>sign * ds * 10^e\<close> for the digits \<open>ds\<close>, with its \<open>int64\<close> if it has one; \<open>show_f\<close> is \<open>%f\<close>.
\<close>

record 'd floats =
  from_int :: "int \<Rightarrow> int \<Rightarrow> 'd"
  from_text :: "int \<Rightarrow> bytes \<Rightarrow> int \<Rightarrow> 'd \<times> int option"
  show_f :: "'d \<Rightarrow> bytes"

text \<open>The type of an item with the fields it uses: for numbers \<open>sign\<close>, \<open>valueint\<close> and \<open>valuedouble\<close>.\<close>

datatype 'd jtype = JFalse | JTrue | JNULL | JInt int int 'd | JDouble int int 'd | JString bytes | JArray | JObject

text \<open>An item also carries a mark, which tells items apart where that matters.\<close>

datatype ('a, 'd) cJSON =
  CJson (jmark: 'a) (jtype: "'d jtype") (jchild: "('a, 'd) cJSON list") (jstring: "bytes option")

abbreviation leaf :: "'d jtype \<Rightarrow> (unit, 'd) cJSON" where
  "leaf t \<equiv> CJson () t [] None"

fun named :: "bytes \<Rightarrow> ('a, 'd) cJSON \<Rightarrow> ('a, 'd) cJSON" where
  "named key (CJson a t cs nm) = CJson a t cs (Some key)"

section \<open>Parsing\<close>

definition skip :: "bytes \<Rightarrow> bytes" where
  "skip s = dropWhile (\<lambda>c. code c \<le> 32) s"

definition is_digit :: "char \<Rightarrow> bool" where
  "is_digit c \<longleftrightarrow> 48 \<le> schar c \<and> schar c \<le> 57"

text \<open>
  The \<open>int\<close> of the exponent overflows at \<open>2^31\<close>, and a number without fraction and exponent
  does not fit into \<open>int64\<close> from \<open>2^63\<close> on; both are undefined.
\<close>

definition parse_number :: "'d floats \<Rightarrow> bytes \<Rightarrow> 'd jtype parsed" where
  "parse_number fl num =
     (let sign = (if take 1 num = ''-'' then - 1 else 1);
          s1 = (if take 1 num = ''-'' then tl num else num);
          s2 = (if take 1 s1 = ''0'' then tl s1 else s1);
          ds = (if take 1 s2 = ''0'' then [] else takeWhile is_digit s2);
          s3 = drop (length ds) s2;
          fs = (if take 1 s3 = ''.'' then takeWhile is_digit (tl s3) else []);
          s4 = (if fs \<noteq> [] then drop (1 + length fs) s3 else s3);
          ex = (take 1 s4 = ''e'' \<or> take 1 s4 = ''E'');
          s5 = (if ex then tl s4 else s4);
          signsubscale = (if ex \<and> take 1 s5 = ''-'' then - 1 else 1);
          s6 = (if ex \<and> (take 1 s5 = ''+'' \<or> take 1 s5 = ''-'') then tl s5 else s5);
          es = (if ex then takeWhile is_digit s6 else []);
          rest = drop (length es) s6;
          scale = - int (length fs);
          subscale = digits_value 10 0 es;
          n = digits_value 10 0 ds
      in if 2 ^ 31 \<le> subscale then Faulty Out_of_range
         else if scale = 0 \<and> subscale = 0 then
           (if 2 ^ 63 \<le> n then Faulty Out_of_range else Parsed (JInt sign (sign * n) (from_int fl sign n)) rest)
         else (case from_text fl sign (ds @ fs) (scale + subscale * signsubscale) of
             (d, None) \<Rightarrow> Faulty Out_of_range
           | (d, Some v) \<Rightarrow> Parsed (JDouble sign v d) rest))"

text \<open>
  The functions call each other. Those for arrays and objects get \<open>parse_value\<close> as an argument
  here; each loop has one unit of fuel per byte left, and \<open>parse_value\<close> one unit per level
  of nesting.
\<close>

primrec parse_elements :: "(bytes \<Rightarrow> (unit, 'd) cJSON parsed) \<Rightarrow> nat \<Rightarrow> (unit, 'd) cJSON list \<Rightarrow> bytes
    \<Rightarrow> (unit, 'd) cJSON parsed" where
  "parse_elements pv 0 acc value = Fuel_out"
| "parse_elements pv (Suc n) acc value =
     (if take 1 value = '','' then pbind (pv (skip (tl value))) (\<lambda>v r. parse_elements pv n (acc @ [v]) (skip r))
      else if take 1 value = '']'' then Parsed (CJson () JArray acc None) (tl value)
      else Stopped value)"

definition parse_array :: "(bytes \<Rightarrow> (unit, 'd) cJSON parsed) \<Rightarrow> bytes \<Rightarrow> (unit, 'd) cJSON parsed" where
  "parse_array pv value =
     (if take 1 value \<noteq> ''['' then Stopped value
      else
        (let s = skip (tl value) in
         if take 1 s = '']'' then Parsed (leaf JArray) (tl s)
         else pbind (pv (skip s)) (\<lambda>v r. parse_elements pv (length value) [v] (skip r))))"

definition parse_member :: "(bytes \<Rightarrow> (unit, 'd) cJSON parsed) \<Rightarrow> bytes \<Rightarrow> (unit, 'd) cJSON parsed" where
  "parse_member pv value =
     pbind (parse_string value) (\<lambda>key r.
       if take 1 (skip r) \<noteq> '':'' then Stopped (skip r)
       else pbind (pv (skip (tl (skip r)))) (\<lambda>v r2. Parsed (named key v) (skip r2)))"

primrec parse_members :: "(bytes \<Rightarrow> (unit, 'd) cJSON parsed) \<Rightarrow> nat \<Rightarrow> (unit, 'd) cJSON list \<Rightarrow> bytes
    \<Rightarrow> (unit, 'd) cJSON parsed" where
  "parse_members pv 0 acc value = Fuel_out"
| "parse_members pv (Suc n) acc value =
     (if take 1 value = '','' then pbind (parse_member pv (skip (tl value))) (\<lambda>v r. parse_members pv n (acc @ [v]) r)
      else if take 1 value = ''}'' then Parsed (CJson () JObject acc None) (tl value)
      else Stopped value)"

definition parse_object :: "(bytes \<Rightarrow> (unit, 'd) cJSON parsed) \<Rightarrow> bytes \<Rightarrow> (unit, 'd) cJSON parsed" where
  "parse_object pv value =
     (if take 1 value \<noteq> ''{'' then Stopped value
      else
        (let s = skip (tl value) in
         if take 1 s = ''}'' then Parsed (leaf JObject) (tl s)
         else pbind (parse_member pv (skip s)) (\<lambda>v r. parse_members pv (length value) [v] r)))"

definition starts_number :: "bytes \<Rightarrow> bool" where
  "starts_number value \<longleftrightarrow> take 1 value = ''-'' \<or> value \<noteq> [] \<and> is_digit (hd value)"

primrec parse_value :: "'d floats \<Rightarrow> nat \<Rightarrow> bytes \<Rightarrow> (unit, 'd) cJSON parsed" where
  "parse_value fl 0 value = Fuel_out"
| "parse_value fl (Suc f) value =
     (if take 4 value = ''null'' then Parsed (leaf JNULL) (drop 4 value)
      else if take 5 value = ''false'' then Parsed (leaf JFalse) (drop 5 value)
      else if take 4 value = ''true'' then Parsed (leaf JTrue) (drop 4 value)
      else if take 1 value = [quote] then pbind (parse_string value) (\<lambda>t r. Parsed (leaf (JString t)) r)
      else if starts_number value then pbind (parse_number fl value) (\<lambda>t r. Parsed (leaf t) r)
      else if take 1 value = ''['' then parse_array (parse_value fl f) value
      else if take 1 value = ''{'' then parse_object (parse_value fl f) value
      else Stopped value)"

definition cJSON_Parse :: "'d floats \<Rightarrow> bytes \<Rightarrow> (unit, 'd) cJSON parsed" where
  "cJSON_Parse fl value = parse_value fl (length value + 1) (skip (c_str value))"

section \<open>Printing\<close>

definition boxed :: "nat \<Rightarrow> bytes \<Rightarrow> fault + bytes" where
  "boxed room s = (if length s + 1 \<le> room then Inr s else Inl Out_of_range)"

definition print_double :: "'d floats \<Rightarrow> 'd \<Rightarrow> fault + bytes" where
  "print_double fl d = boxed 64 (show_f fl d)"

definition signed_text :: "int \<Rightarrow> bytes" where
  "signed_text v = (if v < 0 then ''-'' else []) @ decimal (nat \<bar>v\<bar>)"

definition print_int :: "int \<Rightarrow> int \<Rightarrow> fault + bytes" where
  "print_int sign v =
     boxed 22 (if sign = - 1 then signed_text v
       else if v \<le> 2 ^ 32 - 1 then decimal (nat (v mod 2 ^ 32))
       else decimal (nat (v mod 2 ^ 64)))"

fun join :: "bytes \<Rightarrow> bytes list \<Rightarrow> bytes" where
  "join sep [] = []"
| "join sep [e] = e"
| "join sep (e # es) = e @ sep @ join sep es"

definition compose_array :: "bool \<Rightarrow> bytes list \<Rightarrow> fault + bytes" where
  "compose_array fmt es =
     boxed (5 + sum_list (map (\<lambda>e. length e + 2 + (if fmt then 1 else 0)) es))
       (''['' @ join ('','' @ (if fmt then '' '' else [])) es @ '']'')"

definition tabs :: "nat \<Rightarrow> bytes" where
  "tabs n = replicate n (CHR 0x09)"

fun object_lines :: "bool \<Rightarrow> nat \<Rightarrow> (bytes \<times> bytes) list \<Rightarrow> bytes" where
  "object_lines fmt depth [] = []"
| "object_lines fmt depth ((n, e) # es) =
     (if fmt then tabs depth else []) @ n @ '':'' @ (if fmt then [CHR 0x09] else []) @ e
       @ (if es \<noteq> [] then '','' else []) @ (if fmt then [CHR 0x0A] else []) @ object_lines fmt depth es"

definition compose_object :: "bool \<Rightarrow> nat \<Rightarrow> (bytes \<times> bytes) list \<Rightarrow> fault + bytes" where
  "compose_object fmt depth es =
     boxed (7 + (if fmt then depth else 0) + sum_list (map (\<lambda>(n, e). length e + length n + 2 + (if fmt then 2 + depth else 0)) es))
       (''{'' @ (if fmt then [CHR 0x0A] else []) @ object_lines fmt depth es
         @ (if fmt then tabs (depth - 1) else []) @ ''}'')"

fun print_value :: "'d floats \<Rightarrow> bool \<Rightarrow> nat \<Rightarrow> ('a, 'd) cJSON \<Rightarrow> fault + bytes"
  and print_array :: "'d floats \<Rightarrow> bool \<Rightarrow> nat \<Rightarrow> ('a, 'd) cJSON list \<Rightarrow> fault + bytes list"
  and print_object :: "'d floats \<Rightarrow> bool \<Rightarrow> nat \<Rightarrow> ('a, 'd) cJSON list \<Rightarrow> fault + (bytes \<times> bytes) list" where
  "print_value fl fmt depth (CJson a JNULL cs nm) = Inr ''null''"
| "print_value fl fmt depth (CJson a JFalse cs nm) = Inr ''false''"
| "print_value fl fmt depth (CJson a JTrue cs nm) = Inr ''true''"
| "print_value fl fmt depth (CJson a (JInt sign v d) cs nm) = print_int sign v"
| "print_value fl fmt depth (CJson a (JDouble sign v d) cs nm) = print_double fl d"
| "print_value fl fmt depth (CJson a (JString s) cs nm) = print_string_ptr (Some s)"
| "print_value fl fmt depth (CJson a JArray cs nm) = ebind (print_array fl fmt (depth + 1) cs) (compose_array fmt)"
| "print_value fl fmt depth (CJson a JObject cs nm) = ebind (print_object fl fmt (depth + 1) cs) (compose_object fmt (depth + 1))"
| "print_array fl fmt depth [] = Inr []"
| "print_array fl fmt depth (c # cs) =
     ebind (print_value fl fmt depth c) (\<lambda>e. ebind (print_array fl fmt depth cs) (\<lambda>es. Inr (e # es)))"
| "print_object fl fmt depth [] = Inr []"
| "print_object fl fmt depth (c # cs) =
     ebind (print_string_ptr (jstring c)) (\<lambda>n. ebind (print_value fl fmt depth c) (\<lambda>e.
       ebind (print_object fl fmt depth cs) (\<lambda>es. Inr ((n, e) # es))))"

definition cJSON_Print :: "'d floats \<Rightarrow> ('a, 'd) cJSON \<Rightarrow> fault + bytes" where
  "cJSON_Print fl c = print_value fl True 0 c"

definition cJSON_PrintUnformatted :: "'d floats \<Rightarrow> ('a, 'd) cJSON \<Rightarrow> fault + bytes" where
  "cJSON_PrintUnformatted fl c = print_value fl False 0 c"

section \<open>Every parse ends\<close>

lemma string_fill_rest: "string_fill room out uc uc2 s = Inr (out', r) \<Longrightarrow> length r \<le> length s"
proof (induction s arbitrary: room out uc uc2 rule: length_induct)
  case (1 s)
  have ih: "string_fill room out uc uc2 t = Inr (out', r) \<Longrightarrow> length t < length s \<Longrightarrow> length r < length s" for room out uc uc2 t
    using 1(1) by (metis le_less_trans)
  show ?case
  proof (cases s)
    case (Cons c t)
    note ih = ih [unfolded Cons]
    from 1(2) [unfolded Cons string_fill.simps(2) Let_def]
    have "length r \<le> length (c # t)"
      by (auto simp: ebind_eq_Inr split: if_split_asm option.split_asm list.split_asm dest!: ih intro: less_imp_le)
    then show ?thesis unfolding Cons .
  qed (use 1(2) in \<open>simp add: string_fill.simps\<close>)
qed

lemma take_nonempty: "take k s = c # w \<Longrightarrow> 0 < length s"
  by (cases s) auto

lemma parse_string_rest:
  assumes "parse_string s = Parsed t r"
  shows "length r < length s"
proof -
  have q: "take 1 s = [quote]" using assms by (auto simp: parse_string_def split: if_split_asm)
  obtain n out rest where "string_fill (n + 1) [] None None (tl s) = Inr (out, rest)" "r = rest \<or> r = tl rest"
    using assms q by (auto simp: parse_string_def split: if_split_asm option.split_asm sum.split_asm)
  then have "length r \<le> length (tl s)" using string_fill_rest [of "n + 1" "[]" None None "tl s" out rest] by auto
  then show ?thesis using q by (cases s) auto
qed

lemma skip_rest: "length (skip s) \<le> length s"
  by (simp add: skip_def length_dropWhile_le)

lemma not_minus_digit [simp]: "\<not> is_digit CHR ''-''"
  by (simp add: is_digit_def schar_def)

lemma parse_number_rest:
  assumes "starts_number num" and "parse_number fl num = Parsed t rest"
  shows "length rest < length num"
proof -
  define s1 where "s1 = (if take 1 num = ''-'' then tl num else num)"
  define s2 where "s2 = (if take 1 s1 = ''0'' then tl s1 else s1)"
  define ds where "ds = (if take 1 s2 = ''0'' then [] else takeWhile is_digit s2)"
  define s3 where "s3 = drop (length ds) s2"
  define fs where "fs = (if take 1 s3 = ''.'' then takeWhile is_digit (tl s3) else [])"
  define s4 where "s4 = (if fs \<noteq> [] then drop (1 + length fs) s3 else s3)"
  define ex where "ex = (take 1 s4 = ''e'' \<or> take 1 s4 = ''E'')"
  define s5 where "s5 = (if ex then tl s4 else s4)"
  define s6 where "s6 = (if ex \<and> (take 1 s5 = ''+'' \<or> take 1 s5 = ''-'') then tl s5 else s5)"
  define es where "es = (if ex then takeWhile is_digit s6 else [])"
  have "rest = drop (length es) s6"
    using assms(2) unfolding parse_number_def Let_def s1_def [symmetric] s2_def [symmetric] ds_def [symmetric]
      s3_def [symmetric] fs_def [symmetric] s4_def [symmetric] ex_def [symmetric] s5_def [symmetric] s6_def [symmetric]
      es_def [symmetric]
    by (simp split: if_split_asm prod.split_asm option.split_asm)
  then have "length rest \<le> length s6" by simp
  also have "\<dots> \<le> length s5" by (simp add: s6_def)
  also have "\<dots> \<le> length s4" by (simp add: s5_def)
  also have "\<dots> \<le> length s3" by (simp add: s4_def)
  finally have r: "length rest \<le> length s2 - length ds" by (simp add: s3_def)
  have "length ds \<le> length s2" by (simp add: ds_def length_takeWhile_le)
  moreover have "length s2 \<le> length s1" by (simp add: s2_def)
  moreover have "length s1 \<le> length num" by (simp add: s1_def)
  moreover have "length s1 < length num \<or> length s2 < length s1 \<or> ds \<noteq> []"
  proof (cases "take 1 num = ''-'' \<or> take 1 s1 = ''0''")
    case True
    then show ?thesis by (cases num; cases s1) (auto simp: s1_def s2_def split: if_splits)
  next
    case False
    then have "s1 = num" by (simp add: s1_def)
    moreover from this have "s2 = num" using False by (simp add: s2_def)
    ultimately have "s1 = num" "s2 = num" by simp_all
    then show ?thesis using assms(1) False by (cases num) (auto simp: ds_def starts_number_def)
  qed
  ultimately show ?thesis using r by (cases ds) auto
qed

definition shrinks :: "(bytes \<Rightarrow> 'a parsed) \<Rightarrow> bool" where
  "shrinks pv \<longleftrightarrow> (\<forall>s v r. pv s = Parsed v r \<longrightarrow> length r < length s)"

lemma pbind_parsed: "pbind p f = Parsed v r \<longleftrightarrow> (\<exists>u t. p = Parsed u t \<and> f u t = Parsed v r)"
  by (cases p) simp_all

lemma pbind_fuel: "pbind p f = Fuel_out \<longleftrightarrow> p = Fuel_out \<or> (\<exists>u t. p = Parsed u t \<and> f u t = Fuel_out)"
  by (cases p) simp_all

lemma tl_less: "take 1 s = [c] \<Longrightarrow> length (tl s) < length s"
  by (cases s) simp_all

lemma skip_tl: "take 1 s = [c] \<Longrightarrow> length (skip (tl s)) < length s"
  by (rule le_less_trans [OF skip_rest tl_less])

lemma elements_shrink: "shrinks pv \<Longrightarrow> parse_elements pv n acc s = Parsed v r \<Longrightarrow> length r < length s"
proof (induction n arbitrary: acc s)
  case (Suc n)
  show ?case
  proof (cases "take 1 s = '',''")
    case True
    then obtain u t where u: "pv (skip (tl s)) = Parsed u t" "parse_elements pv n (acc @ [u]) (skip t) = Parsed v r"
      using Suc.prems(2) by (auto simp: pbind_parsed)
    have "length r < length (skip t)" by (rule Suc.IH [OF Suc.prems(1) u(2)])
    moreover have "length t < length (skip (tl s))" using u(1) Suc.prems(1) by (simp add: shrinks_def)
    ultimately show ?thesis using skip_rest [of t] skip_tl [OF True] by linarith
  qed (use Suc.prems(2) in \<open>auto split: if_split_asm dest!: take_nonempty\<close>)
qed simp

lemma array_shrinks: "shrinks pv \<Longrightarrow> shrinks (parse_array pv)"
  unfolding shrinks_def [of "parse_array pv"]
proof (intro allI impI)
  fix s v r assume pv: "shrinks pv" and s: "parse_array pv s = Parsed v r"
  then have c: "take 1 s = ''[''" by (auto simp: parse_array_def split: if_split_asm)
  show "length r < length s"
  proof (cases "take 1 (skip (tl s)) = '']''")
    case True
    have "r = tl (skip (tl s))" using True s c by (simp add: parse_array_def)
    then have "length r < length (skip (tl s))" using tl_less [OF True] by (simp only:)
    then show ?thesis using skip_tl [OF c] by linarith
  next
    case False
    then obtain u t where u: "pv (skip (skip (tl s))) = Parsed u t" "parse_elements pv (length s) [u] (skip t) = Parsed v r"
      using s c by (auto simp: parse_array_def pbind_parsed)
    have "length r < length (skip t)" by (rule elements_shrink [OF pv u(2)])
    moreover have "length t < length (skip (skip (tl s)))" using u(1) pv by (simp add: shrinks_def)
    ultimately show ?thesis using skip_rest [of t] skip_rest [of "skip (tl s)"] skip_tl [OF c] by linarith
  qed
qed

lemma member_shrinks: "shrinks pv \<Longrightarrow> shrinks (parse_member pv)"
  unfolding shrinks_def [of "parse_member pv"]
proof (intro allI impI)
  fix s v r assume pv: "shrinks pv" and s: "parse_member pv s = Parsed v r"
  then obtain key t u t2 where t: "parse_string s = Parsed key t" "take 1 (skip t) = '':''"
      "pv (skip (tl (skip t))) = Parsed u t2" "r = skip t2"
    by (auto simp: parse_member_def pbind_parsed split: if_split_asm)
  have "length t2 < length (skip (tl (skip t)))" using t(3) pv by (simp add: shrinks_def)
  then show "length r < length s"
    unfolding t(4) using parse_string_rest [OF t(1)] skip_tl [OF t(2)] skip_rest [of t] skip_rest [of t2] by linarith
qed

lemma members_shrink: "shrinks pv \<Longrightarrow> parse_members pv n acc s = Parsed v r \<Longrightarrow> length r < length s"
proof (induction n arbitrary: acc s)
  case (Suc n)
  show ?case
  proof (cases "take 1 s = '',''")
    case True
    then obtain u t where u: "parse_member pv (skip (tl s)) = Parsed u t" "parse_members pv n (acc @ [u]) t = Parsed v r"
      using Suc.prems(2) by (auto simp: pbind_parsed)
    have "length r < length t" by (rule Suc.IH [OF Suc.prems(1) u(2)])
    moreover have "length t < length (skip (tl s))" using u(1) member_shrinks [OF Suc.prems(1)] by (simp add: shrinks_def)
    ultimately show ?thesis using skip_tl [OF True] by linarith
  qed (use Suc.prems(2) in \<open>auto split: if_split_asm dest!: take_nonempty\<close>)
qed simp

lemma object_shrinks: "shrinks pv \<Longrightarrow> shrinks (parse_object pv)"
  unfolding shrinks_def [of "parse_object pv"]
proof (intro allI impI)
  fix s v r assume pv: "shrinks pv" and s: "parse_object pv s = Parsed v r"
  then have c: "take 1 s = ''{''" by (auto simp: parse_object_def split: if_split_asm)
  show "length r < length s"
  proof (cases "take 1 (skip (tl s)) = ''}''")
    case True
    have "r = tl (skip (tl s))" using True s c by (simp add: parse_object_def)
    then have "length r < length (skip (tl s))" using tl_less [OF True] by (simp only:)
    then show ?thesis using skip_tl [OF c] by linarith
  next
    case False
    then obtain u t where u: "parse_member pv (skip (skip (tl s))) = Parsed u t" "parse_members pv (length s) [u] t = Parsed v r"
      using s c by (auto simp: parse_object_def pbind_parsed)
    have "length r < length t" by (rule members_shrink [OF pv u(2)])
    moreover have "length t < length (skip (skip (tl s)))" using u(1) member_shrinks [OF pv] by (simp add: shrinks_def)
    ultimately show ?thesis using skip_rest [of "skip (tl s)"] skip_tl [OF c] by linarith
  qed
qed

lemma value_shrinks: "shrinks (parse_value fl f)"
proof (induction f)
  case 0
  show ?case by (simp add: shrinks_def)
next
  case (Suc f)
  show ?case
    unfolding shrinks_def
  proof (intro allI impI)
    fix s v r assume "parse_value fl (Suc f) s = Parsed v r"
    then show "length r < length s"
      using array_shrinks [OF Suc] object_shrinks [OF Suc] unfolding shrinks_def
      by (auto simp: pbind_parsed split: if_split_asm dest: parse_string_rest parse_number_rest dest!: take_nonempty)
  qed
qed

text \<open>Enough fuel, and more of it changes nothing.\<close>

definition ample :: "nat \<Rightarrow> (bytes \<Rightarrow> 'a parsed) \<Rightarrow> bool" where
  "ample k pv \<longleftrightarrow> (\<forall>s. length s < k \<longrightarrow> pv s \<noteq> Fuel_out)"

lemma elements_end: "shrinks pv \<Longrightarrow> ample k pv \<Longrightarrow> length s < n \<Longrightarrow> length s \<le> k \<Longrightarrow> parse_elements pv n acc s \<noteq> Fuel_out"
proof (induction n arbitrary: acc s)
  case (Suc n)
  show ?case
  proof (cases "take 1 s = '',''")
    case True
    note l = skip_tl [OF True]
    have "pv (skip (tl s)) \<noteq> Fuel_out" using Suc.prems(2,4) l by (simp add: ample_def)
    moreover have "parse_elements pv n (acc @ [u]) (skip t) \<noteq> Fuel_out" if "pv (skip (tl s)) = Parsed u t" for u t
    proof -
      have "length t < length (skip (tl s))" using that Suc.prems(1) by (simp add: shrinks_def)
      then show ?thesis using Suc.prems(3,4) l skip_rest [of t] by (intro Suc.IH [OF Suc.prems(1,2)]) linarith+
    qed
    ultimately show ?thesis using True by (auto simp: pbind_fuel)
  qed auto
qed simp

lemma array_ends: "shrinks pv \<Longrightarrow> ample k pv \<Longrightarrow> ample (Suc k) (parse_array pv)"
  unfolding ample_def [of "Suc k"]
proof (intro allI impI notI)
  fix s assume pv: "shrinks pv" "ample k pv" and s: "length s < Suc k" "parse_array pv s = Fuel_out"
  then have c: "take 1 s = ''[''" by (auto simp: parse_array_def split: if_split_asm)
  have l: "length (skip (skip (tl s))) < length s" using skip_tl [OF c] skip_rest [of "skip (tl s)"] by linarith
  then have "pv (skip (skip (tl s))) \<noteq> Fuel_out" using pv(2) s(1) by (simp add: ample_def)
  then obtain u t where u: "pv (skip (skip (tl s))) = Parsed u t" "parse_elements pv (length s) [u] (skip t) = Fuel_out"
    using s(2) c by (auto simp: parse_array_def Let_def pbind_fuel split: if_split_asm)
  have "length t < length (skip (skip (tl s)))" using u(1) pv(1) by (simp add: shrinks_def)
  with l s(1) skip_rest [of t] have "length (skip t) < length s" "length (skip t) \<le> k" by linarith+
  from elements_end [OF pv this] u(2) show False by simp
qed

lemma member_ends: "ample k pv \<Longrightarrow> ample k (parse_member pv)"
  unfolding ample_def [of k "parse_member pv"]
proof (intro allI impI notI)
  fix s assume pv: "ample k pv" and s: "length s < k" "parse_member pv s = Fuel_out"
  have "parse_string s \<noteq> Fuel_out" by (auto simp: parse_string_def split: option.split sum.split)
  then obtain key t where t: "parse_string s = Parsed key t" "take 1 (skip t) = '':''" "pv (skip (tl (skip t))) = Fuel_out"
    using s(2) by (auto simp: parse_member_def pbind_fuel split: if_split_asm)
  have "length (skip (tl (skip t))) < k"
    using parse_string_rest [OF t(1)] skip_tl [OF t(2)] skip_rest [of t] s(1) by linarith
  with pv t(3) show False by (simp add: ample_def)
qed

lemma members_end: "shrinks pv \<Longrightarrow> ample k pv \<Longrightarrow> length s < n \<Longrightarrow> length s \<le> k \<Longrightarrow> parse_members pv n acc s \<noteq> Fuel_out"
proof (induction n arbitrary: acc s)
  case (Suc n)
  show ?case
  proof (cases "take 1 s = '',''")
    case True
    note l = skip_tl [OF True]
    have "parse_member pv (skip (tl s)) \<noteq> Fuel_out" using member_ends [OF Suc.prems(2)] Suc.prems(4) l by (simp add: ample_def)
    moreover have "parse_members pv n (acc @ [u]) t \<noteq> Fuel_out" if "parse_member pv (skip (tl s)) = Parsed u t" for u t
    proof -
      have "length t < length (skip (tl s))" using that member_shrinks [OF Suc.prems(1)] by (simp add: shrinks_def)
      then show ?thesis using Suc.prems(3,4) l by (intro Suc.IH [OF Suc.prems(1,2)]) linarith+
    qed
    ultimately show ?thesis using True by (auto simp: pbind_fuel)
  qed auto
qed simp

lemma object_ends: "shrinks pv \<Longrightarrow> ample k pv \<Longrightarrow> ample (Suc k) (parse_object pv)"
  unfolding ample_def [of "Suc k"]
proof (intro allI impI notI)
  fix s assume pv: "shrinks pv" "ample k pv" and s: "length s < Suc k" "parse_object pv s = Fuel_out"
  then have c: "take 1 s = ''{''" by (auto simp: parse_object_def split: if_split_asm)
  have l: "length (skip (skip (tl s))) < length s" using skip_tl [OF c] skip_rest [of "skip (tl s)"] by linarith
  then have "parse_member pv (skip (skip (tl s))) \<noteq> Fuel_out" using member_ends [OF pv(2)] s(1) by (simp add: ample_def)
  then obtain u t where u: "parse_member pv (skip (skip (tl s))) = Parsed u t" "parse_members pv (length s) [u] t = Fuel_out"
    using s(2) c by (auto simp: parse_object_def Let_def pbind_fuel split: if_split_asm)
  have "length t < length (skip (skip (tl s)))" using u(1) member_shrinks [OF pv(1)] by (simp add: shrinks_def)
  with l s(1) have "length t < length s" "length t \<le> k" by linarith+
  from members_end [OF pv this] u(2) show False by simp
qed

lemma let_not_fuel: "(\<And>x. f x \<noteq> Fuel_out) \<Longrightarrow> Let a f \<noteq> Fuel_out"
  by (simp add: Let_def)

lemma value_ends: "ample f (parse_value fl f)"
proof (induction f)
  case 0
  show ?case by (simp add: ample_def)
next
  case (Suc f)
  have str: "parse_string s \<noteq> Fuel_out" for s by (auto simp: parse_string_def split: option.split sum.split)
  have num: "parse_number fl s \<noteq> Fuel_out" for s
    unfolding parse_number_def by (intro let_not_fuel) (simp split: prod.split option.split)
  show ?case
    unfolding ample_def
  proof (intro allI impI)
    fix s :: bytes assume "length s < Suc f"
    then have "parse_array (parse_value fl f) s \<noteq> Fuel_out" "parse_object (parse_value fl f) s \<noteq> Fuel_out"
      using array_ends [OF value_shrinks Suc] object_ends [OF value_shrinks Suc] unfolding ample_def by blast+
    with str [of s] num [of s] show "parse_value fl (Suc f) s \<noteq> Fuel_out" by (simp add: pbind_fuel)
  qed
qed

text \<open>What more fuel keeps.\<close>

definition extends :: "(bytes \<Rightarrow> 'a parsed) \<Rightarrow> (bytes \<Rightarrow> 'a parsed) \<Rightarrow> bool" where
  "extends pv pw \<longleftrightarrow> (\<forall>s. pv s \<noteq> Fuel_out \<longrightarrow> pw s = pv s)"

lemma pbind_extends: "(p \<noteq> Fuel_out \<longrightarrow> q = p) \<Longrightarrow> (\<And>u t. f u t \<noteq> Fuel_out \<longrightarrow> g u t = f u t) \<Longrightarrow>
    pbind p f \<noteq> Fuel_out \<longrightarrow> pbind q g = pbind p f"
  by (cases p) auto

lemma elements_extend: "extends pv pw \<Longrightarrow> parse_elements pv n acc s \<noteq> Fuel_out \<longrightarrow> parse_elements pw n acc s = parse_elements pv n acc s"
proof (induction n arbitrary: acc s)
  case (Suc n)
  have "pbind (pv t) (\<lambda>v r. parse_elements pv n (acc @ [v]) (skip r)) \<noteq> Fuel_out \<longrightarrow>
      pbind (pw t) (\<lambda>v r. parse_elements pw n (acc @ [v]) (skip r)) = pbind (pv t) (\<lambda>v r. parse_elements pv n (acc @ [v]) (skip r))" for t
    by (rule pbind_extends) (use Suc in \<open>simp_all add: extends_def\<close>)
  then show ?case by simp
qed simp

lemma member_extends: "extends pv pw \<Longrightarrow> extends (parse_member pv) (parse_member pw)"
  unfolding extends_def [of "parse_member pv"] parse_member_def
  by (intro allI pbind_extends) (auto simp: extends_def intro: pbind_extends [THEN mp])

lemma members_extend: "extends pv pw \<Longrightarrow> parse_members pv n acc s \<noteq> Fuel_out \<longrightarrow> parse_members pw n acc s = parse_members pv n acc s"
proof (induction n arbitrary: acc s)
  case (Suc n)
  have "pbind (parse_member pv t) (\<lambda>v r. parse_members pv n (acc @ [v]) r) \<noteq> Fuel_out \<longrightarrow>
      pbind (parse_member pw t) (\<lambda>v r. parse_members pw n (acc @ [v]) r) = pbind (parse_member pv t) (\<lambda>v r. parse_members pv n (acc @ [v]) r)" for t
    by (rule pbind_extends) (use Suc member_extends [OF Suc.prems] in \<open>simp_all add: extends_def\<close>)
  then show ?case by simp
qed simp

lemma array_extends: "extends pv pw \<Longrightarrow> extends (parse_array pv) (parse_array pw)"
proof -
  assume e: "extends pv pw"
  have "pbind (pv t) (\<lambda>v r. parse_elements pv n [v] (skip r)) \<noteq> Fuel_out \<longrightarrow>
      pbind (pw t) (\<lambda>v r. parse_elements pw n [v] (skip r)) = pbind (pv t) (\<lambda>v r. parse_elements pv n [v] (skip r))" for t n
    by (rule pbind_extends) (use e elements_extend in \<open>simp_all add: extends_def\<close>)
  then show ?thesis by (simp add: extends_def parse_array_def Let_def)
qed

lemma object_extends: "extends pv pw \<Longrightarrow> extends (parse_object pv) (parse_object pw)"
proof -
  assume e: "extends pv pw"
  have "pbind (parse_member pv t) (\<lambda>v r. parse_members pv n [v] r) \<noteq> Fuel_out \<longrightarrow>
      pbind (parse_member pw t) (\<lambda>v r. parse_members pw n [v] r) = pbind (parse_member pv t) (\<lambda>v r. parse_members pv n [v] r)" for t n
    by (rule pbind_extends) (use member_extends [OF e] members_extend [OF e] in \<open>simp_all add: extends_def\<close>)
  then show ?thesis by (simp add: extends_def parse_object_def Let_def)
qed

lemma value_extends: "extends (parse_value fl f) (parse_value fl (Suc f))"
proof (induction f)
  case 0
  show ?case by (simp add: extends_def)
next
  case (Suc f)
  note array_extends [OF Suc] object_extends [OF Suc]
  then show ?case unfolding extends_def parse_value.simps(2) by simp
qed

lemma value_more: "f \<le> g \<Longrightarrow> extends (parse_value fl f) (parse_value fl g)"
proof (induction rule: dec_induct)
  case base
  show ?case by (simp add: extends_def)
next
  case (step n)
  with value_extends [of fl n] show ?case unfolding extends_def by metis
qed

lemma parse_value_fuel: "length s < f \<Longrightarrow> parse_value fl f (skip (c_str s)) = cJSON_Parse fl s \<and> cJSON_Parse fl s \<noteq> Fuel_out"
proof -
  assume f: "length s < f"
  have "length (skip (c_str s)) < length s + 1"
    using skip_rest [of "c_str s"] length_takeWhile_le [of "\<lambda>c. c \<noteq> kNul" s] by (simp add: c_str_def)
  then have "cJSON_Parse fl s \<noteq> Fuel_out"
    using value_ends [of "length s + 1" fl] unfolding cJSON_Parse_def ample_def by blast
  moreover have "extends (parse_value fl (length s + 1)) (parse_value fl f)" using f by (intro value_more) simp
  ultimately show ?thesis unfolding extends_def cJSON_Parse_def by blast
qed

section \<open>Printed numbers\<close>

text \<open>What may follow a value: the end, white space, a comma or a closing bracket.\<close>

definition stops :: "bytes \<Rightarrow> bool" where
  "stops r \<longleftrightarrow> r = [] \<or> code (hd r) \<le> 32 \<or> hd r \<in> {CHR '','', CHR '']'', CHR ''}''}"

lemma schar_code: "schar c = (if code c < 128 then int (code c) else int (code c) - 256)"
proof -
  have "(of_char c :: int) = int (code c)" by (simp add: code_def of_nat_of_char)
  then show ?thesis by (simp add: schar_def Let_def)
qed

lemma stops_plain:
  assumes "stops r"
  shows "takeWhile is_digit r = []" "take 1 r \<noteq> ''0''" "take 1 r \<noteq> ''.''" "take 1 r \<noteq> ''e''" "take 1 r \<noteq> ''E''"
proof -
  have small: "\<not> is_digit c \<and> c \<noteq> CHR ''0'' \<and> c \<noteq> CHR ''.'' \<and> c \<noteq> CHR ''e'' \<and> c \<noteq> CHR ''E''" if "code c \<le> 32" for c
    using that by (auto simp: is_digit_def schar_code) (simp_all add: code_def)
  show "takeWhile is_digit r = []"
    using assms small by (cases r) (auto simp: stops_def is_digit_def schar_def)
  show "take 1 r \<noteq> ''0''" "take 1 r \<noteq> ''.''" "take 1 r \<noteq> ''e''" "take 1 r \<noteq> ''E''"
    using assms small by (cases r; auto simp: stops_def)+
qed

lemma decimal_head: "0 < n \<Longrightarrow> take 1 (decimal n) \<noteq> ''0''"
proof (induction n rule: decimal.induct)
  case (1 n)
  show ?case
  proof (cases "n < 10")
    case True
    have "\<forall>k \<in> set [1..<10]. char_of (48 + k) \<noteq> CHR ''0''" by code_simp
    with True 1(2) show ?thesis by (subst decimal.simps) auto
  next
    case False
    then have "take 1 (decimal (n div 10)) \<noteq> ''0''" "decimal (n div 10) \<noteq> []"
      using 1 decimal_digits [of "n div 10"] by (auto simp: digits_def)
    then show ?thesis using False by (subst decimal.simps) (cases "decimal (n div 10)", auto)
  qed
qed

lemma parse_digits:
  assumes "stops r" and "n < 2 ^ 63" and "s = (if neg then ''-'' else []) @ decimal n @ r"
  shows "parse_number fl s = Parsed (JInt (if neg then - 1 else 1) ((if neg then - 1 else 1) * int n) (from_int fl (if neg then - 1 else 1) (int n))) r"
proof -
  have d: "decimal n \<noteq> []" "\<forall>c \<in> set (decimal n). is_digit c" "digits_value 10 0 (decimal n) = int n"
    using decimal_digits [of n] by (auto simp: digits_def is_digit_def)
  then have "take 1 (decimal n) \<noteq> ''-''" by (cases "decimal n") auto
  then have "take 1 s = ''-'' \<longleftrightarrow> neg" using d(1) assms(3) by (cases "decimal n") auto
  then have s1: "(if take 1 s = ''-'' then tl s else s) = decimal n @ r" using assms(3) by simp
  note r = stops_plain [OF assms(1)]
  define s2 where "s2 = (if take 1 (decimal n @ r) = ''0'' then tl (decimal n @ r) else decimal n @ r)"
  define ds where "ds = (if take 1 s2 = ''0'' then [] else takeWhile is_digit s2)"
  have ds: "digits_value 10 0 ds = int n \<and> drop (length ds) s2 = r"
  proof (cases "n = 0")
    case True
    have "decimal 0 = ''0''" by code_simp
    with True r show ?thesis by (simp add: s2_def ds_def)
  next
    case False
    then have "take 1 (decimal n @ r) \<noteq> ''0''" using decimal_head [of n] d(1) by (cases "decimal n") auto
    then have "s2 = decimal n @ r" "take 1 s2 \<noteq> ''0''" by (simp_all add: s2_def)
    then have "ds = decimal n" using d(2) r(1) by (simp add: ds_def takeWhile_append2)
    with d(3) \<open>s2 = decimal n @ r\<close> show ?thesis by simp
  qed
  have neg: "(if take 1 s = ''-'' then - 1 else 1 :: int) = (if neg then - 1 else 1)" using \<open>take 1 s = ''-'' \<longleftrightarrow> neg\<close> by simp
  show ?thesis
    unfolding parse_number_def s1 neg Let_def s2_def [symmetric] ds_def [symmetric]
    using ds r assms(2) by simp
qed

section \<open>The parser always returns\<close>

text \<open>
  C29: \<open>cJSON_Parse\<close> (cJSON.c) returns on every text, well-formed or not: with a tree, with a
  null pointer, or in one of the undefined cases the model names. The nesting of arrays and
  objects never exceeds the number of bytes, so a recursion bounded by more than the length
  of the text computes what the unbounded one does, for each such bound; and what a value,
  an array, an object or a member leaves is always shorter than what it was given.
\<close>

theorem parse_returns:
  assumes "length s < f"
  shows "cJSON_Parse fl s \<noteq> Fuel_out \<and> parse_value fl f (skip (c_str s)) = cJSON_Parse fl s
    \<and> (\<forall>v r. cJSON_Parse fl s = Parsed v r \<longrightarrow> length r < length s)"
proof -
  have "length r < length s" if "cJSON_Parse fl s = Parsed v r" for v r
  proof -
    have "length r < length (skip (c_str s))"
      using that value_shrinks [of fl "length s + 1"] unfolding cJSON_Parse_def shrinks_def by blast
    also have "\<dots> \<le> length (c_str s)" by (rule skip_rest)
    also have "\<dots> \<le> length s" unfolding c_str_def by (rule length_takeWhile_le)
    finally show ?thesis .
  qed
  with parse_value_fuel [OF assms] show ?thesis by blast
qed

text \<open>An instance to evaluate with: doubles that are integers.\<close>

definition plain_floats :: "int floats" where
  "plain_floats = \<lparr>from_int = (\<lambda>sign n. sign * n), from_text = (\<lambda>sign ds e. (0, None)), show_f = (\<lambda>d. signed_text d)\<rparr>"

lemma parse_returns_witness:
  "cJSON_Parse plain_floats (replicate 1000 CHR ''['') \<noteq> Fuel_out
    \<and> parse_value plain_floats 5000 (skip (c_str (replicate 1000 CHR ''[''))) = cJSON_Parse plain_floats (replicate 1000 CHR ''['')"
  using parse_returns [of "replicate 1000 CHR ''[''" 5000 plain_floats] by (simp only: length_replicate) blast

end
