(* ===== verification/JsonRoundtrip.thy ===== *)
theory JsonRoundtrip
  imports Json
begin

text \<open>
  What \<open>cJSON_Parse\<close> makes of the text that \<open>cJSON_Print\<close> and \<open>cJSON_PrintUnformatted\<close> produce.
  Doubles are left out: \<open>%f\<close> keeps six digits behind the point.
\<close>

section \<open>Trees that print and parse\<close>

text \<open>
  A tree without doubles, as the functions of \<open>cJSON.c\<close> build it: values have no children, the
  members of objects have names and the elements of arrays have none. An \<open>int64\<close> may go with
  any sign and any double; only the least one with the sign -1 is left out, whose text is not
  in the range that \<open>parse_number\<close> can convert.
\<close>

fun json_ok :: "(unit, 'd) cJSON \<Rightarrow> bool" where
  "json_ok (CJson a t cs nm) \<longleftrightarrow>
     (case t of
        JInt sign v d \<Rightarrow> cs = [] \<and> - (2 ^ 63) \<le> v \<and> v < 2 ^ 63 \<and> (sign = - 1 \<longrightarrow> v \<noteq> - (2 ^ 63))
      | JDouble sign v d \<Rightarrow> False
      | JString s \<Rightarrow> cs = [] \<and> no_nul s
      | JArray \<Rightarrow> (\<forall>c \<in> set cs. jstring c = None \<and> json_ok c)
      | JObject \<Rightarrow> (\<forall>c \<in> set cs. (\<exists>k. jstring c = Some k \<and> no_nul k) \<and> json_ok c)
      | _ \<Rightarrow> cs = [])"

text \<open>
  The number \<open>print_int\<close> writes for a value, and the tree with every integer as a parse makes it
  of this number: the sign is that of the number, and the double is equal to it.
\<close>

definition printed_int :: "int \<Rightarrow> int \<Rightarrow> int" where
  "printed_int sign v = (if sign = - 1 \<or> 2 ^ 32 \<le> v then v else v mod 2 ^ 32)"

definition int_of_value :: "'d floats \<Rightarrow> int \<Rightarrow> 'd jtype" where
  "int_of_value fl w = (let sign = (if w < 0 then - 1 else 1) in JInt sign w (from_int fl sign \<bar>w\<bar>))"

fun read_back :: "'d floats \<Rightarrow> (unit, 'd) cJSON \<Rightarrow> (unit, 'd) cJSON" where
  "read_back fl (CJson a t cs nm) =
     CJson a (case t of JInt sign v d \<Rightarrow> int_of_value fl (printed_int sign v) | _ \<Rightarrow> t) (map (read_back fl) cs) nm"

text \<open>A tree that is already as a parse makes it.\<close>

fun json_normal :: "'d floats \<Rightarrow> (unit, 'd) cJSON \<Rightarrow> bool" where
  "json_normal fl (CJson a t cs nm) \<longleftrightarrow>
     (case t of
        JInt sign v d \<Rightarrow> cs = [] \<and> (sign = 1 \<and> 0 \<le> v \<or> sign = - 1 \<and> v < 0) \<and> \<bar>v\<bar> < 2 ^ 63 \<and> d = from_int fl sign \<bar>v\<bar>
      | JDouble sign v d \<Rightarrow> False
      | JString s \<Rightarrow> cs = [] \<and> no_nul s
      | JArray \<Rightarrow> (\<forall>c \<in> set cs. jstring c = None \<and> json_normal fl c)
      | JObject \<Rightarrow> (\<forall>c \<in> set cs. (\<exists>k. jstring c = Some k \<and> no_nul k) \<and> json_normal fl c)
      | _ \<Rightarrow> cs = [])"

lemma read_back_jstring [simp]: "jstring (read_back fl c) = jstring c"
  by (cases c) simp

lemma read_back_normal: "json_ok c \<Longrightarrow> json_normal fl (read_back fl c)"
proof (induction c)
  case (CJson a t cs nm)
  show ?case
  proof (cases t)
    case (JInt sign v d)
    have "0 \<le> v mod 2 ^ 32" "v mod 2 ^ 32 < 2 ^ 32" by simp_all
    then have "\<bar>printed_int sign v\<bar> < 2 ^ 63" using CJson.prems JInt by (auto simp: printed_int_def)
    then show ?thesis using CJson.prems JInt by (simp add: int_of_value_def Let_def)
  qed (use CJson in auto)
qed

lemma normal_read_back: "json_normal fl c \<Longrightarrow> read_back fl c = c"
proof (induction c)
  case (CJson a t cs nm)
  have ch: "map (read_back fl) cs = cs" if "\<forall>c \<in> set cs. json_normal fl c"
    using that CJson.IH by (simp add: map_idI)
  show ?case
  proof (cases t)
    case (JInt sign v d)
    then show ?thesis using CJson.prems by (auto simp: int_of_value_def printed_int_def Let_def)
  qed (use CJson.prems ch in auto)
qed

lemma print_int_of_value:
  "- (2 ^ 63) \<le> v \<Longrightarrow> v < 2 ^ 63 \<Longrightarrow>
     print_int (if printed_int sign v < 0 then - 1 else 1) (printed_int sign v) = print_int sign v"
  by (auto simp: print_int_def printed_int_def signed_text_def)

lemma print_read_back:
  fixes c :: "(unit, 'd) cJSON" and cs :: "(unit, 'd) cJSON list"
  shows "json_ok c \<Longrightarrow> print_value fl fmt depth (read_back gl c) = print_value fl fmt depth c"
    and "\<forall>c \<in> set cs. json_ok c \<Longrightarrow> print_array fl fmt depth (map (read_back gl) cs) = print_array fl fmt depth cs"
    and "\<forall>c \<in> set cs. json_ok c \<Longrightarrow> print_object fl fmt depth (map (read_back gl) cs) = print_object fl fmt depth cs"
  by (induction fl fmt depth c and fl fmt depth cs and fl fmt depth cs rule: print_value_print_array_print_object.induct)
     (simp_all add: int_of_value_def Let_def print_int_of_value)

fun nameless :: "('a, 'd) cJSON \<Rightarrow> ('a, 'd) cJSON" where
  "nameless (CJson a t cs nm) = CJson a t cs None"

text \<open>The text of a tree: where a value may stand, it begins as one and is read back.\<close>

definition begins :: "bytes \<Rightarrow> bool" where
  "begins s \<longleftrightarrow> s \<noteq> [] \<and> 32 < code (hd s) \<and> hd s \<noteq> CHR '']'' \<and> hd s \<noteq> CHR ''}''"

definition reads_as :: "'d floats \<Rightarrow> (unit, 'd) cJSON \<Rightarrow> bytes \<Rightarrow> bool" where
  "reads_as fl c s \<longleftrightarrow> begins s \<and> no_nul s
     \<and> (\<forall>f r. size c \<le> f \<longrightarrow> stops r \<longrightarrow> parse_value fl f (s @ r) = Parsed (nameless c) r)"

section \<open>Skipping\<close>

lemma skip_stop: "r \<noteq> [] \<Longrightarrow> 32 < code (hd r) \<Longrightarrow> skip r = r"
  by (cases r) (auto simp: skip_def)

lemma skip_begins: "begins s \<Longrightarrow> skip (s @ r) = s @ r"
  by (rule skip_stop) (auto simp: begins_def)

lemma skip_blank: "\<forall>c \<in> set w. code c \<le> 32 \<Longrightarrow> skip (w @ r) = skip r"
  by (simp add: skip_def dropWhile_append2)

lemma code_eqs: "code (CHR 0x09) = 9" "code (CHR 0x0A) = 10" "code (CHR '' '') = 32" "code (CHR '','') = 44" "code (CHR '']'') = 93"
  "code (CHR ''}'') = 125" "code quote = 34" "code (CHR '':'') = 58" "code (CHR ''['') = 91" "code (CHR ''{'') = 123" "code (CHR ''-'') = 45"
  by (simp_all add: code_def)

lemma tabs_blank: "c \<in> set (tabs n) \<Longrightarrow> code c \<le> 32"
  by (simp add: tabs_def code_eqs)

section \<open>Arrays\<close>

lemma join_concat: "join sep (e # es) = e @ concat (map (\<lambda>x. sep @ x) es)"
  by (induction es arbitrary: e) simp_all

lemma append_comma: "(@) (c # w) = (\<lambda>x. c # w @ x)"
  by (rule ext) simp

lemma elements_read:
  assumes "list_all2 (reads_as fl) cs es" and "\<forall>c \<in> set cs. size c \<le> f" and "length es < n" and "\<forall>c \<in> set w. code c \<le> 32"
  shows "parse_elements (parse_value fl f) n acc (concat (map (\<lambda>x. ('','' @ w) @ x) es) @ '']'' @ r)
     = Parsed (CJson () JArray (acc @ map nameless cs) None) r"
  using assms
proof (induction cs es arbitrary: n acc rule: list_all2_induct)
  case Nil
  then show ?case by (cases n) auto
next
  case (Cons c cs e es)
  obtain m where n: "n = Suc m" using Cons.prems(2) by (cases n) auto
  let ?rest = "concat (map (\<lambda>x. ('','' @ w) @ x) es) @ '']'' @ r"
  have st: "stops ?rest" "skip ?rest = ?rest"
    by (cases es; simp add: stops_def skip_def code_eqs)+
  have "skip (w @ e @ ?rest) = e @ ?rest"
    using Cons.hyps(1) Cons.prems(3) by (simp add: skip_blank skip_begins reads_as_def)
  moreover have "parse_value fl f (e @ ?rest) = Parsed (nameless c) ?rest"
    using Cons.hyps(1) Cons.prems(1) st(1) by (simp add: reads_as_def)
  moreover have "parse_elements (parse_value fl f) m (acc @ [nameless c]) ?rest
      = Parsed (CJson () JArray ((acc @ [nameless c]) @ map nameless cs) None) r"
    by (rule Cons.IH) (use Cons.prems n in auto)
  ultimately show ?case using st(2) by (simp add: n)
qed

lemma array_reads:
  assumes "list_all2 (reads_as fl) cs es" and "\<forall>c \<in> set cs. size c \<le> f" and "\<forall>c \<in> set w. code c \<le> 32"
  shows "parse_array (parse_value fl f) (''['' @ join ('','' @ w) es @ '']'' @ r) = Parsed (CJson () JArray (map nameless cs) None) r"
proof (cases es)
  case Nil
  then show ?thesis using assms(1) by (simp add: parse_array_def skip_def code_eqs)
next
  case (Cons e es')
  then obtain c cs' where cs: "cs = c # cs'" "reads_as fl c e" "list_all2 (reads_as fl) cs' es'"
    using assms(1) by (cases cs) auto
  define rest where "rest = concat (map (\<lambda>x. ('','' @ w) @ x) es') @ '']'' @ r"
  define str where "str = ''['' @ join ('','' @ w) es @ '']'' @ r"
  have st: "stops rest" "skip rest = rest"
    unfolding rest_def by (cases es'; simp add: stops_def skip_def code_eqs)+
  have b: "begins e" using cs(2) by (simp add: reads_as_def)
  then have sk: "skip (e @ rest) = e @ rest" "take 1 (e @ rest) \<noteq> '']''"
    by (rule skip_begins) (use b in \<open>cases e; simp add: begins_def\<close>)
  have v: "parse_value fl f (e @ rest) = Parsed (nameless c) rest"
    using cs(2) assms(2) st(1) by (simp add: reads_as_def cs(1))
  have "length es' \<le> length (concat (map (\<lambda>x. ('','' @ w) @ x) es'))"
    by (induction es') auto
  then have n: "length es' < length str"
    unfolding str_def Cons join_concat by (simp add: append_comma)
  have el: "parse_elements (parse_value fl f) (length str) [nameless c] rest
      = Parsed (CJson () JArray ([nameless c] @ map nameless cs') None) r"
    unfolding rest_def by (rule elements_read [OF cs(3) _ n assms(3)]) (use assms(2) in \<open>simp add: cs(1)\<close>)
  have t: "str = CHR ''['' # e @ rest"
    unfolding str_def rest_def Cons join_concat by (simp add: append_comma)
  have "parse_array (parse_value fl f) str = pbind (parse_value fl f (e @ rest)) (\<lambda>v r. parse_elements (parse_value fl f) (length str) [v] (skip r))"
    using sk by (simp add: parse_array_def t)
  then have "parse_array (parse_value fl f) str = Parsed (CJson () JArray (map nameless cs) None) r"
    using el by (simp add: v st(2) cs(1))
  then show ?thesis by (simp only: str_def)
qed

section \<open>Objects\<close>

text \<open>What follows a member: the comma and the white space in front of the next one, or the end.\<close>

definition member_ok :: "'d floats \<Rightarrow> (unit, 'd) cJSON \<Rightarrow> bytes \<times> bytes \<Rightarrow> bool" where
  "member_ok fl c ne \<longleftrightarrow> (\<exists>k. jstring c = Some k \<and> no_nul k \<and> fst ne = quote # print_chars k @ [quote]) \<and> reads_as fl c (snd ne)"

definition after_member :: "bool \<Rightarrow> nat \<Rightarrow> (bytes \<times> bytes) list \<Rightarrow> bytes \<Rightarrow> bytes" where
  "after_member fmt depth es r = (if es \<noteq> [] then '','' else []) @ (if fmt then [CHR 0x0A] else []) @ object_lines fmt depth es
     @ (if fmt then tabs (depth - 1) else []) @ ''}'' @ r"

definition member_text :: "bool \<Rightarrow> bytes \<times> bytes \<Rightarrow> bytes" where
  "member_text fmt ne = fst ne @ '':'' @ (if fmt then [CHR 0x09] else []) @ snd ne"

lemma after_Cons: "after_member fmt depth (ne # es) r =
    '','' @ (if fmt then [CHR 0x0A] @ tabs depth else []) @ member_text fmt ne @ after_member fmt depth es r"
  by (cases ne) (simp add: after_member_def member_text_def)

lemma after_stops: "stops (after_member fmt depth es r)"
  by (cases es) (auto simp: after_member_def stops_def tabs_def code_eqs)

lemma after_skip: "skip (after_member fmt depth [] r) = ''}'' @ r" "skip (after_member fmt depth (ne # es) r) = after_member fmt depth (ne # es) r"
proof -
  have "skip (([CHR 0x0A] @ tabs (depth - 1)) @ ''}'' @ r) = skip (''}'' @ r)"
    by (rule skip_blank) (auto simp: code_eqs tabs_blank)
  moreover have "skip (''}'' @ r) = ''}'' @ r" by (rule skip_stop) (simp_all add: code_eqs)
  ultimately show "skip (after_member fmt depth [] r) = ''}'' @ r" by (simp add: after_member_def)
  show "skip (after_member fmt depth (ne # es) r) = after_member fmt depth (ne # es) r"
    by (rule skip_stop) (simp_all add: after_Cons code_eqs)
qed

lemma member_reads:
  assumes "member_ok fl c ne" and "size c \<le> f" and "stops r"
  shows "parse_member (parse_value fl f) (member_text fmt ne @ r) = Parsed c (skip r)"
proof -
  obtain k where k: "jstring c = Some k" "no_nul k" "fst ne = quote # print_chars k @ [quote]" and e: "reads_as fl c (snd ne)"
    using assms(1) by (auto simp: member_ok_def)
  let ?t = "(if fmt then [CHR 0x09] else []) @ snd ne @ r"
  have "parse_string (member_text fmt ne @ r) = Parsed k ('':'' @ ?t)"
    using parse_printed [OF k(2), of "'':'' @ ?t"] by (simp add: member_text_def k(3))
  moreover have "skip ('':'' @ ?t) = '':'' @ ?t" by (rule skip_stop) (simp_all add: code_eqs)
  moreover have "skip ?t = snd ne @ r"
    using skip_blank [of "[CHR 0x09]" "snd ne @ r"] skip_begins [of "snd ne" r] e by (auto simp: reads_as_def code_eqs)
  moreover have "parse_value fl f (snd ne @ r) = Parsed (nameless c) r" using e assms(2,3) by (simp add: reads_as_def)
  moreover have "named k (nameless c) = c" using k(1) by (cases c) simp
  ultimately show ?thesis by (simp add: parse_member_def)
qed

lemma member_text_begins: "member_ok fl c ne \<Longrightarrow> skip (member_text fmt ne @ r) = member_text fmt ne @ r \<and> take 1 (member_text fmt ne @ r) \<noteq> ''}''"
  by (auto simp: member_ok_def member_text_def code_eqs intro!: skip_stop)

lemma members_read:
  assumes "list_all2 (member_ok fl) cs es" and "\<forall>c \<in> set cs. size c \<le> f" and "length es < n"
  shows "parse_members (parse_value fl f) n acc (skip (after_member fmt depth es r)) = Parsed (CJson () JObject (acc @ cs) None) r"
  using assms
proof (induction cs es arbitrary: n acc rule: list_all2_induct)
  case Nil
  then show ?case by (cases n) (auto simp: after_skip)
next
  case (Cons c cs ne es)
  obtain m where n: "n = Suc m" using Cons.prems(2) by (cases n) auto
  let ?rest = "after_member fmt depth es r" and ?w = "if fmt then [CHR 0x0A] @ tabs depth else []"
  have "\<forall>c \<in> set ?w. code c \<le> 32" by (auto simp: code_eqs tabs_blank)
  then have "skip (?w @ member_text fmt ne @ ?rest) = member_text fmt ne @ ?rest"
    using member_text_begins [OF Cons.hyps(1), of fmt ?rest] skip_blank by simp
  moreover have "parse_member (parse_value fl f) (member_text fmt ne @ ?rest) = Parsed c (skip ?rest)"
    by (rule member_reads [OF Cons.hyps(1) _ after_stops]) (use Cons.prems(1) in simp)
  moreover have "parse_members (parse_value fl f) m (acc @ [c]) (skip ?rest) = Parsed (CJson () JObject ((acc @ [c]) @ cs) None) r"
    by (rule Cons.IH) (use Cons.prems n in auto)
  ultimately show ?case unfolding after_skip(2) unfolding after_Cons by (simp add: n)
qed

lemma object_reads:
  assumes "list_all2 (member_ok fl) cs es" and "\<forall>c \<in> set cs. size c \<le> f"
  shows "parse_object (parse_value fl f) (''{'' @ (if fmt then [CHR 0x0A] else []) @ object_lines fmt depth es
       @ (if fmt then tabs (depth - 1) else []) @ ''}'' @ r) = Parsed (CJson () JObject cs None) r"
proof (cases es)
  case Nil
  then show ?thesis using assms(1) after_skip(1) [of fmt depth r] by (simp add: parse_object_def after_member_def)
next
  case (Cons ne es')
  then obtain c cs' where cs: "cs = c # cs'" "member_ok fl c ne" "list_all2 (member_ok fl) cs' es'"
    using assms(1) by (cases cs) auto
  let ?rest = "after_member fmt depth es' r" and ?w = "if fmt then [CHR 0x0A] @ tabs depth else []"
  let ?text = "''{'' @ (if fmt then [CHR 0x0A] else []) @ object_lines fmt depth es @ (if fmt then tabs (depth - 1) else []) @ ''}'' @ r"
  have t: "?text = CHR ''{'' # ?w @ member_text fmt ne @ ?rest"
    unfolding Cons by (cases ne) (simp add: after_member_def member_text_def)
  have "\<forall>c \<in> set ?w. code c \<le> 32" by (auto simp: code_eqs tabs_blank)
  then have sk: "skip (?w @ member_text fmt ne @ ?rest) = member_text fmt ne @ ?rest"
    using member_text_begins [OF cs(2), of fmt ?rest] skip_blank by simp
  have m: "parse_member (parse_value fl f) (member_text fmt ne @ ?rest) = Parsed c (skip ?rest)"
    by (rule member_reads [OF cs(2) _ after_stops]) (use assms(2) in \<open>simp add: cs(1)\<close>)
  have lines: "length es \<le> length (object_lines fmt depth es)" by (induction fmt depth es rule: object_lines.induct) auto
  then have n: "length es' < length ?text" unfolding Cons by simp
  have "parse_members (parse_value fl f) (length ?text) [c] (skip ?rest) = Parsed (CJson () JObject ([c] @ cs') None) r"
    by (rule members_read [OF cs(3) _ n]) (use assms(2) in \<open>simp add: cs(1)\<close>)
  with sk m member_text_begins [OF cs(2), of fmt ?rest] show ?thesis
    unfolding parse_object_def t by (simp add: cs(1))
qed

section \<open>Every text fits\<close>

lemma join_length: "length (join sep es) \<le> sum_list (map (\<lambda>e. length e + length sep) es)"
  by (induction sep es rule: join.induct) auto

lemma compose_array_fits: "compose_array fmt es = Inr (''['' @ join ('','' @ (if fmt then '' '' else [])) es @ '']'')"
proof -
  have "length (join ('','' @ (if fmt then '' '' else [])) es) \<le> sum_list (map (\<lambda>e. length e + 2 + (if fmt then 1 else 0)) es)"
    by (rule order_trans [OF join_length]) (auto intro!: sum_list_mono)
  then show ?thesis by (simp add: compose_array_def boxed_def)
qed

lemma lines_length: "length (object_lines fmt depth es)
    \<le> sum_list (map (\<lambda>(n, e). length e + length n + 2 + (if fmt then 2 + depth else 0)) es)"
  by (induction fmt depth es rule: object_lines.induct) (auto simp: tabs_def)

lemma compose_object_fits: "compose_object fmt depth es = Inr (''{'' @ (if fmt then [CHR 0x0A] else []) @ object_lines fmt depth es
    @ (if fmt then tabs (depth - 1) else []) @ ''}'')"
  using lines_length [of fmt depth es] by (auto simp: compose_object_def boxed_def tabs_def)

section \<open>Leaves\<close>

lemma hex_digits: "\<forall>k \<in> set [0..<16]. hex_digit_of k \<noteq> kNul"
  by code_simp

lemma escape_no_nul:
  assumes "code c \<le> 31 \<or> c = quote \<or> c = backslash"
  shows "no_nul (escape c)"
proof -
  have "hex_digit_of (code c mod 16) \<noteq> kNul" using hex_digits by auto
  moreover have "hex_digit_of (code c div 16) \<noteq> kNul" if "code c \<le> 31"
  proof -
    have "code c div 16 < 16" using that by simp
    then show ?thesis using hex_digits by auto
  qed
  ultimately show ?thesis using assms by (auto simp: escape_def kNul_def)
qed

lemma print_chars_no_nul: "no_nul (print_chars s)"
proof (induction s)
  case (Cons c s)
  have "31 < code c \<longrightarrow> c \<noteq> kNul" by (auto simp: code_def kNul_def)
  then show ?case using Cons escape_no_nul [of c] by (simp add: kNul_def) (auto simp: kNul_def)
qed simp

lemma size_pos: "size (c :: ('a, 'd) cJSON) \<noteq> 0"
  by (cases c) simp

lemma reads_asI:
  assumes "begins s" and "no_nul s" and "\<And>f r. size c \<le> Suc f \<Longrightarrow> stops r \<Longrightarrow> parse_value fl (Suc f) (s @ r) = Parsed (nameless c) r"
  shows "reads_as fl c s"
  unfolding reads_as_def
proof (intro conjI assms(1,2) allI impI)
  fix f r assume "size c \<le> f" "stops r"
  then show "parse_value fl f (s @ r) = Parsed (nameless c) r"
    using assms(3) size_pos [of c] by (cases f) auto
qed

lemma reads_string:
  assumes "no_nul t"
  shows "reads_as fl (CJson () (JString t) [] nm) (quote # print_chars t @ [quote])"
proof (rule reads_asI)
  show "begins (quote # print_chars t @ [quote])" by (simp add: begins_def code_eqs)
  show "no_nul (quote # print_chars t @ [quote])" by (simp add: print_chars_no_nul) (simp add: kNul_def)
  show "parse_value fl (Suc f) ((quote # print_chars t @ [quote]) @ r) = Parsed (nameless (CJson () (JString t) [] nm)) r" for f r
    using parse_printed [OF assms, of r] by simp
qed

lemma print_int_text:
  assumes "sign = 1 \<and> 0 \<le> v \<or> sign = - 1 \<and> v < 0" and "\<bar>v\<bar> < 2 ^ 63"
  shows "print_int sign v = Inr ((if v < 0 then ''-'' else []) @ decimal (nat \<bar>v\<bar>))"
proof -
  have "nat \<bar>v\<bar> < 10 ^ 19" using assms(2) by simp
  then have l: "length (decimal (nat \<bar>v\<bar>)) \<le> 19" by (rule decimal_length) simp
  have "v mod 2 ^ 32 = v" if "0 \<le> v" "v \<le> 2 ^ 32 - 1" using that by simp
  moreover have "v mod 2 ^ 64 = v" if "0 \<le> v" using that assms(2) by simp
  ultimately show ?thesis using assms(1) l by (auto simp: print_int_def boxed_def signed_text_def)
qed

lemma number_value:
  assumes "c = CHR ''-'' \<or> is_digit c"
  shows "parse_value fl (Suc f) (c # s) = pbind (parse_number fl (c # s)) (\<lambda>t r. Parsed (leaf t) r)"
proof -
  have "c \<notin> {CHR ''n'', CHR ''f'', CHR ''t'', quote}" using assms by (auto simp: is_digit_def schar_def)
  moreover have "starts_number (c # s)" using assms by (auto simp: starts_number_def)
  ultimately show ?thesis by simp
qed

lemma reads_int:
  assumes "\<bar>v\<bar> < 2 ^ 63" and "sign = (if v < 0 then - 1 else 1)" and "d = from_int fl sign \<bar>v\<bar>"
  shows "reads_as fl (CJson () (JInt sign v d) [] nm) ((if v < 0 then ''-'' else []) @ decimal (nat \<bar>v\<bar>))" (is "reads_as _ _ ?s")
proof (rule reads_asI)
  obtain c w where c: "decimal (nat \<bar>v\<bar>) = c # w" "is_digit c"
    using decimal_digits [of "nat \<bar>v\<bar>"] by (cases "decimal (nat \<bar>v\<bar>)") (auto simp: digits_def is_digit_def)
  then have "32 < code c" "c \<noteq> CHR '']''" "c \<noteq> CHR ''}''" by (auto simp: is_digit_def schar_code code_eqs split: if_split_asm)
  with c show "begins ?s" by (simp add: begins_def code_eqs)
  show "no_nul ?s" using no_nul_decimal [of "nat \<bar>v\<bar>"] by (simp add: kNul_def)
  fix f r assume "stops r"
  then have "parse_number fl (?s @ r) = Parsed (JInt sign v d) r"
    using parse_digits [of r "nat \<bar>v\<bar>" "?s @ r" "v < 0" fl] assms by simp
  then show "parse_value fl (Suc f) (?s @ r) = Parsed (nameless (CJson () (JInt sign v d) [] nm)) r"
    using c number_value [of "CHR ''-''" fl f "c # w @ r"] number_value [of c fl f "w @ r"]
    by (cases "v < 0") (simp_all del: parse_value.simps)
qed

lemma reads_word:
  "reads_as fl (CJson () JNULL [] nm) ''null''"
  "reads_as fl (CJson () JTrue [] nm) ''true''"
  "reads_as fl (CJson () JFalse [] nm) ''false''"
  by (rule reads_asI; simp add: begins_def code_def kNul_def)+

section \<open>The whole tree\<close>

lemma child_size: "c \<in> set cs \<Longrightarrow> size (CJson a t cs nm) \<le> Suc f \<Longrightarrow> size c \<le> f"
  by (induction cs) (auto simp: less_eq_Suc_le)

lemma reads_array:
  assumes "list_all2 (reads_as fl) cs es" and "\<forall>c \<in> set cs. jstring c = None"
  shows "\<exists>s. compose_array fmt es = Inr s \<and> reads_as fl (CJson () JArray cs nm) s"
  unfolding compose_array_fits
proof (intro exI conjI, rule refl, rule reads_asI)
  let ?w = "if fmt then '' '' else []" and ?s = "\<lambda>w. ''['' @ join ('','' @ w) es @ '']''"
  show "begins (?s ?w)" by (simp add: begins_def code_eqs)
  have "no_nul (concat es)" using assms(1) by (induction cs es rule: list_all2_induct) (simp_all add: reads_as_def)
  then have "no_nul (join ('','' @ w) es)" if "no_nul w" for w
    using that by (induction "'','' @ w" es rule: join.induct) (simp_all add: kNul_def)
  then show "no_nul (?s ?w)" by (simp add: kNul_def)
  fix f r assume f: "size (CJson () JArray cs nm) \<le> Suc f"
  have "map nameless cs = cs" using assms(2) by (induction cs) (auto elim: nameless.elims, metis cJSON.collapse nameless.simps)
  moreover have "parse_array (parse_value fl f) (?s ?w @ r) = Parsed (CJson () JArray (map nameless cs) None) r"
    using array_reads [OF assms(1), of f ?w r] child_size [OF _ f] by (simp add: code_eqs)
  ultimately show "parse_value fl (Suc f) (?s ?w @ r) = Parsed (nameless (CJson () JArray cs nm)) r"
    by (simp add: starts_number_def is_digit_def schar_def)
qed

lemma reads_object:
  assumes "list_all2 (member_ok fl) cs es"
  shows "\<exists>s. compose_object fmt depth es = Inr s \<and> reads_as fl (CJson () JObject cs nm) s"
  unfolding compose_object_fits
proof (intro exI conjI, rule refl, rule reads_asI)
  let ?s = "''{'' @ (if fmt then [CHR 0x0A] else []) @ object_lines fmt depth es @ (if fmt then tabs (depth - 1) else []) @ ''}''"
  show "begins ?s" by (simp add: begins_def code_eqs)
  have t: "no_nul (tabs n)" for n by (simp add: tabs_def no_nul_def kNul_def)
  have "list_all (\<lambda>(n, e). no_nul n \<and> no_nul e) es"
    using assms by (induction cs es rule: list_all2_induct) (auto simp: member_ok_def reads_as_def print_chars_no_nul, simp_all add: kNul_def)
  then have "no_nul (object_lines fmt depth es)"
    by (induction fmt depth es rule: object_lines.induct) (auto simp: t, simp_all add: kNul_def)
  then show "no_nul ?s" by (simp add: t) (simp add: kNul_def)
  fix f r assume f: "size (CJson () JObject cs nm) \<le> Suc f"
  have "parse_object (parse_value fl f) (?s @ r) = Parsed (CJson () JObject cs None) r"
    using object_reads [OF assms, of f fmt depth r] child_size [OF _ f] by simp
  then show "parse_value fl (Suc f) (?s @ r) = Parsed (nameless (CJson () JObject cs nm)) r"
    by (simp add: starts_number_def is_digit_def schar_def)
qed

lemma array_prints:
  "(\<And>c. c \<in> set cs \<Longrightarrow> \<exists>s. print_value fl fmt depth c = Inr s \<and> reads_as fl c s)
    \<Longrightarrow> \<exists>es. print_array fl fmt depth cs = Inr es \<and> list_all2 (reads_as fl) cs es"
proof (induction cs)
  case (Cons c cs)
  obtain s where "print_value fl fmt depth c = Inr s" "reads_as fl c s" using Cons.prems [of c] by auto
  moreover obtain es where "print_array fl fmt depth cs = Inr es" "list_all2 (reads_as fl) cs es" using Cons by auto
  ultimately show ?case by simp
qed simp

lemma object_prints:
  "(\<And>c. c \<in> set cs \<Longrightarrow> \<exists>s. print_value fl fmt depth c = Inr s \<and> reads_as fl c s)
    \<Longrightarrow> \<forall>c \<in> set cs. \<exists>k. jstring c = Some k \<and> no_nul k
    \<Longrightarrow> \<exists>es. print_object fl fmt depth cs = Inr es \<and> list_all2 (member_ok fl) cs es"
proof (induction cs)
  case (Cons c cs)
  obtain s where "print_value fl fmt depth c = Inr s" "reads_as fl c s" using Cons.prems(1) [of c] by auto
  moreover obtain k where "jstring c = Some k" "no_nul k" using Cons.prems(2) by auto
  moreover obtain es where "print_object fl fmt depth cs = Inr es" "list_all2 (member_ok fl) cs es" using Cons by auto
  ultimately show ?case by (simp add: print_string_ptr_some) (simp add: member_ok_def [of fl c])
qed simp

lemma prints_and_reads: "json_normal fl c \<Longrightarrow> \<exists>s. print_value fl fmt depth c = Inr s \<and> reads_as fl c s"
proof (induction c arbitrary: depth)
  case (CJson a t cs nm)
  have a: "a = ()" by simp
  show ?case
  proof (cases t)
    case (JInt sign v d)
    then have "sign = 1 \<and> 0 \<le> v \<or> sign = - 1 \<and> v < 0" "\<bar>v\<bar> < 2 ^ 63" "cs = []" "d = from_int fl sign \<bar>v\<bar>" using CJson.prems by simp_all
    then show ?thesis using print_int_text [of sign v] reads_int [of v sign d fl nm] JInt by (auto simp: a)
  next
    case JArray
    have "\<exists>es. print_array fl fmt (depth + 1) cs = Inr es \<and> list_all2 (reads_as fl) cs es"
      by (rule array_prints) (use CJson JArray in simp)
    then show ?thesis using reads_array [of fl cs _ fmt nm] CJson.prems JArray by (auto simp: a)
  next
    case JObject
    have "\<exists>es. print_object fl fmt (depth + 1) cs = Inr es \<and> list_all2 (member_ok fl) cs es"
      by (rule object_prints) (use CJson JObject in simp_all)
    then show ?thesis using reads_object [of fl cs _ fmt "depth + 1" nm] CJson.prems JObject by (auto simp: a)
  qed (use CJson.prems in \<open>auto simp: a reads_word reads_string print_string_ptr_some\<close>)
qed

lemma print_then_parse:
  assumes "json_ok c" and "jstring c = None"
  shows "\<exists>s. print_value fl fmt 0 c = Inr s \<and> no_nul s \<and> cJSON_Parse fl s = Parsed (read_back fl c) []"
proof -
  let ?c = "read_back fl c"
  obtain s where s: "print_value fl fmt 0 ?c = Inr s" "reads_as fl ?c s"
    using prints_and_reads [OF read_back_normal [OF assms(1)]] by blast
  let ?f = "size ?c + length s + 1"
  have f: "size ?c \<le> ?f" by simp
  have "skip (c_str s) = s" using s(2) skip_begins [of s "[]"] by (simp add: reads_as_def no_nul_c_str)
  moreover have "jstring ?c = None" using assms(2) by simp
  then have "nameless ?c = ?c" by (cases ?c) (simp del: read_back_jstring)
  moreover have "stops []" by (simp add: stops_def)
  then have "parse_value fl ?f (s @ []) = Parsed (nameless ?c) []" using s(2) f unfolding reads_as_def by blast
  moreover have "no_nul s" using s(2) by (simp add: reads_as_def)
  ultimately show ?thesis
    using s(1) parse_value_fuel [of s ?f fl] print_read_back(1) [OF assms(1), of fl fmt 0 fl] by (simp del: parse_value.simps)
qed


definition sample_tree :: "(unit, int) cJSON" where
  "sample_tree = CJson () JObject
     [CJson () JArray [leaf (JInt 1 40 40), leaf (JInt (- 1) (- 2) (- 2)), leaf JNULL] (Some ''list''),
      CJson () (JString [CHR 0x0A, quote, CHR 0xE4]) [] (Some ''text'')] None"


end
