(* ===== verification/JsonTree.thy ===== *)
theory JsonTree
  imports JsonRoundtrip
begin

text \<open>
  The second half of \<open>util/cJSON.c\<close>: searching, adding, detaching and replacing items, and the
  items the program creates. The mark of an item is its address. All items that are alive
  are a list of trees, each with a root that nothing but a pointer of the program refers to;
  a pointer to an item that is no longer there is dangling, and using it is a fault
  (\<open>Out_of_range\<close>).
\<close>

section \<open>Names\<close>

text \<open>\<open>tolower\<close> in the C locale.\<close>

definition lower :: "char \<Rightarrow> char" where
  "lower c = (if 65 \<le> code c \<and> code c \<le> 90 then char_of (code c + 32) else c)"

fun strcasecmp_loop :: "bytes \<Rightarrow> bytes \<Rightarrow> int" where
  "strcasecmp_loop [] [] = 0"
| "strcasecmp_loop [] (d # t) = - int (code (lower d))"
| "strcasecmp_loop (c # s) [] = int (code (lower c))"
| "strcasecmp_loop (c # s) (d # t) =
     (if lower c = lower d then strcasecmp_loop s t else int (code (lower c)) - int (code (lower d)))"

definition cJSON_strcasecmp :: "bytes option \<Rightarrow> bytes option \<Rightarrow> int" where
  "cJSON_strcasecmp s1 s2 =
     (case s1 of
        None \<Rightarrow> (if s2 = None then 0 else 1)
      | Some s \<Rightarrow> (case s2 of None \<Rightarrow> 1 | Some t \<Rightarrow> strcasecmp_loop (c_str s) (c_str t)))"

section \<open>Lists of siblings\<close>

type_synonym 'd item = "(nat, 'd) cJSON"

definition cJSON_GetArraySize :: "'d item list \<Rightarrow> nat" where
  "cJSON_GetArraySize cs = length cs"

text \<open>A negative index is that of the first item.\<close>

fun cJSON_GetArrayItem :: "'d item list \<Rightarrow> int \<Rightarrow> 'd item option" where
  "cJSON_GetArrayItem [] which = None"
| "cJSON_GetArrayItem (c # cs) which = (if 0 < which then cJSON_GetArrayItem cs (which - 1) else Some c)"

fun cJSON_GetObjectItem :: "'d item list \<Rightarrow> bytes \<Rightarrow> 'd item option" where
  "cJSON_GetObjectItem [] string = None"
| "cJSON_GetObjectItem (c # cs) string =
     (if cJSON_strcasecmp (jstring c) (Some string) \<noteq> 0 then cJSON_GetObjectItem cs string else Some c)"

definition cJSON_AddItemToArray :: "'d item list \<Rightarrow> 'd item \<Rightarrow> 'd item list" where
  "cJSON_AddItemToArray cs new = cs @ [new]"

definition cJSON_AddItemToArrayHead :: "'d item list \<Rightarrow> 'd item \<Rightarrow> 'd item list" where
  "cJSON_AddItemToArrayHead cs new = new # cs"

definition cJSON_AddItemToObject :: "'d item list \<Rightarrow> bytes \<Rightarrow> 'd item \<Rightarrow> 'd item list" where
  "cJSON_AddItemToObject cs string new = cJSON_AddItemToArray cs (named (c_str string) new)"

text \<open>What is detached, with the list that stays; deleting it frees the item and what is below.\<close>

fun cJSON_DetachItemFromArray :: "'d item list \<Rightarrow> int \<Rightarrow> 'd item option \<times> 'd item list" where
  "cJSON_DetachItemFromArray [] which = (None, [])"
| "cJSON_DetachItemFromArray (c # cs) which =
     (if 0 < which then (let (d, ds) = cJSON_DetachItemFromArray cs (which - 1) in (d, c # ds)) else (Some c, cs))"

definition cJSON_DeleteItemFromArray :: "'d item list \<Rightarrow> int \<Rightarrow> 'd item list" where
  "cJSON_DeleteItemFromArray cs which = snd (cJSON_DetachItemFromArray cs which)"

text \<open>The loop over the names, which counts.\<close>

fun name_index :: "'d item list \<Rightarrow> bytes \<Rightarrow> int \<Rightarrow> int option" where
  "name_index [] string i = None"
| "name_index (c # cs) string i =
     (if cJSON_strcasecmp (jstring c) (Some string) \<noteq> 0 then name_index cs string (i + 1) else Some i)"

definition cJSON_DetachItemFromObject :: "'d item list \<Rightarrow> bytes \<Rightarrow> 'd item option \<times> 'd item list" where
  "cJSON_DetachItemFromObject cs string =
     (case name_index cs string 0 of Some i \<Rightarrow> cJSON_DetachItemFromArray cs i | None \<Rightarrow> (None, cs))"

definition cJSON_DeleteItemFromObject :: "'d item list \<Rightarrow> bytes \<Rightarrow> 'd item list" where
  "cJSON_DeleteItemFromObject cs string = snd (cJSON_DetachItemFromObject cs string)"

text \<open>The replaced item is deleted; when there is none the new one is neither linked nor freed.\<close>

fun cJSON_ReplaceItemInArray :: "'d item list \<Rightarrow> int \<Rightarrow> 'd item \<Rightarrow> 'd item list" where
  "cJSON_ReplaceItemInArray [] which new = []"
| "cJSON_ReplaceItemInArray (c # cs) which new =
     (if 0 < which then c # cJSON_ReplaceItemInArray cs (which - 1) new else new # cs)"

definition cJSON_ReplaceItemInObject :: "'d item list \<Rightarrow> bytes \<Rightarrow> 'd item \<Rightarrow> 'd item list" where
  "cJSON_ReplaceItemInObject cs string new =
     (case name_index cs string 0 of
        Some i \<Rightarrow> cJSON_ReplaceItemInArray cs i (named (c_str string) new)
      | None \<Rightarrow> cs)"

section \<open>New items\<close>

text \<open>
  What the code computes with doubles, beyond parsing and printing: the integer part of one if it
  is finite, the nearest \<open>float\<close>, the double nearest to an integer.
\<close>

record 'd numbers = "'d floats" +
  trunc :: "'d \<Rightarrow> int option"
  to_float :: "'d \<Rightarrow> 'd"

definition cJSON_CreateNull :: "(unit, 'd) cJSON" where
  "cJSON_CreateNull = leaf JNULL"

definition cJSON_CreateBool :: "bool \<Rightarrow> (unit, 'd) cJSON" where
  "cJSON_CreateBool b = leaf (if b then JTrue else JFalse)"

text \<open>The conversion of a double that does not fit into an \<open>int64\<close> is undefined.\<close>

definition fits :: "int \<Rightarrow> int \<Rightarrow> int option \<Rightarrow> fault + int" where
  "fits lo hi n = (case n of Some v \<Rightarrow> (if lo \<le> v \<and> v < hi then Inr v else Inl Out_of_range) | None \<Rightarrow> Inl Out_of_range)"

definition cJSON_CreateDouble :: "('d, 'x) numbers_scheme \<Rightarrow> 'd \<Rightarrow> int \<Rightarrow> fault + (unit, 'd) cJSON" where
  "cJSON_CreateDouble fl num sign = ebind (fits (- (2 ^ 63)) (2 ^ 63) (trunc fl num)) (\<lambda>v. Inr (leaf (JDouble sign v num)))"

text \<open>The argument is a \<open>uint64\<close>: negative numbers arrive here wrapped around.\<close>

definition to_uint64 :: "int \<Rightarrow> int" where
  "to_uint64 v = v mod 2 ^ 64"

definition wrap_signed :: "nat \<Rightarrow> int \<Rightarrow> int" where
  "wrap_signed w v = (v + 2 ^ (w - 1)) mod 2 ^ w - 2 ^ (w - 1)"

definition cJSON_CreateInt :: "('d, 'x) numbers_scheme \<Rightarrow> int \<Rightarrow> int \<Rightarrow> (unit, 'd) cJSON" where
  "cJSON_CreateInt fl num sign = leaf (JInt sign (wrap_signed 64 num) (from_int fl 1 num))"

definition cJSON_CreateString :: "bytes \<Rightarrow> (unit, 'd) cJSON" where
  "cJSON_CreateString s = leaf (JString (c_str s))"

definition cJSON_CreateArray :: "(unit, 'd) cJSON" where
  "cJSON_CreateArray = leaf JArray"

definition cJSON_CreateObject :: "(unit, 'd) cJSON" where
  "cJSON_CreateObject = leaf JObject"

text \<open>
  Arrays made of C arrays, which nothing calls: the loop links one new item behind the other.
  An \<open>int\<close> is converted to \<open>unsigned int\<close> on its way to a double.
\<close>

fun items_of :: "('n \<Rightarrow> fault + (unit, 'd) cJSON) \<Rightarrow> 'n list \<Rightarrow> fault + (unit, 'd) cJSON list" where
  "items_of create [] = Inr []"
| "items_of create (n # ns) = ebind (create n) (\<lambda>c. ebind (items_of create ns) (\<lambda>cs. Inr (c # cs)))"

definition array_of :: "('n \<Rightarrow> fault + (unit, 'd) cJSON) \<Rightarrow> 'n list \<Rightarrow> fault + (unit, 'd) cJSON" where
  "array_of create ns = ebind (items_of create ns) (\<lambda>cs. Inr (CJson () JArray cs None))"

definition cJSON_CreateIntArray :: "('d, 'x) numbers_scheme \<Rightarrow> int list \<Rightarrow> int \<Rightarrow> fault + (unit, 'd) cJSON" where
  "cJSON_CreateIntArray fl numbers sign = array_of (\<lambda>n. cJSON_CreateDouble fl (from_int fl 1 (n mod 2 ^ 32)) sign) numbers"

definition cJSON_CreateFloatArray :: "('d, 'x) numbers_scheme \<Rightarrow> 'd list \<Rightarrow> fault + (unit, 'd) cJSON" where
  "cJSON_CreateFloatArray fl = array_of (\<lambda>n. cJSON_CreateDouble fl n (- 1))"

definition cJSON_CreateDoubleArray :: "('d, 'x) numbers_scheme \<Rightarrow> 'd list \<Rightarrow> fault + (unit, 'd) cJSON" where
  "cJSON_CreateDoubleArray fl = array_of (\<lambda>n. cJSON_CreateDouble fl n (- 1))"

definition cJSON_CreateStringArray :: "bytes list \<Rightarrow> fault + (unit, 'd) cJSON" where
  "cJSON_CreateStringArray = array_of (\<lambda>s. Inr (cJSON_CreateString s))"

section \<open>The items that are alive\<close>

record 'd store =
  live :: "'d item list"
  next_mark :: nat

fun item_at :: "nat \<Rightarrow> 'd item \<Rightarrow> 'd item option"
  and items_at :: "nat \<Rightarrow> 'd item list \<Rightarrow> 'd item option" where
  "item_at a (CJson m t cs nm) = (if m = a then Some (CJson m t cs nm) else items_at a cs)"
| "items_at a [] = None"
| "items_at a (c # cs) = (case item_at a c of Some d \<Rightarrow> Some d | None \<Rightarrow> items_at a cs)"

definition deref :: "'d store \<Rightarrow> nat \<Rightarrow> fault + 'd item" where
  "deref h a = (case items_at a (live h) of Some c \<Rightarrow> Inr c | None \<Rightarrow> Inl Out_of_range)"

text \<open>An assignment to the \<open>child\<close> of the item at an address.\<close>

fun set_child :: "nat \<Rightarrow> ('d item list \<Rightarrow> 'd item list) \<Rightarrow> 'd item \<Rightarrow> 'd item" where
  "set_child a f (CJson m t cs nm) = (if m = a then CJson m t (f cs) nm else CJson m t (map (set_child a f) cs) nm)"

definition change :: "nat \<Rightarrow> ('d item list \<Rightarrow> 'd item list) \<Rightarrow> 'd store \<Rightarrow> 'd store" where
  "change a f h = h\<lparr>live := map (set_child a f) (live h)\<rparr>"

text \<open>The pointer \<open>next\<close> of an item, \<open>None\<close> if there is no such item; a root has no sibling.\<close>

fun next_in :: "nat \<Rightarrow> 'd item \<Rightarrow> nat option option"
  and next_among :: "nat \<Rightarrow> 'd item list \<Rightarrow> nat option option" where
  "next_in a (CJson m t cs nm) = next_among a cs"
| "next_among a [] = None"
| "next_among a (c # cs) =
     (if jmark c = a then Some (if cs = [] then None else Some (jmark (hd cs)))
      else (case next_in a c of Some n \<Rightarrow> Some n | None \<Rightarrow> next_among a cs))"

fun next_of_roots :: "nat \<Rightarrow> 'd item list \<Rightarrow> nat option option" where
  "next_of_roots a [] = None"
| "next_of_roots a (c # cs) =
     (if jmark c = a then Some None else (case next_in a c of Some n \<Rightarrow> Some n | None \<Rightarrow> next_of_roots a cs))"

text \<open>New items get the addresses from a counter on.\<close>

fun allocate :: "nat \<Rightarrow> (unit, 'd) cJSON \<Rightarrow> nat \<times> 'd item"
  and allocate_all :: "nat \<Rightarrow> (unit, 'd) cJSON list \<Rightarrow> nat \<times> 'd item list" where
  "allocate n (CJson u t cs nm) = (let (m, ds) = allocate_all (n + 1) cs in (m, CJson n t ds nm))"
| "allocate_all n [] = (n, [])"
| "allocate_all n (c # cs) = (let (m, d) = allocate n c; (k, ds) = allocate_all m cs in (k, d # ds))"

definition new_root :: "(unit, 'd) cJSON \<Rightarrow> 'd store \<Rightarrow> nat \<times> 'd store" where
  "new_root t h = (let (n, c) = allocate (next_mark h) t in (jmark c, h\<lparr>live := live h @ [c], next_mark := n\<rparr>))"

text \<open>A new item goes at once into the list of an array or object.\<close>

definition link_new :: "nat \<Rightarrow> ('d item \<Rightarrow> 'd item list \<Rightarrow> 'd item list) \<Rightarrow> (unit, 'd) cJSON \<Rightarrow> 'd store \<Rightarrow> 'd store" where
  "link_new a f t h = (let (n, c) = allocate (next_mark h) t in change a (f c) (h\<lparr>next_mark := n\<rparr>))"

text \<open>\<open>cJSON_Delete\<close> of a root, with everything below it.\<close>

definition cJSON_Delete :: "nat \<Rightarrow> 'd store \<Rightarrow> fault + 'd store" where
  "cJSON_Delete a h = (if a \<in> set (map jmark (live h)) then Inr (h\<lparr>live := filter (\<lambda>c. jmark c \<noteq> a) (live h)\<rparr>) else Inl Out_of_range)"

fun delete_roots :: "nat list \<Rightarrow> 'd store \<Rightarrow> fault + 'd store" where
  "delete_roots [] h = Inr h"
| "delete_roots (a # as) h = ebind (cJSON_Delete a h) (delete_roots as)"

end
