(* ===== verification/JsonChain.thy ===== *)
theory JsonChain
  imports JsonTree
begin

text \<open>
  The children of an array or object in \<open>util/cJSON.c\<close> as the code has them: a doubly linked
  chain. The operations on pointers do what those of \<open>JsonTree\<close> do on lists.
\<close>

section \<open>Pointers\<close>

text \<open>The fields \<open>next\<close> and \<open>prev\<close> of all items, and \<open>child\<close> of the one array or object.\<close>

record chain =
  nxt :: "nat \<Rightarrow> nat option"
  prv :: "nat \<Rightarrow> nat option"
  child :: "nat option"

definition set_nxt :: "nat \<Rightarrow> nat option \<Rightarrow> chain \<Rightarrow> chain" where
  "set_nxt a v s = s\<lparr>nxt := (nxt s)(a := v)\<rparr>"

definition set_prv :: "nat \<Rightarrow> nat option \<Rightarrow> chain \<Rightarrow> chain" where
  "set_prv a v s = s\<lparr>prv := (prv s)(a := v)\<rparr>"

lemma set_simps [simp]: "nxt (set_nxt a v s) = (nxt s)(a := v)" "prv (set_nxt a v s) = prv s" "child (set_nxt a v s) = child s"
  "prv (set_prv a v s) = (prv s)(a := v)" "nxt (set_prv a v s) = nxt s" "child (set_prv a v s) = child s"
  by (simp_all add: set_nxt_def set_prv_def)

text \<open>The loop that counts an index down.\<close>

fun goto :: "chain \<Rightarrow> nat option \<Rightarrow> nat \<Rightarrow> nat option" where
  "goto s None which = None"
| "goto s (Some c) 0 = Some c"
| "goto s (Some c) (Suc which) = goto s (nxt s c) which"

text \<open>The loops that run to the end; on a cycle they would not return.\<close>

partial_function (option) count_from :: "chain \<Rightarrow> nat option \<Rightarrow> nat \<Rightarrow> nat option" where
  "count_from s p i = (case p of None \<Rightarrow> Some i | Some c \<Rightarrow> count_from s (nxt s c) (i + 1))"

partial_function (option) last_from :: "chain \<Rightarrow> nat \<Rightarrow> nat option" where
  "last_from s c = (case nxt s c of None \<Rightarrow> Some c | Some d \<Rightarrow> last_from s d)"

definition ptr_size :: "chain \<Rightarrow> nat option" where
  "ptr_size s = count_from s (child s) 0"

definition ptr_item :: "int \<Rightarrow> chain \<Rightarrow> nat option" where
  "ptr_item which s = goto s (child s) (nat which)"

definition suffix_object :: "nat \<Rightarrow> nat \<Rightarrow> chain \<Rightarrow> chain" where
  "suffix_object prev new s = set_prv new (Some prev) (set_nxt prev (Some new) s)"

definition ptr_add :: "nat \<Rightarrow> chain \<Rightarrow> chain option" where
  "ptr_add new s =
     (case child s of
        None \<Rightarrow> Some (s\<lparr>child := Some new\<rparr>)
      | Some c \<Rightarrow> map_option (\<lambda>l. suffix_object l new s) (last_from s c))"

definition ptr_add_head :: "nat \<Rightarrow> chain \<Rightarrow> chain" where
  "ptr_add_head new s =
     (case child s of
        None \<Rightarrow> s\<lparr>child := Some new\<rparr>
      | Some c \<Rightarrow> (set_prv c (Some new) (set_nxt new (Some c) (set_prv new (prv s c) s)))\<lparr>child := Some new\<rparr>)"

definition ptr_detach :: "int \<Rightarrow> chain \<Rightarrow> nat option \<times> chain" where
  "ptr_detach which s =
     (case goto s (child s) (nat which) of
        None \<Rightarrow> (None, s)
      | Some c \<Rightarrow>
        (let s1 = (case prv s c of None \<Rightarrow> s | Some p \<Rightarrow> set_nxt p (nxt s c) s);
             s2 = (case nxt s1 c of None \<Rightarrow> s1 | Some n \<Rightarrow> set_prv n (prv s1 c) s1);
             s3 = (if child s2 = Some c then s2\<lparr>child := nxt s2 c\<rparr> else s2)
         in (Some c, set_prv c None (set_nxt c None s3))))"

text \<open>
  \<open>newitem->prev->next\<close> is written when the item replaced is not the first one, whatever its
  \<open>prev\<close> is: a null pointer there is a fault.
\<close>

definition ptr_replace :: "int \<Rightarrow> nat \<Rightarrow> chain \<Rightarrow> fault + chain" where
  "ptr_replace which new s =
     (case goto s (child s) (nat which) of
        None \<Rightarrow> Inr s
      | Some c \<Rightarrow>
        (let s1 = set_prv new (prv s c) (set_nxt new (nxt s c) s);
             s2 = (case nxt s1 new of None \<Rightarrow> s1 | Some n \<Rightarrow> set_prv n (Some new) s1)
         in ebind (if child s2 = Some c then Inr (s2\<lparr>child := Some new\<rparr>)
                   else (case prv s2 new of None \<Rightarrow> Inl Null_deref | Some p \<Rightarrow> Inr (set_nxt p (Some new) s2)))
              (\<lambda>s3. Inr (set_prv c None (set_nxt c None s3)))))"

section \<open>Chains and lists\<close>

definition first_of :: "'a list \<Rightarrow> 'a option \<Rightarrow> 'a option" where
  "first_of xs n = (if xs = [] then n else Some (hd xs))"

definition last_of :: "'a option \<Rightarrow> 'a list \<Rightarrow> 'a option" where
  "last_of p xs = (if xs = [] then p else Some (last xs))"

lemma first_of_simps [simp]: "first_of [] n = n" "first_of (x # xs) n = Some x" "first_of (xs @ ys) n = first_of xs (first_of ys n)"
  by (simp_all add: first_of_def)

lemma last_of_simps [simp]: "last_of p [] = p" "last_of p (x # xs) = last_of (Some x) xs" "last_of p (xs @ ys) = last_of (last_of p xs) ys"
  by (simp_all add: last_of_def)

primrec linked :: "chain \<Rightarrow> nat option \<Rightarrow> nat list \<Rightarrow> nat option \<Rightarrow> bool" where
  "linked s p [] n \<longleftrightarrow> True"
| "linked s p (x # xs) n \<longleftrightarrow> prv s x = p \<and> nxt s x = first_of xs n \<and> linked s (Some x) xs n"

text \<open>The chain below \<open>child\<close> consists of these items.\<close>

definition holds :: "chain \<Rightarrow> nat list \<Rightarrow> bool" where
  "holds s xs \<longleftrightarrow> distinct xs \<and> child s = first_of xs None \<and> linked s None xs None"

text \<open>An item that is in no list.\<close>

definition loose :: "chain \<Rightarrow> nat \<Rightarrow> bool" where
  "loose s a \<longleftrightarrow> nxt s a = None \<and> prv s a = None"

lemma linked_append [simp]: "linked s p (xs @ ys) n \<longleftrightarrow> linked s p xs (first_of ys n) \<and> linked s (last_of p xs) ys n"
  by (induction xs arbitrary: p) auto

lemma linked_cong: "\<forall>x \<in> set xs. nxt t x = nxt s x \<and> prv t x = prv s x \<Longrightarrow> linked t p xs n = linked s p xs n"
  by (induction xs arbitrary: p) auto

text \<open>Other neighbours: what the ends of a segment point to.\<close>

lemma linked_next:
  assumes "linked s p xs n" and "distinct xs" and "xs \<noteq> []"
    and "\<forall>x \<in> set xs. prv t x = prv s x" and "\<forall>x \<in> set xs. x \<noteq> last xs \<longrightarrow> nxt t x = nxt s x" and "nxt t (last xs) = m"
  shows "linked t p xs m"
  using assms
proof (induction xs arbitrary: p)
  case (Cons x xs)
  show ?case
  proof (cases xs)
    case (Cons y ys)
    then have "x \<noteq> last xs" using Cons.prems(2) by auto
    moreover have "linked t (Some x) xs m"
      by (rule Cons.IH) (use Cons.prems Cons in auto)
    ultimately show ?thesis using Cons.prems Cons by auto
  qed (use Cons.prems in simp)
qed simp

lemma linked_prev:
  assumes "linked s p (x # xs) n" and "\<forall>y \<in> set (x # xs). nxt t y = nxt s y" and "\<forall>y \<in> set xs. prv t y = prv s y" and "prv t x = q"
  shows "linked t q (x # xs) n"
  using assms linked_cong [of xs t s "Some x" n] by simp

lemma goto_list: "linked s p (ys @ c # zs) n \<Longrightarrow> goto s (first_of (ys @ c # zs) n) (length ys) = Some c"
  by (induction ys arbitrary: p) auto

lemma goto_none: "linked s p xs None \<Longrightarrow> length xs \<le> w \<Longrightarrow> goto s (first_of xs None) w = None"
proof (induction xs arbitrary: p w)
  case (Cons x xs)
  then show ?case by (cases w) auto
qed simp

lemma goto_iff:
  assumes "linked s p xs None"
  shows "goto s (first_of xs None) w = (if w < length xs then Some (xs ! w) else None)"
proof (cases "w < length xs")
  case True
  then have "xs = take w xs @ xs ! w # drop (Suc w) xs" by (rule id_take_nth_drop)
  with goto_list [of s p "take w xs" "xs ! w" "drop (Suc w) xs" None] assms True show ?thesis by simp
next
  case False
  with goto_none [OF assms, of w] show ?thesis by simp
qed

lemma count_list: "linked s p xs None \<Longrightarrow> count_from s (first_of xs None) i = Some (i + length xs)"
  by (induction xs arbitrary: p i) (subst count_from.simps, fastforce)+

lemma last_list: "linked s p (x # xs) None \<Longrightarrow> last_from s x = Some (last (x # xs))"
proof (induction xs arbitrary: p x)
  case Nil
  then show ?case by (subst last_from.simps) simp
next
  case (Cons y ys)
  from Cons.IH [of "Some x" y] Cons.prems show ?case by (subst last_from.simps) simp
qed

section \<open>Each operation\<close>

lemma first_last: "xs \<noteq> [] \<Longrightarrow> first_of xs n = Some (hd xs)" "xs \<noteq> [] \<Longrightarrow> last_of p xs = Some (last xs)"
  by (simp_all add: first_of_def last_of_def)

lemma holds_add:
  assumes "holds s xs" and "loose s a" and "a \<notin> set xs"
  shows "\<exists>t. ptr_add a s = Some t \<and> holds t (xs @ [a])"
proof (cases xs)
  case Nil
  with assms show ?thesis by (simp add: ptr_add_def holds_def loose_def)
next
  case (Cons x ys)
  let ?l = "last xs" and ?t = "suffix_object (last xs) a s"
  have s: "distinct xs" "child s = Some x" "linked s None xs None" "xs \<noteq> []" using assms(1) Cons by (auto simp: holds_def)
  have "ptr_add a s = Some ?t"
    using s(2,3) last_list [of s None x ys] by (simp add: ptr_add_def Cons)
  moreover have "linked ?t None xs (Some a)"
    by (rule linked_next [OF s(3) s(1) s(4)]) (use assms(3) s(4) in \<open>auto simp: suffix_object_def\<close>)
  moreover have "a \<noteq> ?l" using assms(3) s(4) by auto
  then have "linked ?t (Some ?l) [a] None" using assms(2) by (simp add: suffix_object_def loose_def)
  ultimately show ?thesis using s assms(3) by (simp add: holds_def first_last suffix_object_def Cons)
qed

lemma holds_add_head:
  assumes "holds s xs" and "loose s a" and "a \<notin> set xs"
  shows "holds (ptr_add_head a s) (a # xs)"
proof (cases xs)
  case Nil
  with assms show ?thesis by (simp add: ptr_add_head_def holds_def loose_def)
next
  case (Cons x ys)
  have s: "distinct xs" "child s = Some x" "linked s None (x # ys) None" using assms(1) Cons by (auto simp: holds_def)
  let ?t = "ptr_add_head a s"
  have t: "?t = (set_prv x (Some a) (set_nxt a (Some x) (set_prv a (prv s x) s)))\<lparr>child := Some a\<rparr>"
    using s(2) by (simp add: ptr_add_head_def)
  have "linked ?t (Some a) (x # ys) None"
    by (rule linked_prev [OF s(3)]) (use assms(3) s(1) Cons in \<open>auto simp: t\<close>)
  moreover have "prv s x = None" using s(3) by simp
  ultimately show ?thesis using assms(3) s(1) Cons by (auto simp: holds_def t)
qed

text \<open>Detaching and replacing: the item before and the one behind get a new neighbour.\<close>

lemma linked_around:
  assumes "distinct (ys @ zs)" and "linked s None ys m" and "linked s q zs None"
    and "\<forall>x \<in> set ys. prv t x = prv s x" and "\<forall>x \<in> set ys. x \<noteq> last ys \<longrightarrow> nxt t x = nxt s x" and "ys \<noteq> [] \<longrightarrow> nxt t (last ys) = a"
    and "\<forall>x \<in> set zs. nxt t x = nxt s x" and "\<forall>x \<in> set zs. x \<noteq> hd zs \<longrightarrow> prv t x = prv s x" and "zs \<noteq> [] \<longrightarrow> prv t (hd zs) = b"
  shows "linked t None ys a \<and> linked t b zs None"
proof
  show "linked t None ys a"
  proof (cases "ys = []")
    case False
    then show ?thesis using assms by (intro linked_next [OF assms(2)]) auto
  qed simp
  show "linked t b zs None"
  proof (cases zs)
    case (Cons z zs')
    have "z \<notin> set zs'" using assms(1) Cons by simp
    then show ?thesis unfolding Cons
      by (intro linked_prev [OF assms(3) [unfolded Cons]]) (use assms(7-9) Cons in auto)
  qed simp
qed

lemma holds_split:
  assumes "holds s (ys @ c # zs)"
  shows "distinct (ys @ c # zs)" "child s = first_of (ys @ c # zs) None" "linked s None ys (Some c)" "prv s c = last_of None ys"
    "nxt s c = first_of zs None" "linked s (Some c) zs None" "goto s (child s) (length ys) = Some c"
  using assms goto_list [of s None ys c zs None] by (auto simp: holds_def)

lemma holds_detach:
  assumes "holds s (ys @ c # zs)" and "nat which = length ys"
  shows "\<exists>t. ptr_detach which s = (Some c, t) \<and> holds t (ys @ zs) \<and> loose t c"
proof -
  note s = holds_split [OF assms(1)]
  define t where "t = snd (ptr_detach which s)"
  have g: "goto s (child s) (nat which) = Some c" using s(7) assms(2) by simp
  have f: "fst (ptr_detach which s) = Some c" using g by (simp add: ptr_detach_def Let_def)
  have p: "prv t = (\<lambda>x. if x = c then None else if zs \<noteq> [] \<and> x = hd zs then last_of None ys else prv s x)"
    using g s(1,4,5) by (cases ys rule: rev_cases; cases zs) (auto simp: t_def ptr_detach_def Let_def fun_eq_iff)
  have n: "nxt t = (\<lambda>x. if x = c then None else if ys \<noteq> [] \<and> x = last ys then first_of zs None else nxt s x)"
    using g s(1,4,5) by (cases ys rule: rev_cases; cases zs) (auto simp: t_def ptr_detach_def Let_def fun_eq_iff)
  have c: "child t = first_of (ys @ zs) None"
    using g s(1,2,4,5) by (cases ys; cases zs) (auto simp: t_def ptr_detach_def Let_def split: option.split)
  have l: "ys \<noteq> [] \<longrightarrow> last ys \<notin> set zs \<and> last ys \<noteq> c" using s(1) by (cases ys rule: rev_cases) auto
  have "linked t None ys (first_of zs None) \<and> linked t (last_of None ys) zs None"
    by (rule linked_around [OF _ s(3,6)]) (use s(1) l in \<open>auto simp: p n\<close>)
  with c s(1) have "holds t (ys @ zs)" by (simp add: holds_def)
  moreover have "loose t c" by (simp add: loose_def p n)
  moreover have "ptr_detach which s = (Some c, t)" using f by (simp add: t_def prod_eq_iff)
  ultimately show ?thesis by blast
qed

lemma holds_replace:
  assumes "holds s (ys @ c # zs)" and "nat which = length ys" and "a \<notin> set (ys @ c # zs)"
  shows "\<exists>t. ptr_replace which a s = Inr t \<and> holds t (ys @ a # zs) \<and> loose t c"
proof -
  note s = holds_split [OF assms(1)]
  have g: "goto s (child s) (nat which) = Some c" using s(7) assms(2) by simp
  define s2 where "s2 = (let s1 = set_prv a (prv s c) (set_nxt a (nxt s c) s)
      in case nxt s1 a of None \<Rightarrow> s1 | Some n \<Rightarrow> set_prv n (Some a) s1)"
  define t where "t = set_prv c None (set_nxt c None (if child s2 = Some c then s2\<lparr>child := Some a\<rparr>
      else case prv s2 a of None \<Rightarrow> s2 | Some p \<Rightarrow> set_nxt p (Some a) s2))"
  have "child s2 = Some c \<or> prv s2 a \<noteq> None"
    using s(1,2,4,5) assms(3) by (cases ys rule: rev_cases; cases zs) (auto simp: s2_def Let_def first_of_def last_of_def hd_append)
  then have r: "ptr_replace which a s = Inr t"
    using g by (auto simp: ptr_replace_def s2_def [symmetric] Let_def t_def split: option.split) (simp_all add: s2_def Let_def)
  have p: "prv t = (\<lambda>x. if x = c then None else if x = a then last_of None ys else if zs \<noteq> [] \<and> x = hd zs then Some a else prv s x)"
    using g s(1,2,4,5) assms(3) by (cases ys rule: rev_cases; cases zs)
      (auto simp: t_def s2_def Let_def fun_eq_iff first_of_def hd_append)
  have n: "nxt t = (\<lambda>x. if x = c then None else if x = a then first_of zs None else if ys \<noteq> [] \<and> x = last ys then Some a else nxt s x)"
    using g s(1,2,4,5) assms(3) by (cases ys rule: rev_cases; cases zs)
      (auto simp: t_def s2_def Let_def fun_eq_iff first_of_def hd_append)
  have c: "child t = first_of (ys @ a # zs) None"
    using g s(1,2,4,5) assms(3) by (cases ys; cases zs) (auto simp: t_def s2_def Let_def split: option.split)
  have l: "ys \<noteq> [] \<longrightarrow> last ys \<notin> set zs \<and> last ys \<noteq> c \<and> last ys \<noteq> a" using s(1) assms(3) by (cases ys rule: rev_cases) auto
  have "linked t None ys (Some a) \<and> linked t (Some a) zs None"
    by (rule linked_around [OF _ s(3,6)]) (use s(1) assms(3) l in \<open>auto simp: p n\<close>)
  with c s(1) assms(3) have "holds t (ys @ a # zs)" by (auto simp: holds_def p n)
  then show ?thesis using r by (simp add: loose_def p n)
qed

section \<open>The operations on lists\<close>

lemma item_here: "nat w = length ys \<Longrightarrow> cJSON_GetArrayItem (ys @ c # zs) w = Some c"
  and detach_here: "nat w = length ys \<Longrightarrow> cJSON_DetachItemFromArray (ys @ c # zs) w = (Some c, ys @ zs)"
  and replace_here: "nat w = length ys \<Longrightarrow> cJSON_ReplaceItemInArray (ys @ c # zs) w d = ys @ d # zs"
  by (induction ys arbitrary: w) auto

lemma item_beyond: "length cs \<le> nat w \<Longrightarrow> cJSON_GetArrayItem cs w = None"
  and detach_beyond: "length cs \<le> nat w \<Longrightarrow> cJSON_DetachItemFromArray cs w = (None, cs)"
  and replace_beyond: "length cs \<le> nat w \<Longrightarrow> cJSON_ReplaceItemInArray cs w d = cs"
  by (induction cs arbitrary: w) auto

text \<open>
  C37: on the doubly linked chain of children the operations of cJSON.c (size, item, adding at
  the end and at the head, detaching, replacing, with any index, negative or too large)
  keep the chain in order in both directions and do what the operations on lists do: the loops
  end, no null pointer is followed, the items of the chain are those of the list, and what
  was detached points to nothing.
\<close>

theorem chain_refines_list:
  assumes "holds s (map jmark cs)" and "loose s (jmark d)" and "jmark d \<notin> set (map jmark cs)"
  shows "ptr_size s = Some (cJSON_GetArraySize cs)
    \<and> ptr_item w s = map_option jmark (cJSON_GetArrayItem cs w)
    \<and> (\<exists>t. ptr_add (jmark d) s = Some t \<and> holds t (map jmark (cJSON_AddItemToArray cs d)))
    \<and> holds (ptr_add_head (jmark d) s) (map jmark (cJSON_AddItemToArrayHead cs d))
    \<and> (\<exists>t. ptr_detach w s = (map_option jmark (fst (cJSON_DetachItemFromArray cs w)), t)
        \<and> holds t (map jmark (snd (cJSON_DetachItemFromArray cs w)))
        \<and> (\<forall>c. fst (cJSON_DetachItemFromArray cs w) = Some c \<longrightarrow> loose t (jmark c)))
    \<and> (\<exists>t. ptr_replace w (jmark d) s = Inr t \<and> holds t (map jmark (cJSON_ReplaceItemInArray cs w d)))"
proof -
  have s: "child s = first_of (map jmark cs) None" "linked s None (map jmark cs) None" using assms(1) by (simp_all add: holds_def)
  have size: "ptr_size s = Some (cJSON_GetArraySize cs)"
    using count_list [OF s(2), of 0] s(1) by (simp add: ptr_size_def cJSON_GetArraySize_def)
  have add: "\<exists>t. ptr_add (jmark d) s = Some t \<and> holds t (map jmark (cJSON_AddItemToArray cs d))"
    using holds_add [OF assms] by (simp add: cJSON_AddItemToArray_def)
  have head: "holds (ptr_add_head (jmark d) s) (map jmark (cJSON_AddItemToArrayHead cs d))"
    using holds_add_head [OF assms] by (simp add: cJSON_AddItemToArrayHead_def)
  show ?thesis
  proof (cases "nat w < length cs")
    case True
    define ys c zs where "ys = take (nat w) cs" and "c = cs ! nat w" and "zs = drop (Suc (nat w)) cs"
    have cs: "cs = ys @ c # zs" and w: "nat w = length ys"
      using True id_take_nth_drop [OF True] by (simp_all add: ys_def c_def zs_def)
    have h: "holds s (map jmark ys @ jmark c # map jmark zs)" "nat w = length (map jmark ys)" using assms(1) w by (simp_all add: cs)
    have "ptr_item w s = Some (jmark c)" using holds_split(7) [OF h(1)] w by (simp add: ptr_item_def)
    moreover obtain t where "ptr_replace w (jmark d) s = Inr t" "holds t (map jmark (cJSON_ReplaceItemInArray cs w d))"
      using holds_replace [OF h, of "jmark d"] assms(3) by (auto simp: cs replace_here [OF w])
    ultimately show ?thesis using size add head holds_detach [OF h]
      by (simp add: cs item_here [OF w] detach_here [OF w] replace_here [OF w])
  next
    case False
    then have "length cs \<le> nat w" by simp
    moreover have "goto s (child s) (nat w) = None" using goto_iff [OF s(2), of "nat w"] s(1) False by simp
    ultimately show ?thesis using size add head assms(1)
      by (simp add: item_beyond detach_beyond replace_beyond ptr_item_def ptr_detach_def ptr_replace_def)
  qed
qed

lemma chain_refines_list_witness:
  "\<exists>t. ptr_detach 1 \<lparr>nxt = (\<lambda>a. if a = 1 then Some 2 else None), prv = (\<lambda>a. if a = 2 then Some 1 else None), child = Some 1\<rparr>
     = (Some 2, t) \<and> holds t [1]"
  using chain_refines_list [of "\<lparr>nxt = (\<lambda>a. if a = 1 then Some 2 else None), prv = (\<lambda>a. if a = 2 then Some 1 else None), child = Some 1\<rparr>"
      "[CJson 1 JTrue [] None, CJson 2 JNULL [] None]" "CJson 3 (JNULL :: int jtype) [] None" 1]
  by (auto simp: holds_def loose_def)

end
