(* ===== verification/JsonObject.thy ===== *)
theory JsonObject
  imports JsonTree
begin

text \<open>
  \<open>util/CJsonObject\<close>, the C++ class around a tree of cJSON items. An object owns a tree
  (\<open>m_pJsonData\<close>), or refers to an item in a tree another object owns
  (\<open>m_pExternJsonDataRef\<close>), and owns the objects that \<open>operator[]\<close> has handed out.
  A method takes the object and the items that are alive, and returns its result, the
  object and the items; a reference parameter for a value is an optional result. An
  argument of type \<open>CJsonObject\<close> is another object than the one the method belongs to.
\<close>

section \<open>The class\<close>

text \<open>The indices of the first map are those of an \<open>unsigned int\<close>.\<close>

datatype cjo = CJO (m_pJsonData: "nat option") (m_pExternJsonDataRef: "nat option") (m_pKeyTravers: "nat option")
  (m_strErrMsg: bytes) (m_mapJsonArrayRef: "(nat \<times> cjo) list") (m_mapJsonObjectRef: "(bytes \<times> cjo) list")

type_synonym ('d, 'r) member_fun = "cjo \<Rightarrow> 'd store \<Rightarrow> fault + ('r \<times> cjo \<times> 'd store)"

definition with_data :: "nat option \<Rightarrow> cjo \<Rightarrow> cjo" where
  "with_data a ob = CJO a (m_pExternJsonDataRef ob) (m_pKeyTravers ob) (m_strErrMsg ob) (m_mapJsonArrayRef ob) (m_mapJsonObjectRef ob)"

definition with_travers :: "nat option \<Rightarrow> cjo \<Rightarrow> cjo" where
  "with_travers a ob = CJO (m_pJsonData ob) (m_pExternJsonDataRef ob) a (m_strErrMsg ob) (m_mapJsonArrayRef ob) (m_mapJsonObjectRef ob)"

definition with_error :: "bytes \<Rightarrow> cjo \<Rightarrow> cjo" where
  "with_error e ob = CJO (m_pJsonData ob) (m_pExternJsonDataRef ob) (m_pKeyTravers ob) e (m_mapJsonArrayRef ob) (m_mapJsonObjectRef ob)"

definition with_arrays :: "(nat \<times> cjo) list \<Rightarrow> cjo \<Rightarrow> cjo" where
  "with_arrays as ob = CJO (m_pJsonData ob) (m_pExternJsonDataRef ob) (m_pKeyTravers ob) (m_strErrMsg ob) as (m_mapJsonObjectRef ob)"

definition with_objects :: "(bytes \<times> cjo) list \<Rightarrow> cjo \<Rightarrow> cjo" where
  "with_objects os ob = CJO (m_pJsonData ob) (m_pExternJsonDataRef ob) (m_pKeyTravers ob) (m_strErrMsg ob) (m_mapJsonArrayRef ob) os"

definition new_cjo :: cjo where
  "new_cjo = CJO None None None [] [] []"

definition cjo_on :: "nat \<Rightarrow> cjo" where
  "cjo_on a = CJO None (Some a) (Some a) [] [] []"

text \<open>The trees an object owns, its own and those of the objects it has handed out.\<close>

primrec owned :: "cjo \<Rightarrow> nat list" where
  "owned (CJO d r k e as os) = (case d of Some a \<Rightarrow> [a] | None \<Rightarrow> [])
     @ concat (map snd (map (map_prod id owned) as)) @ concat (map snd (map (map_prod id owned) os))"

definition Clear :: "('d, unit) member_fun" where
  "Clear ob h = ebind (delete_roots (owned ob) h) (\<lambda>h'. Inr ((), CJO None None None (m_strErrMsg ob) [] [], h'))"

text \<open>The item the methods work on: the own tree comes first.\<close>

definition focus :: "cjo \<Rightarrow> nat option" where
  "focus ob = (case m_pJsonData ob of Some a \<Rightarrow> Some a | None \<Rightarrow> m_pExternJsonDataRef ob)"

definition IsEmpty :: "cjo \<Rightarrow> bool" where
  "IsEmpty ob \<longleftrightarrow> focus ob = None"

definition IsArray :: "cjo \<Rightarrow> 'd store \<Rightarrow> fault + bool" where
  "IsArray ob h = (case focus ob of None \<Rightarrow> Inr False | Some a \<Rightarrow> ebind (deref h a) (\<lambda>c. Inr (jtype c = JArray)))"

definition print_with :: "('d item \<Rightarrow> fault + bytes) \<Rightarrow> cjo \<Rightarrow> 'd store \<Rightarrow> fault + bytes" where
  "print_with pr ob h = (case focus ob of None \<Rightarrow> Inr [] | Some a \<Rightarrow> ebind (deref h a) pr)"

definition ToString :: "('d, 'x) numbers_scheme \<Rightarrow> cjo \<Rightarrow> 'd store \<Rightarrow> fault + bytes" where
  "ToString fl ob h = print_with (cJSON_PrintUnformatted (floats.truncate fl)) ob h"

definition ToFormattedString :: "('d, 'x) numbers_scheme \<Rightarrow> cjo \<Rightarrow> 'd store \<Rightarrow> fault + bytes" where
  "ToFormattedString fl ob h = print_with (cJSON_Print (floats.truncate fl)) ob h"

text \<open>The parser always returns (\<open>parse_returns\<close>), so the case without fuel does not arise.\<close>

definition parse_error :: bytes where
  "parse_error = ''prase json string error at ''"

definition Parse :: "('d, 'x) numbers_scheme \<Rightarrow> bytes \<Rightarrow> ('d, bool) member_fun" where
  "Parse fl strJson ob h =
     ebind (Clear ob h) (\<lambda>(u, ob1, h1).
       case cJSON_Parse (floats.truncate fl) (c_str strJson) of
         Parsed t rest \<Rightarrow> (let (a, h2) = new_root t h1 in Inr (True, with_travers (Some a) (with_data (Some a) ob1), h2))
       | Stopped ep \<Rightarrow> Inr (False, with_error (parse_error @ ep) ob1, h1)
       | Faulty e \<Rightarrow> Inl e
       | Fuel_out \<Rightarrow> Inl Out_of_range)"

definition assign :: "('d, 'x) numbers_scheme \<Rightarrow> cjo \<Rightarrow> ('d, bool) member_fun" where
  "assign fl oJsonObject ob h = ebind (ToString fl oJsonObject h) (\<lambda>s. Parse fl s ob h)"

definition copy_cjo :: "('d, 'x) numbers_scheme \<Rightarrow> cjo \<Rightarrow> 'd store \<Rightarrow> fault + (bool \<times> cjo \<times> 'd store)" where
  "copy_cjo fl oJsonObject h = assign fl oJsonObject new_cjo h"

definition same_text :: "('d, 'x) numbers_scheme \<Rightarrow> cjo \<Rightarrow> cjo \<Rightarrow> 'd store \<Rightarrow> fault + bool" where
  "same_text fl o1 o2 h = ebind (ToString fl o1 h) (\<lambda>s. ebind (ToString fl o2 h) (\<lambda>t. Inr (s = t)))"

section \<open>Walking over the keys\<close>

text \<open>A null \<open>string\<close> cannot become a \<open>std::string\<close>.\<close>

definition GetKey :: "('d, bytes option) member_fun" where
  "GetKey ob h =
     ebind (IsArray ob h) (\<lambda>is_array.
       if is_array then Inr (None, ob, h)
       else case m_pKeyTravers ob of
         None \<Rightarrow> Inr (None, with_travers (focus ob) ob, h)
       | Some k \<Rightarrow>
         if m_pJsonData ob = Some k \<or> m_pExternJsonDataRef ob = Some k then
           ebind (deref h k) (\<lambda>p. case jchild p of
               [] \<Rightarrow> Inr (None, ob, h)
             | c # cs \<Rightarrow> (case jstring c of
                 None \<Rightarrow> Inl Null_deref
               | Some key \<Rightarrow> Inr (Some key, with_travers (if cs = [] then None else Some (jmark (hd cs))) ob, h)))
         else
           ebind (deref h k) (\<lambda>c. case jstring c of
               None \<Rightarrow> Inl Null_deref
             | Some key \<Rightarrow> (case next_of_roots k (live h) of
                 None \<Rightarrow> Inl Out_of_range
               | Some n \<Rightarrow> Inr (Some key, with_travers n ob, h))))"

definition ResetTraversing :: "cjo \<Rightarrow> cjo" where
  "ResetTraversing ob = with_travers (focus ob) ob"

section \<open>Looking up\<close>

definition found :: "'d jtype \<Rightarrow> ('d item list \<Rightarrow> 'd item option) \<Rightarrow> cjo \<Rightarrow> 'd store \<Rightarrow> fault + 'd item option" where
  "found t pick ob h =
     (case focus ob of
        None \<Rightarrow> Inr None
      | Some a \<Rightarrow> ebind (deref h a) (\<lambda>c. Inr (if jtype c = t then pick (jchild c) else None)))"

definition found_key :: "bytes \<Rightarrow> cjo \<Rightarrow> 'd store \<Rightarrow> fault + 'd item option" where
  "found_key strKey = found JObject (\<lambda>cs. cJSON_GetObjectItem cs strKey)"

definition found_index :: "int \<Rightarrow> cjo \<Rightarrow> 'd store \<Rightarrow> fault + 'd item option" where
  "found_index iWhich = found JArray (\<lambda>cs. cJSON_GetArrayItem cs iWhich)"

text \<open>\<open>operator[]\<close> hands out a reference; what is done with it happens to the object in the map.\<close>

definition at_key :: "bytes \<Rightarrow> ('d, cjo) member_fun" where
  "at_key strKey ob h =
     (case map_of (m_mapJsonObjectRef ob) strKey of
        Some w \<Rightarrow> Inr (w, ob, h)
      | None \<Rightarrow> ebind (found_key strKey ob h) (\<lambda>c.
          let w = (case c of None \<Rightarrow> new_cjo | Some i \<Rightarrow> cjo_on (jmark i))
          in Inr (w, with_objects (m_mapJsonObjectRef ob @ [(strKey, w)]) ob, h)))"

text \<open>The \<open>unsigned int\<close> is converted to the \<open>int\<close> of \<open>cJSON_GetArrayItem\<close>.\<close>

definition at_index :: "nat \<Rightarrow> ('d, cjo) member_fun" where
  "at_index uiWhich ob h =
     (case map_of (m_mapJsonArrayRef ob) uiWhich of
        Some w \<Rightarrow> Inr (w, ob, h)
      | None \<Rightarrow> ebind (found_index (wrap_signed 32 (int uiWhich)) ob h) (\<lambda>c.
          let w = (case c of None \<Rightarrow> new_cjo | Some i \<Rightarrow> cjo_on (jmark i))
          in Inr (w, with_arrays (m_mapJsonArrayRef ob @ [(uiWhich, w)]) ob, h)))"

fun put_at :: "'k \<Rightarrow> 'v \<Rightarrow> ('k \<times> 'v) list \<Rightarrow> ('k \<times> 'v) list" where
  "put_at k v [] = []"
| "put_at k v ((x, w) # kvs) = (if x = k then (x, v) # kvs else (x, w) # put_at k v kvs)"

definition via_key :: "bytes \<Rightarrow> ('d, 'r) member_fun \<Rightarrow> ('d, 'r) member_fun" where
  "via_key strKey f ob h =
     ebind (at_key strKey ob h) (\<lambda>(w, ob1, h1).
       ebind (f w h1) (\<lambda>(r, w', h2). Inr (r, with_objects (put_at strKey w' (m_mapJsonObjectRef ob1)) ob1, h2)))"

definition via_index :: "nat \<Rightarrow> ('d, 'r) member_fun \<Rightarrow> ('d, 'r) member_fun" where
  "via_index uiWhich f ob h =
     ebind (at_index uiWhich ob h) (\<lambda>(w, ob1, h1).
       ebind (f w h1) (\<lambda>(r, w', h2). Inr (r, with_arrays (put_at uiWhich w' (m_mapJsonArrayRef ob1)) ob1, h2)))"

text \<open>\<open>operator()\<close>: a double is formatted, and then nothing is returned.\<close>

definition shown :: "'d item \<Rightarrow> bytes" where
  "shown c = (case jtype c of
      JString s \<Rightarrow> s
    | JInt sign v d \<Rightarrow>
        (if sign = - 1 then signed_text v
         else if v mod 2 ^ 64 \<le> 2 ^ 32 - 1 then decimal (nat (v mod 2 ^ 32))
         else decimal (nat (v mod 2 ^ 64)))
    | JFalse \<Rightarrow> ''false''
    | JTrue \<Rightarrow> ''true''
    | _ \<Rightarrow> [])"

definition shown_item :: "fault + 'd item option \<Rightarrow> fault + bytes" where
  "shown_item f = ebind f (\<lambda>c. Inr (case c of None \<Rightarrow> [] | Some i \<Rightarrow> shown i))"

definition text_of_key :: "bytes \<Rightarrow> cjo \<Rightarrow> 'd store \<Rightarrow> fault + bytes" where
  "text_of_key strKey ob h = shown_item (found_key strKey ob h)"

definition text_of_index :: "nat \<Rightarrow> cjo \<Rightarrow> 'd store \<Rightarrow> fault + bytes" where
  "text_of_index uiWhich ob h = shown_item (found_index (wrap_signed 32 (int uiWhich)) ob h)"

section \<open>Get\<close>

text \<open>The result is \<open>None\<close> where the method returns false and leaves its reference parameter alone.\<close>

definition read_item :: "('d item \<Rightarrow> fault + 'v option) \<Rightarrow> fault + 'd item option \<Rightarrow> fault + 'v option" where
  "read_item rd f = ebind f (\<lambda>c. case c of None \<Rightarrow> Inr None | Some i \<Rightarrow> rd i)"

definition read_string :: "'d item \<Rightarrow> fault + bytes option" where
  "read_string c = Inr (case jtype c of JString s \<Rightarrow> Some s | _ \<Rightarrow> None)"

text \<open>An integer is converted, a double is converted if its integer part fits.\<close>

definition read_integer :: "('d, 'x) numbers_scheme \<Rightarrow> int \<Rightarrow> int \<Rightarrow> (int \<Rightarrow> int) \<Rightarrow> 'd item \<Rightarrow> fault + int option" where
  "read_integer fl lo hi conv c =
     (case jtype c of
        JInt sign v d \<Rightarrow> Inr (Some (conv v))
      | JDouble sign v d \<Rightarrow> ebind (fits lo hi (trunc fl d)) (\<lambda>n. Inr (Some n))
      | _ \<Rightarrow> Inr None)"

definition read_int32 :: "('d, 'x) numbers_scheme \<Rightarrow> 'd item \<Rightarrow> fault + int option" where
  "read_int32 fl = read_integer fl (- (2 ^ 31)) (2 ^ 31) (wrap_signed 32)"

definition read_uint32 :: "('d, 'x) numbers_scheme \<Rightarrow> 'd item \<Rightarrow> fault + int option" where
  "read_uint32 fl = read_integer fl 0 (2 ^ 32) (\<lambda>v. v mod 2 ^ 32)"

definition read_int64 :: "('d, 'x) numbers_scheme \<Rightarrow> 'd item \<Rightarrow> fault + int option" where
  "read_int64 fl = read_integer fl (- (2 ^ 63)) (2 ^ 63) id"

definition read_uint64 :: "('d, 'x) numbers_scheme \<Rightarrow> 'd item \<Rightarrow> fault + int option" where
  "read_uint64 fl = read_integer fl 0 (2 ^ 64) to_uint64"

text \<open>The types \<open>cJSON_False\<close> and \<open>cJSON_True\<close> are 0 and 1.\<close>

definition read_bool :: "'d item \<Rightarrow> fault + bool option" where
  "read_bool c = Inr (case jtype c of JFalse \<Rightarrow> Some False | JTrue \<Rightarrow> Some True | _ \<Rightarrow> None)"

definition read_double :: "'d item \<Rightarrow> fault + 'd option" where
  "read_double c = Inr (case jtype c of JInt sign v d \<Rightarrow> Some d | JDouble sign v d \<Rightarrow> Some d | _ \<Rightarrow> None)"

definition read_float :: "('d, 'x) numbers_scheme \<Rightarrow> 'd item \<Rightarrow> fault + 'd option" where
  "read_float fl c = ebind (read_double c) (\<lambda>d. Inr (map_option (to_float fl) d))"

definition read_null :: "'d item \<Rightarrow> fault + unit option" where
  "read_null c = Inr (if jtype c = JNULL then Some () else None)"

text \<open>A \<open>CJsonObject\<close> as reference parameter parses the printed item.\<close>

definition read_object :: "('d, 'x) numbers_scheme \<Rightarrow> fault + 'd item option \<Rightarrow> ('d, bool) member_fun" where
  "read_object fl f oJsonObject h =
     ebind f (\<lambda>c. case c of
         None \<Rightarrow> Inr (False, oJsonObject, h)
       | Some i \<Rightarrow> ebind (cJSON_Print (floats.truncate fl) i) (\<lambda>s. Parse fl s oJsonObject h))"

definition Get_key_string :: "bytes \<Rightarrow> cjo \<Rightarrow> 'd store \<Rightarrow> fault + bytes option" where
  "Get_key_string strKey ob h = read_item read_string (found_key strKey ob h)"

definition Get_key_int32 :: "('d, 'x) numbers_scheme \<Rightarrow> bytes \<Rightarrow> cjo \<Rightarrow> 'd store \<Rightarrow> fault + int option" where
  "Get_key_int32 fl strKey ob h = read_item (read_int32 fl) (found_key strKey ob h)"

definition Get_key_uint32 :: "('d, 'x) numbers_scheme \<Rightarrow> bytes \<Rightarrow> cjo \<Rightarrow> 'd store \<Rightarrow> fault + int option" where
  "Get_key_uint32 fl strKey ob h = read_item (read_uint32 fl) (found_key strKey ob h)"

definition Get_key_int64 :: "('d, 'x) numbers_scheme \<Rightarrow> bytes \<Rightarrow> cjo \<Rightarrow> 'd store \<Rightarrow> fault + int option" where
  "Get_key_int64 fl strKey ob h = read_item (read_int64 fl) (found_key strKey ob h)"

definition Get_key_uint64 :: "('d, 'x) numbers_scheme \<Rightarrow> bytes \<Rightarrow> cjo \<Rightarrow> 'd store \<Rightarrow> fault + int option" where
  "Get_key_uint64 fl strKey ob h = read_item (read_uint64 fl) (found_key strKey ob h)"

definition Get_key_bool :: "bytes \<Rightarrow> cjo \<Rightarrow> 'd store \<Rightarrow> fault + bool option" where
  "Get_key_bool strKey ob h = read_item read_bool (found_key strKey ob h)"

definition Get_key_float :: "('d, 'x) numbers_scheme \<Rightarrow> bytes \<Rightarrow> cjo \<Rightarrow> 'd store \<Rightarrow> fault + 'd option" where
  "Get_key_float fl strKey ob h = read_item (read_float fl) (found_key strKey ob h)"

definition Get_key_double :: "bytes \<Rightarrow> cjo \<Rightarrow> 'd store \<Rightarrow> fault + 'd option" where
  "Get_key_double strKey ob h = read_item read_double (found_key strKey ob h)"

definition Get_key_object :: "('d, 'x) numbers_scheme \<Rightarrow> bytes \<Rightarrow> cjo \<Rightarrow> ('d, bool) member_fun" where
  "Get_key_object fl strKey ob oJsonObject h = read_object fl (found_key strKey ob h) oJsonObject h"

definition IsNull_key :: "bytes \<Rightarrow> cjo \<Rightarrow> 'd store \<Rightarrow> fault + unit option" where
  "IsNull_key strKey ob h = read_item read_null (found_key strKey ob h)"

definition Get_index_string :: "int \<Rightarrow> cjo \<Rightarrow> 'd store \<Rightarrow> fault + bytes option" where
  "Get_index_string iWhich ob h = read_item read_string (found_index iWhich ob h)"

definition Get_index_int32 :: "('d, 'x) numbers_scheme \<Rightarrow> int \<Rightarrow> cjo \<Rightarrow> 'd store \<Rightarrow> fault + int option" where
  "Get_index_int32 fl iWhich ob h = read_item (read_int32 fl) (found_index iWhich ob h)"

definition Get_index_uint32 :: "('d, 'x) numbers_scheme \<Rightarrow> int \<Rightarrow> cjo \<Rightarrow> 'd store \<Rightarrow> fault + int option" where
  "Get_index_uint32 fl iWhich ob h = read_item (read_uint32 fl) (found_index iWhich ob h)"

definition Get_index_int64 :: "('d, 'x) numbers_scheme \<Rightarrow> int \<Rightarrow> cjo \<Rightarrow> 'd store \<Rightarrow> fault + int option" where
  "Get_index_int64 fl iWhich ob h = read_item (read_int64 fl) (found_index iWhich ob h)"

definition Get_index_uint64 :: "('d, 'x) numbers_scheme \<Rightarrow> int \<Rightarrow> cjo \<Rightarrow> 'd store \<Rightarrow> fault + int option" where
  "Get_index_uint64 fl iWhich ob h = read_item (read_uint64 fl) (found_index iWhich ob h)"

definition Get_index_bool :: "int \<Rightarrow> cjo \<Rightarrow> 'd store \<Rightarrow> fault + bool option" where
  "Get_index_bool iWhich ob h = read_item read_bool (found_index iWhich ob h)"

definition Get_index_float :: "('d, 'x) numbers_scheme \<Rightarrow> int \<Rightarrow> cjo \<Rightarrow> 'd store \<Rightarrow> fault + 'd option" where
  "Get_index_float fl iWhich ob h = read_item (read_float fl) (found_index iWhich ob h)"

definition Get_index_double :: "int \<Rightarrow> cjo \<Rightarrow> 'd store \<Rightarrow> fault + 'd option" where
  "Get_index_double iWhich ob h = read_item read_double (found_index iWhich ob h)"

definition Get_index_object :: "('d, 'x) numbers_scheme \<Rightarrow> int \<Rightarrow> cjo \<Rightarrow> ('d, bool) member_fun" where
  "Get_index_object fl iWhich ob oJsonObject h = read_object fl (found_index iWhich ob h) oJsonObject h"

definition IsNull_index :: "int \<Rightarrow> cjo \<Rightarrow> 'd store \<Rightarrow> fault + unit option" where
  "IsNull_index iWhich ob h = read_item read_null (found_index iWhich ob h)"

definition GetArraySize :: "cjo \<Rightarrow> 'd store \<Rightarrow> fault + nat" where
  "GetArraySize ob h =
     (case focus ob of
        None \<Rightarrow> Inr 0
      | Some a \<Rightarrow> ebind (deref h a) (\<lambda>c. Inr (if jtype c = JArray then cJSON_GetArraySize (jchild c) else 0)))"

section \<open>Forgetting what was handed out\<close>

definition forget_key :: "bytes \<Rightarrow> cjo \<Rightarrow> 'd store \<Rightarrow> fault + (cjo \<times> 'd store)" where
  "forget_key strKey ob h =
     ebind (delete_roots (concat (map (owned \<circ> snd) (filter (\<lambda>(k, w). k = strKey) (m_mapJsonObjectRef ob)))) h) (\<lambda>h'.
       Inr (with_objects (filter (\<lambda>(k, w). k \<noteq> strKey) (m_mapJsonObjectRef ob)) ob, h'))"

definition forget_indices :: "(nat \<Rightarrow> bool) \<Rightarrow> cjo \<Rightarrow> 'd store \<Rightarrow> fault + (cjo \<times> 'd store)" where
  "forget_indices p ob h =
     ebind (delete_roots (concat (map (owned \<circ> snd) (filter (p \<circ> fst) (m_mapJsonArrayRef ob)))) h) (\<lambda>h'.
       Inr (with_arrays (filter (Not \<circ> p \<circ> fst) (m_mapJsonArrayRef ob)) ob, h'))"

definition as_index :: "int \<Rightarrow> nat" where
  "as_index iWhich = nat (iWhich mod 2 ^ 32)"

section \<open>Add\<close>

definition not_object :: bytes where
  "not_object = ''not a json object! json array?''"

definition not_array :: bytes where
  "not_array = ''not a json array! json object?''"

definition no_data :: bytes where
  "no_data = ''json data is null!''"

text \<open>An object without data becomes one of the type that is needed.\<close>

definition object_focus :: "cjo \<Rightarrow> 'd store \<Rightarrow> nat \<times> cjo \<times> 'd store" where
  "object_focus ob h =
     (case focus ob of
        Some a \<Rightarrow> (a, ob, h)
      | None \<Rightarrow> (let (a, h1) = new_root cJSON_CreateObject h in (a, with_travers (Some a) (with_data (Some a) ob), h1)))"

definition array_focus :: "cjo \<Rightarrow> 'd store \<Rightarrow> nat \<times> cjo \<times> 'd store" where
  "array_focus ob h =
     (case focus ob of
        Some a \<Rightarrow> (a, ob, h)
      | None \<Rightarrow> (let (a, h1) = new_root cJSON_CreateArray h in (a, with_data (Some a) ob, h1)))"

text \<open>The checks that every \<open>Add\<close> with a key makes, and what it does next.\<close>

definition adding_key :: "bytes \<Rightarrow> (nat \<Rightarrow> ('d, bool) member_fun) \<Rightarrow> ('d, bool) member_fun" where
  "adding_key strKey f ob h =
     (let (a, ob1, h1) = object_focus ob h in
      ebind (deref h1 a) (\<lambda>c.
        if jtype c \<noteq> JObject then Inr (False, with_error not_object ob1, h1)
        else if cJSON_GetObjectItem (jchild c) strKey \<noteq> None then Inr (False, with_error ''key exists!'' ob1, h1)
        else f a ob1 h1))"

definition link_key :: "nat \<Rightarrow> bytes \<Rightarrow> (unit, 'd) cJSON \<Rightarrow> 'd store \<Rightarrow> 'd store" where
  "link_key a strKey t h = link_new a (\<lambda>i cs. cJSON_AddItemToObject cs strKey i) t h"

definition AddEmptySubObject :: "bytes \<Rightarrow> ('d, bool) member_fun" where
  "AddEmptySubObject strKey =
     adding_key strKey (\<lambda>a ob h. Inr (True, with_travers (Some a) ob, link_key a strKey cJSON_CreateObject h))"

definition AddEmptySubArray :: "bytes \<Rightarrow> ('d, bool) member_fun" where
  "AddEmptySubArray strKey =
     adding_key strKey (\<lambda>a ob h. Inr (True, with_travers (Some a) ob, link_key a strKey cJSON_CreateArray h))"

definition add_value :: "bytes \<Rightarrow> fault + (unit, 'd) cJSON \<Rightarrow> ('d, bool) member_fun" where
  "add_value strKey new =
     adding_key strKey (\<lambda>a ob h. ebind new (\<lambda>t.
       let h1 = link_key a strKey t h in
       ebind (deref h1 a) (\<lambda>c.
         if cJSON_GetObjectItem (jchild c) strKey = None then Inr (False, ob, h1)
         else Inr (True, with_travers (Some a) ob, h1))))"

text \<open>
  The text of another object is parsed. If that fails, \<open>cJSON_GetErrorPtr\<close> points into a
  temporary string that is gone.
\<close>

definition parsed_copy :: "('d, 'x) numbers_scheme \<Rightarrow> cjo \<Rightarrow> 'd store \<Rightarrow> fault + (unit, 'd) cJSON" where
  "parsed_copy fl oJsonObject h =
     ebind (ToString fl oJsonObject h) (\<lambda>s. case cJSON_Parse (floats.truncate fl) (c_str s) of
         Parsed t rest \<Rightarrow> Inr t
       | Faulty e \<Rightarrow> Inl e
       | _ \<Rightarrow> Inl Out_of_range)"

definition Add_key_object :: "('d, 'x) numbers_scheme \<Rightarrow> bytes \<Rightarrow> cjo \<Rightarrow> ('d, bool) member_fun" where
  "Add_key_object fl strKey oJsonObject =
     adding_key strKey (\<lambda>a ob h. ebind (parsed_copy fl oJsonObject h) (\<lambda>t.
       let h1 = link_key a strKey t h in
       ebind (deref h1 a) (\<lambda>c.
         if cJSON_GetObjectItem (jchild c) strKey = None then Inr (False, ob, h1)
         else ebind (forget_key strKey ob h1) (\<lambda>(ob2, h2). Inr (True, with_travers (Some a) ob2, h2)))))"

definition Add_key_string :: "bytes \<Rightarrow> bytes \<Rightarrow> ('d, bool) member_fun" where
  "Add_key_string strKey strValue = add_value strKey (Inr (cJSON_CreateString strValue))"

definition Add_key_int32 :: "('d, 'x) numbers_scheme \<Rightarrow> bytes \<Rightarrow> int \<Rightarrow> ('d, bool) member_fun" where
  "Add_key_int32 fl strKey iValue = add_value strKey (Inr (cJSON_CreateInt fl (to_uint64 iValue) (- 1)))"

definition Add_key_uint32 :: "('d, 'x) numbers_scheme \<Rightarrow> bytes \<Rightarrow> int \<Rightarrow> ('d, bool) member_fun" where
  "Add_key_uint32 fl strKey uiValue = add_value strKey (Inr (cJSON_CreateInt fl (to_uint64 uiValue) 1))"

definition Add_key_int64 :: "('d, 'x) numbers_scheme \<Rightarrow> bytes \<Rightarrow> int \<Rightarrow> ('d, bool) member_fun" where
  "Add_key_int64 fl strKey llValue = add_value strKey (Inr (cJSON_CreateInt fl (to_uint64 llValue) (- 1)))"

definition Add_key_uint64 :: "('d, 'x) numbers_scheme \<Rightarrow> bytes \<Rightarrow> int \<Rightarrow> ('d, bool) member_fun" where
  "Add_key_uint64 fl strKey ullValue = add_value strKey (Inr (cJSON_CreateInt fl ullValue 1))"

definition Add_key_bool :: "bytes \<Rightarrow> bool \<Rightarrow> ('d, bool) member_fun" where
  "Add_key_bool strKey bValue = add_value strKey (Inr (cJSON_CreateBool bValue))"

definition Add_key_float :: "('d, 'x) numbers_scheme \<Rightarrow> bytes \<Rightarrow> 'd \<Rightarrow> ('d, bool) member_fun" where
  "Add_key_float fl strKey fValue = add_value strKey (cJSON_CreateDouble fl fValue (- 1))"

definition Add_key_double :: "('d, 'x) numbers_scheme \<Rightarrow> bytes \<Rightarrow> 'd \<Rightarrow> ('d, bool) member_fun" where
  "Add_key_double fl strKey dValue = add_value strKey (cJSON_CreateDouble fl dValue (- 1))"

definition AddNull_key :: "bytes \<Rightarrow> ('d, bool) member_fun" where
  "AddNull_key strKey = add_value strKey (Inr cJSON_CreateNull)"

text \<open>Without a key the object is an array. The size is an \<open>int\<close>; it never repeats.\<close>

definition adding_item :: "(nat \<Rightarrow> ('d, bool) member_fun) \<Rightarrow> ('d, bool) member_fun" where
  "adding_item f ob h =
     (let (a, ob1, h1) = array_focus ob h in
      ebind (deref h1 a) (\<lambda>c.
        if jtype c \<noteq> JArray then Inr (False, with_error not_array ob1, h1)
        else f a ob1 h1))"

definition size_at :: "nat \<Rightarrow> 'd store \<Rightarrow> fault + nat" where
  "size_at a h = ebind (deref h a) (\<lambda>c. Inr (cJSON_GetArraySize (jchild c)))"

definition link_item :: "('d item \<Rightarrow> 'd item list \<Rightarrow> 'd item list) \<Rightarrow> fault + (unit, 'd) cJSON \<Rightarrow> nat \<Rightarrow> ('d, bool) member_fun" where
  "link_item add new a ob h =
     ebind new (\<lambda>t. ebind (size_at a h) (\<lambda>before.
       let h1 = link_new a add t h in
       ebind (size_at a h1) (\<lambda>after. Inr (after \<noteq> before, ob, h1))))"

definition add_item :: "fault + (unit, 'd) cJSON \<Rightarrow> ('d, bool) member_fun" where
  "add_item new = adding_item (link_item (\<lambda>i cs. cJSON_AddItemToArray cs i) new)"

definition add_first :: "fault + (unit, 'd) cJSON \<Rightarrow> ('d, bool) member_fun" where
  "add_first new = adding_item (link_item (\<lambda>i cs. cJSON_AddItemToArrayHead cs i) new)"

definition Add_object :: "('d, 'x) numbers_scheme \<Rightarrow> cjo \<Rightarrow> ('d, bool) member_fun" where
  "Add_object fl oJsonObject =
     adding_item (\<lambda>a ob h.
       ebind (link_item (\<lambda>i cs. cJSON_AddItemToArray cs i) (parsed_copy fl oJsonObject h) a ob h) (\<lambda>(ok, ob1, h1).
         if \<not> ok then Inr (False, ob1, h1)
         else ebind (size_at a h1) (\<lambda>n.
           ebind (forget_indices (\<lambda>k. as_index (int n - 1) \<le> k) ob1 h1) (\<lambda>(ob2, h2). Inr (True, ob2, h2)))))"

definition AddAsFirst_object :: "('d, 'x) numbers_scheme \<Rightarrow> cjo \<Rightarrow> ('d, bool) member_fun" where
  "AddAsFirst_object fl oJsonObject =
     adding_item (\<lambda>a ob h.
       ebind (link_item (\<lambda>i cs. cJSON_AddItemToArrayHead cs i) (parsed_copy fl oJsonObject h) a ob h) (\<lambda>(ok, ob1, h1).
         if \<not> ok then Inr (False, ob1, h1)
         else ebind (forget_indices (\<lambda>k. True) ob1 h1) (\<lambda>(ob2, h2). Inr (True, ob2, h2))))"

definition Add_string :: "bytes \<Rightarrow> ('d, bool) member_fun" where
  "Add_string strValue = add_item (Inr (cJSON_CreateString strValue))"

definition Add_int32 :: "('d, 'x) numbers_scheme \<Rightarrow> int \<Rightarrow> ('d, bool) member_fun" where
  "Add_int32 fl iValue = add_item (Inr (cJSON_CreateInt fl (to_uint64 iValue) (- 1)))"

definition Add_uint32 :: "('d, 'x) numbers_scheme \<Rightarrow> int \<Rightarrow> ('d, bool) member_fun" where
  "Add_uint32 fl uiValue = add_item (Inr (cJSON_CreateInt fl (to_uint64 uiValue) 1))"

definition Add_int64 :: "('d, 'x) numbers_scheme \<Rightarrow> int \<Rightarrow> ('d, bool) member_fun" where
  "Add_int64 fl llValue = add_item (Inr (cJSON_CreateInt fl (to_uint64 llValue) (- 1)))"

definition Add_uint64 :: "('d, 'x) numbers_scheme \<Rightarrow> int \<Rightarrow> ('d, bool) member_fun" where
  "Add_uint64 fl ullValue = add_item (Inr (cJSON_CreateInt fl ullValue 1))"

definition Add_bool :: "bool \<Rightarrow> ('d, bool) member_fun" where
  "Add_bool bValue = add_item (Inr (cJSON_CreateBool bValue))"

definition Add_float :: "('d, 'x) numbers_scheme \<Rightarrow> 'd \<Rightarrow> ('d, bool) member_fun" where
  "Add_float fl fValue = add_item (cJSON_CreateDouble fl fValue (- 1))"

definition Add_double :: "('d, 'x) numbers_scheme \<Rightarrow> 'd \<Rightarrow> ('d, bool) member_fun" where
  "Add_double fl dValue = add_item (cJSON_CreateDouble fl dValue (- 1))"

definition AddNull :: "('d, bool) member_fun" where
  "AddNull = add_item (Inr cJSON_CreateNull)"

definition AddAsFirst_string :: "bytes \<Rightarrow> ('d, bool) member_fun" where
  "AddAsFirst_string strValue = add_first (Inr (cJSON_CreateString strValue))"

definition AddAsFirst_int32 :: "('d, 'x) numbers_scheme \<Rightarrow> int \<Rightarrow> ('d, bool) member_fun" where
  "AddAsFirst_int32 fl iValue = add_first (Inr (cJSON_CreateInt fl (to_uint64 iValue) (- 1)))"

definition AddAsFirst_uint32 :: "('d, 'x) numbers_scheme \<Rightarrow> int \<Rightarrow> ('d, bool) member_fun" where
  "AddAsFirst_uint32 fl uiValue = add_first (Inr (cJSON_CreateInt fl (to_uint64 uiValue) (- 1)))"

definition AddAsFirst_int64 :: "('d, 'x) numbers_scheme \<Rightarrow> int \<Rightarrow> ('d, bool) member_fun" where
  "AddAsFirst_int64 fl llValue = add_first (Inr (cJSON_CreateInt fl (to_uint64 llValue) (- 1)))"

definition AddAsFirst_uint64 :: "('d, 'x) numbers_scheme \<Rightarrow> int \<Rightarrow> ('d, bool) member_fun" where
  "AddAsFirst_uint64 fl ullValue = add_first (Inr (cJSON_CreateInt fl ullValue (- 1)))"

definition AddAsFirst_bool :: "bool \<Rightarrow> ('d, bool) member_fun" where
  "AddAsFirst_bool bValue = add_first (Inr (cJSON_CreateBool bValue))"

definition AddAsFirst_float :: "('d, 'x) numbers_scheme \<Rightarrow> 'd \<Rightarrow> ('d, bool) member_fun" where
  "AddAsFirst_float fl fValue = add_first (cJSON_CreateDouble fl fValue (- 1))"

definition AddAsFirst_double :: "('d, 'x) numbers_scheme \<Rightarrow> 'd \<Rightarrow> ('d, bool) member_fun" where
  "AddAsFirst_double fl dValue = add_first (cJSON_CreateDouble fl dValue (- 1))"

definition AddNullAsFirst :: "('d, bool) member_fun" where
  "AddNullAsFirst = add_first (Inr cJSON_CreateNull)"

section \<open>Delete and Replace\<close>

text \<open>The checks these methods make; an object without data stays so.\<close>

definition editing :: "'d jtype \<Rightarrow> bytes \<Rightarrow> (nat \<Rightarrow> ('d, bool) member_fun) \<Rightarrow> ('d, bool) member_fun" where
  "editing t msg f ob h =
     (case focus ob of
        None \<Rightarrow> Inr (False, with_error no_data ob, h)
      | Some a \<Rightarrow> ebind (deref h a) (\<lambda>c. if jtype c \<noteq> t then Inr (False, with_error msg ob, h) else f a ob h))"

definition Delete_key :: "bytes \<Rightarrow> ('d, bool) member_fun" where
  "Delete_key strKey =
     editing JObject not_object (\<lambda>a ob h.
       ebind (forget_key strKey ob (change a (\<lambda>cs. cJSON_DeleteItemFromObject cs strKey) h)) (\<lambda>(ob1, h1).
         Inr (True, with_travers (Some a) ob1, h1)))"

definition Delete_index :: "int \<Rightarrow> ('d, bool) member_fun" where
  "Delete_index iWhich =
     editing JArray not_array (\<lambda>a ob h.
       ebind (forget_indices (\<lambda>k. as_index iWhich \<le> k) ob (change a (\<lambda>cs. cJSON_DeleteItemFromArray cs iWhich) h)) (\<lambda>(ob1, h1).
         Inr (True, ob1, h1)))"

definition relink_key :: "nat \<Rightarrow> bytes \<Rightarrow> (unit, 'd) cJSON \<Rightarrow> 'd store \<Rightarrow> fault + (bool \<times> 'd store)" where
  "relink_key a strKey t h =
     (let h1 = link_new a (\<lambda>i cs. cJSON_ReplaceItemInObject cs strKey i) t h in
      ebind (deref h1 a) (\<lambda>c. Inr (cJSON_GetObjectItem (jchild c) strKey \<noteq> None, h1)))"

definition relink_index :: "nat \<Rightarrow> int \<Rightarrow> (unit, 'd) cJSON \<Rightarrow> 'd store \<Rightarrow> fault + (bool \<times> 'd store)" where
  "relink_index a iWhich t h =
     (let h1 = link_new a (\<lambda>i cs. cJSON_ReplaceItemInArray cs iWhich i) t h in
      ebind (deref h1 a) (\<lambda>c. Inr (cJSON_GetArrayItem (jchild c) iWhich \<noteq> None, h1)))"

definition replace_value :: "bytes \<Rightarrow> fault + (unit, 'd) cJSON \<Rightarrow> ('d, bool) member_fun" where
  "replace_value strKey new =
     editing JObject not_object (\<lambda>a ob h. ebind new (\<lambda>t.
       ebind (forget_key strKey ob h) (\<lambda>(ob1, h1).
         ebind (relink_key a strKey t h1) (\<lambda>(ok, h2). Inr (ok, ob1, h2)))))"

definition replace_item :: "int \<Rightarrow> fault + (unit, 'd) cJSON \<Rightarrow> ('d, bool) member_fun" where
  "replace_item iWhich new =
     editing JArray not_array (\<lambda>a ob h. ebind new (\<lambda>t.
       ebind (forget_indices (\<lambda>k. k = as_index iWhich) ob h) (\<lambda>(ob1, h1).
         ebind (relink_index a iWhich t h1) (\<lambda>(ok, h2). Inr (ok, ob1, h2)))))"

definition Replace_key_object :: "('d, 'x) numbers_scheme \<Rightarrow> bytes \<Rightarrow> cjo \<Rightarrow> ('d, bool) member_fun" where
  "Replace_key_object fl strKey oJsonObject =
     editing JObject not_object (\<lambda>a ob h. ebind (parsed_copy fl oJsonObject h) (\<lambda>t.
       ebind (relink_key a strKey t h) (\<lambda>(ok, h1).
         if \<not> ok then Inr (False, ob, h1)
         else ebind (forget_key strKey ob h1) (\<lambda>(ob2, h2). Inr (True, ob2, h2)))))"

definition Replace_index_object :: "('d, 'x) numbers_scheme \<Rightarrow> int \<Rightarrow> cjo \<Rightarrow> ('d, bool) member_fun" where
  "Replace_index_object fl iWhich oJsonObject =
     editing JArray not_array (\<lambda>a ob h. ebind (parsed_copy fl oJsonObject h) (\<lambda>t.
       ebind (relink_index a iWhich t h) (\<lambda>(ok, h1).
         if \<not> ok then Inr (False, ob, h1)
         else ebind (forget_indices (\<lambda>k. k = as_index iWhich) ob h1) (\<lambda>(ob2, h2). Inr (True, ob2, h2)))))"

definition Replace_key_string :: "bytes \<Rightarrow> bytes \<Rightarrow> ('d, bool) member_fun" where
  "Replace_key_string strKey strValue = replace_value strKey (Inr (cJSON_CreateString strValue))"

definition Replace_key_int32 :: "('d, 'x) numbers_scheme \<Rightarrow> bytes \<Rightarrow> int \<Rightarrow> ('d, bool) member_fun" where
  "Replace_key_int32 fl strKey iValue = replace_value strKey (Inr (cJSON_CreateInt fl (to_uint64 iValue) (- 1)))"

definition Replace_key_uint32 :: "('d, 'x) numbers_scheme \<Rightarrow> bytes \<Rightarrow> int \<Rightarrow> ('d, bool) member_fun" where
  "Replace_key_uint32 fl strKey uiValue = replace_value strKey (Inr (cJSON_CreateInt fl (to_uint64 uiValue) 1))"

definition Replace_key_int64 :: "('d, 'x) numbers_scheme \<Rightarrow> bytes \<Rightarrow> int \<Rightarrow> ('d, bool) member_fun" where
  "Replace_key_int64 fl strKey llValue = replace_value strKey (Inr (cJSON_CreateInt fl (to_uint64 llValue) (- 1)))"

definition Replace_key_uint64 :: "('d, 'x) numbers_scheme \<Rightarrow> bytes \<Rightarrow> int \<Rightarrow> ('d, bool) member_fun" where
  "Replace_key_uint64 fl strKey ullValue = replace_value strKey (Inr (cJSON_CreateInt fl ullValue 1))"

definition Replace_key_bool :: "bytes \<Rightarrow> bool \<Rightarrow> ('d, bool) member_fun" where
  "Replace_key_bool strKey bValue = replace_value strKey (Inr (cJSON_CreateBool bValue))"

definition Replace_key_float :: "('d, 'x) numbers_scheme \<Rightarrow> bytes \<Rightarrow> 'd \<Rightarrow> ('d, bool) member_fun" where
  "Replace_key_float fl strKey fValue = replace_value strKey (cJSON_CreateDouble fl fValue (- 1))"

definition Replace_key_double :: "('d, 'x) numbers_scheme \<Rightarrow> bytes \<Rightarrow> 'd \<Rightarrow> ('d, bool) member_fun" where
  "Replace_key_double fl strKey dValue = replace_value strKey (cJSON_CreateDouble fl dValue (- 1))"

definition ReplaceWithNull_key :: "bytes \<Rightarrow> ('d, bool) member_fun" where
  "ReplaceWithNull_key strKey = replace_value strKey (Inr cJSON_CreateNull)"

definition Replace_index_string :: "int \<Rightarrow> bytes \<Rightarrow> ('d, bool) member_fun" where
  "Replace_index_string iWhich strValue = replace_item iWhich (Inr (cJSON_CreateString strValue))"

definition Replace_index_int32 :: "('d, 'x) numbers_scheme \<Rightarrow> int \<Rightarrow> int \<Rightarrow> ('d, bool) member_fun" where
  "Replace_index_int32 fl iWhich iValue = replace_item iWhich (Inr (cJSON_CreateInt fl (to_uint64 iValue) (- 1)))"

definition Replace_index_uint32 :: "('d, 'x) numbers_scheme \<Rightarrow> int \<Rightarrow> int \<Rightarrow> ('d, bool) member_fun" where
  "Replace_index_uint32 fl iWhich uiValue = replace_item iWhich (Inr (cJSON_CreateInt fl (to_uint64 uiValue) 1))"

definition Replace_index_int64 :: "('d, 'x) numbers_scheme \<Rightarrow> int \<Rightarrow> int \<Rightarrow> ('d, bool) member_fun" where
  "Replace_index_int64 fl iWhich llValue = replace_item iWhich (Inr (cJSON_CreateInt fl (to_uint64 llValue) (- 1)))"

definition Replace_index_uint64 :: "('d, 'x) numbers_scheme \<Rightarrow> int \<Rightarrow> int \<Rightarrow> ('d, bool) member_fun" where
  "Replace_index_uint64 fl iWhich ullValue = replace_item iWhich (Inr (cJSON_CreateInt fl ullValue 1))"

definition Replace_index_bool :: "int \<Rightarrow> bool \<Rightarrow> ('d, bool) member_fun" where
  "Replace_index_bool iWhich bValue = replace_item iWhich (Inr (cJSON_CreateBool bValue))"

definition Replace_index_float :: "('d, 'x) numbers_scheme \<Rightarrow> int \<Rightarrow> 'd \<Rightarrow> ('d, bool) member_fun" where
  "Replace_index_float fl iWhich fValue = replace_item iWhich (cJSON_CreateDouble fl fValue (- 1))"

definition Replace_index_double :: "('d, 'x) numbers_scheme \<Rightarrow> int \<Rightarrow> 'd \<Rightarrow> ('d, bool) member_fun" where
  "Replace_index_double fl iWhich dValue = replace_item iWhich (cJSON_CreateDouble fl dValue (- 1))"

definition ReplaceWithNull_index :: "int \<Rightarrow> ('d, bool) member_fun" where
  "ReplaceWithNull_index iWhich = replace_item iWhich (Inr cJSON_CreateNull)"

end
