(* ===== verification/JsonUse.thy ===== *)
theory JsonUse
  imports JsonObject
begin

text \<open>
  What the methods of \<open>CJsonObject\<close> do with each other: adding and getting, walking over the
  keys, copying, and the numbers that come out changed.
\<close>

section \<open>Items at addresses\<close>

fun below :: "('d item list \<Rightarrow> 'd item list) \<Rightarrow> 'd item \<Rightarrow> 'd item" where
  "below f (CJson m t cs nm) = CJson m t (f cs) nm"

lemma below_simps [simp]: "jmark (below f c) = jmark c" "jtype (below f c) = jtype c" "jchild (below f c) = f (jchild c)"
  "jstring (below f c) = jstring c"
  by (cases c; simp)+

lemma item_at_set_child:
  fixes c :: "'d item" and cs :: "'d item list"
  shows "item_at a (set_child a f c) = map_option (below f) (item_at a c)"
  "items_at a (map (set_child a f) cs) = map_option (below f) (items_at a cs)"
  by (induction a c and a cs rule: item_at_items_at.induct) (auto split: option.split)

lemma deref_change: "deref h a = Inr c \<Longrightarrow> deref (change a f h) a = Inr (below f c)"
  by (simp add: deref_def change_def item_at_set_child split: option.splits)

fun marks :: "'d item \<Rightarrow> nat list"
  and marks_all :: "'d item list \<Rightarrow> nat list" where
  "marks (CJson m t cs nm) = m # marks_all cs"
| "marks_all [] = []"
| "marks_all (c # cs) = marks c @ marks_all cs"

text \<open>Addresses are not used twice.\<close>

definition store_ok :: "'d store \<Rightarrow> bool" where
  "store_ok h \<longleftrightarrow> distinct (marks_all (live h)) \<and> (\<forall>a \<in> set (marks_all (live h)). a < next_mark h)"

lemma marks_all_append [simp]: "marks_all (cs @ ds) = marks_all cs @ marks_all ds"
  by (induction cs) simp_all

lemma mark_in [simp]: "jmark c \<in> set (marks c)"
  by (cases c) simp

lemma no_item_at:
  fixes c :: "'d item" and cs :: "'d item list"
  shows "a \<notin> set (marks c) \<Longrightarrow> item_at a c = None" "a \<notin> set (marks_all cs) \<Longrightarrow> items_at a cs = None"
  by (induction a c and a cs rule: item_at_items_at.induct) auto

lemma items_at_append: "items_at a (cs @ ds) = (case items_at a cs of Some c \<Rightarrow> Some c | None \<Rightarrow> items_at a ds)"
  by (induction cs) (auto split: option.split)

lemma item_at_self: "item_at (jmark c) c = Some c"
  by (cases c) simp

lemma item_at_mark:
  fixes c d :: "'d item" and cs :: "'d item list"
  shows "item_at a c = Some d \<Longrightarrow> jmark d = a" "items_at a cs = Some d \<Longrightarrow> jmark d = a"
  by (induction a c and a cs rule: item_at_items_at.induct) (auto split: if_split_asm option.split_asm)

lemma allocate_kind: "allocate n t = (m, c) \<Longrightarrow> jmark c = n \<and> jtype c = jtype t \<and> jstring c = jstring t \<and> (jchild c = [] \<longleftrightarrow> jchild t = [])"
  by (cases t) (auto split: prod.split_asm elim: allocate_all.elims)

lemma new_root_deref:
  assumes "store_ok h" and "new_root t h = (a, h')"
  shows "deref h' a = Inr (snd (allocate (next_mark h) t)) \<and> a = next_mark h"
proof -
  obtain n c where c: "allocate (next_mark h) t = (n, c)" by (cases "allocate (next_mark h) t")
  then have "jmark c = next_mark h" using allocate_kind by blast
  moreover have "items_at (next_mark h) (live h) = None" using assms(1) by (intro no_item_at) (auto simp: store_ok_def)
  ultimately show ?thesis using assms(2) c item_at_self [of c] by (auto simp: new_root_def deref_def items_at_append)
qed

section \<open>Names\<close>

lemma strcasecmp_refl: "strcasecmp_loop s s = 0"
  by (induction s) auto

lemma c_str_idem [simp]: "c_str (c_str s) = c_str s"
  by (simp add: c_str_def)

lemma strcasecmp_same [simp]: "cJSON_strcasecmp (Some (c_str k)) (Some k) = 0"
  by (simp add: cJSON_strcasecmp_def strcasecmp_refl)

definition same_key :: "bytes \<Rightarrow> bytes \<Rightarrow> bool" where
  "same_key k l \<longleftrightarrow> cJSON_strcasecmp (Some k) (Some l) = 0"

lemma named_simps [simp]: "jstring (named k c) = Some k" "jtype (named k c) = jtype c" "jmark (named k c) = jmark c" "jchild (named k c) = jchild c"
  by (cases c; simp)+

lemma get_append: "cJSON_GetObjectItem (cs @ ds) k = (case cJSON_GetObjectItem cs k of Some c \<Rightarrow> Some c | None \<Rightarrow> cJSON_GetObjectItem ds k)"
  by (induction cs) simp_all

lemma get_added:
  assumes "cJSON_GetObjectItem cs k = None"
  shows "cJSON_GetObjectItem (cJSON_AddItemToObject cs k c) k = Some (named (c_str k) c)"
    and "\<not> same_key k l \<Longrightarrow> cJSON_GetObjectItem (cJSON_AddItemToObject cs k c) l = cJSON_GetObjectItem cs l"
  using assms by (auto simp: cJSON_AddItemToObject_def cJSON_AddItemToArray_def get_append same_key_def cJSON_strcasecmp_def strcasecmp_refl split: option.split)

section \<open>Adding\<close>

text \<open>An object that can take the key: without data, or a JSON object that does not have it.\<close>

definition takes :: "bytes \<Rightarrow> cjo \<Rightarrow> 'd store \<Rightarrow> bool" where
  "takes k ob h \<longleftrightarrow> store_ok h \<and>
     (case focus ob of
        None \<Rightarrow> True
      | Some a \<Rightarrow> (\<exists>p. deref h a = Inr p \<and> jtype p = JObject \<and> cJSON_GetObjectItem (jchild p) k = None))"

lemma focus_with [simp]: "focus (with_travers t ob) = focus ob" "focus (with_data (Some a) ob) = Some a" "focus (with_error e ob) = focus ob"
  "focus (with_objects os ob) = focus ob" "focus (with_arrays as ob) = focus ob"
  by (simp_all add: focus_def with_travers_def with_data_def with_error_def with_objects_def with_arrays_def split: option.split)

lemma object_focus_takes:
  assumes "takes k ob h"
  obtains a ob1 h1 p where "object_focus ob h = (a, ob1, h1)" "focus ob1 = Some a" "deref h1 a = Inr p" "jtype p = JObject"
    "cJSON_GetObjectItem (jchild p) k = None" "\<And>l. found_key l ob1 h1 = found_key l ob h"
proof (cases "focus ob")
  case None
  obtain a h1 where n: "new_root cJSON_CreateObject h = (a, h1)" by (cases "new_root cJSON_CreateObject h")
  let ?p = "CJson (next_mark h) JObject [] None"
  have d: "deref h1 a = Inr ?p"
    using new_root_deref [OF _ n] assms by (auto simp: takes_def cJSON_CreateObject_def)
  show thesis
    by (rule that [of a "with_travers (Some a) (with_data (Some a) ob)" h1 ?p])
      (use None n d in \<open>simp_all add: object_focus_def found_key_def found_def\<close>)
next
  case (Some a)
  with assms obtain p where "deref h a = Inr p" "jtype p = JObject" "cJSON_GetObjectItem (jchild p) k = None"
    by (auto simp: takes_def)
  then show thesis by (intro that [of a ob h p]) (use Some in \<open>simp_all add: object_focus_def\<close>)
qed

lemma add_value_found:
  assumes "takes k ob h"
  shows "\<exists>ob' h' c. add_value k (Inr t) ob h = Inr (True, ob', h')
    \<and> found_key k ob' h' = Inr (Some c) \<and> jtype c = jtype t
    \<and> (\<forall>l. \<not> same_key k l \<longrightarrow> found_key l ob' h' = found_key l ob h)"
proof -
  obtain a ob1 h1 p where f: "object_focus ob h = (a, ob1, h1)" "focus ob1 = Some a" "deref h1 a = Inr p" "jtype p = JObject"
    "cJSON_GetObjectItem (jchild p) k = None" "\<And>l. found_key l ob1 h1 = found_key l ob h"
    by (rule object_focus_takes [OF assms]) blast
  obtain n c where c: "allocate (next_mark h1) t = (n, c)" by (cases "allocate (next_mark h1) t")
  define h2 where "h2 = link_key a k t h1"
  have "deref (h1\<lparr>next_mark := n\<rparr>) a = Inr p" using f(3) by (simp add: deref_def)
  from deref_change [OF this] have d: "deref h2 a = Inr (below (\<lambda>cs. cJSON_AddItemToObject cs k c) p)"
    by (simp add: h2_def link_key_def link_new_def c)
  have "add_value k (Inr t) ob h = Inr (True, with_travers (Some a) ob1, h2)"
    using f d by (simp add: add_value_def adding_key_def h2_def [symmetric] get_added(1))
  moreover have "found_key k (with_travers (Some a) ob1) h2 = Inr (Some (named (c_str k) c))"
    using f d by (simp add: found_key_def found_def get_added(1))
  moreover have "found_key l (with_travers (Some a) ob1) h2 = found_key l ob h" if "\<not> same_key k l" for l
  proof -
    have "found_key l (with_travers (Some a) ob1) h2 = found_key l ob1 h1"
      using f d that by (simp add: found_key_def found_def get_added(2))
    then show ?thesis by (simp add: f(6))
  qed
  moreover have "jtype c = jtype t" using allocate_kind [OF c] by blast
  ultimately show ?thesis by (metis named_simps(2))
qed

text \<open>A call of \<open>Add\<close> has succeeded, \<open>Get\<close> returns a value, and all other keys are as they were.\<close>

definition stored :: "bytes \<Rightarrow> fault + (bool \<times> cjo \<times> 'd store) \<Rightarrow> (cjo \<Rightarrow> 'd store \<Rightarrow> fault + 'v option) \<Rightarrow> 'v
    \<Rightarrow> cjo \<Rightarrow> 'd store \<Rightarrow> bool" where
  "stored k r get v ob h \<longleftrightarrow> (\<exists>ob' h'. r = Inr (True, ob', h') \<and> get ob' h' = Inr (Some v)
     \<and> (\<forall>l. \<not> same_key k l \<longrightarrow> found_key l ob' h' = found_key l ob h))"

lemma storedI:
  assumes "takes k ob h" and "\<And>c. jtype c = jtype t \<Longrightarrow> rd c = Inr (Some v)"
  shows "stored k (add_value k (Inr t) ob h) (\<lambda>ob h. read_item rd (found_key k ob h)) v ob h"
proof -
  obtain ob' h' c where "add_value k (Inr t) ob h = Inr (True, ob', h')" "found_key k ob' h' = Inr (Some c)" "jtype c = jtype t"
    "\<forall>l. \<not> same_key k l \<longrightarrow> found_key l ob' h' = found_key l ob h"
    using add_value_found [OF assms(1), of t] by blast
  with assms(2) [of c] show ?thesis unfolding stored_def by (intro exI [of _ ob'] exI [of _ h']) (simp add: read_item_def)
qed

lemma wrap_signed_id: "- (2 ^ (w - 1)) \<le> v \<Longrightarrow> v < 2 ^ (w - 1) \<Longrightarrow> 0 < w \<Longrightarrow> wrap_signed w v = v"
proof -
  assume v: "- (2 ^ (w - 1)) \<le> v" "v < 2 ^ (w - 1)" and w: "0 < w"
  have "(2 :: int) ^ w = 2 * 2 ^ (w - 1)" using w by (metis power_Suc Suc_diff_1)
  then have "(v + 2 ^ (w - 1)) mod 2 ^ w = v + 2 ^ (w - 1)" using v by (intro mod_pos_pos_trivial) linarith+
  then show ?thesis by (simp add: wrap_signed_def)
qed

lemma wrap_signed_mod [simp]: "wrap_signed w (v mod 2 ^ w) = wrap_signed w v"
  by (simp add: wrap_signed_def mod_simps)

lemma wrap_signed_cong: "v mod 2 ^ w = u mod 2 ^ w \<Longrightarrow> wrap_signed w v = wrap_signed w u"
  by (metis wrap_signed_mod)

lemma mod_wrap_signed [simp]: "wrap_signed w v mod 2 ^ w = v mod 2 ^ w"
  by (simp add: wrap_signed_def mod_simps)

lemma wrap_uint64: "wrap_signed 64 (to_uint64 v) = wrap_signed 64 v"
  unfolding to_uint64_def by (rule wrap_signed_mod)

lemmas added = Add_key_string_def Add_key_int32_def Add_key_uint32_def Add_key_int64_def Add_key_uint64_def
  Add_key_bool_def Add_key_double_def AddNull_key_def

lemmas readers = Get_key_string_def Get_key_int32_def Get_key_uint32_def Get_key_int64_def Get_key_uint64_def Get_key_bool_def
  Get_key_double_def IsNull_key_def

lemmas read_defs = read_string_def read_int32_def read_uint32_def read_int64_def read_uint64_def read_integer_def read_bool_def
  read_double_def read_null_def

lemmas created = cJSON_CreateString_def cJSON_CreateInt_def cJSON_CreateBool_def cJSON_CreateDouble_def cJSON_CreateNull_def

text \<open>
  C32: what \<open>CJsonObject::Add\<close> stores under a new key \<open>CJsonObject::Get\<close> of the same type
  returns: strings up to their first NUL, integers of all four types and their whole
  range, booleans, doubles with an integer part below \<open>2^63\<close>, null. An object without data
  becomes a JSON object first. What is found under every other key, which differs from the
  new one in more than the case of its letters, stays the same.
\<close>

theorem added_is_got:
  assumes "takes k ob h"
  shows "(stored k (Add_key_string k s ob h) (Get_key_string k) (c_str s) ob h)
    \<and> (- (2 ^ 31) \<le> i \<and> i < 2 ^ 31 \<longrightarrow> stored k (Add_key_int32 fl k i ob h) (Get_key_int32 fl k) i ob h)
    \<and> (0 \<le> u \<and> u < 2 ^ 32 \<longrightarrow> stored k (Add_key_uint32 fl k u ob h) (Get_key_uint32 fl k) u ob h)
    \<and> (- (2 ^ 63) \<le> j \<and> j < 2 ^ 63 \<longrightarrow> stored k (Add_key_int64 fl k j ob h) (Get_key_int64 fl k) j ob h)
    \<and> (0 \<le> w \<and> w < 2 ^ 64 \<longrightarrow> stored k (Add_key_uint64 fl k w ob h) (Get_key_uint64 fl k) w ob h)
    \<and> (stored k (Add_key_bool k b ob h) (Get_key_bool k) b ob h)
    \<and> (trunc fl d = Some n \<and> \<bar>n\<bar> < 2 ^ 63 \<longrightarrow> stored k (Add_key_double fl k d ob h) (Get_key_double k) d ob h)
    \<and> (stored k (AddNull_key k ob h) (IsNull_key k) () ob h)"
proof (intro conjI)
  have i32: "wrap_signed 32 (wrap_signed 64 i) = i" if "- (2 ^ 31) \<le> i" "i < 2 ^ 31" for i
    using that by (simp add: wrap_signed_id)
  show "stored k (Add_key_string k s ob h) (Get_key_string k) (c_str s) ob h"
    unfolding added readers by (rule storedI [OF assms]) (simp add: read_defs created)
  show "- (2 ^ 31) \<le> i \<and> i < 2 ^ 31 \<longrightarrow> stored k (Add_key_int32 fl k i ob h) (Get_key_int32 fl k) i ob h"
    unfolding added readers by (intro impI storedI [OF assms]) (simp add: read_defs created wrap_uint64 i32)
  show "0 \<le> u \<and> u < 2 ^ 32 \<longrightarrow> stored k (Add_key_uint32 fl k u ob h) (Get_key_uint32 fl k) u ob h"
    unfolding added readers by (intro impI storedI [OF assms]) (simp add: read_defs created wrap_uint64 wrap_signed_id)
  show "- (2 ^ 63) \<le> j \<and> j < 2 ^ 63 \<longrightarrow> stored k (Add_key_int64 fl k j ob h) (Get_key_int64 fl k) j ob h"
    unfolding added readers by (intro impI storedI [OF assms]) (simp add: read_defs created wrap_uint64 wrap_signed_id)
  show "0 \<le> w \<and> w < 2 ^ 64 \<longrightarrow> stored k (Add_key_uint64 fl k w ob h) (Get_key_uint64 fl k) w ob h"
    unfolding added readers by (intro impI storedI [OF assms]) (use mod_wrap_signed [of 64 w] in \<open>simp add: read_defs created to_uint64_def\<close>)
  show "stored k (Add_key_bool k b ob h) (Get_key_bool k) b ob h"
    unfolding added readers by (rule storedI [OF assms]) (cases b; simp add: read_defs created)
  show "trunc fl d = Some n \<and> \<bar>n\<bar> < 2 ^ 63 \<longrightarrow> stored k (Add_key_double fl k d ob h) (Get_key_double k) d ob h"
  proof
    assume n: "trunc fl d = Some n \<and> \<bar>n\<bar> < 2 ^ 63"
    then have c: "cJSON_CreateDouble fl d (- 1) = Inr (leaf (JDouble (- 1) n d))" by (auto simp: created fits_def)
    show "stored k (Add_key_double fl k d ob h) (Get_key_double k) d ob h"
      unfolding added readers c by (rule storedI [OF assms]) (simp add: read_defs)
  qed
  show "stored k (AddNull_key k ob h) (IsNull_key k) () ob h"
    unfolding added readers by (rule storedI [OF assms]) (simp add: read_defs created)
qed

definition empty_store :: "'d store" where
  "empty_store = \<lparr>live = [], next_mark = 0\<rparr>"

lemma added_is_got_witness:
  "stored ''port'' (Add_key_string ''port'' ''80'' new_cjo empty_store) (Get_key_string ''port'') ''80'' new_cjo (empty_store :: int store)"
proof -
  have "takes ''port'' new_cjo (empty_store :: int store)"
    by (simp add: takes_def store_ok_def empty_store_def new_cjo_def focus_def)
  from added_is_got [OF this, THEN conjunct1, of "''80''"] show ?thesis
    by (simp add: c_str_def kNul_def)
qed

section \<open>Numbers that change\<close>

text \<open>
  C40: two kinds of numbers come out of a \<open>CJsonObject\<close> changed. A negative integer
  that was added with \<open>Add\<close> is returned by \<open>Get(key, double&)\<close> as the double nearest to itself
  plus \<open>2^64\<close>; and a \<open>uint64\<close> from \<open>2^63\<close> on is printed by \<open>cJSON_Print\<close> as its low 32 bits,
  although \<open>Get\<close> and \<open>operator()\<close> return it unchanged.
\<close>

theorem numbers_change:
  assumes "takes k ob h"
  shows "(- (2 ^ 63) \<le> v \<and> v < 0 \<longrightarrow> stored k (Add_key_int64 fl k v ob h) (Get_key_double k) (from_int fl 1 (v + 2 ^ 64)) ob h)
    \<and> (2 ^ 63 \<le> w \<and> w < 2 ^ 64 \<longrightarrow> (\<exists>ob' h' c. Add_key_uint64 fl k w ob h = Inr (True, ob', h') \<and> found_key k ob' h' = Inr (Some c)
        \<and> cJSON_Print gl c = Inr (decimal (nat (w mod 2 ^ 32))) \<and> text_of_key k ob' h' = Inr (decimal (nat w))
        \<and> Get_key_uint64 fl k ob' h' = Inr (Some w)))"
proof (intro conjI impI)
  assume v: "- (2 ^ 63) \<le> v \<and> v < 0"
  have "(v + 2 ^ 64) mod 2 ^ 64 = v + 2 ^ 64" using v by (intro mod_pos_pos_trivial) auto
  then have "to_uint64 v = v + 2 ^ 64" unfolding to_uint64_def by simp
  then show "stored k (Add_key_int64 fl k v ob h) (Get_key_double k) (from_int fl 1 (v + 2 ^ 64)) ob h"
    unfolding added readers by (intro storedI [OF assms]) (simp add: read_double_def created)
next
  assume w: "2 ^ 63 \<le> w \<and> w < 2 ^ 64"
  obtain ob' h' c where r: "Add_key_uint64 fl k w ob h = Inr (True, ob', h')" "found_key k ob' h' = Inr (Some c)"
    "jtype c = JInt 1 (wrap_signed 64 w) (from_int fl 1 w)"
    using add_value_found [OF assms, of "cJSON_CreateInt fl w 1"] unfolding added by (auto simp: created)
  obtain m cs nm where c: "c = CJson m (JInt 1 (wrap_signed 64 w) (from_int fl 1 w)) cs nm" using r(3) by (cases c) simp
  have w': "wrap_signed 64 w = w - 2 ^ 64"
  proof -
    have "wrap_signed 64 w = wrap_signed 64 (w - 2 ^ 64)" by (rule wrap_signed_cong) (simp add: mod_diff_right_eq [symmetric])
    also have "\<dots> = w - 2 ^ 64" using w by (intro wrap_signed_id) simp_all
    finally show ?thesis .
  qed
  have m: "wrap_signed 64 w mod 2 ^ 64 = w" using mod_wrap_signed [of 64 w] w by simp
  have l: "(w - 2 ^ 64) mod 2 ^ 32 = w mod 2 ^ 32"
  proof -
    have "(w - 2 ^ 64) mod 2 ^ 32 = (w - 2 ^ 64 + 2 ^ 32 * 2 ^ 32) mod 2 ^ 32" by (rule mod_mult_self2 [symmetric])
    then show ?thesis by simp
  qed
  have "nat (w mod 2 ^ 32) < 10 ^ 10" by (simp add: nat_less_iff)
  from decimal_length [OF this] have "print_int 1 (w - 2 ^ 64) = Inr (decimal (nat (w mod 2 ^ 32)))"
    using w l by (simp add: print_int_def boxed_def)
  then have "cJSON_Print gl c = Inr (decimal (nat (w mod 2 ^ 32)))" by (simp add: c w' cJSON_Print_def)
  moreover have "text_of_key k ob' h' = Inr (decimal (nat w))"
    using r(2) m w by (simp add: text_of_key_def shown_item_def c shown_def)
  moreover have "Get_key_uint64 fl k ob' h' = Inr (Some w)"
    using r(2) m by (simp add: readers read_item_def read_defs c to_uint64_def)
  ultimately show "\<exists>ob' h' c. Add_key_uint64 fl k w ob h = Inr (True, ob', h') \<and> found_key k ob' h' = Inr (Some c)
        \<and> cJSON_Print gl c = Inr (decimal (nat (w mod 2 ^ 32))) \<and> text_of_key k ob' h' = Inr (decimal (nat w))
        \<and> Get_key_uint64 fl k ob' h' = Inr (Some w)"
    using r by blast
qed

definition plain_numbers :: "int numbers" where
  "plain_numbers = \<lparr>from_int = (\<lambda>sign n. sign * n), from_text = (\<lambda>sign ds e. (0, None)), show_f = signed_text, trunc = Some, to_float = id\<rparr>"

lemma numbers_change_witness:
  "stored ''n'' (Add_key_int64 plain_numbers ''n'' (- 1) new_cjo empty_store) (Get_key_double ''n'') 18446744073709551615
     new_cjo (empty_store :: int store)"
proof -
  have "takes ''n'' new_cjo (empty_store :: int store)"
    by (simp add: takes_def store_ok_def empty_store_def new_cjo_def focus_def)
  from numbers_change [OF this, THEN conjunct1, of "- 1" plain_numbers] show ?thesis by (simp add: plain_numbers_def)
qed

section \<open>Walking over the keys\<close>

lemma no_next:
  fixes c :: "'d item" and cs :: "'d item list"
  shows "a \<notin> set (marks c) \<Longrightarrow> next_in a c = None" "a \<notin> set (marks_all cs) \<Longrightarrow> next_among a cs = None"
proof (induction a c and a cs rule: next_in_next_among.induct)
  case (3 a c cs)
  then show ?case using mark_in [of c] by auto
qed auto

lemma child_mark: "c \<in> set cs \<Longrightarrow> jmark c \<in> set (marks_all cs)"
  by (induction cs) auto

lemma marks_child: "set (marks_all (jchild c)) \<subseteq> set (marks c)"
  by (cases c) auto

lemma mark_not_below: "distinct (marks c) \<Longrightarrow> jmark c \<notin> set (marks_all (jchild c))"
  by (cases c) simp

lemma marks_among: "c \<in> set cs \<Longrightarrow> set (marks c) \<subseteq> set (marks_all cs)"
  by (induction cs) auto

lemma child_below:
  fixes c p d :: "'d item" and cs :: "'d item list"
  shows "item_at a c = Some p \<Longrightarrow> d \<in> set (jchild p) \<Longrightarrow> jmark d \<in> set (marks_all (jchild c))"
    and "items_at a cs = Some p \<Longrightarrow> d \<in> set (jchild p) \<Longrightarrow> \<exists>c \<in> set cs. jmark d \<in> set (marks_all (jchild c))"
proof (induction a c and a cs rule: item_at_items_at.induct)
  case (1 a m t cs nm)
  show ?case
  proof (cases "m = a")
    case True
    with 1 show ?thesis by (auto intro: child_mark)
  next
    case False
    with 1 obtain c where "c \<in> set cs" "jmark d \<in> set (marks_all (jchild c))" by auto
    then have "jmark d \<in> set (marks_all cs)" using marks_child [of c] marks_among [of c cs] by blast
    then show ?thesis by simp
  qed
next
  case (3 a c cs)
  then show ?case by (auto split: option.split_asm)
qed simp

lemma distinct_at:
  fixes c p :: "'d item" and cs :: "'d item list"
  shows "item_at a c = Some p \<Longrightarrow> distinct (marks c) \<Longrightarrow> distinct (marks p)"
    and "items_at a cs = Some p \<Longrightarrow> distinct (marks_all cs) \<Longrightarrow> distinct (marks p)"
  by (induction a c and a cs rule: item_at_items_at.induct) (auto split: option.split_asm if_split_asm)

lemma sibling_here:
  assumes "distinct (marks_all (xs @ d # ys))"
  shows "items_at (jmark d) (xs @ d # ys) = Some d"
    and "next_among (jmark d) (xs @ d # ys) = Some (if ys = [] then None else Some (jmark (hd ys)))"
  using assms
proof (induction xs)
  case Nil
  { case 1 show ?case by (simp add: item_at_self) }
  { case 2 show ?case by simp }
next
  case (Cons x xs)
  have "jmark d \<notin> set (marks x)" if "distinct (marks_all ((x # xs) @ d # ys))" using that mark_in [of d] by auto
  moreover from this have "jmark x \<noteq> jmark d" if "distinct (marks_all ((x # xs) @ d # ys))" using that mark_in [of x] by metis
  ultimately show "distinct (marks_all ((x # xs) @ d # ys)) \<Longrightarrow> items_at (jmark d) ((x # xs) @ d # ys) = Some d"
    "distinct (marks_all ((x # xs) @ d # ys)) \<Longrightarrow>
       next_among (jmark d) ((x # xs) @ d # ys) = Some (if ys = [] then None else Some (jmark (hd ys)))"
    using Cons by (simp_all add: no_item_at no_next)
qed

lemma sibling_at:
  fixes c p d :: "'d item" and cs :: "'d item list"
  assumes p: "jchild p = xs @ d # ys"
  shows "item_at a c = Some p \<Longrightarrow> distinct (marks c) \<Longrightarrow> item_at (jmark d) c = Some d
      \<and> next_in (jmark d) c = Some (if ys = [] then None else Some (jmark (hd ys)))"
    and "items_at a cs = Some p \<Longrightarrow> distinct (marks_all cs) \<Longrightarrow> items_at (jmark d) cs = Some d
      \<and> next_among (jmark d) cs = Some (if ys = [] then None else Some (jmark (hd ys)))
      \<and> next_of_roots (jmark d) cs = Some (if ys = [] then None else Some (jmark (hd ys)))"
proof (induction a c and a cs rule: item_at_items_at.induct)
  case (1 a m t cs nm)
  show ?case
  proof (cases "m = a")
    case True
    with 1(2) p have "cs = xs @ d # ys" by auto
    with 1(3) sibling_here [of xs d ys] mark_in [of d] show ?thesis by auto
  next
    case False
    with 1 have i: "items_at (jmark d) cs = Some d \<and> next_among (jmark d) cs = Some (if ys = [] then None else Some (jmark (hd ys)))"
      by auto
    have "m \<noteq> jmark d" using i 1(3) no_item_at(2) [of "jmark d" cs] by auto
    with i show ?thesis by simp
  qed
next
  case (3 a c cs)
  show ?case
  proof (cases "item_at a c")
    case None
    with 3 have i: "items_at (jmark d) cs = Some d" by simp
    then have "jmark d \<in> set (marks_all cs)" using no_item_at(2) [of "jmark d" cs] by auto
    then have "jmark d \<notin> set (marks c)" using 3(4) by auto
    moreover from this have "jmark c \<noteq> jmark d" using mark_in [of c] by metis
    ultimately show ?thesis using 3 None by (simp add: no_item_at no_next)
  next
    case (Some q)
    with 3(3) have "q = p" by simp
    with Some have "jmark d \<in> set (marks_all (jchild c))" using child_below(1) [of a c p d] p by simp
    then have "jmark c \<noteq> jmark d" using 3(4) mark_not_below [of c] by auto
    moreover have "item_at (jmark d) c = Some d \<and> next_in (jmark d) c = Some (if ys = [] then None else Some (jmark (hd ys)))"
      using 3 Some \<open>q = p\<close> by simp
    ultimately show ?thesis by simp
  qed
qed simp

text \<open>The loop of a caller: \<open>GetKey\<close> until it returns false, at most \<open>n\<close> times.\<close>

fun keys_got :: "nat \<Rightarrow> ('d, bytes list) member_fun" where
  "keys_got 0 ob h = Inr ([], ob, h)"
| "keys_got (Suc n) ob h =
     ebind (GetKey ob h) (\<lambda>(k, ob1, h1). case k of
         None \<Rightarrow> Inr ([], ob1, h1)
       | Some key \<Rightarrow> ebind (keys_got n ob1 h1) (\<lambda>(ks, ob2, h2). Inr (key # ks, ob2, h2)))"

text \<open>An object that refers to an item, in one way only.\<close>

definition on_item :: "cjo \<Rightarrow> nat \<Rightarrow> bool" where
  "on_item ob a \<longleftrightarrow> focus ob = Some a \<and> (m_pJsonData ob = None \<or> m_pExternJsonDataRef ob = None)"

lemma on_item_iff: "on_item ob a \<Longrightarrow> (m_pJsonData ob = Some k \<or> m_pExternJsonDataRef ob = Some k) \<longleftrightarrow> k = a"
  by (cases "m_pJsonData ob") (auto simp: on_item_def focus_def)

lemma with_travers_simps [simp]: "m_pJsonData (with_travers t ob) = m_pJsonData ob" "m_pExternJsonDataRef (with_travers t ob) = m_pExternJsonDataRef ob"
  "m_pKeyTravers (with_travers t ob) = t" "with_travers u (with_travers t ob) = with_travers u ob"
  by (simp_all add: with_travers_def)

lemma on_item_travers [simp]: "on_item (with_travers t ob) a = on_item ob a"
  by (simp add: on_item_def)

lemma GetKey_child:
  assumes "store_ok h" and "on_item ob a" and "deref h a = Inr p" and "jtype p \<noteq> JArray" and "jchild p = xs @ c # ys"
    and "jstring c = Some key"
  shows "GetKey (with_travers (Some (jmark c)) ob) h
     = Inr (Some key, with_travers (if ys = [] then None else Some (jmark (hd ys))) ob, h)"
proof -
  have i: "items_at a (live h) = Some p" using assms(3) by (simp add: deref_def split: option.split_asm)
  have d: "distinct (marks_all (live h))" using assms(1) by (simp add: store_ok_def)
  from sibling_at(2) [OF assms(5) i d] have s: "items_at (jmark c) (live h) = Some c"
    "next_of_roots (jmark c) (live h) = Some (if ys = [] then None else Some (jmark (hd ys)))" by blast+
  have "distinct (marks p)" by (rule distinct_at(2) [OF i d])
  then have "jmark c \<noteq> a"
    using mark_not_below [of p] item_at_mark(2) [OF i] child_mark [of c "jchild p"] assms(5) by (metis in_set_conv_decomp)
  then have "\<not> (m_pJsonData ob = Some (jmark c) \<or> m_pExternJsonDataRef ob = Some (jmark c))"
    using on_item_iff [OF assms(2)] by blast
  then show ?thesis
    using assms(2-4,6) s by (simp add: GetKey_def IsArray_def on_item_def deref_def)
qed

text \<open>
  C33: after \<open>ResetTraversing\<close> a loop over \<open>CJsonObject::GetKey\<close> gets exactly the names of the
  members of a JSON object, in their order, then false; and the object is again as after
  \<open>ResetTraversing\<close>, so that the next loop gets them all once more.
\<close>

theorem keys_walked:
  assumes "store_ok h" and "on_item ob a" and "deref h a = Inr p" and "jtype p \<noteq> JArray"
    and "map jstring (jchild p) = map Some ks" and "length ks < n"
  shows "keys_got n (ResetTraversing ob) h = Inr (ks, ResetTraversing ob, h)"
proof -
  have arr: "IsArray (with_travers t ob) h = Inr False" for t
    using assms(2-4) by (simp add: IsArray_def on_item_def)
  have walk: "keys_got n (with_travers (if ys = [] then None else Some (jmark (hd ys))) ob) h = Inr (ls, ResetTraversing ob, h)"
    if "jchild p = xs @ ys" "map jstring ys = map Some ls" "length ls < n" for xs ys ls n
    using that
  proof (induction ys arbitrary: xs ls n)
    case Nil
    then obtain m where "n = Suc m" "ls = []" by (cases n) auto
    then show ?case using arr [of None] by (simp add: GetKey_def ResetTraversing_def)
  next
    case (Cons c ys)
    then obtain l ls' m where l: "ls = l # ls'" "jstring c = Some l" "map jstring ys = map Some ls'" "n = Suc m" "length ls' < m"
      by (cases ls; cases n) auto
    have "keys_got m (with_travers (if ys = [] then None else Some (jmark (hd ys))) ob) h = Inr (ls', ResetTraversing ob, h)"
      by (rule Cons.IH [of "xs @ [c]"]) (use Cons.prems(1) l in simp_all)
    then show ?case using GetKey_child [OF assms(1-4) Cons.prems(1) l(2)] l(1,4) by simp
  qed
  obtain m where m: "n = Suc m" "length ks \<le> m" using assms(6) by (cases n) auto
  have data: "m_pJsonData ob = Some a \<or> m_pExternJsonDataRef ob = Some a" using on_item_iff [OF assms(2)] by blast
  have foc: "focus ob = Some a" using assms(2) by (simp add: on_item_def)
  show ?thesis
  proof (cases "jchild p")
    case Nil
    then show ?thesis using arr [of "Some a"] assms(3,5) data m(1) foc by (simp add: ResetTraversing_def GetKey_def)
  next
    case (Cons c ys)
    then obtain k ks' where k: "ks = k # ks'" "jstring c = Some k" "map jstring ys = map Some ks'"
      using assms(5) by (cases ks) auto
    have "keys_got m (with_travers (if ys = [] then None else Some (jmark (hd ys))) ob) h = Inr (ks', ResetTraversing ob, h)"
      by (rule walk [of "[c]"]) (use Cons k m in simp_all)
    then show ?thesis
      using arr [of "Some a"] assms(3) data m(1) foc k Cons by (simp add: ResetTraversing_def GetKey_def)
  qed
qed

definition sample_store :: "int store" where
  "sample_store = \<lparr>live = [CJson 0 JObject [CJson 1 JNULL [] (Some ''a''), CJson 2 JArray [CJson 3 JTrue [] None] (Some ''b'')] None],
     next_mark = 4\<rparr>"

lemma keys_walked_witness:
  "keys_got 5 (ResetTraversing (cjo_on 0)) sample_store = Inr ([''a'', ''b''], ResetTraversing (cjo_on 0), sample_store)"
  by (rule keys_walked [of sample_store "cjo_on 0" 0
        "CJson 0 JObject [CJson 1 JNULL [] (Some ''a''), CJson 2 JArray [CJson 3 JTrue [] None] (Some ''b'')] None"])
    (simp_all add: sample_store_def store_ok_def on_item_def cjo_on_def focus_def deref_def)

section \<open>Copies\<close>

text \<open>A tree without its addresses.\<close>

fun erase :: "'d item \<Rightarrow> (unit, 'd) cJSON" where
  "erase (CJson m t cs nm) = CJson () t (map erase cs) nm"

lemma erase_jstring [simp]: "jstring (erase c) = jstring c"
  by (cases c) simp

lemma print_erase:
  fixes c :: "'d item" and cs :: "'d item list"
  shows "print_value fl fmt depth (erase c) = print_value fl fmt depth c"
  "print_array fl fmt depth (map erase cs) = print_array fl fmt depth cs"
  "print_object fl fmt depth (map erase cs) = print_object fl fmt depth cs"
  by (induction fl fmt depth c and fl fmt depth cs and fl fmt depth cs rule: print_value_print_array_print_object.induct) simp_all

lemma erase_allocate:
  fixes t :: "(unit, 'd) cJSON" and ts :: "(unit, 'd) cJSON list"
  shows "erase (snd (allocate n t)) = t"
  "map erase (snd (allocate_all n ts)) = ts"
  by (induction n t and n ts rule: allocate_allocate_all.induct) (auto simp: Let_def split: prod.split)

lemma print_nameless: "print_value fl fmt depth (nameless c) = print_value fl fmt depth c"
  by (cases c; cases "jtype c") simp_all

lemma json_ok_nameless [simp]: "json_ok (nameless c) = json_ok c" "jstring (nameless c) = None"
  by (cases c; simp)+

lemma json_normal_nameless [simp]: "json_normal fl (nameless c) = json_normal fl c"
  by (cases c) simp



end
