(* ===== verification/JsonStore.thy ===== *)
theory JsonStore
  imports JsonUse "HOL-Library.Multiset"
begin

text \<open>
  Memory: what the methods of \<open>CJsonObject\<close> do to the trees that are alive. Addresses are never
  used twice, and every tree an object owns is freed once, by the object, whatever methods
  were called on it and on the objects it has handed out.
\<close>

section \<open>Addresses of what is new\<close>

lemma allocate_marks:
  fixes t :: "(unit, 'd) cJSON" and ts :: "(unit, 'd) cJSON list"
  shows "allocate n t = (m, c) \<Longrightarrow> n < m \<and> marks c = [n..<m]"
    and "allocate_all n ts = (m, cs) \<Longrightarrow> n \<le> m \<and> marks_all cs = [n..<m]"
proof (induction n t and n ts arbitrary: m c and m cs rule: allocate_allocate_all.induct)
  case (1 n u t cs nm)
  then obtain ds where d: "allocate_all (n + 1) cs = (m, ds)" "c = CJson n t ds nm"
    by (auto simp: Let_def split: prod.split_asm)
  with 1(1) [OF d(1)] show ?case by (auto simp: upt_conv_Cons)
next
  case (3 n c ts)
  then obtain m1 d ds where d: "allocate n c = (m1, d)" "allocate_all m1 ts = (m, ds)" "cs = d # ds"
    by (auto simp: Let_def split: prod.split_asm)
  have a: "n < m1 \<and> marks d = [n..<m1]" by (rule 3(1) [OF d(1)])
  have b: "m1 \<le> m \<and> marks_all ds = [m1..<m]" using 3(2) [of "(m1, d)" m1 d] d by auto
  have "[n..<m] = [n..<m1] @ [m1..<m]" using a b upt_add_eq_append [of n m1 "m - m1"] by simp
  with a b d(3) show ?case by simp
qed simp

section \<open>Operations on lists of children\<close>

text \<open>A list operation loses marks at most, or gains at most those of one new item.\<close>

definition gains :: "nat multiset \<Rightarrow> ('d item list \<Rightarrow> 'd item list) \<Rightarrow> bool" where
  "gains N f \<longleftrightarrow> (\<forall>cs. mset (marks_all (f cs)) \<subseteq># mset (marks_all cs) + N)"

lemma marks_named [simp]: "marks (named k c) = marks c"
  by (cases c) simp

lemma gains_add: "gains (mset (marks c)) (\<lambda>cs. cJSON_AddItemToArray cs c)" "gains (mset (marks c)) (\<lambda>cs. cJSON_AddItemToArrayHead cs c)"
  "gains (mset (marks c)) (\<lambda>cs. cJSON_AddItemToObject cs k c)"
  by (simp_all add: gains_def cJSON_AddItemToArray_def cJSON_AddItemToArrayHead_def cJSON_AddItemToObject_def union_commute)

lemma detach_loses: "mset (marks_all (snd (cJSON_DetachItemFromArray cs i))) \<subseteq># mset (marks_all cs)"
  by (induction cs i rule: cJSON_DetachItemFromArray.induct) (auto simp: Let_def split: prod.split)

lemma gains_delete: "gains {#} (\<lambda>cs. cJSON_DeleteItemFromArray cs i)" "gains {#} (\<lambda>cs. cJSON_DeleteItemFromObject cs k)"
  by (simp_all add: detach_loses gains_def cJSON_DeleteItemFromArray_def cJSON_DeleteItemFromObject_def cJSON_DetachItemFromObject_def split: option.split)

lemma replace_gains: "mset (marks_all (cJSON_ReplaceItemInArray cs i c)) \<subseteq># mset (marks_all cs) + mset (marks c)"
  by (induction cs i c rule: cJSON_ReplaceItemInArray.induct) (auto simp: ac_simps intro: subset_mset.add_left_mono)

lemma gains_replace: "gains (mset (marks c)) (\<lambda>cs. cJSON_ReplaceItemInArray cs i c)" "gains (mset (marks c)) (\<lambda>cs. cJSON_ReplaceItemInObject cs k c)"
  using replace_gains [of _ i c] replace_gains [of _ _ "named (c_str k) c"]
  by (auto simp: gains_def cJSON_ReplaceItemInObject_def split: option.split)

section \<open>The roots of a store\<close>

definition roots :: "'d store \<Rightarrow> nat multiset" where
  "roots h = mset (map jmark (live h))"

lemma roots_counted: "mset (map jmark cs) \<subseteq># mset (marks_all cs)"
proof (induction cs)
  case (Cons c cs)
  have "{#jmark c#} \<subseteq># mset (marks c)" by simp
  from subset_mset.add_mono [OF this Cons] show ?case by simp
qed simp

lemma distinct_submset:
  assumes "mset xs \<subseteq># mset ys" and "distinct ys"
  shows "distinct xs"
proof -
  obtain R where "mset ys = mset xs + R" using assms(1) by (auto simp: subset_mset.le_iff_add)
  moreover obtain zs where "mset zs = R" using ex_mset by blast
  ultimately have "mset (xs @ zs) = mset ys" by simp
  then have "distinct (xs @ zs)" using assms(2) mset_eq_imp_distinct_iff by blast
  then show ?thesis by simp
qed

text \<open>A store stays well-formed when addresses only go, or only new ones come.\<close>

lemma store_okI:
  assumes "store_ok h" and "mset (marks_all (live h')) \<subseteq># mset (marks_all (live h)) + mset [next_mark h..<n]"
    and "next_mark h' = n" and "next_mark h \<le> n"
  shows "store_ok h'"
proof -
  have d: "distinct (marks_all (live h) @ [next_mark h..<n])" using assms(1) by (auto simp: store_ok_def)
  have m: "mset (marks_all (live h')) \<subseteq># mset (marks_all (live h) @ [next_mark h..<n])" using assms(2) by simp
  have "set (marks_all (live h')) \<subseteq> set (marks_all (live h) @ [next_mark h..<n])" using set_mset_mono [OF m] by simp
  moreover have "\<forall>a \<in> set (marks_all (live h) @ [next_mark h..<n]). a < n" using assms(1,4) by (auto simp: store_ok_def)
  ultimately show ?thesis using distinct_submset [OF m d] assms(3) by (auto simp: store_ok_def)
qed

lemma set_child_mark [simp]: "jmark (set_child a f c) = jmark c"
  by (cases c) simp

lemma change_fields [simp]: "next_mark (change a f h) = next_mark h" "roots (change a f h) = roots h"
  by (simp_all add: change_def roots_def comp_def)

text \<open>An assignment to the children of an item, which is in one place only.\<close>

lemma set_child_gains:
  assumes "gains N f"
  shows "mset (marks (set_child a f c)) \<subseteq># mset (marks c) + repeat_mset (count (mset (marks c)) a) N"
    and "mset (marks_all (map (set_child a f) cs)) \<subseteq># mset (marks_all cs) + repeat_mset (count (mset (marks_all cs)) a) N"
proof (induction c and cs rule: marks_marks_all.induct)
  case (1 m t cs nm)
  show ?case
  proof (cases "m = a")
    case True
    have "mset (marks_all (f cs)) \<subseteq># mset (marks_all cs) + N" using assms by (simp add: gains_def)
    then have "mset (marks_all (f cs)) \<subseteq># mset (marks_all cs) + (N + repeat_mset (count (mset (marks_all cs)) a) N)"
      by (metis add.assoc subset_mset.add_increasing2 subset_mset.zero_le)
    with True show ?thesis by simp
  next
    case False
    with 1 show ?thesis by simp
  qed
next
  case (3 c cs)
  then have "mset (marks (set_child a f c)) + mset (marks_all (map (set_child a f) cs))
      \<subseteq># (mset (marks c) + repeat_mset (count (mset (marks c)) a) N) + (mset (marks_all cs) + repeat_mset (count (mset (marks_all cs)) a) N)"
    by (rule subset_mset.add_mono)
  then show ?case by (simp add: ac_simps repeat_mset_distrib)
qed simp

lemma change_gains:
  assumes "store_ok h" and "gains N f"
  shows "mset (marks_all (live (change a f h))) \<subseteq># mset (marks_all (live h)) + N"
proof -
  have once: "repeat_mset n N \<subseteq># N" if "n \<le> 1" for n using that by (cases n) auto
  have "count (mset (marks_all (live h))) a \<le> 1" using assms(1) by (auto simp: store_ok_def distinct_count_atmost_1)
  then have "repeat_mset (count (mset (marks_all (live h))) a) N \<subseteq># N" by (rule once)
  then show ?thesis
    using set_child_gains(2) [OF assms(2), of a "live h"] unfolding change_def
    by simp (meson subset_mset.add_left_mono subset_mset.order_trans)
qed

lemma change_ok: "store_ok h \<Longrightarrow> gains {#} f \<Longrightarrow> store_ok (change a f h)"
proof -
  assume h: "store_ok h" and f: "gains {#} f"
  have "mset [next_mark h..<next_mark h] = {#}" by simp
  with change_gains [OF h f, of a] have g: "mset (marks_all (live (change a f h))) \<subseteq># mset (marks_all (live h)) + mset [next_mark h..<next_mark h]"
    by (simp only:)
  show ?thesis by (rule store_okI [OF h g]) simp_all
qed

lemma link_new_ok:
  assumes "store_ok h" and "\<And>c. gains (mset (marks c)) (f c)"
  shows "store_ok (link_new a f t h)" and "roots (link_new a f t h) = roots h"
proof -
  obtain n c where c: "allocate (next_mark h) t = (n, c)" by (cases "allocate (next_mark h) t")
  have m: "next_mark h < n" "marks c = [next_mark h..<n]" using allocate_marks(1) [OF c] by auto
  let ?h = "h\<lparr>next_mark := n\<rparr>"
  have "store_ok ?h" using assms(1) m(1) by (auto simp: store_ok_def)
  note g0 = change_gains [OF this assms(2) [of c], of a]
  have l: "live ?h = live h" "link_new a f t h = change a (f c) ?h" by (simp_all add: link_new_def c)
  have g: "mset (marks_all (live (link_new a f t h))) \<subseteq># mset (marks_all (live h)) + mset [next_mark h..<n]"
    using g0 unfolding l m(2) .
  show "store_ok (link_new a f t h)" by (rule store_okI [OF assms(1) g]) (use m(1) c in \<open>simp_all add: link_new_def\<close>)
  show "roots (link_new a f t h) = roots h" using c by (simp add: link_new_def) (simp add: roots_def)
qed

lemma new_root_ok:
  assumes "store_ok h" and "new_root t h = (a, h')"
  shows "store_ok h'" and "roots h' = add_mset a (roots h)"
proof -
  obtain n c where c: "allocate (next_mark h) t = (n, c)" by (cases "allocate (next_mark h) t")
  have m: "next_mark h < n" "marks c = [next_mark h..<n]" using allocate_marks(1) [OF c] by auto
  have h': "h' = h\<lparr>live := live h @ [c], next_mark := n\<rparr>" "a = jmark c" using assms(2) c by (auto simp: new_root_def)
  show "store_ok h'" using m h' by (intro store_okI [OF assms(1), of _ n]) simp_all
  show "roots h' = add_mset a (roots h)" using h' by (simp add: roots_def)
qed

text \<open>Deleting roots that are there, each once.\<close>

lemma filter_marks: "mset (marks_all (filter P cs)) \<subseteq># mset (marks_all cs)"
  by (induction cs) (auto intro: subset_mset.add_left_mono simp: subset_mset.add_increasing)

lemma delete_root_ok:
  assumes "store_ok h" and "a \<in># roots h"
  shows "\<exists>h'. cJSON_Delete a h = Inr h' \<and> store_ok h' \<and> roots h = add_mset a (roots h')"
proof -
  let ?h = "h\<lparr>live := filter (\<lambda>c. jmark c \<noteq> a) (live h)\<rparr>"
  have ok: "store_ok ?h" using filter_marks by (intro store_okI [OF assms(1), of _ "next_mark h"]) simp_all
  have "distinct (map jmark (live h))"
    using distinct_submset [OF roots_counted, of "live h"] assms(1) by (simp add: store_ok_def)
  moreover have f: "(\<lambda>c. a \<noteq> jmark c) = (\<lambda>c. jmark c \<noteq> a)" by auto
  ultimately have "removeAll a (map jmark (live h)) = remove1 a (map jmark (live h))" by (simp add: distinct_remove1_removeAll)
  then have "map jmark (live ?h) = remove1 a (map jmark (live h))"
    by (simp add: removeAll_filter_not_eq filter_map comp_def f)
  moreover have a: "a \<in> set (map jmark (live h))" using assms(2) by (simp add: roots_def)
  ultimately have "roots h = add_mset a (roots ?h)" by (simp add: roots_def)
  with ok a show ?thesis unfolding cJSON_Delete_def by (intro exI [of _ ?h]) (simp only: if_True simp_thms)
qed

lemma delete_roots_ok:
  "store_ok h \<Longrightarrow> roots h = M + mset as \<Longrightarrow> \<exists>h'. delete_roots as h = Inr h' \<and> store_ok h' \<and> roots h' = M"
proof (induction as arbitrary: h)
  case (Cons a as)
  then obtain h1 where "cJSON_Delete a h = Inr h1" "store_ok h1" "roots h = add_mset a (roots h1)"
    using delete_root_ok [of h a] by auto
  with Cons show ?case by auto
qed simp

section \<open>What an object owns\<close>

definition trees :: "cjo \<Rightarrow> nat multiset" where
  "trees ob = mset (owned ob)"

definition wrapped :: "('k \<times> cjo) list \<Rightarrow> nat multiset" where
  "wrapped kvs = mset (concat (map (owned \<circ> snd) kvs))"

lemma wrapped_simps [simp]: "wrapped [] = {#}" "wrapped ((k, w) # kvs) = trees w + wrapped kvs" "wrapped (xs @ ys) = wrapped xs + wrapped ys"
  by (simp_all add: wrapped_def trees_def)

lemma trees_eq: "trees ob = (case m_pJsonData ob of Some a \<Rightarrow> {#a#} | None \<Rightarrow> {#}) + wrapped (m_mapJsonArrayRef ob) + wrapped (m_mapJsonObjectRef ob)"
proof -
  have "map snd (map (map_prod id owned) kvs) = map (owned \<circ> snd) kvs" for kvs :: "('k \<times> cjo) list" by (induction kvs) auto
  then show ?thesis by (cases ob) (simp add: trees_def wrapped_def split: option.split)
qed

lemma trees_simps [simp]: "trees new_cjo = {#}" "trees (cjo_on a) = {#}" "trees (with_travers t ob) = trees ob" "trees (with_error e ob) = trees ob"
  "m_pJsonData ob = None \<Longrightarrow> trees (with_data (Some a) ob) = add_mset a (trees ob)"
  by (simp_all add: trees_eq new_cjo_def cjo_on_def with_travers_def with_error_def with_data_def)

lemma trees_with_objects: "trees (with_objects os ob) + wrapped (m_mapJsonObjectRef ob) = trees ob + wrapped os"
  by (simp add: trees_eq with_objects_def)

lemma trees_with_arrays: "trees (with_arrays as ob) + wrapped (m_mapJsonArrayRef ob) = trees ob + wrapped as"
  by (simp add: trees_eq with_arrays_def ac_simps)

lemma wrapped_put: "map_of kvs k = Some w \<Longrightarrow> wrapped (put_at k v kvs) + trees w = wrapped kvs + trees v"
  by (induction k v kvs rule: put_at.induct) (auto simp: ac_simps split: if_split_asm)

lemma wrapped_filter: "wrapped kvs = wrapped (filter P kvs) + wrapped (filter (\<lambda>x. \<not> P x) kvs)"
  by (induction kvs) (auto simp: ac_simps)

text \<open>
  \<open>M\<close> are the trees of others. What the object owns is alive before and after the call, each tree
  once; nothing else comes or goes.
\<close>

definition owns :: "nat multiset \<Rightarrow> cjo \<Rightarrow> 'd store \<Rightarrow> bool" where
  "owns M ob h \<longleftrightarrow> store_ok h \<and> roots h = M + trees ob"

definition keeps :: "('d, 'r) member_fun \<Rightarrow> bool" where
  "keeps f \<longleftrightarrow> (\<forall>M ob h r ob' h'. owns M ob h \<longrightarrow> f ob h = Inr (r, ob', h') \<longrightarrow> owns M ob' h')"

lemma keepsI: "(\<And>M ob h r ob' h'. owns M ob h \<Longrightarrow> f ob h = Inr (r, ob', h') \<Longrightarrow> owns M ob' h') \<Longrightarrow> keeps f"
  unfolding keeps_def by blast

lemma keepsD: "keeps f \<Longrightarrow> owns M ob h \<Longrightarrow> f ob h = Inr (r, ob', h') \<Longrightarrow> owns M ob' h'"
  unfolding keeps_def by blast

lemma owns_same [simp]: "owns M (with_travers t ob) h = owns M ob h" "owns M (with_error e ob) h = owns M ob h"
  by (simp_all add: owns_def)

lemma owns_change: "owns M ob h \<Longrightarrow> gains {#} f \<Longrightarrow> owns M ob (change a f h)"
  by (simp add: owns_def change_ok)

lemma owns_link: "owns M ob h \<Longrightarrow> (\<And>c. gains (mset (marks c)) (f c)) \<Longrightarrow> owns M ob (link_new a f t h)"
  by (simp add: owns_def link_new_ok)

lemma owns_root:
  assumes "owns M ob h" and "new_root t h = (a, h')" and "m_pJsonData ob = None"
  shows "owns M (with_data (Some a) ob) h'"
  using assms new_root_ok [of h t a h'] by (simp add: owns_def)

text \<open>The trees of some of the objects handed out are freed.\<close>

lemma owns_forget:
  assumes "store_ok h" and "roots h = M + (N + wrapped kvs)"
  shows "\<exists>h'. delete_roots (concat (map (owned \<circ> snd) (filter P kvs))) h = Inr h' \<and> store_ok h'
     \<and> roots h' = M + (N + wrapped (filter (\<lambda>x. \<not> P x) kvs))"
proof -
  have "roots h = M + (N + wrapped (filter (\<lambda>x. \<not> P x) kvs)) + mset (concat (map (owned \<circ> snd) (filter P kvs)))"
    using assms(2) wrapped_filter [of kvs P] by (simp add: wrapped_def [symmetric] ac_simps)
  then show ?thesis by (rule delete_roots_ok [OF assms(1)])
qed

lemma forget_key_ok:
  assumes "owns M ob h"
  shows "\<exists>ob' h'. forget_key k ob h = Inr (ob', h') \<and> owns M ob' h'"
proof -
  let ?os = "m_mapJsonObjectRef ob"
  obtain N where n: "trees ob = N + wrapped ?os" using trees_eq [of ob] by simp
  have "roots h = M + (N + wrapped ?os)" using assms n by (simp add: owns_def)
  from owns_forget [OF _ this, of "\<lambda>(x, w). x = k"] assms
  obtain h' where h': "delete_roots (concat (map (owned \<circ> snd) (filter (\<lambda>(x, w). x = k) ?os))) h = Inr h'" "store_ok h'"
    "roots h' = M + (N + wrapped (filter (\<lambda>(x, w). x \<noteq> k) ?os))"
    by (auto simp: owns_def split_def)
  have "trees (with_objects (filter (\<lambda>(x, w). x \<noteq> k) ?os) ob) = N + wrapped (filter (\<lambda>(x, w). x \<noteq> k) ?os)"
    using trees_with_objects [of "filter (\<lambda>(x, w). x \<noteq> k) ?os" ob] n by (simp add: ac_simps)
  with h' show ?thesis by (simp add: forget_key_def owns_def)
qed

lemma forget_indices_ok:
  assumes "owns M ob h"
  shows "\<exists>ob' h'. forget_indices p ob h = Inr (ob', h') \<and> owns M ob' h'"
proof -
  let ?as = "m_mapJsonArrayRef ob"
  obtain N where n: "trees ob = N + wrapped ?as" using trees_eq [of ob] by (metis (no_types) add.commute add.left_commute)
  have "roots h = M + (N + wrapped ?as)" using assms n by (simp add: owns_def)
  from owns_forget [OF _ this, of "p \<circ> fst"] assms
  obtain h' where h': "delete_roots (concat (map (owned \<circ> snd) (filter (p \<circ> fst) ?as))) h = Inr h'" "store_ok h'"
    "roots h' = M + (N + wrapped (filter (Not \<circ> p \<circ> fst) ?as))"
    by (auto simp: owns_def comp_def)
  have "trees (with_arrays (filter (Not \<circ> p \<circ> fst) ?as) ob) = N + wrapped (filter (Not \<circ> p \<circ> fst) ?as)"
    using trees_with_arrays [of "filter (Not \<circ> p \<circ> fst) ?as" ob] n by (simp add: ac_simps)
  with h' show ?thesis by (simp add: forget_indices_def owns_def comp_def)
qed

lemma forget_keeps:
  "owns M ob h \<Longrightarrow> forget_key k ob h = Inr (ob', h') \<Longrightarrow> owns M ob' h'"
  "owns M ob h \<Longrightarrow> forget_indices p ob h = Inr (ob', h') \<Longrightarrow> owns M ob' h'"
  using forget_key_ok [of M ob h k] forget_indices_ok [of M ob h p] by auto

lemma clear_ok:
  assumes "owns M ob h"
  shows "\<exists>h'. Clear ob h = Inr ((), CJO None None None (m_strErrMsg ob) [] [], h') \<and> store_ok h' \<and> roots h' = M"
  using delete_roots_ok [of h M "owned ob"] assms by (auto simp: Clear_def owns_def trees_def)

section \<open>Every method keeps this\<close>

lemma keeps_clear: "keeps Clear"
proof (rule keepsI)
  fix M ob h r ob' h'
  assume "owns M ob h" "Clear ob h = Inr (r, ob', h')"
  with clear_ok [of M ob h] show "owns M ob' h'" by (auto simp: owns_def trees_eq)
qed

lemma keeps_parse: "keeps (Parse fl s)"
proof (rule keepsI)
  fix M ob h r ob' h'
  assume o: "owns M ob h" and p: "Parse fl s ob h = Inr (r, ob', h')"
  obtain ob1 h1 where c: "Clear ob h = Inr ((), ob1, h1)" "owns M ob1 h1" "m_pJsonData ob1 = None"
    using clear_ok [OF o] by (auto simp: owns_def trees_eq)
  show "owns M ob' h'"
  proof (cases "cJSON_Parse (floats.truncate fl) (c_str s)")
    case (Parsed t rest)
    obtain a h2 where "new_root t h1 = (a, h2)" by (cases "new_root t h1")
    with owns_root [OF c(2) this c(3)] Parsed c p show ?thesis by (auto simp: Parse_def)
  qed (use c p in \<open>auto simp: Parse_def\<close>)
qed

lemma keeps_assign: "keeps (assign fl o1)"
  by (rule keepsI) (auto simp: assign_def ebind_eq_Inr dest: keepsD [OF keeps_parse])

lemma keeps_read_object: "keeps (read_object fl f)"
  by (rule keepsI) (auto simp: read_object_def ebind_eq_Inr split: option.split_asm dest: keepsD [OF keeps_parse])

lemma keeps_GetKey: "keeps GetKey"
proof (rule keepsI)
  fix M ob h r ob' h'
  assume o: "owns M ob h" and g: "GetKey ob h = Inr (r, ob', h')"
  then obtain is_array where i: "IsArray ob h = Inr is_array" by (auto simp: GetKey_def ebind_eq_Inr)
  show "owns M ob' h'"
  proof (cases "m_pKeyTravers ob")
    case None
    then show ?thesis using o g i by (auto simp: GetKey_def split: if_split_asm)
  next
    case (Some k)
    show ?thesis
    proof (cases "deref h k")
      case (Inl e)
      then show ?thesis using o g i Some by (auto simp: GetKey_def split: if_split_asm)
    next
      case (Inr p)
      then show ?thesis using o g i Some
        by (cases "jchild p"; cases "jstring p"; cases "next_of_roots k (live h)"; cases "jstring (hd (jchild p))")
          (auto simp: GetKey_def split: if_split_asm)
    qed
  qed
qed

lemma keeps_adding_key:
  assumes "\<And>a. keeps (f a)"
  shows "keeps (adding_key k f)"
proof (rule keepsI)
  fix M ob h r ob' h'
  assume o: "owns M ob h" and p: "adding_key k f ob h = Inr (r, ob', h')"
  obtain a ob1 h1 where f: "object_focus ob h = (a, ob1, h1)" by (cases "object_focus ob h") auto
  have "owns M ob1 h1"
    using f o owns_root [OF o, of cJSON_CreateObject] by (auto simp: object_focus_def focus_def split: option.split_asm prod.split_asm)
  then show "owns M ob' h'"
    using p f keepsD [OF assms] by (auto simp: adding_key_def ebind_eq_Inr split: if_split_asm)
qed

lemma keeps_adding_item:
  assumes "\<And>a. keeps (f a)"
  shows "keeps (adding_item f)"
proof (rule keepsI)
  fix M ob h r ob' h'
  assume o: "owns M ob h" and p: "adding_item f ob h = Inr (r, ob', h')"
  obtain a ob1 h1 where f: "array_focus ob h = (a, ob1, h1)" by (cases "array_focus ob h") auto
  have "owns M ob1 h1"
    using f o owns_root [OF o, of cJSON_CreateArray] by (auto simp: array_focus_def focus_def split: option.split_asm prod.split_asm)
  then show "owns M ob' h'"
    using p f keepsD [OF assms] by (auto simp: adding_item_def ebind_eq_Inr split: if_split_asm)
qed

lemma keeps_editing:
  assumes "\<And>a. keeps (f a)"
  shows "keeps (editing t msg f)"
  by (rule keepsI) (auto simp: editing_def ebind_eq_Inr split: option.split_asm if_split_asm dest: keepsD [OF assms])

text \<open>What is done at the item once the checks are made.\<close>

lemma keeps_link_key: "keeps (\<lambda>ob h. Inr (r, with_travers (t ob) ob, link_key a k c h))"
  by (rule keepsI) (auto simp: link_key_def intro!: owns_link gains_add)

lemma keeps_add_value: "keeps (add_value k new)"
proof -
  have "owns M ob h \<Longrightarrow> owns M ob (link_key a k t h)" for M ob h a t
    by (auto simp: link_key_def intro!: owns_link gains_add)
  then show ?thesis unfolding add_value_def
    by (intro keeps_adding_key keepsI) (auto simp: ebind_eq_Inr Let_def split: if_split_asm)
qed

lemma keeps_add_empty: "keeps (AddEmptySubObject k)" "keeps (AddEmptySubArray k)"
  unfolding AddEmptySubObject_def AddEmptySubArray_def by (rule keeps_adding_key, rule keeps_link_key)+

lemma keeps_add_key_object: "keeps (Add_key_object fl k o1)"
proof -
  have l: "owns M ob h \<Longrightarrow> owns M ob (link_key a k t h)" for M ob h a t
    by (auto simp: link_key_def intro!: owns_link gains_add)
  show ?thesis unfolding Add_key_object_def
    by (intro keeps_adding_key keepsI)
      (auto simp: ebind_eq_Inr Let_def split: if_split_asm intro: l forget_keeps(1) [OF l])
qed

lemma keeps_link_item: "(\<And>c. gains (mset (marks c)) (add c)) \<Longrightarrow> keeps (link_item add new a)"
  by (rule keepsI) (auto simp: link_item_def ebind_eq_Inr Let_def intro!: owns_link)

lemma keeps_add_item: "keeps (add_item new)" "keeps (add_first new)"
  unfolding add_item_def add_first_def by (intro keeps_adding_item keeps_link_item gains_add)+

lemma keeps_add_object: "keeps (Add_object fl o1)" "keeps (AddAsFirst_object fl o1)"
proof -
  have l: "owns M ob h \<Longrightarrow> link_item (\<lambda>i cs. cJSON_AddItemToArray cs i) new a ob h = Inr (ok, ob', h') \<Longrightarrow> owns M ob' h'"
    and f: "owns M ob h \<Longrightarrow> link_item (\<lambda>i cs. cJSON_AddItemToArrayHead cs i) new a ob h = Inr (ok, ob', h') \<Longrightarrow> owns M ob' h'"
    for M ob h a ok ob' h' new
    by (erule (1) keepsD [OF keeps_link_item, rotated], rule gains_add)+
  show "keeps (Add_object fl o1)" unfolding Add_object_def
    by (intro keeps_adding_item keepsI) (auto simp: ebind_eq_Inr split: if_split_asm intro: l forget_keeps(2) [OF l])
  show "keeps (AddAsFirst_object fl o1)" unfolding AddAsFirst_object_def
    by (intro keeps_adding_item keepsI) (auto simp: ebind_eq_Inr split: if_split_asm intro: f forget_keeps(2) [OF f])
qed

lemma keeps_delete: "keeps (Delete_key k)" "keeps (Delete_index i)"
  unfolding Delete_key_def Delete_index_def
  by (intro keeps_editing keepsI; auto simp: ebind_eq_Inr intro: forget_keeps(1) [OF owns_change [OF _ gains_delete(2)]]
        forget_keeps(2) [OF owns_change [OF _ gains_delete(1)]])+

lemma owns_relink:
  assumes "owns M ob h"
  shows "relink_key a k t h = Inr (ok, h') \<Longrightarrow> owns M ob h'" and "relink_index a i t h = Inr (ok, h') \<Longrightarrow> owns M ob h'"
  using assms by (auto simp: relink_key_def relink_index_def ebind_eq_Inr Let_def intro!: owns_link gains_replace)

lemma keeps_replace: "keeps (replace_value k new)" "keeps (replace_item i new)"
  "keeps (Replace_key_object fl k o1)" "keeps (Replace_index_object fl i o1)"
  unfolding replace_value_def replace_item_def Replace_key_object_def Replace_index_object_def
  by (intro keeps_editing keepsI; auto simp: ebind_eq_Inr split: if_split_asm intro: owns_relink forget_keeps owns_relink [OF forget_keeps(1)]
        owns_relink [OF forget_keeps(2)] forget_keeps [OF owns_relink(1)] forget_keeps [OF owns_relink(2)])+

text \<open>A method called on an object that was handed out.\<close>

lemma wrapped_get: "map_of kvs k = Some w \<Longrightarrow> \<exists>R. wrapped kvs = R + trees w"
proof (induction kvs)
  case (Cons x kvs)
  show ?case
  proof (cases "fst x = k")
    case True
    with Cons(2) show ?thesis by (cases x) (auto simp: ac_simps)
  next
    case False
    with Cons obtain R where "wrapped kvs = R + trees w" by (cases x) auto
    then show ?thesis by (cases x) (auto simp: ac_simps intro: exI [of _ "trees (snd x) + R"])
  qed
qed simp

lemma handed_out [simp]: "m_mapJsonObjectRef (with_objects os ob) = os" "m_mapJsonArrayRef (with_arrays as ob) = as"
  "trees (with_objects (m_mapJsonObjectRef ob @ [(k, w)]) ob) = trees ob + trees w"
  "trees (with_arrays (m_mapJsonArrayRef ob @ [(i, w)]) ob) = trees ob + trees w"
  by (simp_all add: trees_eq with_objects_def with_arrays_def ac_simps)

lemma keeps_via_key:
  assumes "keeps f"
  shows "keeps (via_key k f)"
proof (rule keepsI)
  fix M ob h r ob' h'
  assume o: "owns M ob h" and v: "via_key k f ob h = Inr (r, ob', h')"
  obtain w ob1 where a: "at_key k ob h = Inr (w, ob1, h)" "map_of (m_mapJsonObjectRef ob1) k = Some w" "trees ob1 = trees ob"
    using v by (auto simp: via_key_def at_key_def ebind_eq_Inr Let_def map_of_append map_add_def split: option.split option.split_asm)
  obtain R where r: "wrapped (m_mapJsonObjectRef ob1) = R + trees w" using wrapped_get [OF a(2)] by blast
  obtain N where n: "trees ob1 = N + wrapped (m_mapJsonObjectRef ob1)" using trees_eq [of ob1] by simp
  have q: "owns (M + N + R) w h" using o a(3) n r by (simp add: owns_def ac_simps)
  obtain w' where f: "f w h = Inr (r, w', h')" "ob' = with_objects (put_at k w' (m_mapJsonObjectRef ob1)) ob1"
    using v a(1) by (auto simp: via_key_def ebind_eq_Inr)
  have w: "owns (M + N + R) w' h'" by (rule keepsD [OF assms q f(1)])
  have "trees ob' = N + R + trees w'"
    using trees_with_objects [of "put_at k w' (m_mapJsonObjectRef ob1)" ob1] wrapped_put [OF a(2), of w'] n r f(2) by (simp add: ac_simps)
  then show "owns M ob' h'" using w by (simp add: owns_def ac_simps)
qed

lemma keeps_via_index:
  assumes "keeps f"
  shows "keeps (via_index i f)"
proof (rule keepsI)
  fix M ob h r ob' h'
  assume o: "owns M ob h" and v: "via_index i f ob h = Inr (r, ob', h')"
  obtain w ob1 where a: "at_index i ob h = Inr (w, ob1, h)" "map_of (m_mapJsonArrayRef ob1) i = Some w" "trees ob1 = trees ob"
    using v by (auto simp: via_index_def at_index_def ebind_eq_Inr Let_def map_of_append map_add_def split: option.split option.split_asm)
  obtain R where r: "wrapped (m_mapJsonArrayRef ob1) = R + trees w" using wrapped_get [OF a(2)] by blast
  obtain N where n: "trees ob1 = N + wrapped (m_mapJsonArrayRef ob1)" using trees_eq [of ob1] by (metis (no_types) add.commute add.left_commute)
  have q: "owns (M + N + R) w h" using o a(3) n r by (simp add: owns_def ac_simps)
  obtain w' where f: "f w h = Inr (r, w', h')" "ob' = with_arrays (put_at i w' (m_mapJsonArrayRef ob1)) ob1"
    using v a(1) by (auto simp: via_index_def ebind_eq_Inr)
  have w: "owns (M + N + R) w' h'" by (rule keepsD [OF assms q f(1)])
  have "trees ob' = N + R + trees w'"
    using trees_with_arrays [of "put_at i w' (m_mapJsonArrayRef ob1)" ob1] wrapped_put [OF a(2), of w'] n r f(2) by (simp add: ac_simps)
  then show "owns M ob' h'" using w by (simp add: owns_def ac_simps)
qed

section \<open>Sequences of calls\<close>

text \<open>The overloads of a method, by the type of their argument.\<close>

datatype 'd json_value = VString bytes | VInt32 int | VUint32 int | VInt64 int | VUint64 int | VBool bool | VFloat 'd | VDouble 'd | VNull

fun add_key_of :: "('d, 'x) numbers_scheme \<Rightarrow> bytes \<Rightarrow> 'd json_value \<Rightarrow> ('d, bool) member_fun" where
  "add_key_of fl k (VString s) = Add_key_string k s"
| "add_key_of fl k (VInt32 n) = Add_key_int32 fl k n"
| "add_key_of fl k (VUint32 n) = Add_key_uint32 fl k n"
| "add_key_of fl k (VInt64 n) = Add_key_int64 fl k n"
| "add_key_of fl k (VUint64 n) = Add_key_uint64 fl k n"
| "add_key_of fl k (VBool b) = Add_key_bool k b"
| "add_key_of fl k (VFloat d) = Add_key_float fl k d"
| "add_key_of fl k (VDouble d) = Add_key_double fl k d"
| "add_key_of fl k VNull = AddNull_key k"

fun replace_key_of :: "('d, 'x) numbers_scheme \<Rightarrow> bytes \<Rightarrow> 'd json_value \<Rightarrow> ('d, bool) member_fun" where
  "replace_key_of fl k (VString s) = Replace_key_string k s"
| "replace_key_of fl k (VInt32 n) = Replace_key_int32 fl k n"
| "replace_key_of fl k (VUint32 n) = Replace_key_uint32 fl k n"
| "replace_key_of fl k (VInt64 n) = Replace_key_int64 fl k n"
| "replace_key_of fl k (VUint64 n) = Replace_key_uint64 fl k n"
| "replace_key_of fl k (VBool b) = Replace_key_bool k b"
| "replace_key_of fl k (VFloat d) = Replace_key_float fl k d"
| "replace_key_of fl k (VDouble d) = Replace_key_double fl k d"
| "replace_key_of fl k VNull = ReplaceWithNull_key k"

fun replace_index_of :: "('d, 'x) numbers_scheme \<Rightarrow> int \<Rightarrow> 'd json_value \<Rightarrow> ('d, bool) member_fun" where
  "replace_index_of fl i (VString s) = Replace_index_string i s"
| "replace_index_of fl i (VInt32 n) = Replace_index_int32 fl i n"
| "replace_index_of fl i (VUint32 n) = Replace_index_uint32 fl i n"
| "replace_index_of fl i (VInt64 n) = Replace_index_int64 fl i n"
| "replace_index_of fl i (VUint64 n) = Replace_index_uint64 fl i n"
| "replace_index_of fl i (VBool b) = Replace_index_bool i b"
| "replace_index_of fl i (VFloat d) = Replace_index_float fl i d"
| "replace_index_of fl i (VDouble d) = Replace_index_double fl i d"
| "replace_index_of fl i VNull = ReplaceWithNull_index i"

fun add_of :: "('d, 'x) numbers_scheme \<Rightarrow> 'd json_value \<Rightarrow> ('d, bool) member_fun" where
  "add_of fl (VString s) = Add_string s"
| "add_of fl (VInt32 n) = Add_int32 fl n"
| "add_of fl (VUint32 n) = Add_uint32 fl n"
| "add_of fl (VInt64 n) = Add_int64 fl n"
| "add_of fl (VUint64 n) = Add_uint64 fl n"
| "add_of fl (VBool b) = Add_bool b"
| "add_of fl (VFloat d) = Add_float fl d"
| "add_of fl (VDouble d) = Add_double fl d"
| "add_of fl VNull = AddNull"

fun add_first_of :: "('d, 'x) numbers_scheme \<Rightarrow> 'd json_value \<Rightarrow> ('d, bool) member_fun" where
  "add_first_of fl (VString s) = AddAsFirst_string s"
| "add_first_of fl (VInt32 n) = AddAsFirst_int32 fl n"
| "add_first_of fl (VUint32 n) = AddAsFirst_uint32 fl n"
| "add_first_of fl (VInt64 n) = AddAsFirst_int64 fl n"
| "add_first_of fl (VUint64 n) = AddAsFirst_uint64 fl n"
| "add_first_of fl (VBool b) = AddAsFirst_bool b"
| "add_first_of fl (VFloat d) = AddAsFirst_float fl d"
| "add_first_of fl (VDouble d) = AddAsFirst_double fl d"
| "add_first_of fl VNull = AddNullAsFirst"

datatype 'd json_op = DoClear | DoParse bytes | DoAssign cjo | DoGetKey | DoResetTraversing
  | DoAddKey bytes "'d json_value" | DoAddKeyObject bytes cjo | DoAddSubObject bytes | DoAddSubArray bytes
  | DoAdd "'d json_value" | DoAddObject cjo | DoAddFirst "'d json_value" | DoAddFirstObject cjo
  | DoReplaceKey bytes "'d json_value" | DoReplaceKeyObject bytes cjo | DoReplaceIndex int "'d json_value" | DoReplaceIndexObject int cjo
  | DoDeleteKey bytes | DoDeleteIndex int | AtKey bytes "'d json_op" | AtIndex nat "'d json_op"

definition no_result :: "('d, 'r) member_fun \<Rightarrow> ('d, unit) member_fun" where
  "no_result f ob h = ebind (f ob h) (\<lambda>(r, ob', h'). Inr ((), ob', h'))"

text \<open>The last two call a method on what \<open>operator[]\<close> hands out.\<close>

fun json_do :: "('d, 'x) numbers_scheme \<Rightarrow> 'd json_op \<Rightarrow> ('d, unit) member_fun" where
  "json_do fl DoClear = Clear"
| "json_do fl (DoParse s) = no_result (Parse fl s)"
| "json_do fl (DoAssign o1) = no_result (assign fl o1)"
| "json_do fl DoGetKey = no_result GetKey"
| "json_do fl DoResetTraversing = (\<lambda>ob h. Inr ((), ResetTraversing ob, h))"
| "json_do fl (DoAddKey k v) = no_result (add_key_of fl k v)"
| "json_do fl (DoAddKeyObject k o1) = no_result (Add_key_object fl k o1)"
| "json_do fl (DoAddSubObject k) = no_result (AddEmptySubObject k)"
| "json_do fl (DoAddSubArray k) = no_result (AddEmptySubArray k)"
| "json_do fl (DoAdd v) = no_result (add_of fl v)"
| "json_do fl (DoAddObject o1) = no_result (Add_object fl o1)"
| "json_do fl (DoAddFirst v) = no_result (add_first_of fl v)"
| "json_do fl (DoAddFirstObject o1) = no_result (AddAsFirst_object fl o1)"
| "json_do fl (DoReplaceKey k v) = no_result (replace_key_of fl k v)"
| "json_do fl (DoReplaceKeyObject k o1) = no_result (Replace_key_object fl k o1)"
| "json_do fl (DoReplaceIndex i v) = no_result (replace_index_of fl i v)"
| "json_do fl (DoReplaceIndexObject i o1) = no_result (Replace_index_object fl i o1)"
| "json_do fl (DoDeleteKey k) = no_result (Delete_key k)"
| "json_do fl (DoDeleteIndex i) = no_result (Delete_index i)"
| "json_do fl (AtKey k op) = via_key k (json_do fl op)"
| "json_do fl (AtIndex i op) = via_index i (json_do fl op)"

fun json_run :: "('d, 'x) numbers_scheme \<Rightarrow> 'd json_op list \<Rightarrow> ('d, unit) member_fun" where
  "json_run fl [] ob h = Inr ((), ob, h)"
| "json_run fl (op # ops) ob h = ebind (json_do fl op ob h) (\<lambda>(u, ob1, h1). json_run fl ops ob1 h1)"

lemma keeps_values: "keeps (add_key_of fl k v)" "keeps (replace_key_of fl k v)" "keeps (replace_index_of fl i v)" "keeps (add_of fl v)"
  "keeps (add_first_of fl v)"
  by (cases v; simp add: Add_key_string_def Add_key_int32_def Add_key_uint32_def Add_key_int64_def Add_key_uint64_def Add_key_bool_def
      Add_key_float_def Add_key_double_def AddNull_key_def keeps_add_value)
    (cases v; simp add: Replace_key_string_def Replace_key_int32_def Replace_key_uint32_def Replace_key_int64_def Replace_key_uint64_def
      Replace_key_bool_def Replace_key_float_def Replace_key_double_def ReplaceWithNull_key_def keeps_replace
      Replace_index_string_def Replace_index_int32_def Replace_index_uint32_def Replace_index_int64_def Replace_index_uint64_def
      Replace_index_bool_def Replace_index_float_def Replace_index_double_def ReplaceWithNull_index_def keeps_add_item
      Add_string_def Add_int32_def Add_uint32_def Add_int64_def Add_uint64_def Add_bool_def Add_float_def Add_double_def AddNull_def
      AddAsFirst_string_def AddAsFirst_int32_def AddAsFirst_uint32_def AddAsFirst_int64_def AddAsFirst_uint64_def AddAsFirst_bool_def
      AddAsFirst_float_def AddAsFirst_double_def AddNullAsFirst_def)+

lemma keeps_no_result: "keeps f \<Longrightarrow> keeps (no_result f)"
  by (rule keepsI) (auto simp: no_result_def ebind_eq_Inr dest: keepsD)

lemmas keeps_methods = keeps_clear keeps_parse keeps_assign keeps_GetKey keeps_values keeps_add_key_object keeps_add_empty keeps_add_object
  keeps_replace(3,4) keeps_delete keeps_via_key keeps_via_index

lemma keeps_do: "keeps (json_do fl op)"
proof (induction op)
  case DoResetTraversing
  show ?case by (rule keepsI) (auto simp: ResetTraversing_def)
qed (simp_all add: keeps_methods keeps_no_result)

lemma keeps_run: "keeps (json_run fl ops)"
proof (induction ops)
  case Nil
  show ?case by (rule keepsI) simp
next
  case (Cons op ops)
  show ?case by (rule keepsI) (auto simp: ebind_eq_Inr dest: keepsD [OF keeps_do] keepsD [OF Cons])
qed

text \<open>
  C38: whatever methods were called on a \<open>CJsonObject\<close> and on the objects \<open>operator[]\<close> has handed
  out for it, to any depth, no address is used twice, the object owns no tree twice, and
  its destructor (\<open>Clear\<close>) runs without a fault: it frees each tree the object came to own,
  and nothing of any other object.
\<close>

theorem memory_kept:
  assumes "store_ok h" and "json_run fl ops new_cjo h = Inr (u, ob, h')"
  shows "store_ok h' \<and> distinct (owned ob) \<and> set (owned ob) \<inter> set (map jmark (live h)) = {}
     \<and> (\<exists>ob2 h2. Clear ob h' = Inr ((), ob2, h2) \<and> store_ok h2 \<and> mset (map jmark (live h2)) = mset (map jmark (live h)))"
proof -
  have o: "owns (roots h) ob h'"
    by (rule keepsD [OF keeps_run _ assms(2)]) (simp add: owns_def assms(1))
  then have s: "store_ok h'" "roots h' = roots h + mset (owned ob)" by (simp_all add: owns_def trees_def)
  have "distinct (map jmark (live h'))" using distinct_submset [OF roots_counted, of "live h'"] s(1) by (simp add: store_ok_def)
  moreover have "mset (map jmark (live h')) = mset (map jmark (live h) @ owned ob)" using s(2) by (simp add: roots_def)
  ultimately have "distinct (map jmark (live h) @ owned ob)" by (metis mset_eq_imp_distinct_iff)
  then show ?thesis using clear_ok [OF o] s(1) by (auto simp: roots_def)
qed

definition sample_ops :: "int json_op list" where
  "sample_ops = [DoAddKey ''a'' (VInt32 1), DoAddSubObject ''b'', AtKey ''b'' (DoAddSubArray ''c''), AtKey ''b'' (AtKey ''c'' (DoAdd VNull)),
     DoReplaceKey ''a'' (VBool True), DoDeleteKey ''b'']"

lemma memory_kept_witness:
  "\<exists>ob h'. json_run plain_numbers sample_ops new_cjo empty_store = Inr ((), ob, h') \<and> store_ok h' \<and> length (owned ob) = 1
     \<and> (\<exists>ob2 h2. Clear ob h' = Inr ((), ob2, h2) \<and> mset (map jmark (live h2)) = {#})"
proof -
  have "case json_run plain_numbers sample_ops new_cjo empty_store of Inr (u, ob, h) \<Rightarrow> length (owned ob) = 1 | Inl e \<Rightarrow> False"
    by code_simp
  then obtain ob h' where r: "json_run plain_numbers sample_ops new_cjo empty_store = Inr ((), ob, h')" "length (owned ob) = 1"
    by (auto split: sum.split_asm)
  have "store_ok (empty_store :: int store)" by (simp add: store_ok_def empty_store_def)
  from memory_kept [OF this r(1)] r show ?thesis by (auto simp: empty_store_def)
qed

end
