(* ===== verification/JsonHeap.thy ===== *)
theory JsonHeap
  imports Prelude
begin

text \<open>
  The items of \<open>util/cJSON.c\<close> as blocks of memory: adding items and references to them, and
  \<open>cJSON_Delete\<close>, which frees block after block. An access to a block that was freed is a
  fault, and so is a second \<open>free\<close>. A reference shares the children and the text of the
  item it was made from. The loops follow pointers and would not return on a cycle.
\<close>

section \<open>Memory\<close>

record cell =
  cnext :: "nat option"
  cprev :: "nat option"
  cchild :: "nat option"
  cvalue :: "nat option" \<comment> \<open>\<open>valuestring\<close>\<close>
  cname :: "nat option" \<comment> \<open>\<open>string\<close>\<close>
  is_reference :: bool \<comment> \<open>\<open>type & cJSON_IsReference\<close>\<close>

datatype block = Cell cell | Text

type_synonym memory = "nat \<Rightarrow> block option"

definition cell_at :: "nat \<Rightarrow> memory \<Rightarrow> fault + cell" where
  "cell_at a m = (case m a of Some (Cell c) \<Rightarrow> Inr c | _ \<Rightarrow> Inl Out_of_range)"

definition free :: "nat \<Rightarrow> memory \<Rightarrow> fault + memory" where
  "free a m = (case m a of None \<Rightarrow> Inl Out_of_range | Some b \<Rightarrow> Inr (m(a := None)))"

definition free_text :: "nat option \<Rightarrow> memory \<Rightarrow> fault + memory" where
  "free_text p m = (case p of None \<Rightarrow> Inr m | Some a \<Rightarrow> free a m)"

definition update_cell :: "nat \<Rightarrow> (cell \<Rightarrow> cell) \<Rightarrow> memory \<Rightarrow> fault + memory" where
  "update_cell a f m = ebind (cell_at a m) (\<lambda>c. Inr (m(a \<mapsto> Cell (f c))))"

section \<open>Deleting\<close>

text \<open>What the loop of \<open>cJSON_Delete\<close> does with one item when its children are gone.\<close>

definition free_item :: "nat \<Rightarrow> memory \<Rightarrow> fault + memory" where
  "free_item a m =
     ebind (cell_at a m) (\<lambda>c.
     ebind (if is_reference c then Inr m else free_text (cvalue c) m) (\<lambda>m1.
     ebind (free_text (cname c) m1) (\<lambda>m2. free a m2)))"

partial_function (option) delete_from :: "nat option \<Rightarrow> memory \<Rightarrow> (fault + memory) option" where
  "delete_from p m =
     (case p of
        None \<Rightarrow> Some (Inr m)
      | Some a \<Rightarrow>
          (case cell_at a m of
             Inl e \<Rightarrow> Some (Inl e)
           | Inr c \<Rightarrow>
               Option.bind (if is_reference c \<or> cchild c = None then Some (Inr m) else delete_from (cchild c) m) (\<lambda>r.
                 (case ebind r (free_item a) of
                    Inl e \<Rightarrow> Some (Inl e)
                  | Inr m1 \<Rightarrow> delete_from (cnext c) m1))))"

section \<open>Adding\<close>

partial_function (option) last_cell :: "nat \<Rightarrow> memory \<Rightarrow> (fault + nat) option" where
  "last_cell a m =
     (case cell_at a m of
        Inl e \<Rightarrow> Some (Inl e)
      | Inr c \<Rightarrow> (case cnext c of None \<Rightarrow> Some (Inr a) | Some b \<Rightarrow> last_cell b m))"

definition link_cells :: "nat \<Rightarrow> nat \<Rightarrow> memory \<Rightarrow> fault + memory" where
  "link_cells prev item m =
     ebind (update_cell prev (\<lambda>c. c\<lparr>cnext := Some item\<rparr>) m) (update_cell item (\<lambda>c. c\<lparr>cprev := Some prev\<rparr>))"

definition add_cell :: "nat \<Rightarrow> nat \<Rightarrow> memory \<Rightarrow> (fault + memory) option" where
  "add_cell array item m =
     (case cell_at array m of
        Inl e \<Rightarrow> Some (Inl e)
      | Inr c \<Rightarrow>
          (case cchild c of
             None \<Rightarrow> Some (update_cell array (\<lambda>c. c\<lparr>cchild := Some item\<rparr>) m)
           | Some a \<Rightarrow> map_option (\<lambda>r. ebind r (\<lambda>l. link_cells l item m)) (last_cell a m)))"

text \<open>\<open>ref\<close> is the address \<open>cJSON_New_Item\<close> returns.\<close>

definition create_reference :: "nat \<Rightarrow> nat \<Rightarrow> memory \<Rightarrow> fault + memory" where
  "create_reference ref item m =
     ebind (cell_at item m) (\<lambda>c. Inr (m(ref \<mapsto> Cell (c\<lparr>cname := None, is_reference := True, cnext := None, cprev := None\<rparr>))))"

definition add_reference :: "nat \<Rightarrow> nat \<Rightarrow> nat \<Rightarrow> memory \<Rightarrow> (fault + memory) option" where
  "add_reference ref array item m =
     (case create_reference ref item m of Inl e \<Rightarrow> Some (Inl e) | Inr m1 \<Rightarrow> add_cell array ref m1)"

text \<open>To an object the item is added under a name; \<open>text\<close> is the address \<open>cJSON_strdup\<close> returns.\<close>

definition add_cell_named :: "nat \<Rightarrow> nat \<Rightarrow> nat \<Rightarrow> memory \<Rightarrow> (fault + memory) option" where
  "add_cell_named new_text object item m =
     (case ebind (cell_at item m) (\<lambda>c. ebind (free_text (cname c) m) (\<lambda>m1.
        update_cell item (\<lambda>c. c\<lparr>cname := Some new_text\<rparr>) (m1(new_text \<mapsto> Text)))) of
        Inl e \<Rightarrow> Some (Inl e)
      | Inr m2 \<Rightarrow> add_cell object item m2)"

definition add_reference_named :: "nat \<Rightarrow> nat \<Rightarrow> nat \<Rightarrow> nat \<Rightarrow> memory \<Rightarrow> (fault + memory) option" where
  "add_reference_named ref new_text object item m =
     (case create_reference ref item m of Inl e \<Rightarrow> Some (Inl e) | Inr m1 \<Rightarrow> add_cell_named new_text object ref m1)"

section \<open>Trees in memory\<close>

text \<open>
  A tree with its addresses: the item, the text of its value and of its name, whether it is a
  reference, and its own children. A reference owns its name only.
\<close>

datatype tree = Tree nat bool "nat option" "nat option" "tree list"

fun addr :: "tree \<Rightarrow> nat" where
  "addr (Tree a r v n cs) = a"

fun laid :: "memory \<Rightarrow> nat option \<Rightarrow> tree list \<Rightarrow> bool" where
  "laid m p [] \<longleftrightarrow> p = None"
| "laid m p (Tree a r v n cs # ts) \<longleftrightarrow> p = Some a \<and>
     (case m a of
        Some (Cell c) \<Rightarrow> is_reference c = r \<and> cvalue c = v \<and> cname c = n
          \<and> (if r then cs = [] else laid m (cchild c) cs) \<and> laid m (cnext c) ts
      | _ \<Rightarrow> False)"

definition given :: "nat option \<Rightarrow> nat list" where
  "given p = (case p of None \<Rightarrow> [] | Some a \<Rightarrow> [a])"

fun blocks :: "tree list \<Rightarrow> nat list" where
  "blocks [] = []"
| "blocks (Tree a r v n cs # ts) = a # (if r then [] else given v) @ given n @ (if r then [] else blocks cs) @ blocks ts"

fun texts :: "tree list \<Rightarrow> nat list" where
  "texts [] = []"
| "texts (Tree a r v n cs # ts) = (if r then [] else given v) @ given n @ (if r then [] else texts cs) @ texts ts"

definition in_memory :: "memory \<Rightarrow> nat option \<Rightarrow> tree list \<Rightarrow> bool" where
  "in_memory m p ts \<longleftrightarrow> laid m p ts \<and> distinct (blocks ts) \<and> (\<forall>a \<in> set (texts ts). m a = Some Text)"

definition freed :: "nat list \<Rightarrow> memory \<Rightarrow> memory" where
  "freed as m = (\<lambda>a. if a \<in> set as then None else m a)"

lemma given_simps [simp]: "given None = []" "given (Some a) = [a]"
  by (simp_all add: given_def)

lemma freed_simps [simp]: "freed [] m = m" "freed (a # as) m = freed as (m(a := None))" "freed (as @ bs) m = freed bs (freed as m)"
  by (auto simp: freed_def)

lemma texts_blocks: "set (texts ts) \<subseteq> set (blocks ts)"
  by (induction ts rule: blocks.induct) auto

lemma laid_frame: "laid m p ts \<Longrightarrow> (\<And>a. a \<in> set (blocks ts) \<Longrightarrow> m' a = m a) \<Longrightarrow> laid m' p ts"
proof (induction m p ts rule: laid.induct)
  case (2 m p a r v n cs ts)
  then obtain c where c: "m a = Some (Cell c)" "p = Some a" by (auto split: option.splits block.splits)
  with 2 show ?case by (auto split: if_splits)
qed simp

lemma free_text_ok: "\<forall>a \<in> set (given p). m a \<noteq> None \<Longrightarrow> free_text p m = Inr (freed (given p) m)"
  by (cases p) (auto simp: free_text_def free_def)

text \<open>Deleting a chain frees exactly the blocks it owns, each once.\<close>

lemma freed_other [simp]: "a \<notin> set as \<Longrightarrow> freed as m a = m a"
  by (simp add: freed_def)

lemma laid_head:
  assumes "laid m p (Tree a r v n cs # ts)"
  obtains c where "m a = Some (Cell c)" "p = Some a" "is_reference c = r" "cvalue c = v" "cname c = n"
    "if r then cs = [] else laid m (cchild c) cs" "laid m (cnext c) ts"
  using assms by (auto split: option.splits block.splits)

lemma free_item_ok:
  assumes "m a = Some (Cell c)" and "own = (if is_reference c then [] else given (cvalue c)) @ given (cname c)"
    and "\<forall>b \<in> set own. m b = Some Text" and "distinct own"
  shows "free_item a m = Inr (freed (own @ [a]) m)"
proof -
  define m1 where "m1 = freed (if is_reference c then [] else given (cvalue c)) m"
  have 1: "(if is_reference c then Inr m else free_text (cvalue c) m) = Inr m1"
    using assms(2,3) by (auto simp: m1_def free_text_ok)
  have 2: "free_text (cname c) m1 = Inr (freed (given (cname c)) m1)"
    using assms(2-4) by (intro free_text_ok) (auto simp: m1_def freed_def)
  have "a \<notin> set own" using assms(1,3) by auto
  then have "free a (freed (given (cname c)) m1) = Inr (freed (own @ [a]) m)"
    using assms(1,2) by (simp add: free_def m1_def)
  with assms(1) 1 2 show ?thesis by (simp add: free_item_def cell_at_def)
qed

lemma delete_frees:
  "laid m p ts \<Longrightarrow> distinct (blocks ts) \<Longrightarrow> \<forall>a \<in> set (texts ts). m a = Some Text \<Longrightarrow>
     delete_from p m = Some (Inr (freed (blocks ts) m))"
proof (induction ts arbitrary: m p rule: blocks.induct)
  case 1
  then show ?case by (simp add: delete_from.simps)
next
  case (2 a r v n cs ts)
  from 2(3) obtain c where c: "m a = Some (Cell c)" "p = Some a" "is_reference c = r" "cvalue c = v" "cname c = n"
      "if r then cs = [] else laid m (cchild c) cs" "laid m (cnext c) ts" by (rule laid_head)
  define kids where "kids = (if r then [] else blocks cs)"
  define own where "own = (if r then [] else given v) @ given n"
  have b: "distinct (a # own @ kids @ blocks ts)" "blocks (Tree a r v n cs # ts) = a # own @ kids @ blocks ts"
    using 2(4) by (simp_all add: own_def kids_def)
  have x: "\<forall>b \<in> set own. m b = Some Text" "\<forall>b \<in> set (texts ts). m b = Some Text" "\<not> r \<Longrightarrow> \<forall>b \<in> set (texts cs). m b = Some Text"
    using 2(5) by (auto simp: own_def)
  have d: "(if r \<or> cchild c = None then Some (Inr m) else delete_from (cchild c) m) = Some (Inr (freed kids m))"
  proof (cases "r \<or> cchild c = None")
    case True
    then have "kids = []" using c(6) by (cases cs) (auto simp: kids_def elim: laid.elims)
    with True show ?thesis by simp
  next
    case False
    then show ?thesis using 2(1) [of m "cchild c"] c(6) x(3) b(1) by (auto simp: kids_def)
  qed
  have "\<forall>b \<in> set own. freed kids m b = Some Text" "freed kids m a = Some (Cell c)" using b(1) x(1) c(1) by (auto simp: freed_def)
  moreover have "own = (if is_reference c then [] else given (cvalue c)) @ given (cname c)" using c(3-5) by (simp add: own_def)
  ultimately have f: "free_item a (freed kids m) = Inr (freed (own @ [a]) (freed kids m))"
    using b(1) by (intro free_item_ok) auto
  have "laid (freed (own @ [a]) (freed kids m)) (cnext c) ts"
    by (rule laid_frame [OF c(7)]) (use b(1) in \<open>auto simp: freed_def\<close>)
  then have "delete_from (cnext c) (freed (own @ [a]) (freed kids m)) = Some (Inr (freed (blocks ts) (freed (own @ [a]) (freed kids m))))"
    using b(1) x(2) texts_blocks [of ts] by (intro 2(2)) (auto simp: freed_def)
  then have "delete_from p m = Some (Inr (freed (blocks ts) (freed (own @ [a]) (freed kids m))))"
    using c(1-3) d f by (simp add: delete_from.simps [of "Some a"] cell_at_def)
  also have "freed (blocks ts) (freed (own @ [a]) (freed kids m)) = freed (blocks (Tree a r v n cs # ts)) m"
    unfolding b(2) by (rule ext) (auto simp: freed_def)
  finally show ?case .
qed

section \<open>Adding at the end\<close>

text \<open>\<open>prev\<close> plays no part in \<open>laid\<close>.\<close>

lemma laid_prev: "m i = Some (Cell c) \<Longrightarrow> laid (m(i \<mapsto> Cell (c\<lparr>cprev := q\<rparr>))) p ts = laid m p ts"
proof (induction m p ts rule: laid.induct)
  case (2 m p a r v n cs ts)
  then show ?case by (cases "a = i") (auto split: option.splits block.splits)
qed simp

lemma last_cell_ok: "laid m (Some a) ts \<Longrightarrow> last_cell a m = Some (Inr (addr (last ts)))"
proof (induction ts arbitrary: a)
  case (Cons t ts)
  obtain b r v n cs where t: "t = Tree b r v n cs" by (cases t)
  obtain c where c: "m a = Some (Cell c)" "b = a" "laid m (cnext c) ts"
    using laid_head [OF Cons.prems [unfolded t]] by (metis option.inject)
  then show ?case
    using Cons.IH by (cases "cnext c"; cases ts) (auto simp: last_cell.simps [of a] cell_at_def t elim: laid.elims)
qed simp

lemma laid_cells: "laid m p ts \<Longrightarrow> t \<in> set ts \<Longrightarrow> \<exists>c. m (addr t) = Some (Cell c)"
proof (induction ts arbitrary: p)
  case (Cons s ts)
  obtain b r v n cs where s: "s = Tree b r v n cs" by (cases s)
  obtain c where c: "m b = Some (Cell c)" "laid m (cnext c) ts" using Cons.prems(1) unfolding s by (rule laid_head)
  show ?case using Cons.IH [OF c(2)] Cons.prems(2) c(1) s by auto
qed simp

lemma blocks_append [simp]: "blocks (ts @ us) = blocks ts @ blocks us"
  by (induction ts rule: blocks.induct) simp_all

lemma addr_blocks: "t \<in> set ts \<Longrightarrow> addr t \<in> set (blocks ts)"
  by (induction ts rule: blocks.induct) auto

lemma laid_append:
  assumes "laid m p ts" and "ts \<noteq> []" and "laid m (Some i) [t]" and "distinct (blocks (ts @ [t]))"
    and "m (addr (last ts)) = Some (Cell l)"
  shows "laid (m(addr (last ts) \<mapsto> Cell (l\<lparr>cnext := Some i\<rparr>))) p (ts @ [t])"
  using assms
proof (induction ts arbitrary: p)
  case (Cons s ts)
  obtain b r v n cs where s: "s = Tree b r v n cs" by (cases s)
  obtain c where c: "m b = Some (Cell c)" "p = Some b" "is_reference c = r" "cvalue c = v" "cname c = n"
      "if r then cs = [] else laid m (cchild c) cs" "laid m (cnext c) ts"
    using Cons.prems(1) unfolding s by (rule laid_head)
  define e where "e = addr (last (s # ts))"
  define m1 where "m1 = m(e \<mapsto> Cell (l\<lparr>cnext := Some i\<rparr>))"
  have e: "e \<notin> set (blocks [t])" "r \<or> e \<notin> set (blocks cs)"
    using Cons.prems(4) addr_blocks [of "last ts" ts] by (auto simp: s e_def)
  have kids: "if r then cs = [] else laid m1 (cchild c) cs"
    using c(6) e(2) by (auto simp: m1_def intro: laid_frame [of m])
  show ?case
    unfolding e_def [symmetric] m1_def [symmetric]
  proof (cases "ts = []")
    case True
    have "laid m1 (Some i) [t]" by (rule laid_frame [OF Cons.prems(3)]) (use e(1) in \<open>auto simp: m1_def\<close>)
    moreover have "e = b" "m1 b = Some (Cell (c\<lparr>cnext := Some i\<rparr>))" using c(1) Cons.prems(5) True by (simp_all add: s e_def m1_def)
    ultimately show "laid m1 p ((s # ts) @ [t])" using c(2-5) kids True by (simp add: s)
  next
    case False
    have l: "e = addr (last ts)" using False by (simp add: e_def)
    have "distinct (blocks (ts @ [t]))" "m (addr (last ts)) = Some (Cell l)" using Cons.prems(4,5) False by (auto simp: s)
    then have "laid m1 (cnext c) (ts @ [t])" unfolding m1_def l by (rule Cons.IH [OF c(7) False Cons.prems(3)])
    moreover have "e \<noteq> b" using Cons.prems(4) addr_blocks [of "last ts" ts] False by (auto simp: s e_def)
    then have "m1 b = Some (Cell c)" using c(1) by (simp add: m1_def)
    ultimately show "laid m1 p ((s # ts) @ [t])" using c(2-5) kids by (simp add: s)
  qed
qed simp

section \<open>Properties\<close>

text \<open>The blocks that belong to an array, its name and text included, and its root cell.\<close>

lemma in_memory_array:
  assumes "in_memory m (Some a) [Tree a False v n cs]"
  obtains c where "m a = Some (Cell c)" "\<not> is_reference c" "cvalue c = v" "cname c = n" "laid m (cchild c) cs" "cnext c = None"
    "a \<notin> set (blocks cs)"
  using assms by (auto simp: in_memory_def split: option.splits block.splits)

lemma texts_append [simp]: "texts (ts @ us) = texts ts @ texts us"
  by (induction ts rule: texts.induct) simp_all

text \<open>Adding a single item, made of one cell, to an array.\<close>

lemma add_cell_lays:
  assumes "in_memory m (Some a) [Tree a False v n cs]" and "m i = Some (Cell (d\<lparr>cnext := None\<rparr>))" and "is_reference d"
    and "\<forall>b \<in> set (given (cname d)). m b = Some Text"
    and "set (i # given (cname d)) \<inter> set (blocks [Tree a False v n cs]) = {}" and "t = Tree i True (cvalue d) (cname d) []"
  shows "\<exists>m1. add_cell a i m = Some (Inr m1) \<and> in_memory m1 (Some a) [Tree a False v n (cs @ [t])]
    \<and> (\<forall>b. b \<notin> set (blocks [Tree a False v n cs]) \<and> b \<noteq> i \<longrightarrow> m1 b = m b)"
proof -
  obtain c where c: "m a = Some (Cell c)" "\<not> is_reference c" "cvalue c = v" "cname c = n" "laid m (cchild c) cs" "cnext c = None"
      "a \<notin> set (blocks cs)"
    using assms(1) by (rule in_memory_array)
  have t: "laid m (Some i) [t]" using assms(2,3) by (simp add: assms(6))
  have nm: "distinct (i # given (cname d))" using assms(2,4) by (cases "cname d") auto
  have d: "distinct (blocks (cs @ [t]))" "distinct (blocks [Tree a False v n (cs @ [t])])"
    using assms(1,5) nm by (auto simp: in_memory_def assms(6))
  have x: "\<forall>b \<in> set (texts [Tree a False v n (cs @ [t])]). m b = Some Text"
    using assms(1,4) by (auto simp: in_memory_def assms(6))
  show ?thesis
  proof (cases "cs = []")
    case True
    then have "cchild c = None" using c(5) by simp
    then have "add_cell a i m = Some (Inr (m(a \<mapsto> Cell (c\<lparr>cchild := Some i\<rparr>))))"
      using c(1) by (simp add: add_cell_def cell_at_def update_cell_def)
    moreover have "laid (m(a \<mapsto> Cell (c\<lparr>cchild := Some i\<rparr>))) (Some i) [t]"
      by (rule laid_frame [OF t]) (use assms(5) in \<open>auto simp: assms(6)\<close>)
    ultimately show ?thesis using c d x True by (auto simp: in_memory_def)
  next
    case False
    define e where "e = addr (last cs)"
    obtain l where l: "m e = Some (Cell l)" using laid_cells [OF c(5), of "last cs"] False by (auto simp: e_def)
    obtain h where h: "cchild c = Some h" using c(5) False by (cases cs; cases "hd cs") auto
    have e: "e \<in> set (blocks cs)" using addr_blocks [of "last cs" cs] False by (simp add: e_def)
    define m1 where "m1 = m(e \<mapsto> Cell (l\<lparr>cnext := Some i\<rparr>))"
    define m2 where "m2 = m1(i \<mapsto> Cell (d\<lparr>cnext := None, cprev := Some e\<rparr>))"
    have "i \<noteq> e" "i \<noteq> a" "e \<noteq> a" using assms(5) e c(7) by auto
    then have i: "m1 i = Some (Cell (d\<lparr>cnext := None\<rparr>))" "m2 a = Some (Cell c)" using assms(2) c(1) by (simp_all add: m1_def m2_def)
    have "last_cell h m = Some (Inr e)" using last_cell_ok c(5) h by (simp add: e_def)
    then have "add_cell a i m = Some (link_cells e i m)" using c(1) h by (simp add: add_cell_def cell_at_def)
    moreover have "link_cells e i m = Inr m2"
      using l i(1) by (simp add: link_cells_def update_cell_def cell_at_def m1_def m2_def)
    moreover have "laid m1 (cchild c) (cs @ [t])"
      unfolding m1_def e_def by (rule laid_append [OF c(5) False t d(1)]) (use l in \<open>simp add: e_def\<close>)
    then have "laid m2 (cchild c) (cs @ [t])" using laid_prev [of m1 i "d\<lparr>cnext := None\<rparr>" "Some e"] i(1) by (simp add: m2_def)
    moreover have "\<forall>b \<in> set (texts [Tree a False v n (cs @ [t])]). m2 b = Some Text"
      using x l assms(2) by (auto simp: m1_def m2_def)
    ultimately show ?thesis using c(2-4,6) i(2) d(2) e by (auto simp: in_memory_def m1_def m2_def)
  qed
qed

lemma blocks_alive: "laid m p ts \<Longrightarrow> \<forall>b \<in> set (texts ts). m b = Some Text \<Longrightarrow> b \<in> set (blocks ts) \<Longrightarrow> m b \<noteq> None"
proof (induction ts arbitrary: p rule: blocks.induct)
  case (2 a r v n cs ts)
  from 2(3) obtain c where c: "m a = Some (Cell c)" "if r then cs = [] else laid m (cchild c) cs" "laid m (cnext c) ts"
    by (rule laid_head)
  with 2(1) [of "cchild c"] 2(2) [OF c(3)] 2(4,5) show ?case by (auto split: if_splits)
qed simp

lemma in_memory_frame: "in_memory m p ts \<Longrightarrow> (\<And>b. b \<in> set (blocks ts) \<Longrightarrow> m' b = m b) \<Longrightarrow> in_memory m' p ts"
  using laid_frame [of m p ts m'] texts_blocks [of ts] by (auto simp: in_memory_def)

lemma freed_kept: "in_memory m q ts \<Longrightarrow> set as \<inter> set (blocks ts) = {} \<Longrightarrow> in_memory (freed as m) q ts"
  by (erule in_memory_frame) (auto simp: freed_def)

text \<open>The same under a name.\<close>

lemma add_reference_named_lays:
  assumes "in_memory m (Some a) [Tree a False v n cs]" and "m item = Some (Cell d)" and "m ref = None" and "m new_text = None"
    and "ref \<noteq> new_text"
  shows "\<exists>m1. add_reference_named ref new_text a item m = Some (Inr m1)
    \<and> in_memory m1 (Some a) [Tree a False v n (cs @ [Tree ref True (cvalue d) (Some new_text) []])]"
proof -
  define e where "e = d\<lparr>is_reference := True, cnext := None, cprev := None, cname := Some new_text\<rparr>"
  define m2 where "m2 = m(new_text \<mapsto> Text, ref \<mapsto> Cell e)"
  have alive: "m b \<noteq> None" if "b \<in> set (blocks [Tree a False v n cs])" for b
    using blocks_alive [of m "Some a" "[Tree a False v n cs]" b] assms(1) that by (auto simp: in_memory_def)
  have new: "ref \<notin> set (blocks [Tree a False v n cs])" "new_text \<notin> set (blocks [Tree a False v n cs])"
    using alive [of ref] alive [of new_text] assms(3,4) by blast+
  have "in_memory m2 (Some a) [Tree a False v n cs]"
    by (rule in_memory_frame [OF assms(1)]) (use new in \<open>auto simp: m2_def simp del: blocks.simps\<close>)
  moreover have "set (ref # given (cname e)) \<inter> set (blocks [Tree a False v n cs]) = {}"
    using new by (auto simp: e_def simp del: blocks.simps)
  moreover have "m2 ref = Some (Cell (e\<lparr>cnext := None\<rparr>))" "\<forall>b \<in> set (given (cname e)). m2 b = Some Text" "is_reference e"
    using assms(5) by (simp_all add: m2_def e_def)
  ultimately obtain m3 where "add_cell a ref m2 = Some (Inr m3)"
      "in_memory m3 (Some a) [Tree a False v n (cs @ [Tree ref True (cvalue d) (Some new_text) []])]"
    using add_cell_lays [of m2 a v n cs ref e] by (force simp: e_def simp del: blocks.simps)
  moreover have "add_reference_named ref new_text a item m = add_cell a ref m2"
    using assms(2,5)
    by (simp add: add_reference_named_def add_cell_named_def create_reference_def cell_at_def free_text_def update_cell_def m2_def e_def fun_upd_twist)
  ultimately show ?thesis by simp
qed

text \<open>
  C39: \<open>cJSON_AddItemReferenceToArray\<close> puts a reference to an item behind the items of an array,
  and \<open>cJSON_Delete\<close> of this array returns and frees exactly the blocks it owns, each once:
  the items with their texts and names, and the reference itself. The item it refers to, its
  children and its text stay, and so does every other tree.
\<close>

theorem reference_deleted:
  assumes "in_memory m (Some a) [Tree a False v n cs]" and "m item = Some (Cell d)" and "m ref = None"
    and "in_memory m q ts" and "set (blocks [Tree a False v n cs]) \<inter> set (blocks ts) = {}"
  shows "\<exists>m1. add_reference ref a item m = Some (Inr m1)
    \<and> in_memory m1 (Some a) [Tree a False v n (cs @ [Tree ref True (cvalue d) None []])]
    \<and> delete_from (Some a) m1 = Some (Inr (freed (blocks [Tree a False v n cs]) m))
    \<and> in_memory (freed (blocks [Tree a False v n cs]) m) q ts"
proof -
  define e where "e = d\<lparr>cname := None, is_reference := True, cnext := None, cprev := None\<rparr>"
  define m0 where "m0 = m(ref \<mapsto> Cell e)"
  have r: "create_reference ref item m = Inr m0"
    using assms(2) by (simp add: create_reference_def cell_at_def m0_def e_def)
  have new: "ref \<notin> set (blocks [Tree a False v n cs])"
    using blocks_alive [of m "Some a" "[Tree a False v n cs]" ref] assms(1,3) by (auto simp: in_memory_def)
  have "in_memory m0 (Some a) [Tree a False v n cs]"
    by (rule in_memory_frame [OF assms(1)]) (use new in \<open>auto simp: m0_def simp del: blocks.simps\<close>)
  moreover have "m0 ref = Some (Cell (e\<lparr>cnext := None\<rparr>))" by (simp add: m0_def e_def)
  ultimately obtain m1 where m1: "add_cell a ref m0 = Some (Inr m1)"
      "in_memory m1 (Some a) [Tree a False v n (cs @ [Tree ref True (cvalue d) None []])]"
      "\<forall>b. b \<notin> set (blocks [Tree a False v n cs]) \<and> b \<noteq> ref \<longrightarrow> m1 b = m0 b"
    using add_cell_lays [of m0 a v n cs ref e] new by (force simp: e_def simp del: blocks.simps)
  have "delete_from (Some a) m1 = Some (Inr (freed (blocks [Tree a False v n (cs @ [Tree ref True (cvalue d) None []])]) m1))"
    using m1(2) unfolding in_memory_def by (blast intro: delete_frees)
  also have "freed (blocks [Tree a False v n (cs @ [Tree ref True (cvalue d) None []])]) m1 = freed (blocks [Tree a False v n cs]) m"
    using m1(3) assms(3) by (intro ext) (auto simp: freed_def m0_def)
  finally show ?thesis using r m1(1,2) freed_kept [OF assms(4,5)] by (simp add: add_reference_def)
qed

text \<open>An array with one item, and a string with a name that is not in it.\<close>

definition sample_memory :: memory where
  "sample_memory = [0 \<mapsto> Cell \<lparr>cnext = None, cprev = None, cchild = Some 1, cvalue = None, cname = None, is_reference = False\<rparr>,
     1 \<mapsto> Cell \<lparr>cnext = None, cprev = None, cchild = None, cvalue = Some 2, cname = None, is_reference = False\<rparr>, 2 \<mapsto> Text,
     3 \<mapsto> Cell \<lparr>cnext = None, cprev = None, cchild = None, cvalue = Some 4, cname = Some 5, is_reference = False\<rparr>,
     4 \<mapsto> Text, 5 \<mapsto> Text]"

lemma reference_deleted_witness:
  "\<exists>m1 m2. add_reference 6 0 3 sample_memory = Some (Inr m1) \<and> delete_from (Some 0) m1 = Some (Inr m2)
     \<and> in_memory m2 (Some 3) [Tree 3 False (Some 4) (Some 5) []]"
proof -
  have "in_memory sample_memory (Some 0) [Tree 0 False None None [Tree 1 False (Some 2) None []]]"
    "in_memory sample_memory (Some 3) [Tree 3 False (Some 4) (Some 5) []]"
    by (simp_all add: in_memory_def sample_memory_def)
  moreover have "sample_memory 3 = Some (Cell \<lparr>cnext = None, cprev = None, cchild = None, cvalue = Some 4, cname = Some 5, is_reference = False\<rparr>)"
    "sample_memory 6 = None" by (simp_all add: sample_memory_def)
  ultimately show ?thesis
    using reference_deleted [of sample_memory 0 None None "[Tree 1 False (Some 2) None []]" 3 _ 6 "Some 3" "[Tree 3 False (Some 4) (Some 5) []]"]
    by fastforce
qed

end
