(* ===== verification/Sql.thy ===== *)
theory Sql
  imports JsonUse
begin

text \<open>
  \<open>util/MySQL\<close> and \<open>util/MySQLOps\<close>: statements are put together from a JSON object and given
  to the client library, whose answer to a statement is a parameter. The object of the
  caller is changed, since \<open>operator[]\<close> and \<open>GetKey\<close> are called on it (through a \<open>const_cast\<close>).
  A \<open>while\<close> over \<open>GetKey\<close> runs at most as often as there are items (\<open>enough_calls\<close>). The
  parameter is a function of the text, so what a statement does to later ones is left out;
  so are the debug messages. \<open>statement_text\<close> gives the text of deletions and updates.
\<close>

section \<open>The client library\<close>

text \<open>An error, a statement without result with the rows it affected, or columns and rows.\<close>

datatype sql_answer = Sql_error | Affected int | Rows nat "bytes option list list"

text \<open>The text of an SQL statement as the library gets it.\<close>

type_synonym sql_server = "bytes \<Rightarrow> sql_answer"

definition queryNoResult :: "sql_server \<Rightarrow> bytes \<Rightarrow> int" where
  "queryNoResult srv s = (case srv (c_str s) of Affected n \<Rightarrow> wrap_signed 32 n | Rows k rs \<Rightarrow> - 1 | Sql_error \<Rightarrow> - 1)"

section \<open>Calls on a part of an object\<close>

definition pure_call :: "(cjo \<Rightarrow> 'd store \<Rightarrow> fault + 'r) \<Rightarrow> ('d, 'r) member_fun" where
  "pure_call f ob h = ebind (f ob h) (\<lambda>r. Inr (r, ob, h))"

definition part_text :: "bytes \<Rightarrow> bytes \<Rightarrow> ('d, bytes) member_fun" where
  "part_text part key = via_key part (pure_call (text_of_key key))"

definition part_index_text :: "bytes \<Rightarrow> nat \<Rightarrow> ('d, bytes) member_fun" where
  "part_index_text part i = via_key part (pure_call (text_of_index i))"

definition part_key :: "bytes \<Rightarrow> ('d, bytes option) member_fun" where
  "part_key part = via_key part GetKey"

definition part_size :: "bytes \<Rightarrow> ('d, nat) member_fun" where
  "part_size part = via_key part (pure_call GetArraySize)"

definition part_empty :: "bytes \<Rightarrow> ('d, bool) member_fun" where
  "part_empty part = via_key part (pure_call (\<lambda>ob h. Inr (IsEmpty ob)))"

text \<open>More calls of \<open>GetKey\<close> than there are items do not happen.\<close>

definition enough :: "'d store \<Rightarrow> nat" where
  "enough h = length (marks_all (live h)) + 2"

text \<open>\<open>s.back() = c\<close>; the strings it is called on are never empty.\<close>

definition set_back :: "char \<Rightarrow> bytes \<Rightarrow> bytes" where
  "set_back c s = butlast s @ [c]"

section \<open>The condition\<close>

text \<open>Keys, operators and values, joined by \<open>AND\<close>. Values are not quoted.\<close>

fun where_loop :: "nat \<Rightarrow> nat \<Rightarrow> bytes \<Rightarrow> ('d, bytes) member_fun" where
  "where_loop 0 i queryStr ob h = Inl Out_of_range"
| "where_loop (Suc n) i queryStr ob h =
     ebind (part_key ''data'' ob h) (\<lambda>(k, ob1, h1). case k of
         None \<Rightarrow> Inr (queryStr, ob1, h1)
       | Some keyStr \<Rightarrow>
         ebind (part_index_text ''op'' i ob1 h1) (\<lambda>(opr, ob2, h2).
         ebind (part_text ''data'' keyStr ob2 h2) (\<lambda>(v, ob3, h3).
         where_loop n (i + 1) (queryStr @ (if i = 0 then [] else '' AND '') @ keyStr @ opr @ v) ob3 h3)))"

definition add_where :: "bytes \<Rightarrow> ('d, bytes) member_fun" where
  "add_where queryStr ob h = where_loop (enough h) 0 queryStr ob h"

section \<open>Deleting and updating\<close>

definition delete_text :: "('d, bytes) member_fun" where
  "delete_text ob h =
     ebind (text_of_key ''tableName'' ob h) (\<lambda>table.
     ebind (add_where (''DELETE FROM '' @ table @ '' WHERE '') ob h) (\<lambda>(q, ob1, h1). Inr (q @ '';'', ob1, h1)))"

fun set_loop :: "nat \<Rightarrow> bytes \<Rightarrow> ('d, bytes) member_fun" where
  "set_loop 0 queryStr ob h = Inl Out_of_range"
| "set_loop (Suc n) queryStr ob h =
     ebind (part_key ''set'' ob h) (\<lambda>(k, ob1, h1). case k of
         None \<Rightarrow> Inr (queryStr, ob1, h1)
       | Some keyStr \<Rightarrow> ebind (part_text ''set'' keyStr ob1 h1) (\<lambda>(v, ob2, h2). set_loop n (queryStr @ keyStr @ ''='' @ v @ '','') ob2 h2))"

definition update_text :: "('d, bytes) member_fun" where
  "update_text ob h =
     ebind (text_of_key ''tableName'' ob h) (\<lambda>table.
     ebind (set_loop (enough h) (''UPDATE '' @ table @ '' SET '') ob h) (\<lambda>(q, ob1, h1).
     ebind (add_where (set_back (CHR '' '') q @ ''WHERE '') ob1 h1) (\<lambda>(q2, ob2, h2). Inr (q2 @ '';'', ob2, h2))))"

definition run_text :: "sql_server \<Rightarrow> ('d, bytes) member_fun \<Rightarrow> ('d, int) member_fun" where
  "run_text srv f ob h = ebind (f ob h) (\<lambda>(q, ob1, h1). Inr (queryNoResult srv q, ob1, h1))"

definition sqlDeleteWhere :: "sql_server \<Rightarrow> ('d, int) member_fun" where
  "sqlDeleteWhere srv = run_text srv delete_text"

definition sqlUpdateWhere :: "sql_server \<Rightarrow> ('d, int) member_fun" where
  "sqlUpdateWhere srv = run_text srv update_text"

section \<open>Inserting\<close>

text \<open>The keys of one row are collected for the first row only.\<close>

fun row_loop :: "nat \<Rightarrow> nat \<Rightarrow> bytes \<times> bytes \<Rightarrow> ('d, bytes \<times> bytes) member_fun" where
  "row_loop 0 i kv ob h = Inl Out_of_range"
| "row_loop (Suc n) i kv ob h =
     ebind (via_key ''data'' (via_index i GetKey) ob h) (\<lambda>(k, ob1, h1). case k of
         None \<Rightarrow> Inr (kv, ob1, h1)
       | Some keyStr \<Rightarrow>
         ebind (via_key ''data'' (via_index i (pure_call (text_of_key keyStr))) ob1 h1) (\<lambda>(v, ob2, h2).
           row_loop n i (fst kv @ keyStr @ '','', snd kv @ v @ '','') ob2 h2))"

fun insert_loop :: "nat \<Rightarrow> nat \<Rightarrow> bytes \<Rightarrow> ('d, bytes) member_fun" where
  "insert_loop 0 i queryStr ob h = Inl Out_of_range"
| "insert_loop (Suc n) i queryStr ob h =
     ebind (part_size ''data'' ob h) (\<lambda>(size, ob1, h1).
       if size \<le> i then Inr (queryStr, ob1, h1)
       else
         ebind (row_loop (enough h1) i (queryStr, if i = 0 then ''VALUES('' else ''('') ob1 h1) (\<lambda>((q, vs), ob2, h2).
           insert_loop n (i + 1) ((if i = 0 then set_back (CHR '')'') q else queryStr) @ set_back (CHR '')'') vs @ '','') ob2 h2))"

definition insert_text :: "('d, bytes) member_fun" where
  "insert_text ob h =
     ebind (text_of_key ''tableName'' ob h) (\<lambda>table.
     ebind (insert_loop (enough h) 0 (''INSERT INTO '' @ table @ ''('') ob h) (\<lambda>(q, ob1, h1). Inr (set_back (CHR '';'') q, ob1, h1)))"

definition sqlInsert :: "sql_server \<Rightarrow> ('d, int) member_fun" where
  "sqlInsert srv = run_text srv insert_text"

section \<open>Selecting\<close>

fun what_loop :: "nat \<Rightarrow> nat \<Rightarrow> bytes \<Rightarrow> ('d, bytes) member_fun" where
  "what_loop 0 i queryStr ob h = Inl Out_of_range"
| "what_loop (Suc n) i queryStr ob h =
     ebind (part_size ''what'' ob h) (\<lambda>(size, ob1, h1).
       if size \<le> i then Inr (queryStr, ob1, h1)
       else ebind (part_index_text ''what'' i ob1 h1) (\<lambda>(w, ob2, h2). what_loop n (i + 1) (queryStr @ w @ '','') ob2 h2))"

definition select_text :: "('d, bytes) member_fun" where
  "select_text ob h =
     ebind (what_loop (enough h) 0 ''SELECT '' ob h) (\<lambda>(q, ob1, h1).
     ebind (text_of_key ''tableName'' ob1 h1) (\<lambda>table.
     let q1 = set_back (CHR '' '') q @ ''FROM '' @ table in
     ebind (part_empty ''op'' ob1 h1) (\<lambda>(no_op, ob2, h2).
     ebind (if no_op then Inr (q1, ob2, h2) else add_where (q1 @ '' WHERE '') ob2 h2) (\<lambda>(q2, ob3, h3).
     ebind (part_empty ''limit'' ob3 h3) (\<lambda>(no_limit, ob4, h4).
     ebind (if no_limit then Inr [] else ebind (text_of_key ''limit'' ob4 h4) (\<lambda>l. Inr ('' LIMIT '' @ l))) (\<lambda>l.
     Inr (q2 @ l @ '';'', ob4, h4)))))))"

text \<open>The names of the columns of a table; a null field cannot become a \<open>std::string\<close>.\<close>

fun add_fields :: "bytes option list \<Rightarrow> ('d, unit) member_fun" where
  "add_fields [] result h = Inr ((), result, h)"
| "add_fields (None # fs) result h = Inl Null_deref"
| "add_fields (Some f # fs) result h =
     ebind (via_key ''what'' (Add_string f) result h) (\<lambda>(ok, r1, h1). add_fields fs r1 h1)"

fun add_columns :: "nat \<Rightarrow> bytes option list list \<Rightarrow> ('d, unit) member_fun" where
  "add_columns k [] result h = Inr ((), result, h)"
| "add_columns k (r # rs) result h = ebind (add_fields (take k r) result h) (\<lambda>(u, r1, h1). add_columns k rs r1 h1)"

definition columns_query :: "bytes \<Rightarrow> bytes" where
  "columns_query tableName =
     ''SELECT column_name FROM information_schema.columns WHERE table_schema='' @ [CHR 0x27] @ ''ttms'' @ [CHR 0x27]
       @ '' AND table_name='' @ [CHR 0x27] @ tableName @ [CHR 0x27] @ '';''"

definition queryTableColName :: "sql_server \<Rightarrow> bytes \<Rightarrow> ('d, int) member_fun" where
  "queryTableColName srv tableName result h =
     ebind (AddEmptySubArray ''what'' result h) (\<lambda>(ok, r1, h1).
       case srv (c_str (columns_query tableName)) of
         Rows k rs \<Rightarrow> ebind (add_columns k rs r1 h1) (\<lambda>(u, r2, h2). Inr (1, r2, h2))
       | _ \<Rightarrow> Inr (- 1, r1, h1))"

text \<open>One row becomes an object with the names of the columns as keys.\<close>

fun row_object :: "nat \<Rightarrow> bytes option list \<Rightarrow> cjo \<Rightarrow> cjo \<Rightarrow> 'd store \<Rightarrow> fault + (cjo \<times> cjo \<times> 'd store)" where
  "row_object j [] sRef temp h = Inr (sRef, temp, h)"
| "row_object j (None # fs) sRef temp h = Inl Null_deref"
| "row_object j (Some f # fs) sRef temp h =
     ebind (part_index_text ''what'' j sRef h) (\<lambda>(name, s1, h1).
     ebind (Add_key_string name f temp h1) (\<lambda>(ok, t1, h2). row_object (j + 1) fs s1 t1 h2))"

fun add_rows :: "('d, 'x) numbers_scheme \<Rightarrow> nat \<Rightarrow> bytes option list list \<Rightarrow> cjo \<Rightarrow> cjo \<Rightarrow> cjo \<Rightarrow> 'd store
    \<Rightarrow> fault + (cjo \<times> cjo \<times> cjo \<times> 'd store)" where
  "add_rows fl k [] sRef temp result h = Inr (sRef, temp, result, h)"
| "add_rows fl k (r # rs) sRef temp result h =
     ebind (Clear temp h) (\<lambda>(u, t1, h1).
     ebind (row_object 0 (take k r) sRef t1 h1) (\<lambda>(s1, t2, h2).
     ebind (via_key ''data'' (Add_object fl t2) result h2) (\<lambda>(ok, r1, h3). add_rows fl k rs s1 t2 r1 h3)))"

text \<open>\<open>temp\<close> and the copy \<open>sRef\<close> are destroyed at the end.\<close>

definition queryHasResult :: "('d, 'x) numbers_scheme \<Rightarrow> sql_server \<Rightarrow> cjo \<Rightarrow> ('d, int) member_fun" where
  "queryHasResult fl srv s result h =
     ebind (AddEmptySubArray ''data'' result h) (\<lambda>(ok, r1, h1).
     ebind (text_of_key ''queryStr'' s h1) (\<lambda>q. case srv (c_str q) of
         Rows k rs \<Rightarrow>
           ebind (copy_cjo fl s h1) (\<lambda>(ok2, sRef, h2).
           ebind (add_rows fl k rs sRef new_cjo r1 h2) (\<lambda>(s1, temp, r2, h3).
           ebind (delete_roots (owned s1 @ owned temp) h3) (\<lambda>h4. Inr (1, r2, h4))))
       | _ \<Rightarrow> Inr (- 1, r1, h1)))"

text \<open>The names of the columns go along with the statement: those asked for, or all of the table.\<close>

definition column_names :: "('d, 'x) numbers_scheme \<Rightarrow> sql_server \<Rightarrow> cjo \<Rightarrow> 'd store \<Rightarrow> fault + (cjo \<times> cjo \<times> 'd store)" where
  "column_names fl srv ob h =
     ebind (part_index_text ''what'' 0 ob h) (\<lambda>(w, ob1, h1).
       if w = ''*'' then
         ebind (text_of_key ''tableName'' ob1 h1) (\<lambda>table.
         ebind (queryTableColName srv table new_cjo h1) (\<lambda>(r, query, h2). Inr (query, ob1, h2)))
       else
         ebind (AddEmptySubArray ''what'' new_cjo h1) (\<lambda>(ok, query, h2).
         ebind (at_key ''what'' ob1 h2) (\<lambda>(what, ob2, h3).
         ebind (Replace_key_object fl ''what'' what query h3) (\<lambda>(ok2, query2, h4). Inr (query2, ob2, h4)))))"

definition sqlSelectWhere :: "('d, 'x) numbers_scheme \<Rightarrow> sql_server \<Rightarrow> cjo \<Rightarrow> ('d, int \<times> cjo) member_fun" where
  "sqlSelectWhere fl srv result ob h =
     ebind (select_text ob h) (\<lambda>(q, ob1, h1).
     ebind (column_names fl srv ob1 h1) (\<lambda>(query, ob2, h2).
     ebind (Add_key_string ''queryStr'' q query h2) (\<lambda>(ok, query1, h3).
     ebind (queryHasResult fl srv query1 result h3) (\<lambda>(r, result1, h4).
     ebind (delete_roots (owned query1) h4) (\<lambda>h5. Inr ((r, result1), ob2, h5))))))"

section \<open>MySQLOps\<close>

text \<open>The enumeration, with the bounds of its two halves.\<close>

datatype sql_op = OP_MIN | INSERTUSER | INSERTMOVIE | INSERTSEAT | INSERTSCHEDULE | INSERTSTUDIO | INSERTTICKET
  | UPDATEUSER | UPDATEMOVIE | UPDATESEAT | UPDATESCHEDULE | UPDATESTUDIO | UPDATETICKET
  | DELETEUSER | DELETEMOVIE | DELETESEAT | DELETESCHEDULE | DELETESTUDIO | DELETETICKET
  | OP_MID | QUERYUSER | QUERYMOVIE | QUERYSEAT | QUERYSCHEDULE | QUERYSTUDIO | QUERYTICKET | OP_MAX

definition sql_ops :: "sql_op list" where
  "sql_ops = [OP_MIN, INSERTUSER, INSERTMOVIE, INSERTSEAT, INSERTSCHEDULE, INSERTSTUDIO, INSERTTICKET,
     UPDATEUSER, UPDATEMOVIE, UPDATESEAT, UPDATESCHEDULE, UPDATESTUDIO, UPDATETICKET,
     DELETEUSER, DELETEMOVIE, DELETESEAT, DELETESCHEDULE, DELETESTUDIO, DELETETICKET,
     OP_MID, QUERYUSER, QUERYMOVIE, QUERYSEAT, QUERYSCHEDULE, QUERYSTUDIO, QUERYTICKET, OP_MAX]"

definition op_of :: "int \<Rightarrow> sql_op option" where
  "op_of x = (if 0 \<le> x \<and> x < int (length sql_ops) then Some (sql_ops ! nat x) else None)"

text \<open>What the entries of the two maps call.\<close>

definition sqlInsertUser :: "sql_server \<Rightarrow> ('d, int) member_fun" where
  "sqlInsertUser mysql = sqlInsert mysql"

definition sqlInsertMovie :: "sql_server \<Rightarrow> ('d, int) member_fun" where
  "sqlInsertMovie mysql = sqlInsert mysql"

definition sqlInsertSeat :: "sql_server \<Rightarrow> ('d, int) member_fun" where
  "sqlInsertSeat mysql = sqlInsert mysql"

definition sqlInsertSchedule :: "sql_server \<Rightarrow> ('d, int) member_fun" where
  "sqlInsertSchedule mysql = sqlInsert mysql"

definition sqlInsertStudio :: "sql_server \<Rightarrow> ('d, int) member_fun" where
  "sqlInsertStudio mysql = sqlInsert mysql"

definition sqlInsertTicket :: "sql_server \<Rightarrow> ('d, int) member_fun" where
  "sqlInsertTicket mysql = sqlInsert mysql"

definition sqlUpdateUser :: "sql_server \<Rightarrow> ('d, int) member_fun" where
  "sqlUpdateUser mysql = sqlUpdateWhere mysql"

definition sqlUpdateMovie :: "sql_server \<Rightarrow> ('d, int) member_fun" where
  "sqlUpdateMovie mysql = sqlUpdateWhere mysql"

definition sqlUpdateSeat :: "sql_server \<Rightarrow> ('d, int) member_fun" where
  "sqlUpdateSeat mysql = sqlUpdateWhere mysql"

definition sqlUpdateSchedule :: "sql_server \<Rightarrow> ('d, int) member_fun" where
  "sqlUpdateSchedule mysql = sqlUpdateWhere mysql"

definition sqlUpdateStudio :: "sql_server \<Rightarrow> ('d, int) member_fun" where
  "sqlUpdateStudio mysql = sqlUpdateWhere mysql"

definition sqlUpdateTicket :: "sql_server \<Rightarrow> ('d, int) member_fun" where
  "sqlUpdateTicket mysql = sqlUpdateWhere mysql"

definition sqlDeleteUser :: "sql_server \<Rightarrow> ('d, int) member_fun" where
  "sqlDeleteUser mysql = sqlDeleteWhere mysql"

definition sqlDeleteMovie :: "sql_server \<Rightarrow> ('d, int) member_fun" where
  "sqlDeleteMovie mysql = sqlDeleteWhere mysql"

definition sqlDeleteSeat :: "sql_server \<Rightarrow> ('d, int) member_fun" where
  "sqlDeleteSeat mysql = sqlDeleteWhere mysql"

definition sqlDeleteSchedule :: "sql_server \<Rightarrow> ('d, int) member_fun" where
  "sqlDeleteSchedule mysql = sqlDeleteWhere mysql"

definition sqlDeleteStudio :: "sql_server \<Rightarrow> ('d, int) member_fun" where
  "sqlDeleteStudio mysql = sqlDeleteWhere mysql"

definition sqlDeleteTicket :: "sql_server \<Rightarrow> ('d, int) member_fun" where
  "sqlDeleteTicket mysql = sqlDeleteWhere mysql"

definition sqlQueryUser :: "('d, 'x) numbers_scheme \<Rightarrow> sql_server \<Rightarrow> cjo \<Rightarrow> ('d, int \<times> cjo) member_fun" where
  "sqlQueryUser fl mysql = sqlSelectWhere fl mysql"

definition sqlQueryMovie :: "('d, 'x) numbers_scheme \<Rightarrow> sql_server \<Rightarrow> cjo \<Rightarrow> ('d, int \<times> cjo) member_fun" where
  "sqlQueryMovie fl mysql = sqlSelectWhere fl mysql"

definition sqlQuerySeat :: "('d, 'x) numbers_scheme \<Rightarrow> sql_server \<Rightarrow> cjo \<Rightarrow> ('d, int \<times> cjo) member_fun" where
  "sqlQuerySeat fl mysql = sqlSelectWhere fl mysql"

definition sqlQuerySchedule :: "('d, 'x) numbers_scheme \<Rightarrow> sql_server \<Rightarrow> cjo \<Rightarrow> ('d, int \<times> cjo) member_fun" where
  "sqlQuerySchedule fl mysql = sqlSelectWhere fl mysql"

definition sqlQueryStudio :: "('d, 'x) numbers_scheme \<Rightarrow> sql_server \<Rightarrow> cjo \<Rightarrow> ('d, int \<times> cjo) member_fun" where
  "sqlQueryStudio fl mysql = sqlSelectWhere fl mysql"

definition sqlQueryTicket :: "('d, 'x) numbers_scheme \<Rightarrow> sql_server \<Rightarrow> cjo \<Rightarrow> ('d, int \<times> cjo) member_fun" where
  "sqlQueryTicket fl mysql = sqlSelectWhere fl mysql"

definition sqlNoResultlMap :: "sql_server \<Rightarrow> (sql_op \<times> ('d, int) member_fun) list" where
  "sqlNoResultlMap mysql =
    [(INSERTUSER, sqlInsertUser mysql), (INSERTMOVIE, sqlInsertMovie mysql), (INSERTSEAT, sqlInsertSeat mysql),
     (INSERTSCHEDULE, sqlInsertSchedule mysql), (INSERTSTUDIO, sqlInsertStudio mysql), (INSERTTICKET, sqlInsertTicket mysql),
     (UPDATEUSER, sqlUpdateUser mysql), (UPDATEMOVIE, sqlUpdateMovie mysql), (UPDATESEAT, sqlUpdateSeat mysql),
     (UPDATESCHEDULE, sqlUpdateSchedule mysql), (UPDATESTUDIO, sqlUpdateStudio mysql), (UPDATETICKET, sqlUpdateTicket mysql),
     (DELETEUSER, sqlDeleteUser mysql), (DELETEMOVIE, sqlDeleteMovie mysql), (DELETESEAT, sqlDeleteSeat mysql),
     (DELETESCHEDULE, sqlDeleteSchedule mysql), (DELETESTUDIO, sqlDeleteStudio mysql), (DELETETICKET, sqlDeleteTicket mysql)]"

definition sqlHasResultlMap :: "('d, 'x) numbers_scheme \<Rightarrow> sql_server \<Rightarrow> (sql_op \<times> (cjo \<Rightarrow> ('d, int \<times> cjo) member_fun)) list" where
  "sqlHasResultlMap fl mysql =
    [(QUERYUSER, sqlQueryUser fl mysql), (QUERYMOVIE, sqlQueryMovie fl mysql), (QUERYSEAT, sqlQuerySeat fl mysql),
     (QUERYSCHEDULE, sqlQuerySchedule fl mysql), (QUERYSTUDIO, sqlQueryStudio fl mysql), (QUERYTICKET, sqlQueryTicket fl mysql)]"

text \<open>
  \<open>operator[]\<close> of the map makes an empty function for any other number, and calling it
  throws \<open>std::bad_function_call\<close>, which nothing catches.
\<close>

definition ops_queryNoResult :: "sql_server \<Rightarrow> int \<Rightarrow> ('d, int) member_fun" where
  "ops_queryNoResult mysql x query h =
     (case Option.bind (op_of x) (map_of (sqlNoResultlMap mysql)) of Some f \<Rightarrow> f query h | None \<Rightarrow> Inl Fatal)"

definition ops_queryHasResult :: "('d, 'x) numbers_scheme \<Rightarrow> sql_server \<Rightarrow> int \<Rightarrow> cjo \<Rightarrow> ('d, int \<times> cjo) member_fun" where
  "ops_queryHasResult fl mysql x reback query h =
     (case Option.bind (op_of x) (map_of (sqlHasResultlMap fl mysql)) of Some f \<Rightarrow> f reback query h | None \<Rightarrow> Inl Fatal)"

section \<open>The text of a statement\<close>

lemma with_objects_simps [simp]: "m_mapJsonObjectRef (with_objects os ob) = os" "with_objects os (with_objects os2 ob) = with_objects os ob"
  by (simp_all add: with_objects_def)

lemma put_at_append [simp]: "k \<notin> fst ` set xs \<Longrightarrow> put_at k v (xs @ ys) = xs @ put_at k v ys"
  by (induction xs) auto

lemma fresh_key [simp]: "k \<notin> fst ` set xs \<Longrightarrow> map_of xs k = None"
  by (metis map_of_eq_None_iff)

text \<open>A call on a part that was handed out before, and on one that was not.\<close>

lemma via_key_old: "map_of (m_mapJsonObjectRef ob) k = Some w
    \<Longrightarrow> via_key k f ob h = ebind (f w h) (\<lambda>(r, w', h'). Inr (r, with_objects (put_at k w' (m_mapJsonObjectRef ob)) ob, h'))"
  by (simp add: via_key_def at_key_def)

lemma via_key_new:
  assumes "k \<notin> fst ` set (m_mapJsonObjectRef ob)" and "found_key k ob h = Inr (Some c)"
  shows "via_key k f ob h
    = ebind (f (cjo_on (jmark c)) h) (\<lambda>(r, w', h'). Inr (r, with_objects (m_mapJsonObjectRef ob @ [(k, w')]) ob, h'))"
  using assms by (simp add: via_key_def at_key_def Let_def)

lemma pure_call_simp [simp]: "pure_call f ob h = ebind (f ob h) (\<lambda>r. Inr (r, ob, h))"
  by (simp add: pure_call_def)

text \<open>What a caller sees of an item of an object and of an array.\<close>

definition value_text :: "'d item \<Rightarrow> bytes \<Rightarrow> bytes" where
  "value_text d k = (if jtype d = JObject then case cJSON_GetObjectItem (jchild d) k of None \<Rightarrow> [] | Some c \<Rightarrow> shown c else [])"

definition index_text :: "'d item \<Rightarrow> nat \<Rightarrow> bytes" where
  "index_text d i =
     (if jtype d = JArray then case cJSON_GetArrayItem (jchild d) (wrap_signed 32 (int i)) of None \<Rightarrow> [] | Some c \<Rightarrow> shown c else [])"

lemma text_of_key_on: "focus ob = Some a \<Longrightarrow> deref h a = Inr d \<Longrightarrow> text_of_key k ob h = Inr (value_text d k)"
  by (simp add: text_of_key_def shown_item_def found_key_def found_def value_text_def)

lemma text_of_index_on: "focus ob = Some a \<Longrightarrow> deref h a = Inr d \<Longrightarrow> text_of_index i ob h = Inr (index_text d i)"
  by (simp add: text_of_index_def shown_item_def found_index_def found_def index_text_def)

lemma cjo_on_simps [simp]: "focus (cjo_on a) = Some a" "on_item (cjo_on a) a" "with_travers (Some a) (cjo_on a) = cjo_on a"
  "m_pKeyTravers (cjo_on a) = Some a" "m_pExternJsonDataRef (cjo_on a) = Some a" "m_mapJsonObjectRef (cjo_on a) = []"
  by (simp_all add: cjo_on_def focus_def on_item_def with_travers_def)

text \<open>The conditions from the \<open>i\<close>-th on, given the operators and the values.\<close>

fun conditions :: "(nat \<Rightarrow> bytes) \<Rightarrow> (bytes \<Rightarrow> bytes) \<Rightarrow> nat \<Rightarrow> bytes list \<Rightarrow> bytes" where
  "conditions opr val i [] = []"
| "conditions opr val i (k # ks) = (if i = 0 then [] else '' AND '') @ k @ opr i @ val k @ conditions opr val (i + 1) ks"

fun assignments :: "(bytes \<Rightarrow> bytes) \<Rightarrow> bytes list \<Rightarrow> bytes" where
  "assignments val [] = []"
| "assignments val (k # ks) = k @ ''='' @ val k @ '','' @ assignments val ks"

section \<open>Members of an object\<close>

lemma get_in: "cJSON_GetObjectItem cs k = Some c \<Longrightarrow> c \<in> set cs"
  by (induction cs) (auto split: if_split_asm)

lemma member_deref:
  assumes "store_ok h" and "deref h a = Inr p" and "cJSON_GetObjectItem (jchild p) k = Some c"
  shows "deref h (jmark c) = Inr c"
proof -
  obtain xs ys where "jchild p = xs @ c # ys" using get_in [OF assms(3)] by (meson split_list)
  from sibling_at(2) [OF this, of a "live h"] show ?thesis
    using assms(1,2) by (simp add: deref_def store_ok_def split: option.split_asm)
qed

lemma marks_at:
  fixes c p :: "'d item" and cs :: "'d item list"
  shows "item_at a c = Some p \<Longrightarrow> length (marks p) \<le> length (marks c)"
    and "items_at a cs = Some p \<Longrightarrow> length (marks p) \<le> length (marks_all cs)"
  by (induction a c and a cs rule: item_at_items_at.induct) (auto split: option.split_asm if_split_asm)

lemma children_marks: "length cs \<le> length (marks_all cs)"
proof (induction cs)
  case (Cons c cs)
  have "1 \<le> length (marks c)" by (cases c) simp
  with Cons show ?case by simp
qed simp

lemma enough_calls: "deref h a = Inr p \<Longrightarrow> length (jchild p) < enough h"
  using marks_at(2) [of a "live h" p] children_marks [of "jchild p"]
  by (cases p) (auto simp: deref_def enough_def split: option.split_asm)

section \<open>Walking over a member\<close>

lemma with_objects_focus [simp]: "focus (with_objects ms ob) = focus ob"
  by simp

lemma found_with_objects [simp]: "found_key k (with_objects ms ob) h = found_key k ob h"
  by (simp add: found_key_def found_def)

lemma GetKey_fresh:
  assumes "deref h m = Inr d" and "jtype d \<noteq> JArray" and "map jstring (jchild d) = map Some ks"
  shows "GetKey (cjo_on m) h = (case jchild d of
      [] \<Rightarrow> Inr (None, cjo_on m, h)
    | c # ys \<Rightarrow> Inr (Some (hd ks), with_travers (if ys = [] then None else Some (jmark (hd ys))) (cjo_on m), h))"
  using assms by (cases "jchild d"; cases ks) (auto simp: GetKey_def IsArray_def)

lemma GetKey_after:
  assumes "deref h m = Inr d" and "jtype d \<noteq> JArray"
  shows "GetKey (with_travers None (cjo_on m)) h = Inr (None, cjo_on m, h)"
  using assms by (simp add: GetKey_def IsArray_def)

lemmas part_defs = part_key_def part_text_def part_index_text_def

lemma where_rest:
  assumes "store_ok h" and "deref h m = Inr d" and "jtype d = JObject" and "deref h n = Inr oo"
    and "''data'' \<notin> fst ` set ms" and "''op'' \<notin> fst ` set ms"
    and "jchild d = xs @ ys" and "map jstring ys = map Some ks" and "length ks < f"
  shows "where_loop f i q (with_objects (ms @ [(''data'', with_travers (if ys = [] then None else Some (jmark (hd ys))) (cjo_on m)), (''op'', cjo_on n)]) ob) h
     = Inr (q @ conditions (index_text oo) (value_text d) i ks, with_objects (ms @ [(''data'', cjo_on m), (''op'', cjo_on n)]) ob, h)"
  using assms(7-9)
proof (induction ys arbitrary: xs ks f i q)
  case Nil
  then obtain g where "f = Suc g" "ks = []" by (cases f) auto
  then show ?case using assms(2,3,5) GetKey_after [of h m d] by (simp add: part_defs via_key_old map_add_def)
next
  case (Cons c ys)
  then obtain k ks' g where k: "ks = k # ks'" "jstring c = Some k" "map jstring ys = map Some ks'" "f = Suc g" "length ks' < g"
    by (cases ks; cases f) auto
  have rest: "where_loop g (i + 1) r (with_objects (ms @ [(''data'', with_travers (if ys = [] then None else Some (jmark (hd ys))) (cjo_on m)), (''op'', cjo_on n)]) ob) h
     = Inr (r @ conditions (index_text oo) (value_text d) (i + 1) ks', with_objects (ms @ [(''data'', cjo_on m), (''op'', cjo_on n)]) ob, h)" for r
    by (rule Cons.IH [of "xs @ [c]"]) (use Cons.prems(1) k in simp_all)
  have key: "GetKey (with_travers (Some (jmark c)) (cjo_on m)) h
      = Inr (Some k, with_travers (if ys = [] then None else Some (jmark (hd ys))) (cjo_on m), h)"
    by (rule GetKey_child [OF assms(1) _ assms(2) _ Cons.prems(1) k(2)]) (use assms(3) in simp_all)
  show ?case
    using key rest assms(2-6) k(1,4)
    by (simp add: part_defs via_key_old map_add_def text_of_key_on [of _ m] text_of_index_on [of _ n])
qed

lemma add_where_text:
  assumes "store_ok h" and "focus ob = Some a" and "deref h a = Inr p" and "jtype p = JObject"
    and "cJSON_GetObjectItem (jchild p) ''data'' = Some d" and "jtype d = JObject" and "map jstring (jchild d) = map Some ks"
    and "cJSON_GetObjectItem (jchild p) ''op'' = Some oo"
    and "''data'' \<notin> fst ` set ms" and "''op'' \<notin> fst ` set ms"
  shows "\<exists>ob'. add_where q (with_objects ms ob) h = Inr (q @ conditions (index_text oo) (value_text d) 0 ks, ob', h)"
proof -
  have d: "deref h (jmark d) = Inr d" and oo: "deref h (jmark oo) = Inr oo" using member_deref [OF assms(1,3)] assms(5,8) by blast+
  have f: "found_key ''data'' ob h = Inr (Some d)" "found_key ''op'' ob h = Inr (Some oo)"
    using assms(2-5,8) by (simp_all add: found_key_def found_def)
  have len: "length ks = length (jchild d)" using assms(7) by (metis length_map)
  obtain g where g: "enough h = Suc g" "length ks \<le> g" using enough_calls [OF d] len by (cases "enough h") auto
  show ?thesis
  proof (cases "jchild d")
    case Nil
    then show ?thesis using GetKey_fresh [OF d _ assms(7)] assms(6,7,9) f g(1) by (simp add: add_where_def part_defs via_key_new)
  next
    case (Cons c ys)
    then obtain k ks' where k: "ks = k # ks'" "map jstring ys = map Some ks'" "length ks' < g" using assms(7) g(2) by (cases ks) auto
    have rest: "where_loop g 1 r (with_objects (ms @ [(''data'', with_travers (if ys = [] then None else Some (jmark (hd ys))) (cjo_on (jmark d))), (''op'', cjo_on (jmark oo))]) ob) h
       = Inr (r @ conditions (index_text oo) (value_text d) 1 ks', with_objects (ms @ [(''data'', cjo_on (jmark d)), (''op'', cjo_on (jmark oo))]) ob, h)" for r
      by (rule where_rest [OF assms(1) d assms(6) oo assms(9,10), of "[c]"]) (use Cons k in simp_all)
    show ?thesis
      using GetKey_fresh [OF d _ assms(7)] Cons assms(6,9,10) f g(1) k(1) d oo rest
      by (simp add: add_where_def part_defs via_key_new via_key_old map_add_def text_of_key_on [of _ "jmark d"] text_of_index_on [of _ "jmark oo"])
  qed
qed

lemma set_rest:
  assumes "store_ok h" and "deref h m = Inr d" and "jtype d = JObject"
    and "jchild d = xs @ ys" and "map jstring ys = map Some ks" and "length ks < f"
  shows "set_loop f q (with_objects [(''set'', with_travers (if ys = [] then None else Some (jmark (hd ys))) (cjo_on m))] ob) h
     = Inr (q @ assignments (value_text d) ks, with_objects [(''set'', cjo_on m)] ob, h)"
  using assms(4-6)
proof (induction ys arbitrary: xs ks f q)
  case Nil
  then obtain g where "f = Suc g" "ks = []" by (cases f) auto
  then show ?case using assms(2,3) GetKey_after [of h m d] by (simp add: part_defs via_key_old)
next
  case (Cons c ys)
  then obtain k ks' g where k: "ks = k # ks'" "jstring c = Some k" "map jstring ys = map Some ks'" "f = Suc g" "length ks' < g"
    by (cases ks; cases f) auto
  have rest: "set_loop g r (with_objects [(''set'', with_travers (if ys = [] then None else Some (jmark (hd ys))) (cjo_on m))] ob) h
     = Inr (r @ assignments (value_text d) ks', with_objects [(''set'', cjo_on m)] ob, h)" for r
    by (rule Cons.IH [of "xs @ [c]"]) (use Cons.prems(1) k in simp_all)
  have key: "GetKey (with_travers (Some (jmark c)) (cjo_on m)) h
      = Inr (Some k, with_travers (if ys = [] then None else Some (jmark (hd ys))) (cjo_on m), h)"
    by (rule GetKey_child [OF assms(1) _ assms(2) _ Cons.prems(1) k(2)]) (use assms(3) in simp_all)
  show ?case
    using key rest assms(2,3) k(1,4) by (simp add: part_defs via_key_old text_of_key_on [of _ m])
qed

lemma set_text:
  assumes "store_ok h" and "focus ob = Some a" and "m_mapJsonObjectRef ob = []" and "deref h a = Inr p" and "jtype p = JObject"
    and "cJSON_GetObjectItem (jchild p) ''set'' = Some d" and "jtype d = JObject" and "map jstring (jchild d) = map Some ks"
  shows "set_loop (enough h) q ob h = Inr (q @ assignments (value_text d) ks, with_objects [(''set'', cjo_on (jmark d))] ob, h)"
proof -
  have d: "deref h (jmark d) = Inr d" using member_deref [OF assms(1,4,6)] .
  have f: "found_key ''set'' ob h = Inr (Some d)" using assms by (simp add: found_key_def found_def)
  have len: "length ks = length (jchild d)" using assms(8) by (metis length_map)
  obtain g where g: "enough h = Suc g" "length ks \<le> g" using enough_calls [OF d] len by (cases "enough h") auto
  show ?thesis
  proof (cases "jchild d")
    case Nil
    then show ?thesis using GetKey_fresh [OF d _ assms(8)] assms(3,7,8) f g(1) by (simp add: part_defs via_key_new)
  next
    case (Cons c ys)
    then obtain k ks' where k: "ks = k # ks'" "map jstring ys = map Some ks'" "length ks' < g" using assms(8) g(2) by (cases ks) auto
    have rest: "set_loop g r (with_objects [(''set'', with_travers (if ys = [] then None else Some (jmark (hd ys))) (cjo_on (jmark d)))] ob) h
       = Inr (r @ assignments (value_text d) ks', with_objects [(''set'', cjo_on (jmark d))] ob, h)" for r
      by (rule set_rest [OF assms(1) d assms(7), of "[c]"]) (use Cons k in simp_all)
    show ?thesis
      using GetKey_fresh [OF d _ assms(8)] Cons assms(3,7) f g(1) k(1) d rest
      by (simp add: part_defs via_key_new via_key_old text_of_key_on [of _ "jmark d"])
  qed
qed

text \<open>
  C36: a JSON object with a table name and members \<open>data\<close> and \<open>op\<close> is turned by
  \<open>MySQL::sqlDeleteWhere\<close> into one statement with a condition for each member of \<open>data\<close>, in
  their order: the key, the operator of the same position and the value, joined by \<open>AND\<close>. With
  a member \<open>set\<close>, \<open>MySQL::sqlUpdateWhere\<close> puts its assignments, separated by commas, before
  the same conditions. Keys and values are the bytes of the object, neither quoted nor escaped.
\<close>

theorem statement_text:
  assumes "store_ok h" and "focus ob = Some a" and "m_mapJsonObjectRef ob = []" and "deref h a = Inr p" and "jtype p = JObject"
    and "cJSON_GetObjectItem (jchild p) ''data'' = Some d" and "jtype d = JObject" and "map jstring (jchild d) = map Some ks"
    and "cJSON_GetObjectItem (jchild p) ''op'' = Some oo"
  shows "(\<exists>ob'. sqlDeleteWhere srv ob h = Inr (queryNoResult srv (''DELETE FROM '' @ value_text p ''tableName'' @ '' WHERE ''
      @ conditions (index_text oo) (value_text d) 0 ks @ '';''), ob', h))
    \<and> (cJSON_GetObjectItem (jchild p) ''set'' = Some s \<and> jtype s = JObject \<and> map jstring (jchild s) = map Some ls \<longrightarrow>
      (\<exists>ob'. sqlUpdateWhere srv ob h = Inr (queryNoResult srv (butlast (''UPDATE '' @ value_text p ''tableName'' @ '' SET ''
      @ assignments (value_text s) ls) @ '' WHERE '' @ conditions (index_text oo) (value_text d) 0 ks @ '';''), ob', h)))"
proof -
  have ob: "with_objects [] ob = ob" using assms(3) by (cases ob) (simp add: with_objects_def)
  have t: "text_of_key ''tableName'' ob h = Inr (value_text p ''tableName'')" using assms(2,4) by (rule text_of_key_on)
  note wh = add_where_text [OF assms(1,2,4-9)]
  obtain ob' where w: "add_where (''DELETE FROM '' @ value_text p ''tableName'' @ '' WHERE '') ob h
      = Inr ((''DELETE FROM '' @ value_text p ''tableName'' @ '' WHERE '') @ conditions (index_text oo) (value_text d) 0 ks, ob', h)"
    using wh [of "[]"] unfolding ob by fastforce
  have "\<exists>ob'. sqlDeleteWhere srv ob h = Inr (queryNoResult srv (''DELETE FROM '' @ value_text p ''tableName'' @ '' WHERE ''
      @ conditions (index_text oo) (value_text d) 0 ks @ '';''), ob', h)"
    using t w by (simp add: sqlDeleteWhere_def run_text_def delete_text_def)
  moreover have "\<exists>ob'. sqlUpdateWhere srv ob h = Inr (queryNoResult srv (butlast (''UPDATE '' @ value_text p ''tableName'' @ '' SET ''
      @ assignments (value_text s) ls) @ '' WHERE '' @ conditions (index_text oo) (value_text d) 0 ks @ '';''), ob', h)"
    if s: "cJSON_GetObjectItem (jchild p) ''set'' = Some s \<and> jtype s = JObject \<and> map jstring (jchild s) = map Some ls"
  proof -
    let ?q = "''UPDATE '' @ value_text p ''tableName'' @ '' SET ''"
    have st: "set_loop (enough h) ?q ob h = Inr (?q @ assignments (value_text s) ls, with_objects [(''set'', cjo_on (jmark s))] ob, h)"
      using s by (intro set_text [OF assms(1-5)]) simp_all
    obtain ob2 where "add_where (set_back (CHR '' '') (?q @ assignments (value_text s) ls) @ ''WHERE '') (with_objects [(''set'', cjo_on (jmark s))] ob) h
        = Inr ((set_back (CHR '' '') (?q @ assignments (value_text s) ls) @ ''WHERE '') @ conditions (index_text oo) (value_text d) 0 ks, ob2, h)"
      using wh [of "[(''set'', cjo_on (jmark s))]"] by fastforce
    with t st show ?thesis by (simp add: sqlUpdateWhere_def run_text_def update_text_def set_back_def del: butlast_append)
  qed
  ultimately show ?thesis by blast
qed

definition sample_request :: "int store" where
  "sample_request = \<lparr>live = [CJson 0 JObject
      [CJson 1 (JString ''seat'') [] (Some ''tableName''), CJson 2 JObject [CJson 3 (JString ''1 OR 1=1'') [] (Some ''id'')] (Some ''data''),
       CJson 4 JArray [CJson 5 (JString ''='') [] None] (Some ''op'')] None], next_mark = 6\<rparr>"

lemma statement_text_witness:
  "\<exists>ob'. sqlDeleteWhere (\<lambda>q. if q = ''DELETE FROM seat WHERE id=1 OR 1=1;'' then Affected 7 else Sql_error) (cjo_on 0) sample_request
     = Inr (7, ob', sample_request)"
proof -
  let ?d = "CJson 2 JObject [CJson 3 (JString ''1 OR 1=1'') [] (Some ''id'')] (Some ''data'') :: int item"
  let ?o = "CJson 4 JArray [CJson 5 (JString ''='') [] None] (Some ''op'') :: int item"
  let ?srv = "\<lambda>q. if q = ''DELETE FROM seat WHERE id=1 OR 1=1;'' then Affected 7 else Sql_error"
  let ?p = "CJson 0 JObject [CJson 1 (JString ''seat'') [] (Some ''tableName''), ?d, ?o] None"
  have "store_ok sample_request" "deref sample_request 0 = Inr ?p"
    by (simp_all add: sample_request_def store_ok_def deref_def)
  from statement_text [OF this(1) _ _ this(2), of "cjo_on 0" ?d "[''id'']" ?o ?srv, THEN conjunct1] show ?thesis
    by (simp add: cJSON_strcasecmp_def lower_def code_def value_text_def index_text_def shown_def queryNoResult_def c_str_def kNul_def wrap_signed_def)
qed

end
