(* ===== verification/Config.thy ===== *)
theory Config
  imports JsonUse
begin

text \<open>
  \<open>util/Init\<close> and \<open>main.cpp\<close>: the configuration is read, completed with defaults and used to set
  up the log and the server. An exception that nothing catches ends the program, like a
  fatal log (\<open>Fatal\<close>). Parameters are the contents of the file, \<open>boost::lexical_cast<int>\<close>
  (\<open>None\<close> where it throws) and \<open>inet_pton\<close>. Setting the affinity of a thread has no effect
  here but on the count of processors in use.
\<close>

section \<open>Reading a small file\<close>

text \<open>The results of \<open>open\<close> and \<open>pread\<close>, with \<open>errno\<close> if they fail.\<close>

type_synonym small_file = "int + (int + bytes)"

definition kFileBufferSize :: nat where
  "kFileBufferSize = 64 * 1024"

text \<open>The error and what is in the buffer, up to the NUL that ends it.\<close>

definition readToBuffer :: "small_file \<Rightarrow> int \<times> bytes" where
  "readToBuffer f =
     (case f of
        Inl e \<Rightarrow> (e, [])
      | Inr (Inl e) \<Rightarrow> (e, [])
      | Inr (Inr s) \<Rightarrow> (0, c_str (take (kFileBufferSize - 1) s)))"

text \<open>The descriptor the constructor got from \<open>open\<close>, and what the destructor closes.\<close>

definition close_small_file :: "int \<Rightarrow> nat list" where
  "close_small_file fd = (if 0 \<le> fd then [nat fd] else [])"

section \<open>The state\<close>

record 'd init =
  confData :: cjo
  conf_items :: "'d store"
  blocksIp :: "bytes list"
  httpMaxBodySize :: int
  workerConnections :: int
  cpuUsedNumber :: int
  cpuMaxNumber :: int
  cpuAffinity :: bool
  rootPath :: bytes

definition new_init :: "int \<Rightarrow> 'd init" where
  "new_init processors = \<lparr>confData = new_cjo, conf_items = empty_store, blocksIp = [], httpMaxBodySize = 0, workerConnections = 0,
     cpuUsedNumber = 0, cpuMaxNumber = processors, cpuAffinity = False, rootPath = []\<rparr>"

definition getUsefulCpuNumber :: "'d init \<Rightarrow> int \<times> 'd init" where
  "getUsefulCpuNumber s =
     (if cpuMaxNumber s \<le> cpuUsedNumber s then (- 1, s)
      else (cpuUsedNumber s, s\<lparr>cpuUsedNumber := cpuUsedNumber s + 1\<rparr>))"

definition setCPUAffinity :: "'d init \<Rightarrow> 'd init" where
  "setCPUAffinity s = snd (getUsefulCpuNumber s)"

section \<open>Conversions\<close>

definition getTypeConversion :: "(bytes \<Rightarrow> int option) \<Rightarrow> bytes \<Rightarrow> int \<Rightarrow> int" where
  "getTypeConversion lc value def = (case lc value of Some x \<Rightarrow> x | None \<Rightarrow> def)"

text \<open>\<open>std::stoi\<close> throws without digits and outside of \<open>int\<close>.\<close>

definition stoi :: "bytes \<Rightarrow> fault + int" where
  "stoi s =
     (let t = dropWhile is_space (c_str s);
          ds = takeWhile is_digit (if take 1 t = ''-'' \<or> take 1 t = ''+'' then tl t else t);
          v = (if take 1 t = ''-'' then - digits_value 10 0 ds else digits_value 10 0 ds)
      in if ds = [] \<or> v < - (2 ^ 31) \<or> 2 ^ 31 \<le> v then Inl Fatal else Inr v)"

section \<open>initConf\<close>

definition conf_do :: "('d, 'r) member_fun \<Rightarrow> 'd init \<Rightarrow> fault + ('r \<times> 'd init)" where
  "conf_do f s = ebind (f (confData s) (conf_items s)) (\<lambda>(r, ob, h). Inr (r, s\<lparr>confData := ob, conf_items := h\<rparr>))"

definition asks :: "bytes \<Rightarrow> ('d, bytes) member_fun" where
  "asks strKey ob h = ebind (text_of_key strKey ob h) (\<lambda>s. Inr (s, ob, h))"

abbreviation conf_text :: "bytes \<Rightarrow> 'd init \<Rightarrow> fault + (bytes \<times> 'd init)" where
  "conf_text key \<equiv> conf_do (asks key)"

abbreviation section_text :: "bytes \<Rightarrow> bytes \<Rightarrow> 'd init \<Rightarrow> fault + (bytes \<times> 'd init)" where
  "section_text sec key \<equiv> conf_do (via_key sec (asks key))"

text \<open>The file is parsed into a temporary object, which is assigned and destroyed.\<close>

definition load :: "('d, 'x) numbers_scheme \<Rightarrow> small_file \<Rightarrow> 'd init \<Rightarrow> fault + 'd init" where
  "load fl f s =
     (if fst (readToBuffer f) < 0 then Inl Assert_failed
      else
        ebind (Parse fl (snd (readToBuffer f)) new_cjo (conf_items s)) (\<lambda>(u, tmp, h1).
        ebind (assign fl tmp (confData s) h1) (\<lambda>(v, ob, h2).
        ebind (delete_roots (owned tmp) h2) (\<lambda>h3. Inr (s\<lparr>confData := ob, conf_items := h3\<rparr>)))))"

text \<open>\<open>throw;\<close> with no exception to pass on ends the program, so its handler is never reached.\<close>

definition check_async :: "'d init \<Rightarrow> fault + 'd init" where
  "check_async s =
     ebind (section_text ''log'' ''ansync_started'' s) (\<lambda>(t1, s1).
       if t1 = ''on'' then Inr s1
       else ebind (section_text ''log'' ''ansync_started'' s1) (\<lambda>(t2, s2). if t2 = ''off'' then Inr s2 else Inl Fatal))"

definition check_affinity :: "'d init \<Rightarrow> fault + 'd init" where
  "check_affinity s =
     ebind (conf_text ''cpu_affinity'' s) (\<lambda>(t, s1).
       Inr (if t = ''on'' then setCPUAffinity (s1\<lparr>cpuAffinity := True\<rparr>) else s1))"

text \<open>A number is read with a default, made positive, and written back with \<open>Replace\<close>.\<close>

definition positive :: "int \<Rightarrow> int \<Rightarrow> int" where
  "positive v def = (if 0 < v then v else def)"

definition settle :: "('d, 'x) numbers_scheme \<Rightarrow> (bytes \<Rightarrow> int option) \<Rightarrow> bytes \<Rightarrow> int \<Rightarrow> ('d, int) member_fun" where
  "settle fl lc key def ob h =
     ebind (asks key ob h) (\<lambda>(t, ob1, h1).
       let v = getTypeConversion lc t def in
       ebind (Replace_key_int32 fl key (positive v def) ob1 h1) (\<lambda>(ok, ob2, h2). Inr (v, ob2, h2)))"

text \<open>In a section \<open>operator[]\<close> is called for the reading and again for the writing.\<close>

definition settle_in :: "('d, 'x) numbers_scheme \<Rightarrow> (bytes \<Rightarrow> int option) \<Rightarrow> bytes \<Rightarrow> bytes \<Rightarrow> int \<Rightarrow> ('d, int) member_fun" where
  "settle_in fl lc sec key def ob h =
     ebind (via_key sec (asks key) ob h) (\<lambda>(t, ob1, h1).
       let v = getTypeConversion lc t def in
       ebind (via_key sec (Replace_key_int32 fl key (positive v def)) ob1 h1) (\<lambda>(ok, ob2, h2). Inr (v, ob2, h2)))"

text \<open>The addresses to refuse. What is no string leaves \<open>ip\<close> as it was, which is inserted again.\<close>

fun read_blocks :: "nat \<Rightarrow> nat \<Rightarrow> bytes \<Rightarrow> 'd init \<Rightarrow> fault + 'd init" where
  "read_blocks 0 i ip s = Inr s"
| "read_blocks (Suc n) i ip s =
     ebind (conf_do (via_key ''blocks_ip'' (\<lambda>ob h. ebind (Get_index_string (int i) ob h) (\<lambda>v. Inr (v, ob, h)))) s) (\<lambda>(v, s1).
       let ip1 = (case v of Some x \<Rightarrow> x | None \<Rightarrow> ip)
       in read_blocks n (i + 1) ip1 (s1\<lparr>blocksIp := List.insert ip1 (blocksIp s1)\<rparr>))"

definition initConf :: "('d, 'x) numbers_scheme \<Rightarrow> (bytes \<Rightarrow> int option) \<Rightarrow> small_file \<Rightarrow> 'd init \<Rightarrow> fault + 'd init" where
  "initConf fl lc f s0 =
     ebind (load fl f s0) (\<lambda>s1.
     ebind (check_async s1) (\<lambda>s2.
     ebind (check_affinity s2) (\<lambda>s3.
     ebind (conf_do (settle_in fl lc ''log'' ''flush_second'' 3) s3) (\<lambda>(flushSecond, s4).
     ebind (conf_do (settle_in fl lc ''log'' ''roll_size'' 67108864) s4) (\<lambda>(rollSize, s5).
     ebind (conf_do (settle fl lc ''port'' 4507) s5) (\<lambda>(port, s6).
     ebind (conf_text ''worker_connections'' s6) (\<lambda>(t, s7).
     let s8 = s7\<lparr>workerConnections := getTypeConversion lc t (- 1)\<rparr> in
     ebind (conf_do (settle_in fl lc ''http'' ''max_body_size'' 67108864) s8) (\<lambda>(max_body_size, s9).
     let s10 = s9\<lparr>httpMaxBodySize := max_body_size\<rparr> in
     ebind (conf_do (settle fl lc ''worker_processes'' 4) s10) (\<lambda>(workerProcesses, s11).
     ebind (conf_do (settle fl lc ''task_processes'' 0) s11) (\<lambda>(taskProcesses, s12).
     ebind (section_text ''http'' ''root_path'' s12) (\<lambda>(r1, s13).
     ebind (if r1 = [] then Inr (''./'', s13) else section_text ''http'' ''root_path'' s13) (\<lambda>(r2, s14).
     let s15 = s14\<lparr>rootPath := r2\<rparr> in
     ebind (conf_do (via_key ''blocks_ip'' (\<lambda>ob h. ebind (GetArraySize ob h) (\<lambda>n. Inr (n, ob, h)))) s15) (\<lambda>(n, s16).
     read_blocks n 0 [] s16)))))))))))))"

section \<open>start\<close>

text \<open>\<open>operator[]\<close> of the map of levels inserts \<open>LogLevel()\<close>, which is \<open>DEBUG\<close>, for any other name.\<close>

definition logMap :: "(bytes \<times> log_level) list" where
  "logMap = [(''DEBUG'', DEBUG), (''INFO'', INFO), (''WARN'', WARN)]"

definition log_level_of :: "bytes \<Rightarrow> log_level" where
  "log_level_of name = (case map_of logMap name of Some l \<Rightarrow> l | None \<Rightarrow> DEBUG)"

text \<open>What the server is started with.\<close>

record settings =
  async_log :: "(bytes \<times> int \<times> int) option"
  set_level :: log_level
  sin_port :: "16 word"
  sin_addr :: "32 word"
  thread_pool :: int
  io_threads :: int

definition initAsyncLogThreadLog :: "'d init \<Rightarrow> fault + ((bytes \<times> int \<times> int) \<times> 'd init)" where
  "initAsyncLogThreadLog s =
     ebind (section_text ''log'' ''path'' s) (\<lambda>(path, s1).
     ebind (section_text ''log'' ''base_name'' s1) (\<lambda>(base, s2).
     ebind (section_text ''log'' ''flush_second'' s2) (\<lambda>(fs, s3).
     ebind (stoi fs) (\<lambda>flush.
     ebind (section_text ''log'' ''roll_size'' s3) (\<lambda>(rs, s4).
     ebind (stoi rs) (\<lambda>roll. Inr ((path @ base, flush, roll), s4)))))))"

definition start :: "('d, 'x) numbers_scheme \<Rightarrow> (bytes \<Rightarrow> int option) \<Rightarrow> (bytes \<Rightarrow> 32 word option) \<Rightarrow> small_file \<Rightarrow> 'd init
    \<Rightarrow> fault + (settings \<times> 'd init)" where
  "start fl lc inet_pton f s0 =
     ebind (initConf fl lc f s0) (\<lambda>s1.
     ebind (section_text ''log'' ''ansync_started'' s1) (\<lambda>(on, s2).
     ebind (if on = ''on'' then ebind (initAsyncLogThreadLog s2) (\<lambda>(l, s). Inr (Some l, s)) else Inr (None, s2)) (\<lambda>(log, s3).
     ebind (section_text ''log'' ''level'' s3) (\<lambda>(level, s4).
     ebind (conf_text ''port'' s4) (\<lambda>(p, s5).
     ebind (stoi p) (\<lambda>port.
     ebind (conf_text ''address'' s5) (\<lambda>(ad, s6).
     ebind (conf_text ''task_processes'' s6) (\<lambda>(tp, s7).
     ebind (stoi tp) (\<lambda>tasks.
     ebind (conf_text ''worker_processes'' s7) (\<lambda>(wp, s8).
     ebind (stoi wp) (\<lambda>workers.
     Inr (\<lparr>async_log = log, set_level = log_level_of level, sin_port = word_of_int port,
           sin_addr = (case inet_pton (c_str ad) of Some w \<Rightarrow> w | None \<Rightarrow> 0), thread_pool = tasks, io_threads = workers\<rparr>, s8))))))))))))"

text \<open>\<open>main\<close> with its arguments: the path of the configuration, empty for the default one.\<close>

definition main_path :: "bytes list \<Rightarrow> fault + bytes" where
  "main_path argv =
     (if length argv \<noteq> 1 \<and> length argv \<noteq> 3 then Inl Fatal
      else if length argv = 1 then Inr []
      else if c_str (argv ! 1) \<noteq> ''-f'' then Inl Fatal
      else Inr (c_str (argv ! 2)))"

definition conf_path :: "bytes \<Rightarrow> bytes" where
  "conf_path confFilePath = (if confFilePath = [] then ''./conf/ssxrver.json'' else confFilePath)"

definition main_start :: "('d, 'x) numbers_scheme \<Rightarrow> (bytes \<Rightarrow> int option) \<Rightarrow> (bytes \<Rightarrow> 32 word option) \<Rightarrow> (bytes \<Rightarrow> small_file)
    \<Rightarrow> int \<Rightarrow> bytes list \<Rightarrow> fault + (settings \<times> 'd init)" where
  "main_start fl lc inet_pton file_at processors argv =
     ebind (main_path argv) (\<lambda>path. start fl lc inet_pton (file_at (conf_path path)) (new_init processors))"

section \<open>Replacing\<close>

lemma code_lower: "code (lower c) = (if 65 \<le> code c \<and> code c \<le> 90 then code c + 32 else code c)"
proof -
  have "code (char_of n) = n" if "n < 256" for n :: nat using that by (simp add: code_def)
  then show ?thesis by (simp add: lower_def)
qed

lemma lower_positive: "c \<noteq> kNul \<Longrightarrow> code (lower c) \<noteq> 0"
  using char_code(2) [of c] by (simp add: code_lower)

lemma same_key_lower: "same_key k l \<longleftrightarrow> map lower (c_str k) = map lower (c_str l)"
proof -
  have "strcasecmp_loop s t = 0 \<longleftrightarrow> map lower s = map lower t" if "no_nul s" "no_nul t" for s t
    using that
  proof (induction s t rule: strcasecmp_loop.induct)
    case (2 d t)
    then show ?case using lower_positive [of d] by simp
  next
    case (3 c s)
    then show ?case using lower_positive [of c] by simp
  next
    case (4 c s d t)
    moreover have "code (lower c) = code (lower d) \<Longrightarrow> lower c = lower d" using char_code(1) by metis
    ultimately show ?case by auto
  qed auto
  moreover have "no_nul (c_str x)" for x by (simp add: no_nul_def c_str_def) (metis set_takeWhileD)
  ultimately show ?thesis by (simp add: same_key_def cJSON_strcasecmp_def)
qed

lemma same_key_trans: "same_key k l \<Longrightarrow> same_key k m = same_key l m"
  by (simp add: same_key_lower)

lemma get_None: "cJSON_GetObjectItem cs k = None \<longleftrightarrow> name_index cs k j = None"
  by (induction cs arbitrary: j) auto

lemma get_replaced:
  assumes "name_index cs k j = Some i"
  shows "j \<le> i \<and> cJSON_GetObjectItem (cJSON_ReplaceItemInArray cs (i - j) (named (c_str k) c)) k = Some (named (c_str k) c)
    \<and> (\<not> same_key k l \<longrightarrow>
      cJSON_GetObjectItem (cJSON_ReplaceItemInArray cs (i - j) (named (c_str k) c)) l = cJSON_GetObjectItem cs l)"
  using assms
proof (induction cs arbitrary: j)
  case (Cons d ds)
  show ?case
  proof (cases "cJSON_strcasecmp (jstring d) (Some k) = 0")
    case True
    then obtain n where n: "jstring d = Some n" by (cases "jstring d") (auto simp: cJSON_strcasecmp_def)
    have nk: "same_key n k" using True n by (simp add: same_key_def)
    have ck: "same_key (c_str k) k" by (simp add: same_key_def)
    have "\<not> same_key k l \<longrightarrow> \<not> same_key n l \<and> \<not> same_key (c_str k) l"
      using same_key_trans [OF nk, of l] same_key_trans [OF ck, of l] by simp
    then show ?thesis using True Cons.prems n by (auto simp: same_key_def)
  next
    case False
    then have "name_index ds k (j + 1) = Some i" using Cons.prems by simp
    from Cons.IH [OF this] have i: "j + 1 \<le> i" and r: "cJSON_GetObjectItem (cJSON_ReplaceItemInArray ds (i - (j + 1)) (named (c_str k) c)) k = Some (named (c_str k) c)"
      "\<not> same_key k l \<longrightarrow> cJSON_GetObjectItem (cJSON_ReplaceItemInArray ds (i - (j + 1)) (named (c_str k) c)) l = cJSON_GetObjectItem ds l"
      by blast+
    have e: "i - (j + 1) = i - j - 1" by simp
    show ?thesis using i r [unfolded e] False by simp
  qed
qed simp

text \<open>\<open>Replace\<close> of a value: in the place of the item with this name, or nowhere.\<close>

lemma replace_found:
  assumes "focus ob = Some a" and "deref h a = Inr p" and "jtype p = JObject" and "map_of (m_mapJsonObjectRef ob) k = None"
  shows "\<exists>ob' h' q. replace_value k (Inr t) ob h = Inr (cJSON_GetObjectItem (jchild p) k \<noteq> None, ob', h')
    \<and> focus ob' = Some a \<and> deref h' a = Inr q \<and> jtype q = JObject
    \<and> (if cJSON_GetObjectItem (jchild p) k = None then jchild q = jchild p
       else (\<exists>c. cJSON_GetObjectItem (jchild q) k = Some c \<and> jtype c = jtype t))
    \<and> (\<forall>l. \<not> same_key k l \<longrightarrow> cJSON_GetObjectItem (jchild q) l = cJSON_GetObjectItem (jchild p) l)"
proof -
  let ?ob = "with_objects (filter (\<lambda>(l, w). l \<noteq> k) (m_mapJsonObjectRef ob)) ob"
  have "filter (\<lambda>(l, w). l = k) (m_mapJsonObjectRef ob) = []"
    using assms(4) by (force simp: filter_empty_conv map_of_eq_None_iff)
  then have fk: "forget_key k ob h = Inr (?ob, h)" by (simp add: forget_key_def)
  obtain n c where c: "allocate (next_mark h) t = (n, c)" by (cases "allocate (next_mark h) t")
  define h1 where "h1 = link_new a (\<lambda>i cs. cJSON_ReplaceItemInObject cs k i) t h"
  define q where "q = below (\<lambda>cs. cJSON_ReplaceItemInObject cs k c) p"
  have "deref (h\<lparr>next_mark := n\<rparr>) a = Inr p" using assms(2) by (simp add: deref_def)
  from deref_change [OF this] have d: "deref h1 a = Inr q" by (simp add: h1_def link_new_def c q_def)
  have e: "replace_value k (Inr t) ob h = Inr (cJSON_GetObjectItem (jchild q) k \<noteq> None, ?ob, h1)"
    using assms(1-3) fk d by (simp add: replace_value_def editing_def relink_key_def h1_def [symmetric])
  have ck: "jtype c = jtype t" using allocate_kind [OF c] by blast
  show ?thesis
  proof (cases "name_index (jchild p) k 0")
    case None
    then have "jchild q = jchild p" "cJSON_GetObjectItem (jchild p) k = None"
      using get_None [of "jchild p" k 0] by (simp_all add: q_def cJSON_ReplaceItemInObject_def)
    then show ?thesis using e d assms(1,3) by (intro exI [of _ ?ob] exI [of _ h1] exI [of _ q]) (simp add: q_def)
  next
    case (Some i)
    then obtain y where s: "cJSON_GetObjectItem (jchild p) k = Some y" using get_None [of "jchild p" k 0] by auto
    have q: "jchild q = cJSON_ReplaceItemInArray (jchild p) i (named (c_str k) c)"
      using Some by (simp add: q_def cJSON_ReplaceItemInObject_def)
    have g: "cJSON_GetObjectItem (jchild q) k = Some (named (c_str k) c)"
      "\<And>l. \<not> same_key k l \<Longrightarrow> cJSON_GetObjectItem (jchild q) l = cJSON_GetObjectItem (jchild p) l"
      using get_replaced [OF Some, of c] unfolding q by simp_all
    show ?thesis using e d assms(1,3) s g ck by (intro exI [of _ ?ob] exI [of _ h1] exI [of _ q]) (simp add: q_def)
  qed
qed

section \<open>Numbers that can be read back\<close>

lemma stoi_signed_text:
  assumes "- (2 ^ 31) \<le> v" and "v < 2 ^ 31"
  shows "stoi (signed_text v) = Inr v"
proof -
  let ?d = "decimal (nat \<bar>v\<bar>)"
  have d: "?d \<noteq> []" "\<forall>c \<in> set ?d. is_digit c" "digits_value 10 0 ?d = \<bar>v\<bar>"
    using decimal_digits [of "nat \<bar>v\<bar>"] by (auto simp: digits_def is_digit_def)
  have no: "\<not> is_space c \<and> c \<noteq> CHR ''-'' \<and> c \<noteq> CHR ''+''" if "is_digit c" for c
    using that by (auto simp: is_digit_def is_space_def schar_def)
  have "no_nul (signed_text v)" using no_nul_decimal [of "nat \<bar>v\<bar>"] by (simp add: signed_text_def kNul_def)
  then have c: "c_str (signed_text v) = signed_text v" by (rule no_nul_c_str)
  have sp: "dropWhile is_space (signed_text v) = signed_text v"
    using d(1,2) no by (cases ?d) (auto simp: signed_text_def is_space_def schar_def)
  have tw: "\<forall>c \<in> set s. is_digit c \<Longrightarrow> takeWhile is_digit s = s" for s by (simp add: takeWhile_eq_all_conv)
  have hd: "take 1 ?d \<noteq> ''-''" "take 1 ?d \<noteq> ''+''" using d(1,2) no by (cases ?d; auto)+
  show ?thesis
    using assms d hd by (cases "v < 0") (simp_all add: stoi_def c sp, simp_all add: signed_text_def tw Let_def)
qed

lemma stoi_empty: "stoi [] = Inl Fatal"
  by (simp add: stoi_def c_str_def)

section \<open>What start needs\<close>

text \<open>
  A number of the configuration (\<open>port\<close>, \<open>worker_processes\<close>, \<open>task_processes\<close> in
  \<open>Init::initConf\<close>) is settled like this. If the key is there, whatever its value, the
  object afterwards holds the number that could be read, or the default if it could not or
  is not positive, and \<open>std::stoi\<close> in \<open>Init::start\<close> reads exactly this number back. If the key
  is missing the default is lost, since \<open>Replace\<close> adds nothing: the text stays empty and
  \<open>std::stoi\<close> ends the program. Other keys are left alone.
\<close>

theorem number_settled:
  assumes "focus ob = Some a" and "deref h a = Inr p" and "jtype p = JObject" and "map_of (m_mapJsonObjectRef ob) key = None"
    and "\<forall>s x. lc s = Some x \<longrightarrow> - (2 ^ 31) \<le> x \<and> x < 2 ^ 31" and "0 \<le> def" and "def < 2 ^ 31"
    and "v = getTypeConversion lc (case cJSON_GetObjectItem (jchild p) key of None \<Rightarrow> [] | Some c \<Rightarrow> shown c) def"
  shows "\<exists>ob' h'. settle fl lc key def ob h = Inr (v, ob', h')
    \<and> (if cJSON_GetObjectItem (jchild p) key = None then text_of_key key ob' h' = Inr [] \<and> stoi [] = Inl Fatal
       else text_of_key key ob' h' = Inr (signed_text (positive v def))
         \<and> stoi (signed_text (positive v def)) = Inr (positive v def))
    \<and> (\<forall>l. \<not> same_key key l \<longrightarrow> text_of_key l ob' h' = text_of_key l ob h)"
proof -
  let ?w = "positive v def"
  have "- (2 ^ 31) \<le> v \<and> v < 2 ^ 31" using assms(5-8) by (auto simp: getTypeConversion_def split: option.split)
  then have w: "- (2 ^ 31) \<le> ?w" "?w < 2 ^ 31" using assms(6,7) by (auto simp: positive_def)
  then have w64: "wrap_signed 64 (to_uint64 ?w) = ?w" using wrap_uint64 [of ?w] by (simp add: wrap_signed_id)
  have t: "text_of_key key ob h = Inr (case cJSON_GetObjectItem (jchild p) key of None \<Rightarrow> [] | Some c \<Rightarrow> shown c)"
    using assms(1-3) by (simp add: text_of_key_def shown_item_def found_key_def found_def)
  obtain ob' h' q where r: "replace_value key (Inr (cJSON_CreateInt fl (to_uint64 ?w) (- 1))) ob h
      = Inr (cJSON_GetObjectItem (jchild p) key \<noteq> None, ob', h')"
    and q: "focus ob' = Some a" "deref h' a = Inr q" "jtype q = JObject"
    and k: "if cJSON_GetObjectItem (jchild p) key = None then jchild q = jchild p
       else (\<exists>c. cJSON_GetObjectItem (jchild q) key = Some c \<and> jtype c = jtype (cJSON_CreateInt fl (to_uint64 ?w) (- 1)))"
    and l: "\<forall>l. \<not> same_key key l \<longrightarrow> cJSON_GetObjectItem (jchild q) l = cJSON_GetObjectItem (jchild p) l"
    using replace_found [OF assms(1-4), of "cJSON_CreateInt fl (to_uint64 ?w) (- 1)"] by blast
  have s: "settle fl lc key def ob h = Inr (v, ob', h')"
    using t r assms(8) by (simp add: settle_def asks_def Replace_key_int32_def)
  have f: "text_of_key m ob' h' = Inr (case cJSON_GetObjectItem (jchild q) m of None \<Rightarrow> [] | Some c \<Rightarrow> shown c)" for m
    using q by (simp add: text_of_key_def shown_item_def found_key_def found_def)
  have g: "text_of_key m ob h = Inr (case cJSON_GetObjectItem (jchild p) m of None \<Rightarrow> [] | Some c \<Rightarrow> shown c)" for m
    using assms(1-3) by (simp add: text_of_key_def shown_item_def found_key_def found_def)
  have "if cJSON_GetObjectItem (jchild p) key = None then text_of_key key ob' h' = Inr []
      else text_of_key key ob' h' = Inr (signed_text ?w)"
    using k w64 unfolding f by (auto simp: cJSON_CreateInt_def shown_def)
  then show ?thesis using s l f g stoi_empty stoi_signed_text [OF w] by auto
qed

lemma number_settled_witness:
  "\<exists>ob' h'. settle plain_numbers (\<lambda>s. None) ''port'' 4507 (cjo_on 0) sample_store = Inr (4507, ob', h')
    \<and> text_of_key ''port'' ob' h' = Inr [] \<and> stoi [] = Inl Fatal"
proof -
  have "cJSON_GetObjectItem [CJson 1 JNULL [] (Some ''a''), CJson 2 JArray [CJson 3 JTrue [] None] (Some ''b'')] ''port'' = (None :: int item option)"
    by code_simp
  then show ?thesis
    using number_settled [of "cjo_on 0" 0 sample_store
        "CJson 0 JObject [CJson 1 JNULL [] (Some ''a''), CJson 2 JArray [CJson 3 JTrue [] None] (Some ''b'')] None"
        "''port''" "\<lambda>s. None" 4507 4507 plain_numbers]
    by (simp add: cjo_on_def focus_def deref_def sample_store_def getTypeConversion_def) blast
qed

section \<open>Processors in use\<close>

text \<open>Reading and editing the configuration leaves the count of processors alone.\<close>

definition same_cpus :: "'d init \<Rightarrow> 'd init \<Rightarrow> bool" where
  "same_cpus s s' \<longleftrightarrow> cpuUsedNumber s' = cpuUsedNumber s \<and> cpuMaxNumber s' = cpuMaxNumber s \<and> cpuAffinity s' = cpuAffinity s"

lemma conf_do_cpus: "conf_do f s = Inr (r, s') \<Longrightarrow> same_cpus s s'"
  by (auto simp: conf_do_def ebind_eq_Inr same_cpus_def)

lemma load_cpus: "load fl f s = Inr s' \<Longrightarrow> same_cpus s s'"
  by (auto simp: load_def ebind_eq_Inr same_cpus_def split: if_splits)

lemma check_async_cpus: "check_async s = Inr s' \<Longrightarrow> same_cpus s s'"
  by (auto simp: check_async_def ebind_eq_Inr same_cpus_def split: if_splits dest!: conf_do_cpus)

lemma read_blocks_cpus: "read_blocks n i ip s = Inr s' \<Longrightarrow> same_cpus s s'"
proof (induction n arbitrary: i ip s)
  case (Suc n)
  then obtain v s1 where "conf_do (via_key ''blocks_ip'' (\<lambda>ob h. ebind (Get_index_string (int i) ob h) (\<lambda>v. Inr (v, ob, h)))) s = Inr (v, s1)"
    and r: "same_cpus (s1\<lparr>blocksIp := List.insert (case v of Some x \<Rightarrow> x | None \<Rightarrow> ip) (blocksIp s1)\<rparr>) s'"
    by (auto simp: ebind_eq_Inr Let_def)
  from conf_do_cpus [OF this(1)] r show ?case by (simp add: same_cpus_def)
qed (simp add: same_cpus_def)

text \<open>What the main thread has taken when the configuration is read: one processor with \<open>cpu_affinity\<close>, if there is one.\<close>

definition main_cpus :: "int \<Rightarrow> 'd init \<Rightarrow> bool" where
  "main_cpus processors s \<longleftrightarrow> cpuMaxNumber s = processors
     \<and> cpuUsedNumber s = (if cpuAffinity s \<and> 0 < processors then 1 else 0)"

lemma check_affinity_cpus:
  "check_affinity s = Inr s' \<Longrightarrow> cpuUsedNumber s = 0 \<Longrightarrow> cpuMaxNumber s = processors \<Longrightarrow> \<not> cpuAffinity s \<Longrightarrow> main_cpus processors s'"
  by (auto simp: check_affinity_def ebind_eq_Inr main_cpus_def same_cpus_def setCPUAffinity_def getUsefulCpuNumber_def
      split: if_splits dest!: conf_do_cpus)

lemma main_cpus_same: "same_cpus s s' \<Longrightarrow> main_cpus processors s = main_cpus processors s'"
  by (simp add: same_cpus_def main_cpus_def)

lemma initConf_cpus:
  assumes "initConf fl lc f (new_init processors) = Inr s"
  shows "main_cpus processors s"
proof -
  obtain s1 s2 s3 where s: "load fl f (new_init processors) = Inr s1" "check_async s1 = Inr s2" "check_affinity s2 = Inr s3"
    using assms by (auto simp: initConf_def ebind_eq_Inr)
  have "same_cpus (new_init processors) s2"
    using load_cpus [OF s(1)] check_async_cpus [OF s(2)] by (simp add: same_cpus_def)
  then have m: "main_cpus processors s3"
    using check_affinity_cpus [OF s(3)] by (simp add: same_cpus_def new_init_def)
  have "same_cpus s3 s"
    using assms s
    by (auto simp: initConf_def ebind_eq_Inr Let_def same_cpus_def split: if_splits dest!: conf_do_cpus read_blocks_cpus)
  with m main_cpus_same show ?thesis by blast
qed

lemma main_start_cpus:
  assumes "main_start fl lc inet_pton file_at processors argv = Inr (st, conf)"
  shows "main_cpus processors conf"
proof -
  obtain f where f: "start fl lc inet_pton f (new_init processors) = Inr (st, conf)"
    using assms by (auto simp: main_start_def ebind_eq_Inr)
  then obtain s1 where s1: "initConf fl lc f (new_init processors) = Inr s1" by (auto simp: start_def ebind_eq_Inr)
  have "same_cpus s1 conf"
    using f s1 by (auto simp: start_def initAsyncLogThreadLog_def ebind_eq_Inr same_cpus_def split: if_splits dest!: conf_do_cpus)
  with initConf_cpus [OF s1] main_cpus_same show ?thesis by blast
qed

end
