(* ===== verification/LoopObject.thy ===== *)
theory LoopObject
  imports Poller EventLoop
begin

text \<open>
  The life of an \<open>EventLoop\<close> object: the constructors and destructors of \<open>Epoll\<close>, \<open>TimerManager\<close>
  and \<open>EventLoop\<close>, which create three descriptors and watch two of them, and the checked
  ways from a channel to the poller. Loops and threads are numbers.
\<close>

section \<open>State\<close>

record loop_object =
  threadId :: nat
  loop_poller :: poller \<comment> \<open>\<open>epoll_\<close>\<close>
  epollFd :: nat
  timerFdChannel :: channel
  wakeupChannel :: channel

text \<open>\<open>epoll_create1\<close>, \<open>timerfd_create\<close> and \<open>eventfd\<close>, given what they return.\<close>

definition create_fd :: "int \<Rightarrow> fault + nat" where
  "create_fd r = (if r < 0 then Inl Fatal else Inr (nat r))"

definition close_fd :: "kernel \<Rightarrow> nat \<Rightarrow> poller \<Rightarrow> poller" where
  "close_fd k f p = p\<lparr>calls := (CloseFd f, k (calls p) (CloseFd f)) # calls p\<rparr>"

section \<open>Operations\<close>

text \<open>\<open>updateChannel\<close> and \<open>removeChannel\<close>: the channel belongs to this loop, and the thread as well.\<close>

definition el_updateChannel :: "kernel \<Rightarrow> nat \<Rightarrow> nat \<Rightarrow> nat \<Rightarrow> nat \<Rightarrow> channel \<Rightarrow> poller \<Rightarrow> fault + (channel \<times> poller)" where
  "el_updateChannel k self owner thr tid ch p =
     (if owner \<noteq> self then Inl Assert_failed
      else ebind (assertInLoopThread thr tid) (\<lambda>u. ep_updateChannel k ch p))"

definition el_removeChannel :: "kernel \<Rightarrow> nat \<Rightarrow> nat \<Rightarrow> nat \<Rightarrow> nat \<Rightarrow> channel \<Rightarrow> poller \<Rightarrow> fault + (channel \<times> poller)" where
  "el_removeChannel k self owner thr tid ch p =
     (if owner \<noteq> self then Inl Assert_failed
      else ebind (assertInLoopThread thr tid) (\<lambda>u. ep_removeChannel k ch p))"

definition new_timer_channel :: "kernel \<Rightarrow> int \<Rightarrow> poller \<Rightarrow> fault + (channel \<times> poller)" where
  "new_timer_channel k timerFd p =
     ebind (create_fd timerFd) (\<lambda>f. enableEvents k kReadEventLT (setCallback ReadCb (new_channel f)) p)"

text \<open>The members in their order; the check for a second loop in the thread comes behind them.\<close>

definition new_loop_object :: "kernel \<Rightarrow> (nat \<rightharpoonup> nat) \<Rightarrow> nat \<Rightarrow> nat \<Rightarrow> int \<Rightarrow> int \<Rightarrow> int \<Rightarrow> fault + (loop_object \<times> (nat \<rightharpoonup> nat))" where
  "new_loop_object k t_loopInThisThread tid self epfd timerFd evtfd =
     ebind (create_fd epfd) (\<lambda>ep.
     ebind (new_timer_channel k timerFd new_poller) (\<lambda>(tch, p1).
     ebind (create_fd evtfd) (\<lambda>w.
     ebind (el_construct t_loopInThisThread tid self) (\<lambda>ts.
     ebind (enableEvents k kReadEventLT (setCallback ReadCb (new_channel w)) p1) (\<lambda>(wch, p2).
       Inr (\<lparr>threadId = tid, loop_poller = p2, epollFd = ep, timerFdChannel = tch, wakeupChannel = wch\<rparr>, ts))))))"

text \<open>A channel is taken out and its descriptor closed, and then the destructor of the channel runs.\<close>

definition drop_channel :: "kernel \<Rightarrow> channel \<Rightarrow> poller \<Rightarrow> fault + (channel \<times> poller)" where
  "drop_channel k ch p =
     ebind (disableAll k ch p) (\<lambda>(ch1, p1).
     ebind (ch_remove k ch1 p1) (\<lambda>(ch2, p2). Inr (ch2, close_fd k (fd ch2) p2)))"

definition del_loop_object :: "kernel \<Rightarrow> (nat \<rightharpoonup> nat) \<Rightarrow> nat \<Rightarrow> loop_object \<Rightarrow> fault + (poller \<times> (nat \<rightharpoonup> nat))" where
  "del_loop_object k t_loopInThisThread tid lo =
     ebind (drop_channel k (wakeupChannel lo) (loop_poller lo)) (\<lambda>(wch, p1).
     ebind (ch_destroy k wch p1) (\<lambda>p2.
     ebind (drop_channel k (timerFdChannel lo) p2) (\<lambda>(tch, p3).
     ebind (ch_destroy k tch p3) (\<lambda>p4.
       Inr (close_fd k (epollFd lo) p4, t_loopInThisThread(tid := None))))))"

section \<open>What a new loop watches\<close>

lemma enable_new:
  assumes "epoll_contract k" and "interest (calls p) f = None"
  shows "\<exists>ch p'. enableEvents k kReadEventLT (setCallback ReadCb (new_channel f)) p = Inr (ch, p')
     \<and> in_step ch p' \<and> fd ch = f \<and> status ch = kAdded \<and> events ch = kReadEventLT \<and> eventHandling ch = False
     \<and> interest (calls p') f = Some kReadEventLT \<and> (\<forall>g. g \<noteq> f \<longrightarrow> interest (calls p') g = interest (calls p) g)"
  using assms contractD(1) [OF assms(1), of "calls p" f]
  by (simp add: enableEvents_def ch_update_def ep_updateChannel_def ep_update_def in_step_def setCallback_def new_channel_def
      status_defs Let_def)

text \<open>A loop that is the first of its thread is constructed, and watches exactly its two descriptors.\<close>

lemma new_loop_object_watches:
  assumes "epoll_contract k" and "t_loop tid = None" and "0 \<le> ep" and "0 \<le> tf" and "0 \<le> ev" and "tf \<noteq> ev"
  shows "\<exists>lo. new_loop_object k t_loop tid self ep tf ev = Inr (lo, t_loop(tid \<mapsto> self)) \<and> threadId lo = tid
     \<and> in_step (wakeupChannel lo) (loop_poller lo) \<and> in_step (timerFdChannel lo) (loop_poller lo)
     \<and> (\<forall>f. interest (calls (loop_poller lo)) f = (if f = nat tf \<or> f = nat ev then Some kReadEventLT else None))"
proof -
  obtain tch p1 where t: "enableEvents k kReadEventLT (setCallback ReadCb (new_channel (nat tf))) new_poller = Inr (tch, p1)"
    "in_step tch p1" "fd tch = nat tf" "interest (calls p1) (nat tf) = Some kReadEventLT"
    "status tch = kAdded" "events tch = kReadEventLT"
    "\<forall>g. g \<noteq> nat tf \<longrightarrow> interest (calls p1) g = None"
    using enable_new [OF assms(1), of new_poller "nat tf"] by (auto simp: new_poller_def)
  have ne: "nat ev \<noteq> nat tf" using assms(4-6) by simp
  have i: "interest (calls p1) (nat ev) = None" using t(7) ne by blast
  obtain wch p2 where w: "enableEvents k kReadEventLT (setCallback ReadCb (new_channel (nat ev))) p1 = Inr (wch, p2)"
    "in_step wch p2" "interest (calls p2) (nat ev) = Some kReadEventLT"
    "\<forall>g. g \<noteq> nat ev \<longrightarrow> interest (calls p2) g = interest (calls p1) g"
    using enable_new [OF assms(1) i] by (elim exE conjE) (rule that)
  have "in_step tch p2" using t w(4) ne by (auto simp: in_step_def)
  then show ?thesis
    using assms t w by (auto simp: new_loop_object_def new_timer_channel_def create_fd_def el_construct_def)
qed

section \<open>What its destruction closes\<close>

lemma close_fd_fields [simp]: "calls (close_fd k f p) = (CloseFd f, k (calls p) (CloseFd f)) # calls p"
  by (simp add: close_fd_def)

fun closings :: "nat \<Rightarrow> history \<Rightarrow> nat" where
  "closings f [] = 0"
| "closings f ((CloseFd g, ok) # h) = (if f = g then 1 else 0) + closings f h"
| "closings f ((Ctl op g ev, ok) # h) = closings f h"

text \<open>A channel that is dropped and destroyed has its descriptor closed three times.\<close>

lemma dropped_closed_thrice:
  assumes "epoll_contract k" and "in_step ch p" and "status ch = kAdded" and "\<not> eventHandling ch"
  shows "\<exists>ch' p' p''. drop_channel k ch p = Inr (ch', p') \<and> ch_destroy k ch' p' = Inr p''
     \<and> closings (fd ch) (calls p'') = closings (fd ch) (calls p) + 3"
  using assms contractD [OF assms(1)]
  by (simp add: drop_channel_def disableAll_def ch_update_def ep_updateChannel_def ep_update_def in_step_def status_defs
      isNoneEvent_def ch_remove_def ep_removeChannel_def ch_destroy_def kNoneEvent_def Let_def)

end
