(* ===== verification/Startup.thy ===== *)
theory Startup
  imports HttpServer Config Acceptor LoopObject TaskQueue "HOL-Library.Code_Target_Nat"
begin

text \<open>
  The server is put together: the constructor and \<open>start\<close> of \<open>HttpServer\<close>, and the second half
  of \<open>Init::start\<close>, which makes the server from the configuration. \<open>program\<close> is \<open>main\<close> up to the
  call of \<open>loop\<close>. The lemmas say what is then listening, and with how many threads.
\<close>

section \<open>HttpServer\<close>

record http_server =
  threadPoolNumber :: int
  tcpServer :: tcp_server \<comment> \<open>\<open>server_\<close>\<close>
  httpCallback :: http_callback
  pinned :: bool \<comment> \<open>\<open>threadInitCallback\<close> is set\<close>
  taskThreads :: nat \<comment> \<open>threads of \<open>threadPool_\<close>\<close>
  ioCpus :: "int list" \<comment> \<open>history: what \<open>getUsefulCpuNumber\<close> answered the I/O threads; -1 binds a thread to none\<close>

definition new_http_server :: "sock_kernel \<Rightarrow> nat \<Rightarrow> (nat \<Rightarrow> nat loop) \<Rightarrow> address \<Rightarrow> int \<Rightarrow> 'd init \<Rightarrow> sock_history
    \<Rightarrow> fault + (http_server \<times> sock_history)" where
  "new_http_server sk base ls listenAddr taskProcesses conf t =
     ebind (new_tcp_server sk base ls listenAddr t) (\<lambda>(s, t1).
       Inr (\<lparr>threadPoolNumber = taskProcesses, tcpServer = s, httpCallback = defaultHttpCallback, pinned = cpuAffinity conf,
             taskThreads = 0, ioCpus = []\<rparr>, t1))"

definition setHttpCallback :: "http_callback \<Rightarrow> http_server \<Rightarrow> http_server" where
  "setHttpCallback cb h = h\<lparr>httpCallback := cb\<rparr>"

definition srv_setThreadNum :: "int \<Rightarrow> tcp_server \<Rightarrow> fault + tcp_server" where
  "srv_setThreadNum n s =
     (if n < 0 then Inl Assert_failed else Inr (s\<lparr>srv_pool := setThreadNum (nat n) (srv_pool s)\<rparr>))"

text \<open>
  Each new loop thread calls \<open>threadInitCallback\<close>, which asks for one more processor, before
  the next one is started. When all are taken, the thread is bound to none.
\<close>

definition threadInitCallback :: "'d init \<Rightarrow> int \<times> 'd init" where
  "threadInitCallback conf = (fst (getUsefulCpuNumber conf), setCPUAffinity conf)"

fun pin_threads :: "nat \<Rightarrow> 'd init \<Rightarrow> int list \<times> 'd init" where
  "pin_threads 0 conf = ([], conf)"
| "pin_threads (Suc n) conf =
     (let (cpu, conf1) = threadInitCallback conf; (cpus, conf2) = pin_threads n conf1 in (cpu # cpus, conf2))"

definition http_start :: "sock_kernel \<Rightarrow> kernel \<Rightarrow> (nat \<Rightarrow> nat) \<Rightarrow> http_server \<times> poller \<times> sock_history \<times> 'd init
    \<Rightarrow> fault + (http_server \<times> poller \<times> sock_history \<times> 'd init)" where
  "http_start sk k startLoop = (\<lambda>(h, p, t, conf).
     ebind (srv_start sk k startLoop (tcpServer h, p, t)) (\<lambda>(s, p1, t1).
       let (cpus, conf1) = (if pinned h \<and> \<not> srv_started (tcpServer h) then pin_threads (numThreads (srv_pool s)) conf
             else ([], conf))
       in Inr (h\<lparr>tcpServer := s, taskThreads := (if 0 < threadPoolNumber h then nat (threadPoolNumber h) else taskThreads h),
                ioCpus := ioCpus h @ cpus\<rparr>, p1, t1, conf1)))"

lemma pin_threads_spec:
  "pin_threads n conf =
     (map (\<lambda>i. if cpuUsedNumber conf + int i < cpuMaxNumber conf then cpuUsedNumber conf + int i else - 1) [0..<n],
      conf\<lparr>cpuUsedNumber := max (cpuUsedNumber conf) (min (cpuMaxNumber conf) (cpuUsedNumber conf + int n))\<rparr>)"
proof (induction n arbitrary: conf)
  case (Suc n)
  have u: "[0..<Suc n] = 0 # map Suc [0..<n]" by (metis map_Suc_upt upt_conv_Cons zero_less_Suc)
  show ?case
    by (simp add: Suc.IH threadInitCallback_def setCPUAffinity_def getUsefulCpuNumber_def u comp_def del: upt_Suc)
qed simp

section \<open>The program\<close>

text \<open>
  \<open>m\<close> is the thread of \<open>main\<close>, \<open>self\<close> its loop, and the numbers are what the calls that create
  its descriptors return. The log thread that \<open>Init::start\<close> starts when the log is
  asynchronous is the subject of \<open>AsyncLog\<close>; here it leaves no trace but its settings in
  \<open>async_log\<close>. The code calls \<open>std::stoi\<close> on \<open>task_processes\<close> when the loop exists, and on
  \<open>worker_processes\<close> when the server exists; here all numbers are read first. Where one cannot
  be read the exception ends the program, and so does the model, before these calls.
\<close>

definition launch :: "sock_kernel \<Rightarrow> kernel \<Rightarrow> nat \<Rightarrow> nat \<Rightarrow> int \<times> int \<times> int \<Rightarrow> (nat \<Rightarrow> nat loop) \<Rightarrow> (nat \<Rightarrow> nat) \<Rightarrow> http_callback
    \<Rightarrow> settings \<Rightarrow> sock_history \<times> 'd init \<Rightarrow> fault + (http_server \<times> loop_object \<times> sock_history \<times> 'd init)" where
  "launch sk k m self fds ls startLoop cb st = (\<lambda>(t, conf).
     ebind (case fds of (ep, tf, ev) \<Rightarrow> new_loop_object k Map.empty m self ep tf ev) (\<lambda>(lo, ts).
     ebind (new_http_server sk self ls (sin_addr st, sin_port st) (thread_pool st) conf t) (\<lambda>(h, t1).
     let h1 = setHttpCallback cb h
     in ebind (srv_setThreadNum (io_threads st) (tcpServer h1)) (\<lambda>s.
        ebind (http_start sk k startLoop (h1\<lparr>tcpServer := s\<rparr>, loop_poller lo, t1, conf)) (\<lambda>(h2, p, t2, conf2).
          Inr (h2, lo\<lparr>loop_poller := p\<rparr>, t2, conf2))))))"

definition program :: "('d, 'x) numbers_scheme \<Rightarrow> (bytes \<Rightarrow> int option) \<Rightarrow> (bytes \<Rightarrow> 32 word option) \<Rightarrow> (bytes \<Rightarrow> small_file)
    \<Rightarrow> int \<Rightarrow> sock_kernel \<Rightarrow> kernel \<Rightarrow> nat \<Rightarrow> nat \<Rightarrow> int \<times> int \<times> int \<Rightarrow> (nat \<Rightarrow> nat loop) \<Rightarrow> (nat \<Rightarrow> nat) \<Rightarrow> bytes
    \<Rightarrow> (bytes \<Rightarrow> send_file) \<Rightarrow> bytes list \<Rightarrow> fault + (http_server \<times> loop_object \<times> sock_history \<times> 'd init)" where
  "program fl lc inet_pton file_at processors sk k m self fds ls startLoop favicon open_file argv =
     ebind (main_start fl lc inet_pton file_at processors argv) (\<lambda>(st, conf).
       launch sk k m self fds ls startLoop (message favicon open_file) st ([], conf))"

text \<open>
  C35: The program gets to its loop with the settings of a configuration that
  \<open>main_start\<close> accepts, when the number of I/O threads is not negative and the system calls succeed. It
  has opened one stream socket, made its address reusable, bound it to the configured
  address and port and listened on it, in this order; the kernel watches exactly this
  socket, edge-triggered, and the timer and the wake-up descriptor of the loop; there is one
  I/O loop for each of \<open>worker_processes\<close> and one worker for each of \<open>task_processes\<close>, and
  requests go to \<open>message\<close>. With \<open>cpu_affinity\<close> the main thread has taken processor 0, and the
  I/O threads have taken the next ones in turn for as long as there were any; those behind
  the last processor are bound to none.
\<close>

theorem program_listens:
  assumes "main_start fl lc inet_pton file_at processors argv = Inr (st, conf)" and "0 \<le> io_threads st"
    and "epoll_contract k" and "0 \<le> ep" and "0 \<le> tf" and "0 \<le> ev" and "0 \<le> d" and "distinct [tf, ev, d]"
    and "sk [] (SysSocket Stream) = Answer d"
    and "\<forall>t. 0 \<le> returned (sk t (SysBind d (sin_addr st, sin_port st)))" and "\<forall>t. 0 \<le> returned (sk t (SysListen d))"
  shows "\<exists>h lo t'. program fl lc inet_pton file_at processors sk k m self (ep, tf, ev) ls startLoop favicon open_file argv
      = Inr (h, lo, t', if cpuAffinity conf then conf\<lparr>cpuUsedNumber := max 0 (min processors (1 + io_threads st))\<rparr> else conf)
    \<and> calls_of t' = [SysSocket Stream, SysOpenNull, SysSetsockopt d SO_REUSEADDR 1, SysSetsockopt d SO_REUSEPORT 1,
        SysBind d (sin_addr st, sin_port st), SysListen d]
    \<and> (\<forall>f. interest (calls (loop_poller lo)) f = (if f = nat d then Some kReadEventET
        else if f = nat tf \<or> f = nat ev then Some kReadEventLT else None))
    \<and> loops (srv_pool (tcpServer h)) = map startLoop [0..<nat (io_threads st)]
    \<and> taskThreads h = nat (thread_pool st) \<and> httpCallback h = message favicon open_file
    \<and> ioCpus h = (if cpuAffinity conf
        then map (\<lambda>i. if 1 + int i < processors then 1 + int i else - 1) [0..<nat (io_threads st)] else [])"
proof -
  obtain lo where lo: "new_loop_object k Map.empty m self ep tf ev = Inr (lo, [m \<mapsto> self])"
    "\<forall>f. interest (calls (loop_poller lo)) f = (if f = nat tf \<or> f = nat ev then Some kReadEventLT else None)"
    using new_loop_object_watches [of k Map.empty m ep tf ev self] assms(3-8) by auto
  have "interest (calls (loop_poller lo)) (nat d) = None" using lo(2) assms(5-8) by auto
  then obtain s t where s: "new_tcp_server sk self ls (sin_addr st, sin_port st) [] = Inr (s, t)" "fd (acceptChannel s) = nat d"
    "calls_of t = [SysSocket Stream, SysOpenNull, SysSetsockopt d SO_REUSEADDR 1, SysSetsockopt d SO_REUSEPORT 1,
        SysBind d (sin_addr st, sin_port st)]" "\<not> srv_started s" "srv_pool s = new_loop_pool self" "events (acceptChannel s) = 0"
    "in_step (acceptChannel s) (loop_poller lo)"
    using new_tcp_server_spec [of "loop_poller lo" d sk "[]" "(sin_addr st, sin_port st)" self ls] assms(7,9,10) by auto
  let ?s = "s\<lparr>srv_pool := setThreadNum (nat (io_threads st)) (srv_pool s)\<rparr>"
  have l: "0 \<le> returned (sk t (SysListen (int (fd (acceptChannel ?s)))))" using assms(7,11) s(2) by simp
  obtain s' p' t' where r: "srv_start sk k startLoop (?s, loop_poller lo, t) = Inr (s', p', t')" "in_step (acceptChannel s') p'"
    "events (acceptChannel s') = kReadEventET" "fd (acceptChannel s') = nat d" "status (acceptChannel s') = kAdded"
    "numThreads (srv_pool s') = nat (io_threads st)" "\<forall>g. g \<noteq> nat d \<longrightarrow> interest (calls p') g = interest (calls (loop_poller lo)) g"
    "loops (srv_pool s') = map startLoop [0..<nat (io_threads st)]" "calls_of t' = calls_of t @ [SysListen d]"
    using srv_start_listens [of k ?s "loop_poller lo" sk t startLoop] assms(3,7) l s by (auto simp: setThreadNum_def new_loop_pool_def)
  have "interest (calls p') f = (if f = nat d then Some kReadEventET else if f = nat tf \<or> f = nat ev then Some kReadEventLT else None)" for f
    using r(2-5,7) lo(2) by (auto simp: in_step_def)
  moreover have cpus: "pin_threads (nat (io_threads st)) conf
      = (map (\<lambda>i. if 1 + int i < processors then 1 + int i else - 1) [0..<nat (io_threads st)],
         conf\<lparr>cpuUsedNumber := max 0 (min processors (1 + io_threads st))\<rparr>)" if "cpuAffinity conf"
    using main_start_cpus [OF assms(1)] that assms(2) by (auto simp: pin_threads_spec main_cpus_def max_def min_def)
  ultimately show ?thesis
    using assms(1,2) lo(1) s r
    by (simp add: Let_def program_def launch_def new_http_server_def setHttpCallback_def srv_setThreadNum_def http_start_def)
qed

definition quoted :: "bytes \<Rightarrow> bytes" where
  "quoted s = [CHR 0x22] @ s @ [CHR 0x22]"

definition sample_config :: bytes where
  "sample_config =
     ''{'' @ quoted ''log'' @ '':{'' @ quoted ''ansync_started'' @ '':'' @ quoted ''off'' @ ''},''
     @ quoted ''port'' @ '':8080,'' @ quoted ''cpu_affinity'' @ '':'' @ quoted ''on'' @ '',''
     @ quoted ''task_processes'' @ '':0,'' @ quoted ''worker_processes'' @ '':2}''"

definition plain_cast :: "bytes \<Rightarrow> int option" where
  "plain_cast s = (case stoi s of Inr v \<Rightarrow> Some v | Inl e \<Rightarrow> None)"

lemma sample_settings:
  "case main_start plain_numbers plain_cast (\<lambda>a. None) (\<lambda>path. Inr (Inr sample_config)) 2 [''ssxrver''] of
     Inr (st, conf) \<Rightarrow> io_threads st = 2 \<and> thread_pool st = 0 \<and> cpuAffinity conf
   | Inl e \<Rightarrow> False"
  by code_simp

lemma program_listens_witness:
  "\<exists>h lo t' conf'. program plain_numbers plain_cast (\<lambda>a. None) (\<lambda>path. Inr (Inr sample_config)) 2 (\<lambda>t c. Answer 6) plain_kernel 1 0
       (3, 4, 5) (\<lambda>l. new_loop) (\<lambda>i. i + 1) [] (\<lambda>f. \<lparr>inFd = 5, offset = 0, sendLen = 0\<rparr>) [''ssxrver''] = Inr (h, lo, t', conf')
     \<and> interest (calls (loop_poller lo)) 6 = Some kReadEventET \<and> loops (srv_pool (tcpServer h)) = [1, 2]
     \<and> ioCpus h = [1, - 1]"
proof -
  obtain st conf where c: "main_start plain_numbers plain_cast (\<lambda>a. None) (\<lambda>path. Inr (Inr sample_config)) 2 [''ssxrver''] = Inr (st, conf)"
    "io_threads st = 2" "cpuAffinity conf"
    using sample_settings by (auto split: sum.split_asm prod.split_asm)
  have "[0..<2 :: nat] = [0, 1]" by (simp add: upt_rec)
  then show ?thesis
    using program_listens [OF c(1) _ plain_kernel_contract, of 3 4 5 6 "\<lambda>t c. Answer 6" 1 0 "\<lambda>l. new_loop" "\<lambda>i. i + 1" "[]"
        "\<lambda>f. \<lparr>inFd = 5, offset = 0, sendLen = 0\<rparr>"] c(2,3)
    by fastforce
qed

end
