(* ===== verification/Udp.thy ===== *)
theory Udp
  imports Sockets Buffer Poller EventLoop
begin

text \<open>
  \<open>net/UdpServer.cpp\<close>, which nothing in the program uses. The answers of \<open>recvfrom\<close> are a list,
  like those of \<open>accept\<close> in \<open>Acceptor\<close>; a functor of its loop is a peer with a buffer. The
  lemmas show why it cannot work as it is: it listens on a datagram socket, and it does not
  tell its buffer how much was received.
\<close>

definition kUdpPacketSize :: nat where
  "kUdpPacketSize = 65535"

record udp_server =
  udp_started :: bool
  udpChannel :: channel
  udp_loop :: "(address \<times> buffer) loop"
  udp_message :: "(buffer \<Rightarrow> buffer \<Rightarrow> buffer) option" \<comment> \<open>\<open>messageCallback_\<close>, with the buffer to send first\<close>

definition new_udp_server :: "sock_kernel \<Rightarrow> (address \<times> buffer) loop \<Rightarrow> address \<Rightarrow> sock_history \<Rightarrow> fault + (udp_server \<times> sock_history)" where
  "new_udp_server sk lp listenAddr t =
     ebind (createDgramNonblockingOrDie sk t) (\<lambda>(udpFd, t1).
     let t2 = setReusePort sk udpFd True (setReuseAddr sk udpFd True t1)
     in ebind (bindOrDie sk udpFd listenAddr t2) (\<lambda>(r, t3).
        Inr (\<lparr>udp_started = False, udpChannel = setCallback ReadCb (new_channel (nat udpFd)), udp_loop = lp, udp_message = None\<rparr>, t3)))"

definition setMessageCallback :: "(buffer \<Rightarrow> buffer \<Rightarrow> buffer) \<Rightarrow> udp_server \<Rightarrow> udp_server" where
  "setMessageCallback cb u = u\<lparr>udp_message := Some cb\<rparr>"

definition udpSocketListen :: "sock_kernel \<Rightarrow> kernel \<Rightarrow> udp_server \<times> poller \<times> sock_history
    \<Rightarrow> fault + (udp_server \<times> poller \<times> sock_history)" where
  "udpSocketListen sk k = (\<lambda>(u, p, t).
     ebind (listenOrDie sk (int (fd (udpChannel u))) t) (\<lambda>(r, t').
     ebind (enableEvents k kReadEventET (udpChannel u) p) (\<lambda>(ch, p').
       Inr (u\<lparr>udpChannel := ch\<rparr>, p', t'))))"

text \<open>\<open>start\<close>, from the thread of the loop.\<close>

definition udp_start :: "sock_kernel \<Rightarrow> kernel \<Rightarrow> udp_server \<times> poller \<times> sock_history
    \<Rightarrow> fault + (udp_server \<times> poller \<times> sock_history)" where
  "udp_start sk k = (\<lambda>(u, p, t).
     if \<not> udp_started u then udpSocketListen sk k (u\<lparr>udp_started := True\<rparr>, p, t) else Inr (u, p, t))"

text \<open>The destructor closes the socket, and the one of its channel closes it once more.\<close>

definition udp_destructor :: "sock_kernel \<Rightarrow> kernel \<Rightarrow> udp_server \<times> poller \<times> sock_history \<Rightarrow> fault + (poller \<times> sock_history)" where
  "udp_destructor sk k = (\<lambda>(u, p, t).
     let t1 = sock_close sk (int (fd (udpChannel u))) t in ebind (ch_destroy k (udpChannel u) p) (\<lambda>p'. Inr (p', t1)))"

datatype received = Received address bytes | No_data | Recv_error

text \<open>What \<open>recvfrom\<close> writes goes behind \<open>beginWrite\<close>; \<open>hasWritten\<close> is not called.\<close>

definition received_into :: "bytes \<Rightarrow> buffer" where
  "received_into data =
     (let b = new_buffer kUdpPacketSize
      in b\<lparr>buf := splice_at (writerIndex b) (take (writeableBytes b) data) (buf b)\<rparr>)"

fun udpHandRead :: "received list \<Rightarrow> udp_server \<Rightarrow> bool \<times> udp_server" where
  "udpHandRead [] u = (False, u)"
| "udpHandRead (No_data # xs) u = (True, u)"
| "udpHandRead (Recv_error # xs) u = udpHandRead xs u"
| "udpHandRead (Received peerAddr data # xs) u =
     udpHandRead xs (u\<lparr>udp_loop := el_queueInLoop True (peerAddr, received_into data) (udp_loop u)\<rparr>)"

text \<open>The functor that is queued. An empty \<open>messageCallback_\<close> throws.\<close>

definition udpSend :: "sock_kernel \<Rightarrow> udp_server \<Rightarrow> address \<Rightarrow> buffer \<Rightarrow> sock_history \<Rightarrow> fault + sock_history" where
  "udpSend sk u peer recvBuf t =
     (case udp_message u of
        None \<Rightarrow> Inl Fatal
      | Some cb \<Rightarrow> Inr (snd (sock_sendto sk (int (fd (udpChannel u))) (contents (cb (new_buffer kUdpPacketSize) recvBuf)) peer t)))"

section \<open>It does not start\<close>

text \<open>listen(2): a datagram socket does not support it.\<close>

definition dgram_listen :: "sock_kernel \<Rightarrow> bool" where
  "dgram_listen sk \<longleftrightarrow> (\<forall>t d. (SysSocket Dgram, Answer d) \<in> set t \<longrightarrow> sk t (SysListen d) = Errno 95)"

definition plain_sockets :: sock_kernel where
  "plain_sockets t c =
     (case c of SysSocket kd \<Rightarrow> Answer 3
      | SysListen d \<Rightarrow> (if (SysSocket Dgram, Answer d) \<in> set t then Errno 95 else Answer 0)
      | _ \<Rightarrow> Answer 0)"

lemma plain_dgram_listen: "dgram_listen plain_sockets"
  by (simp add: dgram_listen_def plain_sockets_def)

lemma try_sys_keeps: "set t \<subseteq> set (try_sys sk c t)"
  by (auto simp: try_sys_def sys_call_def)

text \<open>Starting a new UDP server ends the program.\<close>

lemma udp_start_dies:
  assumes "dgram_listen sk" and "\<forall>t a. sk t (SysSocket Dgram) \<noteq> Address a"
    and "new_udp_server sk lp addr t = Inr (u, t')"
  shows "udp_start sk k (u, p, t') = Inl Fatal"
proof -
  obtain d t1 r where c: "createDgramNonblockingOrDie sk t = Inr (d, t1)"
    and b: "bindOrDie sk d addr (setReusePort sk d True (setReuseAddr sk d True t1)) = Inr (r, t')"
    and u: "fd (udpChannel u) = nat d" "\<not> udp_started u"
    using assms(3) by (auto simp: new_udp_server_def ebind_eq_Inr Let_def new_channel_def setCallback_def)
  have s: "d = returned (sk t (SysSocket Dgram))" "0 \<le> d" "t1 = t @ [(SysSocket Dgram, sk t (SysSocket Dgram))]"
    using c unfolding createDgramNonblockingOrDie_def by (auto elim: or_dieE)
  have d: "0 \<le> d" "(SysSocket Dgram, Answer d) \<in> set t1"
    using s assms(2) [rule_format, of t] by (cases "sk t (SysSocket Dgram)"; simp)+
  have "set t1 \<subseteq> set t'"
    using b try_sys_keeps unfolding bindOrDie_def setReusePort_def setReuseAddr_def by (elim or_dieE) (simp, blast)
  then have "sk t' (SysListen d) = Errno 95" using d(2) assms(1) unfolding dgram_listen_def by blast
  then show ?thesis
    using u d(1) by (simp add: udp_start_def udpSocketListen_def listenOrDie_def or_die_def sys_call_def)
qed

section \<open>It does not see what it receives\<close>

lemma received_unseen: "readableBytes (received_into data) = 0"
  by (simp add: received_into_def readableBytes_def new_buffer_def size_sub_def Let_def)

text \<open>Every functor queued for a datagram has a buffer without a byte to read.\<close>

lemma udp_functors_empty:
  assumes "udpHandRead xs u = (b, u')"
  shows "\<exists>fs. functors (udp_loop u') = functors (udp_loop u) @ fs \<and> (\<forall>(a, rb) \<in> set fs. readableBytes rb = 0)"
  using assms
proof (induction xs u arbitrary: b rule: udpHandRead.induct)
  case (4 a data xs u)
  then obtain fs where "functors (udp_loop u') = functors (el_queueInLoop True (a, received_into data) (udp_loop u)) @ fs"
    "\<forall>(a, rb) \<in> set fs. readableBytes rb = 0" by fastforce
  then show ?case
    by (intro exI [of _ "(a, received_into data) # fs"])
      (auto simp: el_queueInLoop_def el_push_def el_wakeup_def Let_def received_unseen split: if_split_asm)
qed auto

end
