(* ===== verification/Threads.thy ===== *)
theory Threads
  imports LogStream
begin

text \<open>
  \<open>base/CurrentThread.h\<close> and \<open>base/Thread.cpp\<close>: the thread id a thread remembers, and
  starting a thread, which waits on a latch until the new thread has stored its id. The
  lemmas show that \<open>start\<close> returns in every interleaving and its assert holds.
\<close>

section \<open>Thread ids\<close>

record thread_local =
  t_cachedTid :: int
  t_tidString :: bytes

definition new_thread_local :: thread_local where
  "new_thread_local = \<lparr>t_cachedTid = 0, t_tidString = []\<rparr>"

text \<open>The number is what \<open>gettid\<close> answers.\<close>

definition cur_tid :: "int \<Rightarrow> thread_local \<Rightarrow> int \<times> thread_local" where
  "cur_tid gettid l =
     (let l1 = (if t_cachedTid l = 0
        then l\<lparr>t_cachedTid := gettid, t_tidString := (if gettid < 0 then ''-'' else []) @ decimal (nat \<bar>gettid\<bar>) @ '' ''\<rparr>
        else l)
      in (t_cachedTid l1, l1))"

definition tidString :: "thread_local \<Rightarrow> bytes" where
  "tidString l = t_tidString l"

definition isMainThread :: "int \<Rightarrow> int \<Rightarrow> thread_local \<Rightarrow> bool \<times> thread_local" where
  "isMainThread gettid getpid l = (let (t, l1) = cur_tid gettid l in (t = getpid, l1))"

lemma cur_tid_cached: "gettid \<noteq> 0 \<Longrightarrow> cur_tid gettid l = (t, l1) \<Longrightarrow> cur_tid other l1 = (t, l1)"
  by (auto simp: cur_tid_def Let_def split: if_splits)

section \<open>Running a function in a thread\<close>

text \<open>How the function ends: with a return, an \<open>Exception\<close>, another standard exception, anything else.\<close>

datatype func_end = Returns | ThrowsException | ThrowsStd | ThrowsOther

text \<open>The first two handlers abort, the last one throws again out of the thread, which terminates.\<close>

fun func_caught :: "func_end \<Rightarrow> fault + unit" where
  "func_caught Returns = Inr ()"
| "func_caught ThrowsException = Inl Fatal"
| "func_caught ThrowsStd = Inl Fatal"
| "func_caught ThrowsOther = Inl Fatal"

text \<open>The positions of \<open>start\<close> in the caller and of \<open>runInThread\<close> in the new thread.\<close>

datatype thread_caller = StEntered | StWaiting | StReturned | StFailed

datatype thread_child = ChUnborn | ChBorn | ChStored | ChRunning | ChEnded | ChDied

record thread =
  thr_started :: bool
  thr_tid :: int
  latch :: nat
  caller :: thread_caller
  child :: thread_child

definition new_thread :: thread where
  "new_thread = \<lparr>thr_started = False, thr_tid = 0, latch = 1, caller = StEntered, child = ChUnborn\<rparr>"

text \<open>\<open>me\<close> is the id of the new thread and \<open>e\<close> how its function ends.\<close>

inductive thread_step :: "int \<Rightarrow> func_end \<Rightarrow> thread \<Rightarrow> thread \<Rightarrow> bool" for me e where
  start_twice: "caller s = StEntered \<Longrightarrow> thr_started s \<Longrightarrow> thread_step me e s (s\<lparr>caller := StFailed\<rparr>)"
| create: "caller s = StEntered \<Longrightarrow> \<not> thr_started s \<Longrightarrow>
     thread_step me e s (s\<lparr>thr_started := True, child := ChBorn, caller := StWaiting\<rparr>)"
| store_tid: "child s = ChBorn \<Longrightarrow> thread_step me e s (s\<lparr>thr_tid := fst (cur_tid me new_thread_local), child := ChStored\<rparr>)"
| count_down: "child s = ChStored \<Longrightarrow> thread_step me e s (s\<lparr>latch := latch s - 1, child := ChRunning\<rparr>)"
| run_func: "child s = ChRunning \<Longrightarrow>
     thread_step me e s (s\<lparr>child := (if func_caught e = Inr () then ChEnded else ChDied)\<rparr>)"
| latch_open: "caller s = StWaiting \<Longrightarrow> latch s = 0 \<Longrightarrow>
     thread_step me e s (s\<lparr>caller := (if 0 < thr_tid s then StReturned else StFailed)\<rparr>)"

inductive thread_steps :: "int \<Rightarrow> func_end \<Rightarrow> thread \<Rightarrow> thread \<Rightarrow> bool" for me e where
  thread_refl: "thread_steps me e s s"
| thread_more: "thread_steps me e s t \<Longrightarrow> thread_step me e t u \<Longrightarrow> thread_steps me e s u"

inductive_cases thread_stepE: "thread_step me e s t"

section \<open>Starting returns\<close>

definition thread_inv :: "int \<Rightarrow> thread \<Rightarrow> bool" where
  "thread_inv me s \<longleftrightarrow> caller s \<noteq> StFailed \<and> (thr_started s \<longleftrightarrow> caller s \<noteq> StEntered) \<and> (child s = ChUnborn \<longleftrightarrow> caller s = StEntered)
     \<and> latch s = (if child s \<in> {ChUnborn, ChBorn, ChStored} then 1 else 0)
     \<and> (child s \<notin> {ChUnborn, ChBorn} \<longrightarrow> thr_tid s = me) \<and> (caller s = StReturned \<longrightarrow> latch s = 0)"

lemma thread_inv_step: "0 < me \<Longrightarrow> thread_step me e s t \<Longrightarrow> thread_inv me s \<Longrightarrow> thread_inv me t"
  by (erule thread_stepE) (auto simp: thread_inv_def cur_tid_def new_thread_local_def split: if_split_asm)

lemma thread_inv_reached: "thread_steps me e new_thread s \<Longrightarrow> 0 < me \<Longrightarrow> thread_inv me s"
proof (induction new_thread s rule: thread_steps.induct)
  case thread_refl
  show ?case by (simp add: thread_inv_def new_thread_def)
next
  case (thread_more t u)
  then show ?case by (blast intro: thread_inv_step)
qed

definition thread_left :: "thread \<Rightarrow> nat" where
  "thread_left s = (case caller s of StEntered \<Rightarrow> 2 | StWaiting \<Rightarrow> 1 | _ \<Rightarrow> 0)
     + (case child s of ChUnborn \<Rightarrow> 5 | ChBorn \<Rightarrow> 4 | ChStored \<Rightarrow> 3 | ChRunning \<Rightarrow> 2 | _ \<Rightarrow> 0)"

lemma thread_step_less: "thread_step me e s t \<Longrightarrow> thread_inv me s \<Longrightarrow> thread_left t < thread_left s"
  by (erule thread_stepE) (auto simp: thread_inv_def thread_left_def split: thread_caller.splits thread_child.splits)

text \<open>
  \<open>Thread::start\<close> returns, with the id of the new thread stored, in every interleaving: until
  it has returned a step is possible, every step brings a measure down, and no assert fails.
\<close>

lemma thread_starts:
  assumes "0 < me" and "thread_steps me e new_thread s"
  shows "caller s \<noteq> StFailed" and "caller s = StReturned \<Longrightarrow> thr_started s \<and> thr_tid s = me"
    and "caller s \<noteq> StReturned \<Longrightarrow> \<exists>t. thread_step me e s t"
    and "thread_step me e s t \<Longrightarrow> thread_left t < thread_left s"
proof -
  have i: "thread_inv me s" by (rule thread_inv_reached [OF assms(2,1)])
  show "caller s \<noteq> StFailed" "caller s = StReturned \<Longrightarrow> thr_started s \<and> thr_tid s = me"
    using i by (auto simp: thread_inv_def split: if_split_asm)
  show "thread_step me e s t \<Longrightarrow> thread_left t < thread_left s" using i thread_step_less by blast
  assume "caller s \<noteq> StReturned"
  then show "\<exists>t. thread_step me e s t"
    using i by (cases "caller s"; cases "child s") (auto simp: thread_inv_def intro: thread_step.intros)
qed

end
