(* ===== verification/LogMacros.thy ===== *)
theory LogMacros
  imports AsyncLog
begin

text \<open>
  The macros of \<open>base/Logging.h\<close>, the constructors and the destructor of \<open>Logger\<close>, and its global
  state: the level and the output, which is \<open>stdout\<close> or, after \<open>initAsyncLogThreadLog\<close>, the
  log thread. The lemmas follow a fatal line to either output.
\<close>

section \<open>The global state\<close>

record logger =
  g_logLevel :: log_level
  g_output :: "async_log option" \<comment> \<open>\<open>None\<close> is \<open>defaultOutput\<close>, otherwise \<open>asyncOutput\<close>\<close>
  out_buffered :: bytes \<comment> \<open>the buffer of \<open>stdout\<close>\<close>
  out_written :: bytes

definition initLogLevel :: log_level where
  "initLogLevel = INFO"

definition new_logger :: logger where
  "new_logger = \<lparr>g_logLevel = initLogLevel, g_output = None, out_buffered = [], out_written = []\<rparr>"

definition setLogLevel :: "log_level \<Rightarrow> logger \<Rightarrow> logger" where
  "setLogLevel level lg = lg\<lparr>g_logLevel := level\<rparr>"

text \<open>\<open>setOutput(asyncOutput)\<close>. \<open>setFlush\<close> is called nowhere, so that \<open>g_flush\<close> stays \<open>defaultFlush\<close>.\<close>

definition setOutput :: "async_log \<Rightarrow> logger \<Rightarrow> logger" where
  "setOutput a lg = lg\<lparr>g_output := Some a\<rparr>"

definition defaultOutput :: "bytes \<Rightarrow> logger \<Rightarrow> logger" where
  "defaultOutput msg lg = lg\<lparr>out_buffered := out_buffered lg @ msg\<rparr>"

definition defaultFlush :: "logger \<Rightarrow> logger" where
  "defaultFlush lg = lg\<lparr>out_written := out_written lg @ out_buffered lg, out_buffered := []\<rparr>"

definition log_out :: "bytes \<Rightarrow> logger \<Rightarrow> fault + logger" where
  "log_out msg lg = (case g_output lg of
      None \<Rightarrow> Inr (defaultOutput msg lg)
    | Some a \<Rightarrow> ebind (al_append msg a) (\<lambda>a'. Inr (lg\<lparr>g_output := Some a'\<rparr>)))"

section \<open>The macros\<close>

datatype log_macro = LOG_DEBUG | LOG_INFO | LOG_WARN | LOG_ERROR | LOG_FATAL | LOG_SYSERR | LOG_SYSFATAL

fun level_num :: "log_level \<Rightarrow> nat" where
  "level_num DEBUG = 0"
| "level_num INFO = 1"
| "level_num WARN = 2"
| "level_num ERROR = 3"
| "level_num FATAL = 4"

text \<open>Only the first two compare with the level.\<close>

fun enabled :: "log_macro \<Rightarrow> log_level \<Rightarrow> bool" where
  "enabled LOG_DEBUG g = (level_num g \<le> level_num DEBUG)"
| "enabled LOG_INFO g = (level_num g \<le> level_num INFO)"
| "enabled _ g = True"

text \<open>The level, the error number and the function name of the constructor that is called.\<close>

fun macro_args :: "log_macro \<Rightarrow> int \<Rightarrow> bytes \<Rightarrow> log_level \<times> int \<times> bytes option" where
  "macro_args LOG_DEBUG err func = (DEBUG, 0, Some func)"
| "macro_args LOG_INFO err func = (INFO, 0, None)"
| "macro_args LOG_WARN err func = (WARN, 0, None)"
| "macro_args LOG_ERROR err func = (ERROR, 0, None)"
| "macro_args LOG_FATAL err func = (FATAL, 0, None)"
| "macro_args LOG_SYSERR err func = (ERROR, err, None)"
| "macro_args LOG_SYSFATAL err func = (FATAL, err, None)"

text \<open>A whole statement; the result says whether it has aborted the program.\<close>

definition log_do :: "('d \<Rightarrow> bytes) \<Rightarrow> bytes \<Rightarrow> (int \<Rightarrow> bytes) \<Rightarrow> bytes \<Rightarrow> int \<Rightarrow> bytes \<Rightarrow> int \<Rightarrow> log_macro \<Rightarrow> 'd log_item list \<Rightarrow> logger
    \<Rightarrow> fault + (bool \<times> logger)" where
  "log_do g12 tid strerror path line func err m xs lg =
     (if \<not> enabled m (g_logLevel lg) then Inr (False, lg)
      else let (level, errnum, fn) = macro_args m err func in
        ebind (log_statement g12 tid strerror path line level errnum fn xs) (\<lambda>(text_line, aborts).
        ebind (log_out text_line lg) (\<lambda>lg1. Inr (aborts, if aborts then defaultFlush lg1 else lg1))))"

section \<open>Fatal lines\<close>

lemma al_append_output: "al_append msg a = Inr a' \<Longrightarrow> log_output a' = log_output a"
  by (auto simp: al_append_def ebind_eq_Inr Let_def split: if_split_asm option.split_asm)

lemma statement_aborts: "log_statement g12 tid strerror path line level errnum fn xs = Inr (s, aborts) \<Longrightarrow> aborts \<longleftrightarrow> level = FATAL"
  by (auto simp: log_statement_def ebind_eq_Inr)

text \<open>On \<open>stdout\<close> a fatal line is written, with all that was waiting before it, when the program is aborted.\<close>

lemma fatal_line_written:
  assumes "m = LOG_FATAL \<or> m = LOG_SYSFATAL" and "g_output lg = None"
    and "log_do g12 tid strerror path line func err m xs lg = Inr (aborts, lg')"
  shows "aborts \<and> (\<exists>s. (\<exists>errnum. log_statement g12 tid strerror path line FATAL errnum None xs = Inr (s, True))
     \<and> out_written lg' = out_written lg @ out_buffered lg @ s)"
proof -
  obtain errnum where "macro_args m err func = (FATAL, errnum, None)" "enabled m (g_logLevel lg)" using assms(1) by auto
  with assms(2,3) statement_aborts show ?thesis
    by (fastforce simp: log_do_def ebind_eq_Inr log_out_def defaultOutput_def defaultFlush_def)
qed

text \<open>With the log thread it is only in the buffers of the thread, which ends with the program: no file gets it.\<close>

lemma fatal_line_lost:
  assumes "m = LOG_FATAL \<or> m = LOG_SYSFATAL" and "g_output lg = Some a"
    and "log_do g12 tid strerror path line func err m xs lg = Inr (aborts, lg')"
  shows "aborts \<and> (\<exists>a'. g_output lg' = Some a' \<and> log_output a' = log_output a) \<and> out_written lg' = out_written lg @ out_buffered lg"
proof -
  obtain errnum where "macro_args m err func = (FATAL, errnum, None)" "enabled m (g_logLevel lg)" using assms(1) by auto
  with assms(2,3) statement_aborts al_append_output show ?thesis
    by (fastforce simp: log_do_def ebind_eq_Inr log_out_def defaultFlush_def)
qed

end
