(* ===== verification/StackTrace.thy ===== *)
theory StackTrace
  imports Prelude
begin

text \<open>
  \<open>base/Exception\<close>: an exception keeps a message and the names of the functions on the stack.
  \<open>backtrace\<close>, \<open>backtrace_symbols\<close> and \<open>abi::__cxa_demangle\<close> are parameters; what \<open>sscanf\<close> makes of
  the two formats is written out. The lemmas show which frames get a readable name, that
  the array \<open>temp\<close> is large enough, and that each frame is one line.
\<close>

section \<open>The conversions of sscanf\<close>

text \<open>A conversion \<open>%[...]\<close> takes the longest run of characters of its set and fails on none.\<close>

definition scan_run :: "(char \<Rightarrow> bool) \<Rightarrow> nat \<Rightarrow> bytes \<Rightarrow> (bytes \<times> bytes) option" where
  "scan_run P width s =
     (let r = take width (takeWhile P s) in if r = [] then None else Some (r, drop (length r) s))"

definition any_width :: "bytes \<Rightarrow> nat" where
  "any_width s = length s"

definition kTemp :: nat where
  "kTemp = 128"

text \<open>\<open>"%*[^(]%*[^_]%127[^)+]"\<close>, when it makes its one assignment.\<close>

definition scan_mangled :: "bytes \<Rightarrow> bytes option" where
  "scan_mangled s =
     (case scan_run (\<lambda>c. c \<noteq> CHR ''('') (any_width s) s of
        None \<Rightarrow> None
      | Some (path, s1) \<Rightarrow>
          (case scan_run (\<lambda>c. c \<noteq> CHR ''_'') (any_width s1) s1 of
             None \<Rightarrow> None
           | Some (paren, s2) \<Rightarrow>
               (case scan_run (\<lambda>c. c \<noteq> CHR '')'' \<and> c \<noteq> CHR ''+'') 127 s2 of
                  None \<Rightarrow> None
                | Some (temp, rest) \<Rightarrow> Some temp)))"

definition c_space :: "char \<Rightarrow> bool" where
  "c_space c \<longleftrightarrow> c \<in> {CHR '' '', CHR 0x09, CHR 0x0A, CHR 0x0B, CHR 0x0C, CHR 0x0D}"

text \<open>\<open>"%127s"\<close>: space in front of the word is skipped.\<close>

definition scan_word :: "bytes \<Rightarrow> bytes option" where
  "scan_word s = map_option fst (scan_run (\<lambda>c. \<not> c_space c) 127 (dropWhile c_space s))"

section \<open>Exceptions\<close>

definition demangle :: "(bytes \<Rightarrow> bytes option) \<Rightarrow> bytes \<Rightarrow> bytes" where
  "demangle cxa_demangle symbol =
     (case (case scan_mangled symbol of None \<Rightarrow> None | Some temp \<Rightarrow> cxa_demangle temp) of
        Some demangled \<Rightarrow> demangled
      | None \<Rightarrow> (case scan_word symbol of Some temp \<Rightarrow> temp | None \<Rightarrow> symbol))"

record exception =
  message_ex :: bytes
  stack_ex :: bytes

definition kFrames :: nat where
  "kFrames = 100"

text \<open>The frames of the stack, innermost first; \<open>backtrace\<close> fills at most the array.\<close>

definition fillStackTrace :: "('a list \<Rightarrow> bytes list option) \<Rightarrow> (bytes \<Rightarrow> bytes option) \<Rightarrow> 'a list \<Rightarrow> exception \<Rightarrow> exception" where
  "fillStackTrace backtrace_symbols cxa_demangle frames e =
     (case backtrace_symbols (take kFrames frames) of
        None \<Rightarrow> e
      | Some strings \<Rightarrow> e\<lparr>stack_ex := stack_ex e @ concat (map (\<lambda>s. demangle cxa_demangle s @ [CHR 0x0A]) strings)\<rparr>)"

definition new_exception :: "('a list \<Rightarrow> bytes list option) \<Rightarrow> (bytes \<Rightarrow> bytes option) \<Rightarrow> 'a list \<Rightarrow> bytes \<Rightarrow> exception" where
  "new_exception backtrace_symbols cxa_demangle frames msg =
     fillStackTrace backtrace_symbols cxa_demangle frames \<lparr>message_ex = msg, stack_ex = []\<rparr>"

definition what :: "exception \<Rightarrow> bytes" where
  "what e = c_str (message_ex e)"

definition stackTrace :: "exception \<Rightarrow> bytes" where
  "stackTrace e = c_str (stack_ex e)"

section \<open>The array is large enough\<close>

lemma scan_run_length: "scan_run P n s = Some (r, s') \<Longrightarrow> length r \<le> n \<and> r \<noteq> []"
  by (auto simp: scan_run_def Let_def split: if_splits)

lemma scan_mangled_fits: "scan_mangled s = Some temp \<Longrightarrow> length temp < kTemp"
  by (auto simp: scan_mangled_def kTemp_def dest!: scan_run_length split: option.splits)

lemma scan_word_fits: "scan_word s = Some temp \<Longrightarrow> length temp < kTemp \<and> temp \<noteq> []"
  by (auto simp: scan_word_def kTemp_def dest!: scan_run_length)

section \<open>Which frames get a readable name\<close>

text \<open>A run of the set with something outside it behind.\<close>

lemma scan_run_stops:
  assumes "r \<noteq> []" and "\<forall>c \<in> set r. P c" and "s = [] \<or> \<not> P (hd s)" and "length r \<le> n"
  shows "scan_run P n (r @ s) = Some (r, s)"
proof -
  have "takeWhile P (r @ s) = r" using assms(2,3) by (cases s) (auto simp: takeWhile_append2)
  then show ?thesis using assms(1,4) by (simp add: scan_run_def)
qed

text \<open>
  The line of a frame in a shared object or an executable is \<open>path(name+offset) [address]\<close>. A
  name that begins with an underscore, as all mangled ones do, is found when the path has
  no parenthesis and the name at most 127 characters.
\<close>

lemma mangled_found:
  assumes "path \<noteq> []" and "CHR ''('' \<notin> set path" and "CHR '')'' \<notin> set name" and "CHR ''+'' \<notin> set name" and "length name < 127"
    and "rest = [] \<or> hd rest = CHR '')'' \<or> hd rest = CHR ''+''"
  shows "scan_mangled (path @ ''(_'' @ name @ rest) = Some (CHR ''_'' # name)"
proof -
  have a: "scan_run (\<lambda>c. c \<noteq> CHR ''('') n (path @ ''(_'' @ name @ rest) = Some (path, ''(_'' @ name @ rest)"
    if "length path \<le> n" for n
    using scan_run_stops [of path "\<lambda>c. c \<noteq> CHR ''(''" "''(_'' @ name @ rest" n] assms(1,2) that by auto
  have b: "scan_run (\<lambda>c. c \<noteq> CHR ''_'') n (''(_'' @ name @ rest) = Some (''('', CHR ''_'' # name @ rest)" if "0 < n" for n
    using scan_run_stops [of "''(''" "\<lambda>c. c \<noteq> CHR ''_''" "CHR ''_'' # name @ rest" n] that by simp
  have c: "scan_run (\<lambda>c. c \<noteq> CHR '')'' \<and> c \<noteq> CHR ''+'') 127 (CHR ''_'' # name @ rest) = Some (CHR ''_'' # name, rest)"
    using scan_run_stops [of "CHR ''_'' # name" "\<lambda>c. c \<noteq> CHR '')'' \<and> c \<noteq> CHR ''+''" rest 127] assms(3-6) by auto
  from a b c show ?thesis by (simp add: scan_mangled_def any_width_def)
qed

lemma frame_demangled:
  assumes "path \<noteq> []" and "CHR ''('' \<notin> set path" and "CHR '')'' \<notin> set name" and "CHR ''+'' \<notin> set name" and "length name < 127"
    and "rest = [] \<or> hd rest = CHR '')'' \<or> hd rest = CHR ''+''" and "dm (CHR ''_'' # name) = Some d"
  shows "demangle dm (path @ ''(_'' @ name @ rest) = d"
  using mangled_found [OF assms(1-6)] assms(7) by (simp add: demangle_def)

text \<open>A name the library does not know leaves the first word of the line, cut at 127 characters.\<close>

lemma frame_unknown:
  assumes "\<And>s. dm s = None" and "w \<noteq> []" and "\<forall>c \<in> set w. \<not> c_space c" and "s = [] \<or> c_space (hd s)"
  shows "demangle dm (w @ s) = take 127 w"
proof -
  have d: "dropWhile c_space (w @ s) = w @ s" using assms(2,3) by (cases w) auto
  have "takeWhile (\<lambda>c. \<not> c_space c) (w @ s) = w" using assms(3,4) by (cases s) (auto simp: takeWhile_append2)
  then have "scan_word (w @ s) = Some (take 127 w)" using assms(2) by (simp add: scan_word_def scan_run_def d)
  then show ?thesis using assms(1) by (simp add: demangle_def split: option.split)
qed

lemma demangle_not_empty:
  assumes "\<And>s. dm s \<noteq> Some []" and "symbol \<noteq> []"
  shows "demangle dm symbol \<noteq> []"
  using assms scan_word_fits [of symbol] by (auto simp: demangle_def split: option.splits)

section \<open>The trace has a line for each frame\<close>

fun lines :: "bytes list \<Rightarrow> bytes" where
  "lines [] = []"
| "lines (l # ls) = l @ [CHR 0x0A] @ lines ls"

text \<open>
  The trace is one line for each of the innermost hundred frames, in order.
\<close>

lemma trace_lines:
  assumes "\<And>fs. symbols fs = Some (map symbol fs)" and "\<And>a. symbol a \<noteq> []" and "\<And>a. kNul \<notin> set (demangle dm (symbol a))"
  shows "stackTrace (new_exception symbols dm frames msg) = lines (map (\<lambda>a. demangle dm (symbol a)) (take 100 frames))"
proof -
  have l: "concat (map (\<lambda>s. demangle dm s @ [CHR 0x0A]) (map symbol fs)) = lines (map (\<lambda>a. demangle dm (symbol a)) fs)" for fs
    by (induction fs) simp_all
  have "kNul \<notin> set (lines (map (\<lambda>a. demangle dm (symbol a)) fs))" for fs
    using assms(3) by (induction fs) (auto simp: kNul_def)
  then show ?thesis
    by (simp add: stackTrace_def new_exception_def fillStackTrace_def assms(1) l kFrames_def no_nul_c_str no_nul_def del: map_map)
qed

end
