(* ===== verification/Spec2Isabelle.thy ===== *)
theory Spec2Isabelle
  imports HttpSession EventLoop Timers ReplyParser AsyncLog TaskQueue Acceptor JsonChain JsonStore JsonHeap Sql Startup Udp Threads LogMacros StackTrace
begin

text \<open>
  A model of ssxrver, an HTTP server on one event loop per thread (Linux, epoll).

  \<^bold>\<open>The program.\<close> An \<open>EventLoop\<close> (\<open>net/EventLoop.cpp\<close>) blocks in \<open>Epoll::poll\<close>, runs the
  handlers of the channels that are ready and then the functors other threads have queued.
  A \<open>Channel\<close> is one descriptor with its event mask and callbacks; \<open>Epoll\<close> keeps the kernel's
  interest set, the open connections and a pool of closed ones for reuse. \<open>TimerManager\<close> is
  a priority queue behind one timerfd. A \<open>TcpConnection\<close> owns a channel, an input and an
  output \<open>Buffer\<close>, a file to send and the parser of its requests. \<open>HttpServer::onMessage\<close>
  gives the input to the parser (a Ragel machine, \<open>http/http11_parser.cpp\<close>), collects the
  body, calls the handler \<open>httpCallback_\<close> and sends the response. \<open>TcpServer\<close> accepts
  connections and hands them to the loops of \<open>EventLoopThreadPool\<close> in turn. Beside the server
  stand the log (\<open>base/Logging.cpp\<close> formats, \<open>base/AsyncLogThread.cpp\<close> writes), a pool of
  worker threads on a two-lock queue, and a parser for responses that a client would use.
  \<open>main\<close> reads a configuration (\<open>util/Init.cpp\<close>) with \<open>CJsonObject\<close>, a class around the C library
  \<open>cJSON.c\<close>; \<open>MySQL\<close> builds SQL statements from such objects.

  \<^bold>\<open>The theories\<close>, each importing those it calls:
  \<^item> \<open>Prelude\<close>: bytes, \<open>size_t\<close> subtraction, \<open>signed char\<close>, the faults (a failed assert, a fatal
    log, a null dereference, a range outside a buffer) as the left side of a sum, and big
    endian bytes.
  \<^item> \<open>Buffer\<close>: \<open>net/Buffer.h\<close> and \<open>net/Buffer.cpp\<close>, every operation but \<open>internalCapacity\<close>.
  \<^item> \<open>Poller\<close>: \<open>net/Channel\<close> and \<open>net/Epoll\<close> on a kernel given by its answers.
  \<^item> \<open>EventLoop\<close>: \<open>net/EventLoop\<close> as a step relation of the loop thread and its clients, and
    \<open>runFunctors\<close> as a function.
  \<^item> \<open>LoopObject\<close>: constructing and destroying an \<open>EventLoop\<close> with its descriptors.
  \<^item> \<open>Timers\<close>: \<open>net/Timer.h\<close>, \<open>net/TimerManager\<close> and the entry points of \<open>EventLoop\<close>.
  \<^item> \<open>TcpConnection\<close>: \<open>net/TcpConnection\<close>, the file sender of \<open>base/File.h\<close> and
    \<open>Epoll::createConnection\<close>.
  \<^item> \<open>Ragel\<close>: how generated code runs, for any table of moves. \<open>HttpActions\<close>, \<open>HttpStates1\<close> to
    \<open>HttpStates5\<close>, \<open>HttpMachine\<close>: \<open>http/http11_parser.cpp\<close>, one definition per state, one per
    label \<open>tr\<close>, and the functions around them. \<open>HttpGrammar\<close>: what the machine does on the
    text of a request.
  \<^item> \<open>HttpMessage\<close>: \<open>http/HttpRequest.h\<close>, the request side of \<open>http/HttpParser.cpp\<close>,
    \<open>http/HttpResponse\<close> and the application's handler \<open>message\<close> of \<open>util/Init.cpp\<close>.
  \<^item> \<open>HttpServer\<close>: \<open>http/HttpServer.cpp\<close>, all of the above put together. \<open>HttpSession\<close>: any number of
    requests on one connection.
  \<^item> \<open>Sockets\<close>: \<open>net/SocketOps.cpp\<close>, system calls as a history. \<open>Udp\<close>: \<open>net/UdpServer\<close>.
  \<^item> \<open>Acceptor\<close>: \<open>net/TcpServer\<close>, \<open>net/EventLoopThreadPool\<close>, \<open>net/EventLoopThread\<close> and
    \<open>socketops::accept\<close>, on the answers of the system calls.
  \<^item> \<open>ReplyActions\<close>, \<open>ReplyStates1\<close>, \<open>ReplyStates2\<close>, \<open>ReplyMachine\<close>: \<open>http/httpclient_parser.cpp\<close>,
    like the request machine; \<open>ReplySteps\<close> and \<open>ReplyGrammar\<close>: what it does on the text of a
    response. \<open>ReplyParser\<close>: the response side of \<open>http/HttpParser.cpp\<close>.
  \<^item> \<open>LogStream\<close>: \<open>base/LogStream\<close> and a statement of \<open>base/Logging\<close>. \<open>AsyncLog\<close>: \<open>WriteFile\<close> of
    \<open>base/File\<close>, \<open>base/LogFile\<close> and \<open>base/AsyncLogThread\<close>, the log thread and the threads that
    log as moves of any interleaving. \<open>LogMacros\<close>: the macros of \<open>base/Logging.h\<close> and its global state.
  \<^item> \<open>TaskQueue\<close>: \<open>base/ThreadSafeQueue.hpp\<close> on a heap of nodes, \<open>base/ThreadPool\<close> as a step
    relation, the destructor of \<open>base/Thread\<close>. \<open>Threads\<close>: \<open>base/CurrentThread.h\<close> and starting a
    \<open>base/Thread\<close>, as a step relation. \<open>StackTrace\<close>: \<open>base/Exception\<close>.
  \<^item> \<open>JsonString\<close> (the strings of \<open>util/cJSON.c\<close>), \<open>Json\<close> (its parser and its two printers),
    \<open>JsonRoundtrip\<close> (that they fit together). \<open>JsonTree\<close>: the items of \<open>util/cJSON.c\<close> as trees with
    addresses, in a store, and the operations on lists of items; \<open>JsonChain\<close>: the same operations on
    the pointers \<open>next\<close> and \<open>prev\<close>; \<open>JsonHeap\<close>: adding, references and deleting as blocks of memory. \<open>JsonObject\<close>: \<open>util/CJsonObject\<close>, one definition per overload
    (\<open>Add_key_int32\<close> is \<open>Add(const string&, int32)\<close>); \<open>JsonUse\<close>: what its methods do with each other;
    \<open>JsonStore\<close>: what any sequence of them does to the items that are alive.
  \<^item> \<open>Config\<close>: \<open>util/Init.cpp\<close>, \<open>main.cpp\<close> and \<open>SmallFile\<close> of \<open>base/File\<close>: what the server is started
    with. \<open>Startup\<close>: the server is made from it, \<open>main\<close> up to the call of \<open>loop\<close>. \<open>Sql\<close>: \<open>util/MySQL\<close> and \<open>util/MySQLOps\<close>.

  \<^bold>\<open>State.\<close> Objects are records with the fields of the class; a member that only names
  another object (the owning loop, the callbacks that are always set) is left out. A method
  takes the object, with the poller where the method reaches it, and returns the object
  updated, or a fault. Pointers into a buffer are offsets from its begin, pointers to timers
  and connections are numbers into a store. Sizes are \<open>nat\<close> with the wrap-around of
  \<open>size_t\<close> subtraction written out (\<open>size_sub\<close>); event masks and the integers of \<open>Buffer\<close> are
  words. Asserts are compiled in, except where \<open>ndebug\<close> says otherwise. Logging is left out
  where it does not end the program.

  \<^bold>\<open>Threads.\<close> Where threads meet, a locked section is one step of a relation, and so is what a
  thread does between two of them. A wait on a condition variable may end without a
  notification: in \<open>start_step\<close> (\<open>Spurious\<close>) and \<open>pool_step\<close> (\<open>spurious_wakeup\<close>) as a step of its
  own, after which the predicate is tested again; in \<open>AsyncLog\<close> the locked section may come at any
  time, as after a timeout. The two theorems that depend on it count these steps.

  \<^bold>\<open>Parameters\<close>, the parts that are not the program: the kernel's answer to \<open>epoll_ctl\<close> as a
  function of the calls made so far (\<open>epoll_contract\<close>: what epoll(7) says of it while the kernel
  has the memory and the watches it needs, so without \<open>ENOMEM\<close> and \<open>ENOSPC\<close>), the
  results of \<open>write\<close>, \<open>readv\<close> and \<open>sendfile\<close> as arguments of the operation that calls them
  (\<open>io\<close>), the answers of \<open>accept4\<close>, \<open>recvfrom\<close> and \<open>fwrite\<close>, those of the other calls on
  sockets as a function of the history (\<open>sock_kernel\<close>), the text \<open>snprintf\<close> makes of a double, the
  contents of files, the clock as the sequence of its readings, \<open>timerfd_settime\<close>
  (\<open>settime_contract\<close>: what timerfd_create(2) says of it), \<open>boost::lexical_cast\<close>, \<open>inet_pton\<close>,
  the answer of the database to the text of a statement (\<open>sql_server\<close>), the frames of the stack and the
  demangler of the compiler, what is computed with
  doubles (records \<open>floats\<close> and \<open>numbers\<close>, with \<open>plain_floats\<close> and \<open>plain_numbers\<close> as examples), and
  the application's handler. \<open>plain_kernel\<close> and \<open>plain_settime\<close> satisfy the contracts.

  \<^bold>\<open>What is proved.\<close>
  \<^item> A buffer is a queue of bytes: the locale \<open>byte_queue\<close>, interpreted on \<open>Buffer\<close>; reading from
    a descriptor, growth, line search, integers, and the two operations whose guards are not
    enough (\<open>shrink\<close>, \<open>unwrite\<close>).
  \<^item> Channel, poller and kernel agree on what is watched; removal, the order of callbacks.
  \<^item> The loop loses no wake-up and runs each functor once and in order; by rule induction over
    the reachable states.
  \<^item> The timers' heap order is that of a priority queue (locale \<open>prio_queue\<close>, interpreted on
    the code's comparison); a tick runs what has expired and no callback of the tick has
    cancelled before, whatever the callbacks do, and reschedules the rest; a cancelled timer
    never runs, a one-shot timer at most once, in all histories.
  \<^item> A connection's output is the concatenation of what was sent; shutting down loses none of
    it; closing releases everything and happens once; and where sending files or from
    other threads goes wrong.
  \<^item> The parser machine is sound (locale \<open>ragel_machine\<close>, interpreted on the 349 states): no assert
    fails on any input, requests are recognised as written, cutting the input does not
    change the control state, but it changes what the callbacks get.
  \<^item> A request of the plain form \<open>text_ok\<close> that arrives in one piece is answered with exactly the
    handler's response if this has no file, or with the 400 answer if its method is refused;
    so are all requests of a session, in order, while \<open>write\<close> takes any part of its data or
    fails in a way the code survives. A file follows its header when the kernel takes each at
    once. A body is collected over any number of reads, and an error outlives the reset.
  \<^item> The accept loop ends at \<open>EAGAIN\<close> and spreads the connections evenly. Starting a loop thread
    returns its loop, in a bounded number of steps beside spurious wake-ups, if that loop has
    not ended; if it has, the result may be null, or never come.
  \<^item> Responses are recognised as written when a NUL is behind the input and the status fits the
    enumeration; without either the call faults; and there are final states the code forgets.
  \<^item> A trace has a line for each frame, with the readable name if the mangled one fits.
  \<^item> Log lines have the text they should while they fit; the log thread loses and reorders
    nothing, except for overload, after \<open>stop\<close>, when \<open>fwrite\<close> takes nothing, and what of a message
    is longer than a buffer; files roll at their size.
  \<^item> The two-lock queue is a queue (locale \<open>fifo\<close>, interpreted on the linked nodes), each task is
    handed out once and in order, each worker runs the initial callback once before that, and a
    wake-up can be lost, so that a task waits for the next one or for a spurious wake-up.
  \<^item> What either JSON printer makes of a tree without doubles the parser reads back to the same
    tree, its integers with the sign and the double of the number printed; the parser
    ends on every text and stays in bounds, except on an unfinished unicode escape. The doubly linked
    chain does what the list operations do.
  \<^item> \<open>Get\<close> returns what \<open>Add\<close> has stored and other keys stay, walking over the keys gets each once,
    copies are separate, have the same texts, and the same tree up to these integers; and which
    numbers come out changed. After any sequence of methods
    each tree an object owns is freed once, by its destructor; on blocks of memory, \<open>cJSON_Delete\<close> frees
    what a tree owns, once, and nothing that a reference shares.
  \<^item> From a configuration that is accepted the program gets to listen on the configured address
    with the configured number of threads, if the system calls succeed; with \<open>cpu_affinity\<close> the
    threads take the processors in turn while there are any.
  \<^item> A number of the configuration is usable afterwards unless its key is missing; SQL statements have
    a part for each member, unquoted.

  \<^bold>\<open>Bounds.\<close> The servers, parsers of HTTP and queues need no fuel: their functions are total. The
  recursion of \<open>parse_value\<close> is bounded by a number that \<open>cJSON_Parse\<close> sets above the length of
  the text, which is enough (\<open>parse_returns\<close>); the loops over \<open>GetKey\<close> in \<open>Sql\<close> and \<open>keys_got\<close> by
  a number above the count of items, which is enough (\<open>enough_calls\<close>, \<open>keys_walked\<close>). \<open>delete_from\<close> and the loops of
  \<open>JsonChain\<close> and \<open>JsonHeap\<close> follow pointers as \<open>partial_function\<close>; on trees they return (\<open>delete_frees\<close>). The parsers' theorems ask for input
  below 2 GiB, since the C functions convert the length to \<open>int\<close> and assert the result.

  \<^bold>\<open>Not modelled.\<close> Failing allocations and the hooks that replace \<open>malloc\<close> in \<open>cJSON.c\<close> (unused),
  connecting to the database, the log thread as a part of \<open>Startup\<close> (it is the subject of
  \<open>AsyncLog\<close>), system calls that run out of kernel memory, setters that only store a callback, wrappers that only pass a system
  call on, and the test programs.
\<close>

end
